(* ===== verification/Prelude.thy ===== *)
theory Prelude
  imports Main "HOL-Library.Char_ord" "HOL-Library.Sublist"
begin

text \<open>
  What every component shares: results with errors as values, and the operations of the
  JavaScript standard library the sources use on strings.

  A JavaScript string is a sequence of UTF-16 code units.  The model is a \<open>string\<close> (a list of
  \<open>char\<close>), one \<open>char\<close> per code unit: the code units 0 to 255 are represented, and the chars from
  128 on play the part of every non-ASCII unit (the lexical rules of the program treat
  \<open>\u0080-\uffff\<close> alike).  Character classes are the ones of the regular expressions of the sources:
  \<open>js_space\<close> is \<open>\s\<close> (also what \<open>trim\<close> removes), \<open>js_word\<close> is \<open>\w\<close>, \<open>js_digit\<close> is \<open>\d\<close>.
\<close>

named_theorems js_simps
  \<open>characteristic equations of the string operations\<close>

named_theorems result_simps
  \<open>when a computation that may fail succeeds\<close>

subsection \<open>Results\<close>

type_synonym ('e, 'a) result = "'e + 'a"

fun rbind :: "('e, 'a) result \<Rightarrow> ('a \<Rightarrow> ('e, 'b) result) \<Rightarrow> ('e, 'b) result" where
  "rbind (Inl e) f = Inl e"
| "rbind (Inr x) f = f x"

lemma rbind_eq_Inr [result_simps]: "rbind m f = Inr y \<longleftrightarrow> (\<exists>x. m = Inr x \<and> f x = Inr y)"
  by (cases m) auto

lemma rbind_eq_Inl [result_simps]:
  "rbind m f = Inl e \<longleftrightarrow> m = Inl e \<or> (\<exists>x. m = Inr x \<and> f x = Inl e)"
  by (cases m) auto

text \<open>A list of computations run in order; the first error ends the run.\<close>

fun rmap :: "('a \<Rightarrow> ('e, 'b) result) \<Rightarrow> 'a list \<Rightarrow> ('e, 'b list) result" where
  "rmap f [] = Inr []"
| "rmap f (x # xs) = rbind (f x) (\<lambda>y. rbind (rmap f xs) (\<lambda>ys. Inr (y # ys)))"

lemma rmap_eq_Inr [result_simps]:
  "rmap f xs = Inr ys \<longleftrightarrow> list_all2 (\<lambda>x y. f x = Inr y) xs ys"
  by (induction xs arbitrary: ys) (auto simp: rbind_eq_Inr list_all2_Cons1)

lemma rmap_length: "rmap f xs = Inr ys \<Longrightarrow> length ys = length xs"
  by (auto simp: rmap_eq_Inr dest: list_all2_lengthD)

subsection \<open>Character classes\<close>

definition js_space :: "char \<Rightarrow> bool" where
  "js_space c \<longleftrightarrow> (let n = (of_char c :: nat) in 9 \<le> n \<and> n \<le> 13 \<or> n = 32 \<or> n = 160)"

definition js_digit :: "char \<Rightarrow> bool" where
  "js_digit c \<longleftrightarrow> CHR ''0'' \<le> c \<and> c \<le> CHR ''9''"

definition js_alpha :: "char \<Rightarrow> bool" where
  "js_alpha c \<longleftrightarrow> (CHR ''A'' \<le> c \<and> c \<le> CHR ''Z'') \<or> (CHR ''a'' \<le> c \<and> c \<le> CHR ''z'')"

definition js_word :: "char \<Rightarrow> bool" where
  "js_word c \<longleftrightarrow> js_alpha c \<or> js_digit c \<or> c = CHR ''_''"

definition non_ascii :: "char \<Rightarrow> bool" where
  "non_ascii c \<longleftrightarrow> CHR 0x80 \<le> c"

text \<open>ASCII case folding, as case-insensitive regular expressions (no \<open>u\<close> flag) apply it to ASCII letters.\<close>

definition lower_char :: "char \<Rightarrow> char" where
  "lower_char c = (if CHR ''A'' \<le> c \<and> c \<le> CHR ''Z''
     then (case c of Char b0 b1 b2 b3 b4 b5 b6 b7 \<Rightarrow> Char b0 b1 b2 b3 b4 True b6 b7) else c)"

definition upper_char :: "char \<Rightarrow> char" where
  "upper_char c = (if CHR ''a'' \<le> c \<and> c \<le> CHR ''z''
     then (case c of Char b0 b1 b2 b3 b4 b5 b6 b7 \<Rightarrow> Char b0 b1 b2 b3 b4 False b6 b7) else c)"

abbreviation to_lower :: "string \<Rightarrow> string" where
  "to_lower \<equiv> map lower_char"

abbreviation to_upper :: "string \<Rightarrow> string" where
  "to_upper \<equiv> map upper_char"

lemma js_space_not_word: "js_space c \<Longrightarrow> \<not> js_word c"
  by (auto simp: js_space_def js_word_def js_alpha_def js_digit_def Let_def less_eq_char_def)

lemma js_digit_not_space: "js_digit c \<Longrightarrow> \<not> js_space c"
  using js_space_not_word by (auto simp: js_word_def)

subsection \<open>Trimming, searching, replacing\<close>

definition trim_start :: "string \<Rightarrow> string" where
  "trim_start s = dropWhile js_space s"

definition trim_end :: "string \<Rightarrow> string" where
  "trim_end s = rev (dropWhile js_space (rev s))"

definition trim :: "string \<Rightarrow> string" where
  "trim s = trim_end (trim_start s)"

text \<open>\<open>s.slice(a, b)\<close> for indices \<open>0 \<le> a\<close>, \<open>0 \<le> b\<close>.\<close>

definition slice :: "nat \<Rightarrow> nat \<Rightarrow> string \<Rightarrow> string" where
  "slice a b s = take (b - a) (drop a s)"

text \<open>\<open>s.indexOf(p)\<close>: the first position of \<open>p\<close>, \<open>None\<close> for the \<open>-1\<close> of the source.\<close>

fun find_sub :: "string \<Rightarrow> string \<Rightarrow> nat option" where
  "find_sub p [] = (if p = [] then Some 0 else None)"
| "find_sub p (c # cs) = (if prefix p (c # cs) then Some 0 else map_option Suc (find_sub p cs))"

definition index_of :: "string \<Rightarrow> string \<Rightarrow> nat \<Rightarrow> nat option" where
  "index_of p s i = map_option (\<lambda>k. i + k) (find_sub p (drop i s))"

definition has_sub :: "string \<Rightarrow> string \<Rightarrow> bool" where
  "has_sub s p \<longleftrightarrow> find_sub p s \<noteq> None"

text \<open>\<open>s.replaceAll(q, r)\<close> for a one-character \<open>q\<close>.\<close>

definition replace_char :: "char \<Rightarrow> string \<Rightarrow> string \<Rightarrow> string" where
  "replace_char q r s = concat (map (\<lambda>c. if c = q then r else [c]) s)"

fun join :: "string \<Rightarrow> string list \<Rightarrow> string" where
  "join sep [] = []"
| "join sep [x] = x"
| "join sep (x # y # xs) = x @ sep @ join sep (y # xs)"

definition count_char :: "char \<Rightarrow> string \<Rightarrow> nat" where
  "count_char c s = length (filter (\<lambda>x. x = c) s)"

lemma replace_char_Nil [simp, js_simps]: "replace_char q r [] = []"
  by (simp add: replace_char_def)

lemma replace_char_Cons [simp, js_simps]:
  "replace_char q r (c # s) = (if c = q then r else [c]) @ replace_char q r s"
  by (simp add: replace_char_def)

lemma replace_char_append [js_simps]: "replace_char q r (s @ t) = replace_char q r s @ replace_char q r t"
  by (simp add: replace_char_def)

lemma replace_char_id: "q \<notin> set s \<Longrightarrow> replace_char q r s = s"
  by (induction s) auto

lemma set_replace_char_double: "set (replace_char q [q, q] s) = set s"
  by (induction s) auto

lemma find_sub_prefix: "find_sub p s = Some k \<Longrightarrow> prefix p (drop k s)"
  by (induction s arbitrary: k) (auto split: if_splits)

lemma find_sub_le: "find_sub p s = Some k \<Longrightarrow> k + length p \<le> length s"
proof (induction s arbitrary: k)
  case Nil
  then show ?case by (simp split: if_splits)
next
  case (Cons c s)
  then show ?case by (force split: if_splits dest: prefix_length_le)
qed

lemma find_sub_None: "find_sub p s = None \<Longrightarrow> \<not> prefix p (drop k s)"
proof (induction s arbitrary: k)
  case Nil
  then show ?case by (simp split: if_splits)
next
  case (Cons c s)
  then show ?case by (cases k) (simp_all split: if_splits)
qed

lemma find_sub_least: "find_sub p s = Some k \<Longrightarrow> j < k \<Longrightarrow> \<not> prefix p (drop j s)"
proof (induction s arbitrary: j k)
  case Nil
  then show ?case by (simp split: if_splits)
next
  case (Cons c s)
  then show ?case by (cases j) (auto split: if_splits)
qed

lemma index_of_bounds: "index_of p s i = Some k \<Longrightarrow> i \<le> length s \<Longrightarrow> i \<le> k \<and> k + length p \<le> length s"
  by (auto simp: index_of_def dest!: find_sub_le)

text \<open>The line breaks of a text.\<close>

definition newlines :: "string \<Rightarrow> nat" where
  "newlines s = count_char (CHR 0x0A) s"

lemma newlines_simps [simp]: "newlines [] = 0" "newlines (s @ t) = newlines s + newlines t"
  by (simp_all add: newlines_def count_char_def)

lemma newlines_Cons: "newlines (c # s) = (if c = CHR 0x0A then 1 else 0) + newlines s"
  by (simp add: newlines_def count_char_def)

lemma has_sub_char: "has_sub s [c] \<longleftrightarrow> c \<in> set s"
  by (induction s) (auto simp: has_sub_def)

lemma slice_length [js_simps]: "length (slice a b s) = min (b - a) (length s - a)"
  by (simp add: slice_def)

lemma dropWhile_length_le [simp]: "length (dropWhile P s) \<le> length s"
  by (induction s) auto

subsection \<open>Pieces of regular expressions\<close>

text \<open>
  A case-insensitive literal at the start of a text (the pattern is written in lower case), the same
  anywhere in it, the word boundary \<open>\b\<close> after a word character, and a run of blanks and tabs.
\<close>

definition ci_prefix :: "string \<Rightarrow> string \<Rightarrow> bool" where
  "ci_prefix p s \<longleftrightarrow> to_lower (take (length p) s) = p"

definition ci_has :: "string \<Rightarrow> string \<Rightarrow> bool" where
  "ci_has p s \<longleftrightarrow> has_sub (to_lower s) p"

definition word_ends :: "string \<Rightarrow> bool" where
  "word_ends s \<longleftrightarrow> (case s of [] \<Rightarrow> True | c # _ \<Rightarrow> \<not> js_word c)"

definition blank :: "char \<Rightarrow> bool" where
  "blank c \<longleftrightarrow> c = CHR '' '' \<or> c = CHR 0x09"

definition all_chars :: "(char \<Rightarrow> bool) \<Rightarrow> string \<Rightarrow> bool" where
  "all_chars P s \<longleftrightarrow> list_all P s"

text \<open>\<open>(?:\r?\n|$)\<close>: how many characters the rest of a line's end takes, if the text starts with one.\<close>

definition line_end :: "string \<Rightarrow> nat option" where
  "line_end s =
    (if s = [] then Some 0
     else if prefix [CHR 0x0D, CHR 0x0A] s then Some 2
     else if prefix [CHR 0x0A] s then Some 1
     else None)"

lemma line_end_le: "line_end s = Some k \<Longrightarrow> k \<le> length s"
  by (auto simp: line_end_def split: if_splits dest: prefix_length_le)

text \<open>The first alternative that succeeds.\<close>

fun first_some :: "('a \<Rightarrow> 'b option) \<Rightarrow> 'a list \<Rightarrow> 'b option" where
  "first_some f [] = None"
| "first_some f (x # xs) = (case f x of Some y \<Rightarrow> Some y | None \<Rightarrow> first_some f xs)"

subsection \<open>Decimal numbers\<close>

fun show_nat :: "nat \<Rightarrow> string" where
  "show_nat n = (if n < 10 then [char_of (48 + n)] else show_nat (n div 10) @ [char_of (48 + n mod 10)])"

declare show_nat.simps [simp del]

text \<open>The value of a string of digits, as \<open>Number(s)\<close> reads it.\<close>

definition digit_value :: "char \<Rightarrow> nat" where
  "digit_value c = of_char c - 48"

definition read_nat :: "string \<Rightarrow> nat" where
  "read_nat s = foldl (\<lambda>n c. 10 * n + digit_value c) 0 s"

lemma digit_value_show: "d < 10 \<Longrightarrow> digit_value (char_of (48 + d :: nat)) = d"
  by (simp add: digit_value_def of_char_of)

lemma js_digit_show: "d < 10 \<Longrightarrow> js_digit (char_of (48 + d :: nat))"
  by (simp add: js_digit_def less_eq_char_def of_char_of)

lemma show_nat_digits: "\<forall>c \<in> set (show_nat n). js_digit c"
proof (induction n rule: show_nat.induct)
  case (1 n)
  then show ?case
    by (subst show_nat.simps) (auto intro: js_digit_show)
qed

lemma show_nat_nonempty: "show_nat n \<noteq> []"
  by (subst show_nat.simps) simp

lemma read_nat_snoc: "read_nat (s @ [c]) = 10 * read_nat s + digit_value c"
  by (simp add: read_nat_def)

lemma read_show_nat [simp, js_simps]: "read_nat (show_nat n) = n"
proof (induction n rule: show_nat.induct)
  case (1 n)
  show ?case
  proof (cases "n < 10")
    case True
    then have "show_nat n = [] @ [char_of (48 + n)]" by (subst show_nat.simps) simp
    with True show ?thesis by (simp add: read_nat_def digit_value_show)
  next
    case False
    then have "show_nat n = show_nat (n div 10) @ [char_of (48 + n mod 10)]"
      by (subst show_nat.simps) simp
    with False 1 show ?thesis by (simp add: read_nat_snoc digit_value_show)
  qed
qed

lemma show_nat_inj [simp]: "show_nat m = show_nat n \<longleftrightarrow> m = n"
  by (metis read_show_nat)

end
