(* ===== verification/Dialects.thy ===== *)
theory Dialects
  imports Prelude
begin

text \<open>
  The two servers and what they differ in: \<open>packages/shared/src/capabilities.ts\<close> (the table of facts a
  caller reads instead of comparing the dialect), \<open>packages/adapter/src/sql/lexical-rules.ts\<close> (how each
  server reads SQL text), the namespace of a statement and the adapter's error.  Field names carry the
  prefix \<open>cap_\<close>, \<open>dump_\<close> or \<open>lex_\<close>; the rest of the name is the source's.
\<close>

datatype Dialect = Mysql | Postgres

datatype AdapterErrorCode =
  CONNECTION_FAILED | AUTH_FAILED | NOT_FOUND | QUERY_FAILED | KEY_MISMATCH | UNSUPPORTED
| PERMISSION_DENIED | VALIDATION

text \<open>The code and the message of an \<open>AdapterError\<close>; the optional details a driver adds are left out.\<close>

datatype AdapterError = AdapterError (err_code: AdapterErrorCode) (err_message: string)

record Namespace =
  ns_database :: string
  ns_schema :: "string option"

subsection \<open>Capabilities\<close>

datatype IdentifierUnit = Chars | Bytes

record IdentifierLimit =
  id_max :: nat
  id_unit :: IdentifierUnit
  id_accountMax :: "nat option"

record DumpCapabilities =
  dump_dropsInOneSection :: bool
  dump_dependencyCatalog :: bool
  dump_deferForeignKeys :: bool
  dump_materializedViews :: bool
  dump_lockTables :: bool
  dump_utc_set :: string
  dump_utc_restore :: "string option"

record DialectCapabilities =
  cap_identifierQuote :: char
  cap_accountHost :: bool
  cap_literalBackslashEscapes :: bool
  cap_identifier :: IdentifierLimit
  cap_transactionalDdl :: bool
  cap_beginTransaction :: string
  cap_foreignKeyChecksOff :: string
  cap_databasesAreSchemas :: bool
  cap_scriptDelimiter :: bool
  cap_copyDatabaseWithoutStructure :: bool
  cap_routineOverloads :: bool
  cap_events :: bool
  cap_connectionPerDatabase :: bool
  cap_collationDefaults :: bool
  cap_storageEngines :: bool
  cap_columnOrder :: bool
  cap_onUpdateTimestamp :: bool
  cap_partitionsAreTables :: bool
  cap_definer :: bool
  cap_statementProfiling :: bool
  cap_serverWideGrants :: bool
  cap_accountDatabases :: bool
  cap_accountResourceLimits :: bool
  cap_statementLogTables :: bool
  cap_replicaThreads :: bool
  cap_dump :: DumpCapabilities
  cap_noAutoValueOnZero :: bool
  cap_genericPlan :: bool

text \<open>The character code 39 (a single quote) is written \<open>CHR 0x27\<close> throughout.\<close>

abbreviation sq :: char where
  "sq \<equiv> CHR 0x27"

definition CAPABILITIES_mysql :: DialectCapabilities where
  "CAPABILITIES_mysql = \<lparr>
    cap_identifierQuote = CHR 0x60,
    cap_accountHost = True,
    cap_literalBackslashEscapes = True,
    cap_identifier = \<lparr>id_max = 64, id_unit = Chars, id_accountMax = Some 32\<rparr>,
    cap_transactionalDdl = False,
    cap_beginTransaction = ''START TRANSACTION'',
    cap_foreignKeyChecksOff = ''SET FOREIGN_KEY_CHECKS = 0'',
    cap_databasesAreSchemas = True,
    cap_scriptDelimiter = True,
    cap_copyDatabaseWithoutStructure = True,
    cap_routineOverloads = False,
    cap_events = True,
    cap_connectionPerDatabase = False,
    cap_collationDefaults = True,
    cap_storageEngines = True,
    cap_columnOrder = True,
    cap_onUpdateTimestamp = True,
    cap_partitionsAreTables = False,
    cap_definer = True,
    cap_statementProfiling = True,
    cap_serverWideGrants = True,
    cap_accountDatabases = True,
    cap_accountResourceLimits = True,
    cap_statementLogTables = True,
    cap_replicaThreads = True,
    cap_dump = \<lparr>
      dump_dropsInOneSection = False,
      dump_dependencyCatalog = False,
      dump_deferForeignKeys = False,
      dump_materializedViews = False,
      dump_lockTables = True,
      dump_utc_set =
        ''SET @OLD_TIME_ZONE = @@TIME_ZONE, TIME_ZONE = '' @ [sq] @ ''+00:00'' @ [sq],
      dump_utc_restore = Some ''SET TIME_ZONE = @OLD_TIME_ZONE''\<rparr>,
    cap_noAutoValueOnZero = True,
    cap_genericPlan = False\<rparr>"

definition CAPABILITIES_postgres :: DialectCapabilities where
  "CAPABILITIES_postgres = \<lparr>
    cap_identifierQuote = CHR 0x22,
    cap_accountHost = False,
    cap_literalBackslashEscapes = False,
    cap_identifier = \<lparr>id_max = 63, id_unit = Bytes, id_accountMax = None\<rparr>,
    cap_transactionalDdl = True,
    cap_beginTransaction = ''BEGIN'',
    cap_foreignKeyChecksOff = ''SET session_replication_role = replica'',
    cap_databasesAreSchemas = False,
    cap_scriptDelimiter = False,
    cap_copyDatabaseWithoutStructure = False,
    cap_routineOverloads = True,
    cap_events = False,
    cap_connectionPerDatabase = True,
    cap_collationDefaults = False,
    cap_storageEngines = False,
    cap_columnOrder = False,
    cap_onUpdateTimestamp = False,
    cap_partitionsAreTables = True,
    cap_definer = False,
    cap_statementProfiling = False,
    cap_serverWideGrants = False,
    cap_accountDatabases = False,
    cap_accountResourceLimits = False,
    cap_statementLogTables = False,
    cap_replicaThreads = False,
    cap_dump = \<lparr>
      dump_dropsInOneSection = True,
      dump_dependencyCatalog = True,
      dump_deferForeignKeys = True,
      dump_materializedViews = True,
      dump_lockTables = False,
      dump_utc_set = ''SET TIME ZONE '' @ [sq] @ ''UTC'' @ [sq],
      dump_utc_restore = None\<rparr>,
    cap_noAutoValueOnZero = False,
    cap_genericPlan = True\<rparr>"

fun capabilities :: "Dialect \<Rightarrow> DialectCapabilities" where
  "capabilities Mysql = CAPABILITIES_mysql"
| "capabilities Postgres = CAPABILITIES_postgres"

declare capabilities.simps [simp del]

lemmas capabilities_defs = capabilities.simps CAPABILITIES_mysql_def CAPABILITIES_postgres_def

subsection \<open>Lexical rules\<close>

record LexicalRules =
  lex_backtickIdentifiers :: bool
  lex_backslashEscapes :: bool
  lex_escapeStrings :: bool
  lex_dollarQuotes :: bool
  lex_nestedBlockComments :: bool
  lex_versionComments :: bool
  lex_hashComments :: bool
  lex_dashCommentNeedsSpace :: bool
  lex_delimiterCommand :: bool
  lex_tracksSqlMode :: bool
  lex_copyFromStdin :: bool
  lex_psqlMetaCommands :: bool
  lex_beginAtomic :: bool

fun lexicalRules :: "Dialect \<Rightarrow> LexicalRules" where
  "lexicalRules Mysql = \<lparr>
    lex_backtickIdentifiers = True,
    lex_backslashEscapes = cap_literalBackslashEscapes (capabilities Mysql),
    lex_escapeStrings = False,
    lex_dollarQuotes = False,
    lex_nestedBlockComments = False,
    lex_versionComments = True,
    lex_hashComments = True,
    lex_dashCommentNeedsSpace = True,
    lex_delimiterCommand = True,
    lex_tracksSqlMode = True,
    lex_copyFromStdin = False,
    lex_psqlMetaCommands = False,
    lex_beginAtomic = False\<rparr>"
| "lexicalRules Postgres = \<lparr>
    lex_backtickIdentifiers = False,
    lex_backslashEscapes = cap_literalBackslashEscapes (capabilities Postgres),
    lex_escapeStrings = True,
    lex_dollarQuotes = True,
    lex_nestedBlockComments = True,
    lex_versionComments = False,
    lex_hashComments = False,
    lex_dashCommentNeedsSpace = False,
    lex_delimiterCommand = False,
    lex_tracksSqlMode = False,
    lex_copyFromStdin = True,
    lex_psqlMetaCommands = True,
    lex_beginAtomic = True\<rparr>"

lemma backslashEscapes_iff [simp]:
  "lex_backslashEscapes (lexicalRules d) \<longleftrightarrow> d = Mysql"
  "cap_literalBackslashEscapes (capabilities d) \<longleftrightarrow> d = Mysql"
  by (cases d; simp add: capabilities_defs)+

lemma identifierQuote_simps [simp]:
  "cap_identifierQuote (capabilities Mysql) = CHR 0x60"
  "cap_identifierQuote (capabilities Postgres) = CHR 0x22"
  by (simp_all add: capabilities_defs)

end
