(* ===== verification/Lexer.thy ===== *)
theory Lexer
  imports Dialects
begin

text \<open>
  The scanner of SQL text, \<open>packages/adapter/src/sql/split.ts\<close>: \<open>scanToken\<close> (one literal, comment or
  PostgreSQL name), \<open>stripLeadingComments\<close> and \<open>stripComments\<close>.  The source passes the whole text and
  an index \<open>i\<close>; it only ever reads from \<open>i\<close> on, so the model passes the rest of the text from \<open>i\<close> on,
  and \<open>tok_end\<close> counts from there (the source's \<open>end - i\<close>).

  The lemmas show that a token is never empty and never runs past the text (what every loop over
  the text needs to make progress), and that a closed token is read the same whatever follows it.
\<close>

subsection \<open>Tokens\<close>

datatype TokenKind = Literal | Comment | LineComment | VersionComment | Word

record SqlToken =
  tok_kind :: TokenKind
  tok_end :: nat
  tok_closed :: bool

definition ident_start :: "char \<Rightarrow> bool" where
  "ident_start c \<longleftrightarrow> js_alpha c \<or> c = CHR ''_'' \<or> non_ascii c"

definition ident_cont :: "char \<Rightarrow> bool" where
  "ident_cont c \<longleftrightarrow> js_word c \<or> c = CHR ''$'' \<or> non_ascii c"

definition tag_cont :: "char \<Rightarrow> bool" where
  "tag_cont c \<longleftrightarrow> js_word c \<or> non_ascii c"

text \<open>\<open>DOLLAR_TAG\<close>: a dollar, an optional identifier without dollars, a dollar.\<close>

definition DOLLAR_TAG :: "string \<Rightarrow> string option" where
  "DOLLAR_TAG s = (case s of
     [] \<Rightarrow> None
   | c # r \<Rightarrow>
       if c = CHR ''$'' then
         (let name = takeWhile tag_cont r; rest = dropWhile tag_cont r in
          if rest \<noteq> [] \<and> hd rest = CHR ''$'' \<and> (name = [] \<or> ident_start (hd name))
          then Some (CHR ''$'' # name @ [CHR ''$'']) else None)
       else None)"

definition PG_WORD :: "string \<Rightarrow> string option" where
  "PG_WORD s = (case s of
     [] \<Rightarrow> None
   | c # r \<Rightarrow> if ident_start c then Some (c # takeWhile ident_cont r) else None)"

text \<open>
  The loop of \<open>quotedSpan\<close> over the text after the opening quote: how many characters the span takes
  from there, and whether its closing quote was found.
\<close>

definition advance :: "nat \<Rightarrow> nat \<times> bool \<Rightarrow> nat \<times> bool" where
  "advance k r = (k + fst r, snd r)"

fun quoted_rest :: "char \<Rightarrow> bool \<Rightarrow> string \<Rightarrow> nat \<times> bool" where
  "quoted_rest q backslash [] = (0, False)"
| "quoted_rest q backslash [c] =
     (if c = CHR 0x5C \<and> backslash then (1, False) else (1, c = q))"
| "quoted_rest q backslash (c # d # s) =
     (if c = CHR 0x5C \<and> backslash then advance 2 (quoted_rest q backslash s)
      else if c = q \<and> d = q then advance 2 (quoted_rest q backslash s)
      else if c = q then (1, True)
      else advance 1 (quoted_rest q backslash (d # s)))"

definition quotedSpan :: "char \<Rightarrow> bool \<Rightarrow> string \<Rightarrow> SqlToken" where
  "quotedSpan q backslash s = (let r = quoted_rest q backslash s in
     \<lparr>tok_kind = Literal, tok_end = 1 + fst r, tok_closed = snd r\<rparr>)"

text \<open>The body of a block comment, from the text after its opening, at nesting depth \<open>depth\<close>.\<close>

fun block_rest :: "bool \<Rightarrow> nat \<Rightarrow> string \<Rightarrow> nat \<times> bool" where
  "block_rest nested 0 s = (0, True)"
| "block_rest nested (Suc depth) [] = (0, False)"
| "block_rest nested (Suc depth) [c] = (1, False)"
| "block_rest nested (Suc depth) (c # e # s) =
     (if nested \<and> c = CHR ''/'' \<and> e = CHR ''*'' then advance 2 (block_rest nested (Suc (Suc depth)) s)
      else if c = CHR ''*'' \<and> e = CHR ''/'' then advance 2 (block_rest nested depth s)
      else advance 1 (block_rest nested (Suc depth) (e # s)))"

subsection \<open>scanToken, in the order of its tests\<close>

definition scan_quoted :: "LexicalRules \<Rightarrow> bool \<Rightarrow> string \<Rightarrow> SqlToken option" where
  "scan_quoted rules noBackslash s = (case s of
     [] \<Rightarrow> None
   | ch # r \<Rightarrow>
       if ch = sq \<or> ch = CHR 0x22 \<or> ch = CHR 0x60 \<and> lex_backtickIdentifiers rules
       then Some (quotedSpan ch (lex_backslashEscapes rules \<and> ch \<noteq> CHR 0x60 \<and> \<not> noBackslash) r)
       else None)"

definition scan_word :: "LexicalRules \<Rightarrow> string \<Rightarrow> SqlToken option" where
  "scan_word rules s =
    (if lex_dollarQuotes rules \<or> lex_escapeStrings rules then
       (case PG_WORD s of
          None \<Rightarrow> None
        | Some word \<Rightarrow>
            if lex_escapeStrings rules \<and> (word = ''E'' \<or> word = ''e'') \<and> take 1 (drop 1 s) = [sq]
            then Some (let t = quotedSpan sq True (drop 2 s) in t\<lparr>tok_end := 1 + tok_end t\<rparr>)
            else Some \<lparr>tok_kind = Word, tok_end = length word, tok_closed = True\<rparr>)
     else None)"

definition scan_dollar :: "string \<Rightarrow> SqlToken option" where
  "scan_dollar s = (case DOLLAR_TAG s of
     None \<Rightarrow> None
   | Some tag \<Rightarrow>
       (case index_of tag s (length tag) of
          None \<Rightarrow> Some \<lparr>tok_kind = Literal, tok_end = length s, tok_closed = False\<rparr>
        | Some e \<Rightarrow> Some \<lparr>tok_kind = Literal, tok_end = e + length tag, tok_closed = True\<rparr>))"

definition scan_block :: "LexicalRules \<Rightarrow> string \<Rightarrow> SqlToken" where
  "scan_block rules s =
    (let kind = (if lex_versionComments rules \<and> take 1 (drop 2 s) = ''!''
                 then VersionComment else Comment);
         r = block_rest (lex_nestedBlockComments rules) 1 (drop 2 s)
     in \<lparr>tok_kind = kind, tok_end = 2 + fst r, tok_closed = snd r\<rparr>)"

definition opens_line_comment :: "LexicalRules \<Rightarrow> string \<Rightarrow> bool" where
  "opens_line_comment rules s \<longleftrightarrow>
     prefix ''--'' s \<and>
       (\<not> lex_dashCommentNeedsSpace rules \<or> (case drop 2 s of [] \<Rightarrow> True | c # _ \<Rightarrow> js_space c))
   \<or> prefix ''#'' s \<and> lex_hashComments rules"

definition scanToken :: "Dialect \<Rightarrow> bool \<Rightarrow> string \<Rightarrow> SqlToken option" where
  "scanToken dialect noBackslash s =
    (let rules = lexicalRules dialect in
     case scan_quoted rules noBackslash s of Some t \<Rightarrow> Some t | None \<Rightarrow>
     case scan_word rules s of Some t \<Rightarrow> Some t | None \<Rightarrow>
     if prefix ''$'' s \<and> lex_dollarQuotes rules then scan_dollar s
     else if prefix ''/*'' s then Some (scan_block rules s)
     else if opens_line_comment rules s
       then Some \<lparr>tok_kind = LineComment, tok_end = length (takeWhile (\<lambda>c. c \<noteq> CHR 0x0A) s), tok_closed = True\<rparr>
     else None)"

lemmas scanToken_parts = scan_quoted_def scan_word_def scan_dollar_def scan_block_def quotedSpan_def

subsection \<open>A token is never empty and stays inside the text\<close>

lemma advance_simps [simp]: "fst (advance k r) = k + fst r" "snd (advance k r) = snd r"
  by (simp_all add: advance_def)

lemma quoted_rest_le: "fst (quoted_rest q b s) \<le> length s"
  by (induction q b s rule: quoted_rest.induct) auto

lemma block_rest_le: "fst (block_rest nested d s) \<le> length s"
  by (induction nested d s rule: block_rest.induct) auto

lemma PG_WORD_bounds: "PG_WORD s = Some w \<Longrightarrow> 0 < length w \<and> length w \<le> length s"
  by (auto simp: PG_WORD_def length_takeWhile_le split: list.splits if_splits)

lemma DOLLAR_TAG_bounds: "DOLLAR_TAG s = Some t \<Longrightarrow> 2 \<le> length t \<and> length t \<le> length s"
proof -
  assume t: "DOLLAR_TAG s = Some t"
  then obtain r where s: "s = CHR ''$'' # r" and ne: "dropWhile tag_cont r \<noteq> []"
    and t: "t = CHR ''$'' # takeWhile tag_cont r @ [CHR ''$'']"
    by (auto simp: DOLLAR_TAG_def Let_def split: list.splits if_splits)
  from ne have "length (takeWhile tag_cont r) < length r"
    by (metis takeWhile_dropWhile_id length_append length_greater_0_conv less_add_same_cancel1)
  with s t show ?thesis by simp
qed

lemma scan_quoted_bounds: "scan_quoted rules nb s = Some t \<Longrightarrow> 0 < tok_end t \<and> tok_end t \<le> length s"
  by (auto simp: scan_quoted_def quotedSpan_def Let_def quoted_rest_le split: list.splits if_splits)

lemma scan_word_bounds: "scan_word rules s = Some t \<Longrightarrow> 0 < tok_end t \<and> tok_end t \<le> length s"
proof -
  assume t: "scan_word rules s = Some t"
  then obtain w where w: "PG_WORD s = Some w" by (auto simp: scan_word_def split: if_splits option.splits)
  show ?thesis
  proof (cases "take 1 (drop 1 s) = [sq]")
    case True
    then have "2 \<le> length s" by (cases s; cases "tl s") auto
    with t w PG_WORD_bounds [OF w] quoted_rest_le [of sq True "drop 2 s"] show ?thesis
      by (auto simp: scan_word_def quotedSpan_def Let_def split: if_splits)
  next
    case False
    with t w PG_WORD_bounds [OF w] show ?thesis by (auto simp: scan_word_def split: if_splits)
  qed
qed

lemma scan_dollar_bounds: "scan_dollar s = Some t \<Longrightarrow> 0 < tok_end t \<and> tok_end t \<le> length s"
  by (fastforce simp: scan_dollar_def split: option.splits dest: DOLLAR_TAG_bounds index_of_bounds)

lemma scan_block_bounds: "prefix ''/*'' s \<Longrightarrow> 0 < tok_end (scan_block rules s) \<and> tok_end (scan_block rules s) \<le> length s"
  using block_rest_le [of "lex_nestedBlockComments rules" 1 "drop 2 s"]
  by (auto simp: scan_block_def Let_def dest: prefix_length_le)

lemma line_comment_bounds:
  "opens_line_comment rules s \<Longrightarrow>
   0 < length (takeWhile (\<lambda>c. c \<noteq> CHR 0x0A) s) \<and> length (takeWhile (\<lambda>c. c \<noteq> CHR 0x0A) s) \<le> length s"
  by (cases s) (auto simp: opens_line_comment_def length_takeWhile_le)

lemma scanToken_bounds: "scanToken d nb s = Some t \<Longrightarrow> 0 < tok_end t \<and> tok_end t \<le> length s"
  using scan_quoted_bounds scan_word_bounds scan_dollar_bounds scan_block_bounds line_comment_bounds
  by (fastforce simp: scanToken_def Let_def split: option.splits if_splits)

lemma scanToken_Nil [simp]: "scanToken d nb [] = None"
  using scanToken_bounds [of d nb "[]"] by (cases "scanToken d nb []") fastforce+

subsection \<open>Comments around a statement\<close>

text \<open>
  \<open>VERSION_COMMENT\<close> on a whole text: the code inside \<open>/*!40101 ... */\<close>, without the version number and
  the blanks around it.
\<close>

definition VERSION_COMMENT :: "string \<Rightarrow> string option" where
  "VERSION_COMMENT s =
    (if prefix ''/*!'' s \<and> suffix ''*/'' s \<and> 5 \<le> length s
     then Some (trim (dropWhile js_digit (slice 3 (length s - 2) s)))
     else None)"

lemma strip_step_less:
  assumes "scanToken d nb (dropWhile js_space s) = Some t"
  shows "length (dropWhile js_space s) - tok_end t < length s"
    and "length (dropWhile js_space s) - Suc (tok_end t) < length s"
  by (rule order_less_le_trans [OF _ dropWhile_length_le [of js_space]],
      use scanToken_bounds [OF assms] in auto)+

function stripLeadingComments :: "Dialect \<Rightarrow> string \<Rightarrow> string" where
  "stripLeadingComments d s =
    (let s1 = dropWhile js_space s in
     case scanToken d False s1 of
       None \<Rightarrow> s1
     | Some t \<Rightarrow>
         (if tok_kind t = Literal \<or> tok_kind t = VersionComment \<or> tok_kind t = Word then s1
          else if tok_kind t = Comment \<and> \<not> tok_closed t then []
          else stripLeadingComments d (drop (tok_end t + (if tok_kind t = LineComment then 1 else 0)) s1)))"
  by pat_completeness auto

termination
  by (relation "measure (\<lambda>(d, s). length s)") (auto simp: strip_step_less)

declare stripLeadingComments.simps [simp del]

text \<open>What a version comment contributes to the text that is read: its body, or all of it when it is not closed.\<close>

definition version_body :: "string \<Rightarrow> string" where
  "version_body s = (case VERSION_COMMENT s of
     Some body \<Rightarrow> body
   | None \<Rightarrow> (let r = drop 2 s in if suffix ''*/'' r then take (length r - 2) r else r))"

function stripComments :: "Dialect \<Rightarrow> string \<Rightarrow> string" where
  "stripComments d s =
    (case s of
       [] \<Rightarrow> []
     | c # r \<Rightarrow>
         (case scanToken d False s of
            None \<Rightarrow> c # stripComments d r
          | Some t \<Rightarrow>
              (let text = take (tok_end t) s in
               (case tok_kind t of
                  Literal \<Rightarrow> text
                | Word \<Rightarrow> text
                | VersionComment \<Rightarrow> '' '' @ version_body text @ '' ''
                | Comment \<Rightarrow> '' ''
                | LineComment \<Rightarrow> []))
              @ stripComments d (drop (tok_end t) s)))"
  by pat_completeness auto

termination
  by (relation "measure (\<lambda>(d, s). length s)") (auto dest!: scanToken_bounds)

declare stripComments.simps [simp del]

lemma stripLeadingComments_suffix: "suffix (stripLeadingComments d s) s"
proof (induction d s rule: stripLeadingComments.induct)
  case (1 d s)
  have sp: "suffix (dropWhile js_space s) s" by (rule suffix_dropWhile)
  show ?case
  proof (cases "scanToken d False (dropWhile js_space s)")
    case None
    with sp show ?thesis by (subst stripLeadingComments.simps) simp
  next
    case (Some t)
    have "suffix (drop k (dropWhile js_space s)) s" for k
      by (rule suffix_order.trans [OF suffix_drop sp])
    with 1 [OF refl Some] Some sp show ?thesis
      by (subst stripLeadingComments.simps)
        (auto simp: Let_def intro: suffix_order.trans)
  qed
qed

end
