(* ===== verification/Splitter.thy ===== *)
theory Splitter
  imports Lexer "HOL-Library.While_Combinator"
begin

text \<open>
  Splitting a script into statements, \<open>packages/adapter/src/sql/split.ts\<close>: \<open>setAssignments\<close>,
  \<open>trackSqlMode\<close>, \<open>scan\<close>, \<open>splitStatements\<close> and \<open>countStatements\<close>.

  The variables of the loop of \<open>scan\<close> are the fields of the record \<open>ScanState\<close>.  Instead of the two
  indices \<open>start\<close> and \<open>i\<close> the state holds the two texts they delimit: \<open>sc_chunk\<close> is
  \<open>input.slice(start, i)\<close> and \<open>sc_rest\<close> is \<open>input.slice(i)\<close>; the source reads the input through these
  two only.  One turn of the loop is \<open>scan_step\<close>, the loop itself is \<open>while_option\<close>, and the
  theorems about it show that it always ends.
\<close>

subsection \<open>What a MySQL SET statement assigns\<close>

text \<open>The value of one assignment: quoted and parenthesised groups whole, other characters up to a comma or an unmatched quote.\<close>

definition skip_group :: "char \<Rightarrow> string \<Rightarrow> nat option" where
  "skip_group close s =
    (let body = takeWhile (\<lambda>c. c \<noteq> close) s in
     if length body < length s then Some (length body + 1) else None)"

definition value_item :: "string \<Rightarrow> nat option" where
  "value_item s = (case s of
     [] \<Rightarrow> None
   | c # r \<Rightarrow>
       if c = sq then map_option Suc (skip_group sq r)
       else if c = CHR 0x22 then map_option Suc (skip_group (CHR 0x22) r)
       else if c = CHR ''('' then map_option Suc (skip_group (CHR '')'') r)
       else if c = CHR '','' \<or> c = CHR '')'' then None
       else Some 1)"

lemma value_item_pos: "value_item s = Some k \<Longrightarrow> 0 < k \<and> k \<le> length s"
  by (auto simp: value_item_def skip_group_def Let_def split: list.splits if_splits)

function value_length :: "string \<Rightarrow> nat" where
  "value_length s = (case value_item s of None \<Rightarrow> 0 | Some k \<Rightarrow> k + value_length (drop k s))"
  by pat_completeness auto

termination
  by (relation "measure length") (auto dest: value_item_pos)

declare value_length.simps [simp del]

definition scope_prefix :: "string \<Rightarrow> nat list" where
  "scope_prefix s =
    (let kw = (\<lambda>k. if ci_prefix k s then
               (let w = length (takeWhile js_space (drop (length k) s)) in
                if 0 < w then [length k + w] else []) else []);
         at = (\<lambda>k. if ci_prefix k s then [length k] else [])
     in kw ''session'' @ kw ''local'' @ at ''@@session.'' @ at ''@@global.'' @ at ''@@persist.''
        @ at ''@@persist_only.'' @ at ''@@'' @ [0])"

definition variable_char :: "char \<Rightarrow> bool" where
  "variable_char c \<longleftrightarrow> js_alpha c \<or> js_digit c \<or> c = CHR ''_'' \<or> c = CHR ''$'' \<or> c = CHR ''.''"

definition assigned_name :: "string \<Rightarrow> nat option" where
  "assigned_name s =
    (if ci_prefix ''sql_mode'' s then Some 8
     else if ci_prefix ''autocommit'' s then Some 10
     else if prefix ''@'' s then
       (let w = length (takeWhile variable_char (drop 1 s)) in if 0 < w then Some (1 + w) else None)
     else None)"

record Assignment =
  as_name :: string
  as_value :: string

text \<open>
  One match of \<open>SET_ASSIGNMENT\<close> after its \<open>(?:^|,)\<close>: the length of the text it takes, the name and the
  value.  The alternatives of the scope prefix are tried in the order of the expression, the empty one last.
\<close>

definition assignment_after :: "string \<Rightarrow> nat \<Rightarrow> (nat \<times> string \<times> string) option" where
  "assignment_after s p = (case assigned_name (drop p s) of
     None \<Rightarrow> None
   | Some w \<Rightarrow>
       (let s1 = drop (p + w) s; sp1 = length (takeWhile js_space s1); s2 = drop sp1 s1;
            colon = (if prefix '':'' s2 then 1 else 0); s3 = drop colon s2 in
        if prefix ''='' s3 then
          (let s4 = drop 1 s3; sp2 = length (takeWhile js_space s4); s5 = drop sp2 s4; v = value_length s5 in
           Some (p + w + sp1 + colon + 1 + sp2 + v, take w (drop p s), take v s5))
        else None))"

definition SET_ASSIGNMENT :: "string \<Rightarrow> (nat \<times> string \<times> string) option" where
  "SET_ASSIGNMENT s =
    (let sp = length (takeWhile js_space s); s1 = drop sp s in
     map_option (\<lambda>(n, name, value). (sp + n, name, value)) (first_some (assignment_after s1) (scope_prefix s1)))"

definition server_scoped :: "string \<Rightarrow> bool" where
  "server_scoped m \<longleftrightarrow> ci_has ''@@global.'' m \<or> ci_has ''@@persist.'' m \<or> ci_has ''@@persist_only.'' m"

definition assignment_of :: "string \<Rightarrow> string \<Rightarrow> string \<Rightarrow> Assignment list" where
  "assignment_of m name value =
    (if server_scoped m then [] else [\<lparr>as_name = to_lower name, as_value = trim value\<rparr>])"

text \<open>All matches from a position on, each looked for from the end of the one before; \<open>^\<close> matches at the start only.\<close>

function assignments_from :: "bool \<Rightarrow> string \<Rightarrow> Assignment list" where
  "assignments_from at_start s =
    (case s of
       [] \<Rightarrow> []
     | c # r \<Rightarrow>
         (let skip = (if at_start then Some 0 else if c = CHR '','' then Some 1 else None) in
          case skip of
            None \<Rightarrow> assignments_from False r
          | Some k \<Rightarrow>
              (case SET_ASSIGNMENT (drop k s) of
                 None \<Rightarrow> assignments_from False (if at_start \<and> c = CHR '','' then s else r)
               | Some (n, name, value) \<Rightarrow>
                   assignment_of (take (k + n) s) name value @ assignments_from False (drop (max 1 (k + n)) s))))"
  by pat_completeness auto

termination
  by (relation "measures [\<lambda>(b, s). length s, \<lambda>(b, s). if b then 1 else 0]")
    (auto split: if_splits)

declare assignments_from.simps [simp del]

definition set_statement :: "string \<Rightarrow> bool" where
  "set_statement sql \<longleftrightarrow>
     ci_prefix ''set'' sql \<and> (case drop 3 sql of [] \<Rightarrow> False | c # _ \<Rightarrow> js_space c)"

definition set_server_scope :: "string \<Rightarrow> bool" where
  "set_server_scope sql \<longleftrightarrow>
     (let r = dropWhile js_space (drop 3 sql) in
      list_ex (\<lambda>k. ci_prefix k r \<and> (case drop (length k) r of [] \<Rightarrow> False | c # _ \<Rightarrow> js_space c))
        [''global'', ''persist'', ''persist_only''])"

definition setAssignments :: "string \<Rightarrow> Assignment list" where
  "setAssignments statement =
    (let sql0 = stripLeadingComments Mysql statement;
         sql = (case VERSION_COMMENT sql0 of Some body \<Rightarrow> body | None \<Rightarrow> sql0) in
     if \<not> set_statement sql \<or> set_server_scope sql then []
     else assignments_from True (drop 3 sql))"

subsection \<open>Following NO_BACKSLASH_ESCAPES\<close>

definition NBE :: string where
  "NBE = ''no_backslash_escapes''"

definition SQL_MODE_REF :: "string \<Rightarrow> bool" where
  "SQL_MODE_REF v \<longleftrightarrow> to_lower v = ''@@sql_mode'' \<or> to_lower v = ''@@session.sql_mode''"

definition quoted_literal :: "string \<Rightarrow> string option" where
  "quoted_literal v =
    (if 2 \<le> length v \<and> (hd v = sq \<or> hd v = CHR 0x22) \<and> last v = hd v
     then Some (slice 1 (length v - 1) v) else None)"

definition skip_ws :: "string \<Rightarrow> string" where
  "skip_ws s = dropWhile js_space s"

definition expect :: "string \<Rightarrow> string option \<Rightarrow> string option" where
  "expect p m = (case m of None \<Rightarrow> None | Some s \<Rightarrow> if ci_prefix p s then Some (drop (length p) s) else None)"

definition REPLACE_MODE :: "string \<Rightarrow> bool" where
  "REPLACE_MODE v =
    (let after_paren = map_option skip_ws (expect ''('' (map_option skip_ws (expect ''replace'' (Some v))));
         tail = (\<lambda>ref. map_option skip_ws (expect '','' (map_option skip_ws (expect ref after_paren))));
         quoted = (\<lambda>m. case m of
              Some (q # r) \<Rightarrow> (q = sq \<or> q = CHR 0x22) \<and> ci_prefix NBE r
                \<and> (case drop (length NBE) r of [] \<Rightarrow> False | q' # _ \<Rightarrow> q' = sq \<or> q' = CHR 0x22)
            | _ \<Rightarrow> False)
     in quoted (tail ''@@sql_mode'') \<or> quoted (tail ''@@session.sql_mode''))"

definition CONCAT_MODE :: "string \<Rightarrow> bool" where
  "CONCAT_MODE v =
    (let args = (\<lambda>f. expect ''('' (map_option skip_ws (expect f (Some v))));
         inside = (\<lambda>m. case m of None \<Rightarrow> False | Some r \<Rightarrow> ci_has NBE (takeWhile (\<lambda>c. c \<noteq> CHR '')'') r))
     in inside (args ''concat_ws'') \<or> inside (args ''concat''))"

type_synonym saved_modes = "string \<Rightarrow> bool option"

fun track_assignment :: "Assignment \<Rightarrow> bool \<times> saved_modes \<Rightarrow> bool \<times> saved_modes" where
  "track_assignment a (next_mode, saved) =
    (let name = as_name a; v = as_value a in
     if prefix ''@'' name then (next_mode, if SQL_MODE_REF v then saved(name \<mapsto> next_mode) else saved)
     else if name \<noteq> ''sql_mode'' then (next_mode, saved)
     else case quoted_literal v of
       Some lit \<Rightarrow> (ci_has NBE lit, saved)
     | None \<Rightarrow>
         if to_lower v = ''default'' then (False, saved)
         else if v \<noteq> [] \<and> all_chars (\<lambda>c. js_alpha c \<or> c = CHR ''_'') v then (to_lower v = NBE, saved)
         else if prefix ''@'' v \<and> \<not> prefix ''@@'' v then (case saved (to_lower v) of Some b \<Rightarrow> b | None \<Rightarrow> False, saved)
         else if REPLACE_MODE v then (False, saved)
         else if CONCAT_MODE v then (True, saved)
         else (next_mode, saved))"

definition trackSqlMode :: "string \<Rightarrow> bool \<Rightarrow> saved_modes \<Rightarrow> bool \<times> saved_modes" where
  "trackSqlMode statement current saved = fold track_assignment (setAssignments statement) (current, saved)"

subsection \<open>Client commands and COPY data\<close>

definition DELIMITER_LINE :: "string \<Rightarrow> (string \<times> nat) option" where
  "DELIMITER_LINE s =
    (let s1 = dropWhile blank s; s2 = drop 9 s1; s3 = dropWhile blank s2;
         d = takeWhile (\<lambda>c. \<not> js_space c) s3; s4 = dropWhile blank (drop (length d) s3) in
     if ci_prefix ''delimiter'' s1 \<and> s3 \<noteq> s2 \<and> d \<noteq> []
     then map_option (\<lambda>e. (d, length s - length s4 + e)) (line_end s4)
     else None)"

text \<open>\<open>\bFROM\s+STDIN\b\<close> somewhere in a text; \<open>inside\<close> says whether the character before it is a word character.\<close>

fun from_stdin :: "bool \<Rightarrow> string \<Rightarrow> bool" where
  "from_stdin inside [] = False"
| "from_stdin inside (c # s) =
     (\<not> inside \<and> ci_prefix ''from'' (c # s) \<and>
        (let r = drop 3 s; t = dropWhile js_space r in
         t \<noteq> r \<and> ci_prefix ''stdin'' t \<and> word_ends (drop 5 t))
      \<or> from_stdin (js_word c) s)"

definition COPY_FROM_STDIN :: "string \<Rightarrow> bool" where
  "COPY_FROM_STDIN body \<longleftrightarrow>
     ci_prefix ''copy'' body \<and> word_ends (drop 4 body) \<and> from_stdin True (drop 4 body)"

text \<open>The line that ends a COPY block: a backslash and a dot, blanks, the end of the line.\<close>

definition copy_end_line :: "string \<Rightarrow> nat option" where
  "copy_end_line s =
    (if prefix [CHR 0x5C, CHR ''.''] s then
       (let r = dropWhile blank (drop 2 s) in map_option (\<lambda>e. length s - length r + e) (line_end r))
     else None)"

fun copy_end_below :: "string \<Rightarrow> nat option" where
  "copy_end_below [] = None"
| "copy_end_below (c # s) =
     (case (if c = CHR 0x0A then copy_end_line s else None) of
        Some k \<Rightarrow> Some (Suc k)
      | None \<Rightarrow> map_option Suc (copy_end_below s))"

definition copy_end :: "string \<Rightarrow> nat option" where
  "copy_end s = (case copy_end_line s of Some k \<Rightarrow> Some k | None \<Rightarrow> copy_end_below s)"

text \<open>\<open>replace(/[ \t]*\r?\n$/, '')\<close>.\<close>

definition strip_line_end :: "string \<Rightarrow> string" where
  "strip_line_end s =
    (if suffix [CHR 0x0A] s then
       (let s1 = butlast s; s2 = (if suffix [CHR 0x0D] s1 then butlast s1 else s1)
        in rev (dropWhile blank (rev s2)))
     else s)"

text \<open>\<open>/(?:^|\n)[ \t]*$/\<close>: only blanks since the line started.\<close>

definition at_line_start :: "string \<Rightarrow> bool" where
  "at_line_start chunk \<longleftrightarrow> (case dropWhile blank (rev chunk) of [] \<Rightarrow> True | c # _ \<Rightarrow> c = CHR 0x0A)"

definition restrict_command :: "string \<Rightarrow> bool" where
  "restrict_command c \<longleftrightarrow>
     prefix (CHR 0x5C # ''restrict'') c \<and> word_ends (drop 9 c)
   \<or> prefix (CHR 0x5C # ''unrestrict'') c \<and> word_ends (drop 11 c)"

subsection \<open>The loop of scan\<close>

record Statement =
  st_sql :: string
  st_line :: nat

record ScanState =
  sc_rest :: string
  sc_chunk :: string
  sc_line :: nat
  sc_startLine :: nat
  sc_hasCode :: bool
  sc_delimiter :: string
  sc_atomicDepth :: nat
  sc_caseDepth :: nat
  sc_noBackslash :: bool
  sc_savedModes :: saved_modes
  sc_copyData :: bool
  sc_unterminated :: bool
  sc_out :: "Statement list"
  sc_count :: nat

definition scan_init :: "string \<Rightarrow> ScanState" where
  "scan_init input = \<lparr>
    sc_rest = input, sc_chunk = [], sc_line = 1, sc_startLine = 1, sc_hasCode = False,
    sc_delimiter = '';'', sc_atomicDepth = 0, sc_caseDepth = 0, sc_noBackslash = False,
    sc_savedModes = Map.empty, sc_copyData = False, sc_unterminated = False, sc_out = [], sc_count = 0\<rparr>"

definition emit :: "bool \<Rightarrow> Statement \<Rightarrow> ScanState \<Rightarrow> ScanState" where
  "emit keepAll statement st = st\<lparr>
    sc_count := sc_count st + 1,
    sc_out := (if keepAll then sc_out st else []) @ [statement]\<rparr>"

text \<open>\<open>skipTo\<close>: the next \<open>k\<close> characters join the current chunk, their line breaks are counted.\<close>

definition skip :: "nat \<Rightarrow> ScanState \<Rightarrow> ScanState" where
  "skip k st = st\<lparr>
    sc_line := sc_line st + count_char (CHR 0x0A) (take k (sc_rest st)),
    sc_chunk := sc_chunk st @ take k (sc_rest st),
    sc_rest := drop k (sc_rest st)\<rparr>"

text \<open>\<open>start = i; startLine = line\<close>.\<close>

definition restart :: "ScanState \<Rightarrow> ScanState" where
  "restart st = st\<lparr>sc_chunk := [], sc_startLine := sc_line st\<rparr>"

definition flush :: "Dialect \<Rightarrow> bool \<Rightarrow> ScanState \<Rightarrow> ScanState" where
  "flush dialect keepAll st =
    (let sql = trim (sc_chunk st); rules = lexicalRules dialect in
     if sc_hasCode st \<and> sql \<noteq> [] then
       (let body = stripLeadingComments dialect sql;
            lead = take (length sql - length body) sql;
            st1 = emit keepAll \<lparr>st_sql = sql, st_line = sc_startLine st + count_char (CHR 0x0A) lead\<rparr> st;
            (nb, saved) = (if lex_tracksSqlMode rules then trackSqlMode sql (sc_noBackslash st) (sc_savedModes st)
                           else (sc_noBackslash st, sc_savedModes st))
        in st1\<lparr>sc_noBackslash := nb, sc_savedModes := saved,
               sc_copyData := (sc_copyData st \<or> lex_copyFromStdin rules \<and> COPY_FROM_STDIN body),
               sc_hasCode := False\<rparr>)
     else st\<lparr>sc_hasCode := False\<rparr>)"

text \<open>The data lines of a COPY block join the last statement.\<close>

definition append_last :: "string \<Rightarrow> Statement list \<Rightarrow> Statement list" where
  "append_last text out =
    (if out = [] then []
     else butlast out @ [(last out)\<lparr>st_sql := st_sql (last out) @ [CHR 0x0A] @ strip_line_end text\<rparr>])"

definition copy_step :: "ScanState \<Rightarrow> ScanState" where
  "copy_step st =
    (let rest = sc_rest st;
         lead = (if prefix [CHR 0x0D, CHR 0x0A] rest then 2 else if prefix [CHR 0x0A] rest then 1 else 0);
         data = drop lead rest;
         m = copy_end data;
         len = (case m of Some k \<Rightarrow> k | None \<Rightarrow> length data)
     in restart (skip (lead + len) (st\<lparr>
          sc_copyData := False,
          sc_unterminated := (sc_unterminated st \<or> m = None),
          sc_out := append_last (take len data) (sc_out st)\<rparr>)))"

definition meta_step :: "bool \<Rightarrow> ScanState \<Rightarrow> ScanState" where
  "meta_step keepAll st =
    (let raw = takeWhile (\<lambda>c. c \<noteq> CHR 0x0A) (sc_rest st); command = trim raw;
         st1 = (if restrict_command command then st
                else emit keepAll \<lparr>st_sql = command, st_line = sc_line st\<rparr> st)
     in restart (skip (length raw) st1))"

text \<open>\<open>BEGIN ATOMIC ... END\<close> and the \<open>CASE ... END\<close> inside it; \<open>after\<close> is the text after the word.\<close>

definition atomic_after :: "string \<Rightarrow> bool" where
  "atomic_after after \<longleftrightarrow>
     (let t = dropWhile js_space after in t \<noteq> after \<and> ci_prefix ''atomic'' t \<and> word_ends (drop 6 t))"

definition word_depths :: "string \<Rightarrow> string \<Rightarrow> nat \<times> nat \<Rightarrow> nat \<times> nat" where
  "word_depths upper after depths = (case depths of (atomic, cas) \<Rightarrow>
    (if upper = ''BEGIN'' \<and> atomic_after after then (atomic + 1, cas)
     else if 0 < atomic \<and> upper = ''CASE'' then (atomic, cas + 1)
     else if 0 < atomic \<and> upper = ''END'' then (if 0 < cas then (atomic, cas - 1) else (atomic - 1, cas))
     else (atomic, cas)))"

definition word_step :: "Dialect \<Rightarrow> nat \<Rightarrow> ScanState \<Rightarrow> ScanState" where
  "word_step dialect k st =
    (let depths = (if lex_beginAtomic (lexicalRules dialect)
                   then word_depths (to_upper (take k (sc_rest st))) (drop k (sc_rest st))
                          (sc_atomicDepth st, sc_caseDepth st)
                   else (sc_atomicDepth st, sc_caseDepth st))
     in skip k (st\<lparr>sc_atomicDepth := fst depths, sc_caseDepth := snd depths, sc_hasCode := True\<rparr>))"

definition token_step :: "SqlToken \<Rightarrow> ScanState \<Rightarrow> ScanState" where
  "token_step t st = skip (tok_end t) (st\<lparr>
     sc_hasCode := (sc_hasCode st \<or> tok_kind t = Literal \<or> tok_kind t = VersionComment),
     sc_unterminated := (sc_unterminated st \<or> \<not> tok_closed t)\<rparr>)"

definition char_step :: "char \<Rightarrow> ScanState \<Rightarrow> ScanState" where
  "char_step ch st = skip 1 (st\<lparr>sc_hasCode := (sc_hasCode st \<or> ch \<noteq> CHR 0x0A \<and> \<not> js_space ch)\<rparr>)"

definition delimiter_at :: "Dialect \<Rightarrow> ScanState \<Rightarrow> (string \<times> nat) option" where
  "delimiter_at dialect st =
    (if \<not> sc_hasCode st \<and> lex_delimiterCommand (lexicalRules dialect)
        \<and> (prefix ''D'' (sc_rest st) \<or> prefix ''d'' (sc_rest st)) \<and> at_line_start (sc_chunk st)
     then DELIMITER_LINE (sc_rest st) else None)"

definition at_meta :: "Dialect \<Rightarrow> ScanState \<Rightarrow> bool" where
  "at_meta dialect st \<longleftrightarrow>
     lex_psqlMetaCommands (lexicalRules dialect) \<and> prefix [CHR 0x5C] (sc_rest st) \<and> \<not> sc_hasCode st
     \<and> at_line_start (sc_chunk st)"

definition at_delimiter :: "ScanState \<Rightarrow> bool" where
  "at_delimiter st \<longleftrightarrow> sc_atomicDepth st = 0 \<and> prefix (sc_delimiter st) (sc_rest st)"

text \<open>One turn of the loop, with the tests in the order of the source.\<close>

definition scan_step :: "Dialect \<Rightarrow> bool \<Rightarrow> ScanState \<Rightarrow> ScanState" where
  "scan_step dialect keepAll st = (case sc_rest st of
     [] \<Rightarrow> st
   | ch # _ \<Rightarrow>
       if sc_copyData st then copy_step st
       else if at_meta dialect st then meta_step keepAll st
       else if sc_chunk st = [] \<and> js_space ch then restart (skip 1 st)
       else (case delimiter_at dialect st of
         Some (d, k) \<Rightarrow> restart (skip k (st\<lparr>sc_delimiter := d\<rparr>))
       | None \<Rightarrow>
           (case scanToken dialect (sc_noBackslash st) (sc_rest st) of
              Some t \<Rightarrow> if tok_kind t = Word then word_step dialect (tok_end t) st else token_step t st
            | None \<Rightarrow>
                if at_delimiter st
                then restart (skip (length (sc_delimiter st)) (flush dialect keepAll st))
                else char_step ch st)))"

definition scan_loop :: "Dialect \<Rightarrow> bool \<Rightarrow> ScanState \<Rightarrow> ScanState option" where
  "scan_loop dialect keepAll = while_option (\<lambda>st. sc_rest st \<noteq> []) (scan_step dialect keepAll)"

text \<open>The whole scan: the loop, then the last chunk.\<close>

definition scan :: "string \<Rightarrow> Dialect \<Rightarrow> bool \<Rightarrow> ScanState option" where
  "scan input dialect keepAll =
    map_option (flush dialect keepAll) (scan_loop dialect keepAll (scan_init input))"

definition splitStatements :: "string \<Rightarrow> Dialect \<Rightarrow> Statement list option" where
  "splitStatements input dialect = map_option sc_out (scan input dialect True)"

definition countStatements :: "string \<Rightarrow> Dialect \<Rightarrow> nat option" where
  "countStatements input dialect = map_option sc_count (scan input dialect False)"

text \<open>What \<open>splitStatements\<close> reports through its \<open>state\<close> argument.\<close>

definition split_state :: "string \<Rightarrow> Dialect \<Rightarrow> (string \<times> bool) option" where
  "split_state input dialect =
    map_option (\<lambda>st. (sc_delimiter st, sc_unterminated st)) (scan input dialect True)"

subsection \<open>The loop ends\<close>

lemma DELIMITER_LINE_cases:
  assumes "DELIMITER_LINE s = Some (d, k)"
  obtains s2 e where "d = takeWhile (\<lambda>c. \<not> js_space c) (dropWhile blank s2)" and "d \<noteq> []"
    and "length s2 \<le> length s"
    and "k = length s - length (dropWhile blank (drop (length d) (dropWhile blank s2))) + e"
proof -
  let ?s2 = "drop 9 (dropWhile blank s)"
  from assms obtain e where d: "d = takeWhile (\<lambda>c. \<not> js_space c) (dropWhile blank ?s2)" and ne: "d \<noteq> []"
    and k: "k = length s - length (dropWhile blank (drop (length d) (dropWhile blank ?s2))) + e"
    by (auto simp: DELIMITER_LINE_def Let_def split: if_splits)
  have "length ?s2 \<le> length s"
    by (rule order_trans [OF _ dropWhile_length_le [of blank s]]) simp
  then show thesis using that [OF d ne _ k] by blast
qed

lemma DELIMITER_LINE_bounds:
  assumes "DELIMITER_LINE s = Some (d, k)"
  shows "d \<noteq> []" and "0 < k" and "\<forall>c \<in> set d. \<not> js_space c"
proof -
  obtain s2 e where d: "d = takeWhile (\<lambda>c. \<not> js_space c) (dropWhile blank s2)" "d \<noteq> []"
    and s2: "length s2 \<le> length s"
    and k: "k = length s - length (dropWhile blank (drop (length d) (dropWhile blank s2))) + e"
    using assms by (rule DELIMITER_LINE_cases)
  show "d \<noteq> []" by (rule d(2))
  show "\<forall>c \<in> set d. \<not> js_space c" unfolding d(1) by (blast dest: set_takeWhileD)
  define s3 where "s3 = dropWhile blank s2"
  have "s3 \<noteq> []" using d unfolding s3_def by (metis takeWhile.simps(1))
  moreover have "length s3 \<le> length s" unfolding s3_def using s2 dropWhile_length_le [of blank s2] by linarith
  moreover have "length (dropWhile blank (drop (length d) s3)) \<le> length s3 - length d"
    by (rule order_trans [OF dropWhile_length_le]) simp
  ultimately have "length (dropWhile blank (drop (length d) s3)) < length s" using d(2)
    by (cases d; cases s3) auto
  then show "0 < k" by (simp add: k s3_def)
qed

lemma copy_end_line_pos: "copy_end_line s = Some k \<Longrightarrow> 0 < k"
proof -
  assume k: "copy_end_line s = Some k"
  then have p: "prefix [CHR 0x5C, CHR ''.''] s" by (simp add: copy_end_line_def split: if_splits)
  from k have "length s - length (dropWhile blank (drop 2 s)) \<le> k"
    by (auto simp: copy_end_line_def Let_def split: if_splits)
  moreover have "length (dropWhile blank (drop 2 s)) \<le> length s - 2"
    by (rule order_trans [OF dropWhile_length_le]) simp
  ultimately show ?thesis using prefix_length_le [OF p] by simp
qed

lemma copy_end_pos: "copy_end s = Some k \<Longrightarrow> 0 < k"
  by (cases s) (auto simp: copy_end_def dest: copy_end_line_pos split: option.splits)

named_theorems step_simps \<open>fields after the building blocks of a step\<close>

lemma skip_fields [step_simps]:
  "sc_rest (skip k st) = drop k (sc_rest st)"
  "sc_delimiter (skip k st) = sc_delimiter st"
  "sc_out (skip k st) = sc_out st"
  "sc_count (skip k st) = sc_count st"
  "sc_noBackslash (skip k st) = sc_noBackslash st"
  "sc_copyData (skip k st) = sc_copyData st"
  by (simp_all add: skip_def)

lemma restart_fields [step_simps]:
  "sc_rest (restart st) = sc_rest st"
  "sc_delimiter (restart st) = sc_delimiter st"
  "sc_out (restart st) = sc_out st"
  "sc_count (restart st) = sc_count st"
  "sc_chunk (restart st) = []"
  by (simp_all add: restart_def)

lemma flush_fields [step_simps]:
  "sc_rest (flush d k st) = sc_rest st"
  "sc_delimiter (flush d k st) = sc_delimiter st"
  by (simp_all add: flush_def emit_def Let_def split: prod.splits)

lemma emit_fields [step_simps]:
  "sc_rest (emit k s st) = sc_rest st"
  "sc_delimiter (emit k s st) = sc_delimiter st"
  by (simp_all add: emit_def)

lemma copy_step_delimiter [step_simps]: "sc_delimiter (copy_step st) = sc_delimiter st"
  by (simp add: copy_step_def Let_def step_simps)

definition copy_lead :: "string \<Rightarrow> nat" where
  "copy_lead rest = (if prefix [CHR 0x0D, CHR 0x0A] rest then 2 else if prefix [CHR 0x0A] rest then 1 else 0)"

definition copy_length :: "string \<Rightarrow> nat" where
  "copy_length data = (case copy_end data of Some k \<Rightarrow> k | None \<Rightarrow> length data)"

lemma copy_step_alt: "copy_step st =
   restart (skip (copy_lead (sc_rest st) + copy_length (drop (copy_lead (sc_rest st)) (sc_rest st))) (st\<lparr>
     sc_copyData := False,
     sc_unterminated := (sc_unterminated st \<or> copy_end (drop (copy_lead (sc_rest st)) (sc_rest st)) = None),
     sc_out := append_last (take (copy_length (drop (copy_lead (sc_rest st)) (sc_rest st)))
       (drop (copy_lead (sc_rest st)) (sc_rest st))) (sc_out st)\<rparr>))"
  by (simp add: copy_step_def copy_lead_def copy_length_def Let_def)

lemma copy_consumes: "rest \<noteq> [] \<Longrightarrow> 0 < copy_lead rest + copy_length (drop (copy_lead rest) rest)"
  using copy_end_pos [of "drop (copy_lead rest) rest"]
  by (auto simp: copy_lead_def copy_length_def split: option.splits)

lemma copy_step_rest: "sc_rest st \<noteq> [] \<Longrightarrow> length (sc_rest (copy_step st)) < length (sc_rest st)"
  using copy_consumes [of "sc_rest st"] by (simp add: copy_step_alt step_simps)

lemma meta_step_delimiter [step_simps]: "sc_delimiter (meta_step k st) = sc_delimiter st"
  by (simp add: meta_step_def Let_def step_simps)

lemma word_step_fields [step_simps]:
  "sc_rest (word_step d k st) = drop k (sc_rest st)"
  "sc_delimiter (word_step d k st) = sc_delimiter st"
  by (simp_all add: word_step_def Let_def step_simps)

lemma token_step_fields [step_simps]:
  "sc_rest (token_step t st) = drop (tok_end t) (sc_rest st)"
  "sc_delimiter (token_step t st) = sc_delimiter st"
  by (simp_all add: token_step_def step_simps)

lemma char_step_fields [step_simps]:
  "sc_rest (char_step c st) = drop 1 (sc_rest st)"
  "sc_delimiter (char_step c st) = sc_delimiter st"
  by (simp_all add: char_step_def step_simps)

lemma meta_step_rest:
  "prefix [CHR 0x5C] (sc_rest st) \<Longrightarrow> length (sc_rest (meta_step k st)) < length (sc_rest st)"
  by (cases "sc_rest st") (auto simp: meta_step_def Let_def step_simps)

lemma scan_step_progress:
  assumes "sc_rest st \<noteq> []" and "sc_delimiter st \<noteq> []"
  shows "length (sc_rest (scan_step d k st)) < length (sc_rest st) \<and> sc_delimiter (scan_step d k st) \<noteq> []"
proof -
  obtain ch r where r: "sc_rest st = ch # r" using assms(1) by (cases "sc_rest st") auto
  have del: "d' \<noteq> [] \<and> 0 < n" if "delimiter_at d st = Some (d', n)" for d' n
    using that by (auto simp: delimiter_at_def dest: DELIMITER_LINE_bounds split: if_splits)
  have tok: "0 < tok_end t" if "scanToken d nb (ch # r) = Some t" for nb t
    using scanToken_bounds [OF that] by simp
  have meta: "length (sc_rest (meta_step k st)) < length (sc_rest st)" if "at_meta d st"
    using that by (auto simp: at_meta_def intro: meta_step_rest)
  show ?thesis
    using assms copy_step_rest [of st] meta r
    by (auto simp: scan_step_def step_simps dest: del tok split: option.splits)
qed

lemma scan_loop_total:
  assumes "sc_delimiter st \<noteq> []"
  shows "\<exists>st'. scan_loop d k st = Some st'"
proof -
  have "\<exists>st'. while_option (\<lambda>st. sc_rest st \<noteq> []) (scan_step d k) st = Some st'"
    by (rule measure_while_option_Some
        [where P = "\<lambda>st. sc_delimiter st \<noteq> []" and f = "\<lambda>st. length (sc_rest st)"])
      (use assms scan_step_progress in auto)
  then show ?thesis by (simp add: scan_loop_def)
qed


end
