(* ===== verification/Split_Facts.thy ===== *)
theory Split_Facts
  imports Splitter
begin

text \<open>
  What the splitter promises: it always returns, counting agrees with splitting, and every statement it
  returns is a piece of the script whose line is the line of its first code.
\<close>

subsection \<open>Counting without keeping\<close>

text \<open>
  \<open>countStatements\<close> runs the scan with only the last statement kept.  Forgetting all but the last
  statement commutes with every step, so the two scans go through the same states.
\<close>

definition forget :: "ScanState \<Rightarrow> ScanState" where
  "forget st = st\<lparr>sc_out := (if sc_out st = [] then [] else [last (sc_out st)])\<rparr>"

named_theorems forget_simps \<open>forgetting commutes with the building blocks of a step\<close>

lemma forget_fields [forget_simps]:
  "sc_rest (forget st) = sc_rest st"
  "sc_chunk (forget st) = sc_chunk st"
  "sc_line (forget st) = sc_line st"
  "sc_startLine (forget st) = sc_startLine st"
  "sc_hasCode (forget st) = sc_hasCode st"
  "sc_delimiter (forget st) = sc_delimiter st"
  "sc_atomicDepth (forget st) = sc_atomicDepth st"
  "sc_caseDepth (forget st) = sc_caseDepth st"
  "sc_noBackslash (forget st) = sc_noBackslash st"
  "sc_savedModes (forget st) = sc_savedModes st"
  "sc_copyData (forget st) = sc_copyData st"
  "sc_unterminated (forget st) = sc_unterminated st"
  "sc_count (forget st) = sc_count st"
  "sc_out (forget st) = (if sc_out st = [] then [] else [last (sc_out st)])"
  by (simp_all add: forget_def)

lemma forget_skip [forget_simps]: "skip k (forget st) = forget (skip k st)"
  by (simp add: forget_def skip_def)

lemma forget_restart [forget_simps]: "restart (forget st) = forget (restart st)"
  by (simp add: forget_def restart_def)

lemma forget_emit [forget_simps]: "emit False s (forget st) = forget (emit True s st)"
  by (simp add: forget_def emit_def)

lemma forget_flush [forget_simps]: "flush d False (forget st) = forget (flush d True st)"
  by (simp add: flush_def forget_def emit_def Let_def split: prod.splits)

lemma forget_copy_step [forget_simps]: "copy_step (forget st) = forget (copy_step st)"
  by (simp add: copy_step_alt forget_def skip_def restart_def append_last_def)

lemma forget_meta_step [forget_simps]: "meta_step False (forget st) = forget (meta_step True st)"
  by (simp add: meta_step_def Let_def forget_simps)

lemma forget_word_step [forget_simps]: "word_step d k (forget st) = forget (word_step d k st)"
  by (simp add: word_step_def Let_def forget_def skip_def)

lemma forget_token_step [forget_simps]: "token_step t (forget st) = forget (token_step t st)"
  by (simp add: token_step_def forget_def skip_def)

lemma forget_char_step [forget_simps]: "char_step c (forget st) = forget (char_step c st)"
  by (simp add: char_step_def forget_def skip_def)

lemma forget_delimiter [forget_simps]: "st\<lparr>sc_delimiter := d\<rparr> = st' \<Longrightarrow> (forget st)\<lparr>sc_delimiter := d\<rparr> = forget st'"
  by (auto simp: forget_def)

lemma forget_tests [forget_simps]:
  "at_meta d (forget st) = at_meta d st"
  "delimiter_at d (forget st) = delimiter_at d st"
  "at_delimiter (forget st) = at_delimiter st"
  by (simp_all only: at_meta_def delimiter_at_def at_delimiter_def forget_fields)

lemma forget_scan_step: "forget (scan_step d True st) = scan_step d False (forget st)"
proof (cases "sc_rest st")
  case Nil
  then show ?thesis by (simp add: scan_step_def forget_simps)
next
  case (Cons c r)
  have del: "(forget st)\<lparr>sc_delimiter := x\<rparr> = forget (st\<lparr>sc_delimiter := x\<rparr>)" for x
    by (simp add: forget_def)
  show ?thesis
    using Cons by (simp add: scan_step_def forget_simps del split: option.split prod.split)
qed

lemma scan_count_same: "scan input d False = map_option forget (scan input d True)"
proof -
  have "map_option forget (scan_loop d True (scan_init input)) = scan_loop d False (forget (scan_init input))"
    unfolding scan_loop_def
    by (rule while_option_commute) (simp_all add: forget_scan_step forget_simps)
  moreover have "forget (scan_init input) = scan_init input"
    by (simp add: forget_def scan_init_def)
  ultimately have loop: "scan_loop d False (scan_init input) = map_option forget (scan_loop d True (scan_init input))"
    by simp
  show ?thesis
    unfolding scan_def loop by (simp add: option.map_comp comp_def forget_flush)
qed

text \<open>The counter agrees with the number of statements kept.\<close>

definition counted :: "ScanState \<Rightarrow> bool" where
  "counted st \<longleftrightarrow> sc_count st = length (sc_out st)"

lemma append_last_length [simp]: "length (append_last t out) = length out"
  by (cases out rule: rev_cases) (simp_all add: append_last_def)

lemma counted_blocks:
  "counted (skip k st) = counted st"
  "counted (restart st) = counted st"
  "counted st \<Longrightarrow> counted (emit True s st)"
  "counted st \<Longrightarrow> counted (flush d True st)"
  "counted (copy_step st) = counted st"
  "counted (word_step d k st) = counted st"
  "counted (token_step t st) = counted st"
  "counted (char_step c st) = counted st"
  "counted (st\<lparr>sc_delimiter := x\<rparr>) = counted st"
  by (simp_all add: counted_def skip_def restart_def emit_def flush_def copy_step_alt word_step_def
      token_step_def char_step_def Let_def split: prod.splits)

lemma counted_meta_step: "counted st \<Longrightarrow> counted (meta_step True st)"
  by (simp add: meta_step_def Let_def counted_blocks)

lemma counted_scan_step: "counted st \<Longrightarrow> counted (scan_step d True st)"
  by (simp add: scan_step_def counted_blocks counted_meta_step split: list.split option.split prod.split)

lemma scan_invariant:
  assumes step: "\<And>st. P st \<Longrightarrow> sc_rest st \<noteq> [] \<Longrightarrow> P (scan_step d k st)"
    and last: "\<And>st. P st \<Longrightarrow> sc_rest st = [] \<Longrightarrow> Q (flush d k st)"
    and init: "P (scan_init input)"
    and result: "scan input d k = Some st"
  shows "Q st"
proof -
  from result obtain s where s: "scan_loop d k (scan_init input) = Some s" and st: "st = flush d k s"
    by (auto simp: scan_def)
  have "P s"
    using while_option_rule [where P = P, OF _ s [unfolded scan_loop_def] init] step by blast
  moreover have "sc_rest s = []"
    using while_option_stop [OF s [unfolded scan_loop_def]] by simp
  ultimately show ?thesis using last st by simp
qed

lemma scan_counted: "scan input d True = Some st \<Longrightarrow> counted st"
  by (rule scan_invariant [where P = counted and Q = counted])
    (auto simp: counted_blocks counted_scan_step, simp add: counted_def scan_init_def)

text \<open>Counting the statements of a script without keeping them gives how many splitting it returns.\<close>

lemma countStatements_eq_length:
  "countStatements input d = map_option length (splitStatements input d)"
proof (cases "scan input d True")
  case None
  then show ?thesis by (simp add: countStatements_def splitStatements_def scan_count_same)
next
  case (Some st)
  with scan_counted [OF Some] show ?thesis
    by (simp add: countStatements_def splitStatements_def scan_count_same forget_simps counted_def)
qed


subsection \<open>Where a statement comes from\<close>

text \<open>
  A statement of the result is a piece of the script (with the data of a COPY block after a line break, on
  PostgreSQL), and its line is the line of its first code, below the comments above it.
\<close>

definition located :: "Dialect \<Rightarrow> string \<Rightarrow> Statement \<Rightarrow> bool" where
  "located d input s \<longleftrightarrow> (\<exists>pre sql copied post.
     st_sql s = sql @ copied \<and> sql \<noteq> [] \<and> (copied = [] \<or> d = Postgres \<and> hd copied = CHR 0x0A)
     \<and> input = pre @ stripLeadingComments d sql @ post \<and> st_line s = 1 + newlines pre)"

lemma locatedI:
  assumes "input = pre @ stripLeadingComments d (st_sql s) @ post" and "st_sql s \<noteq> []"
    and "st_line s = 1 + newlines pre"
  shows "located d input s"
  unfolding located_def using assms
  by (intro exI [of _ pre] exI [of _ "st_sql s"] exI [of _ "[]"] exI [of _ post]) simp

definition placed :: "Dialect \<Rightarrow> string \<Rightarrow> ScanState \<Rightarrow> bool" where
  "placed d input st \<longleftrightarrow>
     (\<exists>before. input = before @ sc_chunk st @ sc_rest st \<and> sc_startLine st = 1 + newlines before)
     \<and> sc_line st = sc_startLine st + newlines (sc_chunk st)
     \<and> (sc_copyData st \<longrightarrow> d = Postgres)
     \<and> list_all (located d input) (sc_out st)
     \<and> sorted (map st_line (sc_out st))
     \<and> list_all (\<lambda>s. st_line s \<le> sc_line st) (sc_out st)"

definition tracked :: "Dialect \<Rightarrow> string \<Rightarrow> ScanState \<Rightarrow> bool" where
  "tracked d input st \<longleftrightarrow> placed d input st
     \<and> (case sc_chunk st of [] \<Rightarrow> True | c # _ \<Rightarrow> \<not> js_space c)
     \<and> list_all (\<lambda>s. st_line s \<le> sc_startLine st) (sc_out st)"

lemma trim_Cons: "\<not> js_space c \<Longrightarrow> trim (c # r) = c # trim_end r"
  by (simp add: trim_def trim_start_def trim_end_def dropWhile_append3)

lemma trim_no_lead:
  assumes "case s of [] \<Rightarrow> True | c # _ \<Rightarrow> \<not> js_space c"
  obtains t where "s = trim s @ t"
proof -
  have "dropWhile js_space s = s" using assms by (cases s) auto
  moreover have "s = rev (dropWhile js_space (rev s)) @ rev (takeWhile js_space (rev s))"
    by (metis rev_append rev_rev_ident takeWhile_dropWhile_id)
  ultimately show thesis using that by (simp add: trim_def trim_start_def trim_end_def)
qed


lemma placedI:
  assumes "input = before @ sc_chunk st @ sc_rest st" and "sc_startLine st = 1 + newlines before"
    and "sc_line st = sc_startLine st + newlines (sc_chunk st)" and "sc_copyData st \<longrightarrow> d = Postgres"
    and "list_all (located d input) (sc_out st)" and "sorted (map st_line (sc_out st))"
    and "list_all (\<lambda>s. st_line s \<le> sc_line st) (sc_out st)"
  shows "placed d input st"
  using assms by (auto simp: placed_def)

lemma placedE:
  assumes "placed d input st"
  obtains before where "input = before @ sc_chunk st @ sc_rest st" and "sc_startLine st = 1 + newlines before"
    and "sc_line st = sc_startLine st + newlines (sc_chunk st)" and "sc_copyData st \<longrightarrow> d = Postgres"
    and "list_all (located d input) (sc_out st)" and "sorted (map st_line (sc_out st))"
    and "list_all (\<lambda>s. st_line s \<le> sc_line st) (sc_out st)"
  using assms by (auto simp: placed_def)

lemma lines_mono: "list_all (\<lambda>s. st_line s \<le> m) out \<Longrightarrow> m \<le> n \<Longrightarrow> list_all (\<lambda>s. st_line s \<le> n) out"
  by (auto simp: list_all_iff)

lemma placed_skip: assumes "placed d input st" shows "placed d input (skip k st)"
  using assms
proof (rule placedE)
  fix before
  assume a: "input = before @ sc_chunk st @ sc_rest st" "sc_startLine st = 1 + newlines before"
    "sc_line st = sc_startLine st + newlines (sc_chunk st)" "sc_copyData st \<longrightarrow> d = Postgres"
    "list_all (located d input) (sc_out st)" "sorted (map st_line (sc_out st))"
    "list_all (\<lambda>s. st_line s \<le> sc_line st) (sc_out st)"
  show ?thesis
  proof (rule placedI)
    show "input = before @ sc_chunk (skip k st) @ sc_rest (skip k st)" using a(1) by (simp add: skip_def)
    show "list_all (\<lambda>s. st_line s \<le> sc_line (skip k st)) (sc_out (skip k st))"
      using lines_mono [OF a(7)] by (simp add: skip_def)
  qed (use a(2-6) in \<open>simp_all add: skip_def newlines_def count_char_def\<close>)
qed

lemma tracked_skip:
  "tracked d input st \<Longrightarrow> sc_chunk st \<noteq> [] \<or> (case sc_rest st of [] \<Rightarrow> True | c # _ \<Rightarrow> \<not> js_space c)
   \<Longrightarrow> tracked d input (skip k st)"
  using placed_skip [of d input st k]
  by (cases k; cases "sc_chunk st"; cases "sc_rest st") (auto simp: tracked_def skip_def)

lemma placed_restart: assumes "placed d input st" shows "tracked d input (restart st)"
  using assms
proof (rule placedE)
  fix before
  assume a: "input = before @ sc_chunk st @ sc_rest st" "sc_startLine st = 1 + newlines before"
    "sc_line st = sc_startLine st + newlines (sc_chunk st)" "sc_copyData st \<longrightarrow> d = Postgres"
    "list_all (located d input) (sc_out st)" "sorted (map st_line (sc_out st))"
    "list_all (\<lambda>s. st_line s \<le> sc_line st) (sc_out st)"
  have "placed d input (restart st)"
    by (rule placedI [where before = "before @ sc_chunk st"]) (use a in \<open>simp_all add: restart_def\<close>)
  with a(7) show ?thesis by (simp add: tracked_def restart_def)
qed

lemma placed_emit:
  assumes "placed d input st" and "located d input s" and "list_all (\<lambda>x. st_line x \<le> st_line s) (sc_out st)"
    and "st_line s \<le> sc_line st"
  shows "placed d input (emit True s st)"
  using assms by (auto simp: placed_def emit_def sorted_append list_all_iff)

lemma placed_delimiter: "placed d input (st\<lparr>sc_delimiter := x\<rparr>) \<longleftrightarrow> placed d input st"
  by (simp add: placed_def)

lemma placed_flags: "placed d input st \<Longrightarrow> c \<longrightarrow> d = Postgres \<Longrightarrow>
  placed d input (st\<lparr>sc_noBackslash := a, sc_savedModes := b, sc_copyData := c, sc_hasCode := h\<rparr>)"
  by (auto simp: placed_def)

lemma flush_located:
  assumes "tracked d input st" and "trim (sc_chunk st) \<noteq> []"
  defines "sql \<equiv> trim (sc_chunk st)"
  defines "lead \<equiv> take (length sql - length (stripLeadingComments d sql)) sql"
  shows "located d input \<lparr>st_sql = sql, st_line = sc_startLine st + newlines lead\<rparr>"
    and "newlines lead \<le> newlines (sc_chunk st)"
proof -
  from assms(1) obtain before where inp: "input = before @ sc_chunk st @ sc_rest st"
    and sl: "sc_startLine st = 1 + newlines before"
    by (auto simp: tracked_def placed_def)
  obtain t where t: "sc_chunk st = sql @ t"
    using assms(1) trim_no_lead unfolding tracked_def sql_def by blast
  obtain l where l: "sql = l @ stripLeadingComments d sql"
    using stripLeadingComments_suffix [of d sql] by (auto simp: suffix_def)
  then have lead: "lead = l" unfolding lead_def by (metis append_eq_conv_conj diff_add_inverse2 length_append)
  have "input = (before @ l) @ stripLeadingComments d sql @ (t @ sc_rest st)"
    using inp t l by (metis append.assoc)
  then show "located d input \<lparr>st_sql = sql, st_line = sc_startLine st + newlines lead\<rparr>"
    by (intro locatedI [where pre = "before @ l" and post = "t @ sc_rest st"])
      (use sl lead assms(2) in \<open>simp_all add: sql_def\<close>)
  have "newlines (sc_chunk st) = newlines sql + newlines t" by (subst t) simp
  moreover have "newlines sql = newlines l + newlines (stripLeadingComments d sql)" by (subst l) simp
  ultimately show "newlines lead \<le> newlines (sc_chunk st)" using lead by simp
qed

lemma placed_flush: "tracked d input st \<Longrightarrow> placed d input (flush d True st)"
proof (cases "sc_hasCode st \<and> trim (sc_chunk st) \<noteq> []")
  case False
  assume "tracked d input st"
  with False show ?thesis by (auto simp: flush_def tracked_def placed_def Let_def)
next
  case True
  assume t: "tracked d input st"
  let ?sql = "trim (sc_chunk st)"
  let ?s = "\<lparr>st_sql = ?sql, st_line = sc_startLine st +
    newlines (take (length ?sql - length (stripLeadingComments d ?sql)) ?sql)\<rparr>"
  have pl: "placed d input (emit True ?s st)"
  proof (rule placed_emit)
    show "located d input ?s" using flush_located [OF t] True by simp
    show "placed d input st" using t by (simp add: tracked_def)
    show "list_all (\<lambda>x. st_line x \<le> st_line ?s) (sc_out st)"
      using t by (auto simp: tracked_def list_all_iff)
    show "st_line ?s \<le> sc_line st"
      using flush_located(2) [OF t] True t by (simp add: tracked_def placed_def)
  qed
  have pg: "sc_copyData st \<or> lex_copyFromStdin (lexicalRules d) \<and> X \<longrightarrow> d = Postgres" for X
    using t by (cases d) (auto simp: tracked_def placed_def)
  obtain nb sv where nb: "(if lex_tracksSqlMode (lexicalRules d)
      then trackSqlMode ?sql (sc_noBackslash st) (sc_savedModes st)
      else (sc_noBackslash st, sc_savedModes st)) = (nb, sv)"
    by (cases "if lex_tracksSqlMode (lexicalRules d)
      then trackSqlMode ?sql (sc_noBackslash st) (sc_savedModes st)
      else (sc_noBackslash st, sc_savedModes st)") blast
  show ?thesis
    using placed_flags [OF pl pg] True unfolding flush_def Let_def nb by (simp add: newlines_def)
qed

lemma located_append: "located Postgres input s \<Longrightarrow> located Postgres input (s\<lparr>st_sql := st_sql s @ CHR 0x0A # x\<rparr>)"
proof -
  assume "located Postgres input s"
  then obtain pre sql copied post where "st_sql s = sql @ copied" "sql \<noteq> []" "copied = [] \<or> hd copied = CHR 0x0A"
    "input = pre @ stripLeadingComments Postgres sql @ post" "st_line s = 1 + newlines pre"
    by (auto simp: located_def)
  then have "st_sql s @ CHR 0x0A # x = sql @ (copied @ CHR 0x0A # x) \<and> hd (copied @ CHR 0x0A # x) = CHR 0x0A"
    by (auto simp: hd_append)
  then show ?thesis unfolding located_def
    using \<open>sql \<noteq> []\<close> \<open>input = _\<close> \<open>st_line s = _\<close> by fastforce
qed

lemma tracked_copy_step: "tracked d input st \<Longrightarrow> sc_copyData st \<Longrightarrow> tracked d input (copy_step st)"
  unfolding copy_step_alt
proof (rule placed_restart, rule placed_skip)
  assume t: "tracked d input st" and c: "sc_copyData st"
  then have d: "d = Postgres" and p: "placed d input st" by (auto simp: tracked_def placed_def)
  then show "placed d input (st\<lparr>sc_copyData := False, sc_unterminated := u, sc_out := append_last x (sc_out st)\<rparr>)" for u x
    by (cases "sc_out st" rule: rev_cases)
      (auto simp: placed_def append_last_def sorted_append located_append)
qed

lemma command_code:
  assumes "prefix [CHR 0x5C] s"
  shows "stripLeadingComments Postgres s = s" and "s \<noteq> []"
proof -
  obtain r where s: "s = CHR 0x5C # r" using assms by (auto simp: prefix_def)
  have "scanToken Postgres False s = None"
    by (simp add: s scanToken_def scan_quoted_def scan_word_def PG_WORD_def ident_start_def js_alpha_def
        non_ascii_def opens_line_comment_def)
  then show "stripLeadingComments Postgres s = s"
    by (subst stripLeadingComments.simps) (simp add: s js_space_def)
  show "s \<noteq> []" by (simp add: s)
qed

lemma tracked_meta_step:
  assumes t: "tracked d input st" and m: "at_meta d st"
  shows "tracked d input (meta_step True st)"
proof -
  let ?raw = "takeWhile (\<lambda>c. c \<noteq> CHR 0x0A) (sc_rest st)"
  from m have d: "d = Postgres" and bs: "prefix [CHR 0x5C] (sc_rest st)"
    by (cases d; auto simp: at_meta_def)+
  from bs have raw: "prefix [CHR 0x5C] ?raw" by (cases "sc_rest st") auto
  then have "case ?raw of [] \<Rightarrow> True | c # _ \<Rightarrow> \<not> js_space c" by (auto simp: prefix_def js_space_def)
  then obtain tl where tl: "?raw = trim ?raw @ tl" by (rule trim_no_lead)
  have cmd: "prefix [CHR 0x5C] (trim ?raw)"
    using raw by (auto simp: prefix_def trim_Cons js_space_def)
  from t obtain before where inp: "input = before @ sc_chunk st @ sc_rest st"
    and sl: "sc_startLine st = 1 + newlines before" and ln: "sc_line st = sc_startLine st + newlines (sc_chunk st)"
    by (auto simp: tracked_def placed_def)
  have "sc_rest st = trim ?raw @ tl @ dropWhile (\<lambda>c. c \<noteq> CHR 0x0A) (sc_rest st)"
    using tl by (metis append.assoc takeWhile_dropWhile_id)
  with inp have "input = (before @ sc_chunk st) @ trim ?raw @ (tl @ dropWhile (\<lambda>c. c \<noteq> CHR 0x0A) (sc_rest st))"
    by (metis append.assoc)
  then have loc: "located d input \<lparr>st_sql = trim ?raw, st_line = sc_line st\<rparr>"
    using sl ln command_code [OF cmd]
    by (intro locatedI [where pre = "before @ sc_chunk st"
          and post = "tl @ dropWhile (\<lambda>c. c \<noteq> CHR 0x0A) (sc_rest st)"]) (simp_all add: d)
  have "placed d input (emit True \<lparr>st_sql = trim ?raw, st_line = sc_line st\<rparr> st)"
    using t loc by (intro placed_emit) (auto simp: tracked_def placed_def)
  moreover have "placed d input st" using t by (simp add: tracked_def)
  ultimately show ?thesis
    by (auto simp: meta_step_def Let_def intro: placed_restart placed_skip)
qed


lemma tracked_scan_step:
  assumes t: "tracked d input st" and r: "sc_rest st \<noteq> []"
  shows "tracked d input (scan_step d True st)"
proof -
  obtain ch rs where r: "sc_rest st = ch # rs" using r by (cases "sc_rest st") auto
  have p: "placed d input st" using t by (simp add: tracked_def)
  have skip1: "tracked d input (restart (skip k st'))" if "placed d input st'" for k st'
    using that by (intro placed_restart placed_skip)
  have word: "tracked d input (word_step d k st)" "tracked d input (token_step tk st)" "tracked d input (char_step c st)"
    if "sc_chunk st \<noteq> [] \<or> \<not> js_space ch" for k tk c
    using t r that unfolding word_step_def token_step_def char_step_def Let_def
    by (intro tracked_skip; force simp: tracked_def placed_def)+
  have head: "\<not> js_space ch" if "scanToken d nb (ch # rs) = Some tk" "sc_chunk st = []"
    "\<not> (sc_chunk st = [] \<and> js_space ch)" for nb tk
    using that by simp
  show ?thesis
  proof (cases "sc_copyData st \<or> at_meta d st \<or> sc_chunk st = [] \<and> js_space ch")
    case True
    then show ?thesis
      using r t p by (auto simp: scan_step_def intro: tracked_copy_step tracked_meta_step skip1)
  next
    case False
    then have nonsp: "sc_chunk st \<noteq> [] \<or> \<not> js_space ch" by blast
    from False r have "scan_step d True st = (case delimiter_at d st of
         Some (d', k) \<Rightarrow> restart (skip k (st\<lparr>sc_delimiter := d'\<rparr>))
       | None \<Rightarrow> (case scanToken d (sc_noBackslash st) (sc_rest st) of
              Some t \<Rightarrow> if tok_kind t = Word then word_step d (tok_end t) st else token_step t st
            | None \<Rightarrow> if at_delimiter st
                then restart (skip (length (sc_delimiter st)) (flush d True st)) else char_step ch st))"
      by (simp only: scan_step_def list.case de_Morgan_disj simp_thms if_False)
    then show ?thesis
      using word [OF nonsp] p t
      by (auto intro!: skip1 simp: placed_delimiter placed_flush split: option.split prod.split)
  qed
qed

lemma tracked_init: "tracked d input (scan_init input)"
  by (auto simp: tracked_def placed_def scan_init_def)

lemma scan_total: "\<exists>st. scan input d k = Some st"
  using scan_loop_total [of "scan_init input" d k] by (auto simp: scan_def scan_init_def)

lemma scan_placed: "scan input d True = Some st \<Longrightarrow> placed d input st"
  by (rule scan_invariant [where P = "tracked d input" and Q = "placed d input"])
    (auto intro: tracked_scan_step tracked_init placed_flush)


end
