(* ===== verification/Runs.thy ===== *)
theory Runs
  imports Dialects
begin

text \<open>
  Computations that change a state and may throw: what an \<open>async\<close> method of the adapter is, once its awaits are read
  in order.  A thrown value is an \<open>AdapterError\<close>, one that names the input rows of a bulk insert
  it is about, or another \<open>Error\<close> (its message).  The state reached before
  the throw is kept, because the sources' \<open>catch\<close> and \<open>finally\<close> blocks go on from it.
\<close>

datatype Thrown =
  Adapter AdapterError
| Adapter_rows AdapterError int int
| Plain_error string

type_synonym ('s, 'a) run = "'s \<Rightarrow> (Thrown, 'a) result \<times> 's"

named_theorems run_simps \<open>how the combinators of a run compute\<close>

definition ret :: "'a \<Rightarrow> ('s, 'a) run" where
  "ret x s = (Inr x, s)"

definition raise :: "Thrown \<Rightarrow> ('s, 'a) run" where
  "raise e s = (Inl e, s)"

definition bind :: "('s, 'a) run \<Rightarrow> ('a \<Rightarrow> ('s, 'b) run) \<Rightarrow> ('s, 'b) run" where
  "bind m f s = (case m s of (Inl e, s') \<Rightarrow> (Inl e, s') | (Inr x, s') \<Rightarrow> f x s')"

text \<open>A computation without a state, and one run on a state.\<close>

definition lift :: "(AdapterError, 'a) result \<Rightarrow> ('s, 'a) run" where
  "lift r = (case r of Inl e \<Rightarrow> raise (Adapter e) | Inr x \<Rightarrow> ret x)"

text \<open>\<open>try ... finally\<close>, and \<open>try ... catch\<close>.\<close>

definition finally_do :: "('s, 'a) run \<Rightarrow> ('s, unit) run \<Rightarrow> ('s, 'a) run" where
  "finally_do m fin s = (case m s of (r, s') \<Rightarrow>
     (case fin s' of (Inl e, s'') \<Rightarrow> (Inl e, s'') | (Inr u, s'') \<Rightarrow> (r, s'')))"

definition catch :: "('s, 'a) run \<Rightarrow> (Thrown \<Rightarrow> ('s, 'a) run) \<Rightarrow> ('s, 'a) run" where
  "catch m handler s = (case m s of (Inl e, s') \<Rightarrow> handler e s' | (Inr x, s') \<Rightarrow> (Inr x, s'))"

text \<open>A computation on a state of its own, whose result and last state the rest goes on with.\<close>

definition within :: "('p, 'a) run \<Rightarrow> 'p \<Rightarrow> ('a \<Rightarrow> 'p \<Rightarrow> ('s, 'b) run) \<Rightarrow> ('s, 'b) run" where
  "within m p k = (case m p of (Inl e, p') \<Rightarrow> raise e | (Inr x, p') \<Rightarrow> k x p')"

text \<open>\<open>xs.map\<close> with a callback that changes the state or throws.\<close>

fun each :: "('a \<Rightarrow> ('s, 'b) run) \<Rightarrow> 'a list \<Rightarrow> ('s, 'b list) run" where
  "each f [] = ret []"
| "each f (x # xs) = bind (f x) (\<lambda>y. bind (each f xs) (\<lambda>ys. ret (y # ys)))"

lemmas run_defs = ret_def raise_def bind_def lift_def

lemma ret_apply: "ret x s = (Inr x, s)" by (simp add: ret_def)

lemma raise_apply: "raise e s = (Inl e, s)" by (simp add: raise_def)

lemma lift_simps [run_simps]: "lift (Inl e) = raise (Adapter e)" "lift (Inr x) = ret x"
  by (simp_all add: lift_def)

lemma bind_ret [run_simps]: "bind (ret x) f = f x" by (rule ext) (simp add: run_defs)

lemma bind_raise [run_simps]: "bind (raise e) f = raise e" by (rule ext) (simp add: run_defs)

lemma bind_unit [run_simps]: "bind m ret = m" by (rule ext) (simp add: run_defs split: prod.splits sum.splits)

lemma bind_assoc: "bind (bind m f) g = bind m (\<lambda>x. bind (f x) g)"
  by (rule ext) (simp add: bind_def split: prod.splits sum.splits)

lemma bind_cong: "(\<And>x s s'. m s = (Inr x, s') \<Longrightarrow> f x s' = g x s') \<Longrightarrow> bind m f = bind m g"
  by (rule ext) (auto simp: bind_def split: prod.splits sum.splits)

lemma bind_Inr: "bind m f s = (Inr y, t) \<longleftrightarrow> (\<exists>x s'. m s = (Inr x, s') \<and> f x s' = (Inr y, t))"
  by (auto simp: bind_def split: prod.splits sum.splits)

lemma bind_Inl:
  "bind m f s = (Inl e, t) \<longleftrightarrow> m s = (Inl e, t) \<or> (\<exists>x s'. m s = (Inr x, s') \<and> f x s' = (Inl e, t))"
  by (auto simp: bind_def split: prod.splits sum.splits)

lemma each_length: "each f xs s = (Inr ys, t) \<Longrightarrow> length ys = length xs"
  by (induction xs arbitrary: s ys) (auto simp: bind_Inr ret_def)

lemma each_append: "each f (xs @ ys) = bind (each f xs) (\<lambda>as. bind (each f ys) (\<lambda>bs. ret (as @ bs)))"
  by (induction xs) (simp_all add: run_simps bind_assoc)

end
