(* ===== verification/Quoting.thy ===== *)
theory Quoting
  imports Lexer Runs
begin

text \<open>
  Names and values as SQL text: \<open>packages/shared/src/quote-identifier.ts\<close>,
  \<open>packages/adapter/src/sql/quote.ts\<close>, \<open>literal.ts\<close>, \<open>cells.ts\<close>, \<open>search.ts\<close>,
  \<open>row-functions.ts\<close> and the cell type of \<open>packages/shared/src/schemas/cell.ts\<close>.

  A JavaScript number is used by this code only through \<open>Number.isFinite\<close> and \<open>String\<close>: a finite one
  is represented by its text.  The bytes of a binary value are natural numbers below 256.

  The lemmas show that what is quoted cannot escape from its quotes: the scanner reads a quoted name or
  literal as one closed token that ends at its last character, and reading it back gives the value.
\<close>

subsection \<open>Cells\<close>

datatype JsNumber = Finite (num_text: string) | NonFinite (num_text: string)

datatype Cell =
  CNull
| CString string
| CNumber JsNumber
| CBool bool
| CBin string
| CTruncated string nat

fun isBinaryCell :: "Cell \<Rightarrow> bool" where
  "isBinaryCell (CBin b) = True"
| "isBinaryCell _ = False"

fun isTruncatedCell :: "Cell \<Rightarrow> bool" where
  "isTruncatedCell (CTruncated t n) = True"
| "isTruncatedCell _ = False"

definition isInputCell :: "Cell \<Rightarrow> bool" where
  "isInputCell cell \<longleftrightarrow> \<not> isTruncatedCell cell"

subsection \<open>Base64 and hexadecimal, as \<open>Buffer\<close> converts them\<close>

definition base64_digit :: "char \<Rightarrow> nat option" where
  "base64_digit c =
    (if CHR ''A'' \<le> c \<and> c \<le> CHR ''Z'' then Some (of_char c - 65)
     else if CHR ''a'' \<le> c \<and> c \<le> CHR ''z'' then Some (of_char c - 97 + 26)
     else if js_digit c then Some (of_char c - 48 + 52)
     else if c = CHR ''+'' \<or> c = CHR ''-'' then Some 62
     else if c = CHR ''/'' \<or> c = CHR ''_'' then Some 63
     else None)"

fun base64_groups :: "nat list \<Rightarrow> nat list" where
  "base64_groups (a # b # c # d # ds) =
     (a * 4 + b div 16) # (b mod 16 * 16 + c div 4) # (c mod 4 * 64 + d) # base64_groups ds"
| "base64_groups [a, b, c] = [a * 4 + b div 16, b mod 16 * 16 + c div 4]"
| "base64_groups [a, b] = [a * 4 + b div 16]"
| "base64_groups _ = []"

definition base64_decode :: "string \<Rightarrow> nat list" where
  "base64_decode s = base64_groups (List.map_filter base64_digit (takeWhile (\<lambda>c. c \<noteq> CHR ''='') s))"

definition base64_char :: "nat \<Rightarrow> char" where
  "base64_char n = ''ABCDEFGHIJKLMNOPQRSTUVWXYZabcdefghijklmnopqrstuvwxyz0123456789+/'' ! n"

fun base64_encode :: "nat list \<Rightarrow> string" where
  "base64_encode (x # y # z # bs) =
     [base64_char (x div 4), base64_char (x mod 4 * 16 + y div 16), base64_char (y mod 16 * 4 + z div 64),
      base64_char (z mod 64)] @ base64_encode bs"
| "base64_encode [x, y] =
     [base64_char (x div 4), base64_char (x mod 4 * 16 + y div 16), base64_char (y mod 16 * 4), CHR ''='']"
| "base64_encode [x] = [base64_char (x div 4), base64_char (x mod 4 * 16), CHR ''='', CHR ''='']"
| "base64_encode [] = []"

definition hex_digit :: "nat \<Rightarrow> char" where
  "hex_digit n = ''0123456789abcdef'' ! n"

definition hex_bytes :: "nat list \<Rightarrow> string" where
  "hex_bytes bs = concat (map (\<lambda>b. [hex_digit (b div 16), hex_digit (b mod 16)]) bs)"

definition hex :: "string \<Rightarrow> string" where
  "hex base64 = hex_bytes (base64_decode base64)"

subsection \<open>Identifiers and literals\<close>

definition quoteIdentifier :: "Dialect \<Rightarrow> string \<Rightarrow> string" where
  "quoteIdentifier dialect name =
    (let q = cap_identifierQuote (capabilities dialect) in [q] @ replace_char q [q, q] name @ [q])"

definition quoteLiteral :: "Dialect \<Rightarrow> string \<Rightarrow> string" where
  "quoteLiteral dialect value =
    (let text = (if cap_literalBackslashEscapes (capabilities dialect)
                 then replace_char (CHR 0x5C) [CHR 0x5C, CHR 0x5C] value else value)
     in [sq] @ replace_char sq [sq, sq] text @ [sq])"

definition mysqlLiteral :: "string \<Rightarrow> string" where
  "mysqlLiteral = quoteLiteral Mysql"

definition pgLiteral :: "string \<Rightarrow> string" where
  "pgLiteral = quoteLiteral Postgres"

definition quoteIdent :: "Dialect \<Rightarrow> string \<Rightarrow> (AdapterError, string) result" where
  "quoteIdent dialect name =
    (if CHR 0x00 \<in> set name then Inl (AdapterError VALIDATION ''Identifier contains a NUL byte'')
     else Inr (quoteIdentifier dialect name))"

definition quoteTable :: "Dialect \<Rightarrow> Namespace \<Rightarrow> string \<Rightarrow> (AdapterError, string) result" where
  "quoteTable dialect ns table =
    (let first = (if dialect = Mysql then ns_database ns
                  else (case ns_schema ns of Some s \<Rightarrow> s | None \<Rightarrow> ''public''))
     in rbind (quoteIdent dialect first) (\<lambda>a.
        rbind (quoteIdent dialect table) (\<lambda>b. Inr (a @ ''.'' @ b))))"

definition placeholder :: "Dialect \<Rightarrow> nat \<Rightarrow> string" where
  "placeholder dialect index = (if dialect = Mysql then ''?'' else ''$'' @ show_nat index)"

text \<open>The literal of a wire cell; a truncated one is the error the source throws.\<close>

fun cellLiteral :: "Dialect \<Rightarrow> Cell \<Rightarrow> (string, string) result" where
  "cellLiteral dialect CNull = Inr ''NULL''"
| "cellLiteral dialect (CBin b) = Inr
     (if dialect = Mysql then ''X'' @ [sq] @ hex b @ [sq]
      else [sq, CHR 0x5C, CHR ''x''] @ hex b @ [sq] @ ''::bytea'')"
| "cellLiteral dialect (CTruncated t n) = Inl ''truncated text cannot be written to a dump''"
| "cellLiteral dialect (CNumber (Finite t)) = Inr t"
| "cellLiteral dialect (CNumber (NonFinite t)) = Inr ''NULL''"
| "cellLiteral dialect (CBool b) = Inr
     (if dialect = Mysql then (if b then ''1'' else ''0'') else if b then ''TRUE'' else ''FALSE'')"
| "cellLiteral dialect (CString s) = Inr (if dialect = Mysql then mysqlLiteral s else pgLiteral s)"

subsection \<open>Parameters\<close>

datatype DbValue = DbBytes "nat list" | DbCell Cell

fun toDbValue :: "Cell \<Rightarrow> (AdapterError, DbValue) result" where
  "toDbValue (CBin b) = Inr (DbBytes (base64_decode b))"
| "toDbValue (CTruncated t n) = Inl (AdapterError VALIDATION ''a truncated text value cannot be written back'')"
| "toDbValue cell = Inr (DbCell cell)"

record Params =
  pa_dialect :: Dialect
  pa_literal :: bool
  pa_values :: "DbValue list"

definition new_params :: "Dialect \<Rightarrow> bool \<Rightarrow> Params" where
  "new_params dialect literal = \<lparr>pa_dialect = dialect, pa_literal = literal, pa_values = []\<rparr>"

text \<open>\<open>Params.add\<close>: the value is kept, and the text that stands for it is handed back.\<close>

definition add_param :: "Params \<Rightarrow> DbValue \<Rightarrow> (string, string) result \<times> Params" where
  "add_param p v =
    (let p' = p\<lparr>pa_values := pa_values p @ [v]\<rparr>;
         cell = (case v of DbBytes bs \<Rightarrow> CBin (base64_encode bs) | DbCell c \<Rightarrow> c)
     in (if pa_literal p then cellLiteral (pa_dialect p) cell
         else Inr (placeholder (pa_dialect p) (length (pa_values p'))), p'))"

text \<open>LIKE metacharacters escaped with an exclamation mark.\<close>

definition escapeLike :: "string \<Rightarrow> string" where
  "escapeLike text =
    replace_char (CHR ''_'') ''!_'' (replace_char (CHR ''%'') ''!%'' (replace_char (CHR ''!'') ''!!'' text))"

subsection \<open>Row functions\<close>

datatype RowFunction =
  FnNow | FnCurrentDate | FnCurrentTime | FnUuid | FnMd5 | FnSha1 | FnSha256 | FnUpper | FnLower | FnTrim

definition ROW_FUNCTIONS :: "RowFunction list" where
  "ROW_FUNCTIONS = [FnNow, FnCurrentDate, FnCurrentTime, FnUuid, FnMd5, FnSha1, FnSha256, FnUpper, FnLower, FnTrim]"

definition rowFunctionsFor :: "Dialect \<Rightarrow> RowFunction list" where
  "rowFunctionsFor dialect =
    (if dialect = Postgres then filter (\<lambda>fn. fn \<noteq> FnSha1) ROW_FUNCTIONS else ROW_FUNCTIONS)"

definition ROW_FUNCTIONS_WITH_ARG :: "RowFunction list" where
  "ROW_FUNCTIONS_WITH_ARG = [FnMd5, FnSha1, FnSha256, FnUpper, FnLower, FnTrim]"

text \<open>The rendering of a function: without an argument, or around one; \<open>None\<close> where the dialect lacks it.\<close>

datatype Rendering = Fixed string | Around string string

fun ROW_SQL :: "Dialect \<Rightarrow> RowFunction \<Rightarrow> Rendering option" where
  "ROW_SQL Mysql FnNow = Some (Fixed ''NOW()'')"
| "ROW_SQL Mysql FnCurrentDate = Some (Fixed ''CURRENT_DATE'')"
| "ROW_SQL Mysql FnCurrentTime = Some (Fixed ''CURRENT_TIME'')"
| "ROW_SQL Mysql FnUuid = Some (Fixed ''UUID()'')"
| "ROW_SQL Mysql FnMd5 = Some (Around ''MD5('' '')'')"
| "ROW_SQL Mysql FnSha1 = Some (Around ''SHA1('' '')'')"
| "ROW_SQL Mysql FnSha256 = Some (Around ''SHA2('' '', 256)'')"
| "ROW_SQL Mysql FnUpper = Some (Around ''UPPER('' '')'')"
| "ROW_SQL Mysql FnLower = Some (Around ''LOWER('' '')'')"
| "ROW_SQL Mysql FnTrim = Some (Around ''TRIM('' '')'')"
| "ROW_SQL Postgres FnNow = Some (Fixed ''now()'')"
| "ROW_SQL Postgres FnCurrentDate = Some (Fixed ''CURRENT_DATE'')"
| "ROW_SQL Postgres FnCurrentTime = Some (Fixed ''CURRENT_TIME'')"
| "ROW_SQL Postgres FnUuid = Some (Fixed ''gen_random_uuid()'')"
| "ROW_SQL Postgres FnMd5 = Some (Around ''md5('' ''::text)'')"
| "ROW_SQL Postgres FnSha1 = None"
| "ROW_SQL Postgres FnSha256 = Some (Around ''encode(sha256(convert_to(''
     (''::text, '' @ [sq] @ ''UTF8'' @ [sq] @ '')), '' @ [sq] @ ''hex'' @ [sq] @ '')''))"
| "ROW_SQL Postgres FnUpper = Some (Around ''upper('' ''::text)'')"
| "ROW_SQL Postgres FnLower = Some (Around ''lower('' ''::text)'')"
| "ROW_SQL Postgres FnTrim = Some (Around ''btrim('' ''::text)'')"

fun fn_name :: "RowFunction \<Rightarrow> string" where
  "fn_name FnNow = ''now''"
| "fn_name FnCurrentDate = ''current_date''"
| "fn_name FnCurrentTime = ''current_time''"
| "fn_name FnUuid = ''uuid''"
| "fn_name FnMd5 = ''md5''"
| "fn_name FnSha1 = ''sha1''"
| "fn_name FnSha256 = ''sha256''"
| "fn_name FnUpper = ''upper''"
| "fn_name FnLower = ''lower''"
| "fn_name FnTrim = ''trim''"

definition dialect_name :: "Dialect \<Rightarrow> string" where
  "dialect_name d = (if d = Mysql then ''mysql'' else ''postgres'')"

text \<open>
  \<open>rowFunctionSql\<close>: the argument is a computation on the parameters (it binds the value) and is run only
  for a function that takes one.
\<close>

definition rowFunctionSql :: "Dialect \<Rightarrow> RowFunction \<Rightarrow> ('s, string) run \<Rightarrow> ('s, string) run" where
  "rowFunctionSql dialect fn arg = (case ROW_SQL dialect fn of
     None \<Rightarrow> raise (Adapter (AdapterError UNSUPPORTED (fn_name fn @ '' is not available on '' @ dialect_name dialect)))
   | Some (Fixed t) \<Rightarrow> ret t
   | Some (Around before after) \<Rightarrow> bind arg (\<lambda>a. ret (before @ a @ after)))"

subsection \<open>What is quoted stays inside its quotes\<close>

text \<open>The text between the quotes: the quote doubled, and the backslash too where it escapes.\<close>

definition escape_text :: "char \<Rightarrow> bool \<Rightarrow> string \<Rightarrow> string" where
  "escape_text q backslash v =
    concat (map (\<lambda>c. if c = q then [q, q] else if c = CHR 0x5C \<and> backslash then [c, c] else [c]) v)"

lemma escape_text_simps [simp]:
  "escape_text q b [] = []"
  "escape_text q b (c # v) =
     (if c = q then [q, q] else if c = CHR 0x5C \<and> b then [c, c] else [c]) @ escape_text q b v"
  by (simp_all add: escape_text_def)

lemma quoteIdentifier_escape:
  "quoteIdentifier d name =
     (let q = cap_identifierQuote (capabilities d) in q # escape_text q False name @ [q])"
proof -
  have "replace_char q [q, q] name = escape_text q False name" for q by (induction name) auto
  then show ?thesis by (simp add: quoteIdentifier_def)
qed

lemma quoteLiteral_escape: "quoteLiteral d v = sq # escape_text sq (d = Mysql) v @ [sq]"
proof -
  have "replace_char sq [sq, sq] (replace_char (CHR 0x5C) [CHR 0x5C, CHR 0x5C] v) = escape_text sq True v"
    by (induction v) auto
  moreover have "replace_char sq [sq, sq] v = escape_text sq False v" by (induction v) auto
  ultimately show ?thesis by (cases d) (simp_all add: quoteLiteral_def capabilities_defs)
qed

definition not_quote :: "char \<Rightarrow> string \<Rightarrow> bool" where
  "not_quote q rest \<longleftrightarrow> (case rest of [] \<Rightarrow> True | c # _ \<Rightarrow> c \<noteq> q)"

lemma quoted_rest_escape:
  assumes "q \<noteq> CHR 0x5C" and "not_quote q rest"
  shows "quoted_rest q b (escape_text q b v @ q # rest) = (Suc (length (escape_text q b v)), True)"
proof (induction v)
  case Nil
  then show ?case using assms by (cases rest) (auto simp: not_quote_def)
next
  case (Cons c v)
  obtain x xs where x: "escape_text q b v @ q # rest = x # xs"
    by (cases "escape_text q b v @ q # rest") auto
  with Cons assms(1) show ?case
    by (auto simp: advance_def prod_eq_iff)
qed

lemma quotedSpan_escape:
  assumes "q \<noteq> CHR 0x5C" and "not_quote q rest"
  shows "quotedSpan q b (escape_text q b v @ q # rest) =
    \<lparr>tok_kind = Literal, tok_end = length (q # escape_text q b v @ [q]), tok_closed = True\<rparr>"
  by (simp add: quotedSpan_def quoted_rest_escape [OF assms])

lemma scan_quoteLiteral:
  assumes "not_quote sq rest" and "nb \<longrightarrow> d = Postgres"
  shows "scanToken d nb (quoteLiteral d v @ rest) =
    Some \<lparr>tok_kind = Literal, tok_end = length (quoteLiteral d v), tok_closed = True\<rparr>"
proof -
  have "lex_backslashEscapes (lexicalRules d) \<and> \<not> nb \<longleftrightarrow> d = Mysql" using assms(2) by auto
  then show ?thesis
    using assms(1) by (simp add: scanToken_def scan_quoted_def quoteLiteral_escape quotedSpan_escape)
qed

lemma scan_quoteIdentifier:
  assumes "not_quote (cap_identifierQuote (capabilities d)) rest"
  shows "scanToken d nb (quoteIdentifier d name @ rest) =
    Some \<lparr>tok_kind = Literal, tok_end = length (quoteIdentifier d name), tok_closed = True\<rparr>"
  using assms
  by (cases d) (simp_all add: scanToken_def scan_quoted_def quoteIdentifier_escape Let_def quotedSpan_escape)

subsection \<open>What a server reads back\<close>

text \<open>
  How a server reads the text after an opening quote: a doubled quote is one, and where the backslash
  escapes (MySQL literals) the sequences of its manual.  The result is the value and the text after it.
\<close>

definition unescape :: "char \<Rightarrow> string" where
  "unescape c =
    (if c = CHR ''0'' then [CHR 0x00] else if c = CHR ''b'' then [CHR 0x08]
     else if c = CHR ''n'' then [CHR 0x0A] else if c = CHR ''r'' then [CHR 0x0D]
     else if c = CHR ''t'' then [CHR 0x09] else if c = CHR ''Z'' then [CHR 0x1A]
     else if c = CHR ''%'' \<or> c = CHR ''_'' then [CHR 0x5C, c] else [c])"

fun read_quoted :: "char \<Rightarrow> bool \<Rightarrow> string \<Rightarrow> (string \<times> string) option" where
  "read_quoted q backslash [] = None"
| "read_quoted q backslash [c] = (if c = q then Some ([], []) else None)"
| "read_quoted q backslash (c # d # s) =
     (if c = CHR 0x5C \<and> backslash then map_option (\<lambda>(v, r). (unescape d @ v, r)) (read_quoted q backslash s)
      else if c = q \<and> d = q then map_option (\<lambda>(v, r). (q # v, r)) (read_quoted q backslash s)
      else if c = q then Some ([], d # s)
      else map_option (\<lambda>(v, r). (c # v, r)) (read_quoted q backslash (d # s)))"

definition read_literal :: "Dialect \<Rightarrow> string \<Rightarrow> (string \<times> string) option" where
  "read_literal d s = (case s of [] \<Rightarrow> None | c # r \<Rightarrow>
     if c = sq then read_quoted sq (d = Mysql) r else None)"

definition read_identifier :: "Dialect \<Rightarrow> string \<Rightarrow> (string \<times> string) option" where
  "read_identifier d s = (case s of [] \<Rightarrow> None | c # r \<Rightarrow>
     if c = cap_identifierQuote (capabilities d) then read_quoted c False r else None)"

lemma read_quoted_escape:
  assumes "q \<noteq> CHR 0x5C" and "not_quote q rest"
  shows "read_quoted q b (escape_text q b v @ q # rest) = Some (v, rest)"
proof (induction v)
  case Nil
  then show ?case using assms by (cases rest) (auto simp: not_quote_def)
next
  case (Cons c v)
  obtain x xs where x: "escape_text q b v @ q # rest = x # xs"
    by (cases "escape_text q b v @ q # rest") auto
  with Cons assms(1) show ?case by (auto simp: unescape_def)
qed

lemma read_quoteLiteral: "not_quote sq rest \<Longrightarrow> read_literal d (quoteLiteral d v @ rest) = Some (v, rest)"
  by (simp add: read_literal_def quoteLiteral_escape read_quoted_escape)

lemma read_quoteIdentifier:
  "not_quote (cap_identifierQuote (capabilities d)) rest
   \<Longrightarrow> read_identifier d (quoteIdentifier d name @ rest) = Some (name, rest)"
  by (cases d) (simp_all add: read_identifier_def quoteIdentifier_escape Let_def read_quoted_escape)

text \<open>
  C14: whatever its content, a quoted literal followed by anything but a quote is one closed token of the
  scanner that ends with its closing quote, and the server reads exactly the value back.
\<close>

theorem quoteLiteral_contained:
  assumes "not_quote sq rest"
  shows "scanToken d False (quoteLiteral d v @ rest) =
      Some \<lparr>tok_kind = Literal, tok_end = length (quoteLiteral d v), tok_closed = True\<rparr>
    \<and> read_literal d (quoteLiteral d v @ rest) = Some (v, rest)"
  using assms by (simp add: scan_quoteLiteral read_quoteLiteral)

theorem quoteLiteral_contained_witness:
  "scanToken Mysql False (quoteLiteral Mysql ([CHR 0x5C, sq] @ ''; DROP'') @ ''; x'') =
      Some \<lparr>tok_kind = Literal, tok_end = 12, tok_closed = True\<rparr>
    \<and> read_literal Mysql (quoteLiteral Mysql ([CHR 0x5C, sq] @ ''; DROP'') @ ''; x'')
      = Some ([CHR 0x5C, sq] @ ''; DROP'', ''; x'')"
proof -
  have "not_quote sq ''; x''" by (simp add: not_quote_def)
  moreover have "length (quoteLiteral Mysql ([CHR 0x5C, sq] @ ''; DROP'')) = 12"
    by (simp add: quoteLiteral_escape)
  ultimately show ?thesis
    using quoteLiteral_contained [of "''; x''" Mysql "[CHR 0x5C, sq] @ ''; DROP''"] by metis
qed

text \<open>
  C15: the same for a quoted name, under either reading of the backslash: one closed token, read back as
  the name.
\<close>

theorem quoteIdentifier_contained:
  assumes "not_quote (cap_identifierQuote (capabilities d)) rest"
  shows "scanToken d nb (quoteIdentifier d name @ rest) =
      Some \<lparr>tok_kind = Literal, tok_end = length (quoteIdentifier d name), tok_closed = True\<rparr>
    \<and> read_identifier d (quoteIdentifier d name @ rest) = Some (name, rest)"
  using assms by (simp add: scan_quoteIdentifier read_quoteIdentifier)

theorem quoteIdentifier_contained_witness:
  "scanToken Postgres False (quoteIdentifier Postgres ([CHR 0x22] @ '';--'') @ '' ('') =
      Some \<lparr>tok_kind = Literal, tok_end = 7, tok_closed = True\<rparr>
    \<and> read_identifier Postgres (quoteIdentifier Postgres ([CHR 0x22] @ '';--'') @ '' ('')
      = Some ([CHR 0x22] @ '';--'', '' ('')"
proof -
  have "not_quote (cap_identifierQuote (capabilities Postgres)) '' (''" by (simp add: not_quote_def)
  moreover have "length (quoteIdentifier Postgres ([CHR 0x22] @ '';--'')) = 7"
    by (simp add: quoteIdentifier_escape Let_def)
  ultimately show ?thesis
    using quoteIdentifier_contained [of Postgres "'' (''" False "[CHR 0x22] @ '';--''"] by metis
qed

end
