(* ===== verification/Scripts.thy ===== *)
theory Scripts
  imports Split_Facts Quoting
begin

text \<open>
  Generated statements as one script: \<open>packages/shared/src/sql-script.ts\<close>, and what is left of a script
  that was stopped: \<open>packages/shared/src/remaining-after-stop.ts\<close>.

  The main lemma says that the splitter gives back the statements the script was made of, when each is
  built from plain text, quoted names and quoted values of any content.
\<close>

subsection \<open>sqlScript\<close>

definition DELIMITERS :: "string list" where
  "DELIMITERS = [''$$'', ''//'', '';;'', ''$$$$'']"

definition sqlScript :: "Dialect \<Rightarrow> string list \<Rightarrow> (string, string) result" where
  "sqlScript dialect statements =
    (if dialect = Postgres \<or> \<not> list_ex (\<lambda>s. has_sub s '';'') statements
     then Inr (join ('';'' @ [CHR 0x0A]) statements)
     else (case List.find (\<lambda>d. \<not> list_ex (\<lambda>s. has_sub s d) statements) DELIMITERS of
         None \<Rightarrow> Inl ''No delimiter is free of the statements''
       | Some delimiter \<Rightarrow> Inr (''DELIMITER '' @ delimiter @ [CHR 0x0A]
           @ join [CHR 0x0A] (map (\<lambda>s. s @ [CHR 0x0A] @ delimiter) statements)
           @ [CHR 0x0A] @ ''DELIMITER ;'')))"

subsection \<open>remainingAfterStop\<close>

datatype ResultKind = ResultRows | ResultAffected | ResultError

text \<open>The fields of a statement's result that the resumption reads.\<close>

record StatementResult =
  sr_kind :: ResultKind
  sr_sql :: string
  sr_statement :: "nat option"

definition is_BEGIN :: "string \<Rightarrow> bool" where
  "is_BEGIN s \<longleftrightarrow> (let t = to_lower (trim s); r = drop 5 t in
     t = ''begin'' \<or> prefix ''start'' t \<and> dropWhile js_space r = ''transaction'' \<and> dropWhile js_space r \<noteq> r)"

definition is_END :: "string \<Rightarrow> bool" where
  "is_END s \<longleftrightarrow> (let t = to_lower (trim s) in t = ''commit'' \<or> t = ''end'')"

text \<open>A word and at least one space after it; \<open>None\<close> when the text does not start so.\<close>

definition word_then_space :: "string \<Rightarrow> string \<Rightarrow> string option" where
  "word_then_space w s =
    (if ci_prefix w s then
       (let r = drop (length w) s; t = dropWhile js_space r in if t \<noteq> r then Some t else None)
     else None)"

definition is_CONCURRENT_BUILD :: "string \<Rightarrow> bool" where
  "is_CONCURRENT_BUILD s \<longleftrightarrow>
    (case word_then_space ''create'' (dropWhile js_space s) of
       None \<Rightarrow> False
     | Some t \<Rightarrow>
         (let u = (case word_then_space ''unique'' t of Some u \<Rightarrow> u | None \<Rightarrow> t) in
          case word_then_space ''index'' u of
            None \<Rightarrow> False
          | Some v \<Rightarrow> ci_prefix ''concurrently'' v \<and> word_ends (drop 12 v)))"

text \<open>The loop over the results: the index the rest starts at, before transactions are looked at.\<close>

fun resume_point :: "string list \<Rightarrow> StatementResult list \<Rightarrow> nat \<Rightarrow> nat option" where
  "resume_point sql [] resume = Some resume"
| "resume_point sql (r # rs) resume =
     (case sr_statement r of
        None \<Rightarrow> None
      | Some at \<Rightarrow>
          if at < length sql \<and> trim (sql ! at) = trim (sr_sql r) then
            (if sr_kind r = ResultError then
               (if is_END (sql ! at) \<or> is_CONCURRENT_BUILD (sql ! at) then None else Some at)
             else resume_point sql rs (max resume (at + 1)))
          else None)"

fun open_transaction :: "nat \<Rightarrow> string list \<Rightarrow> nat option \<Rightarrow> nat option" where
  "open_transaction i [] opened = opened"
| "open_transaction i (s # ss) opened =
     open_transaction (i + 1) ss (if is_BEGIN s then Some i else if is_END s then None else opened)"

definition remainingAfterStop :: "string list \<Rightarrow> StatementResult list \<Rightarrow> string list option" where
  "remainingAfterStop sql results = (case resume_point sql results 0 of
     None \<Rightarrow> None
   | Some resume \<Rightarrow>
       (case open_transaction 0 (take resume sql) None of
          Some i \<Rightarrow> Some (drop i sql)
        | None \<Rightarrow> Some (drop resume sql)))"

subsection \<open>Statements built from plain text, names and values\<close>

datatype Piece = Plain string | Name string | Value string

fun piece_text :: "Dialect \<Rightarrow> Piece \<Rightarrow> string" where
  "piece_text d (Plain s) = s"
| "piece_text d (Name n) = quoteIdentifier d n"
| "piece_text d (Value v) = quoteLiteral d v"

definition render :: "Dialect \<Rightarrow> Piece list \<Rightarrow> string" where
  "render d ps = concat (map (piece_text d) ps)"

text \<open>
  Plain text holds no quote, no comment opener, no dollar and no backslash, and on PostgreSQL no
  semicolon; a MySQL routine body may hold semicolons of its own.
\<close>

definition inert :: "Dialect \<Rightarrow> char \<Rightarrow> bool" where
  "inert d c \<longleftrightarrow> c \<noteq> sq \<and> c \<noteq> CHR 0x22 \<and> c \<noteq> CHR 0x60 \<and> c \<noteq> CHR ''#'' \<and> c \<noteq> CHR ''$'' \<and> c \<noteq> CHR ''-''
     \<and> c \<noteq> CHR ''/'' \<and> c \<noteq> CHR 0x5C \<and> (d = Postgres \<longrightarrow> c \<noteq> CHR '';'')"

text \<open>No \<open>BEGIN ATOMIC\<close>: a PostgreSQL body that starts so is not plain text.\<close>

fun no_atomic :: "string \<Rightarrow> bool" where
  "no_atomic [] = True"
| "no_atomic (c # s) = (\<not> (to_upper (take 5 (c # s)) = ''BEGIN'' \<and> atomic_after (drop 5 (c # s))) \<and> no_atomic s)"

fun pieces_ok :: "Dialect \<Rightarrow> Piece list \<Rightarrow> bool" where
  "pieces_ok d [] = True"
| "pieces_ok d (Plain p # ps) =
     (p \<noteq> [] \<and> list_all (inert d) p \<and> (d = Postgres \<longrightarrow> no_atomic p)
      \<and> (case ps of [] \<Rightarrow> True | Plain _ # _ \<Rightarrow> False | Name _ # _ \<Rightarrow> True
          | Value _ # _ \<Rightarrow> d = Postgres \<longrightarrow> \<not> ident_cont (last p))
      \<and> pieces_ok d ps)"
| "pieces_ok d (_ # ps) = ((case ps of [] \<Rightarrow> True | Plain _ # _ \<Rightarrow> True | _ \<Rightarrow> False) \<and> pieces_ok d ps)"

text \<open>The text does not start with a keyword, and is too short for it only where it differs from it.\<close>

definition starts_other :: "string \<Rightarrow> string \<Rightarrow> bool" where
  "starts_other kw p \<longleftrightarrow> \<not> prefix (to_lower (take (length kw) p)) kw"

definition statement_ok :: "Dialect \<Rightarrow> Piece list \<Rightarrow> bool" where
  "statement_ok d ps \<longleftrightarrow> pieces_ok d ps
     \<and> (case ps of Plain p # _ \<Rightarrow> \<not> js_space (hd p)
          \<and> starts_other ''delimiter'' p \<and> starts_other ''set'' p \<and> starts_other ''copy'' p
        | _ \<Rightarrow> False)
     \<and> \<not> js_space (last (render d ps))"

subsection \<open>The scan inside a statement\<close>

definition inside :: "string \<Rightarrow> string list \<Rightarrow> string \<Rightarrow> string \<Rightarrow> ScanState \<Rightarrow> bool" where
  "inside delim sqls chunk rest st \<longleftrightarrow>
     sc_chunk st = chunk \<and> sc_rest st = rest \<and> (sc_hasCode st \<longleftrightarrow> chunk \<noteq> []) \<and> sc_delimiter st = delim
     \<and> sc_atomicDepth st = 0 \<and> \<not> sc_noBackslash st \<and> \<not> sc_copyData st \<and> \<not> sc_unterminated st
     \<and> map st_sql (sc_out st) = sqls"

lemma scan_loop_step: "sc_rest st \<noteq> [] \<Longrightarrow> scan_loop d k st = scan_loop d k (scan_step d k st)"
  unfolding scan_loop_def by (subst while_option_unfold) simp

lemma scan_step_inside:
  assumes "inside delim sqls chunk (c # r) st"
    and "chunk = [] \<Longrightarrow> \<not> js_space c \<and> delimiter_at d st = None \<and> c \<noteq> CHR 0x5C"
  shows "scan_step d True st = (case scanToken d False (c # r) of
       Some t \<Rightarrow> if tok_kind t = Word then word_step d (tok_end t) st else token_step t st
     | None \<Rightarrow> if prefix delim (c # r)
         then restart (skip (length delim) (flush d True st)) else char_step c st)"
proof -
  have "delimiter_at d st = None \<and> \<not> at_meta d st"
    using assms by (cases "chunk = []") (auto simp: inside_def delimiter_at_def at_meta_def)
  with assms show ?thesis
    by (auto simp: scan_step_def inside_def at_delimiter_def split: option.split)
qed

lemma inert_scan:
  assumes "inert d c"
  shows "scanToken d nb (c # r) =
    (if d = Postgres \<and> ident_start c
     then (if (c = CHR ''E'' \<or> c = CHR ''e'') \<and> take 1 r = [sq]
           then Some (let t = quotedSpan sq True (drop 1 r) in t\<lparr>tok_end := 1 + tok_end t\<rparr>)
           else Some \<lparr>tok_kind = Word, tok_end = Suc (length (takeWhile ident_cont r)), tok_closed = True\<rparr>)
     else None)"
proof (cases d)
  case Mysql
  with assms show ?thesis
    by (auto simp: scanToken_def scan_quoted_def scan_word_def opens_line_comment_def inert_def Let_def)
next
  case Postgres
  have "takeWhile ident_cont r = [] \<or> take 1 r \<noteq> [sq]"
    by (cases r) (auto simp: ident_cont_def js_word_def js_alpha_def js_digit_def non_ascii_def)
  moreover have "takeWhile ident_cont r = []" if "take 1 r = [sq]"
    using that by (cases r) (auto simp: ident_cont_def js_word_def js_alpha_def js_digit_def non_ascii_def)
  ultimately show ?thesis using assms Postgres
    by (auto simp: scanToken_def scan_quoted_def scan_word_def opens_line_comment_def inert_def PG_WORD_def Let_def)
qed

lemma no_atomic_suffix: "no_atomic (p @ q) \<Longrightarrow> no_atomic q"
  by (induction p) auto

lemma char_inside:
  "inside delim sqls chunk (c # r) st \<Longrightarrow> \<not> js_space c \<or> chunk \<noteq> []
   \<Longrightarrow> inside delim sqls (chunk @ [c]) r (char_step c st)"
  by (auto simp: inside_def char_step_def skip_def js_space_def)

lemma token_inside:
  "inside delim sqls chunk r st \<Longrightarrow> chunk \<noteq> [] \<Longrightarrow> tok_closed t
   \<Longrightarrow> inside delim sqls (chunk @ take (tok_end t) r) (drop (tok_end t) r) (token_step t st)"
  by (auto simp: inside_def token_step_def skip_def)

lemma word_inside:
  "inside delim sqls chunk r st \<Longrightarrow> take k r \<noteq> [] \<Longrightarrow> d = Postgres \<longrightarrow> \<not> (to_upper (take k r) = ''BEGIN'' \<and> atomic_after (drop k r))
   \<Longrightarrow> inside delim sqls (chunk @ take k r) (drop k r) (word_step d k st)"
  by (cases d) (auto simp: inside_def word_step_def skip_def word_depths_def)

lemma takeWhile_boundary:
  "(case x of [] \<Rightarrow> True | c # _ \<Rightarrow> \<not> P c) \<Longrightarrow> takeWhile P (p @ x) = takeWhile P p"
  by (induction p) (auto split: list.splits)

lemma prefix_length: "to_lower (take n s) = w \<Longrightarrow> length w = n \<Longrightarrow> n \<le> length s"
  by (metis length_map length_take min.absorb_iff2 min.commute)

lemma atomic_append:
  assumes "x = [] \<or> \<not> js_word (hd x) \<and> \<not> js_space (hd x)"
  shows "atomic_after (r @ x) \<Longrightarrow> atomic_after r"
proof -
  assume a: "atomic_after (r @ x)"
  let ?t = "dropWhile js_space (r @ x)"
  from a have t: "?t \<noteq> r @ x" "to_lower (take 6 ?t) = ''atomic''" "word_ends (drop 6 ?t)"
    by (simp_all add: atomic_after_def Let_def ci_prefix_def eval_nat_numeral)
  have l: "6 \<le> length ?t" using prefix_length [OF t(2)] by simp
  have letters: "js_alpha (?t ! k)" if "k < 6" for k
  proof -
    have "lower_char (?t ! k) = ''atomic'' ! k" using t(2) l that by (metis length_take min.absorb2 nth_map nth_take)
    moreover have "js_alpha (''atomic'' ! k)" using that by (auto simp: js_alpha_def less_Suc_eq numeral_eq_Suc)
    moreover have "js_alpha (lower_char c) \<Longrightarrow> js_alpha c" for c
      by (auto simp: js_alpha_def lower_char_def split: if_splits)
    ultimately show ?thesis by metis
  qed
  show "atomic_after r"
  proof (cases "\<forall>c \<in> set r. js_space c")
    case True
    then have "?t = dropWhile js_space x" by (simp add: dropWhile_append2)
    moreover have "dropWhile js_space x = x" using assms by (cases x) auto
    ultimately have e: "?t = x" by simp
    have "x \<noteq> []" using l unfolding e by auto
    moreover have "js_alpha (x ! 0)" using letters [of 0] unfolding e by simp
    ultimately show ?thesis using assms by (cases x) (auto simp: js_word_def)
  next
    case False
    let ?u = "dropWhile js_space r"
    have u: "?t = ?u @ x" using False by (auto simp: dropWhile_append1)
    have lu: "6 \<le> length ?u"
    proof (rule ccontr)
      assume n: "\<not> 6 \<le> length ?u"
      with l u have "x \<noteq> []" by auto
      moreover have "?t ! length ?u = hd x" using u \<open>x \<noteq> []\<close> by (simp add: hd_conv_nth nth_append)
      ultimately show False using letters [of "length ?u"] n assms by (auto simp: js_word_def)
    qed
    have "?u \<noteq> r" using t(1) u by auto
    moreover have "to_lower (take 6 ?u) = ''atomic''" using t(2) u lu by simp
    moreover have "word_ends (drop 6 ?u)" using t(3) u lu by (cases "drop 6 ?u") (auto simp: word_ends_def)
    ultimately show ?thesis by (simp add: atomic_after_def Let_def ci_prefix_def eval_nat_numeral)
  qed
qed

lemma word_not_atomic:
  assumes "no_atomic (w @ p)" and "w \<noteq> []" and "x = [] \<or> \<not> js_word (hd x) \<and> \<not> js_space (hd x)"
  shows "\<not> (to_upper w = ''BEGIN'' \<and> atomic_after (p @ x))"
proof
  assume w: "to_upper w = ''BEGIN'' \<and> atomic_after (p @ x)"
  then have "length (to_upper w) = 5" by simp
  then have "take 5 (w @ p) = w" "drop 5 (w @ p) = p" by simp_all
  moreover have "\<not> (to_upper (take 5 (w @ p)) = ''BEGIN'' \<and> atomic_after (drop 5 (w @ p)))"
    using assms(1,2) by (cases w) auto
  ultimately show False using w atomic_append [OF assms(3)] by simp
qed

lemma plain_run:
  assumes "inside delim sqls chunk (p @ x) st" and "list_all (inert d) p" and "d = Postgres \<longrightarrow> no_atomic p"
    and "d = Postgres \<longrightarrow> (case x of [] \<Rightarrow> True | c # _ \<Rightarrow> \<not> ident_cont c \<and> \<not> js_space c)"
    and "d = Postgres \<longrightarrow> take 1 x = [sq] \<longrightarrow> p = [] \<or> \<not> ident_cont (last p)"
    and "\<And>u. suffix u p \<Longrightarrow> u \<noteq> [] \<Longrightarrow> \<not> prefix delim (u @ x)"
    and "chunk = [] \<Longrightarrow> p \<noteq> [] \<longrightarrow> \<not> js_space (hd p) \<and> delimiter_at d st = None"
  shows "\<exists>st'. scan_loop d True st = scan_loop d True st' \<and> inside delim sqls (chunk @ p) x st'"
  using assms
proof (induction "length p" arbitrary: p chunk st rule: less_induct)
  case less
  show ?case
  proof (cases p)
    case Nil
    with less.prems show ?thesis by auto
  next
    case (Cons c r)
    have c: "inert d c" and ns: "sc_rest st \<noteq> []" using less.prems(1,2) Cons by (auto simp: inside_def)
    have del: "\<not> prefix delim (c # r @ x)" using less.prems(6) [of p] Cons by simp
    have st: "scan_step d True st = (case scanToken d False (c # r @ x) of
         Some t \<Rightarrow> if tok_kind t = Word then word_step d (tok_end t) st else token_step t st
       | None \<Rightarrow> char_step c st)"
      using scan_step_inside [of delim sqls chunk c "r @ x" st d] less.prems(1,7) Cons c del
      by (auto simp: inert_def split: option.split)
    have noE: "\<not> ((c = CHR ''E'' \<or> c = CHR ''e'') \<and> take 1 (r @ x) = [sq])" if "d = Postgres"
    proof
      assume e: "(c = CHR ''E'' \<or> c = CHR ''e'') \<and> take 1 (r @ x) = [sq]"
      have "r = []"
      proof (cases r)
        case (Cons b r')
        then have "b = sq" using e by simp
        with less.prems(2) \<open>p = c # r\<close> Cons show ?thesis by (simp add: inert_def)
      qed
      moreover have "ident_cont c" using e by (auto simp: ident_cont_def js_word_def js_alpha_def)
      ultimately show False using e less.prems(5) Cons that by simp
    qed
    define w where "w = (if d = Postgres \<and> ident_start c then c # takeWhile ident_cont r else [c])"
    obtain q where q: "p = w @ q"
    proof (cases "d = Postgres \<and> ident_start c")
      case True
      then show thesis using that [of "dropWhile ident_cont r"] Cons by (simp add: w_def)
    next
      case False
      then show thesis using that [of r] Cons by (auto simp: w_def)
    qed
    have w: "w \<noteq> []" by (simp add: w_def)
    have ins: "inside delim sqls (chunk @ w) (q @ x) (scan_step d True st)"
    proof (cases "d = Postgres \<and> ident_start c")
      case True
      have tw: "takeWhile ident_cont (r @ x) = takeWhile ident_cont r"
        using less.prems(4) True by (intro takeWhile_boundary) (auto split: list.splits)
      have "scanToken d False (c # r @ x) = Some \<lparr>tok_kind = Word, tok_end = length w, tok_closed = True\<rparr>"
        unfolding inert_scan [OF c] tw using True noE by (auto simp: w_def simp del: take_append)
      then have "scan_step d True st = word_step d (length w) st" using st by simp
      moreover have "take (length w) (p @ x) = w" "drop (length w) (p @ x) = q @ x"
        using q by simp_all
      moreover have "\<not> (to_upper w = ''BEGIN'' \<and> atomic_after (q @ x))"
        using less.prems(3,4) True w unfolding q
        by (intro word_not_atomic) (auto simp: ident_cont_def split: list.splits)
      ultimately show ?thesis
        using word_inside [OF less.prems(1), of "length w" d] w by simp
    next
      case False
      have "scan_step d True st = char_step c st"
        using st inert_scan [OF c, of False "r @ x"] False by auto
      moreover have "w = [c]" "q = r" using False q Cons by (auto simp: w_def)
      ultimately show ?thesis
        using char_inside [of delim sqls chunk c "r @ x" st] less.prems(1,7) Cons by auto
    qed
    have sfx: "suffix q p" using q by (auto simp: suffix_def)
    have nb: "d = Postgres \<longrightarrow> no_atomic q" using less.prems(3) q no_atomic_suffix by metis
    have last: "q \<noteq> [] \<Longrightarrow> last p = last q" using q by (metis last_appendR)
    have "list_all (inert d) q" using less.prems(2) q by (metis list_all_append)
    moreover have "length q < length p" using q w by (metis length_append less_add_same_cancel2 length_greater_0_conv)
    ultimately have "\<exists>st'. scan_loop d True (scan_step d True st) = scan_loop d True st'
        \<and> inside delim sqls ((chunk @ w) @ q) x st'"
      using less.prems(4,5,6) sfx nb last ins w
      by (intro less.hyps) (auto intro: suffix_order.trans)
    moreover have "(chunk @ w) @ q = chunk @ p" using q by (metis append.assoc)
    ultimately show ?thesis using scan_loop_step [OF ns, of d True] by auto
  qed
qed

text \<open>What may follow a statement, and that no delimiter starts at a plain character of it.\<close>

definition stop :: "Dialect \<Rightarrow> string \<Rightarrow> bool" where
  "stop d x \<longleftrightarrow> (case x of [] \<Rightarrow> True | c # _ \<Rightarrow> c = CHR '';'' \<or> d = Mysql \<and> c = CHR 0x0A)"

definition uncut :: "Dialect \<Rightarrow> string \<Rightarrow> string \<Rightarrow> string \<Rightarrow> bool" where
  "uncut d delim s x \<longleftrightarrow> (\<forall>u. suffix u s \<longrightarrow> u \<noteq> [] \<longrightarrow> inert d (hd u) \<longrightarrow> \<not> prefix delim (u @ x))"

lemma uncut_append: "uncut d delim (s @ t) x \<Longrightarrow> uncut d delim t x"
  unfolding uncut_def by (meson suffix_appendI)

lemma uncut_left: "uncut d delim (s @ t) x \<Longrightarrow> uncut d delim s (t @ x)"
  unfolding uncut_def by (metis append.assoc append_is_Nil_conv hd_append2 same_suffix_suffix)

lemma render_Cons [simp]: "render d (p # ps) = piece_text d p @ render d ps"
  by (simp add: render_def)

lemma render_Nil [simp]: "render d [] = []"
  by (simp add: render_def)

lemma inert_not_quote:
  "inert d c \<Longrightarrow> c \<noteq> sq \<and> c \<noteq> cap_identifierQuote (capabilities d)"
  by (cases d) (auto simp: inert_def)

lemma quoted_head:
  "take 1 (quoteIdentifier d n @ x) = [cap_identifierQuote (capabilities d)]"
  "take 1 (quoteLiteral d v @ x) = [sq]"
  by (simp_all add: quoteIdentifier_def quoteLiteral_def Let_def)

text \<open>The text after a plain piece is no continuation of a name, and a quote only where the piece allows one.\<close>

lemma after_plain:
  assumes "pieces_ok d (Plain p # ps)" and "stop d x"
  shows "d = Postgres \<longrightarrow> (case render d ps @ x of [] \<Rightarrow> True | c # _ \<Rightarrow> \<not> ident_cont c \<and> \<not> js_space c)"
    and "d = Postgres \<longrightarrow> take 1 (render d ps @ x) = [sq] \<longrightarrow> \<not> ident_cont (last p)"
proof -
  have nc: "\<not> ident_cont CHR '';''" "\<not> ident_cont CHR 0x0A" "\<not> ident_cont sq" "\<not> ident_cont CHR 0x22"
      "\<not> ident_cont CHR 0x60"
    by (simp_all add: ident_cont_def js_word_def js_alpha_def js_digit_def non_ascii_def)
  show "d = Postgres \<longrightarrow> (case render d ps @ x of [] \<Rightarrow> True | c # _ \<Rightarrow> \<not> ident_cont c \<and> \<not> js_space c)"
    using assms nc by (cases ps; cases d)
      (auto simp: stop_def js_space_def quoteIdentifier_def quoteLiteral_def Let_def split: list.splits Piece.splits)
  show "d = Postgres \<longrightarrow> take 1 (render d ps @ x) = [sq] \<longrightarrow> \<not> ident_cont (last p)"
    using assms by (cases ps)
      (auto simp: stop_def quoteIdentifier_def Let_def split: list.splits Piece.splits)
qed

lemma after_quoted:
  assumes "case ps of [] \<Rightarrow> True | Plain _ # _ \<Rightarrow> True | _ \<Rightarrow> False" and "pieces_ok d ps" and "stop d x"
  shows "not_quote sq (render d ps @ x) \<and> not_quote (cap_identifierQuote (capabilities d)) (render d ps @ x)"
proof (cases ps)
  case Nil
  with assms(3) show ?thesis by (cases d) (auto simp: stop_def not_quote_def split: list.splits)
next
  case (Cons p qs)
  with assms(1) obtain t where p: "p = Plain t" by (cases p) auto
  with assms(2) Cons obtain c r where t: "t = c # r" and "inert d c" by (cases t) auto
  with inert_not_quote [of d c] Cons p show ?thesis by (simp add: not_quote_def)
qed

lemma quoted_run:
  assumes "inside delim sqls chunk (q @ x) st" and "chunk \<noteq> []" and "q \<noteq> []"
    and "scanToken d False (q @ x) = Some \<lparr>tok_kind = Literal, tok_end = length q, tok_closed = True\<rparr>"
  shows "inside delim sqls (chunk @ q) x (scan_step d True st)" and "sc_rest st \<noteq> []"
proof -
  obtain c r where q: "q = c # r" using assms(3) by (cases q) auto
  have "scan_step d True st = token_step \<lparr>tok_kind = Literal, tok_end = length q, tok_closed = True\<rparr> st"
    using scan_step_inside [of delim sqls chunk c "r @ x" st d] assms q by simp
  then show "inside delim sqls (chunk @ q) x (scan_step d True st)"
    using token_inside [OF assms(1,2), of "\<lparr>tok_kind = Literal, tok_end = length q, tok_closed = True\<rparr>"] by simp
  show "sc_rest st \<noteq> []" using assms(1) q by (simp add: inside_def)
qed

lemma pieces_run:
  assumes "inside delim sqls chunk (render d ps @ x) st" and "pieces_ok d ps" and "stop d x"
    and "uncut d delim (render d ps) x"
    and "chunk = [] \<longrightarrow> (case ps of Plain p # _ \<Rightarrow> \<not> js_space (hd p) \<and> delimiter_at d st = None | _ \<Rightarrow> False)"
  shows "\<exists>st'. scan_loop d True st = scan_loop d True st' \<and> inside delim sqls (chunk @ render d ps) x st'"
  using assms
proof (induction ps arbitrary: chunk st)
  case Nil
  then show ?case by auto
next
  case (Cons p ps)
  have step: ?case if s1: "scan_loop d True st = scan_loop d True s1"
    and i1: "inside delim sqls (chunk @ piece_text d p) (render d ps @ x) s1" and ne: "chunk @ piece_text d p \<noteq> []" for s1
  proof -
    have "pieces_ok d ps" using Cons.prems(2) by (cases p) auto
    moreover have "uncut d delim (render d ps) x" using Cons.prems(4) uncut_append by simp
    ultimately obtain st' where "scan_loop d True s1 = scan_loop d True st'"
      and "inside delim sqls ((chunk @ piece_text d p) @ render d ps) x st'"
      using Cons.IH [OF i1] Cons.prems(3) ne by blast
    with s1 show ?thesis by (metis append.assoc render_Cons)
  qed
  show ?case
  proof (cases p)
    case (Plain t)
    have ok: "t \<noteq> []" "list_all (inert d) t" "d = Postgres \<longrightarrow> no_atomic t" using Cons.prems(2) Plain by auto
    have un: "\<not> prefix delim (u @ render d ps @ x)" if "suffix u t" "u \<noteq> []" for u
    proof -
      have "inert d (hd u)" using ok(2) that by (metis hd_in_set list_all_iff set_mono_suffix subsetD)
      then show ?thesis using uncut_left [of d delim t "render d ps" x] Cons.prems(4) Plain that
        by (auto simp: uncut_def)
    qed
    have "\<exists>s1. scan_loop d True st = scan_loop d True s1 \<and> inside delim sqls (chunk @ t) (render d ps @ x) s1"
      using Cons.prems Plain ok un after_plain [of d t ps x]
      by (intro plain_run) (auto split: list.splits)
    then show ?thesis using step ok(1) Plain by auto
  next
    case (Name n)
    have q: "not_quote (cap_identifierQuote (capabilities d)) (render d ps @ x)"
      using after_quoted [of ps d x] Cons.prems(2,3) Name by simp
    have ne: "chunk \<noteq> []" "quoteIdentifier d n \<noteq> []" using Cons.prems(5) Name by (auto simp: quoteIdentifier_def Let_def)
    note run = quoted_run [OF _ ne scan_quoteIdentifier [OF q]]
    show ?thesis
      using step [OF scan_loop_step [OF run(2)]] run(1) Cons.prems(1) Name ne by simp
  next
    case (Value v)
    have q: "not_quote sq (render d ps @ x)"
      using after_quoted [of ps d x] Cons.prems(2,3) Value by simp
    have ne: "chunk \<noteq> []" "quoteLiteral d v \<noteq> []" using Cons.prems(5) Value by (auto simp: quoteLiteral_def Let_def)
    note run = quoted_run [OF _ ne scan_quoteLiteral [OF q]]
    show ?thesis
      using step [OF scan_loop_step [OF run(2)]] run(1) Cons.prems(1) Value ne by simp
  qed
qed

subsection \<open>The end of a statement\<close>

lemma starts_other_ci: "starts_other kw p \<Longrightarrow> \<not> ci_prefix kw (p @ x)"
  unfolding starts_other_def ci_prefix_def by (metis map_append prefixI take_append)

lemma trim_both:
  assumes "s \<noteq> []" and "\<not> js_space (hd s)" and "\<not> js_space (last s)" and "list_all js_space ws"
  shows "trim (s @ ws) = s"
proof -
  have "dropWhile js_space (s @ ws) = s @ ws" using assms(1,2) by (cases s) auto
  moreover have "dropWhile js_space (rev ws @ rev s) = rev s"
    using assms by (subst dropWhile_append2) (auto simp: list_all_iff hd_rev dropWhile_eq_self_iff)
  ultimately show ?thesis by (simp add: trim_def trim_start_def trim_end_def)
qed

lemma statement_ok_first:
  assumes "statement_ok d ps"
  obtains c p qs where "ps = Plain (c # p) # qs" and "inert d c" and "\<not> js_space c"
    and "starts_other ''delimiter'' (c # p)" and "starts_other ''set'' (c # p)" and "starts_other ''copy'' (c # p)"
proof -
  from assms obtain t qs where "ps = Plain t # qs" by (auto simp: statement_ok_def split: list.splits Piece.splits)
  with assms that show thesis by (cases t) (auto simp: statement_ok_def)
qed

lemma statement_text:
  assumes "statement_ok d ps"
  shows "render d ps \<noteq> []" and "list_all js_space ws \<Longrightarrow> trim (render d ps @ ws) = render d ps"
    and "stripLeadingComments d (render d ps) = render d ps"
    and "d = Mysql \<Longrightarrow> setAssignments (render d ps) = []" and "\<not> COPY_FROM_STDIN (render d ps)"
proof -
  obtain c p qs where ps: "ps = Plain (c # p) # qs" and c: "inert d c" "\<not> js_space c"
    and kw: "starts_other ''set'' (c # p)" "starts_other ''copy'' (c # p)"
    using assms by (rule statement_ok_first)
  have s: "render d ps = (c # p) @ render d qs" by (simp add: ps)
  then show ne: "render d ps \<noteq> []" by simp
  show "list_all js_space ws \<Longrightarrow> trim (render d ps @ ws) = render d ps"
    using assms c s ne by (intro trim_both) (auto simp: statement_ok_def)
  show strip: "stripLeadingComments d (render d ps) = render d ps"
    using c inert_scan [OF c(1), of False "p @ render d qs"]
    by (subst stripLeadingComments.simps) (auto simp: s Let_def quotedSpan_def split: if_splits)
  have "VERSION_COMMENT (render d ps) = None"
    using c by (auto simp: s VERSION_COMMENT_def inert_def)
  moreover have "\<not> ci_prefix ''set'' (render d ps)" using starts_other_ci [OF kw(1)] s by simp
  ultimately show "d = Mysql \<Longrightarrow> setAssignments (render d ps) = []"
    using strip by (simp add: setAssignments_def set_statement_def)
  show "\<not> COPY_FROM_STDIN (render d ps)"
    using starts_other_ci [OF kw(2)] s by (simp add: COPY_FROM_STDIN_def)
qed

text \<open>The state a delimiter leaves: nothing pending, the statement added.\<close>

lemma flush_inside:
  assumes "inside delim sqls (render d ps @ ws) rest st" and "statement_ok d ps" and "list_all js_space ws"
  shows "inside delim (sqls @ [render d ps]) [] (drop k rest) (restart (skip k (flush d True st)))"
  using assms(1) statement_text [OF assms(2)] assms(3)
  by (cases d) (auto simp: inside_def flush_def restart_def skip_def emit_def Let_def trackSqlMode_def)

lemma newline_run:
  assumes "inside delim sqls [] (CHR 0x0A # x) st"
  shows "\<exists>st'. scan_loop d True st = scan_loop d True st' \<and> inside delim sqls [] x st'"
proof -
  have "scan_step d True st = restart (skip 1 st)"
    using assms by (auto simp: scan_step_def inside_def at_meta_def js_space_def)
  moreover have "inside delim sqls [] x (restart (skip 1 st))"
    using assms by (auto simp: inside_def restart_def skip_def)
  moreover have "sc_rest st \<noteq> []" using assms by (simp add: inside_def)
  ultimately show ?thesis using scan_loop_step by metis
qed

lemma no_delimiter_command:
  assumes "inside delim sqls [] (render d ps @ x) st" and "statement_ok d ps"
  shows "delimiter_at d st = None"
proof -
  obtain c p qs where ps: "ps = Plain (c # p) # qs" and c: "\<not> js_space c"
    and kw: "starts_other ''delimiter'' (c # p)"
    using assms(2) by (rule statement_ok_first)
  have "\<not> blank c" using c by (auto simp: blank_def js_space_def)
  then have "DELIMITER_LINE (render d ps @ x) = None"
    using starts_other_ci [OF kw, of "render d qs @ x"] by (simp add: DELIMITER_LINE_def Let_def ps)
  then show ?thesis using assms(1) by (auto simp: delimiter_at_def inside_def)
qed

lemma statement_run:
  assumes "inside delim sqls [] (render d ps @ x) st" and "statement_ok d ps" and "stop d x"
    and "uncut d delim (render d ps) x"
  shows "\<exists>st'. scan_loop d True st = scan_loop d True st' \<and> inside delim sqls (render d ps) x st'"
proof -
  obtain c p qs where "ps = Plain (c # p) # qs" and "\<not> js_space c"
    using assms(2) by (rule statement_ok_first)
  with no_delimiter_command [OF assms(1,2)]
  have "case ps of Plain p # _ \<Rightarrow> \<not> js_space (hd p) \<and> delimiter_at d st = None | _ \<Rightarrow> False" by simp
  then show ?thesis
    using pieces_run [OF assms(1) _ assms(3,4)] assms(2) by (simp add: statement_ok_def)
qed

text \<open>A statement, its delimiter and a line break (the delimiter on a line of its own, or right after it).\<close>

lemma ended_statement_run:
  assumes "inside delim sqls [] (render d ps @ nl @ delim @ CHR 0x0A # x) st" and "statement_ok d ps"
    and "nl = [] \<or> nl = [CHR 0x0A]" and "stop d (nl @ delim @ CHR 0x0A # x)" and "delim \<noteq> []"
    and "uncut d delim (render d ps) (nl @ delim @ CHR 0x0A # x)" and "hd delim \<noteq> CHR 0x0A" and "\<not> js_space (hd delim)"
    and "\<And>y. scanToken d False (delim @ y) = None"
  shows "\<exists>st'. scan_loop d True st = scan_loop d True st' \<and> inside delim (sqls @ [render d ps]) [] x st'"
proof -
  obtain dc dr where dl: "delim = dc # dr" using assms(5) by (cases delim) auto
  note ne = statement_text(1) [OF assms(2)]
  obtain s1 where s1: "scan_loop d True st = scan_loop d True s1"
    and i1: "inside delim sqls (render d ps) (nl @ delim @ CHR 0x0A # x) s1"
    using statement_run [OF assms(1,2,4,6)] by auto
  have "\<exists>s2. scan_loop d True s1 = scan_loop d True s2
    \<and> inside delim sqls (render d ps @ nl) (delim @ CHR 0x0A # x) s2"
  proof (cases "nl = []")
    case True
    with i1 show ?thesis by auto
  next
    case False
    then have nl: "nl = [CHR 0x0A]" using assms(3) by simp
    have "scanToken d False (CHR 0x0A # delim @ CHR 0x0A # x) = None"
      using inert_scan [of d "CHR 0x0A" False] by (simp add: inert_def ident_start_def js_alpha_def non_ascii_def)
    moreover have "\<not> prefix delim (CHR 0x0A # delim @ CHR 0x0A # x)" using assms(7) dl by simp
    ultimately have "scan_step d True s1 = char_step (CHR 0x0A) s1"
      using scan_step_inside [of delim sqls "render d ps" "CHR 0x0A" "delim @ CHR 0x0A # x" s1 d] i1 ne nl by simp
    moreover have "inside delim sqls (render d ps @ nl) (delim @ CHR 0x0A # x) (char_step (CHR 0x0A) s1)"
      using char_inside [of delim sqls "render d ps" "CHR 0x0A" "delim @ CHR 0x0A # x" s1] i1 ne nl by simp
    moreover have "sc_rest s1 \<noteq> []" using i1 nl by (simp add: inside_def)
    ultimately show ?thesis using scan_loop_step by metis
  qed
  then obtain s2 where s2: "scan_loop d True s1 = scan_loop d True s2"
    and i2: "inside delim sqls (render d ps @ nl) (delim @ CHR 0x0A # x) s2" by blast
  have "scan_step d True s2 = restart (skip (length delim) (flush d True s2))"
    using scan_step_inside [of delim sqls "render d ps @ nl" dc "dr @ CHR 0x0A # x" s2 d] i2 ne dl
      assms(9) [of "CHR 0x0A # x"] by simp
  moreover have "inside delim (sqls @ [render d ps]) [] (CHR 0x0A # x)
      (restart (skip (length delim) (flush d True s2)))"
    using flush_inside [OF i2 assms(2), of "length delim"] assms(3) by (auto simp: js_space_def)
  moreover have "sc_rest s2 \<noteq> []" using i2 dl by (simp add: inside_def)
  ultimately obtain s3 where "scan_loop d True s2 = scan_loop d True s3"
    and "inside delim (sqls @ [render d ps]) [] (CHR 0x0A # x) s3" using scan_loop_step by metis
  then show ?thesis using newline_run [of delim "sqls @ [render d ps]" x s3 d] s1 s2 by metis
qed

subsection \<open>The whole script\<close>

lemma has_sub_suffix: "suffix u s \<Longrightarrow> prefix p u \<Longrightarrow> has_sub s p"
proof -
  assume "suffix u s" and p: "prefix p u"
  then have "drop (length s - length u) s = u" by (auto simp: suffix_def)
  then show ?thesis using find_sub_None [of p s "length s - length u"] p by (auto simp: has_sub_def)
qed

lemma prefix_before_newline: "CHR 0x0A \<notin> set p \<Longrightarrow> prefix p (u @ CHR 0x0A # z) \<Longrightarrow> prefix p u"
  by (auto simp: prefix_append prefix_Cons)

lemma uncut_delimiter:
  assumes "\<not> has_sub s delim" and "CHR 0x0A \<notin> set delim"
  shows "uncut d delim s (CHR 0x0A # x)"
  unfolding uncut_def using assms has_sub_suffix prefix_before_newline by blast

lemma uncut_semicolon:
  assumes "d = Mysql \<Longrightarrow> \<not> has_sub s '';''"
  shows "uncut d '';'' s x"
proof -
  have "hd u \<noteq> CHR '';''" if "suffix u s" "u \<noteq> []" "inert d (hd u)" for u
  proof (cases d)
    case Mysql
    with that assms show ?thesis by (metis has_sub_char hd_in_set set_mono_suffix subsetD)
  qed (use that in \<open>simp add: inert_def\<close>)
  moreover have "hd u = CHR '';''" if "prefix '';'' (u @ x)" "u \<noteq> []" for u
    using that by (cases u) auto
  ultimately show ?thesis unfolding uncut_def by blast
qed

lemma no_token_at_delimiter: "scanToken d False ('';'' @ y) = None"
  by (cases d) (auto simp: scanToken_def scan_quoted_def scan_word_def PG_WORD_def ident_start_def js_alpha_def
      non_ascii_def opens_line_comment_def Let_def)

lemma scan_loop_done: "sc_rest st = [] \<Longrightarrow> scan_loop d k st = Some st"
  unfolding scan_loop_def by (subst while_option_unfold) simp

text \<open>The scan ends with exactly these statements, the default delimiter and nothing left open.\<close>

definition ends_with :: "Dialect \<Rightarrow> string list \<Rightarrow> ScanState \<Rightarrow> bool" where
  "ends_with d sqls st \<longleftrightarrow> (\<exists>st'. scan_loop d True st = Some st'
     \<and> map st_sql (sc_out (flush d True st')) = sqls
     \<and> sc_delimiter (flush d True st') = '';'' \<and> \<not> sc_unterminated (flush d True st'))"

lemma ends_pending:
  assumes "inside '';'' sqls (render d ps) [] st" and "statement_ok d ps"
  shows "ends_with d (sqls @ [render d ps]) st"
proof -
  have "inside '';'' (sqls @ [render d ps]) [] (drop 0 []) (restart (skip 0 (flush d True st)))"
    using assms by (intro flush_inside [where ws = "[]"]) simp_all
  moreover have "sc_rest st = []" using assms(1) by (simp add: inside_def)
  ultimately show ?thesis
    by (auto simp: ends_with_def scan_loop_done inside_def restart_def skip_def)
qed

lemma ends_empty: "inside '';'' sqls [] [] st \<Longrightarrow> ends_with d sqls st"
  by (auto simp: ends_with_def scan_loop_done inside_def flush_def Let_def)

lemma ends_with_cong: "scan_loop d True st = scan_loop d True st' \<Longrightarrow> ends_with d sqls st = ends_with d sqls st'"
  by (simp add: ends_with_def)

lemma join_run:
  assumes "inside '';'' sqls [] (join ('';'' @ [CHR 0x0A]) (map (render d) pss)) st"
    and "list_all (statement_ok d) pss" and "d = Mysql \<Longrightarrow> list_all (\<lambda>ps. \<not> has_sub (render d ps) '';'') pss"
  shows "ends_with d (sqls @ map (render d) pss) st"
  using assms
proof (induction pss arbitrary: sqls st rule: induct_list012)
  case 1
  then show ?case by (simp add: ends_empty)
next
  case (2 ps)
  then obtain st' where "scan_loop d True st = scan_loop d True st'" and "inside '';'' sqls (render d ps) [] st'"
    using statement_run [of "'';''" sqls d ps "[]" st] uncut_semicolon [of d "render d ps"]
    by (auto simp: stop_def)
  moreover have "statement_ok d ps" using 2 by simp
  ultimately show ?case using ends_pending [of sqls d ps st'] ends_with_cong [of d st st'] by simp
next
  case (3 ps qs pss)
  let ?x = "join ('';'' @ [CHR 0x0A]) (map (render d) (qs # pss))"
  have "inside '';'' sqls [] (render d ps @ [] @ '';'' @ CHR 0x0A # ?x) st" using 3 by simp
  moreover have "stop d ([] @ '';'' @ CHR 0x0A # ?x)" by (simp add: stop_def)
  moreover have "uncut d '';'' (render d ps) ([] @ '';'' @ CHR 0x0A # ?x)"
    using 3(5) by (intro uncut_semicolon) simp
  moreover have "statement_ok d ps" using 3(4) by simp
  ultimately obtain st' where run: "scan_loop d True st = scan_loop d True st'"
    and ins: "inside '';'' (sqls @ [render d ps]) [] ?x st'"
    using ended_statement_run [of "'';''" sqls d ps "[]" ?x st] no_token_at_delimiter [of d]
    by (simp add: js_space_def) blast
  have "ends_with d ((sqls @ [render d ps]) @ map (render d) (qs # pss)) st'"
    by (rule "3.IH"(2) [OF ins]) (use 3(4,5) in auto)
  then show ?case using ends_with_cong [OF run] by simp
qed

definition body :: "string \<Rightarrow> string list \<Rightarrow> string" where
  "body delim ss = concat (map (\<lambda>s. s @ [CHR 0x0A] @ delim @ [CHR 0x0A]) ss)"

lemma join_body:
  "ss \<noteq> [] \<Longrightarrow> join [CHR 0x0A] (map (\<lambda>s. s @ [CHR 0x0A] @ delim) ss) @ [CHR 0x0A] = body delim ss"
  by (induction ss rule: induct_list012) (auto simp: body_def)

lemma body_run:
  assumes "inside delim sqls [] (body delim (map (render Mysql) pss) @ y) st"
    and "list_all (statement_ok Mysql) pss" and "list_all (\<lambda>ps. \<not> has_sub (render Mysql ps) delim) pss"
    and "delim \<noteq> []" and "list_all (\<lambda>c. \<not> js_space c) delim" and "\<And>z. scanToken Mysql False (delim @ z) = None"
  shows "\<exists>st'. scan_loop Mysql True st = scan_loop Mysql True st'
    \<and> inside delim (sqls @ map (render Mysql) pss) [] y st'"
  using assms
proof (induction pss arbitrary: sqls st)
  case Nil
  then show ?case by (auto simp: body_def)
next
  case (Cons ps pss)
  let ?x = "body delim (map (render Mysql) pss) @ y"
  have nl: "CHR 0x0A \<notin> set delim" "hd delim \<noteq> CHR 0x0A" "\<not> js_space (hd delim)"
    using Cons.prems(4,5) by (cases delim; auto simp: list_all_iff js_space_def)+
  have "inside delim sqls [] (render Mysql ps @ [CHR 0x0A] @ delim @ CHR 0x0A # ?x) st"
    using Cons.prems(1) by (simp add: body_def)
  then obtain st' where "scan_loop Mysql True st = scan_loop Mysql True st'"
    and "inside delim (sqls @ [render Mysql ps]) [] ?x st'"
    using ended_statement_run [of delim sqls Mysql ps "[CHR 0x0A]" ?x st] Cons.prems(2-) nl
      uncut_delimiter [of "render Mysql ps" delim Mysql]
    by (auto simp: stop_def)
  then show ?case using Cons.IH [of "sqls @ [render Mysql ps]" st'] Cons.prems(2-) by auto
qed

lemma delimiter_line_run:
  assumes "inside old sqls [] (''DELIMITER '' @ delim @ x) st"
    and "DELIMITER_LINE (''DELIMITER '' @ delim @ x) = Some (delim, length (''DELIMITER '' @ delim @ x) - length y)"
    and "suffix y x"
  shows "\<exists>st'. scan_loop Mysql True st = scan_loop Mysql True st' \<and> inside delim sqls [] y st'"
proof -
  let ?k = "length (''DELIMITER '' @ delim @ x) - length y"
  have "scan_step Mysql True st = restart (skip ?k (st\<lparr>sc_delimiter := delim\<rparr>))"
    using assms(1,2) by (auto simp: scan_step_def inside_def at_meta_def delimiter_at_def at_line_start_def js_space_def)
  moreover have "drop (length z - length y) z = y" if "suffix y z" for z :: string
    using that by (auto simp: suffix_def)
  then have "drop ?k (''DELIMITER '' @ delim @ x) = y" using suffix_appendI [OF suffix_appendI [OF assms(3)]] by blast
  then have "inside delim sqls [] y (restart (skip ?k (st\<lparr>sc_delimiter := delim\<rparr>)))"
    using assms(1) by (auto simp: inside_def restart_def skip_def)
  moreover have "sc_rest st \<noteq> []" using assms(1) by (simp add: inside_def)
  ultimately show ?thesis using scan_loop_step by metis
qed

lemma DELIMITER_LINE_line:
  assumes "delim \<noteq> []" and "list_all (\<lambda>c. \<not> js_space c) delim"
    and "x = [] \<and> y = [] \<or> x = CHR 0x0A # y"
  shows "DELIMITER_LINE (''DELIMITER '' @ delim @ x) = Some (delim, length (''DELIMITER '' @ delim @ x) - length y)"
proof -
  obtain c r where delim: "delim = c # r" using assms(1) by (cases delim) auto
  have "\<not> blank c" using assms(2) delim by (auto simp: blank_def js_space_def)
  then have db: "dropWhile blank (CHR '' '' # delim @ x) = delim @ x" by (simp add: delim blank_def)
  have tw: "takeWhile (\<lambda>c. \<not> js_space c) (delim @ x) = delim"
    using assms(2,3) by (auto simp: takeWhile_append list_all_iff js_space_def)
  have dx: "dropWhile blank x = x" "line_end x = Some (length x - length y)"
    using assms(3) by (auto simp: blank_def line_end_def)
  have ci: "ci_prefix ''delimiter'' (''DELIMITER '' @ delim @ x)" by (simp add: ci_prefix_def lower_char_def)
  have b: "dropWhile blank (''DELIMITER '' @ delim @ x) = ''DELIMITER '' @ delim @ x" by (simp add: blank_def)
  have d9: "drop 9 (''DELIMITER '' @ delim @ x) = CHR '' '' # delim @ x" by simp
  have ne: "delim @ x \<noteq> CHR '' '' # delim @ x" by (metis length_Cons n_not_Suc_n)
  show ?thesis
    unfolding DELIMITER_LINE_def Let_def b d9 db tw using ci ne assms(1,3) dx by (auto simp del: append_Cons)
qed

lemma no_token_at_DELIMITERS: "delim \<in> set DELIMITERS \<Longrightarrow> scanToken Mysql False (delim @ z) = None"
  by (auto simp: DELIMITERS_def scanToken_def scan_quoted_def scan_word_def scan_dollar_def opens_line_comment_def Let_def)

lemma delimiters_plain: "delim \<in> set DELIMITERS \<Longrightarrow> delim \<noteq> [] \<and> list_all (\<lambda>c. \<not> js_space c) delim"
  by (auto simp: DELIMITERS_def js_space_def)

lemma delimited_run:
  assumes "delim \<in> set DELIMITERS" and "pss \<noteq> []" and "list_all (statement_ok Mysql) pss"
    and "list_all (\<lambda>ps. \<not> has_sub (render Mysql ps) delim) pss"
    and "inside '';'' [] [] (''DELIMITER '' @ delim @ CHR 0x0A # body delim (map (render Mysql) pss) @ ''DELIMITER ;'') st"
  shows "ends_with Mysql (map (render Mysql) pss) st"
proof -
  note dp = delimiters_plain [OF assms(1)]
  let ?last = "''DELIMITER '' @ '';'' @ []"
  let ?body = "body delim (map (render Mysql) pss) @ ?last"
  have "inside '';'' [] [] (''DELIMITER '' @ delim @ CHR 0x0A # ?body) st" using assms(5) by simp
  moreover have "DELIMITER_LINE (''DELIMITER '' @ delim @ CHR 0x0A # ?body)
      = Some (delim, length (''DELIMITER '' @ delim @ CHR 0x0A # ?body) - length ?body)"
    by (rule DELIMITER_LINE_line) (use dp in simp_all)
  moreover have "suffix ?body (CHR 0x0A # ?body)" by (simp add: suffix_def)
  ultimately obtain s1 where s1: "scan_loop Mysql True st = scan_loop Mysql True s1"
    and i1: "inside delim [] [] ?body s1" using delimiter_line_run by blast
  obtain s2 where s2: "scan_loop Mysql True s1 = scan_loop Mysql True s2"
    and i2: "inside delim ([] @ map (render Mysql) pss) [] ?last s2"
    using body_run [OF i1 assms(3,4)] dp no_token_at_DELIMITERS [OF assms(1)] by blast
  obtain s3 where s3: "scan_loop Mysql True s2 = scan_loop Mysql True s3"
    and i3: "inside '';'' ([] @ map (render Mysql) pss) [] [] s3"
    using delimiter_line_run [OF i2 DELIMITER_LINE_line suffix_order.refl] by (auto simp: js_space_def)
  from ends_empty [OF i3, of Mysql] show ?thesis
    using ends_with_cong [OF s1] ends_with_cong [OF s2] ends_with_cong [OF s3] by simp
qed

lemma inside_init: "inside '';'' [] [] script (scan_init script)"
  by (simp add: inside_def scan_init_def)

lemma ends_with_split:
  "ends_with d sqls (scan_init script)
   \<Longrightarrow> (\<exists>out. splitStatements script d = Some out \<and> map st_sql out = sqls) \<and> split_state script d = Some ('';'', False)"
  by (auto simp: ends_with_def splitStatements_def split_state_def scan_def)

lemma script_ends:
  assumes "list_all (statement_ok d) pss" and "sqlScript d (map (render d) pss) = Inr script"
  shows "ends_with d (map (render d) pss) (scan_init script)"
proof (cases "d = Postgres \<or> \<not> list_ex (\<lambda>s. has_sub s '';'') (map (render d) pss)")
  case True
  then have "script = join ('';'' @ [CHR 0x0A]) (map (render d) pss)"
    using assms(2) by (auto simp: sqlScript_def)
  moreover have "d = Mysql \<Longrightarrow> list_all (\<lambda>ps. \<not> has_sub (render d ps) '';'') pss"
    using True by (auto simp: list_ex_iff list_all_iff)
  ultimately show ?thesis using join_run [of "[]" d pss "scan_init script"] assms(1) inside_init by simp
next
  case False
  then have d: "d = Mysql" and ne: "map (render d) pss \<noteq> []" by (cases d; auto)+
  obtain delim where find: "List.find (\<lambda>d'. \<not> list_ex (\<lambda>s. has_sub s d') (map (render d) pss)) DELIMITERS = Some delim"
    and script: "script = ''DELIMITER '' @ delim @ [CHR 0x0A]
      @ join [CHR 0x0A] (map (\<lambda>s. s @ [CHR 0x0A] @ delim) (map (render d) pss)) @ [CHR 0x0A] @ ''DELIMITER ;''"
    using assms(2) False by (auto simp: sqlScript_def split: option.splits)
  from find have "delim \<in> set DELIMITERS" and "list_all (\<lambda>ps. \<not> has_sub (render Mysql ps) delim) pss"
    by (auto simp: find_Some_iff d list_ex_iff list_all_iff)
  moreover have "script = ''DELIMITER '' @ delim @ CHR 0x0A # body delim (map (render Mysql) pss) @ ''DELIMITER ;''"
    using join_body [OF ne, of delim] unfolding script d by (metis append.assoc append_Cons append_Nil)
  ultimately show ?thesis
    using delimited_run [of delim pss "scan_init script"] assms(1) ne inside_init [of script] d by simp
qed

text \<open>
  C12: splitting the script \<open>sqlScript\<close> writes gives back exactly the statements it was made of, in order,
  and leaves the default delimiter and no open literal behind, on both databases, with names and values of
  any content in the statements.
\<close>

theorem split_sqlScript:
  assumes "list_all (statement_ok d) pss" and "sqlScript d (map (render d) pss) = Inr script"
  shows "(\<exists>out. splitStatements script d = Some out \<and> map st_sql out = map (render d) pss)
    \<and> split_state script d = Some ('';'', False)"
  by (rule ends_with_split, rule script_ends [OF assms])

text \<open>A MySQL routine with semicolons of its own, then a value and a name that hold a delimiter and quotes.\<close>

theorem split_sqlScript_witness:
  "\<exists>out. splitStatements (the (case sqlScript Mysql
       [''CREATE PROCEDURE p() BEGIN SELECT 1; END'', ''INSERT INTO '' @ quoteIdentifier Mysql ''a`;b'' @ '' VALUES (''
          @ quoteLiteral Mysql [sq, CHR '';'', CHR 0x0A] @ '')''] of Inr s \<Rightarrow> Some s | Inl _ \<Rightarrow> None)) Mysql = Some out
     \<and> map st_sql out = [''CREATE PROCEDURE p() BEGIN SELECT 1; END'', ''INSERT INTO '' @ quoteIdentifier Mysql ''a`;b'' @ '' VALUES (''
          @ quoteLiteral Mysql [sq, CHR '';'', CHR 0x0A] @ '')'']"
proof -
  let ?pss = "[[Plain ''CREATE PROCEDURE p() BEGIN SELECT 1; END''],
    [Plain ''INSERT INTO '', Name ''a`;b'', Plain '' VALUES ('', Value [sq, CHR '';'', CHR 0x0A], Plain '')'']]"
  have ok: "list_all (statement_ok Mysql) ?pss" by code_simp
  have r: "map (render Mysql) ?pss = [''CREATE PROCEDURE p() BEGIN SELECT 1; END'',
      ''INSERT INTO '' @ quoteIdentifier Mysql ''a`;b'' @ '' VALUES ('' @ quoteLiteral Mysql [sq, CHR '';'', CHR 0x0A] @ '')'']"
    by simp
  have "case sqlScript Mysql (map (render Mysql) ?pss) of Inr _ \<Rightarrow> True | Inl _ \<Rightarrow> False" by code_simp
  then obtain script where s: "sqlScript Mysql (map (render Mysql) ?pss) = Inr script" by (auto split: sum.splits)
  from split_sqlScript [OF ok s] show ?thesis using s unfolding r by simp
qed

subsection \<open>Running the rest of a stopped script\<close>

text \<open>
  What a server with transactional statements keeps of a script: the statements in effect, and those of the
  transaction that is open.  A stop rolls the open transaction back.
\<close>

type_synonym effects = "string list \<times> string list option"

fun run_statement :: "string \<Rightarrow> effects \<Rightarrow> effects" where
  "run_statement s (kept, None) =
     (if is_BEGIN s then (kept, Some []) else if is_END s then (kept, None) else (kept @ [s], None))"
| "run_statement s (kept, Some pending) =
     (if is_BEGIN s then (kept, Some pending) else if is_END s then (kept @ pending, None)
      else (kept, Some (pending @ [s])))"

definition run_script :: "string list \<Rightarrow> effects \<Rightarrow> effects" where
  "run_script = fold run_statement"

definition rolled_back :: "effects \<Rightarrow> effects" where
  "rolled_back e = (fst e, None)"

fun unnested :: "bool \<Rightarrow> string list \<Rightarrow> bool" where
  "unnested opened [] = True"
| "unnested opened (s # ss) =
     (if is_BEGIN s then \<not> opened \<and> unnested True ss
      else unnested (if is_END s then False else opened) ss)"

text \<open>The results of the first \<open>k\<close> statements, one or extra of each, all ended.\<close>

definition ran :: "string list \<Rightarrow> (nat \<Rightarrow> nat) \<Rightarrow> nat \<Rightarrow> StatementResult list" where
  "ran sql extra k = concat (map (\<lambda>i. replicate (Suc (extra i))
     \<lparr>sr_kind = ResultAffected, sr_sql = sql ! i, sr_statement = Some i\<rparr>) [0..<k])"

definition cut_short :: "string list \<Rightarrow> nat \<Rightarrow> StatementResult" where
  "cut_short sql k = \<lparr>sr_kind = ResultError, sr_sql = sql ! k, sr_statement = Some k\<rparr>"

lemma resume_replicate:
  "at < length sql \<Longrightarrow>
   resume_point sql (replicate n \<lparr>sr_kind = ResultAffected, sr_sql = sql ! at, sr_statement = Some at\<rparr> @ rs) m
   = resume_point sql rs (if n = 0 then m else max m (at + 1))"
  by (induction n arbitrary: m) (auto simp: max_def)

lemma resume_ran:
  "k \<le> length sql \<Longrightarrow> resume_point sql (ran sql extra k @ rs) 0 = resume_point sql rs k"
proof (induction k arbitrary: rs)
  case 0
  then show ?case by (simp add: ran_def)
next
  case (Suc k)
  have "resume_point sql (ran sql extra (Suc k) @ rs) 0
    = resume_point sql (ran sql extra k @ (replicate (Suc (extra k))
        \<lparr>sr_kind = ResultAffected, sr_sql = sql ! k, sr_statement = Some k\<rparr> @ rs)) 0"
    by (simp add: ran_def)
  also have "\<dots> = resume_point sql rs (Suc k)"
    using Suc.prems by (subst Suc.IH; simp only: resume_replicate) auto
  finally show ?case .
qed

lemma run_script_append: "run_script (a @ b) e = run_script b (run_script a e)"
  by (simp add: run_script_def)

lemma open_transaction_snoc:
  "open_transaction i (xs @ [s]) opened =
    (if is_BEGIN s then Some (i + length xs) else if is_END s then None else open_transaction i xs opened)"
  by (induction xs arbitrary: i opened) auto

lemma open_transaction_bound: "open_transaction 0 xs None = Some i \<Longrightarrow> i < length xs"
  by (induction xs rule: rev_induct) (auto simp: open_transaction_snoc split: if_splits)

lemma unnested_append: "unnested b (xs @ ys) \<Longrightarrow> unnested b xs"
  by (induction xs arbitrary: b) auto

lemma run_statement_open:
  "snd (run_statement s (kept, p)) \<noteq> None \<longleftrightarrow> is_BEGIN s \<or> \<not> is_END s \<and> p \<noteq> None"
  by (cases p) auto

lemma unnested_snoc:
  "unnested (p \<noteq> None) (xs @ [s]) \<Longrightarrow> is_BEGIN s \<Longrightarrow> snd (run_script xs (e, p)) = None"
proof (induction xs arbitrary: e p)
  case Nil
  then show ?case by (simp add: run_script_def)
next
  case (Cons a xs)
  obtain e' p' where r: "run_statement a (e, p) = (e', p')" by fastforce
  have "p' \<noteq> None \<longleftrightarrow> is_BEGIN a \<or> \<not> is_END a \<and> p \<noteq> None" using run_statement_open [of a e p] r by simp
  with Cons.prems(1) have "unnested (p' \<noteq> None) (xs @ [s])" by (auto split: if_splits)
  from Cons.IH [OF this Cons.prems(2)] r show ?case by (simp add: run_script_def)
qed

lemma open_transaction_runs:
  assumes "unnested False xs"
  shows "case open_transaction 0 xs None of
      None \<Rightarrow> snd (run_script xs ([], None)) = None
    | Some i \<Rightarrow> run_script (take i xs) ([], None) = rolled_back (run_script xs ([], None))
        \<and> snd (run_script xs ([], None)) \<noteq> None"
  using assms
proof (induction xs rule: rev_induct)
  case Nil
  then show ?case by (simp add: run_script_def)
next
  case (snoc s xs)
  note IH = snoc.IH [OF unnested_append [OF snoc.prems]]
  obtain kept p where r: "run_script xs ([], None) = (kept, p)" by fastforce
  have begin_closed: "is_BEGIN s \<Longrightarrow> p = None" using unnested_snoc [of None xs s "[]"] snoc.prems r by simp
  have last: "run_script (xs @ [s]) ([], None) = run_statement s (kept, p)"
    using r by (simp add: run_script_append) (simp add: run_script_def)
  show ?case
  proof (cases "open_transaction 0 xs None")
    case None
    with IH r have "p = None" by simp
    then show ?thesis using None r last by (auto simp: open_transaction_snoc rolled_back_def)
  next
    case (Some i)
    with IH r obtain q where q: "p = Some q" and k: "run_script (take i xs) ([], None) = (kept, None)"
      by (auto simp: rolled_back_def)
    have "take i (xs @ [s]) = take i xs" using open_transaction_bound [OF Some] by simp
    then show ?thesis using Some q k last begin_closed by (auto simp: open_transaction_snoc rolled_back_def)
  qed
qed

text \<open>
  C13: the rest of a stopped script, run after the stop rolled the open transaction back, leaves exactly what the
  whole script would have left: nothing is applied twice, and nothing is left out, wherever the stop came.
\<close>

theorem remainingAfterStop_completes:
  assumes "unnested False sql" and "k \<le> length sql"
    and "results = ran sql extra k \<or> k < length sql \<and> results = ran sql extra k @ [cut_short sql k]"
    and "remainingAfterStop sql results = Some rest"
  shows "run_script rest (rolled_back (run_script (take k sql) ([], None))) = run_script sql ([], None)"
proof -
  from assms(3) have "resume_point sql results 0 = Some k \<or> resume_point sql results 0 = None"
    using resume_ran [OF assms(2), of extra "[]"] resume_ran [OF assms(2), of extra "[cut_short sql k]"]
    by (auto simp: cut_short_def)
  with assms(4) have rest: "Some rest = (case open_transaction 0 (take k sql) None of
      Some i \<Rightarrow> Some (drop i sql) | None \<Rightarrow> Some (drop k sql))"
    by (auto simp: remainingAfterStop_def)
  have un: "unnested False (take k sql)" using assms(1) unnested_append [of False "take k sql" "drop k sql"] by simp
  have split: "run_script (drop i sql) (run_script (take i sql) e) = run_script sql e" for i e
    using run_script_append [of "take i sql" "drop i sql"] by simp
  show ?thesis
  proof (cases "open_transaction 0 (take k sql) None")
    case None
    with open_transaction_runs [OF un] have "rolled_back (run_script (take k sql) ([], None)) = run_script (take k sql) ([], None)"
      by (simp add: rolled_back_def prod_eq_iff)
    with None rest split show ?thesis by simp
  next
    case (Some i)
    have "take i (take k sql) = take i sql" using open_transaction_bound [OF Some] by simp
    with Some open_transaction_runs [OF un]
    have "rolled_back (run_script (take k sql) ([], None)) = run_script (take i sql) ([], None)" by simp
    with Some rest split show ?thesis by simp
  qed
qed

theorem remainingAfterStop_completes_witness:
  "run_script [''BEGIN'', ''CREATE TABLE a (i int)'', ''COMMIT'', ''ANALYZE a'']
     (rolled_back (run_script [''BEGIN'', ''CREATE TABLE a (i int)''] ([], None)))
   = ([''CREATE TABLE a (i int)'', ''ANALYZE a''], None)"
proof -
  let ?sql = "[''BEGIN'', ''CREATE TABLE a (i int)'', ''COMMIT'', ''ANALYZE a'']"
  have "run_script ?sql (rolled_back (run_script (take 2 ?sql) ([], None))) = run_script ?sql ([], None)"
    by (rule remainingAfterStop_completes [of _ _ "ran ?sql (\<lambda>_. 1) 2" "\<lambda>_. 1"]) code_simp+
  moreover have "run_script ?sql ([], None) = ([''CREATE TABLE a (i int)'', ''ANALYZE a''], None)" by code_simp
  ultimately show ?thesis by simp
qed

text \<open>
  The rest is not known exactly when a stop cut short a \<open>COMMIT\<close> or a build that leaves an index behind;
  stopped between two statements it is always known.
\<close>

lemma remainingAfterStop_known:
  "remainingAfterStop sql (ran sql extra (min k (length sql))) \<noteq> None
   \<and> (remainingAfterStop (s # sql) (ran (s # sql) extra (min k (length sql)) @ [cut_short (s # sql) (min k (length sql))]) = None
      \<longleftrightarrow> is_END ((s # sql) ! min k (length sql)) \<or> is_CONCURRENT_BUILD ((s # sql) ! min k (length sql)))"
proof -
  have a: "resume_point sql (ran sql extra (min k (length sql))) 0 = Some (min k (length sql))"
    using resume_ran [of "min k (length sql)" sql extra "[]"] by simp
  have b: "resume_point (s # sql) (ran (s # sql) extra (min k (length sql)) @ [cut_short (s # sql) (min k (length sql))]) 0 =
    resume_point (s # sql) [cut_short (s # sql) (min k (length sql))] (min k (length sql))"
    by (rule resume_ran) simp
  show ?thesis unfolding remainingAfterStop_def a b by (auto simp: cut_short_def split: option.split)
qed

end
