(* ===== verification/Csv.thy ===== *)
theory Csv
  imports Quoting
begin

text \<open>
  CSV, written and read: \<open>packages/shared/src/csv.ts\<close>.

  The reader's loop is \<open>csv_step\<close> on the record \<open>CsvState\<close>, whose fields are the variables of the
  generator \<open>parseCsvRecords\<close>: the text not read yet stands for the index, and \<open>cs_out\<close> is what has been
  yielded.  A delimiter, quote or escape is a string compared with one character, as in the source.  The byte
  order mark is none of the characters represented, so the text is taken to have none.

  The lemmas show that reading gives back what was written, with NULL told apart from every text, and the
  line each record starts on.
\<close>

subsection \<open>Writing\<close>

definition CSV_NULL :: string where
  "CSV_NULL = [CHR 0x5C, CHR ''N'']"

record CsvStyle =
  quoteAll :: bool
  stripEol :: bool

definition FORMULA_START :: "string \<Rightarrow> bool" where
  "FORMULA_START text \<longleftrightarrow> (case text of [] \<Rightarrow> False
     | c # _ \<Rightarrow> c \<in> set [CHR ''='', CHR ''+'', CHR ''-'', CHR ''@'', CHR 0x09, CHR 0x0D])"

definition neutraliseFormula :: "string \<Rightarrow> string" where
  "neutraliseFormula text = (if FORMULA_START text then sq # text else text)"

text \<open>\<open>replace(/\r\n|\r|\n/g, ' ')\<close>; the flag says that the character before was a carriage return.\<close>

fun flatten_eol :: "bool \<Rightarrow> string \<Rightarrow> string" where
  "flatten_eol after_cr [] = []"
| "flatten_eol after_cr (c # s) =
     (if c = CHR 0x0D then CHR '' '' # flatten_eol True s
      else if c = CHR 0x0A then (if after_cr then [] else '' '') @ flatten_eol False s
      else c # flatten_eol False s)"

text \<open>The text of a cell that is neither NULL nor cut: the base64 of bytes, \<open>String(cell)\<close> of the rest.\<close>

fun cell_raw :: "Cell \<Rightarrow> string" where
  "cell_raw (CString s) = s"
| "cell_raw (CBin b) = b"
| "cell_raw (CNumber n) = num_text n"
| "cell_raw (CBool b) = (if b then ''true'' else ''false'')"
| "cell_raw _ = []"

definition cell_text :: "bool \<Rightarrow> CsvStyle \<Rightarrow> Cell \<Rightarrow> string" where
  "cell_text neutralise style cell =
    (let raw = cell_raw cell; flat = (if stripEol style then flatten_eol False raw else raw)
     in if neutralise then neutraliseFormula flat else flat)"

definition needs_quotes :: "string \<Rightarrow> CsvStyle \<Rightarrow> string \<Rightarrow> bool" where
  "needs_quotes delimiter style text \<longleftrightarrow>
     quoteAll style \<or> list_ex (\<lambda>c. c = CHR 0x22 \<or> c = CHR 0x0D \<or> c = CHR 0x0A) text
     \<or> has_sub text delimiter \<or> text = CSV_NULL \<or> text = []"

definition csvField :: "Cell \<Rightarrow> bool \<Rightarrow> string \<Rightarrow> CsvStyle \<Rightarrow> (string, string) result" where
  "csvField cell neutralise delimiter style =
    (if cell = CNull then Inr CSV_NULL
     else if isTruncatedCell cell then Inl ''truncated text cannot be written to CSV''
     else let text = cell_text neutralise style cell in
       Inr (if needs_quotes delimiter style text
            then [CHR 0x22] @ replace_char (CHR 0x22) [CHR 0x22, CHR 0x22] text @ [CHR 0x22] else text))"

definition plain_style :: CsvStyle where
  "plain_style = \<lparr>quoteAll = False, stripEol = False\<rparr>"

definition CRLF :: string where
  "CRLF = [CHR 0x0D, CHR 0x0A]"

definition csv_line :: "bool \<Rightarrow> string \<Rightarrow> CsvStyle \<Rightarrow> Cell list \<Rightarrow> (string, string) result" where
  "csv_line neutralise delimiter style row =
    rbind (rmap (\<lambda>c. csvField c neutralise delimiter style) row) (\<lambda>fs. Inr (join delimiter fs))"

definition toCsv :: "string list \<Rightarrow> Cell list list \<Rightarrow> bool \<Rightarrow> (string, string) result" where
  "toCsv columns rows neutralise =
    rbind (rmap (csv_line neutralise '','' plain_style) (map CString columns # rows))
      (\<lambda>ls. Inr (join CRLF ls @ CRLF))"

text \<open>
  The CSV body of a table export (\<open>csvBody\<close> of \<open>apps/api/src/lib/export.ts\<close>): the chunks it yields for
  the batches of rows the adapter reads, the header once, before the first rows.
\<close>

record Batch =
  ba_columns :: "string list"
  ba_rows :: "Cell list list"

fun csvBody :: "bool \<Rightarrow> string \<Rightarrow> bool \<Rightarrow> CsvStyle \<Rightarrow> bool \<Rightarrow> Batch list \<Rightarrow> (string, string list) result" where
  "csvBody safe delimiter with_header style header [] = Inr []"
| "csvBody safe delimiter with_header style header (b # bs) =
     rbind (if \<not> header \<and> with_header
            then rbind (csv_line safe delimiter style (map CString (ba_columns b))) (\<lambda>l. Inr [l @ CRLF]) else Inr [])
       (\<lambda>head. rbind (if ba_rows b \<noteq> []
            then rbind (rmap (csv_line safe delimiter style) (ba_rows b)) (\<lambda>ls. Inr [join CRLF ls @ CRLF]) else Inr [])
       (\<lambda>body. rbind (csvBody safe delimiter with_header style True bs) (\<lambda>tail. Inr (head @ body @ tail))))"

subsection \<open>Reading\<close>

datatype LineEnd = LineAuto | LineLf | LineCrlf | LineCr

record CsvParseOptions =
  po_delimiter :: "string option"
  po_quote :: "string option"
  po_escape :: "string option"
  po_lineEnd :: "LineEnd option"

definition default_options :: CsvParseOptions where
  "default_options = \<lparr>po_delimiter = None, po_quote = None, po_escape = None, po_lineEnd = None\<rparr>"

record CsvRecord =
  rec_fields :: "string list"
  rec_quoted :: "bool list"
  rec_line :: nat

text \<open>The constants the generator computes from the options.\<close>

record CsvConfig =
  cf_delimiter :: string
  cf_quoteChar :: string
  cf_escapeChar :: string
  cf_terminator :: "string option"

definition csv_config :: "CsvParseOptions \<Rightarrow> CsvConfig" where
  "csv_config options =
    (let q = (case po_quote options of Some q \<Rightarrow> q | None \<Rightarrow> [CHR 0x22]) in
     \<lparr>cf_delimiter = (case po_delimiter options of Some d \<Rightarrow> d | None \<Rightarrow> '',''),
      cf_quoteChar = q,
      cf_escapeChar = (case po_escape options of Some e \<Rightarrow> e | None \<Rightarrow> q),
      cf_terminator = (case po_lineEnd options of
          Some LineLf \<Rightarrow> Some [CHR 0x0A] | Some LineCrlf \<Rightarrow> Some CRLF | Some LineCr \<Rightarrow> Some [CHR 0x0D]
        | _ \<Rightarrow> None)\<rparr>)"

record CsvState =
  cs_rest :: string
  cs_row :: "string list"
  cs_quotedRow :: "bool list"
  cs_field :: string
  cs_quoted :: bool
  cs_wasQuoted :: bool
  cs_quoteLine :: nat
  cs_line :: nat
  cs_rowLine :: nat
  cs_pending :: "CsvRecord option"
  cs_out :: "CsvRecord list"

definition csv_init :: "string \<Rightarrow> CsvState" where
  "csv_init input = \<lparr>cs_rest = input, cs_row = [], cs_quotedRow = [], cs_field = [], cs_quoted = False,
     cs_wasQuoted = False, cs_quoteLine = 0, cs_line = 1, cs_rowLine = 1, cs_pending = None, cs_out = []\<rparr>"

definition endField :: "CsvState \<Rightarrow> CsvState" where
  "endField st = st\<lparr>cs_row := cs_row st @ [cs_field st], cs_quotedRow := cs_quotedRow st @ [cs_wasQuoted st],
     cs_field := [], cs_wasQuoted := False\<rparr>"

definition endRow :: "CsvState \<Rightarrow> CsvState" where
  "endRow st0 = (let st = endField st0 in
     st\<lparr>cs_pending := Some \<lparr>rec_fields = cs_row st, rec_quoted = cs_quotedRow st, rec_line = cs_rowLine st\<rparr>,
        cs_row := [], cs_quotedRow := [], cs_rowLine := cs_line st\<rparr>)"

text \<open>A record waiting is yielded at the start of the next turn.\<close>

definition yield_pending :: "CsvState \<Rightarrow> CsvState" where
  "yield_pending st = (case cs_pending st of
     None \<Rightarrow> st | Some r \<Rightarrow> st\<lparr>cs_pending := None, cs_out := cs_out st @ [r]\<rparr>)"

definition add_chars :: "string \<Rightarrow> nat \<Rightarrow> CsvState \<Rightarrow> CsvState" where
  "add_chars text k st = st\<lparr>cs_field := cs_field st @ text, cs_rest := drop k (cs_rest st)\<rparr>"

definition bump_line :: "bool \<Rightarrow> CsvState \<Rightarrow> CsvState" where
  "bump_line b st = (if b then st\<lparr>cs_line := cs_line st + 1\<rparr> else st)"

definition advance_by :: "nat \<Rightarrow> CsvState \<Rightarrow> CsvState" where
  "advance_by k st = st\<lparr>cs_rest := drop k (cs_rest st)\<rparr>"

text \<open>One character inside a quoted field.\<close>

definition quoted_step :: "CsvConfig \<Rightarrow> char \<Rightarrow> string \<Rightarrow> CsvState \<Rightarrow> CsvState" where
  "quoted_step cf ch r st =
    (if cf_escapeChar cf \<noteq> cf_quoteChar cf \<and> [ch] = cf_escapeChar cf \<and> r \<noteq> []
     then add_chars [hd r] 2 (bump_line (hd r = CHR 0x0A) st)
     else if [ch] = cf_quoteChar cf then
       (if cf_escapeChar cf = cf_quoteChar cf \<and> take 1 r = cf_quoteChar cf
        then add_chars (cf_quoteChar cf) 2 st
        else advance_by 1 (st\<lparr>cs_quoted := False\<rparr>))
     else add_chars [ch] 1 (bump_line (ch = CHR 0x0A) st))"

text \<open>One character outside: a quote that opens a field, a delimiter, a line break, or text.\<close>

definition line_step :: "CsvConfig \<Rightarrow> char \<Rightarrow> string \<Rightarrow> CsvState \<Rightarrow> CsvState" where
  "line_step cf ch r st = (case cf_terminator cf of
     Some t \<Rightarrow>
       if prefix t (ch # r) then endRow (advance_by (length t) (bump_line True st))
       else add_chars [ch] 1 (bump_line (ch = CHR 0x0A) st)
   | None \<Rightarrow>
       if ch = CHR 0x0D
       then endRow (advance_by (if take 1 r = [CHR 0x0A] then 2 else 1) (bump_line True st))
       else if ch = CHR 0x0A then endRow (advance_by 1 (bump_line True st))
       else add_chars [ch] 1 st)"

definition open_step :: "CsvConfig \<Rightarrow> char \<Rightarrow> string \<Rightarrow> CsvState \<Rightarrow> CsvState" where
  "open_step cf ch r st =
    (if [ch] = cf_quoteChar cf \<and> cs_field st = []
     then advance_by 1 (st\<lparr>cs_quoted := True, cs_wasQuoted := True, cs_quoteLine := cs_line st\<rparr>)
     else if [ch] = cf_delimiter cf then advance_by 1 (endField st)
     else line_step cf ch r st)"

definition csv_step :: "CsvConfig \<Rightarrow> CsvState \<Rightarrow> CsvState" where
  "csv_step cf st0 = (let st = yield_pending st0 in
     case cs_rest st of
       [] \<Rightarrow> st
     | ch # r \<Rightarrow> if cs_quoted st then quoted_step cf ch r st else open_step cf ch r st)"

lemmas csv_blocks = yield_pending_def add_chars_def bump_line_def advance_by_def endField_def endRow_def Let_def

lemma csv_blocks_rest:
  "cs_rest (yield_pending st) = cs_rest st" "cs_rest (add_chars t k st) = drop k (cs_rest st)"
  "cs_rest (bump_line b st) = cs_rest st" "cs_rest (advance_by k st) = drop k (cs_rest st)"
  "cs_rest (endField st) = cs_rest st" "cs_rest (endRow st) = cs_rest st"
  by (simp_all add: csv_blocks split: option.split)

lemma quoted_step_rest:
  "cs_rest st = ch # r \<Longrightarrow> length (cs_rest (quoted_step cf ch r st)) < Suc (length r)"
  by (auto simp: quoted_step_def csv_blocks_rest less_Suc_eq_le)

lemma line_step_rest:
  "cs_rest st = ch # r \<Longrightarrow> cf_terminator cf \<noteq> Some [] \<Longrightarrow> length (cs_rest (line_step cf ch r st)) < Suc (length r)"
  by (auto simp: line_step_def csv_blocks_rest split: option.split)

lemma open_step_rest:
  "cs_rest st = ch # r \<Longrightarrow> cf_terminator cf \<noteq> Some [] \<Longrightarrow> length (cs_rest (open_step cf ch r st)) < Suc (length r)"
  using line_step_rest [of st ch r cf] by (simp add: open_step_def csv_blocks_rest)

lemma csv_step_progress:
  assumes "cs_rest st \<noteq> []" and "cf_terminator cf \<noteq> Some []"
  shows "length (cs_rest (csv_step cf st)) < length (cs_rest st)"
proof -
  obtain ch r where r: "cs_rest st = ch # r" using assms(1) by (cases "cs_rest st") auto
  then show ?thesis
    using quoted_step_rest [of "yield_pending st"] open_step_rest [of "yield_pending st"] assms(2)
    by (auto simp: csv_step_def csv_blocks_rest Let_def)
qed

lemma csv_config_terminator: "cf_terminator (csv_config options) \<noteq> Some []"
  by (auto simp: csv_config_def CRLF_def Let_def split: option.splits LineEnd.splits)

function csv_loop :: "CsvConfig \<Rightarrow> CsvState \<Rightarrow> CsvState" where
  "csv_loop cf st =
    (if cs_rest st = [] \<or> cf_terminator cf = Some [] then st else csv_loop cf (csv_step cf st))"
  by pat_completeness auto

termination
  by (relation "measure (\<lambda>(cf, st). length (cs_rest st))") (auto simp: csv_step_progress)

declare csv_loop.simps [simp del]

text \<open>
  The records yielded, and the line of a quote that was never closed.  A trailing line break makes no
  record, nor does an empty document.
\<close>

definition last_record :: "CsvState \<Rightarrow> CsvRecord list" where
  "last_record st0 =
    (let st = (if cs_field st0 \<noteq> [] \<or> cs_wasQuoted st0 \<or> cs_row st0 \<noteq> [] then endRow st0 else st0) in
     case cs_pending st of
       None \<Rightarrow> []
     | Some r \<Rightarrow> if rec_fields r = [[]] \<and> rec_quoted r = [False] then [] else [r])"

definition parseCsvRecords :: "string \<Rightarrow> CsvParseOptions \<Rightarrow> CsvRecord list \<times> nat option" where
  "parseCsvRecords text options =
    (let st = csv_loop (csv_config options) (csv_init text) in
     if cs_quoted st then (cs_out st, Some (cs_quoteLine st)) else (cs_out st @ last_record st, None))"

definition parseCsvDocument ::
  "string \<Rightarrow> CsvParseOptions \<Rightarrow> (nat, string list list \<times> bool list list) result" where
  "parseCsvDocument text options = (case parseCsvRecords text options of
     (rs, Some line) \<Rightarrow> Inl line
   | (rs, None) \<Rightarrow> Inr (map rec_fields rs, map rec_quoted rs))"

definition parseCsv :: "string \<Rightarrow> CsvParseOptions \<Rightarrow> (nat, string list list) result" where
  "parseCsv text options = rbind (parseCsvDocument text options) (\<lambda>d. Inr (fst d))"

text \<open>
  The rows of a CSV file as the import takes them (\<open>csvSource\<close> of \<open>apps/api/src/lib/import.ts\<close>): a blank
  line is left out where it is asked for, and a value is NULL when it is the marker written without quotes.
\<close>

record SourceRow =
  src_line :: nat
  src_cells :: "string option list"

definition source_cell :: "string \<Rightarrow> string \<Rightarrow> bool \<Rightarrow> string option" where
  "source_cell marker v q = (if v = marker \<and> \<not> q then None else Some v)"

definition csvSource :: "string \<Rightarrow> CsvParseOptions \<Rightarrow> string \<Rightarrow> bool \<Rightarrow> SourceRow list \<times> nat option" where
  "csvSource text options marker skipBlank = (case parseCsvRecords text options of (rs, err) \<Rightarrow>
     (map (\<lambda>r. \<lparr>src_line = rec_line r, src_cells = map2 (source_cell marker) (rec_fields r) (rec_quoted r)\<rparr>)
        (filter (\<lambda>r. \<not> (skipBlank \<and> rec_fields r = [[]] \<and> rec_quoted r = [False])) rs), err))"

declare newlines_Cons [simp]

subsection \<open>Reading what was written\<close>

text \<open>A written field: its text, and whether it stands in quotes.\<close>

type_synonym field = "string \<times> bool"

definition rend :: "field \<Rightarrow> string" where
  "rend f = (if snd f then [CHR 0x22] @ replace_char (CHR 0x22) [CHR 0x22, CHR 0x22] (fst f) @ [CHR 0x22] else fst f)"

definition plain_char :: "char \<Rightarrow> char \<Rightarrow> bool" where
  "plain_char dl c \<longleftrightarrow> c \<noteq> CHR 0x22 \<and> c \<noteq> CHR 0x0D \<and> c \<noteq> CHR 0x0A \<and> c \<noteq> dl"

definition field_ok :: "char \<Rightarrow> field \<Rightarrow> bool" where
  "field_ok dl f \<longleftrightarrow> snd f \<or> fst f \<noteq> [] \<and> list_all (plain_char dl) (fst f)"

definition rfc :: "char \<Rightarrow> CsvConfig" where
  "rfc dl = \<lparr>cf_delimiter = [dl], cf_quoteChar = [CHR 0x22], cf_escapeChar = [CHR 0x22], cf_terminator = None\<rparr>"

definition yielded :: "CsvState \<Rightarrow> CsvRecord list" where
  "yielded st = cs_out st @ (case cs_pending st of None \<Rightarrow> [] | Some r \<Rightarrow> [r])"

text \<open>Where the reader stands: in a row, in a field of it, with the text before it and the records read.\<close>

definition reading :: "CsvRecord list \<Rightarrow> nat \<Rightarrow> field list \<Rightarrow> field \<Rightarrow> bool \<Rightarrow> nat \<Rightarrow> string \<Rightarrow> CsvState \<Rightarrow> bool" where
  "reading recs rowLine fs f quoted line rest st \<longleftrightarrow>
     cs_rest st = rest \<and> cs_row st = map fst fs \<and> cs_quotedRow st = map snd fs \<and> cs_field st = fst f
     \<and> cs_wasQuoted st = snd f \<and> cs_quoted st = quoted \<and> cs_line st = line \<and> cs_rowLine st = rowLine
     \<and> yielded st = recs"

lemma csv_loop_step:
  "cs_rest st \<noteq> [] \<Longrightarrow> csv_loop (rfc dl) st = csv_loop (rfc dl) (csv_step (rfc dl) st)"
  by (subst csv_loop.simps) (simp add: rfc_def)

lemma csv_loop_done: "cs_rest st = [] \<Longrightarrow> csv_loop cf st = st"
  by (subst csv_loop.simps) simp

lemma reading_yield: "reading recs rl fs f q l rest (yield_pending st) = reading recs rl fs f q l rest st"
  by (auto simp: reading_def yield_pending_def yielded_def split: option.split)

text \<open>One step each, from \<open>reading\<close> to \<open>reading\<close>.\<close>

lemma step_text:
  "reading recs rl fs (t, q) False l (c # r) st \<Longrightarrow> plain_char dl c
   \<Longrightarrow> reading recs rl fs (t @ [c], q) False l r (csv_step (rfc dl) st)"
  using reading_yield [of recs rl fs "(t, q)" False l "c # r" st]
  by (auto simp: csv_step_def Let_def reading_def open_step_def line_step_def rfc_def plain_char_def csv_blocks yielded_def)

lemma step_open:
  "reading recs rl fs ([], q) False l (CHR 0x22 # r) st
   \<Longrightarrow> reading recs rl fs ([], True) True l r (csv_step (rfc dl) st)"
  using reading_yield [of recs rl fs "([], q)" False l "CHR 0x22 # r" st]
  by (auto simp: csv_step_def Let_def reading_def open_step_def rfc_def advance_by_def yielded_def)

lemma step_quoted_char:
  "reading recs rl fs (t, q) True l (c # r) st \<Longrightarrow> c \<noteq> CHR 0x22
   \<Longrightarrow> reading recs rl fs (t @ [c], q) True (l + newlines [c]) r (csv_step (rfc dl) st)"
  using reading_yield [of recs rl fs "(t, q)" True l "c # r" st]
  by (auto simp: csv_step_def Let_def reading_def quoted_step_def rfc_def csv_blocks yielded_def)

lemma step_quote_pair:
  "reading recs rl fs (t, q) True l (CHR 0x22 # CHR 0x22 # r) st
   \<Longrightarrow> reading recs rl fs (t @ [CHR 0x22], q) True l r (csv_step (rfc dl) st)"
  using reading_yield [of recs rl fs "(t, q)" True l "CHR 0x22 # CHR 0x22 # r" st]
  by (auto simp: csv_step_def Let_def reading_def quoted_step_def rfc_def csv_blocks yielded_def)

lemma step_close:
  "reading recs rl fs (t, q) True l (CHR 0x22 # r) st \<Longrightarrow> take 1 r \<noteq> [CHR 0x22]
   \<Longrightarrow> reading recs rl fs (t, q) False l r (csv_step (rfc dl) st)"
  using reading_yield [of recs rl fs "(t, q)" True l "CHR 0x22 # r" st]
  by (auto simp: csv_step_def Let_def reading_def quoted_step_def rfc_def advance_by_def yielded_def)

lemma step_delimiter:
  "reading recs rl fs f False l (dl # r) st \<Longrightarrow> dl \<noteq> CHR 0x22
   \<Longrightarrow> reading recs rl (fs @ [f]) ([], False) False l r (csv_step (rfc dl) st)"
  using reading_yield [of recs rl fs f False l "dl # r" st]
  by (auto simp: csv_step_def Let_def reading_def open_step_def rfc_def csv_blocks yielded_def)

lemma step_row_end:
  "reading recs rl fs f False l (CRLF @ r) st \<Longrightarrow> dl \<noteq> CHR 0x0D
   \<Longrightarrow> reading (recs @ [\<lparr>rec_fields = map fst (fs @ [f]), rec_quoted = map snd (fs @ [f]), rec_line = rl\<rparr>])
         (l + 1) [] ([], False) False (l + 1) r (csv_step (rfc dl) st)"
  using reading_yield [of recs rl fs f False l "CRLF @ r" st]
  by (auto simp: csv_step_def Let_def reading_def open_step_def line_step_def rfc_def endField_def endRow_def
      advance_by_def bump_line_def yielded_def CRLF_def yield_pending_def split: option.splits)

lemma reading_rest: "reading recs rl fs f q l rest st \<Longrightarrow> cs_rest st = rest"
  by (simp add: reading_def)

definition reads :: "char \<Rightarrow> CsvState \<Rightarrow> (CsvState \<Rightarrow> bool) \<Rightarrow> bool" where
  "reads dl st P \<longleftrightarrow> (\<exists>st'. csv_loop (rfc dl) st = csv_loop (rfc dl) st' \<and> P st')"

lemma reads_here: "P st \<Longrightarrow> reads dl st P"
  by (auto simp: reads_def)

lemma reads_step: "cs_rest st \<noteq> [] \<Longrightarrow> reads dl (csv_step (rfc dl) st) P \<Longrightarrow> reads dl st P"
  using csv_loop_step [of st dl] by (auto simp: reads_def)

lemma reads_one: "cs_rest st \<noteq> [] \<Longrightarrow> P (csv_step (rfc dl) st) \<Longrightarrow> reads dl st P"
  unfolding reads_def using csv_loop_step [of st dl] by metis

lemma reads_trans: "reads dl st P \<Longrightarrow> (\<And>st'. P st' \<Longrightarrow> reads dl st' Q) \<Longrightarrow> reads dl st Q"
  unfolding reads_def by metis

lemma text_run:
  "reading recs rl fs (t, q) False l (p @ x) st \<Longrightarrow> list_all (plain_char dl) p
   \<Longrightarrow> reads dl st (reading recs rl fs (t @ p, q) False l x)"
proof (induction p arbitrary: t st)
  case Nil
  then show ?case by (simp add: reads_here)
next
  case (Cons c p)
  from Cons.prems have "reading recs rl fs (t @ [c], q) False l (p @ x) (csv_step (rfc dl) st)"
    by (intro step_text) simp_all
  from Cons.IH [OF this] Cons.prems have "reads dl (csv_step (rfc dl) st) (reading recs rl fs (t @ c # p, q) False l x)"
    by simp
  then show ?case using reading_rest [OF Cons.prems(1)] by (auto intro: reads_step)
qed

lemma quoted_body:
  "reading recs rl fs (t, q) True l (replace_char (CHR 0x22) [CHR 0x22, CHR 0x22] p @ CHR 0x22 # x) st
   \<Longrightarrow> take 1 x \<noteq> [CHR 0x22] \<Longrightarrow> reads dl st (reading recs rl fs (t @ p, q) False (l + newlines p) x)"
proof (induction p arbitrary: t l st)
  case Nil
  then have "reading recs rl fs (t, q) False l x (csv_step (rfc dl) st)" by (intro step_close) simp_all
  then show ?case using reading_rest [OF Nil.prems(1)] reads_one [of st] by simp
next
  case (Cons c p)
  let ?x = "replace_char (CHR 0x22) [CHR 0x22, CHR 0x22] p @ CHR 0x22 # x"
  have "reading recs rl fs (t @ [c], q) True (l + newlines [c]) ?x (csv_step (rfc dl) st)"
  proof (cases "c = CHR 0x22")
    case True
    with Cons.prems(1) have "reading recs rl fs (t, q) True l (CHR 0x22 # CHR 0x22 # ?x) st" by simp
    then show ?thesis using True step_quote_pair by simp
  next
    case False
    with Cons.prems(1) have "reading recs rl fs (t, q) True l (c # ?x) st" by simp
    then show ?thesis using False step_quoted_char by simp
  qed
  from Cons.IH [OF this Cons.prems(2)]
  have "reads dl (csv_step (rfc dl) st) (reading recs rl fs (t @ c # p, q) False (l + newlines (c # p)) x)"
    by (simp add: add.assoc)
  moreover have "cs_rest st \<noteq> []" using reading_rest [OF Cons.prems(1)] by simp
  ultimately show ?case by (rule reads_step [rotated])
qed

lemma field_run:
  assumes "reading recs rl fs ([], False) False l (rend f @ x) st" and "field_ok dl f"
    and "take 1 x \<noteq> [CHR 0x22]"
  shows "reads dl st (reading recs rl fs f False (l + (if snd f then newlines (fst f) else 0)) x)"
proof (cases "snd f")
  case True
  then obtain t where f: "f = (t, True)" by (cases f) simp
  let ?y = "replace_char (CHR 0x22) [CHR 0x22, CHR 0x22] t @ CHR 0x22 # x"
  have "reading recs rl fs ([], False) False l (CHR 0x22 # ?y) st" using assms(1) by (simp add: f rend_def)
  then have "reading recs rl fs ([], True) True l ?y (csv_step (rfc dl) st)" by (rule step_open)
  from quoted_body [OF this assms(3)] have "reads dl (csv_step (rfc dl) st) (reading recs rl fs f False (l + newlines t) x)"
    by (simp add: f)
  then show ?thesis using reading_rest [OF assms(1)] by (rule_tac reads_step) (simp_all add: f rend_def)
next
  case False
  then obtain t where f: "f = (t, False)" by (cases f) simp
  from text_run [of recs rl fs "[]" False l t x st dl] assms show ?thesis by (simp add: f rend_def field_ok_def)
qed

lemma field_ok_breaks: "field_ok dl f \<Longrightarrow> (if snd f then newlines (fst f) else 0) = newlines (fst f)"
proof -
  have "list_all (plain_char dl) s \<Longrightarrow> newlines s = 0" for s by (induction s) (auto simp: plain_char_def)
  then show "field_ok dl f \<Longrightarrow> ?thesis" by (auto simp: field_ok_def)
qed

definition row_breaks :: "field list \<Rightarrow> nat" where
  "row_breaks fs = sum_list (map (\<lambda>f. newlines (fst f)) fs)"

definition record_of :: "nat \<Rightarrow> field list \<Rightarrow> CsvRecord" where
  "record_of line fs = \<lparr>rec_fields = map fst fs, rec_quoted = map snd fs, rec_line = line\<rparr>"

definition line_of :: "char \<Rightarrow> field list \<Rightarrow> string" where
  "line_of dl fs = join [dl] (map rend fs) @ CRLF"

lemma row_run:
  assumes "reading recs rl done_fs ([], False) False l (line_of dl fs @ x) st" and "fs \<noteq> []"
    and "list_all (field_ok dl) fs" and "dl \<notin> {CHR 0x22, CHR 0x0D}"
  shows "reads dl st (reading (recs @ [record_of rl (done_fs @ fs)]) (l + row_breaks fs + 1) [] ([], False) False
    (l + row_breaks fs + 1) x)"
  using assms
proof (induction fs arbitrary: done_fs l st rule: induct_list012)
  case (2 f)
  from 2 have "reading recs rl done_fs ([], False) False l (rend f @ CRLF @ x) st" by (simp add: line_of_def)
  then have "reads dl st (reading recs rl done_fs f False (l + newlines (fst f)) (CRLF @ x))"
    using field_run [of recs rl done_fs l f "CRLF @ x" st dl] 2 field_ok_breaks [of dl f] by (simp add: CRLF_def)
  then show ?case
  proof (rule reads_trans)
    fix s assume r: "reading recs rl done_fs f False (l + newlines (fst f)) (CRLF @ x) s"
    then show "reads dl s (reading (recs @ [record_of rl (done_fs @ [f])]) (l + row_breaks [f] + 1) [] ([], False) False
      (l + row_breaks [f] + 1) x)"
      using step_row_end [OF r, of dl] reading_rest [OF r] 2
      by (rule_tac reads_one) (simp_all add: record_of_def row_breaks_def CRLF_def)
  qed
next
  case (3 f g fs)
  let ?x = "line_of dl (g # fs) @ x"
  from 3 have "reading recs rl done_fs ([], False) False l (rend f @ dl # ?x) st" by (simp add: line_of_def)
  then have "reads dl st (reading recs rl done_fs f False (l + newlines (fst f)) (dl # ?x))"
    using field_run [of recs rl done_fs l f "dl # ?x" st dl] 3(5,6) field_ok_breaks [of dl f] by simp
  then show ?case
  proof (rule reads_trans)
    fix s assume r: "reading recs rl done_fs f False (l + newlines (fst f)) (dl # ?x) s"
    have "reading recs rl (done_fs @ [f]) ([], False) False (l + newlines (fst f)) ?x (csv_step (rfc dl) s)"
      using step_delimiter [OF r] 3(6) by simp
    from "3.IH"(2) [OF this] 3(5,6)
    have "reads dl (csv_step (rfc dl) s) (reading (recs @ [record_of rl (done_fs @ f # g # fs)])
       (l + row_breaks (f # g # fs) + 1) [] ([], False) False (l + row_breaks (f # g # fs) + 1) x)"
      by (simp add: row_breaks_def add_ac)
    then show "reads dl s (reading (recs @ [record_of rl (done_fs @ f # g # fs)])
       (l + row_breaks (f # g # fs) + 1) [] ([], False) False (l + row_breaks (f # g # fs) + 1) x)"
      using reading_rest [OF r] by (rule_tac reads_step) simp_all
  qed
qed simp

fun records_from :: "nat \<Rightarrow> field list list \<Rightarrow> CsvRecord list" where
  "records_from line [] = []"
| "records_from line (fs # fss) = record_of line fs # records_from (line + row_breaks fs + 1) fss"

definition lines_of :: "char \<Rightarrow> field list list \<Rightarrow> string" where
  "lines_of dl fss = concat (map (line_of dl) fss)"

definition row_ok :: "char \<Rightarrow> field list \<Rightarrow> bool" where
  "row_ok dl fs \<longleftrightarrow> fs \<noteq> [] \<and> list_all (field_ok dl) fs"

definition next_line :: "nat \<Rightarrow> field list list \<Rightarrow> nat" where
  "next_line line fss = line + sum_list (map (\<lambda>fs. row_breaks fs + 1) fss)"

lemma rows_run:
  assumes "reading recs l [] ([], False) False l (lines_of dl fss @ x) st"
    and "list_all (row_ok dl) fss" and "dl \<notin> {CHR 0x22, CHR 0x0D}"
  shows "reads dl st (reading (recs @ records_from l fss) (next_line l fss) [] ([], False) False (next_line l fss) x)"
  using assms
proof (induction fss arbitrary: recs l st)
  case Nil
  then show ?case by (simp add: reads_here lines_of_def next_line_def)
next
  case (Cons fs fss)
  have "reading recs l [] ([], False) False l (line_of dl fs @ lines_of dl fss @ x) st"
    using Cons.prems(1) by (simp add: lines_of_def)
  from row_run [OF this] Cons.prems
  have "reads dl st (reading (recs @ [record_of l fs]) (l + row_breaks fs + 1) [] ([], False) False
      (l + row_breaks fs + 1) (lines_of dl fss @ x))" by (simp add: row_ok_def)
  then show ?case
    by (rule reads_trans) (use Cons.IH Cons.prems in \<open>fastforce simp: next_line_def add_ac\<close>)
qed

definition blank_record :: "CsvRecord \<Rightarrow> bool" where
  "blank_record r \<longleftrightarrow> rec_fields r = [[]] \<and> rec_quoted r = [False]"

lemma records_not_blank: "list_all (row_ok dl) fss \<Longrightarrow> list_all (\<lambda>r. \<not> blank_record r) (records_from l fss)"
proof (induction fss arbitrary: l)
  case (Cons fs fss)
  then show ?case by (cases fs) (auto simp: row_ok_def blank_record_def record_of_def field_ok_def)
qed simp

lemma csv_rows:
  assumes "list_all (row_ok dl) fss" and "dl \<notin> {CHR 0x22, CHR 0x0D}" and "csv_config options = rfc dl"
  shows "parseCsvRecords (lines_of dl fss) options = (records_from 1 fss, None)"
proof -
  have "reading [] 1 [] ([], False) False 1 (lines_of dl fss @ []) (csv_init (lines_of dl fss))"
    by (simp add: reading_def csv_init_def yielded_def)
  from rows_run [OF this assms(1,2)] obtain st where st: "csv_loop (rfc dl) (csv_init (lines_of dl fss)) = csv_loop (rfc dl) st"
    and r: "reading ([] @ records_from 1 fss) (next_line 1 fss) [] ([], False) False (next_line 1 fss) [] st"
    by (auto simp: reads_def)
  have loop: "csv_loop (rfc dl) (csv_init (lines_of dl fss)) = st"
    using st csv_loop_done [of st "rfc dl"] r by (simp add: reading_def)
  have y: "cs_out st @ (case cs_pending st of None \<Rightarrow> [] | Some r \<Rightarrow> [r]) = records_from 1 fss"
    using r by (simp add: reading_def yielded_def)
  have "\<not> blank_record p" if "cs_pending st = Some p" for p
    using records_not_blank [OF assms(1), of 1] that unfolding y [symmetric] by simp
  then have "last_record st = (case cs_pending st of None \<Rightarrow> [] | Some r \<Rightarrow> [r])"
    using r by (auto simp: last_record_def reading_def blank_record_def Let_def split: option.split)
  then show ?thesis unfolding parseCsvRecords_def Let_def assms(3) loop using r y by (simp add: reading_def)
qed

lemma quote_unclosed:
  "reading recs rl fs (t, q) True l x st \<Longrightarrow> CHR 0x22 \<notin> set x \<Longrightarrow> cs_quoteLine st = k
   \<Longrightarrow> (case csv_loop (rfc dl) st of st' \<Rightarrow> cs_quoted st' \<and> cs_quoteLine st' = k \<and> yielded st' = recs \<and> (x \<noteq> [] \<longrightarrow> cs_out st' = recs))"
proof (induction x arbitrary: t l st)
  case Nil
  then show ?case by (simp add: csv_loop_done reading_def)
next
  case (Cons c x)
  let ?st = "csv_step (rfc dl) st"
  have r: "reading recs rl fs (t @ [c], q) True (l + newlines [c]) x ?st"
    using Cons.prems by (intro step_quoted_char) auto
  have k: "cs_quoteLine ?st = k" "cs_pending ?st = None"
    using Cons.prems by (auto simp: csv_step_def Let_def reading_def quoted_step_def rfc_def csv_blocks split: option.split)
  have loop: "csv_loop (rfc dl) st = csv_loop (rfc dl) ?st"
    using reading_rest [OF Cons.prems(1)] by (intro csv_loop_step) simp
  show ?case
  proof (cases "x = []")
    case True
    then show ?thesis using loop r k by (simp add: csv_loop_done reading_def yielded_def)
  next
    case False
    with Cons.IH [OF r] Cons.prems(2) k loop show ?thesis by simp
  qed
qed

lemma csv_unclosed:
  assumes "list_all (row_ok dl) fss" and "dl \<notin> {CHR 0x22, CHR 0x0D}" and "csv_config options = rfc dl"
    and "CHR 0x22 \<notin> set x"
  shows "snd (parseCsvRecords (lines_of dl fss @ CHR 0x22 # x) options) = Some (next_line 1 fss)"
proof -
  let ?s = "lines_of dl fss @ CHR 0x22 # x"
  have "reading [] 1 [] ([], False) False 1 ?s (csv_init ?s)"
    by (simp add: reading_def csv_init_def yielded_def)
  from rows_run [OF this assms(1,2)] obtain st where st: "csv_loop (rfc dl) (csv_init ?s) = csv_loop (rfc dl) st"
    and r: "reading ([] @ records_from 1 fss) (next_line 1 fss) [] ([], False) False (next_line 1 fss) (CHR 0x22 # x) st"
    by (auto simp: reads_def)
  let ?st = "csv_step (rfc dl) st"
  have o: "reading (records_from 1 fss) (next_line 1 fss) [] ([], True) True (next_line 1 fss) x ?st"
    using step_open r by simp
  have "cs_quoteLine ?st = next_line 1 fss"
    using r by (auto simp: csv_step_def Let_def reading_def open_step_def rfc_def csv_blocks split: option.split)
  moreover have "csv_loop (rfc dl) st = csv_loop (rfc dl) ?st"
    using reading_rest [OF r] by (intro csv_loop_step) simp
  ultimately show ?thesis using quote_unclosed [OF o assms(4)] st
    unfolding parseCsvRecords_def Let_def assms(3) by simp
qed

subsection \<open>The fields csvField writes\<close>

definition field_of :: "bool \<Rightarrow> string \<Rightarrow> CsvStyle \<Rightarrow> Cell \<Rightarrow> field" where
  "field_of neutralise delimiter style c =
    (if c = CNull then (CSV_NULL, False)
     else let t = cell_text neutralise style c in (t, needs_quotes delimiter style t))"

lemma csvField_rend: "csvField c n d style = Inr s \<Longrightarrow> s = rend (field_of n d style c)"
  by (auto simp: csvField_def field_of_def rend_def Let_def split: if_splits)

definition safe_delimiter :: "char \<Rightarrow> bool" where
  "safe_delimiter dl \<longleftrightarrow> dl \<notin> set [CHR 0x22, CHR 0x0D, CHR 0x0A, CHR 0x5C, CHR ''N'']"

lemma field_of_ok: "safe_delimiter dl \<Longrightarrow> field_ok dl (field_of n [dl] style c)"
  by (auto simp: field_of_def field_ok_def CSV_NULL_def plain_char_def safe_delimiter_def needs_quotes_def Let_def
      has_sub_char list_all_iff list_ex_iff)

lemma field_of_source:
  "source_cell CSV_NULL (fst (field_of n d style c)) (snd (field_of n d style c))
   = (if c = CNull then None else Some (cell_text n style c))"
  by (auto simp: field_of_def source_cell_def needs_quotes_def Let_def)

lemma rmap_map: "rmap f xs = Inr ys \<Longrightarrow> (\<And>x y. f x = Inr y \<Longrightarrow> y = g x) \<Longrightarrow> ys = map g xs"
  by (induction xs arbitrary: ys) (auto simp: result_simps)

lemma csv_line_rend:
  "csv_line n d style row = Inr l \<Longrightarrow> l = join d (map (\<lambda>c. rend (field_of n d style c)) row)"
  by (auto simp: csv_line_def result_simps simp del: rmap_eq_Inr dest!: rmap_map [where g = "\<lambda>c. rend (field_of n d style c)"]
      intro: csvField_rend)

lemma join_lines: "ls \<noteq> [] \<Longrightarrow> join CRLF ls @ CRLF = concat (map (\<lambda>l. l @ CRLF) ls)"
  by (induction ls rule: induct_list012) auto

definition fields_of :: "bool \<Rightarrow> char \<Rightarrow> CsvStyle \<Rightarrow> Cell list list \<Rightarrow> field list list" where
  "fields_of n dl style rows = map (map (field_of n [dl] style)) rows"

lemma csv_lines_rend:
  assumes "rmap (csv_line n [dl] style) rows = Inr ls" and "rows \<noteq> []"
  shows "join CRLF ls @ CRLF = lines_of dl (fields_of n dl style rows)"
proof -
  have "ls = map (\<lambda>row. join [dl] (map (\<lambda>c. rend (field_of n [dl] style c)) row)) rows"
    using assms(1) by (rule rmap_map) (rule csv_line_rend)
  moreover from this assms(2) have "ls \<noteq> []" by simp
  ultimately show ?thesis
    by (simp add: join_lines lines_of_def fields_of_def line_of_def comp_def)
qed


subsection \<open>Export and import\<close>

fun body_rows :: "bool \<Rightarrow> Batch list \<Rightarrow> Cell list list" where
  "body_rows header [] = []"
| "body_rows header (b # bs) = (if header then [] else [map CString (ba_columns b)]) @ ba_rows b @ body_rows True bs"

lemma fields_of_append: "lines_of dl (fields_of n dl style (a @ b)) = lines_of dl (fields_of n dl style a) @ lines_of dl (fields_of n dl style b)"
  by (simp add: lines_of_def fields_of_def)

lemma csvBody_rend:
  "csvBody n [dl] True style header bs = Inr chunks
   \<Longrightarrow> concat chunks = lines_of dl (fields_of n dl style (body_rows header bs))"
proof (induction bs arbitrary: header chunks)
  case Nil
  then show ?case by (simp add: lines_of_def fields_of_def)
next
  case (Cons b bs)
  from Cons.prems obtain head body tail where
    h: "(if \<not> header then rbind (csv_line n [dl] style (map CString (ba_columns b))) (\<lambda>l. Inr [l @ CRLF]) else Inr []) = Inr head"
    and m: "(if ba_rows b \<noteq> [] then rbind (rmap (csv_line n [dl] style) (ba_rows b)) (\<lambda>ls. Inr [join CRLF ls @ CRLF]) else Inr []) = Inr body"
    and t: "csvBody n [dl] True style True bs = Inr tail" and c: "chunks = head @ body @ tail"
    by (auto simp: result_simps simp del: rmap_eq_Inr)
  have "concat head = lines_of dl (fields_of n dl style (if header then [] else [map CString (ba_columns b)]))"
  proof (cases header)
    case False
    then obtain l where l: "csv_line n [dl] style (map CString (ba_columns b)) = Inr l" and "head = [l @ CRLF]"
      using h by (auto simp: result_simps)
    then have "rmap (csv_line n [dl] style) [map CString (ba_columns b)] = Inr [l]" by simp
    from csv_lines_rend [OF this] \<open>head = _\<close> False show ?thesis by simp
  qed (use h in \<open>simp add: lines_of_def fields_of_def\<close>)
  moreover have "concat body = lines_of dl (fields_of n dl style (ba_rows b))"
  proof (cases "ba_rows b = []")
    case False
    then obtain ls where "rmap (csv_line n [dl] style) (ba_rows b) = Inr ls" and "body = [join CRLF ls @ CRLF]"
      using m by (auto simp: rbind_eq_Inr)
    with csv_lines_rend [OF this(1) False] show ?thesis by simp
  qed (use m in \<open>simp add: lines_of_def fields_of_def\<close>)
  ultimately show ?case using Cons.IH [OF t] by (simp add: c fields_of_append)
qed

text \<open>The cells the import reads, and the line each row starts on.\<close>

definition imported :: "bool \<Rightarrow> CsvStyle \<Rightarrow> Cell \<Rightarrow> string option" where
  "imported neutralise style c = (if c = CNull then None else Some (cell_text neutralise style c))"

fun start_lines :: "nat \<Rightarrow> string option list list \<Rightarrow> nat list" where
  "start_lines line [] = []"
| "start_lines line (row # rows) =
     line # start_lines (line + sum_list (map (\<lambda>c. newlines (case c of None \<Rightarrow> [] | Some t \<Rightarrow> t)) row) + 1) rows"

definition source_rows :: "string option list list \<Rightarrow> SourceRow list" where
  "source_rows rows = map2 (\<lambda>line row. \<lparr>src_line = line, src_cells = row\<rparr>) (start_lines 1 rows) rows"

lemma field_of_breaks:
  "newlines (fst (field_of n d style c)) = newlines (case imported n style c of None \<Rightarrow> [] | Some t \<Rightarrow> t)"
  by (simp add: field_of_def imported_def Let_def CSV_NULL_def)

lemma records_source:
  "map (\<lambda>r. \<lparr>src_line = rec_line r, src_cells = map2 (source_cell CSV_NULL) (rec_fields r) (rec_quoted r)\<rparr>)
     (records_from l (fields_of n dl style rows))
   = map2 (\<lambda>line row. \<lparr>src_line = line, src_cells = row\<rparr>) (start_lines l (map (map (imported n style)) rows))
       (map (map (imported n style)) rows)"
proof (induction rows arbitrary: l)
  case Nil
  then show ?case by (simp add: fields_of_def)
next
  case (Cons row rows)
  have cells: "map2 (source_cell CSV_NULL) (map (fst \<circ> field_of n [dl] style) row) (map (snd \<circ> field_of n [dl] style) row)
    = map (imported n style) row"
    by (induction row) (simp_all add: field_of_source imported_def case_prod_beta)
  have "row_breaks (map (field_of n [dl] style) row)
    = sum_list (map (\<lambda>c. newlines (case c of None \<Rightarrow> [] | Some t \<Rightarrow> t)) (map (imported n style) row))"
    by (simp add: row_breaks_def field_of_breaks comp_def)
  with Cons.IH cells show ?case by (simp add: fields_of_def record_of_def)
qed

lemma fields_of_rows_ok:
  "safe_delimiter dl \<Longrightarrow> list_all (\<lambda>row. row \<noteq> []) rows \<Longrightarrow> list_all (row_ok dl) (fields_of n dl style rows)"
  by (auto simp: fields_of_def row_ok_def list_all_iff field_of_ok)

lemma csv_source_rows:
  assumes "safe_delimiter dl" and "list_all (\<lambda>row. row \<noteq> []) rows" and "csv_config options = rfc dl"
  shows "csvSource (lines_of dl (fields_of n dl style rows)) options CSV_NULL skipBlank
    = (source_rows (map (map (imported n style)) rows), None)"
proof -
  note ok = fields_of_rows_ok [OF assms(1,2), of n style]
  have "filter (\<lambda>r. \<not> (skipBlank \<and> rec_fields r = [[]] \<and> rec_quoted r = [False])) (records_from 1 (fields_of n dl style rows))
    = records_from 1 (fields_of n dl style rows)"
    using records_not_blank [OF ok, of 1] by (auto simp: filter_id_conv list_all_iff blank_record_def)
  then show ?thesis
    using csv_rows [OF ok _ assms(3)] assms(1) records_source [of 1 n dl style rows]
    by (simp add: csvSource_def source_rows_def safe_delimiter_def)
qed

definition import_options :: "char \<Rightarrow> CsvParseOptions" where
  "import_options dl = \<lparr>po_delimiter = Some [dl], po_quote = Some [CHR 0x22], po_escape = Some [CHR 0x22],
     po_lineEnd = Some LineAuto\<rparr>"

lemma import_config: "csv_config (import_options dl) = rfc dl" "csv_config default_options = rfc CHR '',''"
  by (simp_all add: csv_config_def import_options_def default_options_def rfc_def Let_def)

text \<open>
  C25: a table exported as CSV is imported as the same rows: NULL, the text of every value, and the line of
  the file each row starts on, for every separator the export offers and whether or not blank lines are skipped.
\<close>

theorem csv_export_import:
  assumes "safe_delimiter dl" and "list_all (\<lambda>row. row \<noteq> []) (body_rows False batches)"
    and "csvBody safe [dl] True style False batches = Inr chunks"
  shows "csvSource (concat chunks) (import_options dl) CSV_NULL skipBlank
    = (source_rows (map (map (imported safe style)) (body_rows False batches)), None)"
  using csv_source_rows [OF assms(1,2) import_config(1)] csvBody_rend [OF assms(3)] by simp

theorem csv_export_import_witness:
  "csvSource (concat [[CHR ''a'', CHR '','', CHR ''b'', CHR 0x0D, CHR 0x0A],
       [CHR 0x22, CHR ''x'', CHR 0x0A, CHR 0x22, CHR '','', CHR 0x5C, CHR ''N'', CHR 0x0D, CHR 0x0A, CHR 0x22, CHR 0x5C, CHR ''N'',
        CHR 0x22, CHR '','', CHR ''7'', CHR 0x0D, CHR 0x0A]]) (import_options (CHR '','')) CSV_NULL True
   = ([\<lparr>src_line = 1, src_cells = [Some ''a'', Some ''b'']\<rparr>, \<lparr>src_line = 2, src_cells = [Some [CHR ''x'', CHR 0x0A], None]\<rparr>,
       \<lparr>src_line = 4, src_cells = [Some [CHR 0x5C, CHR ''N''], Some ''7'']\<rparr>], None)"
proof -
  let ?b = "[\<lparr>ba_columns = [''a'', ''b''], ba_rows = [[CString [CHR ''x'', CHR 0x0A], CNull],
    [CString [CHR 0x5C, CHR ''N''], CNumber (Finite ''7'')]]\<rparr>]"
  have "csvSource (concat [[CHR ''a'', CHR '','', CHR ''b'', CHR 0x0D, CHR 0x0A],
       [CHR 0x22, CHR ''x'', CHR 0x0A, CHR 0x22, CHR '','', CHR 0x5C, CHR ''N'', CHR 0x0D, CHR 0x0A, CHR 0x22, CHR 0x5C, CHR ''N'',
        CHR 0x22, CHR '','', CHR ''7'', CHR 0x0D, CHR 0x0A]]) (import_options (CHR '','')) CSV_NULL True
    = (source_rows (map (map (imported False plain_style)) (body_rows False ?b)), None)"
    by (rule csv_export_import) code_simp+
  also have "source_rows (map (map (imported False plain_style)) (body_rows False ?b)) =
     [\<lparr>src_line = 1, src_cells = [Some ''a'', Some ''b'']\<rparr>, \<lparr>src_line = 2, src_cells = [Some [CHR ''x'', CHR 0x0A], None]\<rparr>,
       \<lparr>src_line = 4, src_cells = [Some [CHR 0x5C, CHR ''N''], Some ''7'']\<rparr>]"
    by code_simp
  finally show ?thesis .
qed

lemma breaks_rend: "newlines (rend f) = newlines (fst f)"
proof -
  have "newlines (replace_char (CHR 0x22) [CHR 0x22, CHR 0x22] s) = newlines s" for s
    by (induction s) auto
  then show ?thesis by (simp add: rend_def)
qed

lemma breaks_lines:
  assumes "dl \<noteq> CHR 0x0A"
  shows "next_line l fss = l + newlines (lines_of dl fss)"
proof -
  have "newlines (join [dl] ss) = sum_list (map newlines ss)" for ss
    using assms by (induction ss rule: induct_list012) auto
  then have "newlines (line_of dl fs) = row_breaks fs + 1" for fs
    by (simp add: line_of_def row_breaks_def breaks_rend CRLF_def comp_def)
  then show ?thesis by (induction fss arbitrary: l) (auto simp: next_line_def lines_of_def)
qed

text \<open>
  A quote that is opened and never closed is reported with the line it stands on, whatever the rows before
  it and the text after it hold.
\<close>

lemma csv_unterminated_line:
  assumes "list_all (\<lambda>row. row \<noteq> []) (map CString columns # rows)" and "toCsv columns rows safe = Inr s" and "CHR 0x22 \<notin> set x"
  shows "parseCsvDocument (s @ CHR 0x22 # x) default_options = Inl (1 + newlines s)"
proof -
  let ?fss = "fields_of safe (CHR '','') plain_style (map CString columns # rows)"
  obtain ls where "rmap (csv_line safe '','' plain_style) (map CString columns # rows) = Inr ls" and "s = join CRLF ls @ CRLF"
    using assms(2) unfolding toCsv_def rbind_eq_Inr by blast
  then have s: "s = lines_of (CHR '','') ?fss" using csv_lines_rend by simp
  have ok: "list_all (row_ok (CHR '','')) ?fss" using assms(1) by (intro fields_of_rows_ok) (simp_all add: safe_delimiter_def)
  show ?thesis
    using csv_unclosed [OF ok _ import_config(2) assms(3)] breaks_lines [of "CHR '',''" 1 ?fss]
    by (auto simp: parseCsvDocument_def s split: prod.splits)
qed

theorem csv_unterminated_line_witness:
  "parseCsvDocument ([CHR ''a'', CHR 0x0D, CHR 0x0A, CHR 0x22, CHR 0x0A, CHR 0x22, CHR 0x0D, CHR 0x0A] @ CHR 0x22 # ''b,'')
     default_options = Inl 4"
proof -
  let ?s = "[CHR ''a'', CHR 0x0D, CHR 0x0A, CHR 0x22, CHR 0x0A, CHR 0x22, CHR 0x0D, CHR 0x0A]"
  have "parseCsvDocument (?s @ CHR 0x22 # ''b,'') default_options = Inl (1 + newlines ?s)"
    by (rule csv_unterminated_line [of "[''a'']" "[[CString [CHR 0x0A]]]" False]) code_simp+
  then show ?thesis by simp
qed

text \<open>
  In an export made safe for spreadsheets no value is read back as a formula, and a value that is none is unchanged.
\<close>

theorem csv_formula_safe:
  "\<not> FORMULA_START (neutraliseFormula v) \<and> (csvField (CString v) True '','' plain_style
     = csvField (CString (if FORMULA_START v then sq # v else v)) False '','' plain_style)"
  by (auto simp: neutraliseFormula_def csvField_def cell_text_def plain_style_def FORMULA_START_def Let_def split: list.splits)

end
