(* ===== verification/Access.thy ===== *)
theory Access
  imports Prelude
begin

text \<open>
  Which hosts the login form may connect to: \<open>apps/api/src/lib/allowlist.ts\<close>.

  An entry is read with the two regular expressions of the source; \<open>host_parts\<close> gives the lengths their
  group for the host can match, in the order of its alternatives.  The lemmas show what an entry admits,
  that the entry of a preset admits exactly its host and port, and that an entry the configuration check
  lets through does not lose its port.
\<close>

record HostEntry =
  he_host :: string
  he_port :: "nat option"

definition unbracket :: "string \<Rightarrow> string" where
  "unbracket s =
    (if 2 \<le> length s \<and> hd s = CHR ''['' \<and> last s = CHR '']''
        \<and> list_all (\<lambda>c. c \<noteq> CHR 0x0A \<and> c \<noteq> CHR 0x0D) (butlast (tl s))
     then butlast (tl s) else s)"

definition strip_dot :: "string \<Rightarrow> string" where
  "strip_dot s = (if s \<noteq> [] \<and> last s = CHR ''.'' then butlast s else s)"

definition normalise :: "string \<Rightarrow> string" where
  "normalise s = unbracket (strip_dot (to_lower (trim s)))"

definition normaliseHost :: "string \<Rightarrow> string" where
  "normaliseHost s = normalise s"

definition bracket_part :: "string \<Rightarrow> nat list" where
  "bracket_part s = (case s of
     [] \<Rightarrow> []
   | c # r \<Rightarrow>
       (let w = length (takeWhile (\<lambda>x. x \<noteq> CHR '']'') r) in
        if c = CHR ''['' \<and> 0 < w \<and> w < length r then [w + 2] else []))"

definition host_parts :: "(char \<Rightarrow> bool) \<Rightarrow> string \<Rightarrow> nat list" where
  "host_parts allowed s =
    bracket_part s @ (let w = length (takeWhile allowed s) in if 0 < w then [w] else [])"

text \<open>The digits after the colon that end an entry.\<close>

definition port_digits :: "string \<Rightarrow> string option" where
  "port_digits s = (case s of
     [] \<Rightarrow> None
   | c # ds \<Rightarrow> if c = CHR '':'' \<and> ds \<noteq> [] \<and> list_all js_digit ds then Some ds else None)"

definition valid_port :: "nat \<Rightarrow> bool" where
  "valid_port port \<longleftrightarrow> 1 \<le> port \<and> port \<le> 65535"

definition entry_match :: "string \<Rightarrow> (string \<times> string) option" where
  "entry_match s = first_some
     (\<lambda>k. case port_digits (drop k s) of
        Some ds \<Rightarrow> if length ds \<le> 5 then Some (take k s, ds) else None
      | None \<Rightarrow> None)
     (host_parts (\<lambda>c. c \<noteq> CHR '':'') s)"

definition parseEntry :: "string \<Rightarrow> HostEntry" where
  "parseEntry raw = (let s = trim raw in
     case entry_match s of
       Some (host, ds) \<Rightarrow>
         if valid_port (read_nat ds) then \<lparr>he_host = normalise host, he_port = Some (read_nat ds)\<rparr>
         else \<lparr>he_host = normalise s, he_port = None\<rparr>
     | None \<Rightarrow> \<lparr>he_host = normalise s, he_port = None\<rparr>)"

definition entry_admits :: "HostEntry \<Rightarrow> string \<Rightarrow> nat \<Rightarrow> bool" where
  "entry_admits entry h port =
    (if he_port entry \<noteq> None \<and> he_port entry \<noteq> Some port then False
     else if he_host entry = ''*'' then True
     else if prefix ''*.'' (he_host entry)
     then suffix (tl (he_host entry)) h \<and> length (tl (he_host entry)) < length h
     else he_host entry = h)"

definition isHostAllowed :: "string \<Rightarrow> nat \<Rightarrow> string list \<Rightarrow> bool" where
  "isHostAllowed host port allowlist =
    (let h = normalise host in
     if h = [] then False else list_ex (\<lambda>raw. entry_admits (parseEntry raw) h port) allowlist)"

definition presetEntry :: "string \<Rightarrow> nat \<Rightarrow> string" where
  "presetEntry host port =
    (if has_sub host '':'' then ''['' @ host @ '']:'' @ show_nat port else host @ '':'' @ show_nat port)"

text \<open>The whole entry matches: a host, and its port where one is written.\<close>

definition whole_entry :: "string \<Rightarrow> string option option" where
  "whole_entry s = first_some
     (\<lambda>k. if drop k s = [] then Some None else map_option Some (port_digits (drop k s)))
     (host_parts (\<lambda>c. c \<noteq> CHR '':'' \<and> c \<noteq> CHR ''['' \<and> c \<noteq> CHR '']'') s)"

definition invalid_entry :: "string \<Rightarrow> bool" where
  "invalid_entry raw \<longleftrightarrow> (let s = trim raw in
     if \<not> has_sub s '':'' then False
     else (case whole_entry s of
         None \<Rightarrow> True
       | Some None \<Rightarrow> False
       | Some (Some ds) \<Rightarrow> \<not> valid_port (read_nat ds)))"

definition invalidEntries :: "string list \<Rightarrow> string list" where
  "invalidEntries allowlist = filter invalid_entry allowlist"

definition entriesWithoutPort :: "string list \<Rightarrow> string list" where
  "entriesWithoutPort allowlist = filter (\<lambda>e. he_port (parseEntry e) = None) allowlist"

subsection \<open>What an entry admits\<close>

text \<open>The documented meaning: the host itself, any subdomain of a suffix, or anything; on its port where it has one.\<close>

inductive admits :: "HostEntry \<Rightarrow> string \<Rightarrow> nat \<Rightarrow> bool" where
  any: "he_host e = ''*'' \<Longrightarrow> he_port e \<in> {None, Some p} \<Longrightarrow> admits e h p"
| subdomain: "he_host e = ''*.'' @ domain \<Longrightarrow> label \<noteq> [] \<Longrightarrow> he_port e \<in> {None, Some p}
    \<Longrightarrow> admits e (label @ ''.'' @ domain) p"
| exact: "he_host e = h \<Longrightarrow> \<not> prefix ''*.'' h \<Longrightarrow> he_port e \<in> {None, Some p} \<Longrightarrow> admits e h p"

lemma entry_admits_iff: "entry_admits e h p \<longleftrightarrow> admits e h p"
proof
  assume a: "entry_admits e h p"
  then have port: "he_port e \<in> {None, Some p}" by (auto simp: entry_admits_def split: if_splits)
  show "admits e h p"
  proof (cases "prefix ''*.'' (he_host e)")
    case True
    then obtain domain where d: "he_host e = ''*.'' @ domain" by (auto simp: prefix_def)
    have "he_host e \<noteq> ''*''" by (simp add: d)
    with a True have sfx: "suffix (tl (he_host e)) h" and len: "length (tl (he_host e)) < length h"
      unfolding entry_admits_def by meson+
    from sfx obtain label where l: "h = label @ tl (he_host e)" by (rule suffixE)
    have h: "h = label @ ''.'' @ domain" unfolding l d by simp
    have h2: "label \<noteq> []" using l len by auto
    show ?thesis unfolding h by (rule admits.subdomain [OF d h2 port])
  next
    case False
    with a have "he_host e = ''*'' \<or> he_host e = h" unfolding entry_admits_def by meson
    then show ?thesis
    proof
      assume "he_host e = ''*''"
      then show ?thesis using port by (rule admits.any)
    next
      assume h: "he_host e = h"
      with False have "\<not> prefix ''*.'' h" by blast
      then show ?thesis using h port by (intro admits.exact)
    qed
  qed
next
  assume "admits e h p"
  then show "entry_admits e h p"
    by cases (auto simp: entry_admits_def suffix_def)
qed

theorem isHostAllowed_iff:
  "isHostAllowed host port allowlist \<longleftrightarrow>
     normalise host \<noteq> [] \<and> list_ex (\<lambda>raw. admits (parseEntry raw) (normalise host) port) allowlist"
  by (simp add: isHostAllowed_def Let_def entry_admits_iff)


subsection \<open>The entry of a preset\<close>

text \<open>A plain host: no blanks around it, no brackets, no wildcard; with colons (IPv6) it does not end in a dot.\<close>

definition plain_host :: "string \<Rightarrow> bool" where
  "plain_host host \<longleftrightarrow> host \<noteq> [] \<and> list_all (\<lambda>c. \<not> js_space c \<and> c \<noteq> CHR ''['' \<and> c \<noteq> CHR '']'') host
     \<and> hd host \<noteq> CHR ''*'' \<and> last host \<noteq> CHR ''.''"

lemma trim_plain: "list_all (\<lambda>c. \<not> js_space c) s \<Longrightarrow> trim s = s"
proof -
  assume a: "list_all (\<lambda>c. \<not> js_space c) s"
  have "dropWhile js_space x = x" if "list_all (\<lambda>c. \<not> js_space c) x" for x using that by (cases x) auto
  with a this [of "rev s"] show ?thesis by (simp add: trim_def trim_start_def trim_end_def)
qed

lemma lower_char_fixed: "lower_char c = x \<Longrightarrow> x \<in> {CHR ''['', CHR '']'', CHR ''*'', CHR ''.''} \<Longrightarrow> c = x"
  by (cases c) (auto simp: lower_char_def less_eq_char_def of_bool_def split: if_splits)

lemma normalise_plain:
  assumes "plain_host host"
  shows "normalise host = to_lower host" and "normalise (''['' @ host @ '']'') = to_lower host"
proof -
  have ns: "list_all (\<lambda>c. \<not> js_space c) host" "host \<noteq> []" and nb: "CHR ''['' \<notin> set host" "CHR '']'' \<notin> set host"
    and nd: "last host \<noteq> CHR ''.''" using assms by (auto simp: plain_host_def list_all_iff)
  have "hd host \<noteq> CHR ''[''" using nb ns(2) hd_in_set by metis
  then have last: "last (to_lower host) \<noteq> CHR ''.''" "hd (to_lower host) \<noteq> CHR ''[''"
    using ns(2) nd lower_char_fixed [of "last host" "CHR ''.''"] lower_char_fixed [of "hd host" "CHR ''[''"]
    by (auto simp: last_map hd_map)
  have sb: "\<not> js_space (CHR ''['')" "\<not> js_space (CHR '']'')" by (simp_all add: js_space_def)
  show "normalise host = to_lower host"
    using ns last by (simp add: normalise_def trim_plain strip_dot_def unbracket_def)
  have nl: "\<not> js_space c \<Longrightarrow> lower_char c \<noteq> CHR 0x0A \<and> lower_char c \<noteq> CHR 0x0D" for c
    by (cases c) (auto simp: lower_char_def js_space_def less_eq_char_def Let_def of_bool_def split: if_splits)
  have "lower_char (CHR ''['') = CHR ''[''" "lower_char (CHR '']'') = CHR '']''" by (simp_all add: lower_char_def)
  moreover have "trim (''['' @ host @ '']'') = ''['' @ host @ '']''" using ns sb by (intro trim_plain) simp
  moreover have "list_all (\<lambda>c. c \<noteq> CHR 0x0A \<and> c \<noteq> CHR 0x0D) (to_lower host)" using ns nl by (simp add: list_all_iff)
  ultimately show "normalise (''['' @ host @ '']'') = to_lower host"
    by (simp add: normalise_def strip_dot_def unbracket_def butlast_append)
qed

lemma port_digits_show: "port_digits (CHR '':'' # show_nat port) = Some (show_nat port)"
  using show_nat_digits [of port] show_nat_nonempty [of port] by (simp add: port_digits_def list_all_iff)

lemma show_nat_length: "n < 10 ^ k \<Longrightarrow> 0 < k \<Longrightarrow> length (show_nat n) \<le> k"
proof (induction n arbitrary: k rule: show_nat.induct)
  case (1 n)
  show ?case
  proof (cases "n < 10")
    case True
    with 1 show ?thesis by (subst show_nat.simps) simp
  next
    case False
    with 1 obtain j where k: "k = Suc j" "0 < j" by (cases k; cases "k - 1") auto
    with 1 False have "length (show_nat (n div 10)) \<le> j" by auto
    with k False show ?thesis by (subst show_nat.simps) simp
  qed
qed

lemma host_part_plain:
  assumes "c \<notin> set host" and "host \<noteq> []"
  shows "takeWhile (\<lambda>x. x \<noteq> c) (host @ c # r) = host"
  using assms by (subst takeWhile_append2) auto

lemma parse_presetEntry:
  assumes "plain_host host" and "valid_port port"
  shows "parseEntry (presetEntry host port) = \<lparr>he_host = to_lower host, he_port = Some port\<rparr>"
proof -
  have h: "list_all (\<lambda>c. \<not> js_space c) host" "host \<noteq> []" "CHR ''['' \<notin> set host" "CHR '']'' \<notin> set host"
    using assms(1) by (auto simp: plain_host_def list_all_iff)
  have sp: "list_all (\<lambda>c. \<not> js_space c) (show_nat port)"
    using show_nat_digits js_digit_not_space by (auto simp: list_all_iff)
  have len: "length (show_nat port) \<le> 5" using assms(2) by (intro show_nat_length) (auto simp: valid_port_def)
  have "\<not> js_space CHR '':''" "\<not> js_space CHR ''[''" "\<not> js_space CHR '']''" by (simp_all add: js_space_def)
  then have tr: "trim (presetEntry host port) = presetEntry host port"
    using h sp by (intro trim_plain) (simp add: presetEntry_def)
  show ?thesis
  proof (cases "has_sub host '':''")
    case True
    have b: "bracket_part (CHR ''['' # host @ CHR '']'' # CHR '':'' # show_nat port) = [length host + 2]"
      using h host_part_plain [of "CHR '']''" host] by (simp add: bracket_part_def Let_def)
    have "entry_match (CHR ''['' # host @ CHR '']'' # CHR '':'' # show_nat port) = Some (''['' @ host @ '']'', show_nat port)"
      using port_digits_show len by (simp add: entry_match_def host_parts_def b)
    with True tr assms normalise_plain(2) [OF assms(1)] show ?thesis
      by (simp add: parseEntry_def presetEntry_def)
  next
    case False
    then have nc: "CHR '':'' \<notin> set host" by (simp add: has_sub_char)
    have "bracket_part (host @ CHR '':'' # show_nat port) = []"
      using h by (cases host) (auto simp: bracket_part_def)
    then have "entry_match (host @ CHR '':'' # show_nat port) = Some (host, show_nat port)"
      using host_part_plain [OF nc h(2)] h(2) port_digits_show len by (simp add: entry_match_def host_parts_def Let_def)
    with False tr assms normalise_plain(1) [OF assms(1)] show ?thesis
      by (simp add: parseEntry_def presetEntry_def)
  qed
qed

text \<open>
  C26: the allowlist entry of a preset lets the login form reach exactly the host and port of the preset, in any
  spelling that is normalised to it, and nothing else.
\<close>

theorem presetEntry_exact:
  assumes "plain_host host" and "valid_port port"
  shows "isHostAllowed h p [presetEntry host port] \<longleftrightarrow> normaliseHost h = normaliseHost host \<and> p = port"
proof -
  have "hd (to_lower host) \<noteq> CHR ''*''" "to_lower host \<noteq> []"
    using assms(1) lower_char_fixed [of "hd host"] by (auto simp: plain_host_def hd_map)
  then have ne: "to_lower host \<noteq> ''*''" "\<not> prefix ''*.'' (to_lower host)" "to_lower host \<noteq> []" by (auto simp: prefix_def)
  have "isHostAllowed h p [presetEntry host port] \<longleftrightarrow>
      normalise h \<noteq> [] \<and> entry_admits \<lparr>he_host = to_lower host, he_port = Some port\<rparr> (normalise h) p"
    by (simp add: isHostAllowed_def parse_presetEntry [OF assms] Let_def)
  also have "\<dots> \<longleftrightarrow> to_lower host = normalise h \<and> p = port"
    using ne by (simp add: entry_admits_def) (metis map_is_Nil_conv)
  finally have "isHostAllowed h p [presetEntry host port] \<longleftrightarrow> to_lower host = normalise h \<and> p = port" .
  then show ?thesis unfolding normaliseHost_def normalise_plain(1) [OF assms(1)] by argo
qed

theorem presetEntry_exact_witness:
  "isHostAllowed '' DB.internal. '' 5432 [presetEntry ''db.internal'' 5432]
   \<and> \<not> isHostAllowed ''db.internal'' 22 [presetEntry ''db.internal'' 5432]"
proof -
  have h: "plain_host ''db.internal''" "valid_port 5432" by (code_simp, simp add: valid_port_def)
  have "normaliseHost '' DB.internal. '' = normaliseHost ''db.internal''" by code_simp
  then show ?thesis unfolding presetEntry_exact [OF h] by simp
qed

subsection \<open>What the configuration check lets through\<close>

lemma first_some_cases: "first_some f xs = Some y \<Longrightarrow> \<exists>x \<in> set xs. f x = Some y"
  by (induction xs) (auto split: option.splits)

lemma port_digits_cases: "port_digits s = Some ds \<Longrightarrow> s = CHR '':'' # ds \<and> ds \<noteq> [] \<and> list_all js_digit ds"
  by (auto simp: port_digits_def split: list.splits if_splits)

lemma after_last:
  assumes "drop j s = c # r" and "c \<notin> set r"
  shows "r = rev (takeWhile (\<lambda>x. x \<noteq> c) (rev s))"
proof -
  have "s = take j s @ c # r" using assms(1) by (metis append_take_drop_id)
  then have "rev s = rev r @ c # rev (take j s)" by (metis rev.simps(2) rev_append append.assoc append_Cons append_Nil)
  moreover have "takeWhile (\<lambda>x. x \<noteq> c) (rev r @ c # rev (take j s)) = rev r"
    using assms(2) by (subst takeWhile_append2) auto
  ultimately show ?thesis by simp
qed

lemma first_some_hit: "x \<in> set xs \<Longrightarrow> f x \<noteq> None \<Longrightarrow> first_some f xs \<noteq> None"
  by (induction xs) (auto split: option.splits)

lemma whole_entry_part:
  assumes "k \<in> set (host_parts (\<lambda>c. c \<noteq> CHR '':'' \<and> c \<noteq> CHR ''['' \<and> c \<noteq> CHR '']'') s)" and "drop k s = CHR '':'' # r"
  shows "k \<in> set (host_parts (\<lambda>c. c \<noteq> CHR '':'') s)"
proof (cases "k \<in> set (bracket_part s)")
  case False
  let ?w = "takeWhile (\<lambda>c. c \<noteq> CHR '':'' \<and> c \<noteq> CHR ''['' \<and> c \<noteq> CHR '']'') s"
  from False assms(1) have k: "k = length ?w" "0 < k" by (auto simp: host_parts_def Let_def split: if_splits)
  have "s = ?w @ CHR '':'' # r" using assms(2) k(1) by (metis append_take_drop_id takeWhile_eq_take)
  moreover have "CHR '':'' \<notin> set ?w" using set_takeWhileD by fastforce
  moreover have "?w \<noteq> []" using k by auto
  ultimately have "takeWhile (\<lambda>c. c \<noteq> CHR '':'') s = ?w" using host_part_plain by metis
  then show ?thesis using k by (simp add: host_parts_def Let_def)
qed (simp add: host_parts_def)

text \<open>
  An entry the configuration accepts keeps the port it was written with: one that comes out without a port
  has no port at all after its host, or one written with more than five digits.
\<close>

lemma valid_entry_port:
  assumes "raw \<notin> set (invalidEntries allowlist)" and "raw \<in> set allowlist" and "he_port (parseEntry raw) = None"
  shows "list_all (\<lambda>c. c \<noteq> CHR '':'') (trim raw) \<or> whole_entry (trim raw) = Some None
     \<or> (\<exists>ds. whole_entry (trim raw) = Some (Some ds) \<and> 5 < length ds)"
proof (rule ccontr)
  let ?s = "trim raw"
  assume n: "\<not> ?thesis"
  have v: "\<not> invalid_entry raw" using assms(1,2) by (simp add: invalidEntries_def)
  with n obtain ds where w: "whole_entry ?s = Some (Some ds)" and port: "valid_port (read_nat ds)" and len: "length ds \<le> 5"
    by (auto simp: invalid_entry_def Let_def not_less has_sub_char list_all_iff split: option.splits if_splits)
  from first_some_cases [OF w [unfolded whole_entry_def]]
  obtain k where k: "k \<in> set (host_parts (\<lambda>c. c \<noteq> CHR '':'' \<and> c \<noteq> CHR ''['' \<and> c \<noteq> CHR '']'') ?s)"
    and d: "port_digits (drop k ?s) = Some ds" by (auto split: if_splits)
  note dk = port_digits_cases [OF d]
  have "entry_match ?s \<noteq> None" unfolding entry_match_def
    by (rule first_some_hit [OF whole_entry_part [OF k]]) (use dk d len in auto)
  then obtain host es where m: "entry_match ?s = Some (host, es)" by auto
  from first_some_cases [OF m [unfolded entry_match_def]]
  obtain j where j: "port_digits (drop j ?s) = Some es" and "length es \<le> 5" by (auto split: option.splits if_splits)
  have "drop j ?s = CHR '':'' # es" "drop k ?s = CHR '':'' # ds" "CHR '':'' \<notin> set es" "CHR '':'' \<notin> set ds"
    using port_digits_cases [OF j] dk by (auto simp: list_all_iff js_digit_def less_eq_char_def)
  then have "es = ds" using after_last by metis
  with m port have "he_port (parseEntry raw) = Some (read_nat ds)" by (simp add: parseEntry_def Let_def)
  with assms(3) show False by simp
qed

theorem valid_entry_port_witness:
  "list_all (\<lambda>c. c \<noteq> CHR '':'') (trim ''db.internal'') \<or> whole_entry (trim ''db.internal'') = Some None
     \<or> (\<exists>ds. whole_entry (trim ''db.internal'') = Some (Some ds) \<and> 5 < length ds)"
proof (rule valid_entry_port [of _ "[''db.internal'']"])
  show "''db.internal'' \<notin> set (invalidEntries [''db.internal''])" by code_simp
  show "''db.internal'' \<in> set [''db.internal'']" by simp
  have "entry_match ''db.internal'' = None" by code_simp
  moreover have "trim ''db.internal'' = ''db.internal''" by code_simp
  ultimately show "he_port (parseEntry ''db.internal'') = None" by (simp add: parseEntry_def)
qed

text \<open>A port padded to six digits passes the check, but its entry can never match: the port is read as part of the name.\<close>

lemma padded_port_never_matches:
  "invalidEntries [''db:005432''] = [] \<and> \<not> isHostAllowed ''db'' 5432 [''db:005432'']"
proof -
  have t: "trim ''db:005432'' = ''db:005432''" by code_simp
  have w: "whole_entry ''db:005432'' = Some (Some ''005432'')" by code_simp
  have "has_sub ''db:005432'' '':''" by code_simp
  moreover have "read_nat ''005432'' = 5432" by (simp add: read_nat_def digit_value_def of_char_of)
  ultimately have "invalidEntries [''db:005432''] = []"
    by (simp add: invalidEntries_def invalid_entry_def t w valid_port_def)
  moreover have "entry_match ''db:005432'' = None" by code_simp
  then have "parseEntry ''db:005432'' = \<lparr>he_host = normalise ''db:005432'', he_port = None\<rparr>" by (simp add: parseEntry_def t)
  moreover have "normalise ''db:005432'' = ''db:005432''" by code_simp
  moreover have "normalise ''db'' = ''db''" by code_simp
  ultimately show ?thesis by (simp add: isHostAllowed_def entry_admits_def)
qed

end
