(* ===== verification/Limits.thy ===== *)
theory Limits
  imports Prelude "HOL-Library.Multiset"
begin

text \<open>
  The limits of the API: \<open>apps/api/src/lib/rate-limit.ts\<close> (attempts per key and time window) and
  \<open>apps/api/src/lib/concurrency.ts\<close> (places held while a response is running).

  Times are milliseconds, as integers; the clock is an argument of the operations.  The map of windows is a
  partial map: the order of its keys is not observed.

  The client of \<open>ConcurrencyLimit\<close> is stated against the interface \<open>place_limit\<close>, whose laws the model of
  the class discharges.
\<close>

subsection \<open>RateLimiter\<close>

record Window =
  w_count :: nat
  w_resetAt :: int

record RateLimiter =
  rl_max :: nat
  rl_windowMs :: int
  rl_windows :: "string \<rightharpoonup> Window"

definition new_limiter :: "nat \<Rightarrow> int \<Rightarrow> RateLimiter" where
  "new_limiter cap windowMs = \<lparr>rl_max = cap, rl_windowMs = windowMs, rl_windows = Map.empty\<rparr>"

record HitResult =
  hr_allowed :: bool
  hr_remaining :: nat
  hr_retryAfterSec :: int
  hr_windowEnd :: int

definition ceil_sec :: "int \<Rightarrow> int" where
  "ceil_sec ms = (ms + 999) div 1000"

definition current_window :: "RateLimiter \<Rightarrow> string \<Rightarrow> int \<Rightarrow> Window" where
  "current_window rl key t = (case rl_windows rl key of
     Some w \<Rightarrow> if w_resetAt w \<le> t then \<lparr>w_count = 0, w_resetAt = t + rl_windowMs rl\<rparr> else w
   | None \<Rightarrow> \<lparr>w_count = 0, w_resetAt = t + rl_windowMs rl\<rparr>)"

definition hit :: "string \<Rightarrow> int \<Rightarrow> RateLimiter \<Rightarrow> HitResult \<times> RateLimiter" where
  "hit key t rl =
    (let w = current_window rl key t; n = w_count w + 1 in
     (\<lparr>hr_allowed = (n \<le> rl_max rl), hr_remaining = rl_max rl - n,
       hr_retryAfterSec = ceil_sec (w_resetAt w - t), hr_windowEnd = w_resetAt w\<rparr>,
      rl\<lparr>rl_windows := (rl_windows rl)(key \<mapsto> w\<lparr>w_count := n\<rparr>)\<rparr>))"

definition refund :: "string \<Rightarrow> int \<Rightarrow> RateLimiter \<Rightarrow> RateLimiter" where
  "refund key windowEnd rl = (case rl_windows rl key of
     Some w \<Rightarrow> if w_resetAt w = windowEnd \<and> 0 < w_count w
       then rl\<lparr>rl_windows := (rl_windows rl)(key \<mapsto> w\<lparr>w_count := w_count w - 1\<rparr>)\<rparr> else rl
   | None \<Rightarrow> rl)"

definition peek :: "string \<Rightarrow> int \<Rightarrow> RateLimiter \<Rightarrow> bool \<times> int" where
  "peek key t rl = (case rl_windows rl key of
     Some w \<Rightarrow> if w_resetAt w \<le> t then (True, 0) else (w_count w < rl_max rl, ceil_sec (w_resetAt w - t))
   | None \<Rightarrow> (True, 0))"

definition reset :: "string \<Rightarrow> RateLimiter \<Rightarrow> RateLimiter" where
  "reset key rl = rl\<lparr>rl_windows := (rl_windows rl)(key := None)\<rparr>"

definition sweep :: "int \<Rightarrow> RateLimiter \<Rightarrow> RateLimiter" where
  "sweep t rl = rl\<lparr>rl_windows := (\<lambda>k. case rl_windows rl k of
     Some w \<Rightarrow> if w_resetAt w \<le> t then None else Some w | None \<Rightarrow> None)\<rparr>"

lemmas limiter_defs = hit_def refund_def peek_def reset_def sweep_def current_window_def Let_def

text \<open>
  The limiter in use: attempts are counted, some are taken back with the window end they were given, windows
  run out and are swept.  A ticket is an attempt counted and not taken back: its key, the window it was counted
  in, and whether it was allowed.
\<close>

type_synonym ticket = "string \<times> int \<times> bool"

record LimiterWorld =
  lw_limiter :: RateLimiter
  lw_now :: int
  lw_tickets :: "ticket multiset"

inductive limiter_step :: "LimiterWorld \<Rightarrow> LimiterWorld \<Rightarrow> bool" where
  tick: "lw_now w \<le> t \<Longrightarrow> limiter_step w (w\<lparr>lw_now := t\<rparr>)"
| attempt: "hit key (lw_now w) (lw_limiter w) = (r, rl) \<Longrightarrow> limiter_step w
     (w\<lparr>lw_limiter := rl, lw_tickets := add_mset (key, hr_windowEnd r, hr_allowed r) (lw_tickets w)\<rparr>)"
| give_back: "(key, e, a) \<in># lw_tickets w \<Longrightarrow> limiter_step w
     (w\<lparr>lw_limiter := refund key e (lw_limiter w), lw_tickets := lw_tickets w - {#(key, e, a)#}\<rparr>)"
| forget: "limiter_step w
     (w\<lparr>lw_limiter := reset key (lw_limiter w), lw_tickets := filter_mset (\<lambda>x. fst x \<noteq> key) (lw_tickets w)\<rparr>)"
| swept: "limiter_step w (w\<lparr>lw_limiter := sweep (lw_now w) (lw_limiter w)\<rparr>)"

inductive_cases limiter_step_cases: "limiter_step w w'"

inductive limiter_reachable :: "nat \<Rightarrow> int \<Rightarrow> LimiterWorld \<Rightarrow> bool" for cap windowMs where
  start: "limiter_reachable cap windowMs \<lparr>lw_limiter = new_limiter cap windowMs, lw_now = t, lw_tickets = {#}\<rparr>"
| step: "limiter_reachable cap windowMs w \<Longrightarrow> limiter_step w w' \<Longrightarrow> limiter_reachable cap windowMs w'"

definition counted :: "string \<Rightarrow> int \<Rightarrow> ticket multiset \<Rightarrow> nat" where
  "counted key e T = size (filter_mset (\<lambda>x. fst x = key \<and> fst (snd x) = e) T)"

definition allowed :: "string \<Rightarrow> int \<Rightarrow> ticket multiset \<Rightarrow> nat" where
  "allowed key e T = size (filter_mset (\<lambda>x. x = (key, e, True)) T)"

text \<open>What every step keeps: a stored window counts its tickets, and a live ticket has its window stored.\<close>

definition limiter_inv :: "nat \<Rightarrow> int \<Rightarrow> LimiterWorld \<Rightarrow> bool" where
  "limiter_inv cap windowMs w \<longleftrightarrow>
     rl_max (lw_limiter w) = cap \<and> rl_windowMs (lw_limiter w) = windowMs
     \<and> (\<forall>key v. rl_windows (lw_limiter w) key = Some v \<longrightarrow>
           w_count v = counted key (w_resetAt v) (lw_tickets w) \<and> allowed key (w_resetAt v) (lw_tickets w) \<le> cap)
     \<and> (\<forall>key e a. (key, e, a) \<in># lw_tickets w \<longrightarrow> lw_now w < e \<longrightarrow>
           (\<exists>v. rl_windows (lw_limiter w) key = Some v \<and> w_resetAt v = e))"

lemma counted_simps [simp]:
  "counted key e {#} = 0"
  "counted key e (add_mset x T) = (if fst x = key \<and> fst (snd x) = e then 1 else 0) + counted key e T"
  by (simp_all add: counted_def)

lemma allowed_simps [simp]:
  "allowed key e {#} = 0"
  "allowed key e (add_mset x T) = (if x = (key, e, True) then 1 else 0) + allowed key e T"
  by (simp_all add: allowed_def)

lemma allowed_le_counted: "allowed key e T \<le> counted key e T"
  by (induction T) auto

lemma counted_zero: "counted key e T = 0 \<longleftrightarrow> (\<forall>a. (key, e, a) \<notin># T)"
  by (induction T) (auto split: if_splits)

lemma counted_filter: "key \<noteq> k \<Longrightarrow> counted key e (filter_mset (\<lambda>x. fst x \<noteq> k) T) = counted key e T"
  by (induction T) auto

lemma allowed_filter: "key \<noteq> k \<Longrightarrow> allowed key e (filter_mset (\<lambda>x. fst x \<noteq> k) T) = allowed key e T"
  by (induction T) auto

lemma limiter_invI:
  assumes "rl_max (lw_limiter w) = cap" and "rl_windowMs (lw_limiter w) = windowMs"
    and "\<And>key v. rl_windows (lw_limiter w) key = Some v \<Longrightarrow> w_count v = counted key (w_resetAt v) (lw_tickets w)"
    and "\<And>key v. rl_windows (lw_limiter w) key = Some v \<Longrightarrow> allowed key (w_resetAt v) (lw_tickets w) \<le> cap"
    and "\<And>key e a. (key, e, a) \<in># lw_tickets w \<Longrightarrow> lw_now w < e \<Longrightarrow>
       (\<exists>v. rl_windows (lw_limiter w) key = Some v \<and> w_resetAt v = e)"
  shows "limiter_inv cap windowMs w"
  using assms by (simp add: limiter_inv_def)

lemma limiter_invD:
  assumes "limiter_inv cap windowMs w"
  shows "rl_max (lw_limiter w) = cap" and "rl_windowMs (lw_limiter w) = windowMs"
    and "rl_windows (lw_limiter w) key = Some v \<Longrightarrow> w_count v = counted key (w_resetAt v) (lw_tickets w)"
    and "rl_windows (lw_limiter w) key = Some v \<Longrightarrow> allowed key (w_resetAt v) (lw_tickets w) \<le> cap"
    and "(key, e, a) \<in># lw_tickets w \<Longrightarrow> lw_now w < e \<Longrightarrow>
       (\<exists>v. rl_windows (lw_limiter w) key = Some v \<and> w_resetAt v = e)"
  using assms unfolding limiter_inv_def by blast+

lemma current_window_counted:
  fixes key :: string
  assumes "limiter_inv cap windowMs w" and "0 < windowMs"
  defines "v \<equiv> current_window (lw_limiter w) key (lw_now w)"
  shows "w_count v = counted key (w_resetAt v) (lw_tickets w)" and "lw_now w < w_resetAt v"
proof -
  show "lw_now w < w_resetAt v"
    using assms(2) limiter_invD(2) [OF assms(1)] by (auto simp: v_def current_window_def split: option.split)
  have none: "counted key (lw_now w + windowMs) (lw_tickets w) = 0"
    if "\<forall>u. rl_windows (lw_limiter w) key = Some u \<longrightarrow> w_resetAt u \<le> lw_now w"
    using that limiter_invD(5) [OF assms(1), of key "lw_now w + windowMs"] assms(2) unfolding counted_zero by fastforce
  show "w_count v = counted key (w_resetAt v) (lw_tickets w)"
    using none limiter_invD(2,3) [OF assms(1)]
    by (auto simp: v_def current_window_def split: option.split)
qed

lemma limiter_inv_attempt:
  assumes "limiter_inv cap windowMs w" and "0 < windowMs" and "hit key (lw_now w) (lw_limiter w) = (r, rl)"
  shows "limiter_inv cap windowMs
     (w\<lparr>lw_limiter := rl, lw_tickets := add_mset (key, hr_windowEnd r, hr_allowed r) (lw_tickets w)\<rparr>)"
proof -
  define v where "v = current_window (lw_limiter w) key (lw_now w)"
  note cw = current_window_counted [OF assms(1,2), of key, folded v_def]
  note D = limiter_invD [OF assms(1)]
  have r: "hr_windowEnd r = w_resetAt v" "hr_allowed r \<longleftrightarrow> w_count v + 1 \<le> cap"
    and rl: "rl = (lw_limiter w)\<lparr>rl_windows := (rl_windows (lw_limiter w))(key \<mapsto> v\<lparr>w_count := w_count v + 1\<rparr>)\<rparr>"
    using assms(3) D(1) by (auto simp: hit_def v_def Let_def)
  have old: "counted key (w_resetAt v) (lw_tickets w) + 1 \<le> cap \<Longrightarrow> allowed key (w_resetAt v) (lw_tickets w) + 1 \<le> cap"
    using allowed_le_counted [of key "w_resetAt v" "lw_tickets w"] by simp
  have keep: "\<not> w_count v + 1 \<le> cap \<Longrightarrow> allowed key (w_resetAt v) (lw_tickets w) \<le> cap"
  proof (cases "rl_windows (lw_limiter w) key = Some v")
    case False
    then have "w_count v = 0" by (auto simp: v_def current_window_def split: option.splits if_splits)
    then show ?thesis using cw(1) allowed_le_counted [of key "w_resetAt v" "lw_tickets w"] by simp
  qed (use D(4) in simp)
  show ?thesis
  proof (rule limiter_invI)
    fix k u assume u: "rl_windows (lw_limiter (w\<lparr>lw_limiter := rl, lw_tickets := add_mset (key, hr_windowEnd r, hr_allowed r) (lw_tickets w)\<rparr>)) k = Some u"
    show "w_count u = counted k (w_resetAt u) (lw_tickets (w\<lparr>lw_limiter := rl, lw_tickets := add_mset (key, hr_windowEnd r, hr_allowed r) (lw_tickets w)\<rparr>))"
      using u D(3) [of k u] cw(1) by (auto simp: rl r split: if_splits)
    show "allowed k (w_resetAt u) (lw_tickets (w\<lparr>lw_limiter := rl, lw_tickets := add_mset (key, hr_windowEnd r, hr_allowed r) (lw_tickets w)\<rparr>)) \<le> cap"
      using u D(4) [of k u] cw(1) old keep by (auto simp: rl r split: if_splits)
  next
    fix k e a assume t: "(k, e, a) \<in># lw_tickets (w\<lparr>lw_limiter := rl, lw_tickets := add_mset (key, hr_windowEnd r, hr_allowed r) (lw_tickets w)\<rparr>)"
      and n: "lw_now (w\<lparr>lw_limiter := rl, lw_tickets := add_mset (key, hr_windowEnd r, hr_allowed r) (lw_tickets w)\<rparr>) < e"
    have "v = u" if "rl_windows (lw_limiter w) key = Some u" "lw_now w < w_resetAt u" for u
      using that by (auto simp: v_def current_window_def)
    then show "\<exists>u. rl_windows (lw_limiter (w\<lparr>lw_limiter := rl, lw_tickets := add_mset (key, hr_windowEnd r, hr_allowed r) (lw_tickets w)\<rparr>)) k = Some u \<and> w_resetAt u = e"
      using t n D(5) [of k e a] by (auto simp: rl r)
  qed (use D(1,2) in \<open>simp_all add: rl\<close>)
qed

lemma limiter_inv_give_back:
  assumes "limiter_inv cap windowMs w" and "(key, e, a) \<in># lw_tickets w"
  shows "limiter_inv cap windowMs
     (w\<lparr>lw_limiter := refund key e (lw_limiter w), lw_tickets := lw_tickets w - {#(key, e, a)#}\<rparr>)"
proof -
  note D = limiter_invD [OF assms(1)]
  obtain T where T: "lw_tickets w = add_mset (key, e, a) T" using assms(2) by (metis insert_DiffM)
  have al: "allowed k x T \<le> allowed k x (lw_tickets w)" for k x by (simp add: T)
  have ct: "counted k x (lw_tickets w) = (if k = key \<and> x = e then 1 else 0) + counted k x T" for k x
    by (auto simp: T)
  show ?thesis
  proof (cases "\<exists>v. rl_windows (lw_limiter w) key = Some v \<and> w_resetAt v = e")
    case True
    then obtain v where v: "rl_windows (lw_limiter w) key = Some v" "w_resetAt v = e" by blast
    then have rl: "refund key e (lw_limiter w)
        = (lw_limiter w)\<lparr>rl_windows := (rl_windows (lw_limiter w))(key \<mapsto> v\<lparr>w_count := w_count v - 1\<rparr>)\<rparr>"
      using D(3) [OF v(1)] ct [of key e] by (simp add: refund_def)
    show ?thesis
    proof (rule limiter_invI)
      fix k u assume "rl_windows (lw_limiter (w\<lparr>lw_limiter := refund key e (lw_limiter w), lw_tickets := lw_tickets w - {#(key, e, a)#}\<rparr>)) k = Some u"
      then have u: "u = (if k = key then v\<lparr>w_count := w_count v - 1\<rparr> else u)" "k \<noteq> key \<Longrightarrow> rl_windows (lw_limiter w) k = Some u"
        by (auto simp: rl split: if_splits)
      show "w_count u = counted k (w_resetAt u) (lw_tickets (w\<lparr>lw_limiter := refund key e (lw_limiter w), lw_tickets := lw_tickets w - {#(key, e, a)#}\<rparr>))"
        using u D(3) [OF v(1)] D(3) [of k u] ct [of k "w_resetAt u"] v by (cases "k = key") (auto simp: T)
      show "allowed k (w_resetAt u) (lw_tickets (w\<lparr>lw_limiter := refund key e (lw_limiter w), lw_tickets := lw_tickets w - {#(key, e, a)#}\<rparr>)) \<le> cap"
        using u D(4) [OF v(1)] D(4) [of k u] al [of k "w_resetAt u"] v by (cases "k = key") (auto simp: T)
    next
      fix k x b assume "(k, x, b) \<in># lw_tickets (w\<lparr>lw_limiter := refund key e (lw_limiter w), lw_tickets := lw_tickets w - {#(key, e, a)#}\<rparr>)"
        and "lw_now (w\<lparr>lw_limiter := refund key e (lw_limiter w), lw_tickets := lw_tickets w - {#(key, e, a)#}\<rparr>) < x"
      then show "\<exists>u. rl_windows (lw_limiter (w\<lparr>lw_limiter := refund key e (lw_limiter w), lw_tickets := lw_tickets w - {#(key, e, a)#}\<rparr>)) k = Some u \<and> w_resetAt u = x"
        using D(5) [of k x b] v by (auto simp: rl T)
    qed (use D(1,2) in \<open>simp_all add: rl\<close>)
  next
    case False
    then have rl: "refund key e (lw_limiter w) = lw_limiter w" by (auto simp: refund_def split: option.split)
    show ?thesis
    proof (rule limiter_invI)
      fix k u assume u: "rl_windows (lw_limiter (w\<lparr>lw_limiter := refund key e (lw_limiter w), lw_tickets := lw_tickets w - {#(key, e, a)#}\<rparr>)) k = Some u"
      then show "w_count u = counted k (w_resetAt u) (lw_tickets (w\<lparr>lw_limiter := refund key e (lw_limiter w), lw_tickets := lw_tickets w - {#(key, e, a)#}\<rparr>))"
        using False D(3) [of k u] ct [of k "w_resetAt u"] by (auto simp: rl T split: if_splits)
      show "allowed k (w_resetAt u) (lw_tickets (w\<lparr>lw_limiter := refund key e (lw_limiter w), lw_tickets := lw_tickets w - {#(key, e, a)#}\<rparr>)) \<le> cap"
        using u D(4) [of k u] al [of k "w_resetAt u"] by (simp add: rl T)
    next
      fix k x b assume "(k, x, b) \<in># lw_tickets (w\<lparr>lw_limiter := refund key e (lw_limiter w), lw_tickets := lw_tickets w - {#(key, e, a)#}\<rparr>)"
        and "lw_now (w\<lparr>lw_limiter := refund key e (lw_limiter w), lw_tickets := lw_tickets w - {#(key, e, a)#}\<rparr>) < x"
      then show "\<exists>u. rl_windows (lw_limiter (w\<lparr>lw_limiter := refund key e (lw_limiter w), lw_tickets := lw_tickets w - {#(key, e, a)#}\<rparr>)) k = Some u \<and> w_resetAt u = x"
        using D(5) [of k x b] by (simp add: rl T)
    qed (use D(1,2) in \<open>simp_all add: rl\<close>)
  qed
qed

lemma limiter_inv_forget:
  assumes "limiter_inv cap windowMs w"
  shows "limiter_inv cap windowMs
     (w\<lparr>lw_limiter := reset key (lw_limiter w), lw_tickets := filter_mset (\<lambda>x. fst x \<noteq> key) (lw_tickets w)\<rparr>)"
  using limiter_invD [OF assms]
  by (intro limiter_invI) (auto simp: reset_def counted_filter allowed_filter split: if_splits)

lemma limiter_inv_swept:
  "limiter_inv cap windowMs w \<Longrightarrow> limiter_inv cap windowMs (w\<lparr>lw_limiter := sweep (lw_now w) (lw_limiter w)\<rparr>)"
proof -
  assume "limiter_inv cap windowMs w"
  note D = limiter_invD [OF this]
  show ?thesis
  proof (rule limiter_invI)
    fix k e a assume "(k, e, a) \<in># lw_tickets (w\<lparr>lw_limiter := sweep (lw_now w) (lw_limiter w)\<rparr>)"
      and n: "lw_now (w\<lparr>lw_limiter := sweep (lw_now w) (lw_limiter w)\<rparr>) < e"
    then obtain v where "rl_windows (lw_limiter w) k = Some v" "w_resetAt v = e" using D(5) [of k e a] by auto
    with n show "\<exists>v. rl_windows (lw_limiter (w\<lparr>lw_limiter := sweep (lw_now w) (lw_limiter w)\<rparr>)) k = Some v \<and> w_resetAt v = e"
      by (simp add: sweep_def)
  qed (use D in \<open>auto simp: sweep_def split: option.splits if_splits\<close>)
qed

lemma limiter_step_inv:
  assumes "limiter_step w w'" and "limiter_inv cap windowMs w" and "0 < windowMs"
  shows "limiter_inv cap windowMs w'"
  using assms
proof (cases rule: limiter_step.cases)
  case (tick t)
  with limiter_invD [OF assms(2)] show ?thesis by (intro limiter_invI) force+
qed (use assms limiter_inv_attempt limiter_inv_give_back limiter_inv_forget limiter_inv_swept in blast)+

lemma limiter_reachable_inv:
  "limiter_reachable cap windowMs w \<Longrightarrow> 0 < windowMs \<Longrightarrow> limiter_inv cap windowMs w"
proof (induction rule: limiter_reachable.induct)
  case (start t)
  show ?case by (rule limiter_invI) (simp_all add: new_limiter_def)
next
  case (step w w')
  then show ?case using limiter_step_inv by blast
qed

text \<open>
  C28: whatever the order of attempts, refunds, sweeps, resets and the passing of time, at most the configured number of
  attempts that were allowed and not taken back belong to one window of a key that has not run out.
\<close>

theorem limiter_bound:
  assumes "limiter_reachable cap windowMs w" and "0 < windowMs" and "lw_now w < e"
  shows "allowed key e (lw_tickets w) \<le> cap"
proof (cases "counted key e (lw_tickets w) = 0")
  case True
  then show ?thesis using allowed_le_counted [of key e "lw_tickets w"] by simp
next
  case False
  note D = limiter_invD [OF limiter_reachable_inv [OF assms(1,2)]]
  from False obtain a where "(key, e, a) \<in># lw_tickets w" unfolding counted_zero by blast
  from D(5) [OF this assms(3)] show ?thesis using D(4) by blast
qed

theorem limiter_bound_witness:
  "allowed ''ip'' 60000 {#(''ip'', 60000, False), (''ip'', 60000, True)#} \<le> 1"
proof -
  define w0 where "w0 = \<lparr>lw_limiter = new_limiter 1 60000, lw_now = 0, lw_tickets = {#}\<rparr>"
  define w1 where "w1 = w0\<lparr>lw_limiter := snd (hit ''ip'' 0 (lw_limiter w0)), lw_tickets := {#(''ip'', 60000, True)#}\<rparr>"
  define w2 where "w2 = w1\<lparr>lw_limiter := snd (hit ''ip'' 0 (lw_limiter w1)), lw_tickets := {#(''ip'', 60000, False), (''ip'', 60000, True)#}\<rparr>"
  have "limiter_step w0 w1" and "limiter_step w1 w2"
    using limiter_step.attempt [of "''ip''" w0 "fst (hit ''ip'' 0 (lw_limiter w0))" "snd (hit ''ip'' 0 (lw_limiter w0))"]
      limiter_step.attempt [of "''ip''" w1 "fst (hit ''ip'' 0 (lw_limiter w1))" "snd (hit ''ip'' 0 (lw_limiter w1))"]
    by (simp_all add: w0_def w1_def w2_def hit_def current_window_def new_limiter_def Let_def)
  then have "limiter_reachable 1 60000 w2"
    using limiter_reachable.start [of 1 60000 0] limiter_reachable.step w0_def by metis
  from limiter_bound [OF this, of 60000 "''ip''"] show ?thesis by (simp add: w2_def w1_def w0_def)
qed

text \<open>\<open>peek\<close> tells what \<open>hit\<close> would answer, without counting, for every limit above zero.\<close>

lemma peek_hit:
  "fst (peek key t (rl\<lparr>rl_max := Suc n\<rparr>)) = hr_allowed (fst (hit key t (rl\<lparr>rl_max := Suc n\<rparr>)))"
  by (auto simp: limiter_defs split: option.split)

subsection \<open>ConcurrencyLimit\<close>

text \<open>The released flag of each lease handed out is the variable its \<open>release\<close> closes over.\<close>

record ConcurrencyLimit =
  cl_max :: nat
  cl_inUse :: nat
  cl_released :: "bool list"

definition new_limit :: "nat \<Rightarrow> ConcurrencyLimit" where
  "new_limit n = \<lparr>cl_max = n, cl_inUse = 0, cl_released = []\<rparr>"

definition tryAcquire :: "ConcurrencyLimit \<Rightarrow> (nat \<times> ConcurrencyLimit) option" where
  "tryAcquire l =
    (if cl_max l \<le> cl_inUse l then None
     else Some (length (cl_released l), l\<lparr>cl_inUse := cl_inUse l + 1, cl_released := cl_released l @ [False]\<rparr>))"

definition release :: "nat \<Rightarrow> ConcurrencyLimit \<Rightarrow> ConcurrencyLimit" where
  "release k l =
    (if length (cl_released l) \<le> k \<or> cl_released l ! k then l
     else l\<lparr>cl_released := (cl_released l)[k := True], cl_inUse := cl_inUse l - 1\<rparr>)"

definition held_leases :: "ConcurrencyLimit \<Rightarrow> nat set" where
  "held_leases l = {k. k < length (cl_released l) \<and> \<not> cl_released l ! k}"

definition limit_inv :: "nat \<Rightarrow> ConcurrencyLimit \<Rightarrow> bool" where
  "limit_inv n l \<longleftrightarrow> cl_max l = n \<and> cl_inUse l = card (held_leases l) \<and> cl_inUse l \<le> n"

subsection \<open>A request under a limit\<close>

text \<open>
  The middleware \<open>limitConcurrency\<close>, over the operations of a limit: a request is refused or takes a place
  before its handler runs, and gives it back when the handler fails, when the response has no body, or when
  its stream ends, fails or is cancelled.  A cancelled stream may still be pulled; it has no place left to give.
\<close>

datatype 'l Phase = Waiting | Refused | Handling 'l | Streaming 'l | Over 'l

datatype RequestEvent = Arrives | HandlerFails | NoBody | HasBody | ChunkRead | StreamEnds | StreamFails | Cancelled

fun request_step ::
  "('s \<Rightarrow> ('l \<times> 's) option) \<Rightarrow> ('l \<Rightarrow> 's \<Rightarrow> 's) \<Rightarrow> RequestEvent \<Rightarrow> 'l Phase \<Rightarrow> 's \<Rightarrow> 'l Phase \<times> 's" where
  "request_step acquire rel Arrives Waiting s =
     (case acquire s of None \<Rightarrow> (Refused, s) | Some (l, s') \<Rightarrow> (Handling l, s'))"
| "request_step acquire rel HandlerFails (Handling l) s = (Over l, rel l s)"
| "request_step acquire rel NoBody (Handling l) s = (Over l, rel l s)"
| "request_step acquire rel HasBody (Handling l) s = (Streaming l, s)"
| "request_step acquire rel ChunkRead (Streaming l) s = (Streaming l, s)"
| "request_step acquire rel StreamEnds (Streaming l) s = (Over l, rel l s)"
| "request_step acquire rel StreamFails (Streaming l) s = (Over l, rel l s)"
| "request_step acquire rel Cancelled (Streaming l) s = (Over l, rel l s)"
| "request_step acquire rel StreamEnds (Over l) s = (Over l, rel l s)"
| "request_step acquire rel StreamFails (Over l) s = (Over l, rel l s)"
| "request_step acquire rel Cancelled (Over l) s = (Over l, rel l s)"
| "request_step acquire rel ev phase s = (phase, s)"

text \<open>Several requests at once: the phases by request, the events in the order they happen.\<close>

definition serve_one ::
  "('s \<Rightarrow> ('l \<times> 's) option) \<Rightarrow> ('l \<Rightarrow> 's \<Rightarrow> 's) \<Rightarrow> nat \<times> RequestEvent
     \<Rightarrow> (nat \<Rightarrow> 'l Phase) \<times> 's \<Rightarrow> (nat \<Rightarrow> 'l Phase) \<times> 's" where
  "serve_one acquire rel e w = (case request_step acquire rel (snd e) (fst w (fst e)) (snd w) of
     (p, s) \<Rightarrow> ((fst w)(fst e := p), s))"

definition serve ::
  "('s \<Rightarrow> ('l \<times> 's) option) \<Rightarrow> ('l \<Rightarrow> 's \<Rightarrow> 's) \<Rightarrow> (nat \<times> RequestEvent) list
     \<Rightarrow> (nat \<Rightarrow> 'l Phase) \<times> 's \<Rightarrow> (nat \<Rightarrow> 'l Phase) \<times> 's" where
  "serve acquire rel es w = fold (serve_one acquire rel) es w"

definition running :: "'l Phase \<Rightarrow> bool" where
  "running p \<longleftrightarrow> (case p of Handling _ \<Rightarrow> True | Streaming _ \<Rightarrow> True | _ \<Rightarrow> False)"

fun taken :: "'l Phase \<Rightarrow> 'l option" where
  "taken (Handling l) = Some l"
| "taken (Streaming l) = Some l"
| "taken (Over l) = Some l"
| "taken _ = None"

lemma running_taken: "running p \<Longrightarrow> \<exists>l. taken p = Some l"
  by (cases p) (auto simp: running_def)

lemma request_step_cases:
  "request_step acquire rel ev p s = (p', s') \<Longrightarrow> p = Waiting \<and> ev = Arrives
     \<or> (\<exists>l. taken p = Some l \<and> p' = Over l \<and> s' = rel l s) \<or> s' = s \<and> taken p = taken p' \<and> running p = running p'"
  by (cases ev; cases p) (auto simp: running_def)

text \<open>Each place handed out belongs to one request, and is held exactly while that request runs.\<close>

definition placed :: "('s \<Rightarrow> 'l set) \<Rightarrow> ('s \<Rightarrow> 'l set) \<Rightarrow> (nat \<Rightarrow> 'l Phase) \<times> 's \<Rightarrow> bool" where
  "placed held given w \<longleftrightarrow>
     (\<forall>i l. taken (fst w i) = Some l \<longrightarrow> l \<in> given (snd w) \<and> (l \<in> held (snd w) \<longleftrightarrow> running (fst w i)))
     \<and> (\<forall>i j l. taken (fst w i) = Some l \<longrightarrow> taken (fst w j) = Some l \<longrightarrow> i = j)
     \<and> (\<forall>l \<in> held (snd w). \<exists>i. taken (fst w i) = Some l)"

text \<open>What a limit promises: a place taken is a new one, giving one back twice changes nothing, and no more are held than it has.\<close>

locale place_limit =
  fixes acquire :: "'s \<Rightarrow> ('l \<times> 's) option"
    and rel :: "'l \<Rightarrow> 's \<Rightarrow> 's"
    and held :: "'s \<Rightarrow> 'l set"
    and given :: "'s \<Rightarrow> 'l set"
    and inv :: "'s \<Rightarrow> bool"
    and capacity :: nat
  assumes acquire_inv: "inv s \<Longrightarrow> acquire s = Some (l, s') \<Longrightarrow> inv s'"
    and acquire_new: "inv s \<Longrightarrow> acquire s = Some (l, s') \<Longrightarrow> l \<notin> given s \<and> given s' = insert l (given s) \<and> held s' = insert l (held s)"
    and acquire_full: "inv s \<Longrightarrow> acquire s = None \<longleftrightarrow> card (held s) = capacity"
    and release_inv: "inv s \<Longrightarrow> inv (rel l s)"
    and release_held: "inv s \<Longrightarrow> held (rel l s) = held s - {l} \<and> given (rel l s) = given s"
    and held_given: "inv s \<Longrightarrow> held s \<subseteq> given s \<and> finite (held s) \<and> card (held s) \<le> capacity"
begin

lemma release_placed:
  assumes "inv s" and "placed held given (ph, s)" and "taken (ph i) = Some l"
  shows "placed held given (ph(i := Over l), rel l s)"
proof -
  have t: "taken ((ph(i := Over l)) j) = taken (ph j)" "running ((ph(i := Over l)) j) \<longleftrightarrow> j \<noteq> i \<and> running (ph j)" for j
    using assms(3) by (simp_all add: running_def)
  note r = release_held [OF assms(1), of l]
  have "m \<noteq> l" if "taken (ph j) = Some m" "j \<noteq> i" for j m
    using that assms(2,3) unfolding placed_def fst_conv by blast
  then have "\<forall>j m. taken (ph j) = Some m \<longrightarrow>
      m \<in> given (rel l s) \<and> (m \<in> held (rel l s) \<longleftrightarrow> j \<noteq> i \<and> running (ph j))"
    using assms(2,3) r unfolding placed_def by auto
  moreover have "\<forall>m \<in> held (rel l s). \<exists>j. taken (ph j) = Some m"
    using assms(2) r unfolding placed_def by auto
  ultimately show ?thesis
    using assms(2) unfolding placed_def fst_conv snd_conv t by blast
qed

lemma same_place:
  assumes "placed held given (ph, s)" and "taken (ph i) = taken p" and "running (ph i) = running p"
  shows "placed held given (ph(i := p), s)"
proof -
  have t: "taken ((ph(i := p)) j) = taken (ph j)" "running ((ph(i := p)) j) = running (ph j)" for j
    using assms(2,3) by simp_all
  show ?thesis using assms(1) unfolding placed_def fst_conv snd_conv t by blast
qed

lemma arrives_placed:
  assumes "inv s" and "placed held given (ph, s)" and "ph i = Waiting" and "acquire s = Some (l, s')"
  shows "placed held given (ph(i := Handling l), s')"
proof -
  have t: "taken ((ph(i := Handling l)) j) = (if j = i then Some l else taken (ph j))"
    "running ((ph(i := Handling l)) j) = (if j = i then True else running (ph j))" for j
    by (simp_all add: running_def)
  have n: "taken (ph i) = None" using assms(3) by simp
  note a = acquire_new [OF assms(1,4)] held_given [OF assms(1)]
  have "\<exists>j. (if j = i then Some l else taken (ph j)) = Some k" if "k \<in> held s'" for k
    using that a assms(2) n unfolding placed_def by (metis fst_conv insert_iff option.distinct(1) snd_conv)
  moreover have "k = j" if "(if k = i then Some l else taken (ph k)) = Some m" "(if j = i then Some l else taken (ph j)) = Some m" for k j m
    using that a assms(2) unfolding placed_def by (auto split: if_splits)
  moreover have "m \<in> given s' \<and> (m \<in> held s' \<longleftrightarrow> (if k = i then True else running (ph k)))"
    if "(if k = i then Some l else taken (ph k)) = Some m" for k m
    using that a assms(2) unfolding placed_def by (auto split: if_splits)
  ultimately show ?thesis unfolding placed_def fst_conv snd_conv t by blast
qed

lemma step_placed:
  assumes "inv s" and "placed held given (ph, s)" and "request_step acquire rel ev (ph i) s = (p', s')"
  shows "inv s' \<and> placed held given (ph(i := p'), s')"
proof (cases "ph i = Waiting \<and> ev = Arrives")
  case True
  then show ?thesis
    using assms arrives_placed [of s ph i] acquire_inv [of s] same_place [of ph s i Refused]
    by (auto simp: running_def split: option.splits)
next
  case False
  with request_step_cases [OF assms(3)]
  have "(\<exists>l. taken (ph i) = Some l \<and> p' = Over l \<and> s' = rel l s)
      \<or> s' = s \<and> taken (ph i) = taken p' \<and> running (ph i) = running p'" by blast
  then show ?thesis
    using assms(1,2) release_inv release_placed same_place by metis
qed

lemma serve_placed:
  "inv (snd w) \<Longrightarrow> placed held given w \<Longrightarrow> inv (snd (serve acquire rel es w)) \<and> placed held given (serve acquire rel es w)"
proof (induction es arbitrary: w)
  case Nil
  then show ?case by (simp add: serve_def)
next
  case (Cons e es)
  obtain ph s where w: "w = (ph, s)" by fastforce
  obtain p' s' where r: "request_step acquire rel (snd e) (ph (fst e)) s = (p', s')" by fastforce
  from step_placed [of s ph "snd e" "fst e" p' s'] r Cons.prems Cons.IH [of "(ph(fst e := p'), s')"]
  show ?case by (simp add: w serve_def serve_one_def r)
qed

lemma running_held:
  assumes "inv (snd w)" and "placed held given w"
  shows "finite {i. running (fst w i)} \<and> card {i. running (fst w i)} = card (held (snd w))"
proof -
  let ?l = "\<lambda>i. the (taken (fst w i))"
  have "bij_betw ?l {i. running (fst w i)} (held (snd w))"
  proof (rule bij_betwI')
    fix i j assume "i \<in> {i. running (fst w i)}" "j \<in> {i. running (fst w i)}"
    then show "(?l i = ?l j) = (i = j)"
      using assms(2) running_taken [of "fst w i"] running_taken [of "fst w j"] unfolding placed_def by auto
  next
    fix i assume "i \<in> {i. running (fst w i)}"
    then show "?l i \<in> held (snd w)"
      using assms(2) running_taken [of "fst w i"] unfolding placed_def by auto
  next
    fix l assume "l \<in> held (snd w)"
    then show "\<exists>i \<in> {i. running (fst w i)}. l = ?l i"
      using assms(2) unfolding placed_def by force
  qed
  then show ?thesis using held_given [OF assms(1)] bij_betw_finite bij_betw_same_card by blast
qed

lemma serving:
  assumes "inv s" and "held s = {}" and "given s = {}"
  shows "let w = serve acquire rel es (\<lambda>_. Waiting, s) in
    inv (snd w) \<and> finite {i. running (fst w i)} \<and> card {i. running (fst w i)} = card (held (snd w))
      \<and> card {i. running (fst w i)} \<le> capacity
      \<and> (fst (request_step acquire rel Arrives Waiting (snd w)) = Refused \<longleftrightarrow> card {i. running (fst w i)} = capacity)"
proof -
  let ?w = "serve acquire rel es (\<lambda>_. Waiting, s)"
  have "placed held given (\<lambda>_. Waiting, s)" using assms(2) by (simp add: placed_def)
  with serve_placed [of "(\<lambda>_. Waiting, s)" es] assms(1) have w: "inv (snd ?w)" "placed held given ?w" by simp_all
  from acquire_full [OF w(1)] running_held [OF w] held_given [OF w(1)] w(1) show ?thesis
    by (auto simp: Let_def split: option.splits)
qed

end

definition given_leases :: "ConcurrencyLimit \<Rightarrow> nat set" where
  "given_leases l = {..<length (cl_released l)}"

lemma held_leases_finite: "finite (held_leases l)"
  by (simp add: held_leases_def)

interpretation cl: place_limit tryAcquire release held_leases given_leases "limit_inv n" n for n
proof
  fix s l s' assume i: "limit_inv n s" and a: "tryAcquire s = Some (l, s')"
  then have s': "l = length (cl_released s)" "s' = s\<lparr>cl_inUse := cl_inUse s + 1, cl_released := cl_released s @ [False]\<rparr>"
    and le: "cl_inUse s < n" by (auto simp: tryAcquire_def limit_inv_def split: if_splits)
  have h: "held_leases s' = insert l (held_leases s)" "l \<notin> held_leases s"
    by (auto simp: held_leases_def s' nth_append)
  show "l \<notin> given_leases s \<and> given_leases s' = insert l (given_leases s) \<and> held_leases s' = insert l (held_leases s)"
    using h by (auto simp: given_leases_def s')
  show "limit_inv n s'" using i le h held_leases_finite [of s] by (simp add: limit_inv_def s')
next
  fix s assume i: "limit_inv n s"
  then show "tryAcquire s = None \<longleftrightarrow> card (held_leases s) = n"
    by (auto simp: tryAcquire_def limit_inv_def)
  show "held_leases s \<subseteq> given_leases s \<and> finite (held_leases s) \<and> card (held_leases s) \<le> n"
    using i held_leases_finite [of s] by (auto simp: limit_inv_def held_leases_def given_leases_def)
next
  fix s l assume i: "limit_inv n s"
  have h: "held_leases (release l s) = held_leases s - {l}"
    by (auto simp: held_leases_def release_def nth_list_update split: if_splits)
  show "held_leases (release l s) = held_leases s - {l} \<and> given_leases (release l s) = given_leases s"
    using h by (auto simp: given_leases_def release_def)
  show "limit_inv n (release l s)"
    using i h held_leases_finite [of s] card_Diff_singleton [of l "held_leases s"]
    by (auto simp: limit_inv_def release_def held_leases_def split: if_splits)
qed

text \<open>
  C27: however requests arrive, fail, stream, end and are cancelled, the places in use are exactly those of the
  requests whose handler or stream is running, never more than the limit, and a request is refused exactly when
  all are taken.
\<close>

theorem concurrency_exact:
  "let w = serve tryAcquire release es (\<lambda>_. Waiting, new_limit n) in
     finite {i. running (fst w i)} \<and> cl_inUse (snd w) = card {i. running (fst w i)} \<and> cl_inUse (snd w) \<le> n
     \<and> (fst (request_step tryAcquire release Arrives Waiting (snd w)) = Refused
          \<longleftrightarrow> card {i. running (fst w i)} = n)"
proof -
  have "limit_inv n (new_limit n)" "held_leases (new_limit n) = {}" "given_leases (new_limit n) = {}"
    by (simp_all add: limit_inv_def new_limit_def held_leases_def given_leases_def)
  from cl.serving [OF this, of es] show ?thesis by (simp add: Let_def limit_inv_def)
qed

end
