(* ===== verification/Sessions.thy ===== *)
theory Sessions
  imports Dialects
begin

text \<open>
  Sessions: \<open>apps/api/src/session/identity.ts\<close>, the in-memory store of \<open>store.ts\<close> and the SQLite store of
  \<open>sqlite-store.ts\<close>.

  An adapter is the number the factory gave it; the stores count the adapters made and keep those that were
  closed.  The clock, the fresh session id and whether the server accepts the connection are arguments.
  A stored payload is represented by what opening it for its own row gives (nothing where it cannot be opened),
  and the account a row belongs to by the HMAC of its identity key, a parameter.

  The contract the routes rely on is the locale \<open>session_store\<close>; both stores are interpretations of it.
\<close>

subsection \<open>Identities\<close>

record ConnectRequest =
  cr_dialect :: Dialect
  cr_host :: string
  cr_port :: nat
  cr_user :: string
  cr_password :: string
  cr_database :: "string option"
  cr_collation :: "string option"

definition id_field :: "string \<Rightarrow> string" where
  "id_field v = replace_char (CHR ''|'') [CHR 0x5C, CHR ''|''] (replace_char (CHR 0x5C) [CHR 0x5C, CHR 0x5C] v)"

fun dialect_text :: "Dialect \<Rightarrow> string" where
  "dialect_text Mysql = ''mysql''"
| "dialect_text Postgres = ''postgres''"

definition identityKey :: "ConnectRequest \<Rightarrow> string" where
  "identityKey config = join ''|'' [dialect_text (cr_dialect config), id_field (to_lower (cr_host config)),
     show_nat (cr_port config), id_field (cr_user config)]"

definition serverKey :: "ConnectRequest \<Rightarrow> string" where
  "serverKey config = join ''|'' [''server'', dialect_text (cr_dialect config), id_field (to_lower (cr_host config)),
     show_nat (cr_port config)]"

text \<open>The fields are read back: a field ends at the first bar that no backslash escapes.\<close>

fun read_field :: "string \<Rightarrow> string \<times> string" where
  "read_field [] = ([], [])"
| "read_field [c] = (if c = CHR ''|'' then ([], [c]) else ([c], []))"
| "read_field (c # d # s) =
     (if c = CHR ''|'' then ([], c # d # s)
      else if c = CHR 0x5C then (case read_field s of (f, r) \<Rightarrow> (d # f, r))
      else (case read_field (d # s) of (f, r) \<Rightarrow> (c # f, r)))"

lemma id_field_simps [simp]:
  "id_field [] = []"
  "id_field (c # s) = (if c = CHR 0x5C \<or> c = CHR ''|'' then [CHR 0x5C, c] else [c]) @ id_field s"
  by (simp_all add: id_field_def)

lemma read_id_field: "x = [] \<or> hd x = CHR ''|'' \<Longrightarrow> read_field (id_field v @ x) = (v, x)"
proof (induction v)
  case Nil
  then show ?case by (cases x rule: read_field.cases) auto
next
  case (Cons c v)
  then have IH: "read_field (id_field v @ x) = (v, x)" by simp
  show ?case
  proof (cases "c = CHR 0x5C \<or> c = CHR ''|''")
    case True
    then have "id_field (c # v) @ x = CHR 0x5C # c # (id_field v @ x)" by auto
    then show ?thesis using IH by simp
  next
    case False
    then have e: "id_field (c # v) @ x = c # (id_field v @ x)" by simp
    show ?thesis
    proof (cases "id_field v @ x")
      case Nil
      with IH have "v = []" "x = []" by auto
      with False show ?thesis by simp
    next
      case (Cons d s)
      with IH have "read_field (d # s) = (v, x)" by simp
      with False show ?thesis unfolding e Cons by simp
    qed
  qed
qed

lemma id_field_inj:
  assumes "id_field a @ CHR ''|'' # x = id_field b @ CHR ''|'' # y"
  shows "a = b \<and> x = y"
proof -
  have "read_field (id_field a @ CHR ''|'' # x) = (a, CHR ''|'' # x)" by (rule read_id_field) simp
  moreover have "read_field (id_field b @ CHR ''|'' # y) = (b, CHR ''|'' # y)" by (rule read_id_field) simp
  ultimately have "(a, CHR ''|'' # x) = (b, CHR ''|'' # y)" unfolding assms by (rule trans [OF sym])
  then show ?thesis by simp
qed

lemma id_field_inj_end: "id_field a = id_field b \<Longrightarrow> a = b"
  by (rule conjunct1 [OF id_field_inj [of a "[]" b "[]"]]) simp

lemma dialect_text_bar: "dialect_text d @ CHR ''|'' # x = dialect_text e @ CHR ''|'' # y \<Longrightarrow> d = e \<and> x = y"
  by (cases d; cases e) auto

lemma show_nat_bar: "show_nat m @ CHR ''|'' # x = show_nat n @ CHR ''|'' # y \<Longrightarrow> m = n \<and> x = y"
proof -
  assume a: "show_nat m @ CHR ''|'' # x = show_nat n @ CHR ''|'' # y"
  have t: "takeWhile js_digit (show_nat k @ CHR ''|'' # z) = show_nat k" for k z
    using show_nat_digits [of k] by (subst takeWhile_append2) (auto simp: js_digit_def)
  have "show_nat m = show_nat n" using t [of m x] t [of n y] unfolding a by (rule trans [OF sym])
  with a show ?thesis by simp
qed

text \<open>Two connections share an identity key exactly when dialect, host (in any case), port and user agree.\<close>

lemma identityKey_iff:
  "identityKey a = identityKey b \<longleftrightarrow> cr_dialect a = cr_dialect b \<and> to_lower (cr_host a) = to_lower (cr_host b)
     \<and> cr_port a = cr_port b \<and> cr_user a = cr_user b"
proof
  assume "identityKey a = identityKey b"
  then have "dialect_text (cr_dialect a) @ CHR ''|'' # id_field (to_lower (cr_host a)) @ CHR ''|'' # show_nat (cr_port a)
        @ CHR ''|'' # id_field (cr_user a)
    = dialect_text (cr_dialect b) @ CHR ''|'' # id_field (to_lower (cr_host b)) @ CHR ''|'' # show_nat (cr_port b)
        @ CHR ''|'' # id_field (cr_user b)"
    by (simp add: identityKey_def)
  from dialect_text_bar [OF this] show "cr_dialect a = cr_dialect b \<and> to_lower (cr_host a) = to_lower (cr_host b)
     \<and> cr_port a = cr_port b \<and> cr_user a = cr_user b"
    using id_field_inj show_nat_bar id_field_inj_end by blast
qed (simp add: identityKey_def)

text \<open>Also, a server's key is never an account's key.\<close>

theorem serverKey_no_identity: "serverKey a \<noteq> identityKey b"
  by (cases "cr_dialect b") (simp_all add: serverKey_def identityKey_def)

subsection \<open>The in-memory store\<close>

record Session =
  se_id :: string
  se_config :: ConnectRequest
  se_adapter :: nat
  se_createdAt :: int
  se_lastUsedAt :: int

record MemorySessionStore =
  ms_sessions :: "Session list"
  ms_ttlMs :: int
  ms_maxPerIdentity :: nat
  ms_made :: nat
  ms_closed :: "nat list"

definition SESSION_TTL_MS :: int where
  "SESSION_TTL_MS = 30 * 60 * 1000"

definition DEFAULT_MAX_SESSIONS_PER_IDENTITY :: nat where
  "DEFAULT_MAX_SESSIONS_PER_IDENTITY = 10"

definition new_memory_store :: "int option \<Rightarrow> nat option \<Rightarrow> MemorySessionStore" where
  "new_memory_store ttl n = \<lparr>ms_sessions = [],
     ms_ttlMs = (case ttl of Some t \<Rightarrow> t | None \<Rightarrow> SESSION_TTL_MS),
     ms_maxPerIdentity = (case n of Some k \<Rightarrow> k | None \<Rightarrow> DEFAULT_MAX_SESSIONS_PER_IDENTITY),
     ms_made = 0, ms_closed = []\<rparr>"

definition mem_find :: "string \<Rightarrow> MemorySessionStore \<Rightarrow> Session option" where
  "mem_find i st = List.find (\<lambda>s. se_id s = i) (ms_sessions st)"

definition mem_delete :: "string \<Rightarrow> MemorySessionStore \<Rightarrow> MemorySessionStore" where
  "mem_delete i st = (case mem_find i st of
     None \<Rightarrow> st
   | Some s \<Rightarrow> st\<lparr>ms_sessions := filter (\<lambda>x. se_id x \<noteq> i) (ms_sessions st), ms_closed := ms_closed st @ [se_adapter s]\<rparr>)"

definition mem_victims :: "ConnectRequest \<Rightarrow> string \<Rightarrow> MemorySessionStore \<Rightarrow> Session list" where
  "mem_victims config keep st =
    (let same = sort_key se_lastUsedAt
           (filter (\<lambda>s. identityKey (se_config s) = identityKey config \<and> se_id s \<noteq> keep) (ms_sessions st))
     in take (length same + 1 - ms_maxPerIdentity st) same)"

definition mem_enforceLimit :: "ConnectRequest \<Rightarrow> string \<Rightarrow> MemorySessionStore \<Rightarrow> MemorySessionStore" where
  "mem_enforceLimit config keep st = fold (\<lambda>s. mem_delete (se_id s)) (mem_victims config keep st) st"

text \<open>\<open>create\<close>, after \<open>connectAdapter\<close>: an adapter whose ping fails is closed and nothing is kept.\<close>

definition mem_create ::
  "string \<Rightarrow> ConnectRequest \<Rightarrow> bool \<Rightarrow> bool \<Rightarrow> int \<Rightarrow> MemorySessionStore \<Rightarrow> MemorySessionStore" where
  "mem_create i config accepted keepOthers now st0 =
    (let adapter = ms_made st0; st = st0\<lparr>ms_made := adapter + 1\<rparr> in
     if \<not> accepted then st\<lparr>ms_closed := ms_closed st @ [adapter]\<rparr>
     else
       let session = \<lparr>se_id = i, se_config = config, se_adapter = adapter, se_createdAt = now, se_lastUsedAt = now\<rparr>;
           st' = st\<lparr>ms_sessions := ms_sessions st @ [session]\<rparr>
       in if keepOthers then st' else mem_enforceLimit config i st')"

definition mem_get :: "string \<Rightarrow> int \<Rightarrow> MemorySessionStore \<Rightarrow> ConnectRequest option \<times> MemorySessionStore" where
  "mem_get i now st = (case mem_find i st of
     None \<Rightarrow> (None, st)
   | Some s \<Rightarrow>
       if now - se_lastUsedAt s > ms_ttlMs st then (None, mem_delete i st)
       else (Some (se_config s),
         st\<lparr>ms_sessions := map (\<lambda>x. if se_id x = i then x\<lparr>se_lastUsedAt := now\<rparr> else x) (ms_sessions st)\<rparr>))"

definition mem_sweep :: "int \<Rightarrow> MemorySessionStore \<Rightarrow> MemorySessionStore" where
  "mem_sweep now st =
    fold (\<lambda>s. mem_delete (se_id s)) (filter (\<lambda>s. se_lastUsedAt s < now - ms_ttlMs st) (ms_sessions st)) st"

definition mem_closeAll :: "MemorySessionStore \<Rightarrow> MemorySessionStore" where
  "mem_closeAll st = fold (\<lambda>s. mem_delete (se_id s)) (ms_sessions st) st"

subsection \<open>The SQLite store\<close>

record SessionRow =
  row_id :: string
  row_payload :: "ConnectRequest option"
  row_created_at :: int
  row_last_used_at :: int
  row_identity :: string

record Live =
  lv_config :: ConnectRequest
  lv_adapter :: nat
  lv_createdAt :: int
  lv_lastTouch :: int

record SqliteSessionStore =
  sq_rows :: "SessionRow list"
  sq_live :: "(string \<times> Live) list"
  sq_ttlMs :: int
  sq_touchIntervalMs :: int
  sq_maxPerIdentity :: nat
  sq_made :: nat
  sq_closed :: "nat list"

definition new_sqlite_store :: "int option \<Rightarrow> int option \<Rightarrow> nat option \<Rightarrow> SqliteSessionStore" where
  "new_sqlite_store ttl touch n = \<lparr>sq_rows = [], sq_live = [],
     sq_ttlMs = (case ttl of Some t \<Rightarrow> t | None \<Rightarrow> SESSION_TTL_MS),
     sq_touchIntervalMs = (case touch of Some t \<Rightarrow> t | None \<Rightarrow> 60000),
     sq_maxPerIdentity = (case n of Some k \<Rightarrow> k | None \<Rightarrow> DEFAULT_MAX_SESSIONS_PER_IDENTITY),
     sq_made = 0, sq_closed = []\<rparr>"

definition sq_closeLive :: "string \<Rightarrow> SqliteSessionStore \<Rightarrow> SqliteSessionStore" where
  "sq_closeLive i st = (case map_of (sq_live st) i of
     None \<Rightarrow> st
   | Some l \<Rightarrow> st\<lparr>sq_live := filter (\<lambda>x. fst x \<noteq> i) (sq_live st), sq_closed := sq_closed st @ [lv_adapter l]\<rparr>)"

definition sq_delete :: "string \<Rightarrow> SqliteSessionStore \<Rightarrow> SqliteSessionStore" where
  "sq_delete i st = sq_closeLive i (st\<lparr>sq_rows := filter (\<lambda>r. row_id r \<noteq> i) (sq_rows st)\<rparr>)"

definition sq_victims :: "(string \<Rightarrow> string) \<Rightarrow> ConnectRequest \<Rightarrow> string \<Rightarrow> SqliteSessionStore \<Rightarrow> SessionRow list" where
  "sq_victims hmac config keep st =
    (let same = filter (\<lambda>r. row_id r \<noteq> keep)
           (sort_key row_last_used_at (filter (\<lambda>r. row_identity r = hmac (identityKey config)) (sq_rows st)))
     in take (length same + 1 - sq_maxPerIdentity st) same)"

definition sq_enforceLimit ::
  "(string \<Rightarrow> string) \<Rightarrow> ConnectRequest \<Rightarrow> string \<Rightarrow> SqliteSessionStore \<Rightarrow> SqliteSessionStore" where
  "sq_enforceLimit hmac config keep st = fold (\<lambda>r. sq_delete (row_id r)) (sq_victims hmac config keep st) st"

definition sq_create ::
  "(string \<Rightarrow> string) \<Rightarrow> string \<Rightarrow> ConnectRequest \<Rightarrow> bool \<Rightarrow> bool \<Rightarrow> int \<Rightarrow> SqliteSessionStore \<Rightarrow> SqliteSessionStore" where
  "sq_create hmac i config accepted keepOthers now st0 =
    (let adapter = sq_made st0; st = st0\<lparr>sq_made := adapter + 1\<rparr> in
     if \<not> accepted then st\<lparr>sq_closed := sq_closed st @ [adapter]\<rparr>
     else
       let row = \<lparr>row_id = i, row_payload = Some config, row_created_at = now, row_last_used_at = now,
                  row_identity = hmac (identityKey config)\<rparr>;
           live = \<lparr>lv_config = config, lv_adapter = adapter, lv_createdAt = now, lv_lastTouch = now\<rparr>;
           st' = st\<lparr>sq_rows := sq_rows st @ [row], sq_live := sq_live st @ [(i, live)]\<rparr>
       in if keepOthers then st' else sq_enforceLimit hmac config i st')"

text \<open>The live part of a session: kept from before, or rebuilt from the row on the first use after a restart.\<close>

definition sq_revive :: "SessionRow \<Rightarrow> SqliteSessionStore \<Rightarrow> (Live \<times> SqliteSessionStore) option" where
  "sq_revive row st = (case map_of (sq_live st) (row_id row) of
     Some l \<Rightarrow> Some (l, st)
   | None \<Rightarrow>
       (case row_payload row of
          None \<Rightarrow> None
        | Some config \<Rightarrow>
            (let l = \<lparr>lv_config = config, lv_adapter = sq_made st, lv_createdAt = row_created_at row,
                      lv_lastTouch = row_last_used_at row\<rparr>
             in Some (l, st\<lparr>sq_made := sq_made st + 1, sq_live := sq_live st @ [(row_id row, l)]\<rparr>))))"

definition sq_touch :: "string \<Rightarrow> Live \<Rightarrow> int \<Rightarrow> SqliteSessionStore \<Rightarrow> SqliteSessionStore" where
  "sq_touch i l now st =
    (if now - lv_lastTouch l \<ge> sq_touchIntervalMs st
     then st\<lparr>sq_rows := map (\<lambda>r. if row_id r = i then r\<lparr>row_last_used_at := now\<rparr> else r) (sq_rows st),
             sq_live := map (\<lambda>x. if fst x = i then (i, (snd x)\<lparr>lv_lastTouch := now\<rparr>) else x) (sq_live st)\<rparr>
     else st)"

definition sq_get :: "string \<Rightarrow> int \<Rightarrow> SqliteSessionStore \<Rightarrow> ConnectRequest option \<times> SqliteSessionStore" where
  "sq_get i now st = (case List.find (\<lambda>r. row_id r = i) (sq_rows st) of
     None \<Rightarrow> (None, st)
   | Some row \<Rightarrow>
       if now - row_last_used_at row > sq_ttlMs st then (None, sq_delete i st)
       else (case sq_revive row st of
           None \<Rightarrow> (None, sq_delete i st)
         | Some (l, st') \<Rightarrow> (Some (lv_config l), sq_touch i l now st')))"

definition sq_sweep :: "int \<Rightarrow> SqliteSessionStore \<Rightarrow> SqliteSessionStore" where
  "sq_sweep now st =
    fold (\<lambda>r. sq_delete (row_id r)) (filter (\<lambda>r. row_last_used_at r < now - sq_ttlMs st) (sq_rows st)) st"

definition sq_closeAll :: "SqliteSessionStore \<Rightarrow> SqliteSessionStore" where
  "sq_closeAll st = fold (\<lambda>x. sq_closeLive (fst x)) (sq_live st) st"

text \<open>The next process: the rows are there, the pools are not.\<close>

definition sq_restart :: "SqliteSessionStore \<Rightarrow> SqliteSessionStore" where
  "sq_restart st = (sq_closeAll st)\<lparr>sq_live := []\<rparr>"

subsection \<open>The contract\<close>

text \<open>What the routes do with a store; an id is fresh when it is made.\<close>

datatype SessionOp =
  OpCreate string ConnectRequest bool bool int
| OpGet string int
| OpDelete string
| OpSweep int

fun store_op ::
  "(string \<Rightarrow> ConnectRequest \<Rightarrow> bool \<Rightarrow> bool \<Rightarrow> int \<Rightarrow> 's \<Rightarrow> 's)
   \<Rightarrow> (string \<Rightarrow> int \<Rightarrow> 's \<Rightarrow> ConnectRequest option \<times> 's) \<Rightarrow> (string \<Rightarrow> 's \<Rightarrow> 's) \<Rightarrow> (int \<Rightarrow> 's \<Rightarrow> 's)
   \<Rightarrow> ('s \<Rightarrow> string set) \<Rightarrow> SessionOp \<Rightarrow> 's \<Rightarrow> 's" where
  "store_op mk fetch del swp ids (OpCreate i c accepted keep now) s =
     (if i \<in> ids s then s else mk i c accepted keep now s)"
| "store_op mk fetch del swp ids (OpGet i now) s = snd (fetch i now s)"
| "store_op mk fetch del swp ids (OpDelete i) s = del i s"
| "store_op mk fetch del swp ids (OpSweep now) s = swp now s"

text \<open>Every login applies the limit, unless the server refused it.\<close>

definition limited :: "SessionOp \<Rightarrow> bool" where
  "limited op \<longleftrightarrow> (case op of OpCreate i c accepted keep now \<Rightarrow> accepted \<longrightarrow> \<not> keep | _ \<Rightarrow> True)"

text \<open>
  A session in use: it is not deleted, nobody logs in to its account in a way that may close it, and no operation
  that looks at its age comes later than \<open>slack\<close> after its last use.
\<close>

fun in_use :: "(ConnectRequest \<Rightarrow> string) \<Rightarrow> int \<Rightarrow> string \<Rightarrow> ConnectRequest \<Rightarrow> int \<Rightarrow> SessionOp list \<Rightarrow> bool" where
  "in_use account slack i c used_at [] = True"
| "in_use account slack i c used_at (OpCreate j c' accepted keep now # ops) =
     (j \<noteq> i \<and> (account c' = account c \<longrightarrow> accepted \<longrightarrow> keep) \<and> in_use account slack i c used_at ops)"
| "in_use account slack i c used_at (OpGet j now # ops) =
     (if j = i then now - used_at \<le> slack \<and> in_use account slack i c now ops else in_use account slack i c used_at ops)"
| "in_use account slack i c used_at (OpDelete j # ops) = (j \<noteq> i \<and> in_use account slack i c used_at ops)"
| "in_use account slack i c used_at (OpSweep now # ops) = (now - used_at \<le> slack \<and> in_use account slack i c used_at ops)"

locale session_store =
  fixes mk :: "string \<Rightarrow> ConnectRequest \<Rightarrow> bool \<Rightarrow> bool \<Rightarrow> int \<Rightarrow> 's \<Rightarrow> 's"
    and fetch :: "string \<Rightarrow> int \<Rightarrow> 's \<Rightarrow> ConnectRequest option \<times> 's"
    and del :: "string \<Rightarrow> 's \<Rightarrow> 's"
    and swp :: "int \<Rightarrow> 's \<Rightarrow> 's"
    and ids :: "'s \<Rightarrow> string set"
    and view :: "'s \<Rightarrow> string \<Rightarrow> ConnectRequest option"
    and stamp :: "'s \<Rightarrow> string \<Rightarrow> int"
    and account :: "ConnectRequest \<Rightarrow> string"
    and pools :: "'s \<Rightarrow> nat set \<times> nat set \<times> nat"
    and ttl :: int and lag :: int and cap :: nat
    and inv :: "'s \<Rightarrow> bool"
  assumes mk_inv: "inv s \<Longrightarrow> i \<notin> ids s \<Longrightarrow> inv (mk i c accepted keep now s)"
    and fetch_inv: "inv s \<Longrightarrow> inv (snd (fetch i now s))"
    and del_inv: "inv s \<Longrightarrow> inv (del i s)"
    and swp_inv: "inv s \<Longrightarrow> inv (swp now s)"
    and known: "inv s \<Longrightarrow> view s i \<noteq> None \<Longrightarrow> i \<in> ids s"
    and finite_ids: "inv s \<Longrightarrow> finite (ids s)"
    and mk_refused: "inv s \<Longrightarrow> view (mk i c False keep now s) = view s \<and> stamp (mk i c False keep now s) = stamp s"
    and mk_new: "inv s \<Longrightarrow> i \<notin> ids s \<Longrightarrow> view (mk i c True keep now s) i = Some c \<and> stamp (mk i c True keep now s) i = now"
    and mk_other: "inv s \<Longrightarrow> i \<notin> ids s \<Longrightarrow> j \<noteq> i \<Longrightarrow> s' = mk i c True keep now s
       \<Longrightarrow> (view s' j = view s j \<or> \<not> keep \<and> view s' j = None \<and> (\<exists>c'. view s j = Some c' \<and> account c' = account c))
         \<and> (view s' j \<noteq> None \<longrightarrow> stamp s' j = stamp s j)"
    and mk_cap: "inv s \<Longrightarrow> i \<notin> ids s \<Longrightarrow> 0 < cap
       \<Longrightarrow> card {j. \<exists>c'. view (mk i c True False now s) j = Some c' \<and> account c' = account c} \<le> cap"
    and mk_oldest: "inv s \<Longrightarrow> i \<notin> ids s \<Longrightarrow> s' = mk i c True keep now s \<Longrightarrow> view s j \<noteq> None \<Longrightarrow> view s' j = None
       \<Longrightarrow> view s k = Some c' \<Longrightarrow> account c' = account c \<Longrightarrow> view s' k \<noteq> None \<Longrightarrow> stamp s j \<le> stamp s k"
    and fetch_live: "inv s \<Longrightarrow> view s i = Some c \<Longrightarrow> now - stamp s i \<le> ttl \<Longrightarrow> fst (fetch i now s) = Some c
         \<and> view (snd (fetch i now s)) = view s \<and> now - lag \<le> stamp (snd (fetch i now s)) i
         \<and> (\<forall>j. j \<noteq> i \<longrightarrow> stamp (snd (fetch i now s)) j = stamp s j)"
    and fetch_stale: "inv s \<Longrightarrow> view s i = None \<or> ttl < now - stamp s i \<Longrightarrow> fst (fetch i now s) = None
         \<and> view (snd (fetch i now s)) = (view s)(i := None) \<and> (\<forall>j. j \<noteq> i \<longrightarrow> stamp (snd (fetch i now s)) j = stamp s j)"
    and del_view: "inv s \<Longrightarrow> view (del i s) = (view s)(i := None) \<and> (\<forall>j. j \<noteq> i \<longrightarrow> stamp (del i s) j = stamp s j)"
    and swp_view: "inv s \<Longrightarrow> view (swp now s) j = (if stamp s j < now - ttl then None else view s j)
         \<and> (view (swp now s) j \<noteq> None \<longrightarrow> stamp (swp now s) j = stamp s j)"
    and pools_all: "inv s \<Longrightarrow> pools s = (used, closed, made) \<Longrightarrow> used \<union> closed = {..<made} \<and> used \<inter> closed = {}"
begin

abbreviation run :: "SessionOp list \<Rightarrow> 's \<Rightarrow> 's" where
  "run ops s \<equiv> fold (store_op mk fetch del swp ids) ops s"

lemma op_inv: "inv s \<Longrightarrow> inv (store_op mk fetch del swp ids op s)"
  using mk_inv fetch_inv del_inv swp_inv by (cases op) auto

lemma run_inv: "inv s \<Longrightarrow> inv (run ops s)"
  by (induction ops arbitrary: s) (auto simp: op_inv)

lemma pools_accounted:
  "inv s \<Longrightarrow> pools (run ops s) = (used, closed, made) \<Longrightarrow> used \<union> closed = {..<made} \<and> used \<inter> closed = {}"
  using pools_all [OF run_inv] by blast

text \<open>The sessions of an account, and that they stay within the limit.\<close>

abbreviation sessions_of :: "'s \<Rightarrow> string \<Rightarrow> string set" where
  "sessions_of s a \<equiv> {j. \<exists>c. view s j = Some c \<and> account c = a}"

lemma sessions_finite: "inv s \<Longrightarrow> finite (sessions_of s a)"
  by (rule finite_subset [OF _ finite_ids]) (use known in force)+

lemma sessions_shrink:
  assumes "inv s" and "\<And>j c. view s' j = Some c \<Longrightarrow> view s j = Some c" and "card (sessions_of s a) \<le> cap"
  shows "card (sessions_of s' a) \<le> cap"
proof -
  have "sessions_of s' a \<subseteq> sessions_of s a" using assms(2) by blast
  from card_mono [OF sessions_finite [OF assms(1)] this] assms(3) show ?thesis by simp
qed

lemma op_cap:
  assumes "inv s" and "limited op" and "0 < cap" and "\<And>a. card (sessions_of s a) \<le> cap"
  shows "card (sessions_of (store_op mk fetch del swp ids op s) a) \<le> cap"
proof (cases op)
  case (OpCreate i c accepted keep now)
  show ?thesis
  proof (cases "i \<in> ids s \<or> \<not> accepted")
    case True
    then show ?thesis using assms(1,4) mk_refused OpCreate by auto
  next
    case False
    then have new: "i \<notin> ids s" and op: "store_op mk fetch del swp ids op s = mk i c True False now s"
      using OpCreate assms(2) by (auto simp: limited_def)
    show ?thesis
    proof (cases "a = account c")
      case True
      then show ?thesis unfolding op using mk_cap [OF assms(1) new assms(3)] by simp
    next
      case other: False
      have "view s j = Some c'" if "view (mk i c True False now s) j = Some c'" "account c' = a" for j c'
      proof (cases "j = i")
        case False
        with mk_other [OF assms(1) new False refl, of c False now] that show ?thesis by auto
      qed (use mk_new [OF assms(1) new, of c False now] that other in auto)
      then have "sessions_of (mk i c True False now s) a \<subseteq> sessions_of s a" by blast
      from card_mono [OF sessions_finite [OF assms(1)] this] assms(4) [of a] show ?thesis unfolding op by simp
    qed
  qed
next
  case (OpGet i now)
  have "view (snd (fetch i now s)) j = Some c \<Longrightarrow> view s j = Some c" for j c
    using fetch_live [OF assms(1), of i] fetch_stale [OF assms(1), of i now]
    by (cases "\<exists>c. view s i = Some c \<and> now - stamp s i \<le> ttl") (auto split: if_splits)
  then show ?thesis using sessions_shrink [OF assms(1) _ assms(4)] OpGet by simp
next
  case (OpDelete i)
  have "view (del i s) j = Some c \<Longrightarrow> view s j = Some c" for j c
    using del_view [OF assms(1), of i] by (auto split: if_splits)
  then show ?thesis using sessions_shrink [OF assms(1) _ assms(4)] OpDelete by simp
next
  case (OpSweep now)
  have "view (swp now s) j = Some c \<Longrightarrow> view s j = Some c" for j c
    using swp_view [OF assms(1), of now j] by (auto split: if_splits)
  then show ?thesis using sessions_shrink [OF assms(1) _ assms(4)] OpSweep by simp
qed

lemma run_cap:
  assumes "inv s" and "list_all limited ops" and "0 < cap" and "\<And>a. card (sessions_of s a) \<le> cap"
  shows "card (sessions_of (run ops s) a) \<le> cap"
  using assms
proof (induction ops arbitrary: s)
  case (Cons op ops)
  from Cons.prems have "limited op" by simp
  with Cons.prems op_cap [OF Cons.prems(1) this] op_inv Cons.IH show ?case by simp
qed simp

text \<open>A session in use stays.\<close>

lemma op_survives:
  assumes "inv s" and "view s i = Some c" and "used_at - lag \<le> stamp s i" and "in_use account (ttl - lag) i c used_at (op # ops)"
  obtains used2 where "view (store_op mk fetch del swp ids op s) i = Some c"
    and "used2 - lag \<le> stamp (store_op mk fetch del swp ids op s) i" and "in_use account (ttl - lag) i c used2 ops"
proof (cases op)
  case (OpCreate j c' accepted keep now)
  have "view (store_op mk fetch del swp ids op s) i = Some c \<and> stamp (store_op mk fetch del swp ids op s) i = stamp s i"
  proof (cases "j \<in> ids s \<or> \<not> accepted")
    case True
    then show ?thesis using OpCreate assms(1,2) mk_refused by auto
  next
    case False
    with mk_other [OF assms(1), of j i "mk j c' True keep now s" c' keep now] assms(2,4) OpCreate show ?thesis by auto
  qed
  then show thesis using that assms(3,4) OpCreate by simp
next
  case (OpGet j now)
  show thesis
  proof (cases "j = i")
    case True
    with fetch_live [OF assms(1,2), of now] assms(2-4) OpGet that [of now] show thesis by simp
  next
    case False
    have "view (snd (fetch j now s)) i = Some c \<and> stamp (snd (fetch j now s)) i = stamp s i"
      using fetch_live [OF assms(1), of j] fetch_stale [OF assms(1), of j now] assms(2) False
      by (cases "\<exists>c. view s j = Some c \<and> now - stamp s j \<le> ttl") auto
    with False OpGet assms(3,4) that [of used_at] show thesis by simp
  qed
next
  case (OpDelete j)
  with del_view [OF assms(1), of j] assms that [of used_at] show thesis by auto
next
  case (OpSweep now)
  with swp_view [OF assms(1), of now i] assms that [of used_at] show thesis by simp
qed

lemma run_survives:
  "inv s \<Longrightarrow> view s i = Some c \<Longrightarrow> used_at - lag \<le> stamp s i \<Longrightarrow> in_use account (ttl - lag) i c used_at ops
   \<Longrightarrow> view (run ops s) i = Some c"
proof (induction ops arbitrary: s used_at)
  case (Cons op ops)
  from op_survives [OF Cons.prems] Cons.IH op_inv [OF Cons.prems(1)] show ?case by (metis fold_simps(2))
qed simp

end

end
