(* ===== verification/Session_Stores.thy ===== *)
theory Session_Stores
  imports Sessions
begin

text \<open>
  The in-memory store and the SQLite store keep the contract \<open>session_store\<close>: their invariants, the two
  interpretations, and what follows for both.  The invariants say that ids are unique, that every connection pool made
  is held by one session or has been closed, and, for SQLite, that a live part agrees with its row and that a readable
  row stands under its own account.
\<close>

subsection \<open>The in-memory store keeps the contract\<close>

lemma find_distinct:
  "distinct (map f xs) \<Longrightarrow> List.find (\<lambda>x. f x = i) xs = Some x \<longleftrightarrow> x \<in> set xs \<and> f x = i"
  by (induction xs) auto

lemma find_append: "List.find P (xs @ ys) = (case List.find P xs of None \<Rightarrow> List.find P ys | Some x \<Rightarrow> Some x)"
  by (induction xs) auto

lemma find_none: "List.find (\<lambda>x. f x = i) xs = None \<longleftrightarrow> i \<notin> f ` set xs"
  by (auto simp: find_None_iff)

lemma find_filter_other:
  "List.find (\<lambda>x. f x = j) (filter (\<lambda>x. f x \<noteq> i) xs) = (if j = i then None else List.find (\<lambda>x. f x = j) xs)"
  by (induction xs) auto

lemma find_map_upd:
  assumes "\<And>x. key (g x) = key x"
  shows "List.find (\<lambda>x. key x = j) (map (\<lambda>x. if key x = i then g x else x) xs)
    = map_option (\<lambda>x. if j = i then g x else x) (List.find (\<lambda>x. key x = j) xs)"
  using assms by (induction xs) auto

lemma take_or_drop: "x \<in> set xs \<Longrightarrow> x \<in> set (take n xs) \<or> x \<in> set (drop n xs)"
  by (metis append_take_drop_id set_append Un_iff)

lemma take_drop_sorted:
  fixes xs :: "'a list" and f :: "'a \<Rightarrow> int"
  assumes "sorted (map f xs)" and "x \<in> set (take n xs)" and "y \<in> set (drop n xs)"
  shows "f x \<le> f y"
proof -
  have "sorted (map f (take n xs) @ map f (drop n xs))" using assms(1) by (metis append_take_drop_id map_append)
  with assms(2,3) show ?thesis by (auto simp: sorted_append)
qed

definition mem_ids :: "MemorySessionStore \<Rightarrow> string set" where
  "mem_ids st = se_id ` set (ms_sessions st)"

definition mem_view :: "MemorySessionStore \<Rightarrow> string \<Rightarrow> ConnectRequest option" where
  "mem_view st i = map_option se_config (mem_find i st)"

definition mem_stamp :: "MemorySessionStore \<Rightarrow> string \<Rightarrow> int" where
  "mem_stamp st i = (case mem_find i st of Some s \<Rightarrow> se_lastUsedAt s | None \<Rightarrow> 0)"

definition mem_pools :: "MemorySessionStore \<Rightarrow> nat set \<times> nat set \<times> nat" where
  "mem_pools st = (se_adapter ` set (ms_sessions st), set (ms_closed st), ms_made st)"

definition mem_inv :: "int \<Rightarrow> nat \<Rightarrow> MemorySessionStore \<Rightarrow> bool" where
  "mem_inv ttl cap st \<longleftrightarrow> distinct (map se_id (ms_sessions st)) \<and> distinct (map se_adapter (ms_sessions st))
     \<and> se_adapter ` set (ms_sessions st) \<union> set (ms_closed st) = {..<ms_made st}
     \<and> se_adapter ` set (ms_sessions st) \<inter> set (ms_closed st) = {}
     \<and> ms_ttlMs st = ttl \<and> ms_maxPerIdentity st = cap"

lemma mem_find_iff: "mem_inv ttl cap st \<Longrightarrow> mem_find i st = Some s \<longleftrightarrow> s \<in> set (ms_sessions st) \<and> se_id s = i"
  by (simp add: mem_find_def find_distinct mem_inv_def)

lemma mem_view_iff:
  "mem_inv ttl cap st \<Longrightarrow> mem_view st i = Some c \<longleftrightarrow> (\<exists>s \<in> set (ms_sessions st). se_id s = i \<and> se_config s = c)"
  by (auto simp: mem_view_def mem_find_iff)

lemma mem_view_ids: "mem_view st i = None \<longleftrightarrow> i \<notin> mem_ids st"
  by (simp add: mem_view_def mem_find_def mem_ids_def find_none)

lemma mem_delete_sessions: "ms_sessions (mem_delete i st) = filter (\<lambda>x. se_id x \<noteq> i) (ms_sessions st)"
proof (cases "mem_find i st")
  case None
  then have "i \<notin> se_id ` set (ms_sessions st)" by (simp add: mem_find_def find_none)
  then have "filter (\<lambda>x. se_id x \<noteq> i) (ms_sessions st) = ms_sessions st" by (auto simp: filter_id_conv)
  with None show ?thesis by (simp add: mem_delete_def)
qed (simp add: mem_delete_def)

lemma mem_delete_find: "mem_find j (mem_delete i st) = (if j = i then None else mem_find j st)"
  by (auto simp: mem_find_def mem_delete_sessions find_filter_other find_none)

lemma mem_delete_inv:
  assumes "mem_inv ttl cap st"
  shows "mem_inv ttl cap (mem_delete i st)"
proof (cases "mem_find i st")
  case (Some s)
  then have s: "s \<in> set (ms_sessions st)" "se_id s = i" using mem_find_iff [OF assms] by blast+
  have d: "distinct (map se_id (ms_sessions st))" "distinct (map se_adapter (ms_sessions st))"
    using assms by (simp_all add: mem_inv_def)
  have "x = s" if "x \<in> set (ms_sessions st)" "se_id x = i" for x
    using that s d(1) by (metis distinct_map inj_onD)
  then have "set (filter (\<lambda>x. se_id x \<noteq> i) (ms_sessions st)) = set (ms_sessions st) - {s}" using s(2) by auto
  moreover have "inj_on se_adapter (set (ms_sessions st))" using d(2) by (simp add: distinct_map)
  ultimately have rest: "se_adapter ` set (filter (\<lambda>x. se_id x \<noteq> i) (ms_sessions st)) = se_adapter ` set (ms_sessions st) - {se_adapter s}"
    using s(1) by (simp add: inj_on_image_set_diff)
  have st: "mem_delete i st = st\<lparr>ms_sessions := filter (\<lambda>x. se_id x \<noteq> i) (ms_sessions st), ms_closed := ms_closed st @ [se_adapter s]\<rparr>"
    using Some by (simp add: mem_delete_def)
  define U where "U = se_adapter ` set (ms_sessions st)"
  have a: "se_adapter s \<in> U" using s by (simp add: U_def)
  have "U \<union> set (ms_closed st) = {..<ms_made st}" "U \<inter> set (ms_closed st) = {}"
    using assms by (simp_all add: mem_inv_def U_def)
  with a have "(U - {se_adapter s}) \<union> set (ms_closed st @ [se_adapter s]) = {..<ms_made st}"
    "(U - {se_adapter s}) \<inter> set (ms_closed st @ [se_adapter s]) = {}" by auto
  moreover have "distinct (map se_id (filter (\<lambda>x. se_id x \<noteq> i) (ms_sessions st)))"
    "distinct (map se_adapter (filter (\<lambda>x. se_id x \<noteq> i) (ms_sessions st)))"
    using d by (simp_all add: distinct_map_filter)
  ultimately show ?thesis using assms unfolding mem_inv_def st using rest [folded U_def] by simp
qed (use assms in \<open>simp add: mem_delete_def\<close>)

lemma mem_delete_all:
  assumes "mem_inv ttl cap st"
  shows "mem_inv ttl cap (fold (\<lambda>s. mem_delete (se_id s)) xs st)"
    and "mem_find j (fold (\<lambda>s. mem_delete (se_id s)) xs st) = (if j \<in> se_id ` set xs then None else mem_find j st)"
  using assms
  by (induction xs arbitrary: st) (auto simp: mem_delete_inv mem_delete_find)

lemma mem_new_inv:
  assumes "mem_inv ttl cap st" and "i \<notin> mem_ids st"
  shows "mem_inv ttl cap (st\<lparr>ms_made := ms_made st + 1, ms_sessions := ms_sessions st @
      [\<lparr>se_id = i, se_config = c, se_adapter = ms_made st, se_createdAt = now, se_lastUsedAt = now\<rparr>]\<rparr>)"
proof -
  have "ms_made st \<notin> se_adapter ` set (ms_sessions st)" "ms_made st \<notin> set (ms_closed st)"
    using assms(1) by (auto simp: mem_inv_def)
  with assms show ?thesis by (auto simp: mem_inv_def mem_ids_def lessThan_Suc)
qed

lemma mem_refused_inv:
  "mem_inv ttl cap st \<Longrightarrow> mem_inv ttl cap (st\<lparr>ms_made := ms_made st + 1, ms_closed := ms_closed st @ [ms_made st]\<rparr>)"
  by (auto simp: mem_inv_def lessThan_Suc)

lemma mem_create_accepted:
  "mem_create i c True keep now st = (let st' = st\<lparr>ms_made := ms_made st + 1, ms_sessions := ms_sessions st @
      [\<lparr>se_id = i, se_config = c, se_adapter = ms_made st, se_createdAt = now, se_lastUsedAt = now\<rparr>]\<rparr>
    in if keep then st' else mem_enforceLimit c i st')"
  by (simp add: mem_create_def Let_def)

lemma mem_enforce:
  assumes "mem_inv ttl cap st"
  shows "mem_inv ttl cap (mem_enforceLimit c i st)"
    and "mem_find j (mem_enforceLimit c i st) = (if j \<in> se_id ` set (mem_victims c i st) then None else mem_find j st)"
  unfolding mem_enforceLimit_def using mem_delete_all [OF assms] by blast+

lemma mem_victims_sub:
  "v \<in> set (mem_victims c i st) \<Longrightarrow> v \<in> set (ms_sessions st) \<and> identityKey (se_config v) = identityKey c \<and> se_id v \<noteq> i"
  by (auto simp: mem_victims_def Let_def dest: in_set_takeD)

lemma mem_sweep_find:
  assumes "mem_inv ttl cap st"
  shows "mem_find j (mem_sweep now st) = (case mem_find j st of
      Some s \<Rightarrow> if se_lastUsedAt s < now - ttl then None else Some s | None \<Rightarrow> None)"
proof -
  let ?old = "filter (\<lambda>s. se_lastUsedAt s < now - ms_ttlMs st) (ms_sessions st)"
  have t: "ms_ttlMs st = ttl" using assms by (simp add: mem_inv_def)
  have "j \<in> se_id ` set ?old \<longleftrightarrow> (\<exists>s. mem_find j st = Some s \<and> se_lastUsedAt s < now - ttl)"
    using mem_find_iff [OF assms, of j] t by auto
  then show ?thesis
    using mem_delete_all(2) [OF assms, of j ?old] unfolding mem_sweep_def by (auto split: option.split)
qed

text \<open>What stays of an account after the limit is applied: the new session and the most recently used others.\<close>

lemma mem_kept:
  assumes inv: "mem_inv ttl cap st" and "0 < cap"
  shows "card {j. \<exists>c'. mem_view (mem_enforceLimit c i st) j = Some c' \<and> identityKey c' = identityKey c} \<le> cap"
proof -
  let ?same = "sort_key se_lastUsedAt (filter (\<lambda>s. identityKey (se_config s) = identityKey c \<and> se_id s \<noteq> i) (ms_sessions st))"
  let ?k = "length ?same + 1 - cap"
  have v: "mem_victims c i st = take ?k ?same" using inv by (simp add: mem_victims_def Let_def mem_inv_def)
  have "{j. \<exists>c'. mem_view (mem_enforceLimit c i st) j = Some c' \<and> identityKey c' = identityKey c}
      \<subseteq> insert i (set (map se_id (drop ?k ?same)))"
  proof
    fix j assume "j \<in> {j. \<exists>c'. mem_view (mem_enforceLimit c i st) j = Some c' \<and> identityKey c' = identityKey c}"
    then obtain s where s: "mem_find j (mem_enforceLimit c i st) = Some s" "identityKey (se_config s) = identityKey c"
      by (auto simp: mem_view_def)
    then have j: "s \<in> set (ms_sessions st)" "se_id s = j" "j \<notin> se_id ` set (mem_victims c i st)"
      using mem_enforce(2) [OF inv, of j c i] mem_find_iff [OF inv, of j] by (auto split: if_splits)
    show "j \<in> insert i (set (map se_id (drop ?k ?same)))"
    proof (cases "j = i")
      case False
      then have "s \<in> set ?same" using j s(2) by simp
      then have "s \<in> set (take ?k ?same) \<or> s \<in> set (drop ?k ?same)" by (rule take_or_drop)
      with j(2,3) v show ?thesis by force
    qed simp
  qed
  moreover have "card (insert i (set (map se_id (drop ?k ?same)))) \<le> cap"
    using card_insert_le_m1 [of cap "set (map se_id (drop ?k ?same))" i] card_length [of "map se_id (drop ?k ?same)"] assms(2)
    by (simp add: card_insert_if)
  ultimately show ?thesis by (meson List.finite_set card_mono finite_insert le_trans)
qed

lemma mem_oldest:
  assumes inv: "mem_inv ttl cap st" and "mem_find j st = Some a" and "mem_find j (mem_enforceLimit c i st) = None"
    and "mem_find k st = Some b" and "identityKey (se_config b) = identityKey c" and "k \<noteq> i"
    and "mem_find k (mem_enforceLimit c i st) \<noteq> None"
  shows "se_lastUsedAt a \<le> se_lastUsedAt b"
proof -
  let ?same = "sort_key se_lastUsedAt (filter (\<lambda>s. identityKey (se_config s) = identityKey c \<and> se_id s \<noteq> i) (ms_sessions st))"
  let ?n = "length ?same + 1 - ms_maxPerIdentity st"
  have v: "mem_victims c i st = take ?n ?same" by (simp add: mem_victims_def Let_def)
  have jv: "j \<in> se_id ` set (mem_victims c i st)" and kv: "k \<notin> se_id ` set (mem_victims c i st)"
    using assms(2,3,7) mem_enforce(2) [OF inv, of _ c i] by (auto split: if_splits)
  have "a \<in> set (take ?n ?same)"
  proof -
    from jv obtain v' where v': "v' \<in> set (mem_victims c i st)" "se_id v' = j" by blast
    then have "mem_find j st = Some v'" using mem_victims_sub mem_find_iff [OF inv] by blast
    with assms(2) v' v show ?thesis by simp
  qed
  moreover have "b \<in> set (drop ?n ?same)"
  proof -
    have "b \<in> set ?same" using assms(4-6) mem_find_iff [OF inv] by auto
    then have "b \<in> set (take ?n ?same) \<or> b \<in> set (drop ?n ?same)" by (rule take_or_drop)
    moreover have "se_id b = k" using assms(4) mem_find_iff [OF inv] by blast
    ultimately show ?thesis using kv v by auto
  qed
  ultimately show ?thesis by (rule take_drop_sorted [rotated]) simp
qed

lemma mem_get_find:
  assumes "mem_inv ttl cap st"
  shows "mem_find j (snd (mem_get i now st)) = (case mem_find i st of
      Some s \<Rightarrow> if now - se_lastUsedAt s > ttl then (if j = i then None else mem_find j st)
        else if j = i then Some (s\<lparr>se_lastUsedAt := now\<rparr>) else mem_find j st
    | None \<Rightarrow> mem_find j st)"
    and "mem_inv ttl cap (snd (mem_get i now st))"
proof -
  have t: "mem_find j (st\<lparr>ms_sessions := map (\<lambda>x. if se_id x = i then x\<lparr>se_lastUsedAt := now\<rparr> else x) (ms_sessions st)\<rparr>)
      = map_option (\<lambda>x. if j = i then x\<lparr>se_lastUsedAt := now\<rparr> else x) (mem_find j st)"
    by (simp add: mem_find_def find_map_upd)
  have m: "ms_ttlMs st = ttl" using assms by (simp add: mem_inv_def)
  show "mem_find j (snd (mem_get i now st)) = (case mem_find i st of
      Some s \<Rightarrow> if now - se_lastUsedAt s > ttl then (if j = i then None else mem_find j st)
        else if j = i then Some (s\<lparr>se_lastUsedAt := now\<rparr>) else mem_find j st
    | None \<Rightarrow> mem_find j st)"
    unfolding mem_get_def m using mem_delete_find [of j i st] t by (cases "mem_find i st"; cases "mem_find j st") auto
  define xs where "xs = map (\<lambda>x. if se_id x = i then x\<lparr>se_lastUsedAt := now\<rparr> else x) (ms_sessions st)"
  have m: "map se_id xs = map se_id (ms_sessions st)" "map se_adapter xs = map se_adapter (ms_sessions st)"
    unfolding xs_def by auto
  moreover have "se_adapter ` set xs = se_adapter ` set (ms_sessions st)" using m(2) by (metis set_map)
  ultimately have "mem_inv ttl cap (st\<lparr>ms_sessions := xs\<rparr>)" using assms by (simp add: mem_inv_def)
  then show "mem_inv ttl cap (snd (mem_get i now st))"
    using assms mem_delete_inv [OF assms, of i] by (simp add: mem_get_def xs_def split: option.split)
qed

interpretation mem: session_store mem_create mem_get mem_delete mem_sweep mem_ids mem_view mem_stamp identityKey
  mem_pools ttl 0 cap "mem_inv ttl cap" for ttl cap
proof
  fix s i c accepted keep now assume inv: "mem_inv ttl cap s" and new: "i \<notin> mem_ids s"
  show "mem_inv ttl cap (mem_create i c accepted keep now s)"
  proof (cases accepted)
    case True
    with mem_enforce(1) [OF mem_new_inv [OF inv new]] mem_new_inv [OF inv new] show ?thesis
      by (simp add: mem_create_accepted Let_def)
  next
    case False
    with mem_refused_inv [OF inv] show ?thesis by (simp add: mem_create_def Let_def)
  qed
next
  fix s i now assume "mem_inv ttl cap s"
  then show "mem_inv ttl cap (snd (mem_get i now s))" by (rule mem_get_find(2))
next
  fix s i assume "mem_inv ttl cap s"
  then show "mem_inv ttl cap (mem_delete i s)" by (rule mem_delete_inv)
next
  fix s now assume "mem_inv ttl cap s"
  then show "mem_inv ttl cap (mem_sweep now s)" unfolding mem_sweep_def by (rule mem_delete_all(1))
next
  fix s i assume "mem_inv ttl cap s" "mem_view s i \<noteq> None"
  then show "i \<in> mem_ids s" by (metis mem_view_ids)
next
  fix s show "finite (mem_ids s)" by (simp add: mem_ids_def)
next
  fix s i c keep now
  show "mem_view (mem_create i c False keep now s) = mem_view s \<and> mem_stamp (mem_create i c False keep now s) = mem_stamp s"
    by (simp add: mem_create_def mem_view_def mem_stamp_def mem_find_def Let_def fun_eq_iff)
next
  fix s i c keep now assume inv: "mem_inv ttl cap s" and new: "i \<notin> mem_ids s"
  let ?st = "s\<lparr>ms_made := ms_made s + 1, ms_sessions := ms_sessions s @
      [\<lparr>se_id = i, se_config = c, se_adapter = ms_made s, se_createdAt = now, se_lastUsedAt = now\<rparr>]\<rparr>"
  note inv' = mem_new_inv [OF inv new, of c now]
  have f: "mem_find j ?st = (if j = i then Some \<lparr>se_id = i, se_config = c, se_adapter = ms_made s, se_createdAt = now, se_lastUsedAt = now\<rparr>
      else mem_find j s)" for j
  proof -
    have "mem_find i s = None" using new by (simp add: mem_find_def find_none mem_ids_def)
    then show ?thesis by (auto simp: mem_find_def find_append split: option.split)
  qed
  have g: "mem_find j (mem_create i c True keep now s) =
      (if \<not> keep \<and> j \<in> se_id ` set (mem_victims c i ?st) then None else mem_find j ?st)" for j
    using mem_enforce(2) [OF inv', of j c i] by (simp add: mem_create_accepted Let_def)
  have iv: "i \<notin> se_id ` set (mem_victims c i ?st)" using mem_victims_sub by blast
  show "mem_view (mem_create i c True keep now s) i = Some c \<and> mem_stamp (mem_create i c True keep now s) i = now"
    using f g iv by (simp add: mem_view_def mem_stamp_def)
  fix j s'
  show "(mem_view s' j = mem_view s j \<or> \<not> keep \<and> mem_view s' j = None \<and>
          (\<exists>c'. mem_view s j = Some c' \<and> identityKey c' = identityKey c))
       \<and> (mem_view s' j \<noteq> None \<longrightarrow> mem_stamp s' j = mem_stamp s j)"
    if ji: "j \<noteq> i" and s': "s' = mem_create i c True keep now s"
  proof (cases "\<not> keep \<and> j \<in> se_id ` set (mem_victims c i ?st)")
    case True
    then obtain v where v: "v \<in> set (mem_victims c i ?st)" "se_id v = j" by blast
    then have "mem_find j ?st = Some v" using mem_victims_sub mem_find_iff [OF inv'] by blast
    with v f [of j] g [of j] True ji mem_victims_sub [OF v(1)] show ?thesis by (auto simp: s' mem_view_def)
  next
    case False
    with f [of j] g [of j] ji show ?thesis by (auto simp: s' mem_view_def mem_stamp_def)
  qed
  fix k c'
  show "mem_stamp s j \<le> mem_stamp s k"
    if s': "s' = mem_create i c True keep now s" and j: "mem_view s j \<noteq> None" "mem_view s' j = None"
      and k: "mem_view s k = Some c'" "identityKey c' = identityKey c" "mem_view s' k \<noteq> None"
  proof -
    have ne: "j \<noteq> i" "k \<noteq> i" using j(1) k(1) new by (metis mem_view_ids option.distinct(1))+
    obtain a b where a: "mem_find j s = Some a" and b: "mem_find k s = Some b" "se_config b = c'"
      using j(1) k(1) by (auto simp: mem_view_def)
    have "\<not> keep" using j(2) f [of j] g [of j] ne a by (auto simp: s' mem_view_def)
    then have e: "mem_create i c True keep now s = mem_enforceLimit c i ?st" by (simp add: mem_create_accepted Let_def)
    have "se_lastUsedAt a \<le> se_lastUsedAt b"
      by (rule mem_oldest [OF inv', of j _ c i k]) (use f ne a b j k e in \<open>auto simp: s' mem_view_def\<close>)
    then show ?thesis using a b by (simp add: mem_stamp_def)
  qed
next
  fix s i c now assume inv: "mem_inv ttl cap s" and new: "i \<notin> mem_ids s" and cap: "0 < cap"
  show "card {j. \<exists>c'. mem_view (mem_create i c True False now s) j = Some c' \<and> identityKey c' = identityKey c} \<le> cap"
    using mem_kept [OF mem_new_inv [OF inv new, of c now] cap, of c i] by (simp add: mem_create_accepted Let_def)
next
  fix s i c now assume inv: "mem_inv ttl cap s" and v: "mem_view s i = Some c" and t: "now - mem_stamp s i \<le> ttl"
  then obtain x where x: "mem_find i s = Some x" "se_config x = c" by (auto simp: mem_view_def)
  have ok: "\<not> ttl < now - se_lastUsedAt x" "ms_ttlMs s = ttl" using t x inv by (simp_all add: mem_stamp_def mem_inv_def)
  show "fst (mem_get i now s) = Some c \<and> mem_view (snd (mem_get i now s)) = mem_view s
      \<and> now - 0 \<le> mem_stamp (snd (mem_get i now s)) i \<and> (\<forall>j. j \<noteq> i \<longrightarrow> mem_stamp (snd (mem_get i now s)) j = mem_stamp s j)"
    using x ok mem_get_find(1) [OF inv, of _ i now] by (auto simp: mem_view_def mem_stamp_def fun_eq_iff) (simp add: mem_get_def)
next
  fix s i now assume inv: "mem_inv ttl cap s" and o: "mem_view s i = None \<or> ttl < now - mem_stamp s i"
  show "fst (mem_get i now s) = None \<and> mem_view (snd (mem_get i now s)) = (mem_view s)(i := None)
      \<and> (\<forall>j. j \<noteq> i \<longrightarrow> mem_stamp (snd (mem_get i now s)) j = mem_stamp s j)"
  proof (cases "mem_find i s")
    case None
    then show ?thesis by (auto simp: mem_get_def mem_view_def fun_eq_iff)
  next
    case (Some x)
    then have "ttl < now - se_lastUsedAt x" "ms_ttlMs s = ttl" using o inv by (auto simp: mem_view_def mem_stamp_def mem_inv_def)
    then show ?thesis using Some mem_get_find(1) [OF inv, of _ i now] by (auto simp: mem_view_def mem_stamp_def fun_eq_iff) (simp add: mem_get_def)
  qed
next
  fix s i
  show "mem_view (mem_delete i s) = (mem_view s)(i := None) \<and> (\<forall>j. j \<noteq> i \<longrightarrow> mem_stamp (mem_delete i s) j = mem_stamp s j)"
    by (auto simp: mem_view_def mem_stamp_def mem_delete_find fun_eq_iff)
next
  fix s now j assume inv: "mem_inv ttl cap s"
  show "mem_view (mem_sweep now s) j = (if mem_stamp s j < now - ttl then None else mem_view s j)
      \<and> (mem_view (mem_sweep now s) j \<noteq> None \<longrightarrow> mem_stamp (mem_sweep now s) j = mem_stamp s j)"
    by (auto simp: mem_view_def mem_stamp_def mem_sweep_find [OF inv] split: option.split)
next
  fix s used closed made assume "mem_inv ttl cap s" "mem_pools s = (used, closed, made)"
  then show "used \<union> closed = {..<made} \<and> used \<inter> closed = {}" by (auto simp: mem_inv_def mem_pools_def)
qed

subsection \<open>The SQLite store keeps it too\<close>

text \<open>Deleting a row of the table by its id, and what the pools of a store come to.\<close>

definition sq_find :: "string \<Rightarrow> SqliteSessionStore \<Rightarrow> SessionRow option" where
  "sq_find i st = List.find (\<lambda>r. row_id r = i) (sq_rows st)"

definition sq_ids :: "SqliteSessionStore \<Rightarrow> string set" where
  "sq_ids st = row_id ` set (sq_rows st)"

definition sq_view :: "SqliteSessionStore \<Rightarrow> string \<Rightarrow> ConnectRequest option" where
  "sq_view st i = Option.bind (sq_find i st) row_payload"

definition sq_stamp :: "SqliteSessionStore \<Rightarrow> string \<Rightarrow> int" where
  "sq_stamp st i = (case sq_find i st of Some r \<Rightarrow> row_last_used_at r | None \<Rightarrow> 0)"

definition sq_adapters :: "SqliteSessionStore \<Rightarrow> nat list" where
  "sq_adapters st = map (\<lambda>x. lv_adapter (snd x)) (sq_live st)"

definition sq_pools :: "SqliteSessionStore \<Rightarrow> nat set \<times> nat set \<times> nat" where
  "sq_pools st = (set (sq_adapters st), set (sq_closed st), sq_made st)"

text \<open>What a live part has in common with its row.\<close>

definition live_ok :: "SqliteSessionStore \<Rightarrow> string \<Rightarrow> Live \<Rightarrow> bool" where
  "live_ok st i l \<longleftrightarrow> (case sq_find i st of Some r \<Rightarrow> row_payload r = Some (lv_config l) \<and> row_last_used_at r = lv_lastTouch l
     | None \<Rightarrow> False)"

definition row_ok :: "(string \<Rightarrow> string) \<Rightarrow> SessionRow \<Rightarrow> bool" where
  "row_ok hmac r \<longleftrightarrow> (case row_payload r of Some c \<Rightarrow> row_identity r = hmac (identityKey c) | None \<Rightarrow> True)"

definition sq_inv :: "(string \<Rightarrow> string) \<Rightarrow> int \<Rightarrow> int \<Rightarrow> nat \<Rightarrow> SqliteSessionStore \<Rightarrow> bool" where
  "sq_inv hmac ttl lag cap st \<longleftrightarrow> distinct (map row_id (sq_rows st)) \<and> distinct (map fst (sq_live st))
     \<and> (\<forall>(i, l) \<in> set (sq_live st). live_ok st i l) \<and> (\<forall>r \<in> set (sq_rows st). row_ok hmac r)
     \<and> distinct (sq_adapters st) \<and> set (sq_adapters st) \<union> set (sq_closed st) = {..<sq_made st}
     \<and> set (sq_adapters st) \<inter> set (sq_closed st) = {}
     \<and> sq_ttlMs st = ttl \<and> sq_touchIntervalMs st = lag \<and> 0 \<le> lag \<and> sq_maxPerIdentity st = cap"

lemma sq_find_iff: "sq_inv hmac ttl lag cap st \<Longrightarrow> sq_find i st = Some r \<longleftrightarrow> r \<in> set (sq_rows st) \<and> row_id r = i"
  by (simp add: sq_find_def find_distinct sq_inv_def)

lemma sq_find_ids: "sq_find i st = None \<longleftrightarrow> i \<notin> sq_ids st"
  by (simp add: sq_find_def sq_ids_def find_none)

lemma sq_live_row:
  assumes "sq_inv hmac ttl lag cap st" and "map_of (sq_live st) i = Some l"
  shows "\<exists>r. sq_find i st = Some r \<and> row_payload r = Some (lv_config l) \<and> row_last_used_at r = lv_lastTouch l"
proof -
  from assms(2) have "(i, l) \<in> set (sq_live st)" by (rule map_of_SomeD)
  with assms(1) have "live_ok st i l" unfolding sq_inv_def by fast
  then show ?thesis by (simp add: live_ok_def split: option.splits)
qed

lemma filter_absent: "map_of xs i = None \<Longrightarrow> filter (\<lambda>x. fst x \<noteq> i) xs = xs"
  by (induction xs) (auto split: if_splits)

lemma sq_delete_fields:
  "sq_rows (sq_delete i st) = filter (\<lambda>r. row_id r \<noteq> i) (sq_rows st)"
  "sq_live (sq_delete i st) = filter (\<lambda>x. fst x \<noteq> i) (sq_live st)"
  "sq_made (sq_delete i st) = sq_made st" "sq_ttlMs (sq_delete i st) = sq_ttlMs st"
  "sq_touchIntervalMs (sq_delete i st) = sq_touchIntervalMs st" "sq_maxPerIdentity (sq_delete i st) = sq_maxPerIdentity st"
  "sq_closed (sq_delete i st) = sq_closed st @ (case map_of (sq_live st) i of Some l \<Rightarrow> [lv_adapter l] | None \<Rightarrow> [])"
  by (simp_all add: sq_delete_def sq_closeLive_def filter_absent split: option.split)

lemma sq_delete_find: "sq_find j (sq_delete i st) = (if j = i then None else sq_find j st)"
  by (simp add: sq_find_def sq_delete_fields find_filter_other)

lemma adapters_filter:
  assumes "distinct (map fst xs)" and "distinct (map f xs)"
  shows "set (map f (filter (\<lambda>x. fst x \<noteq> i) xs)) = set (map f xs) - (case map_of xs i of Some l \<Rightarrow> {f (i, l)} | None \<Rightarrow> {})"
  using assms
proof (induction xs)
  case (Cons x xs)
  then show ?case
    by (cases "fst x = i") (auto simp: filter_absent map_of_eq_None_iff image_iff split: option.splits dest: map_of_SomeD)
qed simp

lemma sq_delete_inv:
  assumes inv: "sq_inv hmac ttl lag cap st"
  shows "sq_inv hmac ttl lag cap (sq_delete i st)"
proof -
  have d: "distinct (map fst (sq_live st))" "distinct (map (\<lambda>x. lv_adapter (snd x)) (sq_live st))"
    using inv by (simp_all add: sq_inv_def sq_adapters_def)
  have a: "set (sq_adapters (sq_delete i st))
      = set (sq_adapters st) - (case map_of (sq_live st) i of Some l \<Rightarrow> {lv_adapter l} | None \<Rightarrow> {})"
    using adapters_filter [OF d, of i] unfolding sq_adapters_def sq_delete_fields by (simp only: snd_conv)
  have m: "lv_adapter l \<in> set (sq_adapters st)" if "map_of (sq_live st) i = Some l" for l
    using map_of_SomeD [OF that] by (force simp: sq_adapters_def)
  have cover: "set (sq_adapters st) \<union> set (sq_closed st) = {..<sq_made st}" "set (sq_adapters st) \<inter> set (sq_closed st) = {}"
    using inv by (simp_all add: sq_inv_def)
  have "set (sq_adapters (sq_delete i st)) \<union> set (sq_closed (sq_delete i st)) = {..<sq_made st}
      \<and> set (sq_adapters (sq_delete i st)) \<inter> set (sq_closed (sq_delete i st)) = {}"
    unfolding a sq_delete_fields using cover m by (cases "map_of (sq_live st) i") auto
  moreover have "live_ok (sq_delete i st) j l" if "(j, l) \<in> set (sq_live (sq_delete i st))" for j l
    using that inv by (auto simp: sq_delete_fields live_ok_def sq_delete_find sq_inv_def)
  moreover have "distinct (sq_adapters (sq_delete i st))"
    using d(2) by (simp add: sq_adapters_def sq_delete_fields distinct_map_filter)
  ultimately show ?thesis using inv unfolding sq_inv_def
    by (auto simp: sq_delete_fields distinct_map_filter)
qed

lemma sq_delete_all:
  assumes "sq_inv hmac ttl lag cap st"
  shows "sq_inv hmac ttl lag cap (fold (\<lambda>r. sq_delete (row_id r)) xs st)"
    and "sq_find j (fold (\<lambda>r. sq_delete (row_id r)) xs st) = (if j \<in> row_id ` set xs then None else sq_find j st)"
  using assms by (induction xs arbitrary: st) (auto simp: sq_delete_inv sq_delete_find)

abbreviation sq_added :: "(string \<Rightarrow> string) \<Rightarrow> string \<Rightarrow> ConnectRequest \<Rightarrow> int \<Rightarrow> SqliteSessionStore \<Rightarrow> SqliteSessionStore" where
  "sq_added hmac i c now st \<equiv> st\<lparr>sq_made := Suc (sq_made st),
     sq_rows := sq_rows st @ [\<lparr>row_id = i, row_payload = Some c, row_created_at = now, row_last_used_at = now,
                               row_identity = hmac (identityKey c)\<rparr>],
     sq_live := sq_live st @ [(i, \<lparr>lv_config = c, lv_adapter = sq_made st, lv_createdAt = now, lv_lastTouch = now\<rparr>)]\<rparr>"

lemma sq_create_accepted:
  "sq_create hmac i c True keep now st =
    (if keep then sq_added hmac i c now st else sq_enforceLimit hmac c i (sq_added hmac i c now st))"
  by (simp add: sq_create_def Let_def)

lemma sq_added_find:
  "i \<notin> sq_ids st \<Longrightarrow> sq_find j (sq_added hmac i c now st) = (if j = i then
     Some \<lparr>row_id = i, row_payload = Some c, row_created_at = now, row_last_used_at = now, row_identity = hmac (identityKey c)\<rparr>
   else sq_find j st)"
  using sq_find_ids [of i st] by (auto simp: sq_find_def find_append split: option.split)

lemma sq_fresh_adapter:
  "sq_inv hmac ttl lag cap st \<Longrightarrow> sq_made st \<notin> set (sq_adapters st) \<and> sq_made st \<notin> set (sq_closed st)"
  by (auto simp: sq_inv_def)

lemma sq_live_ids: "sq_inv hmac ttl lag cap st \<Longrightarrow> i \<notin> sq_ids st \<Longrightarrow> i \<notin> fst ` set (sq_live st)"
  unfolding sq_inv_def live_ok_def using sq_find_ids [of i st] by force

lemma sq_added_inv:
  assumes inv: "sq_inv hmac ttl lag cap st" and new: "i \<notin> sq_ids st"
  shows "sq_inv hmac ttl lag cap (sq_added hmac i c now st)"
proof -
  let ?st = "sq_added hmac i c now st"
  have "live_ok ?st j l" if "(j, l) \<in> set (sq_live ?st)" for j l
    using that inv sq_live_ids [OF inv new] sq_added_find [OF new, of j c now hmac]
    by (auto simp: sq_inv_def live_ok_def image_iff)
  moreover have "distinct (map row_id (sq_rows ?st))" using inv new by (auto simp: sq_inv_def sq_ids_def)
  moreover have "distinct (map fst (sq_live ?st))" using inv sq_live_ids [OF inv new] by (auto simp: sq_inv_def)
  moreover have "distinct (sq_adapters ?st)" "set (sq_adapters ?st) \<union> set (sq_closed ?st) = {..<sq_made ?st}"
    "set (sq_adapters ?st) \<inter> set (sq_closed ?st) = {}"
    using inv sq_fresh_adapter [OF inv] by (auto simp: sq_inv_def sq_adapters_def lessThan_Suc)
  moreover have "\<forall>r \<in> set (sq_rows ?st). row_ok hmac r" using inv by (auto simp: sq_inv_def row_ok_def)
  ultimately show ?thesis using inv unfolding sq_inv_def by auto
qed

lemma sq_refused_inv:
  "sq_inv hmac ttl lag cap st \<Longrightarrow> sq_inv hmac ttl lag cap (st\<lparr>sq_made := sq_made st + 1, sq_closed := sq_closed st @ [sq_made st]\<rparr>)"
  by (auto simp: sq_inv_def sq_adapters_def live_ok_def sq_find_def lessThan_Suc)

lemma sq_enforce:
  assumes "sq_inv hmac ttl lag cap st"
  shows "sq_inv hmac ttl lag cap (sq_enforceLimit hmac c i st)"
    and "sq_find j (sq_enforceLimit hmac c i st) = (if j \<in> row_id ` set (sq_victims hmac c i st) then None else sq_find j st)"
  unfolding sq_enforceLimit_def using sq_delete_all [OF assms] by blast+

lemma sq_victims_sub:
  "v \<in> set (sq_victims hmac c i st) \<Longrightarrow> v \<in> set (sq_rows st) \<and> row_identity v = hmac (identityKey c) \<and> row_id v \<noteq> i"
  by (auto simp: sq_victims_def Let_def dest: in_set_takeD)

lemma sq_row_account:
  assumes "sq_inv hmac ttl lag cap st" and "sq_find j st = Some r" and "row_payload r = Some c'"
  shows "row_identity r = hmac (identityKey c')"
proof -
  have "r \<in> set (sq_rows st)" using assms(2) sq_find_iff [OF assms(1)] by blast
  then have "row_ok hmac r" using assms(1) by (simp add: sq_inv_def)
  with assms(3) show ?thesis by (simp add: row_ok_def)
qed

text \<open>What the limit leaves of an account: the new session and the most recently used others.\<close>

lemma card_kept:
  assumes "0 < cap"
  shows "card (insert i (f ` set (drop (length xs + 1 - cap) xs))) \<le> cap"
proof -
  let ?A = "f ` set (drop (length xs + 1 - cap) xs)"
  have "card ?A \<le> card (set (drop (length xs + 1 - cap) xs))" by (rule card_image_le) simp
  also have "\<dots> \<le> length (drop (length xs + 1 - cap) xs)" by (rule card_length)
  finally have "card ?A \<le> length xs - (length xs + 1 - cap)" by simp
  moreover have "card (insert i ?A) \<le> Suc (card ?A)" by (rule card_insert_le_m1 [THEN le_trans]) auto
  ultimately show ?thesis using assms by arith
qed

lemma sq_kept:
  assumes inv: "sq_inv hmac ttl lag cap st" and "0 < cap"
  shows "card {j. \<exists>c'. sq_view (sq_enforceLimit hmac c i st) j = Some c' \<and> hmac (identityKey c') = hmac (identityKey c)} \<le> cap"
proof -
  let ?same = "filter (\<lambda>r. row_id r \<noteq> i) (sort_key row_last_used_at (filter (\<lambda>r. row_identity r = hmac (identityKey c)) (sq_rows st)))"
  let ?k = "length ?same + 1 - cap"
  have v: "sq_victims hmac c i st = take ?k ?same" using inv by (simp add: sq_victims_def Let_def sq_inv_def)
  have "{j. \<exists>c'. sq_view (sq_enforceLimit hmac c i st) j = Some c' \<and> hmac (identityKey c') = hmac (identityKey c)}
      \<subseteq> insert i (row_id ` set (drop ?k ?same))"
  proof
    fix j assume "j \<in> {j. \<exists>c'. sq_view (sq_enforceLimit hmac c i st) j = Some c' \<and> hmac (identityKey c') = hmac (identityKey c)}"
    then obtain r c' where r: "sq_find j (sq_enforceLimit hmac c i st) = Some r" "row_payload r = Some c'"
        "hmac (identityKey c') = hmac (identityKey c)"
      by (auto simp: sq_view_def bind_eq_Some_conv)
    then have j: "sq_find j st = Some r" "j \<notin> row_id ` set (sq_victims hmac c i st)"
      using sq_enforce(2) [OF inv, of j c i] by (auto split: if_splits)
    then have m: "r \<in> set (sq_rows st)" "row_id r = j" using sq_find_iff [OF inv] by blast+
    show "j \<in> insert i (row_id ` set (drop ?k ?same))"
    proof (cases "j = i")
      case False
      then have "r \<in> set ?same" using m r(3) sq_row_account [OF inv j(1) r(2)] by simp
      then have "r \<in> set (take ?k ?same) \<or> r \<in> set (drop ?k ?same)" by (rule take_or_drop)
      with j(2) m(2) v show ?thesis by force
    qed simp
  qed
  moreover have "card (insert i (row_id ` set (drop ?k ?same))) \<le> cap" by (rule card_kept [OF assms(2)])
  ultimately show ?thesis by (meson List.finite_set card_mono finite_imageI finite_insert le_trans)
qed

lemma sorted_filter_int: "sorted (map f xs) \<Longrightarrow> sorted (map f (filter P xs))" for f :: "'a \<Rightarrow> int"
  by (induction xs) auto

lemma sq_oldest:
  assumes inv: "sq_inv hmac ttl lag cap st" and "sq_find j st = Some a" and "sq_find j (sq_enforceLimit hmac c i st) = None"
    and "sq_find k st = Some b" and "row_identity b = hmac (identityKey c)" and "k \<noteq> i"
    and "sq_find k (sq_enforceLimit hmac c i st) \<noteq> None"
  shows "row_last_used_at a \<le> row_last_used_at b"
proof -
  let ?same = "filter (\<lambda>r. row_id r \<noteq> i) (sort_key row_last_used_at (filter (\<lambda>r. row_identity r = hmac (identityKey c)) (sq_rows st)))"
  let ?n = "length ?same + 1 - sq_maxPerIdentity st"
  have v: "sq_victims hmac c i st = take ?n ?same" by (simp add: sq_victims_def Let_def)
  have jv: "j \<in> row_id ` set (sq_victims hmac c i st)" and kv: "k \<notin> row_id ` set (sq_victims hmac c i st)"
    using assms(2,3,7) sq_enforce(2) [OF inv, of _ c i] by (auto split: if_splits)
  have "a \<in> set (take ?n ?same)"
  proof -
    from jv obtain v' where v': "v' \<in> set (sq_victims hmac c i st)" "row_id v' = j" by blast
    then have "sq_find j st = Some v'" using sq_victims_sub sq_find_iff [OF inv] by blast
    with assms(2) v' v show ?thesis by simp
  qed
  moreover have "b \<in> set (drop ?n ?same)"
  proof -
    have "b \<in> set ?same" using assms(4-6) sq_find_iff [OF inv] by auto
    then have "b \<in> set (take ?n ?same) \<or> b \<in> set (drop ?n ?same)" by (rule take_or_drop)
    moreover have "row_id b = k" using assms(4) sq_find_iff [OF inv] by blast
    ultimately show ?thesis using kv v by auto
  qed
  ultimately show ?thesis by (rule take_drop_sorted [rotated]) (simp add: sorted_filter_int)
qed

lemma sq_sweep_find:
  assumes "sq_inv hmac ttl lag cap st"
  shows "sq_find j (sq_sweep now st) = (case sq_find j st of
      Some r \<Rightarrow> if row_last_used_at r < now - ttl then None else Some r | None \<Rightarrow> None)"
proof -
  let ?old = "filter (\<lambda>r. row_last_used_at r < now - sq_ttlMs st) (sq_rows st)"
  have t: "sq_ttlMs st = ttl" using assms by (simp add: sq_inv_def)
  have "j \<in> row_id ` set ?old \<longleftrightarrow> (\<exists>r. sq_find j st = Some r \<and> row_last_used_at r < now - ttl)"
    using sq_find_iff [OF assms, of j] t by auto
  then show ?thesis
    using sq_delete_all(2) [OF assms, of j ?old] unfolding sq_sweep_def by (auto split: option.split)
qed

text \<open>Reviving and touching a session.\<close>

lemma sq_revive_ok:
  assumes inv: "sq_inv hmac ttl lag cap st" and row: "sq_find i st = Some r" and c: "row_payload r = Some c"
  obtains l st' where "sq_revive r st = Some (l, st')" and "lv_config l = c" and "lv_lastTouch l = row_last_used_at r"
    and "sq_inv hmac ttl lag cap st'" and "\<And>j. sq_find j st' = sq_find j st" and "map_of (sq_live st') i = Some l"
proof (cases "map_of (sq_live st) i")
  case (Some l)
  have "row_id r = i" using row sq_find_iff [OF inv] by blast
  with Some have "sq_revive r st = Some (l, st)" by (simp add: sq_revive_def)
  with that [OF this] sq_live_row [OF inv Some] row c inv Some show thesis by simp
next
  case None
  define l where "l = \<lparr>lv_config = c, lv_adapter = sq_made st, lv_createdAt = row_created_at r, lv_lastTouch = row_last_used_at r\<rparr>"
  let ?st = "st\<lparr>sq_made := sq_made st + 1, sq_live := sq_live st @ [(i, l)]\<rparr>"
  have id: "row_id r = i" using row sq_find_iff [OF inv] by blast
  have f: "sq_find j ?st = sq_find j st" for j by (simp add: sq_find_def)
  have lv: "live_ok ?st j x" if "(j, x) \<in> set (sq_live ?st)" for j x
  proof (cases "(j, x) = (i, l)")
    case True
    then show ?thesis using row c f [of i] by (simp add: live_ok_def l_def)
  next
    case False
    with that have "(j, x) \<in> set (sq_live st)" by auto
    with inv have "live_ok st j x" by (auto simp: sq_inv_def)
    then show ?thesis unfolding live_ok_def f .
  qed
  have dl: "distinct (map fst (sq_live ?st))" using inv None by (auto simp: sq_inv_def map_of_eq_None_iff)
  have "distinct (sq_adapters ?st)" "set (sq_adapters ?st) \<union> set (sq_closed ?st) = {..<sq_made ?st}"
    "set (sq_adapters ?st) \<inter> set (sq_closed ?st) = {}"
    using inv sq_fresh_adapter [OF inv] by (auto simp: sq_inv_def sq_adapters_def lessThan_Suc l_def)
  then have "sq_inv hmac ttl lag cap ?st" using inv lv dl unfolding sq_inv_def by auto
  moreover have "sq_revive r st = Some (l, ?st)" using None c id by (simp add: sq_revive_def l_def Let_def)
  moreover have "map_of (sq_live ?st) i = Some l" using None by (simp add: map_add_Some_iff)
  ultimately show thesis using that [of l ?st] f by (simp add: l_def)
qed

lemma sq_revive_none:
  assumes inv: "sq_inv hmac ttl lag cap st" and row: "sq_find i st = Some r" and "row_payload r = None"
  shows "sq_revive r st = None"
proof -
  have "row_id r = i" using row sq_find_iff [OF inv] by blast
  moreover have "map_of (sq_live st) i = None"
    using sq_live_row [OF inv, of i] row assms(3) by (cases "map_of (sq_live st) i") auto
  ultimately show ?thesis using assms(3) by (simp add: sq_revive_def)
qed

lemma sq_touch_find:
  "sq_find j (sq_touch i l now st) =
    (if sq_touchIntervalMs st \<le> now - lv_lastTouch l \<and> j = i then map_option (\<lambda>r. r\<lparr>row_last_used_at := now\<rparr>) (sq_find j st)
     else sq_find j st)"
  by (auto simp: sq_touch_def sq_find_def find_map_upd option.map_ident)

lemma sq_touch_inv:
  assumes inv: "sq_inv hmac ttl lag cap st"
  shows "sq_inv hmac ttl lag cap (sq_touch i l now st)"
proof (cases "sq_touchIntervalMs st \<le> now - lv_lastTouch l")
  case True
  define R where "R = map (\<lambda>r. if row_id r = i then r\<lparr>row_last_used_at := now\<rparr> else r) (sq_rows st)"
  define L where "L = map (\<lambda>x. if fst x = i then (i, (snd x)\<lparr>lv_lastTouch := now\<rparr>) else x) (sq_live st)"
  let ?st = "st\<lparr>sq_rows := R, sq_live := L\<rparr>"
  have e: "sq_touch i l now st = ?st" using True by (simp add: sq_touch_def R_def L_def)
  have m: "map row_id R = map row_id (sq_rows st)" "map fst L = map fst (sq_live st)"
    "map (\<lambda>x. lv_adapter (snd x)) L = map (\<lambda>x. lv_adapter (snd x)) (sq_live st)"
    by (auto simp: R_def L_def)
  have "live_ok ?st j x" if "(j, x) \<in> set L" for j x
  proof -
    from that obtain y where y: "(j, y) \<in> set (sq_live st)" "x = (if j = i then y\<lparr>lv_lastTouch := now\<rparr> else y)"
      by (auto simp: L_def split: if_splits)
    with inv have "live_ok st j y" by (auto simp: sq_inv_def)
    then show ?thesis using y(2) True sq_touch_find [of j i l now st] unfolding e live_ok_def
      by (auto split: option.splits)
  qed
  moreover have "row_ok hmac r" if "r \<in> set R" for r
    using that inv by (auto simp: R_def sq_inv_def row_ok_def split: option.splits)
  ultimately show ?thesis using inv m unfolding e sq_inv_def sq_adapters_def by auto
qed (use inv in \<open>simp add: sq_touch_def\<close>)

text \<open>The three ways \<open>get\<close> goes.\<close>

lemma sq_get_live:
  assumes inv: "sq_inv hmac ttl lag cap st" and row: "sq_find i st = Some r" and c: "row_payload r = Some c"
    and fresh: "now - row_last_used_at r \<le> ttl"
  shows "fst (sq_get i now st) = Some c" and "sq_inv hmac ttl lag cap (snd (sq_get i now st))"
    and "sq_find j (snd (sq_get i now st)) =
      (if j = i \<and> lag \<le> now - row_last_used_at r then Some (r\<lparr>row_last_used_at := now\<rparr>) else sq_find j st)"
proof -
  obtain l st' where l: "sq_revive r st = Some (l, st')" "lv_config l = c" "lv_lastTouch l = row_last_used_at r"
      "sq_inv hmac ttl lag cap st'" "\<And>j. sq_find j st' = sq_find j st"
    using sq_revive_ok [OF inv row c] by metis
  have "sq_ttlMs st = ttl" "sq_touchIntervalMs st' = lag" using inv l(4) by (simp_all add: sq_inv_def)
  then have g: "sq_get i now st = (Some c, sq_touch i l now st')"
    using row fresh l(1,2) by (simp add: sq_get_def sq_find_def)
  show "fst (sq_get i now st) = Some c" by (simp add: g)
  show "sq_inv hmac ttl lag cap (snd (sq_get i now st))" unfolding g snd_conv by (rule sq_touch_inv [OF l(4)])
  show "sq_find j (snd (sq_get i now st)) =
      (if j = i \<and> lag \<le> now - row_last_used_at r then Some (r\<lparr>row_last_used_at := now\<rparr>) else sq_find j st)"
    using l(3,5) row \<open>sq_touchIntervalMs st' = lag\<close> by (auto simp: g sq_touch_find)
qed

lemma sq_get_gone:
  assumes inv: "sq_inv hmac ttl lag cap st" and row: "sq_find i st = Some r"
    and "ttl < now - row_last_used_at r \<or> row_payload r = None"
  shows "sq_get i now st = (None, sq_delete i st)"
proof -
  have "sq_ttlMs st = ttl" using inv by (simp add: sq_inv_def)
  then show ?thesis
    using row assms(3) sq_revive_none [OF inv row] by (auto simp: sq_get_def sq_find_def)
qed

lemma sq_get_inv:
  assumes inv: "sq_inv hmac ttl lag cap st"
  shows "sq_inv hmac ttl lag cap (snd (sq_get i now st))"
proof (cases "sq_find i st")
  case None
  then show ?thesis using inv by (simp add: sq_get_def sq_find_def)
next
  case (Some r)
  show ?thesis
  proof (cases "ttl < now - row_last_used_at r \<or> row_payload r = None")
    case True
    then show ?thesis using sq_get_gone [OF inv Some True] sq_delete_inv [OF inv] by simp
  next
    case False
    then show ?thesis using sq_get_live(2) [OF inv Some] by auto
  qed
qed

interpretation sq: session_store "sq_create hmac" sq_get sq_delete sq_sweep sq_ids sq_view sq_stamp
  "\<lambda>c. hmac (identityKey c)" sq_pools ttl lag cap "sq_inv hmac ttl lag cap" for hmac ttl lag cap
proof
  fix s i c accepted keep now assume inv: "sq_inv hmac ttl lag cap s" and new: "i \<notin> sq_ids s"
  show "sq_inv hmac ttl lag cap (sq_create hmac i c accepted keep now s)"
  proof (cases accepted)
    case True
    with sq_enforce(1) [OF sq_added_inv [OF inv new]] sq_added_inv [OF inv new] show ?thesis
      by (simp add: sq_create_accepted)
  next
    case False
    with sq_refused_inv [OF inv] show ?thesis by (simp add: sq_create_def Let_def)
  qed
next
  fix s i now assume "sq_inv hmac ttl lag cap s"
  then show "sq_inv hmac ttl lag cap (snd (sq_get i now s))" by (rule sq_get_inv)
next
  fix s i assume "sq_inv hmac ttl lag cap s"
  then show "sq_inv hmac ttl lag cap (sq_delete i s)" by (rule sq_delete_inv)
next
  fix s now assume "sq_inv hmac ttl lag cap s"
  then show "sq_inv hmac ttl lag cap (sq_sweep now s)" unfolding sq_sweep_def by (rule sq_delete_all(1))
next
  fix s i assume "sq_view s i \<noteq> None"
  then show "i \<in> sq_ids s" using sq_find_ids [of i s] by (auto simp: sq_view_def)
next
  fix s show "finite (sq_ids s)" by (simp add: sq_ids_def)
next
  fix s i c keep now
  show "sq_view (sq_create hmac i c False keep now s) = sq_view s \<and> sq_stamp (sq_create hmac i c False keep now s) = sq_stamp s"
    by (simp add: sq_create_def sq_view_def sq_stamp_def sq_find_def Let_def fun_eq_iff)
next
  fix s i c keep now assume inv: "sq_inv hmac ttl lag cap s" and new: "i \<notin> sq_ids s"
  let ?st = "sq_added hmac i c now s"
  note inv' = sq_added_inv [OF inv new, of c now]
  note f = sq_added_find [OF new, of _ c now hmac]
  have g: "sq_find j (sq_create hmac i c True keep now s) =
      (if \<not> keep \<and> j \<in> row_id ` set (sq_victims hmac c i ?st) then None else sq_find j ?st)" for j
    using sq_enforce(2) [OF inv', of j c i] by (simp add: sq_create_accepted)
  have iv: "i \<notin> row_id ` set (sq_victims hmac c i ?st)" using sq_victims_sub by blast
  show "sq_view (sq_create hmac i c True keep now s) i = Some c \<and> sq_stamp (sq_create hmac i c True keep now s) i = now"
    using f [of i] g [of i] iv by (simp add: sq_view_def sq_stamp_def)
  fix j s'
  show "(sq_view s' j = sq_view s j \<or> \<not> keep \<and> sq_view s' j = None \<and>
          (\<exists>c'. sq_view s j = Some c' \<and> hmac (identityKey c') = hmac (identityKey c)))
       \<and> (sq_view s' j \<noteq> None \<longrightarrow> sq_stamp s' j = sq_stamp s j)"
    if ji: "j \<noteq> i" and s': "s' = sq_create hmac i c True keep now s"
  proof (cases "\<not> keep \<and> j \<in> row_id ` set (sq_victims hmac c i ?st)")
    case True
    then obtain v where v: "v \<in> set (sq_victims hmac c i ?st)" "row_id v = j" by blast
    then have "sq_find j ?st = Some v" using sq_victims_sub sq_find_iff [OF inv'] by blast
    with f [of j] ji have vj: "sq_find j s = Some v" by simp
    have vi: "row_identity v = hmac (identityKey c)" using sq_victims_sub [OF v(1)] by simp
    show ?thesis
    proof (cases "row_payload v")
      case None
      then show ?thesis using vj g [of j] True by (simp add: s' sq_view_def)
    next
      case (Some d)
      with vj vi sq_row_account [OF inv vj Some] g [of j] True show ?thesis by (simp add: s' sq_view_def)
    qed
  next
    case False
    with f [of j] g [of j] ji have "sq_find j s' = sq_find j s" by (simp add: s')
    then show ?thesis by (simp add: sq_view_def sq_stamp_def)
  qed
  fix k c'
  show "sq_stamp s j \<le> sq_stamp s k"
    if s': "s' = sq_create hmac i c True keep now s" and j: "sq_view s j \<noteq> None" "sq_view s' j = None"
      and k: "sq_view s k = Some c'" "hmac (identityKey c') = hmac (identityKey c)" "sq_view s' k \<noteq> None"
  proof -
    have "sq_find j s \<noteq> None" "sq_find k s \<noteq> None" using j(1) k(1) by (auto simp: sq_view_def bind_eq_Some_conv)
    then have ne: "j \<noteq> i" "k \<noteq> i" using sq_find_ids [of _ s] new by auto
    obtain a b where a: "sq_find j s = Some a" "row_payload a \<noteq> None" and b: "sq_find k s = Some b" "row_payload b = Some c'"
      using j(1) k(1) by (auto simp: sq_view_def bind_eq_Some_conv)
    have "\<not> keep \<and> sq_find j (sq_create hmac i c True keep now s) = None"
      using j(2) f [of j] g [of j] ne(1) a by (auto simp: s' sq_view_def split: if_splits)
    then have e: "sq_create hmac i c True keep now s = sq_enforceLimit hmac c i ?st" and jn: "sq_find j (sq_enforceLimit hmac c i ?st) = None"
      by (auto simp: sq_create_accepted)
    have "sq_find j ?st = Some a" "sq_find k ?st = Some b" using f ne a b by simp_all
    moreover have "row_identity b = hmac (identityKey c)" using sq_row_account [OF inv b] k(2) by simp
    moreover have "sq_find k (sq_enforceLimit hmac c i ?st) \<noteq> None" using k(3) by (auto simp: s' e sq_view_def bind_eq_Some_conv)
    ultimately have "row_last_used_at a \<le> row_last_used_at b" using sq_oldest [OF inv' _ jn _ _ ne(2)] by blast
    then show ?thesis using a b by (simp add: sq_stamp_def)
  qed
next
  fix s i c now assume inv: "sq_inv hmac ttl lag cap s" and new: "i \<notin> sq_ids s" and cap: "0 < cap"
  show "card {j. \<exists>c'. sq_view (sq_create hmac i c True False now s) j = Some c' \<and> hmac (identityKey c') = hmac (identityKey c)} \<le> cap"
    using sq_kept [OF sq_added_inv [OF inv new, of c now] cap, of c i] by (simp add: sq_create_accepted)
next
  fix s i c now assume inv: "sq_inv hmac ttl lag cap s" and v: "sq_view s i = Some c" and t: "now - sq_stamp s i \<le> ttl"
  obtain r where r: "sq_find i s = Some r" "row_payload r = Some c" using v by (auto simp: sq_view_def bind_eq_Some_conv)
  have fresh: "now - row_last_used_at r \<le> ttl" and lag: "0 \<le> lag" using t r inv by (simp_all add: sq_stamp_def sq_inv_def)
  note g = sq_get_live [OF inv r fresh]
  show "fst (sq_get i now s) = Some c \<and> sq_view (snd (sq_get i now s)) = sq_view s
      \<and> now - lag \<le> sq_stamp (snd (sq_get i now s)) i \<and> (\<forall>j. j \<noteq> i \<longrightarrow> sq_stamp (snd (sq_get i now s)) j = sq_stamp s j)"
    using g(1,3) r lag by (auto simp: sq_view_def sq_stamp_def fun_eq_iff)
next
  fix s i now assume inv: "sq_inv hmac ttl lag cap s" and o: "sq_view s i = None \<or> ttl < now - sq_stamp s i"
  show "fst (sq_get i now s) = None \<and> sq_view (snd (sq_get i now s)) = (sq_view s)(i := None)
      \<and> (\<forall>j. j \<noteq> i \<longrightarrow> sq_stamp (snd (sq_get i now s)) j = sq_stamp s j)"
  proof (cases "sq_find i s")
    case None
    then show ?thesis by (auto simp: sq_get_def sq_find_def sq_view_def fun_eq_iff)
  next
    case (Some r)
    then have "ttl < now - row_last_used_at r \<or> row_payload r = None" using o by (auto simp: sq_view_def sq_stamp_def)
    then have "sq_get i now s = (None, sq_delete i s)" by (rule sq_get_gone [OF inv Some])
    then show ?thesis by (auto simp: sq_view_def sq_stamp_def sq_delete_find fun_eq_iff)
  qed
next
  fix s i
  show "sq_view (sq_delete i s) = (sq_view s)(i := None) \<and> (\<forall>j. j \<noteq> i \<longrightarrow> sq_stamp (sq_delete i s) j = sq_stamp s j)"
    by (auto simp: sq_view_def sq_stamp_def sq_delete_find fun_eq_iff)
next
  fix s now j assume inv: "sq_inv hmac ttl lag cap s"
  show "sq_view (sq_sweep now s) j = (if sq_stamp s j < now - ttl then None else sq_view s j)
      \<and> (sq_view (sq_sweep now s) j \<noteq> None \<longrightarrow> sq_stamp (sq_sweep now s) j = sq_stamp s j)"
    by (auto simp: sq_view_def sq_stamp_def sq_sweep_find [OF inv] split: option.split)
next
  fix s used closed made assume "sq_inv hmac ttl lag cap s" "sq_pools s = (used, closed, made)"
  then show "used \<union> closed = {..<made} \<and> used \<inter> closed = {}" by (auto simp: sq_inv_def sq_pools_def)
qed

subsection \<open>What the stores promise\<close>

lemma new_memory_inv: "mem_inv ttl cap (new_memory_store (Some ttl) (Some cap))"
  by (simp add: mem_inv_def new_memory_store_def)

lemma new_sqlite_inv: "0 \<le> lag \<Longrightarrow> sq_inv hmac ttl lag cap (new_sqlite_store (Some ttl) (Some lag) (Some cap))"
  by (simp add: sq_inv_def new_sqlite_store_def sq_adapters_def)

abbreviation mem_run :: "SessionOp list \<Rightarrow> MemorySessionStore \<Rightarrow> MemorySessionStore" where
  "mem_run \<equiv> fold (store_op mem_create mem_get mem_delete mem_sweep mem_ids)"

abbreviation sq_run :: "(string \<Rightarrow> string) \<Rightarrow> SessionOp list \<Rightarrow> SqliteSessionStore \<Rightarrow> SqliteSessionStore" where
  "sq_run hmac \<equiv> fold (store_op (sq_create hmac) sq_get sq_delete sq_sweep sq_ids)"

text \<open>While every login applies the limit, no account has more sessions than the limit.\<close>

theorem memory_session_limit:
  assumes "list_all limited ops" and "0 < cap"
  shows "card {i. \<exists>c. mem_view (mem_run ops (new_memory_store (Some ttl) (Some cap))) i = Some c \<and> identityKey c = a} \<le> cap"
  by (rule mem.run_cap [OF new_memory_inv assms]) (simp add: mem_view_def mem_find_def new_memory_store_def)

text \<open>C19: the same for the sessions a SQLite file holds.\<close>

theorem sqlite_session_limit:
  assumes "list_all limited ops" and "0 < cap" and "0 \<le> lag"
  shows "card {i. \<exists>c. sq_view (sq_run hmac ops (new_sqlite_store (Some ttl) (Some lag) (Some cap))) i = Some c
    \<and> hmac (identityKey c) = a} \<le> cap"
  by (rule sq.run_cap [OF new_sqlite_inv [OF assms(3)] assms(1,2)]) (simp add: sq_view_def sq_find_def new_sqlite_store_def)

text \<open>
  A session in use is still there: after it was created in a store that any operations brought about, no
  logins, expiries, sweeps or deletions of other sessions take it away while its pauses stay within the lifetime.
\<close>

lemma memory_session_survives:
  assumes "i \<notin> mem_ids (mem_run before (new_memory_store (Some ttl) (Some cap)))"
    and "in_use identityKey ttl i c now ops"
  shows "mem_view (mem_run ops (mem_create i c True keep now
      (mem_run before (new_memory_store (Some ttl) (Some cap))))) i = Some c"
proof -
  let ?s = "mem_run before (new_memory_store (Some ttl) (Some cap))"
  have inv: "mem_inv ttl cap ?s" by (rule mem.run_inv [OF new_memory_inv])
  note new = mem.mk_new [OF inv assms(1), of c keep now]
  show ?thesis
    by (rule mem.run_survives [OF mem.mk_inv [OF inv assms(1)], where used_at = now]) (use new assms(2) in simp_all)
qed



lemma sq_closeLive_fields:
  "sq_rows (sq_closeLive i st) = sq_rows st" "sq_ttlMs (sq_closeLive i st) = sq_ttlMs st"
  by (simp_all add: sq_closeLive_def split: option.split)

lemma sq_closeAll_fields:
  "sq_rows (sq_closeAll st) = sq_rows st" "sq_ttlMs (sq_closeAll st) = sq_ttlMs st"
proof -
  have "sq_rows (fold (\<lambda>x. sq_closeLive (fst x)) xs s) = sq_rows s \<and> sq_ttlMs (fold (\<lambda>x. sq_closeLive (fst x)) xs s) = sq_ttlMs s"
    for xs :: "(string \<times> Live) list" and s
    by (induction xs arbitrary: s) (simp_all add: sq_closeLive_fields)
  then show "sq_rows (sq_closeAll st) = sq_rows st" "sq_ttlMs (sq_closeAll st) = sq_ttlMs st"
    by (simp_all add: sq_closeAll_def)
qed

lemma sq_restart_get:
  assumes inv: "sq_inv hmac ttl lag cap st"
  shows "fst (sq_get i now (sq_restart st)) = fst (sq_get i now st)"
proof (cases "sq_find i st")
  case None
  then show ?thesis by (simp add: sq_get_def sq_restart_def sq_closeAll_fields sq_find_def)
next
  case (Some r)
  have t: "sq_ttlMs st = ttl" using inv by (simp add: sq_inv_def)
  have "fst (sq_get i now (sq_restart st)) = (if now - row_last_used_at r > ttl then None else row_payload r)"
    using Some t
    by (simp add: sq_get_def sq_restart_def sq_closeAll_fields sq_find_def sq_revive_def Let_def split: option.split)
  moreover have "fst (sq_get i now st) = (if now - row_last_used_at r > ttl then None else row_payload r)"
    using sq_get_gone [OF inv Some, of now] sq_get_live(1) [OF inv Some, of _ now]
    by (cases "row_payload r") auto
  ultimately show ?thesis by (rule trans [OF _ sym])
qed

text \<open>A restart costs nobody their session: afterwards every session is fetched exactly as it would have been.\<close>

lemma sqlite_restart:
  "fst (sq_get i now (sq_restart (sq_run hmac ops (new_sqlite_store ttl None cap))))
     = fst (sq_get i now (sq_run hmac ops (new_sqlite_store ttl None cap)))"
proof -
  have "sq_inv hmac (case ttl of Some t \<Rightarrow> t | None \<Rightarrow> SESSION_TTL_MS) 60000
      (case cap of Some k \<Rightarrow> k | None \<Rightarrow> DEFAULT_MAX_SESSIONS_PER_IDENTITY) (new_sqlite_store ttl None cap)"
    by (simp add: sq_inv_def new_sqlite_store_def sq_adapters_def)
  from sq_restart_get [OF sq.run_inv [OF this]] show ?thesis .
qed


subsection \<open>The contract at work\<close>

definition alice :: "nat \<Rightarrow> ConnectRequest" where
  "alice port = \<lparr>cr_dialect = Mysql, cr_host = ''db'', cr_port = port, cr_user = ''alice'', cr_password = ''x'',
     cr_database = None, cr_collation = None\<rparr>"

definition three_logins :: "SessionOp list" where
  "three_logins = [OpCreate ''a'' (alice 1) True False 0, OpCreate ''b'' (alice 1) True False 10,
     OpGet ''a'' 20, OpCreate ''c'' (alice 1) True False 30]"

lemma memory_session_limit_witness:
  "card {i. \<exists>c. mem_view (mem_run three_logins (new_memory_store (Some 100) (Some 2))) i = Some c
    \<and> identityKey c = identityKey (alice 1)} \<le> 2"
  by (rule memory_session_limit) (simp_all add: three_logins_def limited_def)

lemma sqlite_session_limit_witness:
  "card {i. \<exists>c. sq_view (sq_run rev three_logins (new_sqlite_store (Some 100) (Some 5) (Some 2))) i = Some c
    \<and> rev (identityKey c) = rev (identityKey (alice 1))} \<le> 2"
  by (rule sqlite_session_limit) (simp_all add: three_logins_def limited_def)

definition other_work :: "SessionOp list" where
  "other_work = [OpCreate ''d'' (alice 2) True False 40, OpGet ''z'' 90, OpSweep 120, OpDelete ''a'', OpSweep 200]"

lemma memory_session_survives_witness:
  "mem_view (mem_run other_work (mem_create ''z'' (alice 1) True False 40
      (mem_run three_logins (new_memory_store (Some 120) (Some 2))))) ''z'' = Some (alice 1)"
  by (rule memory_session_survives) (code_simp, code_simp)


end
