(* ===== verification/Ddl_Ops.thy ===== *)
theory Ddl_Ops
  imports Dialects
begin

text \<open>
  The structure changes a client can ask for: \<open>packages/shared/src/schemas/ddl.ts\<close>.

  Each object schema is a record, each enumeration a datatype, and the union of operations the datatype \<open>DdlOp\<close>
  with the source's operations as constructors.  An optional field is an \<open>option\<close>; a field with a default has
  the value parsing gives it.  A TypeScript record keyed by names is an association list.
\<close>

subsection \<open>Columns\<close>

datatype ColumnDefault = DefaultLiteral string | DefaultExpression string

record GeneratedColumn =
  gc_expression :: string
  gc_stored :: bool

record ColumnSpec =
  cs_name :: string
  cs_dataType :: string
  cs_nullable :: bool
  cs_default :: "ColumnDefault option"
  cs_autoIncrement :: bool
  cs_comment :: "string option"
  cs_collation :: "string option"
  cs_onUpdate :: "string option"
  cs_check :: "string option"
  cs_generated :: "GeneratedColumn option"

subsection \<open>Indexes and keys\<close>

datatype IndexKind = KindIndex | KindUnique | KindFulltext | KindSpatial

datatype IndexMethod = Btree | Hash | Gin | Gist | Brin | Spgist

record IndexSpec =
  ix_table :: string
  ix_name :: string
  ix_columns :: "string list"
  ix_unique :: bool
  ix_kind :: "IndexKind option"
  ix_method :: "IndexMethod option"
  ix_lengths :: "(string \<times> nat) list option"
  ix_comment :: "string option"
  ix_online :: "bool option"
  ix_replacesUnusable :: "bool option"

datatype FkAction = Cascade | SetNull | Restrict | NoAction | SetDefault

record ForeignKey =
  fk_name :: string
  fk_columns :: "string list"
  fk_refTable :: string
  fk_refDatabase :: "string option"
  fk_refSchema :: "string option"
  fk_refColumns :: "string list"
  fk_onUpdate :: "FkAction option"
  fk_onDelete :: "FkAction option"

subsection \<open>Stored code\<close>

record Definer =
  df_user :: string
  df_host :: string

datatype SqlSecurity = SecurityDefiner | SecurityInvoker

datatype DataAccess = ContainsSql | NoSql | ReadsSqlData | ModifiesSqlData

datatype RoutineKind = Procedure | Function

datatype ParamMode = ModeIn | ModeOut | ModeInout

record RoutineParam =
  rp_mode :: ParamMode
  rp_name :: string
  rp_type :: string

record Routine =
  rt_kind :: RoutineKind
  rt_name :: string
  rt_params :: "RoutineParam list"
  rt_returns :: "string option"
  rt_body :: string
  rt_language :: string
  rt_deterministic :: bool
  rt_comment :: "string option"
  rt_definer :: "Definer option"
  rt_sqlSecurity :: "SqlSecurity option"
  rt_dataAccess :: "DataAccess option"

record RoutineRef =
  rr_kind :: RoutineKind
  rr_name :: string
  rr_parameters :: "string option"

datatype TriggerTiming = Before | After

datatype TriggerEvent = OnInsert | OnUpdate | OnDelete

record Trigger =
  tg_name :: string
  tg_table :: string
  tg_timing :: TriggerTiming
  tg_event :: TriggerEvent
  tg_body :: string
  tg_definer :: "Definer option"

datatype IntervalUnit = Second | Minute | Hour | Day | Week | Month | Year

datatype EventSchedule =
  ScheduleAt string
| ScheduleEvery nat IntervalUnit "string option" "string option"

record Event =
  ev_name :: string
  ev_schedule :: EventSchedule
  ev_body :: string
  ev_enabled :: bool
  ev_comment :: "string option"
  ev_preserve :: "bool option"
  ev_definer :: "Definer option"

datatype CheckOption = CheckCascaded | CheckLocal

datatype ViewAlgorithm = AlgorithmUndefined | AlgorithmMerge | AlgorithmTemptable

record View =
  vw_name :: string
  vw_select :: string
  vw_orReplace :: bool
  vw_columns :: "string list option"
  vw_checkOption :: "CheckOption option"
  vw_algorithm :: "ViewAlgorithm option"
  vw_definer :: "Definer option"
  vw_sqlSecurity :: "SqlSecurity option"

subsection \<open>Tables and partitions\<close>

datatype PartitionMethod = ByRange | ByList | ByHash | ByKey

record PartitionBy =
  pb_method :: PartitionMethod
  pb_expression :: string

record PartitionSpec =
  ps_name :: string
  ps_bound :: string

datatype PartitionAction = AnalyzePartition | CheckPartition | OptimizePartition | RebuildPartition | RepairPartition

datatype TableKind = KTable | KView | KMaterializedView | KSequence

record CreateTable =
  ct_table :: string
  ct_columns :: "ColumnSpec list"
  ct_primaryKey :: "string list"
  ct_partitionBy :: "PartitionBy option"
  ct_comment :: "string option"
  ct_engine :: "string option"
  ct_collation :: "string option"

record ColumnPosition =
  cp_after :: "string option"
  cp_first :: "bool option"

datatype ColumnKey = KeyPrimary | KeyUnique | KeyIndex

record ColumnChange =
  cc_name :: string
  cc_column :: ColumnSpec
  cc_previous :: "ColumnSpec option"

datatype OptionSwitch = SwitchDefault | Switch0 | Switch1

datatype RowFormat = FormatDefault | FormatDynamic | FormatFixed | FormatCompressed | FormatRedundant | FormatCompact

record TableOptions =
  to_comment :: "string option option"
  to_engine :: "string option"
  to_collation :: "string option"
  to_autoIncrement :: "string option"
  to_rowFormat :: "RowFormat option"
  to_checksum :: "bool option"
  to_packKeys :: "OptionSwitch option"
  to_delayKeyWrite :: "bool option"
  to_transactional :: "bool option"
  to_pageChecksum :: "bool option"
  to_statsPersistent :: "OptionSwitch option"
  to_statsAutoRecalc :: "OptionSwitch option"

datatype Maintenance = Analyze | Optimize | Check | Repair | Vacuum | Checksum | Flush

record CopyTable =
  cy_table :: string
  cy_newName :: string
  cy_withData :: bool
  cy_columns :: "string list option"
  cy_identityColumns :: "string list option"
  cy_serialColumns :: "string list option"
  cy_toDatabase :: "string option"
  cy_toSchema :: "string option"
  cy_structure :: "bool option"
  cy_dropExisting :: "bool option"
  cy_foreignKeys :: "ForeignKey list option"

record CopyDetails =
  cd_columns :: "string list option"
  cd_identityColumns :: "string list option"
  cd_serialColumns :: "string list option"

record CopyTables =
  cts_tables :: "string list"
  cts_toDatabase :: "string option"
  cts_toSchema :: "string option"
  cts_withData :: bool
  cts_details :: "(string \<times> CopyDetails) list"

subsection \<open>Databases\<close>

record CopiedTable =
  cpt_name :: string
  cpt_columns :: "string list"
  cpt_autoIncrement :: "string option"
  cpt_foreignKeys :: "ForeignKey list option"

record CopiedGrant =
  cg_user :: string
  cg_host :: string
  cg_privileges :: "string list"
  cg_grantable :: bool

record CopyDatabase =
  cdb_name :: string
  cdb_newName :: string
  cdb_withData :: bool
  cdb_foreignKeys :: "bool option"
  cdb_autoIncrement :: "bool option"
  cdb_privileges :: "bool option"
  cdb_structure :: "bool option"
  cdb_tables :: "CopiedTable list option"
  cdb_grants :: "CopiedGrant list option"
  cdb_collation :: "string option"

record TypedColumn =
  tc_name :: string
  tc_dataType :: string

record DatabaseCollation =
  dc_name :: string
  dc_collation :: string
  dc_applyToTables :: bool
  dc_tables :: "string list option"
  dc_columns :: "(string \<times> TypedColumn list) list"

record SplitTable =
  sp_table :: string
  sp_newName :: string
  sp_keyColumns :: "string list"
  sp_columns :: "string list"
  sp_dropMoved :: bool

record MoveRepeatingGroup =
  mg_table :: string
  mg_newName :: string
  mg_keyColumns :: "string list"
  mg_columns :: "string list"
  mg_valueColumn :: string
  mg_dropMoved :: bool

record ReplaceInColumn =
  ri_table :: string
  ri_column :: string
  ri_find :: string
  ri_replace :: string
  ri_regex :: "bool option"

subsection \<open>The operations\<close>

datatype (plugins only: code size) DdlOp =
  OpCreateTable CreateTable
| OpPartitionTable string PartitionBy "PartitionSpec list" "nat option"
| OpAddPartition string PartitionSpec
| OpDropPartition string string
| OpTruncatePartition string string
| OpDetachPartition string string
| OpRemovePartitioning string
| OpMaintainPartition string string PartitionAction
| OpAddColumn string ColumnSpec ColumnPosition "ColumnKey option"
| OpModifyColumn string ColumnChange ColumnPosition
| OpDropColumn string string
| OpDropColumns string "string list"
| OpModifyColumns string "ColumnChange list"
| OpReorderColumns string "ColumnSpec list"
| OpSetPrimaryKey string "string list" "string option"
| OpAddIndex IndexSpec
| OpDropIndex string string "bool option"
| OpRenameIndex string string string
| OpAlterIndex string string IndexSpec
| OpAddForeignKey string ForeignKey
| OpDropForeignKey string string
| OpDropTable string TableKind
| OpTruncateTable string
| OpRenameTable string string
| OpMoveTable string string
| OpReplaceInColumn ReplaceInColumn
| OpSetDatabaseCollation DatabaseCollation
| OpCreateDatabase string "string option"
| OpDropDatabase string
| OpSetServerVariable string "string option"
| OpDropDatabases "string list"
| OpCreateSchema string
| OpRenameDatabase string string "string list option" "string option"
| OpCopyDatabase CopyDatabase
| OpCopyTable CopyTable
| OpSplitTable SplitTable
| OpMoveRepeatingGroup MoveRepeatingGroup
| OpSetTableOptions string TableOptions
| OpConvertCollation string string "TypedColumn list option"
| OpOrderTable string "string option" "bool option" "string option"
| OpMaintainTable string Maintenance
| OpDropTables "string list"
| OpDropObjects "(string \<times> TableKind) list"
| OpTruncateTables "string list"
| OpMaintainTables "string list" Maintenance
| OpRenameTables "(string \<times> string) list"
| OpCopyTables CopyTables
| OpCreateView View
| OpCreateRoutine Routine
| OpReplaceRoutine Routine RoutineRef
| OpDropRoutine RoutineRef
| OpAlterRoutine RoutineRef "SqlSecurity option" "DataAccess option" "string option"
| OpDropTrigger string string
| OpCreateTrigger Trigger
| OpReplaceTrigger Trigger string string
| OpCreateEvent Event
| OpReplaceEvent Event string
| OpEnableEvent string
| OpDisableEvent string
| OpDropEvent string

end
