(* ===== verification/Ddl_Common.thy ===== *)
theory Ddl_Common
  imports Ddl_Ops Quoting
begin

text \<open>
  What both builders of structure changes share: \<open>packages/adapter/src/sql/ddl-common.ts\<close>, and
  \<open>hasStatementBreak\<close> of \<open>packages/shared/src/schemas/ddl.ts\<close>.

  A template literal is a list of parts: text as written, a name \<open>quoteIdent\<close> quotes, a table \<open>quoteTable\<close>
  qualifies and quotes, a value the dialect's literal function quotes.  \<open>sql\<close> puts the parts together, or is the
  error the quoting throws.
\<close>

subsection \<open>Templates\<close>

datatype Part = T string | I string | Q Namespace string | L string

fun part_text :: "Dialect \<Rightarrow> Part \<Rightarrow> (AdapterError, string) result" where
  "part_text d (T s) = Inr s"
| "part_text d (I name) = quoteIdent d name"
| "part_text d (Q ns table) = quoteTable d ns table"
| "part_text d (L v) = Inr (quoteLiteral d v)"

definition sql :: "Dialect \<Rightarrow> Part list \<Rightarrow> (AdapterError, string) result" where
  "sql d parts = rbind (rmap (part_text d) parts) (\<lambda>ss. Inr (concat ss))"

abbreviation stmts :: "Dialect \<Rightarrow> Part list list \<Rightarrow> (AdapterError, string list) result" where
  "stmts d pss \<equiv> rmap (sql d) pss"

fun sep_by :: "string \<Rightarrow> Part list list \<Rightarrow> Part list" where
  "sep_by sep [] = []"
| "sep_by sep [p] = p"
| "sep_by sep (p # q # ps) = p @ T sep # sep_by sep (q # ps)"

definition names :: "string list \<Rightarrow> Part list" where
  "names ns = sep_by '', '' (map (\<lambda>n. [I n]) ns)"

definition tables :: "Namespace \<Rightarrow> string list \<Rightarrow> Part list" where
  "tables ns ts = sep_by '', '' (map (\<lambda>t. [Q ns t]) ts)"

text \<open>An optional flag that is on, and an optional text that is there and not empty.\<close>

definition on :: "bool option \<Rightarrow> bool" where
  "on b \<longleftrightarrow> b = Some True"

definition given :: "string option \<Rightarrow> bool" where
  "given s \<longleftrightarrow> (case s of Some t \<Rightarrow> t \<noteq> [] | None \<Rightarrow> False)"

definition opt_parts :: "string option \<Rightarrow> (string \<Rightarrow> Part list) \<Rightarrow> Part list" where
  "opt_parts s f = (case s of Some t \<Rightarrow> if t = [] then [] else f t | None \<Rightarrow> [])"

abbreviation nl :: string where
  "nl \<equiv> [CHR 0x0A]"

definition unsupported :: "string \<Rightarrow> (AdapterError, 'a) result" where
  "unsupported m = Inl (AdapterError UNSUPPORTED m)"

definition invalid :: "string \<Rightarrow> (AdapterError, 'a) result" where
  "invalid m = Inl (AdapterError VALIDATION m)"

text \<open>The results of several calls, one after another.\<close>

definition rconcat :: "('e, 'a list) result list \<Rightarrow> ('e, 'a list) result" where
  "rconcat rs = rbind (rmap id rs) (\<lambda>xss. Inr (concat xss))"

subsection \<open>A statement break in code\<close>

text \<open>
  The rest after a quoted literal whose opening quote has been read, when it is closed: the longest match of the
  source's expressions, which doubles the quote, and between single quotes takes a backslash with the character
  after it (not a line break).
\<close>

fun close_quoted :: "char \<Rightarrow> bool \<Rightarrow> string \<Rightarrow> string option" where
  "close_quoted q backslash [] = None"
| "close_quoted q backslash [c] = (if c = q then Some [] else None)"
| "close_quoted q backslash (c # d # s) =
     (if c = q then
        (if d = q then (case close_quoted q backslash s of Some r \<Rightarrow> Some r | None \<Rightarrow> Some (d # s)) else Some (d # s))
      else if backslash \<and> c = CHR 0x5C then
        (if d = CHR 0x0A \<or> d = CHR 0x0D then None else close_quoted q backslash s)
      else close_quoted q backslash (d # s))"

lemma close_quoted_shorter: "close_quoted q b s = Some r \<Longrightarrow> length r < length s"
  by (induction q b s arbitrary: r rule: close_quoted.induct) (force split: if_splits option.splits)+

function strip_quoted :: "string \<Rightarrow> string" where
  "strip_quoted [] = []"
| "strip_quoted (c # s) =
     (if c = sq \<or> c = CHR 0x22 \<or> c = CHR 0x60 then
        (case close_quoted c (c = sq) s of Some r \<Rightarrow> strip_quoted r | None \<Rightarrow> c # strip_quoted s)
      else c # strip_quoted s)"
  by pat_completeness auto
termination by (relation "measure length") (auto dest: close_quoted_shorter)

definition hasStatementBreak :: "string \<Rightarrow> bool" where
  "hasStatementBreak code \<longleftrightarrow> CHR '';'' \<in> set (strip_quoted code)"

subsection \<open>Order of drops\<close>

definition DROP_KIND_ORDER :: "TableKind list" where
  "DROP_KIND_ORDER = [KView, KMaterializedView, KTable, KSequence]"

definition dropOrder :: "(string \<times> TableKind) list \<Rightarrow> (string \<times> TableKind) list" where
  "dropOrder objects = concat (map (\<lambda>kind. filter (\<lambda>ob. snd ob = kind) objects) DROP_KIND_ORDER)"

subsection \<open>Foreign keys\<close>

fun fk_action_text :: "FkAction \<Rightarrow> string" where
  "fk_action_text Cascade = ''CASCADE''"
| "fk_action_text SetNull = ''SET NULL''"
| "fk_action_text Restrict = ''RESTRICT''"
| "fk_action_text NoAction = ''NO ACTION''"
| "fk_action_text SetDefault = ''SET DEFAULT''"

definition or_else :: "'a option \<Rightarrow> 'a option \<Rightarrow> 'a option" where
  "or_else a b = (case a of Some x \<Rightarrow> Some x | None \<Rightarrow> b)"

definition schema_given :: "string option \<Rightarrow> string option" where
  "schema_given s = (if given s then s else None)"

definition ref_namespace :: "Dialect \<Rightarrow> Namespace \<Rightarrow> ForeignKey \<Rightarrow> Namespace" where
  "ref_namespace d ns op =
    (if d = Mysql
     then \<lparr>ns_database = (case fk_refDatabase op of Some db \<Rightarrow> db | None \<Rightarrow> ns_database ns), ns_schema = None\<rparr>
     else \<lparr>ns_database = ns_database ns, ns_schema = schema_given (or_else (fk_refSchema op) (ns_schema ns))\<rparr>)"

definition addForeignKeySql :: "Dialect \<Rightarrow> Namespace \<Rightarrow> string \<Rightarrow> ForeignKey \<Rightarrow> (AdapterError, string) result" where
  "addForeignKeySql d ns table op =
    (if d = Postgres \<and> given (fk_refDatabase op) \<and> fk_refDatabase op \<noteq> Some (ns_database ns)
     then unsupported ''PostgreSQL cannot reference a table in another database''
     else sql d ([T ''ALTER TABLE '', Q ns table, T '' ADD CONSTRAINT '', I (fk_name op), T '' FOREIGN KEY (''] @ names (fk_columns op)
       @ [T '') REFERENCES '', Q (ref_namespace d ns op) (fk_refTable op), T '' (''] @ names (fk_refColumns op) @ [T '')'']
       @ (case fk_onUpdate op of Some a \<Rightarrow> [T ('' ON UPDATE '' @ fk_action_text a)] | None \<Rightarrow> [])
       @ (case fk_onDelete op of Some a \<Rightarrow> [T ('' ON DELETE '' @ fk_action_text a)] | None \<Rightarrow> [])))"

subsection \<open>Indexes\<close>

definition ONLINE_MYSQL :: string where
  "ONLINE_MYSQL = '' ALGORITHM=INPLACE LOCK=NONE''"

definition kindOf :: "IndexSpec \<Rightarrow> IndexKind" where
  "kindOf i = (case ix_kind i of Some k \<Rightarrow> k | None \<Rightarrow> if ix_unique i then KindUnique else KindIndex)"

fun index_kind_text :: "IndexKind \<Rightarrow> string" where
  "index_kind_text KindIndex = ''index''"
| "index_kind_text KindUnique = ''unique''"
| "index_kind_text KindFulltext = ''fulltext''"
| "index_kind_text KindSpatial = ''spatial''"

fun index_method_text :: "IndexMethod \<Rightarrow> string" where
  "index_method_text Btree = ''btree''"
| "index_method_text Hash = ''hash''"
| "index_method_text Gin = ''gin''"
| "index_method_text Gist = ''gist''"
| "index_method_text Brin = ''brin''"
| "index_method_text Spgist = ''spgist''"

text \<open>The keyword, the method and the column list; the columns are named parts, quoted where they are used.\<close>

definition prefix_length :: "IndexSpec \<Rightarrow> string \<Rightarrow> Part list" where
  "prefix_length i c = (case ix_lengths i of None \<Rightarrow> []
     | Some m \<Rightarrow> (case map_of m c of Some n \<Rightarrow> if n = 0 then [] else [T (''('' @ show_nat n @ '')'')] | None \<Rightarrow> []))"

definition indexParts :: "Dialect \<Rightarrow> IndexSpec \<Rightarrow> (AdapterError, string \<times> string \<times> Part list) result" where
  "indexParts d i =
    (let kind = kindOf i; special = (kind = KindFulltext \<or> kind = KindSpatial) in
     if d = Postgres then
       (if special then unsupported ''PostgreSQL has no FULLTEXT / SPATIAL index: use a GIN or GiST index''
        else if ix_lengths i \<noteq> None \<and> ix_lengths i \<noteq> Some [] then
          unsupported ''PostgreSQL has no prefix length on an index column''
        else Inr (if kind = KindUnique then ''UNIQUE '' else [],
          (case ix_method i of Some m \<Rightarrow> '' USING '' @ index_method_text m | None \<Rightarrow> []),
          names (ix_columns i)))
     else if on (ix_online i) \<and> special then
       unsupported ''MySQL cannot build a FULLTEXT or SPATIAL index without stopping writes''
     else if ix_method i \<noteq> None \<and> ix_method i \<noteq> Some Btree \<and> ix_method i \<noteq> Some Hash then
       unsupported (''MySQL has no '' @ index_method_text (the (ix_method i)) @ '' index'')
     else if ix_method i \<noteq> None \<and> special then unsupported ''A FULLTEXT or SPATIAL index takes no method''
     else Inr (if kind = KindIndex then [] else to_upper (index_kind_text kind) @ '' '',
       (case ix_method i of Some m \<Rightarrow> '' USING '' @ to_upper (index_method_text m) | None \<Rightarrow> []),
       sep_by '', '' (map (\<lambda>c. I c # prefix_length i c) (ix_columns i))))"

text \<open>MySQL keeps an index's comment in the index itself.\<close>

definition mysqlIndexComment :: "IndexSpec \<Rightarrow> Part list" where
  "mysqlIndexComment i = opt_parts (ix_comment i) (\<lambda>c. [T '' COMMENT '', L c])"

definition createIndexSql :: "Dialect \<Rightarrow> Namespace \<Rightarrow> IndexSpec \<Rightarrow> (AdapterError, string) result" where
  "createIndexSql d ns op = rbind (indexParts d op) (\<lambda>(keyword, method, columns).
     sql d (if d = Postgres
       then [T (''CREATE '' @ keyword @ ''INDEX '' @ (if on (ix_online op) then ''CONCURRENTLY '' else [])), I (ix_name op),
             T '' ON '', Q ns (ix_table op), T (method @ '' ('')] @ columns @ [T '')'']
       else [T (''CREATE '' @ keyword @ ''INDEX ''), I (ix_name op), T '' ON '', Q ns (ix_table op), T '' (''] @ columns
             @ [T ('')'' @ method)] @ mysqlIndexComment op @ (if on (ix_online op) then [T ONLINE_MYSQL] else [])))"

text \<open>PostgreSQL keeps it apart: a statement after the index is made.\<close>

definition pgIndexCommentSql :: "Namespace \<Rightarrow> IndexSpec \<Rightarrow> (AdapterError, string list) result" where
  "pgIndexCommentSql ns i = (if given (ix_comment i)
     then stmts Postgres [[T ''COMMENT ON INDEX '', I (case ns_schema ns of Some s \<Rightarrow> s | None \<Rightarrow> ''public''), T ''.'', I (ix_name i),
       T '' IS '', L (the (ix_comment i))]]
     else Inr [])"

definition plain_index :: "string \<Rightarrow> string \<Rightarrow> string list \<Rightarrow> bool \<Rightarrow> IndexSpec" where
  "plain_index table name columns unique = \<lparr>ix_table = table, ix_name = name, ix_columns = columns, ix_unique = unique,
     ix_kind = None, ix_method = None, ix_lengths = None, ix_comment = None, ix_online = None, ix_replacesUnusable = None\<rparr>"

definition columnKeySql ::
  "Dialect \<Rightarrow> Namespace \<Rightarrow> string \<Rightarrow> ColumnSpec \<Rightarrow> ColumnKey option \<Rightarrow> (AdapterError, string list) result" where
  "columnKeySql d ns table column key = (case key of
     None \<Rightarrow> Inr []
   | Some k \<Rightarrow>
       if k = KeyPrimary
       then stmts d [[T ''ALTER TABLE '', Q ns table, T '' ADD PRIMARY KEY ('', I (cs_name column), T '')'']]
       else rbind (createIndexSql d ns (plain_index table
           (table @ ''_'' @ cs_name column @ ''_'' @ (if k = KeyUnique then ''key'' else ''idx''))
           [cs_name column] (k = KeyUnique))) (\<lambda>s. Inr [s]))"

definition mysqlAddIndexClause :: "IndexSpec \<Rightarrow> bool \<Rightarrow> (AdapterError, Part list) result" where
  "mysqlAddIndexClause i primary = rbind (indexParts Mysql i) (\<lambda>(keyword, method, columns).
     Inr (if primary then [T ''ADD PRIMARY KEY (''] @ columns @ [T '')'']
       else [T (''ADD '' @ keyword @ ''INDEX ''), I (ix_name i), T '' (''] @ columns @ [T ('')'' @ method)] @ mysqlIndexComment i))"

subsection \<open>Normalization\<close>

definition linkName :: "string \<Rightarrow> string \<Rightarrow> string" where
  "linkName table other = take 60 (''fk_'' @ table @ ''_'' @ other)"

definition dropColumnsSql :: "Namespace \<Rightarrow> string \<Rightarrow> string list \<Rightarrow> Part list" where
  "dropColumnsSql ns table columns =
    [T ''ALTER TABLE '', Q ns table, T '' ''] @ sep_by '', '' (map (\<lambda>c. [T ''DROP COLUMN '', I c]) columns)"

definition link :: "string \<Rightarrow> string list \<Rightarrow> string \<Rightarrow> ForeignKey" where
  "link name columns refTable = \<lparr>fk_name = name, fk_columns = columns, fk_refTable = refTable, fk_refDatabase = None,
     fk_refSchema = None, fk_refColumns = columns, fk_onUpdate = None, fk_onDelete = None\<rparr>"

definition splitTableSql :: "Dialect \<Rightarrow> Namespace \<Rightarrow> SplitTable \<Rightarrow> (AdapterError, string list) result" where
  "splitTableSql d ns op =
    (let from = Q ns (sp_table op); into = Q ns (sp_newName op) in
     rconcat [
       stmts d [
         [T ''CREATE TABLE '', into, T '' AS SELECT DISTINCT ''] @ names (sp_keyColumns op @ sp_columns op)
           @ [T '' FROM '', from, T '' WHERE ''] @ sep_by '' AND '' (map (\<lambda>c. [I c, T '' IS NOT NULL'']) (sp_keyColumns op)),
         [T ''ALTER TABLE '', into, T '' ADD PRIMARY KEY (''] @ names (sp_keyColumns op) @ [T '')'']],
       rbind (addForeignKeySql d ns (sp_table op) (link (linkName (sp_table op) (sp_newName op)) (sp_keyColumns op) (sp_newName op)))
         (\<lambda>s. Inr [s]),
       (if sp_dropMoved op then stmts d [dropColumnsSql ns (sp_table op) (sp_columns op)] else Inr [])])"

definition moveRepeatingGroupSql :: "Dialect \<Rightarrow> Namespace \<Rightarrow> MoveRepeatingGroup \<Rightarrow> (AdapterError, string list) result" where
  "moveRepeatingGroupSql d ns op =
    (let from = Q ns (mg_table op); into = Q ns (mg_newName op); keys = names (mg_keyColumns op);
         rows = map (\<lambda>c. [T ''SELECT ''] @ keys @ [T '', '', I c, T '' AS '', I (mg_valueColumn op), T '' FROM '', from,
                          T '' WHERE '', I c, T '' IS NOT NULL'']) (mg_columns op) in
     rconcat [
       stmts d [[T ''CREATE TABLE '', into, T '' AS ''] @ sep_by '' UNION ALL '' rows],
       (if d = Postgres
        then stmts d [[T ''CREATE INDEX '', I (take 60 (mg_newName op @ ''_'' @ join ''_'' (mg_keyColumns op) @ ''_idx'')),
          T '' ON '', into, T '' (''] @ keys @ [T '')'']]
        else Inr []),
       rbind (addForeignKeySql d ns (mg_newName op) (link (linkName (mg_newName op) (mg_table op)) (mg_keyColumns op) (mg_table op)))
         (\<lambda>s. Inr [s]),
       (if mg_dropMoved op then stmts d [dropColumnsSql ns (mg_table op) (mg_columns op)] else Inr [])])"

subsection \<open>The words of the schema, and stored code\<close>

fun param_mode_text :: "ParamMode \<Rightarrow> string" where
  "param_mode_text ModeIn = ''IN''"
| "param_mode_text ModeOut = ''OUT''"
| "param_mode_text ModeInout = ''INOUT''"

fun security_text :: "SqlSecurity \<Rightarrow> string" where
  "security_text SecurityDefiner = ''DEFINER''"
| "security_text SecurityInvoker = ''INVOKER''"

fun routine_keyword :: "RoutineKind \<Rightarrow> string" where
  "routine_keyword Function = ''FUNCTION''"
| "routine_keyword Procedure = ''PROCEDURE''"

fun timing_text :: "TriggerTiming \<Rightarrow> string" where
  "timing_text Before = ''BEFORE''"
| "timing_text After = ''AFTER''"

fun trigger_event_text :: "TriggerEvent \<Rightarrow> string" where
  "trigger_event_text OnInsert = ''INSERT''"
| "trigger_event_text OnUpdate = ''UPDATE''"
| "trigger_event_text OnDelete = ''DELETE''"

text \<open>Code without a trailing semicolon or space: \<open>.replace(/[\s;]+$/, '')\<close> after \<open>trim\<close>.\<close>

definition bare :: "string \<Rightarrow> string" where
  "bare code = rev (dropWhile (\<lambda>c. js_space c \<or> c = CHR '';'') (rev (trim code)))"

fun check_option_text :: "CheckOption \<Rightarrow> string" where
  "check_option_text CheckCascaded = ''CASCADED''"
| "check_option_text CheckLocal = ''LOCAL''"

definition view_tail :: "View \<Rightarrow> Part list" where
  "view_tail op =
    (case vw_columns op of Some (c # cs) \<Rightarrow> [T '' (''] @ names (c # cs) @ [T '')''] | _ \<Rightarrow> [])
    @ [T '' AS '', T (bare (vw_select op))]
    @ (case vw_checkOption op of Some k \<Rightarrow> [T (nl @ ''WITH '' @ check_option_text k @ '' CHECK OPTION'')] | None \<Rightarrow> [])"

fun partition_method_text :: "PartitionMethod \<Rightarrow> string" where
  "partition_method_text ByRange = ''range''"
| "partition_method_text ByList = ''list''"
| "partition_method_text ByHash = ''hash''"
| "partition_method_text ByKey = ''key''"

fun partition_action_text :: "PartitionAction \<Rightarrow> string" where
  "partition_action_text AnalyzePartition = ''analyze''"
| "partition_action_text CheckPartition = ''check''"
| "partition_action_text OptimizePartition = ''optimize''"
| "partition_action_text RebuildPartition = ''rebuild''"
| "partition_action_text RepairPartition = ''repair''"

fun maintenance_text :: "Maintenance \<Rightarrow> string" where
  "maintenance_text Analyze = ''analyze''"
| "maintenance_text Optimize = ''optimize''"
| "maintenance_text Check = ''check''"
| "maintenance_text Repair = ''repair''"
| "maintenance_text Vacuum = ''vacuum''"
| "maintenance_text Checksum = ''checksum''"
| "maintenance_text Flush = ''flush''"

definition list_or :: "'a list option \<Rightarrow> 'a list" where
  "list_or xs = (case xs of Some ys \<Rightarrow> ys | None \<Rightarrow> [])"

end
