(* ===== verification/Ddl_Postgres.thy ===== *)
theory Ddl_Postgres
  imports Ddl_Common
begin

text \<open>
  The PostgreSQL builder of structure changes, \<open>packages/adapter/src/postgres/ddl.ts\<close>, and
  \<open>pgAdvanceSequence\<close> of \<open>postgres/export.ts\<close>.

  Every case of \<open>pgDdl.build\<close> is a function of its own; \<open>pgDdl_build\<close> is the switch.  What the source computes
  before it throws is evaluated before it here, so that the same error comes out.  The clauses of a changed column are
  values of \<open>PgChange\<close>, written by \<open>pg_change_sql\<close>.
\<close>

subsection \<open>Sequences\<close>

definition NUMERIC_TYPES :: "string list" where
  "NUMERIC_TYPES = [''smallint'', ''integer'', ''bigint'', ''int2'', ''int4'', ''int8'', ''int'', ''numeric'', ''decimal'', ''real'',
     ''double precision'', ''serial'', ''smallserial'', ''bigserial'']"

definition NUMERIC_TYPE :: "string \<Rightarrow> bool" where
  "NUMERIC_TYPE s \<longleftrightarrow> list_ex (\<lambda>p. ci_prefix p s \<and> word_ends (drop (length p) s)) NUMERIC_TYPES"

definition pgAdvanceSequence ::
  "string \<Rightarrow> string \<Rightarrow> string option \<Rightarrow> string \<Rightarrow> (AdapterError, string) result" where
  "pgAdvanceSequence quotedTable column seqname dataType =
    rbind (quoteIdent Postgres column) (\<lambda>col.
      let probe = (if NUMERIC_TYPE dataType then col else col @ ''::bigint'');
          seq = (if given seqname then pgLiteral (the seqname) @ ''::regclass''
                 else ''pg_get_serial_sequence('' @ pgLiteral quotedTable @ '', '' @ pgLiteral column @ '')::regclass'');
          lastv = ''pg_sequence_last_value(s.seqrelid)'';
          up = ''GREATEST(m.max_id, s.seqmin, COALESCE('' @ lastv @ '', s.seqmin))'';
          down = ''LEAST(m.min_id, s.seqmax, COALESCE('' @ lastv @ '', s.seqmax))'';
          inRange = probe @ '' BETWEEN s.seqmin AND s.seqmax'';
          extremes = ''SELECT (SELECT MAX('' @ probe @ '')::bigint FROM '' @ quotedTable @ '' WHERE '' @ inRange
            @ '') AS max_id, (SELECT MIN('' @ probe @ '')::bigint FROM '' @ quotedTable @ '' WHERE '' @ inRange @ '') AS min_id''
      in Inr (''SELECT setval(s.seqrelid, CASE WHEN s.seqincrement > 0 THEN '' @ up @ '' ELSE '' @ down
        @ '' END, CASE WHEN s.seqincrement > 0 THEN m.max_id >= s.seqmin ELSE m.min_id <= s.seqmax END OR '' @ lastv
        @ '' IS NOT NULL) FROM pg_sequence s CROSS JOIN LATERAL ('' @ extremes @ '') m WHERE s.seqrelid = '' @ seq
        @ '' AND m.max_id IS NOT NULL''))"

subsection \<open>Parts of statements\<close>

fun PG_DROP_KEYWORD :: "TableKind \<Rightarrow> string" where
  "PG_DROP_KEYWORD KTable = ''TABLE''"
| "PG_DROP_KEYWORD KView = ''VIEW''"
| "PG_DROP_KEYWORD KMaterializedView = ''MATERIALIZED VIEW''"
| "PG_DROP_KEYWORD KSequence = ''SEQUENCE''"

definition releaseOwnConnections :: "string \<Rightarrow> Part list" where
  "releaseOwnConnections database =
    [T ''SELECT pg_terminate_backend(pid, 5000) FROM pg_stat_activity WHERE datname = '', L database,
     T '' AND application_name = '', L ''tsmyadmin'', T '' AND usename = session_user AND state = '', L ''idle'',
     T '' AND pid <> pg_backend_pid()'']"

definition default_parts :: "ColumnSpec \<Rightarrow> Part list option" where
  "default_parts c = (case cs_default c of None \<Rightarrow> None
     | Some (DefaultLiteral v) \<Rightarrow> Some [L v]
     | Some (DefaultExpression e) \<Rightarrow> if e = [] then None else Some [T e])"

definition pg_defaultSql :: "ColumnSpec \<Rightarrow> string option" where
  "pg_defaultSql c = (case cs_default c of None \<Rightarrow> None
     | Some (DefaultLiteral v) \<Rightarrow> Some (pgLiteral v)
     | Some (DefaultExpression e) \<Rightarrow> Some e)"

definition generated_clause :: "GeneratedColumn \<Rightarrow> string" where
  "generated_clause g = ''GENERATED ALWAYS AS ('' @ gc_expression g @ '') '' @ (if gc_stored g then ''STORED'' else ''VIRTUAL'')"

definition pg_columnDef :: "ColumnSpec \<Rightarrow> Part list" where
  "pg_columnDef c = sep_by '' '' ([[I (cs_name c)], [T (cs_dataType c)]]
     @ (if given (cs_collation c) then [[T ''COLLATE '', I (the (cs_collation c))]] else [])
     @ (case cs_generated c of
          Some g \<Rightarrow> [[T (generated_clause g)]] @ (if cs_nullable c then [] else [[T ''NOT NULL'']])
        | None \<Rightarrow> (if cs_autoIncrement c then [[T ''GENERATED BY DEFAULT AS IDENTITY'']] else [])
            @ (if cs_nullable c then [] else [[T ''NOT NULL'']])
            @ (case (if cs_autoIncrement c then None else default_parts c) of Some d \<Rightarrow> [T ''DEFAULT '' # d] | None \<Rightarrow> [])))"

definition commentSql :: "Part \<Rightarrow> ColumnSpec \<Rightarrow> Part list list" where
  "commentSql t c = (case cs_comment c of None \<Rightarrow> []
     | Some m \<Rightarrow> [[T ''COMMENT ON COLUMN '', t, T ''.'', I (cs_name c), T '' IS '', L m]])"

text \<open>A tag the code does not contain.\<close>

definition dollar_tag :: "nat \<Rightarrow> string" where
  "dollar_tag n = (if n = 0 then ''body'' else ''body'' @ show_nat n)"

abbreviation tag_mark :: "nat \<Rightarrow> string" where
  "tag_mark n \<equiv> ''$'' @ dollar_tag n @ ''$''"

lemma find_sub_split: "find_sub p s = Some k \<Longrightarrow> \<exists>x y. s = x @ p @ y"
proof (induction s arbitrary: k)
  case (Cons c s)
  show ?case
  proof (cases "prefix p (c # s)")
    case True
    then obtain y where "c # s = [] @ p @ y" by (auto simp: prefix_def)
    then show ?thesis by blast
  next
    case False
    with Cons.prems obtain k' where "find_sub p s = Some k'" by auto
    from Cons.IH [OF this] obtain x y where "s = x @ p @ y" by blast
    then have "c # s = (c # x) @ p @ y" by simp
    then show ?thesis by blast
  qed
qed (auto split: if_splits)

lemma finite_substrings: "finite {p. has_sub s p}"
proof (rule finite_subset)
  show "{p. has_sub s p} \<subseteq> (\<lambda>(i, j). take j (drop i s)) ` ({..length s} \<times> {..length s})"
  proof
    fix p assume "p \<in> {p. has_sub s p}"
    then obtain k where "find_sub p s = Some k" by (auto simp: has_sub_def)
    from find_sub_split [OF this] obtain x y where s: "s = x @ p @ y" by blast
    then have "p = take (length p) (drop (length x) s)" "length x \<le> length s" "length p \<le> length s" by simp_all
    then show "p \<in> (\<lambda>(i, j). take j (drop i s)) ` ({..length s} \<times> {..length s})" by force
  qed
qed simp

lemma dollar_tag_inj: "dollar_tag m = dollar_tag n \<Longrightarrow> m = n"
  using show_nat_inj [of m n] show_nat_nonempty [of m] show_nat_nonempty [of n]
  by (auto simp: dollar_tag_def split: if_splits)

lemma finite_tags: "finite {m. has_sub code (tag_mark m)}"
proof -
  have "inj_on (\<lambda>m. tag_mark m) {m. has_sub code (tag_mark m)}"
    by (rule inj_onI) (use dollar_tag_inj in auto)
  moreover have "(\<lambda>m. tag_mark m) ` {m. has_sub code (tag_mark m)} \<subseteq> {p. has_sub code p}" by auto
  ultimately show ?thesis using finite_substrings [of code] by (meson finite_imageD finite_subset)
qed

function free_tag :: "string \<Rightarrow> nat \<Rightarrow> string" where
  "free_tag code n = (if has_sub code (tag_mark n) then free_tag code (Suc n) else dollar_tag n)"
  by pat_completeness auto
termination
proof (relation "measure (\<lambda>(code, n). card {m. n \<le> m \<and> has_sub code (tag_mark m)})")
  fix code n assume h: "has_sub code (tag_mark n)"
  have "{m. Suc n \<le> m \<and> has_sub code (tag_mark m)} \<subset> {m. n \<le> m \<and> has_sub code (tag_mark m)}"
  proof
    show "{m. Suc n \<le> m \<and> has_sub code (tag_mark m)} \<subseteq> {m. n \<le> m \<and> has_sub code (tag_mark m)}" by auto
    have "n \<in> {m. n \<le> m \<and> has_sub code (tag_mark m)}" "n \<notin> {m. Suc n \<le> m \<and> has_sub code (tag_mark m)}" using h by simp_all
    then show "{m. Suc n \<le> m \<and> has_sub code (tag_mark m)} \<noteq> {m. n \<le> m \<and> has_sub code (tag_mark m)}" by blast
  qed
  moreover have "finite {m. n \<le> m \<and> has_sub code (tag_mark m)}"
    by (rule finite_subset [OF _ finite_tags [of code]]) auto
  ultimately show "((code, Suc n), code, n) \<in> measure (\<lambda>(code, n). card {m. n \<le> m \<and> has_sub code (tag_mark m)})"
    by (simp add: psubset_card_mono)
qed simp

declare free_tag.simps [simp del]

definition dollarQuoted :: "string \<Rightarrow> string" where
  "dollarQuoted code = (let mark = ''$'' @ free_tag code 0 @ ''$'' in mark @ nl @ trim code @ nl @ mark)"

definition onlyMysql :: "string \<Rightarrow> bool \<Rightarrow> (AdapterError, unit) result" where
  "onlyMysql what present =
    (if present then unsupported (what @ '' is a MySQL option; PostgreSQL has no equivalent'') else Inr ())"


subsection \<open>Routines, triggers and views\<close>

fun split_char :: "char \<Rightarrow> string \<Rightarrow> string list" where
  "split_char q [] = [[]]"
| "split_char q (c # s) = (if c = q then [] # split_char q s
     else (case split_char q s of [] \<Rightarrow> [[c]] | w # ws \<Rightarrow> (c # w) # ws))"

fun collapse_spaces :: "bool \<Rightarrow> string \<Rightarrow> string" where
  "collapse_spaces after [] = []"
| "collapse_spaces after (c # s) =
     (if js_space c then (if after then collapse_spaces True s else CHR '' '' # collapse_spaces True s)
      else c # collapse_spaces False s)"

text \<open>A parameter list with the modes and spacing the catalog may or may not print.\<close>

definition without_in :: "string \<Rightarrow> string" where
  "without_in p = (if ci_prefix ''in'' p \<and> trim_start (drop 2 p) \<noteq> drop 2 p then trim_start (drop 2 p) else p)"

definition normalizedParams :: "string \<Rightarrow> string" where
  "normalizedParams ps = join '','' (filter (\<lambda>p. p \<noteq> [])
     (map (\<lambda>p. to_lower (collapse_spaces False (without_in (trim p)))) (split_char (CHR '','') ps)))"

definition inTransaction :: "string list \<Rightarrow> string list" where
  "inTransaction statements = (if length statements > 1 then [''BEGIN''] @ statements @ [''COMMIT''] else statements)"

abbreviation in_transaction :: "('e, string list) result \<Rightarrow> ('e, string list) result" where
  "in_transaction r \<equiv> rbind r (\<lambda>ss. Inr (inTransaction ss))"

definition pg_params :: "RoutineParam list \<Rightarrow> Part list" where
  "pg_params ps = sep_by '', '' (map (\<lambda>p. [T (param_mode_text (rp_mode p) @ '' ''), I (rp_name p), T ('' '' @ rp_type p)]) ps)"

definition pg_createRoutineSql :: "Namespace \<Rightarrow> Routine \<Rightarrow> bool \<Rightarrow> (AdapterError, string list) result" where
  "pg_createRoutineSql ns op orReplace =
    rbind (onlyMysql ''DEFINER'' (rt_definer op \<noteq> None)) (\<lambda>_.
    rbind (onlyMysql ''A data-access characteristic'' (rt_dataAccess op \<noteq> None)) (\<lambda>_.
    let kind = routine_keyword (rt_kind op);
        signature = [Q ns (rt_name op), T ''(''] @ pg_params (rt_params op) @ [T '')''];
        returns = (if rt_kind op = Function then '' RETURNS '' @ the (rt_returns op) else []);
        security = (case rt_sqlSecurity op of Some x \<Rightarrow> '' SECURITY '' @ security_text x | None \<Rightarrow> []) in
    rbind (sql Postgres signature) (\<lambda>_.
    if rt_kind op = Function \<and> \<not> given (rt_returns op) then unsupported ''A function needs a return type''
    else stmts Postgres
      ([[T (''CREATE '' @ (if orReplace then ''OR REPLACE '' else []) @ kind @ '' '')] @ signature
         @ [T (returns @ '' LANGUAGE '' @ rt_language op @ (if rt_deterministic op then '' IMMUTABLE'' else []) @ security @ '' AS ''),
            T (dollarQuoted (rt_body op))]]
       @ (if given (rt_comment op)
          then [[T (''COMMENT ON '' @ kind @ '' '')] @ signature @ [T '' IS '', L (the (rt_comment op))]] else [])))))"

definition pg_routine_signature :: "Namespace \<Rightarrow> RoutineRef \<Rightarrow> Part list" where
  "pg_routine_signature ns op = [Q ns (rr_name op), T (''('' @ (case rr_parameters op of Some p \<Rightarrow> p | None \<Rightarrow> []) @ '')'')]"

definition pg_dropRoutine :: "Namespace \<Rightarrow> RoutineRef \<Rightarrow> (AdapterError, string list) result" where
  "pg_dropRoutine ns op = stmts Postgres [[T (''DROP '' @ routine_keyword (rr_kind op) @ '' '')] @ pg_routine_signature ns op]"

definition pg_alterRoutine ::
  "Namespace \<Rightarrow> RoutineRef \<Rightarrow> SqlSecurity option \<Rightarrow> DataAccess option \<Rightarrow> string option \<Rightarrow> (AdapterError, string list) result" where
  "pg_alterRoutine ns op security access comment =
    rbind (onlyMysql ''A data-access characteristic'' (access \<noteq> None)) (\<lambda>_.
    let kind = routine_keyword (rr_kind op); signature = pg_routine_signature ns op in
    rbind (stmts Postgres
      ((case security of Some x \<Rightarrow> [[T (''ALTER '' @ kind @ '' '')] @ signature @ [T ('' SECURITY '' @ security_text x)]] | None \<Rightarrow> [])
       @ (case comment of
            Some m \<Rightarrow> [[T (''COMMENT ON '' @ kind @ '' '')] @ signature @ [T '' IS '', if m = [] then T ''NULL'' else L m]]
          | None \<Rightarrow> []))) (\<lambda>out.
    rbind (sql Postgres signature) (\<lambda>_.
    if out = [] then invalid ''No routine characteristic to change'' else Inr (inTransaction out))))"

definition pg_replaceRoutine :: "Namespace \<Rightarrow> Routine \<Rightarrow> RoutineRef \<Rightarrow> (AdapterError, string list) result" where
  "pg_replaceRoutine ns create replaces =
    rbind (sql Postgres (pg_params (rt_params create))) (\<lambda>params.
    let inPlace = (rr_kind replaces = rt_kind create \<and> rr_name replaces = rt_name create
          \<and> normalizedParams (case rr_parameters replaces of Some p \<Rightarrow> p | None \<Rightarrow> [])
              = normalizedParams (filter (\<lambda>c. c \<noteq> CHR 0x22) params)) in
    if inPlace then in_transaction (pg_createRoutineSql ns create True)
    else in_transaction (rconcat [pg_dropRoutine ns replaces, pg_createRoutineSql ns create False]))"

definition pg_trigger_function :: "string \<Rightarrow> Namespace \<Rightarrow> Trigger \<Rightarrow> Part list" where
  "pg_trigger_function head ns op =
    [T head, Q ns (tg_name op @ ''_fn''), T ''() RETURNS trigger LANGUAGE plpgsql AS '', T (dollarQuoted (tg_body op))]"

definition pg_trigger_statement :: "Namespace \<Rightarrow> Trigger \<Rightarrow> Part list" where
  "pg_trigger_statement ns op =
    [T ''CREATE TRIGGER '', I (tg_name op), T ('' '' @ timing_text (tg_timing op) @ '' '' @ trigger_event_text (tg_event op) @ '' ON ''),
     Q ns (tg_table op), T '' FOR EACH ROW EXECUTE FUNCTION '', Q ns (tg_name op @ ''_fn''), T ''()'']"

definition pg_dropTrigger :: "Namespace \<Rightarrow> string \<Rightarrow> string \<Rightarrow> (AdapterError, string list) result" where
  "pg_dropTrigger ns name table = stmts Postgres [[T ''DROP TRIGGER '', I name, T '' ON '', Q ns table]]"

definition pg_createTrigger :: "Namespace \<Rightarrow> Trigger \<Rightarrow> (AdapterError, string list) result" where
  "pg_createTrigger ns op = rbind (onlyMysql ''DEFINER'' (tg_definer op \<noteq> None)) (\<lambda>_.
     stmts Postgres [pg_trigger_function ''CREATE FUNCTION '' ns op, pg_trigger_statement ns op])"

definition pg_replaceTrigger :: "Namespace \<Rightarrow> Trigger \<Rightarrow> string \<Rightarrow> string \<Rightarrow> (AdapterError, string list) result" where
  "pg_replaceTrigger ns op oldName oldTable = rbind (onlyMysql ''DEFINER'' (tg_definer op \<noteq> None)) (\<lambda>_.
     in_transaction (rconcat [pg_dropTrigger ns oldName oldTable,
       stmts Postgres ((if oldName \<noteq> tg_name op
           then [[T ''DROP FUNCTION IF EXISTS '', Q ns (oldName @ ''_fn''), T ''()'']] else [])
         @ [pg_trigger_function ''CREATE OR REPLACE FUNCTION '' ns op, pg_trigger_statement ns op])]))"

definition pg_createView :: "Namespace \<Rightarrow> View \<Rightarrow> (AdapterError, string list) result" where
  "pg_createView ns op =
    rbind (onlyMysql ''ALGORITHM'' (vw_algorithm op \<noteq> None)) (\<lambda>_.
    rbind (onlyMysql ''DEFINER'' (vw_definer op \<noteq> None)) (\<lambda>_.
    rbind (onlyMysql ''SQL SECURITY'' (vw_sqlSecurity op \<noteq> None)) (\<lambda>_.
    stmts Postgres [[T (''CREATE '' @ (if vw_orReplace op then ''OR REPLACE '' else []) @ ''VIEW ''), Q ns (vw_name op)]
      @ view_tail op])))"

subsection \<open>Columns\<close>

text \<open>The clauses a changed column needs.\<close>

datatype PgChange =
  RenameColumn string string
| SetType string "string option" bool
| SetExpression string
| DropExpression
| SetNullable bool
| SetDefaultTo "Part list option"
| SetComment "string option"

fun pg_change_sql :: "Part \<Rightarrow> Part \<Rightarrow> PgChange \<Rightarrow> Part list" where
  "pg_change_sql t col (RenameColumn old new) = [T ''ALTER TABLE '', t, T '' RENAME COLUMN '', I old, T '' TO '', I new]"
| "pg_change_sql t col (SetType dt coll using) =
     [T ''ALTER TABLE '', t, T '' ALTER COLUMN '', col, T ('' TYPE '' @ dt)]
     @ opt_parts coll (\<lambda>c. [T '' COLLATE '', I c])
     @ (if using then [T '' USING '', col, T (''::'' @ dt)] else [])"
| "pg_change_sql t col (SetExpression e) =
     [T ''ALTER TABLE '', t, T '' ALTER COLUMN '', col, T ('' SET EXPRESSION AS ('' @ e @ '')'')]"
| "pg_change_sql t col DropExpression = [T ''ALTER TABLE '', t, T '' ALTER COLUMN '', col, T '' DROP EXPRESSION'']"
| "pg_change_sql t col (SetNullable n) =
     [T ''ALTER TABLE '', t, T '' ALTER COLUMN '', col, T (if n then '' DROP NOT NULL'' else '' SET NOT NULL'')]"
| "pg_change_sql t col (SetDefaultTo d) =
     [T ''ALTER TABLE '', t, T '' ALTER COLUMN '', col] @ (case d of Some p \<Rightarrow> T '' SET DEFAULT '' # p | None \<Rightarrow> [T '' DROP DEFAULT''])"
| "pg_change_sql t col (SetComment m) =
     [T ''COMMENT ON COLUMN '', t, T ''.'', col, T '' IS '', case m of Some x \<Rightarrow> L x | None \<Rightarrow> T ''NULL'']"

text \<open>The first argument is \<open>None\<close> when the current definition is not known.\<close>

fun generatedChange ::
  "GeneratedColumn option option \<Rightarrow> GeneratedColumn option \<Rightarrow> (AdapterError, PgChange list) result" where
  "generatedChange None after = Inr (case after of Some g \<Rightarrow> [SetExpression (gc_expression g)] | None \<Rightarrow> [])"
| "generatedChange (Some None) None = Inr []"
| "generatedChange (Some (Some b)) None = Inr [DropExpression]"
| "generatedChange (Some None) (Some a) =
     unsupported ''PostgreSQL cannot make an existing column generated, or change how it is kept''"
| "generatedChange (Some (Some b)) (Some a) =
     (if gc_stored b \<noteq> gc_stored a
      then unsupported ''PostgreSQL cannot make an existing column generated, or change how it is kept''
      else Inr (if gc_expression b = gc_expression a then [] else [SetExpression (gc_expression a)]))"

definition rename_change :: "ColumnChange \<Rightarrow> PgChange list" where
  "rename_change op = (if cc_name op \<noteq> cs_name (cc_column op) then [RenameColumn (cc_name op) (cs_name (cc_column op))] else [])"

definition type_change :: "ColumnChange \<Rightarrow> PgChange list" where
  "type_change op = (let c = cc_column op in
    case cc_previous op of
      None \<Rightarrow> [SetType (cs_dataType c) (cs_collation c) False]
    | Some prev \<Rightarrow>
        (if cs_dataType prev \<noteq> cs_dataType c \<or> cs_collation prev \<noteq> cs_collation c
         then [SetType (cs_dataType c) (cs_collation c) (cs_dataType prev \<noteq> cs_dataType c)] else []))"

definition other_changes :: "ColumnChange \<Rightarrow> PgChange list" where
  "other_changes op = (let c = cc_column op; prev = cc_previous op in
     (if prev = None \<or> cs_nullable (the prev) \<noteq> cs_nullable c then [SetNullable (cs_nullable c)] else [])
     @ (if \<not> cs_autoIncrement c \<and> cs_generated c = None \<and> (prev = None \<or> pg_defaultSql (the prev) \<noteq> pg_defaultSql c)
        then [SetDefaultTo (default_parts c)] else [])
     @ (if cs_comment c \<noteq> None \<and> (prev = None \<or> cs_comment (the prev) \<noteq> cs_comment c) then [SetComment (cs_comment c)]
        else if cs_comment c = None \<and> prev \<noteq> None \<and> cs_comment (the prev) \<noteq> None then [SetComment None] else []))"

definition column_changes :: "ColumnChange \<Rightarrow> (AdapterError, PgChange list) result" where
  "column_changes op =
    rbind (generatedChange (map_option cs_generated (cc_previous op)) (cs_generated (cc_column op))) (\<lambda>generated.
      Inr (rename_change op @ type_change op @ generated @ other_changes op))"

text \<open>The names are quoted first, so a name that cannot be is reported before the change that cannot be made.\<close>

definition pg_modifyColumn :: "Namespace \<Rightarrow> string \<Rightarrow> ColumnChange \<Rightarrow> ColumnPosition \<Rightarrow> (AdapterError, string list) result" where
  "pg_modifyColumn ns table op pos =
    (if on (cp_first pos) \<or> given (cp_after pos) then unsupported ''PostgreSQL cannot reorder columns''
     else
       let t = Q ns table; col = I (cs_name (cc_column op)) in
       rbind (stmts Postgres (map (pg_change_sql t col) (rename_change op))) (\<lambda>_.
       rbind (sql Postgres [col]) (\<lambda>_.
       rbind (column_changes op) (\<lambda>changes. stmts Postgres (map (pg_change_sql t col) changes)))))"

subsection \<open>Tables\<close>

definition pg_schema :: "Namespace \<Rightarrow> string" where
  "pg_schema ns = (case ns_schema ns of Some s \<Rightarrow> s | None \<Rightarrow> ''public'')"

text \<open>The operations on a table quote it, and the schema, before anything else.\<close>

definition on_table :: "Namespace \<Rightarrow> string \<Rightarrow> (AdapterError, 'a) result \<Rightarrow> (AdapterError, 'a) result" where
  "on_table ns table r = rbind (sql Postgres [Q ns table, I (pg_schema ns)]) (\<lambda>_. r)"

definition pg_createTable :: "Namespace \<Rightarrow> CreateTable \<Rightarrow> (AdapterError, string list) result" where
  "pg_createTable ns op = on_table ns (ct_table op) (
    let t = Q ns (ct_table op);
        defs = map pg_columnDef (ct_columns op)
          @ (if ct_primaryKey op = [] then [] else [[T ''PRIMARY KEY (''] @ names (ct_primaryKey op) @ [T '')'']]);
        byc = (case ct_partitionBy op of
            Some b \<Rightarrow> '' PARTITION BY '' @ to_upper (partition_method_text (pb_method b)) @ '' ('' @ pb_expression b @ '')''
          | None \<Rightarrow> []) in
    rbind (stmts Postgres defs) (\<lambda>_.
    if map_option pb_method (ct_partitionBy op) = Some ByKey then unsupported ''PostgreSQL has no KEY partitioning''
    else if given (ct_engine op) \<or> given (ct_collation op) then
      unsupported ''PostgreSQL tables have no engine or collation option''
    else stmts Postgres
      ([[T ''CREATE TABLE '', t, T ('' ('' @ nl @ ''  '')] @ sep_by ('','' @ nl @ ''  '') defs @ [T (nl @ '')'' @ byc)]]
       @ (if given (ct_comment op) then [[T ''COMMENT ON TABLE '', t, T '' IS '', L (the (ct_comment op))]] else [])
       @ concat (map (commentSql t) (ct_columns op)))))"

definition ellipsis :: string where
  "ellipsis = [CHR 0xE2, CHR 0x80, CHR 0xA6]"

definition pg_addPartition :: "Namespace \<Rightarrow> string \<Rightarrow> PartitionSpec \<Rightarrow> (AdapterError, string list) result" where
  "pg_addPartition ns table p = on_table ns table
    (if ps_bound p = [] then invalid (''A partition needs its bound (FOR VALUES '' @ ellipsis @ '' or DEFAULT)'')
     else stmts Postgres [[T ''CREATE TABLE '', Q ns (ps_name p), T '' PARTITION OF '', Q ns table, T ('' '' @ ps_bound p)]])"

definition pg_maintainPartition :: "Namespace \<Rightarrow> string \<Rightarrow> string \<Rightarrow> PartitionAction \<Rightarrow> (AdapterError, string list) result" where
  "pg_maintainPartition ns table name action = on_table ns table
    (if action \<noteq> AnalyzePartition then unsupported (''PostgreSQL has no '' @ partition_action_text action @ '' for a partition'')
     else stmts Postgres [[T ''ANALYZE '', Q ns name]])"

definition pg_addColumn :: "Namespace \<Rightarrow> string \<Rightarrow> ColumnSpec \<Rightarrow> ColumnKey option \<Rightarrow> (AdapterError, string list) result" where
  "pg_addColumn ns table column key = on_table ns table (rconcat [
     stmts Postgres ([[T ''ALTER TABLE '', Q ns table, T '' ADD COLUMN ''] @ pg_columnDef column] @ commentSql (Q ns table) column),
     columnKeySql Postgres ns table column key])"

definition pg_modifyColumns :: "Namespace \<Rightarrow> string \<Rightarrow> ColumnChange list \<Rightarrow> (AdapterError, string list) result" where
  "pg_modifyColumns ns table changes = on_table ns table (in_transaction (rconcat
     (map (\<lambda>c. pg_modifyColumn ns table c \<lparr>cp_after = None, cp_first = None\<rparr>) changes)))"

definition pg_setPrimaryKey :: "Namespace \<Rightarrow> string \<Rightarrow> string list \<Rightarrow> string option \<Rightarrow> (AdapterError, string list) result" where
  "pg_setPrimaryKey ns table columns current = on_table ns table (stmts Postgres
     [[T ''ALTER TABLE '', Q ns table, T '' ''] @ opt_parts current (\<lambda>c. [T ''DROP CONSTRAINT '', I c, T '', ''])
       @ [T ''ADD PRIMARY KEY (''] @ names columns @ [T '')'']])"

definition pg_addIndex :: "Namespace \<Rightarrow> IndexSpec \<Rightarrow> (AdapterError, string list) result" where
  "pg_addIndex ns op = on_table ns (ix_table op) (
    rbind (if on (ix_replacesUnusable op)
      then stmts Postgres [[T (''DROP INDEX '' @ (if on (ix_online op) then ''CONCURRENTLY '' else []) @ ''IF EXISTS ''),
             I (pg_schema ns), T ''.'', I (ix_name op)]]
      else Inr []) (\<lambda>leftover.
    rbind (createIndexSql Postgres ns op) (\<lambda>create.
    rbind (pgIndexCommentSql ns op) (\<lambda>comment.
    let all = leftover @ [create] @ comment in
    Inr (if (given (ix_comment op) \<or> leftover \<noteq> []) \<and> \<not> on (ix_online op) then inTransaction all else all)))))"

definition pg_alterIndex :: "Namespace \<Rightarrow> string \<Rightarrow> string \<Rightarrow> IndexSpec \<Rightarrow> (AdapterError, string list) result" where
  "pg_alterIndex ns table name index = on_table ns table (in_transaction (rconcat [
     stmts Postgres [[T ''DROP INDEX '', I (pg_schema ns), T ''.'', I name]],
     rbind (createIndexSql Postgres ns (index\<lparr>ix_table := table, ix_online := None, ix_replacesUnusable := None\<rparr>)) (\<lambda>s. Inr [s]),
     pgIndexCommentSql ns index]))"

definition pg_setTableOptions :: "Namespace \<Rightarrow> string \<Rightarrow> TableOptions \<Rightarrow> (AdapterError, string list) result" where
  "pg_setTableOptions ns table op = on_table ns table
    (if to_engine op \<noteq> None \<or> to_collation op \<noteq> None \<or> to_autoIncrement op \<noteq> None \<or> to_rowFormat op \<noteq> None
        \<or> to_checksum op \<noteq> None \<or> to_packKeys op \<noteq> None \<or> to_delayKeyWrite op \<noteq> None \<or> to_transactional op \<noteq> None
        \<or> to_pageChecksum op \<noteq> None \<or> to_statsPersistent op \<noteq> None \<or> to_statsAutoRecalc op \<noteq> None
     then unsupported ''PostgreSQL tables have no engine, collation, AUTO_INCREMENT, row format or checksum option''
     else (case to_comment op of
         None \<Rightarrow> invalid ''No table option to change''
       | Some m \<Rightarrow> stmts Postgres [[T ''COMMENT ON TABLE '', Q ns table, T '' IS '',
           case m of None \<Rightarrow> T ''NULL'' | Some c \<Rightarrow> L c]]))"

fun pg_maintenance :: "Maintenance \<Rightarrow> (AdapterError, string) result" where
  "pg_maintenance Analyze = Inr ''ANALYZE ''"
| "pg_maintenance Vacuum = Inr ''VACUUM (ANALYZE) ''"
| "pg_maintenance Optimize = Inr ''VACUUM (FULL, ANALYZE) ''"
| "pg_maintenance action = unsupported (''PostgreSQL has no '' @ to_upper (maintenance_text action) @ '' TABLE'')"

definition pg_maintainTable :: "Namespace \<Rightarrow> string \<Rightarrow> Maintenance \<Rightarrow> (AdapterError, string list) result" where
  "pg_maintainTable ns table action = on_table ns table
     (rbind (pg_maintenance action) (\<lambda>head. stmts Postgres [[T head, Q ns table]]))"

definition pg_maintainTables :: "Namespace \<Rightarrow> string list \<Rightarrow> Maintenance \<Rightarrow> (AdapterError, string list) result" where
  "pg_maintainTables ns ts action = rbind (sql Postgres (tables ns ts)) (\<lambda>_.
     rbind (pg_maintenance action) (\<lambda>head. stmts Postgres [[T head] @ tables ns ts]))"

definition pg_convertCollation :: "Namespace \<Rightarrow> string \<Rightarrow> string \<Rightarrow> TypedColumn list \<Rightarrow> (AdapterError, string list) result" where
  "pg_convertCollation ns table collation cols = on_table ns table
    (if cols = [] then invalid ''No text column to change''
     else stmts Postgres [[T ''ALTER TABLE '', Q ns table, T '' ''] @ sep_by '', ''
       (map (\<lambda>c. [T ''ALTER COLUMN '', I (tc_name c), T ('' TYPE '' @ tc_dataType c @ '' COLLATE ''), I collation]) cols)])"

definition pg_setDatabaseCollation :: "Namespace \<Rightarrow> DatabaseCollation \<Rightarrow> (AdapterError, string list) result" where
  "pg_setDatabaseCollation ns op =
    (if \<not> dc_applyToTables op then unsupported ''PostgreSQL cannot change a database collation after creating it''
     else rconcat (map (\<lambda>x. let cols = (case map_of (dc_columns op) x of Some cs \<Rightarrow> cs | None \<Rightarrow> []) in
         if cols = [] then Inr [] else pg_convertCollation ns x (dc_collation op) cols)
       (case dc_tables op of Some ts \<Rightarrow> ts | None \<Rightarrow> [])))"

definition pg_orderTable :: "Namespace \<Rightarrow> string \<Rightarrow> string option \<Rightarrow> (AdapterError, string list) result" where
  "pg_orderTable ns table index = on_table ns table
    (if \<not> given index then invalid ''PostgreSQL orders a table along an index (CLUSTER)''
     else stmts Postgres [[T ''CLUSTER '', Q ns table, T '' USING '', I (the index)]])"

definition pg_copy_rows :: "Part \<Rightarrow> Part \<Rightarrow> string list option \<Rightarrow> Part list" where
  "pg_copy_rows target t columns = (case columns of
     Some (c # cs) \<Rightarrow> [T ''INSERT INTO '', target, T '' (''] @ names (c # cs) @ [T '') OVERRIDING SYSTEM VALUE SELECT '']
       @ names (c # cs) @ [T '' FROM '', t]
   | _ \<Rightarrow> [T ''INSERT INTO '', target, T '' OVERRIDING SYSTEM VALUE SELECT * FROM '', t])"

definition pg_own_sequence :: "Namespace \<Rightarrow> CopyTable \<Rightarrow> string \<Rightarrow> (AdapterError, string list) result" where
  "pg_own_sequence into op c =
    (let target = Q into (cy_newName op) in
     rbind (quoteTable Postgres into (cy_newName op @ ''_'' @ c @ ''_seq'')) (\<lambda>seq.
     stmts Postgres [
       [T ''CREATE SEQUENCE '', Q into (cy_newName op @ ''_'' @ c @ ''_seq''), T '' OWNED BY '', target, T ''.'', I c],
       [T ''ALTER TABLE '', target, T '' ALTER COLUMN '', I c, T '' SET DEFAULT nextval('', L seq, T ''::regclass)'']]))"

definition pg_copyTable :: "Namespace \<Rightarrow> CopyTable \<Rightarrow> (AdapterError, string list) result" where
  "pg_copyTable ns op = on_table ns (cy_table op) (
    let into = \<lparr>ns_database = ns_database ns, ns_schema = schema_given (or_else (cy_toSchema op) (ns_schema ns))\<rparr>;
        t = Q ns (cy_table op); target = Q into (cy_newName op); structure = (cy_structure op \<noteq> Some False);
        keysFrom = (\<lambda>fk. fk\<lparr>fk_refSchema := (if given (or_else (fk_refSchema fk) (ns_schema ns))
                                   then or_else (fk_refSchema fk) (ns_schema ns) else fk_refSchema fk)\<rparr>) in
    if cy_newName op = cy_table op \<and> pg_schema into = pg_schema ns then invalid ''A table cannot be copied onto itself''
    else rbind (quoteTable Postgres into (cy_newName op)) (\<lambda>quoted.
    if on (cy_dropExisting op) \<and> \<not> structure then invalid ''A data-only copy cannot drop the table it copies into''
    else rconcat (
      [stmts Postgres ((if on (cy_dropExisting op) then [[T ''DROP TABLE IF EXISTS '', target]] else [])
         @ (if structure then [[T ''CREATE TABLE '', target, T '' (LIKE '', t, T '' INCLUDING ALL)'']] else [])
         @ (if cy_withData op then [pg_copy_rows target t (cy_columns op)] else []))]
      @ map (pg_own_sequence into op) (if structure then list_or (cy_serialColumns op) else [])
      @ (if cy_withData op
         then map (\<lambda>c. rbind (pgAdvanceSequence quoted c None ''integer'') (\<lambda>s. Inr [s]))
           (list_or (cy_identityColumns op) @ list_or (cy_serialColumns op)) else [])
      @ map (\<lambda>fk. rbind (addForeignKeySql Postgres into (cy_newName op) (keysFrom fk)) (\<lambda>s. Inr [s]))
          (list_or (cy_foreignKeys op)))))"

definition pg_copyTables :: "Namespace \<Rightarrow> CopyTables \<Rightarrow> (AdapterError, string list) result" where
  "pg_copyTables ns op = rconcat (map (\<lambda>x.
     let d = (case map_of (cts_details op) x of Some d \<Rightarrow> d
              | None \<Rightarrow> \<lparr>cd_columns = None, cd_identityColumns = None, cd_serialColumns = None\<rparr>) in
     pg_copyTable ns \<lparr>cy_table = x, cy_newName = x, cy_withData = cts_withData op, cy_columns = cd_columns d,
       cy_identityColumns = cd_identityColumns d, cy_serialColumns = cd_serialColumns d, cy_toDatabase = None,
       cy_toSchema = schema_given (cts_toSchema op), cy_structure = None, cy_dropExisting = None, cy_foreignKeys = None\<rparr>)
     (cts_tables op))"

definition pg_replaceInColumn :: "Namespace \<Rightarrow> ReplaceInColumn \<Rightarrow> (AdapterError, string list) result" where
  "pg_replaceInColumn ns op =
    (let c = I (ri_column op);
         replaced = (if on (ri_regex op)
           then [T ''regexp_replace('', c, T '', '', L (ri_find op), T '', '', L (ri_replace op), T '', '', L ''g'', T '')'']
           else [T ''replace('', c, T '', '', L (ri_find op), T '', '', L (ri_replace op), T '')'']) in
     stmts Postgres [[T ''UPDATE '', Q ns (ri_table op), T '' SET '', c, T '' = ''] @ replaced @ [T '' WHERE ''] @ replaced
       @ [T '' IS DISTINCT FROM '', c]])"

definition pg_createDatabase :: "string \<Rightarrow> string option \<Rightarrow> (AdapterError, string list) result" where
  "pg_createDatabase name collation = stmts Postgres [[T ''CREATE DATABASE '', I name]
     @ opt_parts collation (\<lambda>c. [T '' TEMPLATE template0 LC_COLLATE '', L c, T '' LC_CTYPE '', L c])]"

definition pg_copyDatabase :: "CopyDatabase \<Rightarrow> (AdapterError, string list) result" where
  "pg_copyDatabase op =
    (if \<not> cdb_withData op \<or> cdb_structure op = Some False
     then unsupported ''PostgreSQL copies a database with its structure and its data''
     else stmts Postgres [releaseOwnConnections (cdb_name op),
       [T ''CREATE DATABASE '', I (cdb_newName op), T '' TEMPLATE '', I (cdb_name op)]])"

definition no_events :: "(AdapterError, string list) result" where
  "no_events = unsupported ''PostgreSQL has no event scheduler''"

subsection \<open>The builder\<close>

abbreviation one :: "Part list \<Rightarrow> (AdapterError, string list) result" where
  "one p \<equiv> stmts Postgres [p]"

primrec pgDdl_build :: "Namespace \<Rightarrow> DdlOp \<Rightarrow> (AdapterError, string list) result" where
  "pgDdl_build ns (OpCreateDatabase name collation) = pg_createDatabase name collation"
| "pgDdl_build ns (OpCreateSchema name) = one [T ''CREATE SCHEMA '', I name]"
| "pgDdl_build ns (OpSetServerVariable name v) = stmts Postgres
     [(case v of None \<Rightarrow> [T (''ALTER SYSTEM RESET '' @ name)] | Some x \<Rightarrow> [T (''ALTER SYSTEM SET '' @ name @ '' = ''), L x]),
      [T ''SELECT pg_reload_conf()'']]"
| "pgDdl_build ns (OpDropDatabases ns') = stmts Postgres (map (\<lambda>n. [T ''DROP DATABASE '', I n, T '' WITH (FORCE)'']) ns')"
| "pgDdl_build ns (OpDropDatabase name) = one [T ''DROP DATABASE '', I name, T '' WITH (FORCE)'']"
| "pgDdl_build ns (OpRenameDatabase name newName ts collation) = stmts Postgres
     [releaseOwnConnections name, [T ''ALTER DATABASE '', I name, T '' RENAME TO '', I newName]]"
| "pgDdl_build ns (OpCopyDatabase op) = pg_copyDatabase op"
| "pgDdl_build ns (OpReplaceInColumn op) = pg_replaceInColumn ns op"
| "pgDdl_build ns (OpSplitTable op) = splitTableSql Postgres ns op"
| "pgDdl_build ns (OpMoveRepeatingGroup op) = moveRepeatingGroupSql Postgres ns op"
| "pgDdl_build ns (OpMoveTable table to) = one [T ''ALTER TABLE '', Q ns table, T '' SET SCHEMA '', I to]"
| "pgDdl_build ns (OpCreateView op) = pg_createView ns op"
| "pgDdl_build ns (OpDropRoutine op) = pg_dropRoutine ns op"
| "pgDdl_build ns (OpAlterRoutine op security access comment) = pg_alterRoutine ns op security access comment"
| "pgDdl_build ns (OpDropTrigger name table) = pg_dropTrigger ns name table"
| "pgDdl_build ns (OpCreateRoutine op) = pg_createRoutineSql ns op False"
| "pgDdl_build ns (OpReplaceRoutine op replaces) = pg_replaceRoutine ns op replaces"
| "pgDdl_build ns (OpReplaceTrigger op oldName oldTable) = pg_replaceTrigger ns op oldName oldTable"
| "pgDdl_build ns (OpReplaceEvent op name) = no_events"
| "pgDdl_build ns (OpCreateTrigger op) = pg_createTrigger ns op"
| "pgDdl_build ns (OpCreateEvent op) = no_events"
| "pgDdl_build ns (OpEnableEvent name) = no_events"
| "pgDdl_build ns (OpDisableEvent name) = no_events"
| "pgDdl_build ns (OpDropEvent name) = no_events"
| "pgDdl_build ns (OpSetDatabaseCollation op) = pg_setDatabaseCollation ns op"
| "pgDdl_build ns (OpDropTables ts) = one (T ''DROP TABLE '' # tables ns ts)"
| "pgDdl_build ns (OpDropObjects obs) = stmts Postgres (map (\<lambda>ob.
     [T (''DROP '' @ PG_DROP_KEYWORD (snd ob) @ '' IF EXISTS ''), Q ns (fst ob), T '' CASCADE'']) (dropOrder obs))"
| "pgDdl_build ns (OpTruncateTables ts) = one (T ''TRUNCATE TABLE '' # tables ns ts)"
| "pgDdl_build ns (OpMaintainTables ts action) = pg_maintainTables ns ts action"
| "pgDdl_build ns (OpRenameTables rs) = in_transaction (stmts Postgres (map (\<lambda>r.
     [T ''ALTER TABLE '', Q ns (fst r), T '' RENAME TO '', I (snd r)]) rs))"
| "pgDdl_build ns (OpCopyTables op) = pg_copyTables ns op"
| "pgDdl_build ns (OpCreateTable op) = pg_createTable ns op"
| "pgDdl_build ns (OpPartitionTable table pb parts n) = on_table ns table
     (unsupported ''PostgreSQL cannot partition an existing table; create it partitioned'')"
| "pgDdl_build ns (OpAddPartition table p) = pg_addPartition ns table p"
| "pgDdl_build ns (OpDropPartition table name) = on_table ns table (one [T ''DROP TABLE '', Q ns name])"
| "pgDdl_build ns (OpTruncatePartition table name) = on_table ns table (one [T ''TRUNCATE TABLE '', Q ns name])"
| "pgDdl_build ns (OpDetachPartition table name) = on_table ns table
     (one [T ''ALTER TABLE '', Q ns table, T '' DETACH PARTITION '', Q ns name])"
| "pgDdl_build ns (OpRemovePartitioning table) = on_table ns table
     (unsupported ''PostgreSQL cannot turn a partitioned table back into a plain one'')"
| "pgDdl_build ns (OpMaintainPartition table name action) = pg_maintainPartition ns table name action"
| "pgDdl_build ns (OpAddColumn table column pos key) = pg_addColumn ns table column key"
| "pgDdl_build ns (OpModifyColumn table change pos) = on_table ns table (pg_modifyColumn ns table change pos)"
| "pgDdl_build ns (OpDropColumn table name) = on_table ns table (one [T ''ALTER TABLE '', Q ns table, T '' DROP COLUMN '', I name])"
| "pgDdl_build ns (OpDropColumns table cs) = on_table ns table (one (dropColumnsSql ns table cs))"
| "pgDdl_build ns (OpModifyColumns table changes) = pg_modifyColumns ns table changes"
| "pgDdl_build ns (OpReorderColumns table cs) = on_table ns table (unsupported ''PostgreSQL cannot reorder columns'')"
| "pgDdl_build ns (OpSetPrimaryKey table cs current) = pg_setPrimaryKey ns table cs current"
| "pgDdl_build ns (OpAddIndex op) = pg_addIndex ns op"
| "pgDdl_build ns (OpRenameIndex table name newName) = on_table ns table
     (one [T ''ALTER INDEX '', I (pg_schema ns), T ''.'', I name, T '' RENAME TO '', I newName])"
| "pgDdl_build ns (OpAlterIndex table name index) = pg_alterIndex ns table name index"
| "pgDdl_build ns (OpDropIndex table name online) = on_table ns table
     (one [T (''DROP INDEX '' @ (if on online then ''CONCURRENTLY '' else [])), I (pg_schema ns), T ''.'', I name])"
| "pgDdl_build ns (OpAddForeignKey table fk) = on_table ns table (rbind (addForeignKeySql Postgres ns table fk) (\<lambda>s. Inr [s]))"
| "pgDdl_build ns (OpDropForeignKey table name) = on_table ns table
     (one [T ''ALTER TABLE '', Q ns table, T '' DROP CONSTRAINT '', I name])"
| "pgDdl_build ns (OpDropTable table kind) = on_table ns table
     (one [T (''DROP '' @ PG_DROP_KEYWORD kind @ '' ''), Q ns table])"
| "pgDdl_build ns (OpTruncateTable table) = on_table ns table (one [T ''TRUNCATE TABLE '', Q ns table])"
| "pgDdl_build ns (OpRenameTable table newName) = on_table ns table
     (one [T ''ALTER TABLE '', Q ns table, T '' RENAME TO '', I newName])"
| "pgDdl_build ns (OpSetTableOptions table op) = pg_setTableOptions ns table op"
| "pgDdl_build ns (OpMaintainTable table action) = pg_maintainTable ns table action"
| "pgDdl_build ns (OpConvertCollation table collation cols) = pg_convertCollation ns table collation (list_or cols)"
| "pgDdl_build ns (OpOrderTable table column desc index) = pg_orderTable ns table index"
| "pgDdl_build ns (OpCopyTable op) = pg_copyTable ns op"

end
