(* ===== verification/Ddl_Mysql.thy ===== *)
theory Ddl_Mysql
  imports Ddl_Common
begin

text \<open>
  The MySQL builder of structure changes, \<open>packages/adapter/src/mysql/ddl.ts\<close>.  Every case of
  \<open>mysqlDdl.build\<close> that is more than a template is a function of its own; \<open>mysqlDdl_build\<close> is the switch.
\<close>

subsection \<open>Parts of statements\<close>

definition my_createDatabaseSql :: "string \<Rightarrow> string option \<Rightarrow> Part list" where
  "my_createDatabaseSql name collation =
    [T ''CREATE DATABASE '', I name] @ opt_parts collation (\<lambda>c. [T ('' COLLATE '' @ c)])"

definition definerClause :: "Definer option \<Rightarrow> Part list" where
  "definerClause d = (case d of Some x \<Rightarrow> [T ''DEFINER = '', L (df_user x), T ''@'', L (df_host x), T '' ''] | None \<Rightarrow> [])"

fun data_access_text :: "DataAccess \<Rightarrow> string" where
  "data_access_text ContainsSql = ''CONTAINS SQL''"
| "data_access_text NoSql = ''NO SQL''"
| "data_access_text ReadsSqlData = ''READS SQL DATA''"
| "data_access_text ModifiesSqlData = ''MODIFIES SQL DATA''"

definition my_param :: "RoutineKind \<Rightarrow> RoutineParam \<Rightarrow> (AdapterError, Part list) result" where
  "my_param kind p =
    (if kind = Function \<and> rp_mode p \<noteq> ModeIn then unsupported ''MySQL functions take IN parameters only''
     else rbind (quoteIdent Mysql (rp_name p)) (\<lambda>_.
       Inr [T (if kind = Procedure then param_mode_text (rp_mode p) @ '' '' else []), I (rp_name p), T ('' '' @ rp_type p)]))"

definition my_createRoutineSql :: "Namespace \<Rightarrow> Routine \<Rightarrow> (AdapterError, string) result" where
  "my_createRoutineSql ns op = rbind (rmap (my_param (rt_kind op)) (rt_params op)) (\<lambda>params.
     let head = [T ''CREATE ''] @ definerClause (rt_definer op) @ [T (routine_keyword (rt_kind op) @ '' ''), Q ns (rt_name op), T ''(''] @ sep_by '', '' params @ [T '')''];
         traits = (if rt_kind op = Function then [[T (''RETURNS '' @ the (rt_returns op))]] else [])
           @ (if given (rt_comment op) then [[T ''COMMENT '', L (the (rt_comment op))]] else [])
           @ [[T (if rt_deterministic op then ''DETERMINISTIC'' else ''NOT DETERMINISTIC'')]]
           @ (case rt_dataAccess op of Some a \<Rightarrow> [[T (data_access_text a)]] | None \<Rightarrow> [])
           @ (case rt_sqlSecurity op of Some x \<Rightarrow> [[T (''SQL SECURITY '' @ security_text x)]] | None \<Rightarrow> []) in
     rbind (sql Mysql head) (\<lambda>_.
     if rt_kind op = Function \<and> \<not> given (rt_returns op) then unsupported ''A function needs a return type''
     else sql Mysql (head @ [T '' ''] @ sep_by '' '' traits @ [T ('' '' @ bare (rt_body op))])))"

definition position :: "ColumnPosition \<Rightarrow> Part list" where
  "position op = (if on (cp_first op) then [T '' FIRST''] else opt_parts (cp_after op) (\<lambda>a. [T '' AFTER '', I a]))"

text \<open>A default the server takes bare, and everything else in parentheses.\<close>

definition hex_text :: "string \<Rightarrow> bool" where
  "hex_text s \<longleftrightarrow> list_all (\<lambda>c. js_digit c \<or> CHR ''A'' \<le> c \<and> c \<le> CHR ''F'' \<or> CHR ''a'' \<le> c \<and> c \<le> CHR ''f'') s"

definition in_quotes :: "(char \<Rightarrow> bool) \<Rightarrow> string \<Rightarrow> bool" where
  "in_quotes P s \<longleftrightarrow> 2 \<le> length s \<and> hd s = sq \<and> last s = sq \<and> list_all P (butlast (tl s))"

definition current_timestamp :: "string \<Rightarrow> bool" where
  "current_timestamp s \<longleftrightarrow> ci_prefix ''current_timestamp'' s
     \<and> (let r = drop 17 s in r = [] \<or> r = ''()'' \<or> length r = 3 \<and> hd r = CHR ''('' \<and> js_digit (r ! 1) \<and> r ! 2 = CHR '')'')"

definition binary_default :: "string \<Rightarrow> bool" where
  "binary_default s \<longleftrightarrow> prefix ''0x'' s \<and> hex_text (drop 2 s)
     \<or> s \<noteq> [] \<and> lower_char (hd s) = CHR ''x'' \<and> in_quotes (\<lambda>c. hex_text [c]) (tl s)
     \<or> s \<noteq> [] \<and> lower_char (hd s) = CHR ''b'' \<and> in_quotes (\<lambda>c. c = CHR ''0'' \<or> c = CHR ''1'') (tl s)"

definition defaultExpression :: "string \<Rightarrow> string" where
  "defaultExpression e =
    (let s = trim e in
     if current_timestamp s \<or> prefix ''('' s then s
     else if binary_default s then s
     else ''('' @ s @ '')'')"

definition my_columnDef :: "ColumnSpec \<Rightarrow> Part list" where
  "my_columnDef c = sep_by '' '' ([[I (cs_name c)], [T (cs_dataType c)]]
     @ (if given (cs_collation c) then [[T (''COLLATE '' @ the (cs_collation c))]] else [])
     @ (case cs_generated c of
          Some g \<Rightarrow> [[T (''GENERATED ALWAYS AS ('' @ gc_expression g @ '') '' @ (if gc_stored g then ''STORED'' else ''VIRTUAL''))]]
            @ (if cs_nullable c then [] else [[T ''NOT NULL'']])
        | None \<Rightarrow> [[T (if cs_nullable c then ''NULL'' else ''NOT NULL'')]]
            @ (case cs_default c of
                 Some (DefaultLiteral v) \<Rightarrow> [[T ''DEFAULT '', L v]]
               | Some (DefaultExpression e) \<Rightarrow> [[T (''DEFAULT '' @ defaultExpression e)]]
               | None \<Rightarrow> [])
            @ (if given (cs_onUpdate c) then [[T (''ON UPDATE '' @ the (cs_onUpdate c))]] else [])
            @ (if cs_autoIncrement c then [[T ''AUTO_INCREMENT'']] else []))
     @ (case cs_comment c of Some m \<Rightarrow> [[T ''COMMENT '', L m]] | None \<Rightarrow> [])
     @ (if given (cs_check c) then [[T (''CHECK ('' @ the (cs_check c) @ '')'')]] else []))"

definition mysqlPartitionBound :: "string \<Rightarrow> string option \<Rightarrow> string" where
  "mysqlPartitionBound method description = (case description of
     None \<Rightarrow> []
   | Some b \<Rightarrow>
       if prefix ''RANGE'' method
       then (if b = ''MAXVALUE'' then ''VALUES LESS THAN MAXVALUE'' else ''VALUES LESS THAN ('' @ b @ '')'')
       else if prefix ''LIST'' method then ''VALUES IN ('' @ b @ '')'' else [])"

subsection \<open>Databases\<close>

definition plain_value :: "string \<Rightarrow> bool" where
  "plain_value s \<longleftrightarrow>
    (let t = (if prefix ''-'' s then tl s else s); r = dropWhile js_digit t in
     takeWhile js_digit t \<noteq> [] \<and> (r = [] \<or> hd r = CHR ''.'' \<and> tl r \<noteq> [] \<and> list_all js_digit (tl r)))
    \<or> to_lower s \<in> {''on'', ''off'', ''true'', ''false'', ''default''}"

definition my_setServerVariable :: "string \<Rightarrow> string option \<Rightarrow> Part list" where
  "my_setServerVariable name v = [T (''SET GLOBAL '' @ name @ '' = ''),
     (case v of None \<Rightarrow> T ''DEFAULT'' | Some x \<Rightarrow> if plain_value (trim x) then T (trim x) else L x)]"

text \<open>A collation's name begins with its character set.\<close>

definition charset_of :: "string \<Rightarrow> string" where
  "charset_of collation = (if collation = ''binary'' then ''binary'' else takeWhile (\<lambda>c. c \<noteq> CHR ''_'') collation)"

abbreviation in_database :: "string \<Rightarrow> Namespace" where
  "in_database db \<equiv> \<lparr>ns_database = db, ns_schema = None\<rparr>"

definition my_setDatabaseCollation :: "DatabaseCollation \<Rightarrow> (AdapterError, string list) result" where
  "my_setDatabaseCollation op =
    (let tail = ''CHARACTER SET '' @ charset_of (dc_collation op) @ '' COLLATE '' @ dc_collation op in
     stmts Mysql ([T ''ALTER DATABASE '', I (dc_name op), T ('' '' @ tail)]
       # map (\<lambda>x. [T ''ALTER TABLE '', Q (in_database (dc_name op)) x, T ('' CONVERT TO '' @ tail)])
           (if dc_applyToTables op then list_or (dc_tables op) else [])))"

definition my_renameDatabase :: "string \<Rightarrow> string \<Rightarrow> string list option \<Rightarrow> string option \<Rightarrow> (AdapterError, string list) result" where
  "my_renameDatabase name newName ts collation = (case ts of
     None \<Rightarrow> invalid ''renameDatabase needs the list of tables to move''
   | Some ts \<Rightarrow> stmts Mysql ([my_createDatabaseSql newName collation]
       @ (if ts = [] then [] else [[T ''RENAME TABLE '']
           @ sep_by '', '' (map (\<lambda>t. [Q (in_database name) t, T '' TO '', Q (in_database newName) t]) ts)])))"

definition privilege_word :: "string \<Rightarrow> bool" where
  "privilege_word p \<longleftrightarrow> p \<noteq> [] \<and> CHR ''A'' \<le> hd p \<and> hd p \<le> CHR ''Z''
     \<and> list_all (\<lambda>c. CHR ''A'' \<le> c \<and> c \<le> CHR ''Z'' \<or> c = CHR '' '') p"

definition copied_table :: "CopyDatabase \<Rightarrow> CopiedTable \<Rightarrow> Part list list" where
  "copied_table op t =
    (let source = Q (in_database (cdb_name op)) (cpt_name t); target = Q (in_database (cdb_newName op)) (cpt_name t) in
     (if cdb_structure op \<noteq> Some False then [[T ''CREATE TABLE '', target, T '' LIKE '', source]] else [])
     @ (if cdb_withData op \<and> cpt_columns t \<noteq> []
        then [[T ''INSERT INTO '', target, T '' (''] @ names (cpt_columns t) @ [T '') SELECT ''] @ names (cpt_columns t)
               @ [T '' FROM '', source]] else []))"

definition copied_keys :: "CopyDatabase \<Rightarrow> CopiedTable \<Rightarrow> (AdapterError, string list) result" where
  "copied_keys op t = rmap (\<lambda>fk. addForeignKeySql Mysql (in_database (cdb_newName op)) (cpt_name t)
       (fk\<lparr>fk_refDatabase := (if \<not> given (fk_refDatabase fk) \<or> fk_refDatabase fk = Some (cdb_name op)
                             then Some (cdb_newName op) else fk_refDatabase fk)\<rparr>))
     (list_or (cpt_foreignKeys t))"

definition copied_grant :: "string \<Rightarrow> CopiedGrant \<Rightarrow> Part list list" where
  "copied_grant newName g =
    (let privs = filter (\<lambda>p. privilege_word p \<and> p \<noteq> ''GRANT OPTION'') (cg_privileges g) in
     if privs = [] then []
     else [[T (''GRANT '' @ join '', '' privs @ '' ON ''), I newName, T ''.* TO '', L (cg_user g), T ''@'', L (cg_host g),
            T (if cg_grantable g then '' WITH GRANT OPTION'' else [])]])"

definition my_copyDatabase :: "CopyDatabase \<Rightarrow> (AdapterError, string list) result" where
  "my_copyDatabase op = (case cdb_tables op of
     None \<Rightarrow> invalid ''copyDatabase needs the list of tables to copy''
   | Some ts \<Rightarrow>
       let structure = (cdb_structure op \<noteq> Some False); to = in_database (cdb_newName op) in
       if \<not> structure \<and> \<not> cdb_withData op then invalid ''Copying neither the structure nor the rows copies nothing''
       else rconcat (
         [stmts Mysql ((if structure then [my_createDatabaseSql (cdb_newName op) (cdb_collation op)] else [])
            @ concat (map (copied_table op) ts)
            @ (if on (cdb_autoIncrement op)
               then map (\<lambda>t. [T ''ALTER TABLE '', Q to (cpt_name t), T ('' AUTO_INCREMENT = '' @ the (cpt_autoIncrement t))])
                 (filter (\<lambda>t. given (cpt_autoIncrement t)) ts)
               else []))]
         @ (if on (cdb_foreignKeys op) \<and> structure then map (copied_keys op) ts else [])
         @ [if on (cdb_privileges op) \<and> structure
            then stmts Mysql (concat (map (copied_grant (cdb_newName op)) (list_or (cdb_grants op)))) else Inr []]))"

subsection \<open>Views, routines, triggers and events\<close>

definition my_replaceInColumn :: "Namespace \<Rightarrow> ReplaceInColumn \<Rightarrow> (AdapterError, string list) result" where
  "my_replaceInColumn ns op =
    (let c = I (ri_column op);
         replaced = [T ((if on (ri_regex op) then ''REGEXP_REPLACE'' else ''REPLACE'') @ ''(''), c, T '', '', L (ri_find op),
           T '', '', L (ri_replace op), T '')''];
         changes = [T ''CAST(''] @ replaced @ [T '' AS BINARY) <> CAST('', c, T '' AS BINARY)''] in
     stmts Mysql [[T ''UPDATE '', Q ns (ri_table op), T '' SET '', c, T '' = ''] @ replaced @ [T '' WHERE ''] @ changes])"

fun algorithm_text :: "ViewAlgorithm \<Rightarrow> string" where
  "algorithm_text AlgorithmUndefined = ''UNDEFINED''"
| "algorithm_text AlgorithmMerge = ''MERGE''"
| "algorithm_text AlgorithmTemptable = ''TEMPTABLE''"

definition my_createView :: "Namespace \<Rightarrow> View \<Rightarrow> (AdapterError, string list) result" where
  "my_createView ns op = stmts Mysql [
     [T (''CREATE '' @ (if vw_orReplace op then ''OR REPLACE '' else [])
         @ (case vw_algorithm op of Some a \<Rightarrow> ''ALGORITHM = '' @ algorithm_text a @ '' '' | None \<Rightarrow> []))]
     @ definerClause (vw_definer op)
     @ [T ((case vw_sqlSecurity op of Some x \<Rightarrow> ''SQL SECURITY '' @ security_text x @ '' '' | None \<Rightarrow> []) @ ''VIEW ''), Q ns (vw_name op)]
     @ view_tail op]"

definition my_dropRoutine :: "Namespace \<Rightarrow> RoutineKind \<Rightarrow> string \<Rightarrow> (AdapterError, string list) result" where
  "my_dropRoutine ns kind name = stmts Mysql [[T (''DROP '' @ routine_keyword kind @ '' ''), Q ns name]]"

definition my_alterRoutine ::
  "Namespace \<Rightarrow> RoutineRef \<Rightarrow> SqlSecurity option \<Rightarrow> DataAccess option \<Rightarrow> string option \<Rightarrow> (AdapterError, string list) result" where
  "my_alterRoutine ns op security access comment =
    (let ps = (case comment of Some m \<Rightarrow> [[T ''COMMENT '', L m]] | None \<Rightarrow> [])
           @ (case access of Some a \<Rightarrow> [[T (data_access_text a)]] | None \<Rightarrow> [])
           @ (case security of Some x \<Rightarrow> [[T (''SQL SECURITY '' @ security_text x)]] | None \<Rightarrow> []) in
     if ps = [] then invalid ''No routine characteristic to change''
     else stmts Mysql [[T (''ALTER '' @ routine_keyword (rr_kind op) @ '' ''), Q ns (rr_name op), T '' ''] @ sep_by '' '' ps])"

definition my_replaceRoutine :: "Namespace \<Rightarrow> Routine \<Rightarrow> RoutineRef \<Rightarrow> (AdapterError, string list) result" where
  "my_replaceRoutine ns op replaces = rconcat [my_dropRoutine ns (rr_kind replaces) (rr_name replaces),
     rbind (my_createRoutineSql ns op) (\<lambda>s. Inr [s])]"

definition my_dropTrigger :: "Namespace \<Rightarrow> string \<Rightarrow> (AdapterError, string list) result" where
  "my_dropTrigger ns name = stmts Mysql [[T ''DROP TRIGGER '', Q ns name]]"

definition my_createTrigger :: "Namespace \<Rightarrow> Trigger \<Rightarrow> (AdapterError, string list) result" where
  "my_createTrigger ns op = stmts Mysql [[T ''CREATE ''] @ definerClause (tg_definer op)
     @ [T ''TRIGGER '', Q ns (tg_name op), T ('' '' @ timing_text (tg_timing op) @ '' '' @ trigger_event_text (tg_event op) @ '' ON ''),
        Q ns (tg_table op), T ('' FOR EACH ROW '' @ bare (tg_body op))]]"

fun unit_text :: "IntervalUnit \<Rightarrow> string" where
  "unit_text Second = ''SECOND''"
| "unit_text Minute = ''MINUTE''"
| "unit_text Hour = ''HOUR''"
| "unit_text Day = ''DAY''"
| "unit_text Week = ''WEEK''"
| "unit_text Month = ''MONTH''"
| "unit_text Year = ''YEAR''"

fun schedule_parts :: "EventSchedule \<Rightarrow> Part list" where
  "schedule_parts (ScheduleAt at) = [T ''AT '', L at]"
| "schedule_parts (ScheduleEvery n unit starts ends) = sep_by '' '' (
     [[T (''EVERY '' @ show_nat n @ '' '' @ unit_text unit)]]
     @ (if given starts then [[T ''STARTS '', L (the starts)]] else [])
     @ (if given ends then [[T ''ENDS '', L (the ends)]] else []))"

definition my_createEvent :: "Namespace \<Rightarrow> Event \<Rightarrow> (AdapterError, string list) result" where
  "my_createEvent ns op = stmts Mysql [[T ''CREATE ''] @ definerClause (ev_definer op)
     @ [T ''EVENT '', Q ns (ev_name op), T '' ON SCHEDULE ''] @ schedule_parts (ev_schedule op)
     @ [T ('' ON COMPLETION '' @ (if on (ev_preserve op) then ''PRESERVE'' else ''NOT PRESERVE'') @ '' ''
           @ (if ev_enabled op then ''ENABLE'' else ''DISABLE''))]
     @ opt_parts (ev_comment op) (\<lambda>m. [T '' COMMENT '', L m])
     @ [T ('' DO '' @ bare (ev_body op))]]"

definition my_dropEvent :: "Namespace \<Rightarrow> string \<Rightarrow> (AdapterError, string list) result" where
  "my_dropEvent ns name = stmts Mysql [[T ''DROP EVENT '', Q ns name]]"

subsection \<open>Tables\<close>

definition my_on_table :: "Namespace \<Rightarrow> string \<Rightarrow> (AdapterError, 'a) result \<Rightarrow> (AdapterError, 'a) result" where
  "my_on_table ns table r = rbind (quoteTable Mysql ns table) (\<lambda>_. r)"

fun my_drop_keyword :: "TableKind \<Rightarrow> string" where
  "my_drop_keyword KTable = ''TABLE''"
| "my_drop_keyword KSequence = ''SEQUENCE''"
| "my_drop_keyword KView = ''VIEW''"
| "my_drop_keyword KMaterializedView = ''VIEW''"

definition my_createTable :: "Namespace \<Rightarrow> CreateTable \<Rightarrow> (AdapterError, string list) result" where
  "my_createTable ns op = my_on_table ns (ct_table op)
    (if ct_partitionBy op \<noteq> None then unsupported ''MySQL: create the table, then partition it''
     else
       let defs = map my_columnDef (ct_columns op)
             @ (if ct_primaryKey op = [] then [] else [[T ''PRIMARY KEY (''] @ names (ct_primaryKey op) @ [T '')'']]);
           options = (if given (ct_engine op) then [[T (''ENGINE = '' @ the (ct_engine op))]] else [])
             @ (if given (ct_collation op) then [[T (''COLLATE = '' @ the (ct_collation op))]] else [])
             @ (if given (ct_comment op) then [[T ''COMMENT = '', L (the (ct_comment op))]] else []) in
       stmts Mysql [[T ''CREATE TABLE '', Q ns (ct_table op), T ('' ('' @ nl @ ''  '')] @ sep_by ('','' @ nl @ ''  '') defs
         @ [T (nl @ '')'')] @ (if options = [] then [] else T '' '' # sep_by '' '' options)])"

definition my_partitionTable ::
  "Namespace \<Rightarrow> string \<Rightarrow> PartitionBy \<Rightarrow> PartitionSpec list \<Rightarrow> nat option \<Rightarrow> (AdapterError, string list) result" where
  "my_partitionTable ns table pb parts n = my_on_table ns table
    (let byc = ''PARTITION BY '' @ to_upper (partition_method_text (pb_method pb)) @ '' ('' @ pb_expression pb @ '')'' in
     if pb_method pb = ByHash \<or> pb_method pb = ByKey
     then stmts Mysql [[T ''ALTER TABLE '', Q ns table, T ('' '' @ byc
       @ (case n of Some k \<Rightarrow> if k = 0 then [] else '' PARTITIONS '' @ show_nat k | None \<Rightarrow> []))]]
     else if parts = [] then invalid ''RANGE / LIST partitioning needs its partitions''
     else stmts Mysql [[T ''ALTER TABLE '', Q ns table, T ('' '' @ byc @ '' ('' @ nl)]
       @ sep_by ('','' @ nl) (map (\<lambda>p. [T ''  PARTITION '', I (ps_name p), T (trim_end ('' '' @ ps_bound p))]) parts)
       @ [T (nl @ '')'')]])"

definition my_change_clause :: "ColumnChange \<Rightarrow> Part list" where
  "my_change_clause c = (if cc_name c = cs_name (cc_column c) then T ''MODIFY COLUMN '' # my_columnDef (cc_column c)
     else [T ''CHANGE COLUMN '', I (cc_name c), T '' ''] @ my_columnDef (cc_column c))"

definition my_modifyColumn :: "Namespace \<Rightarrow> string \<Rightarrow> ColumnChange \<Rightarrow> ColumnPosition \<Rightarrow> (AdapterError, string list) result" where
  "my_modifyColumn ns table op pos =
    my_on_table ns table (stmts Mysql [[T ''ALTER TABLE '', Q ns table, T '' ''] @ my_change_clause op @ position pos])"

text \<open>Each column rewritten after the one before it.\<close>

fun reorder_clauses :: "string option \<Rightarrow> ColumnSpec list \<Rightarrow> Part list list" where
  "reorder_clauses before [] = []"
| "reorder_clauses before (c # cs) =
     (T ''MODIFY COLUMN '' # my_columnDef c @ (case before of None \<Rightarrow> [T '' FIRST''] | Some b \<Rightarrow> [T '' AFTER '', I b]))
     # reorder_clauses (Some (cs_name c)) cs"

definition my_dropIndex :: "Namespace \<Rightarrow> string \<Rightarrow> string \<Rightarrow> bool option \<Rightarrow> (AdapterError, string list) result" where
  "my_dropIndex ns table name online = my_on_table ns table (stmts Mysql
     [if on online then [T ''ALTER TABLE '', Q ns table, T '' DROP INDEX '', I name, T '', ALGORITHM=INPLACE, LOCK=NONE'']
      else [T ''DROP INDEX '', I name, T '' ON '', Q ns table]])"

definition my_alterIndex :: "Namespace \<Rightarrow> string \<Rightarrow> string \<Rightarrow> IndexSpec \<Rightarrow> (AdapterError, string list) result" where
  "my_alterIndex ns table name index = my_on_table ns table
    (let primary = (name = ''PRIMARY''); drop = (if primary then [T ''DROP PRIMARY KEY''] else [T ''DROP INDEX '', I name]) in
     rbind (sql Mysql drop) (\<lambda>_.
     rbind (mysqlAddIndexClause (index\<lparr>ix_table := table, ix_online := None, ix_replacesUnusable := None\<rparr>) primary) (\<lambda>clause.
     stmts Mysql [[T ''ALTER TABLE '', Q ns table, T '' ''] @ drop @ [T '', ''] @ clause])))"

fun switch_text :: "OptionSwitch \<Rightarrow> string" where
  "switch_text SwitchDefault = ''DEFAULT''"
| "switch_text Switch0 = ''0''"
| "switch_text Switch1 = ''1''"

fun row_format_text :: "RowFormat \<Rightarrow> string" where
  "row_format_text FormatDefault = ''DEFAULT''"
| "row_format_text FormatDynamic = ''DYNAMIC''"
| "row_format_text FormatFixed = ''FIXED''"
| "row_format_text FormatCompressed = ''COMPRESSED''"
| "row_format_text FormatRedundant = ''REDUNDANT''"
| "row_format_text FormatCompact = ''COMPACT''"

definition bit_text :: "bool \<Rightarrow> string" where
  "bit_text b = (if b then ''1'' else ''0'')"

definition option_part :: "string \<Rightarrow> ('a \<Rightarrow> string) \<Rightarrow> 'a option \<Rightarrow> Part list list" where
  "option_part name f v = (case v of Some x \<Rightarrow> [[T (name @ '' = '' @ f x)]] | None \<Rightarrow> [])"

definition my_setTableOptions :: "Namespace \<Rightarrow> string \<Rightarrow> TableOptions \<Rightarrow> (AdapterError, string list) result" where
  "my_setTableOptions ns table op = my_on_table ns table
    (let ps = (case to_comment op of Some m \<Rightarrow> [[T ''COMMENT = '', L (case m of Some c \<Rightarrow> c | None \<Rightarrow> [])]] | None \<Rightarrow> [])
           @ option_part ''ENGINE'' id (to_engine op)
           @ option_part ''COLLATE'' id (to_collation op)
           @ option_part ''AUTO_INCREMENT'' id (to_autoIncrement op)
           @ option_part ''ROW_FORMAT'' row_format_text (to_rowFormat op)
           @ option_part ''CHECKSUM'' bit_text (to_checksum op)
           @ option_part ''PACK_KEYS'' switch_text (to_packKeys op)
           @ option_part ''DELAY_KEY_WRITE'' bit_text (to_delayKeyWrite op)
           @ option_part ''TRANSACTIONAL'' bit_text (to_transactional op)
           @ option_part ''PAGE_CHECKSUM'' bit_text (to_pageChecksum op)
           @ option_part ''STATS_PERSISTENT'' switch_text (to_statsPersistent op)
           @ option_part ''STATS_AUTO_RECALC'' switch_text (to_statsAutoRecalc op) in
     if ps = [] then invalid ''No table option to change''
     else stmts Mysql [[T ''ALTER TABLE '', Q ns table, T '' ''] @ sep_by '', '' ps])"

fun my_maintenance :: "Maintenance \<Rightarrow> (AdapterError, string) result" where
  "my_maintenance Vacuum = unsupported ''MySQL has no VACUUM; use OPTIMIZE TABLE''"
| "my_maintenance Flush = Inr ''FLUSH TABLES ''"
| "my_maintenance action = Inr (to_upper (maintenance_text action) @ '' TABLE '')"

definition my_maintainTable :: "Namespace \<Rightarrow> string \<Rightarrow> Maintenance \<Rightarrow> (AdapterError, string list) result" where
  "my_maintainTable ns table action = my_on_table ns table
     (rbind (my_maintenance action) (\<lambda>head. stmts Mysql [[T head, Q ns table]]))"

text \<open>Several tables: the schema leaves no \<open>flush\<close> here, which the source would write as \<open>FLUSH TABLE\<close>.\<close>

definition my_maintainTables :: "Namespace \<Rightarrow> string list \<Rightarrow> Maintenance \<Rightarrow> (AdapterError, string list) result" where
  "my_maintainTables ns ts action =
    (if action = Vacuum then unsupported ''MySQL has no VACUUM; use OPTIMIZE TABLE''
     else stmts Mysql [[T (to_upper (maintenance_text action) @ '' TABLE '')] @ tables ns ts])"

definition my_convertCollation :: "Namespace \<Rightarrow> string \<Rightarrow> string \<Rightarrow> (AdapterError, string list) result" where
  "my_convertCollation ns table collation = my_on_table ns table (stmts Mysql
     [[T ''ALTER TABLE '', Q ns table, T ('' CONVERT TO CHARACTER SET '' @ charset_of collation @ '' COLLATE '' @ collation)]])"

definition my_orderTable :: "Namespace \<Rightarrow> string \<Rightarrow> string option \<Rightarrow> bool option \<Rightarrow> (AdapterError, string list) result" where
  "my_orderTable ns table column desc = my_on_table ns table
    (if \<not> given column then invalid ''MySQL orders a table by a column''
     else stmts Mysql [[T ''ALTER TABLE '', Q ns table, T '' ORDER BY '', I (the column)] @ (if on desc then [T '' DESC''] else [])])"

definition my_copy_rows :: "Part \<Rightarrow> Part \<Rightarrow> string list option \<Rightarrow> Part list" where
  "my_copy_rows target t columns = (case columns of
     Some (c # cs) \<Rightarrow> [T ''INSERT INTO '', target, T '' (''] @ names (c # cs) @ [T '') SELECT ''] @ names (c # cs) @ [T '' FROM '', t]
   | _ \<Rightarrow> [T ''INSERT INTO '', target, T '' SELECT * FROM '', t])"

definition my_copyTable :: "Namespace \<Rightarrow> CopyTable \<Rightarrow> (AdapterError, string list) result" where
  "my_copyTable ns op = my_on_table ns (cy_table op) (
    let into = in_database (case cy_toDatabase op of Some db \<Rightarrow> db | None \<Rightarrow> ns_database ns);
        t = Q ns (cy_table op); target = Q into (cy_newName op); structure = (cy_structure op \<noteq> Some False) in
    if cy_newName op = cy_table op \<and> ns_database into = ns_database ns then invalid ''A table cannot be copied onto itself''
    else rbind (quoteTable Mysql into (cy_newName op)) (\<lambda>_.
    if on (cy_dropExisting op) \<and> \<not> structure then invalid ''A data-only copy cannot drop the table it copies into''
    else rconcat (
      [stmts Mysql ((if on (cy_dropExisting op) then [[T ''DROP TABLE IF EXISTS '', target]] else [])
         @ (if structure then [[T ''CREATE TABLE '', target, T '' LIKE '', t]] else [])
         @ (if cy_withData op then [my_copy_rows target t (cy_columns op)] else []))]
      @ map (\<lambda>fk. rbind (addForeignKeySql Mysql into (cy_newName op)
            (fk\<lparr>fk_refDatabase := Some (case fk_refDatabase fk of Some db \<Rightarrow> db | None \<Rightarrow> ns_database ns)\<rparr>)) (\<lambda>s. Inr [s]))
          (list_or (cy_foreignKeys op)))))"

definition my_copyTables :: "Namespace \<Rightarrow> CopyTables \<Rightarrow> (AdapterError, string list) result" where
  "my_copyTables ns op = rconcat (map (\<lambda>x.
     my_copyTable ns \<lparr>cy_table = x, cy_newName = x, cy_withData = cts_withData op,
       cy_columns = Option.bind (map_of (cts_details op) x) cd_columns,
       cy_identityColumns = None, cy_serialColumns = None, cy_toDatabase = schema_given (cts_toDatabase op),
       cy_toSchema = None, cy_structure = None, cy_dropExisting = None, cy_foreignKeys = None\<rparr>)
     (cts_tables op))"

subsection \<open>The builder\<close>

abbreviation my_one :: "Part list \<Rightarrow> (AdapterError, string list) result" where
  "my_one p \<equiv> stmts Mysql [p]"

primrec mysqlDdl_build :: "Namespace \<Rightarrow> DdlOp \<Rightarrow> (AdapterError, string list) result" where
  "mysqlDdl_build ns (OpCreateDatabase name collation) = my_one (my_createDatabaseSql name collation)"
| "mysqlDdl_build ns (OpCreateSchema name) = my_one [T ''CREATE DATABASE '', I name]"
| "mysqlDdl_build ns (OpDropDatabase name) = my_one [T ''DROP DATABASE '', I name]"
| "mysqlDdl_build ns (OpSetServerVariable name v) = my_one (my_setServerVariable name v)"
| "mysqlDdl_build ns (OpDropDatabases ns') = stmts Mysql (map (\<lambda>n. [T ''DROP DATABASE '', I n]) ns')"
| "mysqlDdl_build ns (OpDropRoutine op) = my_dropRoutine ns (rr_kind op) (rr_name op)"
| "mysqlDdl_build ns (OpAlterRoutine op security access comment) = my_alterRoutine ns op security access comment"
| "mysqlDdl_build ns (OpDropTrigger name table) = my_dropTrigger ns name"
| "mysqlDdl_build ns (OpSetDatabaseCollation op) = my_setDatabaseCollation op"
| "mysqlDdl_build ns (OpRenameDatabase name newName ts collation) = my_renameDatabase name newName ts collation"
| "mysqlDdl_build ns (OpCopyDatabase op) = my_copyDatabase op"
| "mysqlDdl_build ns (OpReplaceInColumn op) = my_replaceInColumn ns op"
| "mysqlDdl_build ns (OpSplitTable op) = splitTableSql Mysql ns op"
| "mysqlDdl_build ns (OpMoveRepeatingGroup op) = moveRepeatingGroupSql Mysql ns op"
| "mysqlDdl_build ns (OpMoveTable table to) = my_one [T ''RENAME TABLE '', Q ns table, T '' TO '', Q (in_database to) table]"
| "mysqlDdl_build ns (OpCreateView op) = my_createView ns op"
| "mysqlDdl_build ns (OpCreateRoutine op) = rbind (my_createRoutineSql ns op) (\<lambda>s. Inr [s])"
| "mysqlDdl_build ns (OpReplaceRoutine op replaces) = my_replaceRoutine ns op replaces"
| "mysqlDdl_build ns (OpReplaceTrigger op oldName oldTable) = rconcat [my_dropTrigger ns oldName, my_createTrigger ns op]"
| "mysqlDdl_build ns (OpReplaceEvent op name) = rconcat [my_dropEvent ns name, my_createEvent ns op]"
| "mysqlDdl_build ns (OpCreateTrigger op) = my_createTrigger ns op"
| "mysqlDdl_build ns (OpCreateEvent op) = my_createEvent ns op"
| "mysqlDdl_build ns (OpEnableEvent name) = my_one [T ''ALTER EVENT '', Q ns name, T '' ENABLE'']"
| "mysqlDdl_build ns (OpDisableEvent name) = my_one [T ''ALTER EVENT '', Q ns name, T '' DISABLE'']"
| "mysqlDdl_build ns (OpDropEvent name) = my_dropEvent ns name"
| "mysqlDdl_build ns (OpDropTables ts) = my_one (T ''DROP TABLE '' # tables ns ts)"
| "mysqlDdl_build ns (OpDropObjects obs) = stmts Mysql (map (\<lambda>ob.
     [T (''DROP '' @ my_drop_keyword (snd ob) @ '' IF EXISTS ''), Q ns (fst ob)]) (dropOrder obs))"
| "mysqlDdl_build ns (OpTruncateTables ts) = stmts Mysql (map (\<lambda>x. [T ''TRUNCATE TABLE '', Q ns x]) ts)"
| "mysqlDdl_build ns (OpMaintainTables ts action) = my_maintainTables ns ts action"
| "mysqlDdl_build ns (OpRenameTables rs) = my_one (T ''RENAME TABLE ''
     # sep_by '', '' (map (\<lambda>r. [Q ns (fst r), T '' TO '', Q ns (snd r)]) rs))"
| "mysqlDdl_build ns (OpCopyTables op) = my_copyTables ns op"
| "mysqlDdl_build ns (OpCreateTable op) = my_createTable ns op"
| "mysqlDdl_build ns (OpPartitionTable table pb parts n) = my_partitionTable ns table pb parts n"
| "mysqlDdl_build ns (OpAddPartition table p) = my_on_table ns table (my_one
     [T ''ALTER TABLE '', Q ns table, T '' ADD PARTITION (PARTITION '', I (ps_name p),
      T ((if ps_bound p = [] then [] else '' '' @ ps_bound p) @ '')'')])"
| "mysqlDdl_build ns (OpDropPartition table name) = my_on_table ns table
     (my_one [T ''ALTER TABLE '', Q ns table, T '' DROP PARTITION '', I name])"
| "mysqlDdl_build ns (OpTruncatePartition table name) = my_on_table ns table
     (my_one [T ''ALTER TABLE '', Q ns table, T '' TRUNCATE PARTITION '', I name])"
| "mysqlDdl_build ns (OpDetachPartition table name) = my_on_table ns table (unsupported ''MySQL has no DETACH PARTITION'')"
| "mysqlDdl_build ns (OpRemovePartitioning table) = my_on_table ns table
     (my_one [T ''ALTER TABLE '', Q ns table, T '' REMOVE PARTITIONING''])"
| "mysqlDdl_build ns (OpMaintainPartition table name action) = my_on_table ns table (my_one
     [T ''ALTER TABLE '', Q ns table, T ('' '' @ to_upper (partition_action_text action) @ '' PARTITION ''), I name])"
| "mysqlDdl_build ns (OpAddColumn table column pos key) = my_on_table ns table (rconcat
     [my_one ([T ''ALTER TABLE '', Q ns table, T '' ADD COLUMN ''] @ my_columnDef column @ position pos),
      columnKeySql Mysql ns table column key])"
| "mysqlDdl_build ns (OpModifyColumn table change pos) = my_modifyColumn ns table change pos"
| "mysqlDdl_build ns (OpDropColumn table name) = my_on_table ns table
     (my_one [T ''ALTER TABLE '', Q ns table, T '' DROP COLUMN '', I name])"
| "mysqlDdl_build ns (OpDropColumns table cs) = my_on_table ns table (my_one (dropColumnsSql ns table cs))"
| "mysqlDdl_build ns (OpModifyColumns table changes) = my_on_table ns table
     (my_one ([T ''ALTER TABLE '', Q ns table, T '' ''] @ sep_by '', '' (map my_change_clause changes)))"
| "mysqlDdl_build ns (OpReorderColumns table cs) = my_on_table ns table
     (my_one ([T ''ALTER TABLE '', Q ns table, T '' ''] @ sep_by '', '' (reorder_clauses None cs)))"
| "mysqlDdl_build ns (OpSetPrimaryKey table cs current) = my_on_table ns table (my_one
     ([T ''ALTER TABLE '', Q ns table, T '' ''] @ opt_parts current (\<lambda>_. [T ''DROP PRIMARY KEY, ''])
      @ [T ''ADD PRIMARY KEY (''] @ names cs @ [T '')'']))"
| "mysqlDdl_build ns (OpAddIndex op) = my_on_table ns (ix_table op) (rbind (createIndexSql Mysql ns op) (\<lambda>s. Inr [s]))"
| "mysqlDdl_build ns (OpDropIndex table name online) = my_dropIndex ns table name online"
| "mysqlDdl_build ns (OpRenameIndex table name newName) = my_on_table ns table
     (my_one [T ''ALTER TABLE '', Q ns table, T '' RENAME INDEX '', I name, T '' TO '', I newName])"
| "mysqlDdl_build ns (OpAlterIndex table name index) = my_alterIndex ns table name index"
| "mysqlDdl_build ns (OpAddForeignKey table fk) = my_on_table ns table (rbind (addForeignKeySql Mysql ns table fk) (\<lambda>s. Inr [s]))"
| "mysqlDdl_build ns (OpDropForeignKey table name) = my_on_table ns table
     (my_one [T ''ALTER TABLE '', Q ns table, T '' DROP FOREIGN KEY '', I name])"
| "mysqlDdl_build ns (OpDropTable table kind) = my_on_table ns table (my_one [T (''DROP '' @ my_drop_keyword kind @ '' ''), Q ns table])"
| "mysqlDdl_build ns (OpTruncateTable table) = my_on_table ns table (my_one [T ''TRUNCATE TABLE '', Q ns table])"
| "mysqlDdl_build ns (OpRenameTable table newName) = my_on_table ns table
     (my_one [T ''RENAME TABLE '', Q ns table, T '' TO '', Q ns newName])"
| "mysqlDdl_build ns (OpSetTableOptions table op) = my_setTableOptions ns table op"
| "mysqlDdl_build ns (OpMaintainTable table action) = my_maintainTable ns table action"
| "mysqlDdl_build ns (OpConvertCollation table collation cols) = my_convertCollation ns table collation"
| "mysqlDdl_build ns (OpOrderTable table column desc index) = my_orderTable ns table column desc"
| "mysqlDdl_build ns (OpCopyTable op) = my_copyTable ns op"

end
