(* ===== verification/Ddl_Script.thy ===== *)
theory Ddl_Script
  imports Ddl_Postgres Ddl_Mysql Scripts
begin

text \<open>
  The statements the builders write, as a script: which operations put nothing but names, values and words of their
  own into the text, and that the script of such an operation is split back into exactly the statements built.
\<close>

subsection \<open>Templates as pieces\<close>

fun add_plain :: "string \<Rightarrow> Piece list \<Rightarrow> Piece list" where
  "add_plain s (Plain p # ps) = Plain (s @ p) # ps"
| "add_plain s ps = (if s = [] then ps else Plain s # ps)"

fun pieces :: "Dialect \<Rightarrow> Part list \<Rightarrow> Piece list" where
  "pieces d [] = []"
| "pieces d (T s # r) = add_plain s (pieces d r)"
| "pieces d (I n # r) = Name n # pieces d r"
| "pieces d (Q ns t # r) =
     Name (if d = Mysql then ns_database ns else pg_schema ns) # Plain ''.'' # Name t # pieces d r"
| "pieces d (L v # r) = Value v # pieces d r"

lemma render_add_plain: "render d (add_plain s ps) = s @ render d ps"
  by (induction s ps rule: add_plain.induct) auto

lemma sql_Nil: "sql d [] = Inr []"
  by (simp add: sql_def)

lemma sql_Cons: "sql d (p # ps) = rbind (part_text d p) (\<lambda>s. rbind (sql d ps) (\<lambda>t. Inr (s @ t)))"
  by (cases "part_text d p"; cases "rmap (part_text d) ps") (simp_all add: sql_def)

lemma rbind_Inr: "rbind r f = Inr x \<longleftrightarrow> (\<exists>y. r = Inr y \<and> f y = Inr x)"
  by (cases r) auto

lemma sql_pieces: "sql d ps = Inr s \<Longrightarrow> s = render d (pieces d ps)"
proof (induction ps arbitrary: s)
  case (Cons p ps)
  then obtain a b where a: "part_text d p = Inr a" and b: "sql d ps = Inr b" and s: "s = a @ b"
    by (auto simp: sql_Cons rbind_Inr)
  from Cons.IH [OF b] s a show ?case
    by (cases p) (auto simp: render_add_plain quoteIdent_def quoteTable_def pg_schema_def Let_def rbind_Inr split: if_splits option.splits)
qed (simp add: sql_Nil)

subsection \<open>Tame templates\<close>

text \<open>A character at which two pieces of text can meet: it joins no word of one with the other.\<close>

definition soft :: "char \<Rightarrow> bool" where
  "soft c \<longleftrightarrow> \<not> ident_cont c"

fun no_begin :: "string \<Rightarrow> bool" where
  "no_begin [] = True"
| "no_begin (c # s) = (to_upper (take 5 (c # s)) \<noteq> ''BEGIN'' \<and> no_begin s)"

definition text_ok :: "Dialect \<Rightarrow> string \<Rightarrow> bool" where
  "text_ok d s \<longleftrightarrow> s \<noteq> [] \<and> list_all (inert d) s \<and> no_begin s"

fun part_ok :: "Dialect \<Rightarrow> Part \<Rightarrow> bool" where
  "part_ok d (T s) = text_ok d s"
| "part_ok d _ = True"

fun meet :: "Part \<Rightarrow> Part \<Rightarrow> bool" where
  "meet (T s) (T u) = (soft (last s) \<or> soft (hd u))"
| "meet (T s) (L v) = soft (last s)"
| "meet (T s) q = True"
| "meet p (T u) = True"
| "meet p q = False"

definition tame :: "Dialect \<Rightarrow> Part list \<Rightarrow> bool" where
  "tame d ps \<longleftrightarrow> list_all (part_ok d) ps \<and> successively meet ps"

lemma no_begin_atomic: "no_begin s \<Longrightarrow> no_atomic s"
  by (induction s) auto

lemma begin_letters: "to_upper (take 5 s) = ''BEGIN'' \<Longrightarrow> 5 \<le> length s \<and> (\<forall>k < 5. \<not> soft (s ! k))"
proof (intro conjI allI impI)
  assume a: "to_upper (take 5 s) = ''BEGIN''"
  then have "length (to_upper (take 5 s)) = 5" by simp
  then show l: "5 \<le> length s" by simp
  fix k :: nat assume "k < 5"
  then have "upper_char (s ! k) = ''BEGIN'' ! k" using a l by (metis length_take min.absorb2 nth_map nth_take)
  moreover have "js_alpha (''BEGIN'' ! k)" using \<open>k < 5\<close> by (auto simp: js_alpha_def less_Suc_eq numeral_eq_Suc)
  moreover have "js_alpha (upper_char c) \<Longrightarrow> js_alpha c" for c
    by (auto simp: js_alpha_def upper_char_def split: if_splits)
  ultimately have "js_alpha (s ! k)" by metis
  then show "\<not> soft (s ! k)" by (simp add: soft_def ident_cont_def js_word_def)
qed

lemma no_begin_append:
  assumes "no_begin p" and "no_begin q" and "p = [] \<or> q = [] \<or> soft (last p) \<or> soft (hd q)"
  shows "no_begin (p @ q)"
  using assms(1,3)
proof (induction p)
  case Nil
  then show ?case using assms(2) by simp
next
  case (Cons c p)
  have "to_upper (take 5 ((c # p) @ q)) \<noteq> ''BEGIN''"
  proof
    assume b: "to_upper (take 5 ((c # p) @ q)) = ''BEGIN''"
    note l = begin_letters [OF b]
    show False
    proof (cases "length (c # p) < 5")
      case True
      then have q: "q \<noteq> []" using l by auto
      have "((c # p) @ q) ! (length (c # p) - 1) = last (c # p)" by (simp add: nth_append last_conv_nth)
      moreover have "((c # p) @ q) ! length (c # p) = hd q" using q by (simp add: nth_append hd_conv_nth)
      ultimately show False using l True Cons.prems(2) q
        by (metis Suc_lessD diff_less length_Cons list.distinct(1) order_less_trans zero_less_Suc zero_less_one)
    next
      case False
      then have e: "take 5 ((c # p) @ q) = take 5 (c # p)" unfolding take_append by simp
      from b have "to_upper (take 5 (c # p)) = ''BEGIN''" unfolding e .
      with Cons.prems(1) show False by simp
    qed
  qed
  moreover have "no_begin (p @ q)" using Cons.IH Cons.prems by (auto split: if_splits)
  ultimately show ?case by simp
qed

fun plain_ok :: "Piece \<Rightarrow> bool" where
  "plain_ok (Plain s) = no_begin s"
| "plain_ok _ = True"

lemma pieces_text:
  assumes "s \<noteq> []"
  shows "\<exists>q ps. pieces d (T s # r) = Plain (s @ q) # ps"
proof (cases "pieces d r")
  case (Cons p ps)
  with assms show ?thesis by (cases p) auto
qed (use assms in auto)

lemma tame_pieces:
  "tame d ps \<Longrightarrow> pieces_ok d (pieces d ps) \<and> list_all plain_ok (pieces d ps)"
proof (induction ps)
  case (Cons p ps)
  then have ps: "pieces_ok d (pieces d ps)" "list_all plain_ok (pieces d ps)" and p: "part_ok d p"
    by (auto simp: tame_def successively_Cons)
  have m: "ps = [] \<or> meet p (hd ps)" using Cons.prems by (cases ps) (auto simp: tame_def)
  have shape: "pieces d ps = [] \<or> (\<exists>t qs. pieces d ps = Plain t # qs)" if "ps = [] \<or> (\<exists>u r. ps = T u # r \<and> u \<noteq> [])"
    using that pieces_text [of _ d] by (metis pieces.simps(1))
  have next_T: "ps = [] \<or> (\<exists>u r. ps = T u # r \<and> u \<noteq> [])" if "\<not> (\<exists>s. p = T s)"
  proof (cases ps)
    case (Cons q r)
    with that m obtain u where "q = T u" by (cases p; cases q) auto
    moreover have "part_ok d q" using Cons.prems Cons by (simp add: tame_def)
    ultimately show ?thesis using Cons by (simp add: text_ok_def)
  qed simp
  show ?case
  proof (cases p)
    case (T s)
    with p have s: "s \<noteq> []" "list_all (inert d) s" "no_begin s" by (auto simp: text_ok_def)
    show ?thesis
    proof (cases ps)
      case Nil
      with T s no_begin_atomic show ?thesis by auto
    next
      case (Cons q r)
      show ?thesis
      proof (cases q)
        case q: (T u)
        then have u: "u \<noteq> []" using Cons.prems Cons by (simp add: tame_def text_ok_def)
        obtain v qs where v: "pieces d ps = Plain (u @ v) # qs" using pieces_text [OF u, of d r] Cons q by auto
        define w where "w = u @ v"
        have m': "soft (last s) \<or> soft (hd w)" using m Cons q T u by (auto simp: w_def)
        have w: "pieces d ps = Plain w # qs" "no_begin w" using ps v by (simp_all add: w_def)
        have "no_begin (s @ w)" by (rule no_begin_append [OF s(3) w(2)]) (use m' in blast)
        moreover have "last (s @ w) = last w" using u by (simp add: w_def)
        ultimately show ?thesis using ps w(1) s T no_begin_atomic [of "s @ w"] by (auto split: list.splits Piece.splits)
      next
        case (L v)
        then have "soft (last s)" using m Cons T by simp
        with L Cons ps s T show ?thesis using no_begin_atomic by (auto simp: soft_def)
      qed (use Cons ps s T no_begin_atomic in auto)
    qed
  next
    case (I n)
    with shape next_T have "pieces d ps = [] \<or> (\<exists>t qs. pieces d ps = Plain t # qs)" by blast
    with I ps show ?thesis by (elim disjE exE) simp_all
  next
    case (Q ns n)
    with shape next_T have "pieces d ps = [] \<or> (\<exists>t qs. pieces d ps = Plain t # qs)" by blast
    then have "pieces_ok d (Name n # pieces d ps)" using ps by (elim disjE exE) simp_all
    moreover have "list_all (inert d) ''.''" "no_begin ''.''" "no_atomic ''.''" by (simp_all add: inert_def)
    ultimately show ?thesis using Q ps by simp
  next
    case (L v)
    with shape next_T have "pieces d ps = [] \<or> (\<exists>t qs. pieces d ps = Plain t # qs)" by blast
    with L ps show ?thesis by (elim disjE exE) simp_all
  qed
qed (simp add: tame_def)

text \<open>How a template starts and ends, and what makes it a statement.\<close>

definition starts :: "Part list \<Rightarrow> bool" where
  "starts ps \<longleftrightarrow> (case ps of T s # _ \<Rightarrow> s \<noteq> [] \<and> \<not> js_space (hd s)
     \<and> starts_other ''delimiter'' s \<and> starts_other ''set'' s \<and> starts_other ''copy'' s | _ \<Rightarrow> False)"

definition stops :: "Part list \<Rightarrow> bool" where
  "stops ps \<longleftrightarrow> (case last ps of T s \<Rightarrow> \<not> js_space (last s) | _ \<Rightarrow> True)"

definition statement :: "Dialect \<Rightarrow> Part list \<Rightarrow> bool" where
  "statement d ps \<longleftrightarrow> tame d ps \<and> starts ps \<and> stops ps"

lemma starts_other_append: "starts_other kw s \<Longrightarrow> starts_other kw (s @ u)"
  unfolding starts_other_def by (auto simp: prefix_def)

lemma quotes_not_space: "\<not> js_space (last (quoteIdentifier d n))" "\<not> js_space (last (quoteLiteral d v))"
  by (cases d; simp add: quoteIdentifier_def quoteLiteral_def Let_def js_space_def)+

lemma last_render: "ps \<noteq> [] \<Longrightarrow> list_all (part_ok d) ps \<Longrightarrow> stops ps \<Longrightarrow> render d (pieces d ps) \<noteq> [] \<and> \<not> js_space (last (render d (pieces d ps)))"
proof (induction ps)
  case (Cons p ps)
  show ?case
  proof (cases "ps = []")
    case True
    with Cons.prems show ?thesis
      by (cases p; cases d) (auto simp: stops_def text_ok_def js_space_def quoteIdentifier_def quoteLiteral_def Let_def)
  next
    case False
    with Cons have IH: "render d (pieces d ps) \<noteq> []" "\<not> js_space (last (render d (pieces d ps)))"
      by (auto simp: stops_def)
    then show ?thesis by (cases p) (auto simp: render_add_plain)
  qed
qed simp

lemma statement_ok: "statement d ps \<Longrightarrow> statement_ok d (pieces d ps)"
proof -
  assume st: "statement d ps"
  then obtain s r where ps: "ps = T s # r" and s: "s \<noteq> []" "\<not> js_space (hd s)"
      "starts_other ''delimiter'' s" "starts_other ''set'' s" "starts_other ''copy'' s"
    by (auto simp: statement_def starts_def split: list.splits Part.splits)
  obtain q qs where q: "pieces d ps = Plain (s @ q) # qs" using pieces_text [OF s(1)] ps by blast
  have "\<not> js_space (last (render d (pieces d ps)))"
    using st last_render [of ps d] ps by (auto simp: statement_def tame_def)
  moreover have "pieces_ok d (pieces d ps)" using st tame_pieces [of d ps] by (simp add: statement_def)
  ultimately show ?thesis using q s starts_other_append by (simp add: statement_ok_def)
qed

text \<open>A statement that the splitter gives back.\<close>

definition clean :: "Dialect \<Rightarrow> string \<Rightarrow> bool" where
  "clean d s \<longleftrightarrow> (\<exists>ps. statement_ok d ps \<and> s = render d ps)"

lemma sql_clean: "sql d ps = Inr s \<Longrightarrow> statement d ps \<Longrightarrow> clean d s"
  using sql_pieces statement_ok unfolding clean_def by blast

lemma stmts_clean: "stmts d pss = Inr ss \<Longrightarrow> list_all (statement d) pss \<Longrightarrow> list_all (clean d) ss"
  by (induction pss arbitrary: ss) (auto simp: rbind_Inr sql_clean)

lemma transaction_clean: "clean d ''BEGIN'' \<and> clean d ''COMMIT''"
proof -
  have "statement_ok d [Plain ''BEGIN'']" "statement_ok d [Plain ''COMMIT'']" by (cases d; code_simp)+
  moreover have "render d [Plain s] = s" for s by simp
  ultimately show ?thesis unfolding clean_def by metis
qed

lemma inTransaction_clean: "list_all (clean d) ss \<Longrightarrow> list_all (clean d) (inTransaction ss)"
  by (simp add: inTransaction_def transaction_clean)

lemma rconcat_simps [simp]:
  "rconcat [] = Inr []" "rconcat (r # rs) = rbind r (\<lambda>a. rbind (rconcat rs) (\<lambda>b. Inr (a @ b)))"
  by (cases r; cases "rmap id rs"; simp add: rconcat_def)+

definition yields :: "(string \<Rightarrow> bool) \<Rightarrow> (AdapterError, string list) result \<Rightarrow> bool" where
  "yields P r \<longleftrightarrow> (case r of Inr ss \<Rightarrow> list_all P ss | Inl e \<Rightarrow> True)"

named_theorems yields_intros \<open>what the results of the builders consist of\<close>

lemma yieldsD: "yields P r \<Longrightarrow> r = Inr ss \<Longrightarrow> list_all P ss"
  by (simp add: yields_def)

lemma yields_Inl [simp]: "yields P (Inl e)"
  by (simp add: yields_def)

lemma yields_errors [simp]: "yields P (unsupported m)" "yields P (invalid m)"
  by (simp_all add: unsupported_def invalid_def)

lemma yields_Inr [simp]: "yields P (Inr ss) = list_all P ss"
  by (simp add: yields_def)

lemma yields_rbind [yields_intros]: "(\<And>x. r = Inr x \<Longrightarrow> yields P (f x)) \<Longrightarrow> yields P (rbind r f)"
  by (cases r) simp_all

lemma yields_stmts [yields_intros]: "list_all (statement d) pss \<Longrightarrow> yields (clean d) (stmts d pss)"
  using stmts_clean by (auto simp: yields_def split: sum.split)

lemma yields_transaction [yields_intros]: "yields (clean d) r \<Longrightarrow> yields (clean d) (in_transaction r)"
  by (cases r) (simp_all add: inTransaction_clean)

lemma yields_on_table [yields_intros]: "yields P r \<Longrightarrow> yields P (on_table ns t r)" "yields P r \<Longrightarrow> yields P (my_on_table ns t r)"
  unfolding on_table_def my_on_table_def by (rule yields_rbind, assumption)+

lemma yields_rconcat [yields_intros]: "list_all (yields P) rs \<Longrightarrow> yields P (rconcat rs)"
proof (induction rs)
  case (Cons r rs)
  then show ?case by (cases r; cases "rconcat rs") simp_all
qed simp

lemma yields_one: "sql d ps = r \<Longrightarrow> statement d ps \<Longrightarrow> yields (clean d) (rbind r (\<lambda>s. Inr [s]))"
  using sql_clean by (cases r) auto

subsection \<open>Rules for templates\<close>

named_theorems tame_simps \<open>how a template is tame\<close>

lemma soft_chars [tame_simps]:
  "soft CHR '' ''" "soft CHR ''(''" "soft CHR '')''" "soft CHR '',''" "soft CHR ''.''" "soft CHR '':''" "soft (CHR 0x0A)"
  by (simp_all add: soft_def ident_cont_def js_word_def js_alpha_def js_digit_def non_ascii_def)

lemma tame_basic [tame_simps]:
  "tame d []" "tame d [p] = part_ok d p" "tame d (p # q # r) \<longleftrightarrow> part_ok d p \<and> meet p q \<and> tame d (q # r)"
  by (auto simp: tame_def)

lemma tame_append_iff:
  "tame d (ps @ qs) \<longleftrightarrow> tame d ps \<and> tame d qs \<and> (ps = [] \<or> qs = [] \<or> meet (last ps) (hd qs))"
  by (auto simp: tame_def successively_append_iff)

lemma meet_soft: "soft (last s) \<Longrightarrow> meet (T s) p" "soft (hd s) \<Longrightarrow> meet p (T s)"
  by (cases p; simp)+

lemma tame_soft [tame_simps]: "soft (last s) \<Longrightarrow> tame d (T s # ps) \<longleftrightarrow> text_ok d s \<and> tame d ps"
  using meet_soft(1) by (cases ps) (auto simp: tame_def)

lemma tame_glue: "soft (hd s) \<Longrightarrow> tame d (ps @ T s # r) \<longleftrightarrow> tame d ps \<and> tame d (T s # r)"
  using meet_soft(2) by (auto simp: tame_append_iff)

lemma tame_sep_by:
  assumes "text_ok d sep" and "soft (hd sep)" and "soft (last sep)" and "list_all (tame d) ps"
  shows "tame d (sep_by sep ps)"
  using assms(4) by (induction ps rule: induct_list012) (use assms(1-3) in \<open>auto simp: tame_glue tame_soft tame_basic(1)\<close>)

lemma text_seps [tame_simps]: "text_ok d '', ''" "text_ok d '' ''" "text_ok d '' AND ''" "text_ok d '' UNION ALL ''" "text_ok d ('','' @ nl @ ''  '')"
  by (cases d; code_simp)+

lemma tame_names [tame_simps]: "tame d (names ns)" "tame d (tables nsp ts)"
  unfolding names_def tables_def by (rule tame_sep_by; simp add: soft_chars text_seps tame_basic list_all_iff)+

text \<open>A block of names between two texts that end and start softly.\<close>

lemma tame_block [tame_simps]:
  "soft (last s) \<Longrightarrow> soft (hd u) \<Longrightarrow> tame d (T s # names ns @ T u # r) \<longleftrightarrow> text_ok d s \<and> tame d (T u # r)"
  "soft (last s) \<Longrightarrow> tame d (T s # tables nsp ts) \<longleftrightarrow> text_ok d s"
  by (simp_all add: tame_soft tame_glue tame_names)

lemma text_ok_append: "text_ok d s \<Longrightarrow> text_ok d u \<Longrightarrow> soft (last s) \<or> soft (hd u) \<Longrightarrow> text_ok d (s @ u)"
  by (simp add: text_ok_def no_begin_append)

text \<open>The words of the templates.\<close>

lemma text_ok_any: "text_ok Postgres s \<Longrightarrow> text_ok d s"
  by (auto simp: text_ok_def inert_def list_all_iff)

lemma words_ok [tame_simps]:
  "text_ok d '' ''"
  "text_ok d ''  PARTITION ''"
  "text_ok d '' (''"
  "text_ok d '' (LIKE ''"
  "text_ok d '' = ''"
  "text_ok d '' ADD COLUMN ''"
  "text_ok d '' ADD CONSTRAINT ''"
  "text_ok d '' ADD PARTITION (PARTITION ''"
  "text_ok d '' ADD PRIMARY KEY (''"
  "text_ok d '' AFTER ''"
  "text_ok d '' ALGORITHM=INPLACE LOCK=NONE''"
  "text_ok d '' ALTER COLUMN ''"
  "text_ok d '' AND application_name = ''"
  "text_ok d '' AND pid <> pg_backend_pid()''"
  "text_ok d '' AND usename = session_user AND state = ''"
  "text_ok d '' AS ''"
  "text_ok d '' AS BINARY)''"
  "text_ok d '' AS BINARY) <> CAST(''"
  "text_ok d '' AS SELECT DISTINCT ''"
  "text_ok d '' CASCADE''"
  "text_ok d '' COLLATE ''"
  "text_ok d '' COMMENT ''"
  "text_ok d '' DESC''"
  "text_ok d '' DETACH PARTITION ''"
  "text_ok d '' DISABLE''"
  "text_ok d '' DROP COLUMN ''"
  "text_ok d '' DROP CONSTRAINT ''"
  "text_ok d '' DROP DEFAULT''"
  "text_ok d '' DROP EXPRESSION''"
  "text_ok d '' DROP FOREIGN KEY ''"
  "text_ok d '' DROP INDEX ''"
  "text_ok d '' DROP NOT NULL''"
  "text_ok d '' DROP PARTITION ''"
  "text_ok d '' ENABLE''"
  "text_ok d '' FIRST''"
  "text_ok d '' FOR EACH ROW EXECUTE FUNCTION ''"
  "text_ok d '' FOREIGN KEY (''"
  "text_ok d '' FROM ''"
  "text_ok d '' INCLUDING ALL)''"
  "text_ok d '' IS ''"
  "text_ok d '' IS DISTINCT FROM ''"
  "text_ok d '' IS NOT NULL''"
  "text_ok d '' LC_CTYPE ''"
  "text_ok d '' LIKE ''"
  "text_ok d '' ON ''"
  "text_ok d '' ON DELETE CASCADE''"
  "text_ok d '' ON DELETE NO ACTION''"
  "text_ok d '' ON DELETE RESTRICT''"
  "text_ok d '' ON DELETE SET DEFAULT''"
  "text_ok d '' ON DELETE SET NULL''"
  "text_ok d '' ON SCHEDULE ''"
  "text_ok d '' ON UPDATE CASCADE''"
  "text_ok d '' ON UPDATE NO ACTION''"
  "text_ok d '' ON UPDATE RESTRICT''"
  "text_ok d '' ON UPDATE SET DEFAULT''"
  "text_ok d '' ON UPDATE SET NULL''"
  "text_ok d '' ORDER BY ''"
  "text_ok d '' OVERRIDING SYSTEM VALUE SELECT * FROM ''"
  "text_ok d '' OWNED BY ''"
  "text_ok d '' PARTITION OF ''"
  "text_ok d '' REMOVE PARTITIONING''"
  "text_ok d '' RENAME COLUMN ''"
  "text_ok d '' RENAME INDEX ''"
  "text_ok d '' RENAME TO ''"
  "text_ok d '' SELECT * FROM ''"
  "text_ok d '' SET ''"
  "text_ok d '' SET DEFAULT ''"
  "text_ok d '' SET DEFAULT nextval(''"
  "text_ok d '' SET EXPRESSION AS (''"
  "text_ok d '' SET NOT NULL''"
  "text_ok d '' SET SCHEMA ''"
  "text_ok d '' TEMPLATE ''"
  "text_ok d '' TEMPLATE template0 LC_COLLATE ''"
  "text_ok d '' TO ''"
  "text_ok d '' TRUNCATE PARTITION ''"
  "text_ok d '' TYPE ''"
  "text_ok d '' USING ''"
  "text_ok d '' USING brin (''"
  "text_ok d '' USING btree (''"
  "text_ok d '' USING gin (''"
  "text_ok d '' USING gist (''"
  "text_ok d '' USING hash (''"
  "text_ok d '' USING spgist (''"
  "text_ok d '' WHERE ''"
  "text_ok d '' WITH (FORCE)''"
  "text_ok d ''(''"
  "text_ok d ''()''"
  "text_ok d '')''"
  "text_ok d '') OVERRIDING SYSTEM VALUE SELECT ''"
  "text_ok d '') REFERENCES ''"
  "text_ok d '') SELECT ''"
  "text_ok d '') STORED''"
  "text_ok d '') USING BTREE''"
  "text_ok d '') USING HASH''"
  "text_ok d '') VIRTUAL''"
  "text_ok d '', ''"
  "text_ok d '', ALGORITHM=INPLACE, LOCK=NONE''"
  "text_ok d ''.''"
  "text_ok d ''.* TO ''"
  "text_ok d ''::''"
  "text_ok d ''::regclass)''"
  "text_ok d ''@''"
  "text_ok d ''ADD FULLTEXT INDEX ''"
  "text_ok d ''ADD INDEX ''"
  "text_ok d ''ADD PRIMARY KEY (''"
  "text_ok d ''ADD SPATIAL INDEX ''"
  "text_ok d ''ADD UNIQUE INDEX ''"
  "text_ok d ''ALTER COLUMN ''"
  "text_ok d ''ALTER DATABASE ''"
  "text_ok d ''ALTER EVENT ''"
  "text_ok d ''ALTER INDEX ''"
  "text_ok d ''ALTER TABLE ''"
  "text_ok d ''ANALYZE ''"
  "text_ok d ''ANALYZE TABLE ''"
  "text_ok d ''AT ''"
  "text_ok d ''AUTO_INCREMENT''"
  "text_ok d ''CAST(''"
  "text_ok d ''CHANGE COLUMN ''"
  "text_ok d ''CHECK (''"
  "text_ok d ''CHECK TABLE ''"
  "text_ok d ''CHECKSUM TABLE ''"
  "text_ok d ''CLUSTER ''"
  "text_ok d ''COLLATE ''"
  "text_ok d ''COMMENT ''"
  "text_ok d ''COMMENT = ''"
  "text_ok d ''COMMENT ON COLUMN ''"
  "text_ok d ''COMMENT ON INDEX ''"
  "text_ok d ''COMMENT ON TABLE ''"
  "text_ok d ''CREATE ''"
  "text_ok d ''CREATE DATABASE ''"
  "text_ok d ''CREATE FULLTEXT INDEX ''"
  "text_ok d ''CREATE INDEX ''"
  "text_ok d ''CREATE INDEX CONCURRENTLY ''"
  "text_ok d ''CREATE SCHEMA ''"
  "text_ok d ''CREATE SEQUENCE ''"
  "text_ok d ''CREATE SPATIAL INDEX ''"
  "text_ok d ''CREATE TABLE ''"
  "text_ok d ''CREATE TRIGGER ''"
  "text_ok d ''CREATE UNIQUE INDEX ''"
  "text_ok d ''CREATE UNIQUE INDEX CONCURRENTLY ''"
  "text_ok d ''DEFAULT''"
  "text_ok d ''DEFAULT ''"
  "text_ok d ''DEFINER = ''"
  "text_ok d ''DROP COLUMN ''"
  "text_ok d ''DROP CONSTRAINT ''"
  "text_ok d ''DROP DATABASE ''"
  "text_ok d ''DROP EVENT ''"
  "text_ok d ''DROP FUNCTION IF EXISTS ''"
  "text_ok d ''DROP INDEX ''"
  "text_ok d ''DROP INDEX CONCURRENTLY ''"
  "text_ok d ''DROP INDEX CONCURRENTLY IF EXISTS ''"
  "text_ok d ''DROP INDEX IF EXISTS ''"
  "text_ok d ''DROP MATERIALIZED VIEW ''"
  "text_ok d ''DROP MATERIALIZED VIEW IF EXISTS ''"
  "text_ok d ''DROP PRIMARY KEY''"
  "text_ok d ''DROP PRIMARY KEY, ''"
  "text_ok d ''DROP SEQUENCE ''"
  "text_ok d ''DROP SEQUENCE IF EXISTS ''"
  "text_ok d ''DROP TABLE ''"
  "text_ok d ''DROP TABLE IF EXISTS ''"
  "text_ok d ''DROP TRIGGER ''"
  "text_ok d ''DROP VIEW ''"
  "text_ok d ''DROP VIEW IF EXISTS ''"
  "text_ok d ''ENDS ''"
  "text_ok d ''EVENT ''"
  "text_ok d ''FLUSH TABLES ''"
  "text_ok d ''GENERATED ALWAYS AS (''"
  "text_ok d ''GENERATED BY DEFAULT AS IDENTITY''"
  "text_ok d ''INSERT INTO ''"
  "text_ok d ''MODIFY COLUMN ''"
  "text_ok d ''NOT NULL''"
  "text_ok d ''NULL''"
  "text_ok d ''ON UPDATE ''"
  "text_ok d ''OPTIMIZE TABLE ''"
  "text_ok d ''PRIMARY KEY (''"
  "text_ok d ''REGEXP_REPLACE(''"
  "text_ok d ''RENAME TABLE ''"
  "text_ok d ''REPAIR TABLE ''"
  "text_ok d ''REPLACE(''"
  "text_ok d ''SELECT ''"
  "text_ok d ''SELECT pg_reload_conf()''"
  "text_ok d ''SELECT pg_terminate_backend(pid, 5000) FROM pg_stat_activity WHERE datname = ''"
  "text_ok d ''STARTS ''"
  "text_ok d ''TRIGGER ''"
  "text_ok d ''TRUNCATE TABLE ''"
  "text_ok d ''UPDATE ''"
  "text_ok d ''VACUUM (ANALYZE) ''"
  "text_ok d ''VACUUM (FULL, ANALYZE) ''"
  "text_ok d ''regexp_replace(''"
  "text_ok d ''replace(''"
  by (rule text_ok_any, code_simp)+

lemma heads_ok [tame_simps]:
  "starts (T ''ALTER COLUMN '' # r)"
  "starts (T ''ALTER DATABASE '' # r)"
  "starts (T ''ALTER EVENT '' # r)"
  "starts (T ''ALTER INDEX '' # r)"
  "starts (T ''ALTER TABLE '' # r)"
  "starts (T ''ANALYZE '' # r)"
  "starts (T ''ANALYZE TABLE '' # r)"
  "starts (T ''CHECK ('' # r)"
  "starts (T ''CHECK TABLE '' # r)"
  "starts (T ''CHECKSUM TABLE '' # r)"
  "starts (T ''CLUSTER '' # r)"
  "starts (T ''COMMENT ON COLUMN '' # r)"
  "starts (T ''COMMENT ON INDEX '' # r)"
  "starts (T ''COMMENT ON TABLE '' # r)"
  "starts (T ''CREATE '' # r)"
  "starts (T ''CREATE DATABASE '' # r)"
  "starts (T ''CREATE FULLTEXT INDEX '' # r)"
  "starts (T ''CREATE INDEX '' # r)"
  "starts (T ''CREATE INDEX CONCURRENTLY '' # r)"
  "starts (T ''CREATE SCHEMA '' # r)"
  "starts (T ''CREATE SEQUENCE '' # r)"
  "starts (T ''CREATE SPATIAL INDEX '' # r)"
  "starts (T ''CREATE TABLE '' # r)"
  "starts (T ''CREATE TRIGGER '' # r)"
  "starts (T ''CREATE UNIQUE INDEX '' # r)"
  "starts (T ''CREATE UNIQUE INDEX CONCURRENTLY '' # r)"
  "starts (T ''DROP COLUMN '' # r)"
  "starts (T ''DROP CONSTRAINT '' # r)"
  "starts (T ''DROP DATABASE '' # r)"
  "starts (T ''DROP EVENT '' # r)"
  "starts (T ''DROP FUNCTION IF EXISTS '' # r)"
  "starts (T ''DROP INDEX '' # r)"
  "starts (T ''DROP INDEX CONCURRENTLY '' # r)"
  "starts (T ''DROP INDEX CONCURRENTLY IF EXISTS '' # r)"
  "starts (T ''DROP INDEX IF EXISTS '' # r)"
  "starts (T ''DROP MATERIALIZED VIEW '' # r)"
  "starts (T ''DROP MATERIALIZED VIEW IF EXISTS '' # r)"
  "starts (T ''DROP PRIMARY KEY'' # r)"
  "starts (T ''DROP PRIMARY KEY, '' # r)"
  "starts (T ''DROP SEQUENCE '' # r)"
  "starts (T ''DROP SEQUENCE IF EXISTS '' # r)"
  "starts (T ''DROP TABLE '' # r)"
  "starts (T ''DROP TABLE IF EXISTS '' # r)"
  "starts (T ''DROP TRIGGER '' # r)"
  "starts (T ''DROP VIEW '' # r)"
  "starts (T ''DROP VIEW IF EXISTS '' # r)"
  "starts (T ''FLUSH TABLES '' # r)"
  "starts (T ''INSERT INTO '' # r)"
  "starts (T ''OPTIMIZE TABLE '' # r)"
  "starts (T ''RENAME TABLE '' # r)"
  "starts (T ''REPAIR TABLE '' # r)"
  "starts (T ''SELECT '' # r)"
  "starts (T ''SELECT pg_reload_conf()'' # r)"
  "starts (T ''SELECT pg_terminate_backend(pid, 5000) FROM pg_stat_activity WHERE datname = '' # r)"
  "starts (T ''TRUNCATE TABLE '' # r)"
  "starts (T ''UPDATE '' # r)"
  "starts (T ''VACUUM (ANALYZE) '' # r)"
  "starts (T ''VACUUM (FULL, ANALYZE) '' # r)"
  unfolding starts_def by (simp; code_simp)+

lemma text_layout [tame_simps]: "text_ok d ('' ('' @ nl @ ''  '')" "text_ok d (nl @ '')'')"
  by (cases d; code_simp)+

end
