(* ===== verification/Ddl_Facts.thy ===== *)
theory Ddl_Facts
  imports Ddl_Script
begin

text \<open>
  What the builders of structure changes promise.
\<close>

subsection \<open>Operations made of names and values\<close>

definition ddl_build :: "Dialect \<Rightarrow> Namespace \<Rightarrow> DdlOp \<Rightarrow> (AdapterError, string list) result" where
  "ddl_build d = (if d = Mysql then mysqlDdl_build else pgDdl_build)"

text \<open>Free text that puts nothing but plain characters into a statement, and does not end it with a space.\<close>

definition plain_text :: "Dialect \<Rightarrow> string \<Rightarrow> bool" where
  "plain_text d s \<longleftrightarrow> text_ok d s \<and> \<not> js_space (last s)"

definition plain_column :: "Dialect \<Rightarrow> ColumnSpec \<Rightarrow> bool" where
  "plain_column d c \<longleftrightarrow> plain_text d (cs_dataType c)
     \<and> (case cs_default c of
          Some (DefaultExpression e) \<Rightarrow> plain_text d (if d = Mysql then defaultExpression e else e) | _ \<Rightarrow> True)
     \<and> (given (cs_collation c) \<longrightarrow> plain_text d (the (cs_collation c)))
     \<and> (given (cs_onUpdate c) \<longrightarrow> plain_text d (the (cs_onUpdate c)))
     \<and> (given (cs_check c) \<longrightarrow> plain_text d (the (cs_check c)))
     \<and> (case cs_generated c of Some g \<Rightarrow> plain_text d (gc_expression g) | None \<Rightarrow> True)"

fun plain_op :: "Dialect \<Rightarrow> DdlOp \<Rightarrow> bool" where
  "plain_op d (OpCreateSchema name) = True"
| "plain_op d (OpDropDatabase name) = True"
| "plain_op d (OpDropDatabases ns) = True"
| "plain_op d (OpRenameDatabase name newName ts collation) = (collation = None)"
| "plain_op d (OpMoveTable t to) = True"
| "plain_op d (OpDropTables ts) = (ts \<noteq> [])"
| "plain_op d (OpTruncateTables ts) = (ts \<noteq> [])"
| "plain_op d (OpDropObjects obs) = True"
| "plain_op d (OpRenameTables rs) = (rs \<noteq> [])"
| "plain_op d (OpTruncateTable t) = True"
| "plain_op d (OpRenameTable t newName) = True"
| "plain_op d (OpDropTable t kind) = True"
| "plain_op d (OpDropColumn t name) = True"
| "plain_op d (OpDropColumns t cs) = (cs \<noteq> [])"
| "plain_op d (OpSetPrimaryKey t cs current) = True"
| "plain_op d (OpAddIndex ix) = True"
| "plain_op d (OpDropIndex t name online) = True"
| "plain_op d (OpRenameIndex t name newName) = True"
| "plain_op d (OpAlterIndex t name ix) = True"
| "plain_op d (OpAddForeignKey t fk) = True"
| "plain_op d (OpDropForeignKey t name) = True"
| "plain_op d (OpReplaceInColumn op) = True"
| "plain_op d (OpSplitTable op) = (sp_keyColumns op \<noteq> [] \<and> sp_columns op \<noteq> [])"
| "plain_op d (OpMoveRepeatingGroup op) = (mg_columns op \<noteq> [])"
| "plain_op d (OpOrderTable t column desc ix) = True"
| "plain_op d (OpMaintainTable t action) = True"
| "plain_op d (OpMaintainTables ts action) = (ts \<noteq> [])"
| "plain_op d (OpDropTrigger name t) = True"
| "plain_op d (OpAddColumn t c pos key) = plain_column d c"
| "plain_op d (OpModifyColumn t change pos) = plain_column d (cc_column change)"
| "plain_op d (OpModifyColumns t changes) = (changes \<noteq> [] \<and> list_all (\<lambda>c. plain_column d (cc_column c)) changes)"
| "plain_op d (OpCreateTable op) = (ct_columns op \<noteq> [] \<and> list_all (plain_column d) (ct_columns op) \<and> ct_partitionBy op = None
     \<and> (given (ct_engine op) \<longrightarrow> plain_text d (the (ct_engine op))) \<and> (given (ct_collation op) \<longrightarrow> plain_text d (the (ct_collation op))))"
| "plain_op d _ = False"

subsection \<open>Templates of lists\<close>

declare rmap.simps [simp del]

lemma stops_simps [tame_simps]:
  "stops [T s] \<longleftrightarrow> \<not> js_space (last s)" "stops [I n]" "stops [Q ns t]" "stops [L v]"
  "stops (p # q # r) \<longleftrightarrow> stops (q # r)" "stops (ps @ q # qs) \<longleftrightarrow> stops (q # qs)"
  "stops (p # ps @ q # qs) \<longleftrightarrow> stops (q # qs)"
  by (simp_all add: stops_def)

lemma stops_append: "qs \<noteq> [] \<Longrightarrow> stops (ps @ qs) \<longleftrightarrow> stops qs" "qs \<noteq> [] \<Longrightarrow> stops (p # qs) \<longleftrightarrow> stops qs"
  by (simp_all add: stops_def)

lemma not_space [tame_simps]: "\<not> js_space CHR '')''"
  by (simp add: js_space_def)

lemma stops_sep_by:
  "ps \<noteq> [] \<Longrightarrow> list_all (\<lambda>p. p \<noteq> [] \<and> stops p) ps \<Longrightarrow> sep_by sep ps \<noteq> [] \<and> stops (sep_by sep ps)"
  by (induction ps rule: induct_list012) (auto simp: stops_append)

lemma list_block [tame_simps]:
  "ns \<noteq> [] \<Longrightarrow> stops (p # names ns)" "ts \<noteq> [] \<Longrightarrow> stops (p # tables nsp ts)"
proof -
  assume "ns \<noteq> []"
  then have "names ns \<noteq> [] \<and> stops (names ns)"
    unfolding names_def by (intro stops_sep_by) (auto simp: list_all_iff stops_simps)
  then show "stops (p # names ns)" by (simp add: stops_append)
next
  assume "ts \<noteq> []"
  then have "tables nsp ts \<noteq> [] \<and> stops (tables nsp ts)"
    unfolding tables_def by (intro stops_sep_by) (auto simp: list_all_iff stops_simps)
  then show "stops (p # tables nsp ts)" by (simp add: stops_append)
qed

lemma tame_opt [tame_simps]:
  "soft (hd u) \<Longrightarrow> tame d (ps @ T u # r) \<longleftrightarrow> tame d ps \<and> tame d (T u # r)"
  by (rule tame_glue)

text \<open>\<open>ALTER TABLE\<close> with a list of clauses.\<close>

definition clause :: "Dialect \<Rightarrow> Part list \<Rightarrow> bool" where
  "clause d ps \<longleftrightarrow> tame d ps \<and> ps \<noteq> [] \<and> stops ps"

lemma clauses:
  assumes "cs \<noteq> []" and "list_all (clause d) cs"
  shows "clause d (sep_by '', '' cs)"
  using tame_sep_by [of d "'', ''" cs] stops_sep_by [OF assms(1)] assms(2)
  by (auto simp: clause_def list_all_iff text_seps soft_chars)

lemma alter_clause: "clause d ps \<Longrightarrow> statement d (T ''ALTER TABLE '' # Q ns t # T '' '' # ps)"
  by (simp add: clause_def statement_def tame_simps stops_append)

lemma dropColumns_statement: "cs \<noteq> [] \<Longrightarrow> statement d (dropColumnsSql ns t cs)"
  unfolding dropColumnsSql_def append_Cons append_Nil
  by (intro alter_clause clauses) (auto simp: clause_def tame_simps list_all_iff)

subsection \<open>Shared builders\<close>

lemma statement_suffix:
  assumes "statement d ps" and "text_ok d s" and "soft (hd s)" and "\<not> js_space (last s)"
  shows "statement d (ps @ [T s])"
proof -
  have "ps \<noteq> []" using assms(1) by (auto simp: statement_def starts_def)
  then have "starts (ps @ [T s]) = starts ps" by (cases ps) (auto simp: starts_def split: Part.splits)
  with assms show ?thesis by (simp add: statement_def tame_simps)
qed

lemma fk_action_suffix:
  "statement d ps \<Longrightarrow> statement d (ps @ [T ('' ON UPDATE '' @ fk_action_text a)])"
  "statement d ps \<Longrightarrow> statement d (ps @ [T ('' ON DELETE '' @ fk_action_text a)])"
  by (cases a; rule statement_suffix; simp add: tame_simps js_space_def)+

lemma foreignKey_statement:
  "statement d (([T ''ALTER TABLE '', Q ns t, T '' ADD CONSTRAINT '', I n, T '' FOREIGN KEY (''] @ names cs
     @ [T '') REFERENCES '', Q ns' r, T '' (''] @ names rs @ [T '')''])
     @ (case u of Some a \<Rightarrow> [T ('' ON UPDATE '' @ fk_action_text a)] | None \<Rightarrow> [])
     @ (case v of Some a \<Rightarrow> [T ('' ON DELETE '' @ fk_action_text a)] | None \<Rightarrow> []))" (is "statement d (?ps @ _ @ _)")
proof -
  have "statement d ?ps" by (simp add: statement_def tame_simps)
  from this fk_action_suffix [OF this] fk_action_suffix(2) [OF fk_action_suffix(1) [OF this]] show ?thesis
    by (cases u; cases v) (simp_all only: option.case append_Nil append_Nil2 append_assoc)
qed

lemma yields_addForeignKey [yields_intros]:
  "yields (clean d) (rbind (addForeignKeySql d ns t fk) (\<lambda>s. Inr [s]))"
  unfolding addForeignKeySql_def using sql_clean [OF _ foreignKey_statement]
  by (auto simp: unsupported_def intro!: yields_rbind)

text \<open>Digits are plain text.\<close>

lemma digit_plain: "js_digit c \<Longrightarrow> inert d c \<and> upper_char c \<noteq> CHR ''B'' \<and> \<not> js_space c"
  by (auto simp: js_digit_def inert_def upper_char_def js_space_def less_eq_char_def)

lemma digits_no_begin: "\<forall>c \<in> set s. js_digit c \<Longrightarrow> no_begin s"
  by (induction s) (auto dest: digit_plain)

lemma number_text: "text_ok d (''('' @ show_nat n @ '')'')"
proof -
  have n: "show_nat n \<noteq> []" "\<forall>c \<in> set (show_nat n). js_digit c" by (simp_all add: show_nat_nonempty show_nat_digits)
  have "text_ok d (show_nat n)" using n digit_plain digits_no_begin by (auto simp: text_ok_def list_all_iff)
  then have "text_ok d (show_nat n @ '')'')" by (rule text_ok_append) (simp_all add: tame_simps)
  with text_ok_append [of d "''(''", OF _ this] show ?thesis by (simp add: tame_simps)
qed

lemma prefix_column: "clause d (I c # prefix_length i c)"
  using number_text [of d] by (auto simp: clause_def prefix_length_def tame_simps split: option.split)

lemma tame_columns: "list_all (clause d) cs \<Longrightarrow> tame d (sep_by '', '' cs)"
  by (rule tame_sep_by) (auto simp: tame_simps clause_def list_all_iff)

lemma indexParts_tame: "indexParts d i = Inr (k, m, cols) \<Longrightarrow> tame d cols"
  by (auto simp: indexParts_def unsupported_def Let_def tame_simps tame_columns list_all_iff prefix_column split: if_splits)

lemma indexParts_words:
  assumes "indexParts d i = Inr (k, m, cols)"
  shows "d = Postgres \<Longrightarrow> k \<in> {[], ''UNIQUE ''} \<and> m \<in> {[], '' USING btree'', '' USING hash'', '' USING gin'', '' USING gist'', '' USING brin'', '' USING spgist''}"
    and "d = Mysql \<Longrightarrow> k \<in> {[], ''UNIQUE '', ''FULLTEXT '', ''SPATIAL ''} \<and> m \<in> {[], '' USING BTREE'', '' USING HASH''}"
proof -
  have m: "index_method_text x \<in> {''btree'', ''hash'', ''gin'', ''gist'', ''brin'', ''spgist''}" for x by (cases x) auto
  have k: "to_upper (index_kind_text KindUnique) = ''UNIQUE''" "to_upper (index_kind_text KindFulltext) = ''FULLTEXT''"
    "to_upper (index_kind_text KindSpatial) = ''SPATIAL''" "to_upper (index_method_text Btree) = ''BTREE''" "to_upper (index_method_text Hash) = ''HASH''"
    by code_simp+
  show "d = Postgres \<Longrightarrow> k \<in> {[], ''UNIQUE ''} \<and> m \<in> {[], '' USING btree'', '' USING hash'', '' USING gin'', '' USING gist'', '' USING brin'', '' USING spgist''}"
    using assms m by (fastforce simp: indexParts_def unsupported_def Let_def split: if_splits option.splits)
  show "d = Mysql \<Longrightarrow> k \<in> {[], ''UNIQUE '', ''FULLTEXT '', ''SPATIAL ''} \<and> m \<in> {[], '' USING BTREE'', '' USING HASH''}"
    using assms k by (cases "kindOf i") (auto simp: indexParts_def unsupported_def Let_def split: if_splits option.splits)
qed

lemma index_comment_suffix: "statement Mysql ps \<Longrightarrow> statement Mysql (ps @ mysqlIndexComment i)"
proof -
  assume st: "statement Mysql ps"
  then have "starts (ps @ qs) = starts ps" for qs by (cases ps) (auto simp: statement_def starts_def split: Part.splits)
  with st show ?thesis
    by (auto simp: statement_def mysqlIndexComment_def opt_parts_def tame_simps split: option.split)
qed

lemma createIndex_statement:
  assumes "indexParts d op = Inr (k, m, cols)"
  shows "statement d (if d = Postgres
       then [T (''CREATE '' @ k @ ''INDEX '' @ (if c then ''CONCURRENTLY '' else [])), I n, T '' ON '', Q ns t, T (m @ '' ('')] @ cols @ [T '')'']
       else [T (''CREATE '' @ k @ ''INDEX ''), I n, T '' ON '', Q ns t, T '' (''] @ cols
             @ [T ('')'' @ m)] @ mysqlIndexComment op @ (if c then [T ONLINE_MYSQL] else []))"
proof (cases d)
  case Postgres
  define head where "head = ''CREATE '' @ k @ ''INDEX '' @ (if c then ''CONCURRENTLY '' else [])"
  define glue where "glue = m @ '' (''"
  have h: "starts (T head # r)" "text_ok Postgres head" for r
    using indexParts_words(1) [OF assms Postgres] by (auto simp: head_def tame_simps)
  have m: "text_ok Postgres glue" "soft (last glue)" using indexParts_words(1) [OF assms Postgres] by (auto simp: glue_def tame_simps)
  have "statement Postgres ([T head, I n, T '' ON '', Q ns t, T glue] @ cols @ [T '')''])"
    using h m indexParts_tame [OF assms] Postgres by (simp add: statement_def tame_simps)
  then show ?thesis using Postgres by (simp add: head_def glue_def)
next
  case Mysql
  define head where "head = ''CREATE '' @ k @ ''INDEX ''"
  define tail where "tail = '')'' @ m"
  have h: "starts (T head # r)" "text_ok Mysql head" for r
    using indexParts_words(2) [OF assms Mysql] by (auto simp: head_def tame_simps)
  have m: "text_ok Mysql tail" "soft (hd tail)" "\<not> js_space (last tail)"
    using indexParts_words(2) [OF assms Mysql] by (auto simp: tail_def tame_simps js_space_def)
  let ?ps = "[T head, I n, T '' ON '', Q ns t, T '' (''] @ cols @ [T tail]"
  have "statement Mysql ?ps" using h m indexParts_tame [OF assms] Mysql by (simp add: statement_def tame_simps)
  from index_comment_suffix [OF this] have st: "statement Mysql (?ps @ mysqlIndexComment op)" .
  have "statement Mysql ((?ps @ mysqlIndexComment op) @ [T ONLINE_MYSQL])"
    by (rule statement_suffix [OF st]) (simp_all add: ONLINE_MYSQL_def tame_simps js_space_def)
  with st show ?thesis using Mysql by (simp add: head_def tail_def)
qed

lemma createIndex_clean: "createIndexSql d ns op = Inr s \<Longrightarrow> clean d s"
proof -
  assume a: "createIndexSql d ns op = Inr s"
  then obtain k m cols where p: "indexParts d op = Inr (k, m, cols)" by (auto simp: createIndexSql_def rbind_Inr)
  from a p sql_clean [OF _ createIndex_statement [OF p]] show ?thesis by (auto simp: createIndexSql_def)
qed

lemma yields_single: "(\<And>s. r = Inr s \<Longrightarrow> clean d s) \<Longrightarrow> yields (clean d) (rbind r (\<lambda>s. Inr [s]))"
  by (cases r) simp_all

lemma yields_createIndex [yields_intros]: "yields (clean d) (rbind (createIndexSql d ns op) (\<lambda>s. Inr [s]))"
  using createIndex_clean yields_single by blast

lemma yields_indexComment [yields_intros]: "yields (clean Postgres) (pgIndexCommentSql ns i)"
  unfolding pgIndexCommentSql_def by (auto intro!: yields_intros simp: statement_def tame_simps)

lemma yields_columnKey [yields_intros]: "yields (clean d) (columnKeySql d ns t c key)"
  unfolding columnKeySql_def
  by (auto intro!: yields_intros simp: statement_def tame_simps split: option.split)

subsection \<open>Columns\<close>

lemma plain_textD: "plain_text d s \<Longrightarrow> text_ok d s \<and> \<not> js_space (last s) \<and> s \<noteq> []"
  by (simp add: plain_text_def text_ok_def)

text \<open>The words of a column's definition, one after another.\<close>

lemma spaced_clause:
  "cs \<noteq> [] \<Longrightarrow> list_all (clause d) cs \<Longrightarrow> clause d (sep_by '' '' cs)"
  using tame_sep_by [of d "'' ''" cs] stops_sep_by [of cs]
  by (auto simp: clause_def list_all_iff text_seps soft_chars)

lemma clause_text: "plain_text d s \<Longrightarrow> clause d [T s]"
  by (simp add: clause_def tame_simps plain_text_def)

lemma clause_prefixed:
  assumes "plain_text d s" and "text_ok d p" and "soft (last p)"
  shows "clause d [T (p @ s)]"
  using assms plain_textD [OF assms(1)] text_ok_append [of d p s] by (simp add: clause_def tame_simps)

lemma clause_wrapped:
  assumes "plain_text d s" and "text_ok d p" and "soft (last p)" and "text_ok d q" and "soft (hd q)" and "\<not> js_space (last q)"
  shows "clause d [T (p @ s @ q)]"
proof -
  have "text_ok d (s @ q)" by (rule text_ok_append) (use assms plain_textD [OF assms(1)] in simp_all)
  then have "text_ok d (p @ s @ q)" using text_ok_append [OF assms(2), of "s @ q"] assms(3) by simp
  moreover have "q \<noteq> []" using assms(4) by (simp add: text_ok_def)
  ultimately show ?thesis using assms(6) by (simp add: clause_def tame_simps)
qed

lemma column_words:
  "clause d [I n]" "clause d [T ''COLLATE '', I n]" "clause d [T ''NOT NULL'']" "clause d [T ''NULL'']" "clause d [T ''AUTO_INCREMENT'']"
  "clause d [T ''DEFAULT '', L v]" "clause d [T ''COMMENT '', L v]" "clause d [T ''GENERATED BY DEFAULT AS IDENTITY'']"
  by (simp_all add: clause_def tame_simps js_space_def)

lemma generated_words:
  "plain_text d e \<Longrightarrow> clause d [T (''GENERATED ALWAYS AS ('' @ e @ '') STORED'')]"
  "plain_text d e \<Longrightarrow> clause d [T (''GENERATED ALWAYS AS ('' @ e @ '') VIRTUAL'')]"
  by (rule clause_wrapped; simp add: tame_simps js_space_def)+

lemma pg_column_clause:
  assumes "plain_column Postgres c"
  shows "clause Postgres (pg_columnDef c)"
proof -
  let ?null = "if cs_nullable c then [] else [[T ''NOT NULL'']]"
  have n: "list_all (clause Postgres) ?null" by (simp add: column_words)
  have t: "clause Postgres [T (cs_dataType c)]" using assms clause_text by (simp add: plain_column_def)
  have k: "list_all (clause Postgres) (if given (cs_collation c) then [[T ''COLLATE '', I (the (cs_collation c))]] else [])"
    by (simp add: column_words)
  have g: "clause Postgres [T (generated_clause g)]" if "cs_generated c = Some g" for g
  proof -
    have "plain_text Postgres (gc_expression g)" using assms that by (simp add: plain_column_def)
    from generated_words [OF this] show ?thesis by (cases "gc_stored g") (simp_all add: generated_clause_def)
  qed
  have d: "clause Postgres (T ''DEFAULT '' # ps)" if "default_parts c = Some ps" for ps
  proof (cases "cs_default c")
    case (Some x)
    show ?thesis
    proof (cases x)
      case (DefaultLiteral v)
      with that Some have "ps = [L v]" by (simp add: default_parts_def)
      then show ?thesis by (simp only: column_words(6))
    next
      case (DefaultExpression e)
      with that Some have "ps = [T e]" by (simp add: default_parts_def split: if_splits)
      moreover have "plain_text Postgres e" using assms Some DefaultExpression by (simp add: plain_column_def)
      ultimately show ?thesis using clause_text [of Postgres e] by (simp add: clause_def tame_simps)
    qed
  qed (use that in \<open>simp add: default_parts_def\<close>)
  have d': "list_all (clause Postgres)
      (case (if cs_autoIncrement c then None else default_parts c) of Some d \<Rightarrow> [T ''DEFAULT '' # d] | None \<Rightarrow> [])"
    using d by (simp split: option.split)
  have "list_all (clause Postgres) (case cs_generated c of Some g \<Rightarrow> [[T (generated_clause g)]] @ ?null
      | None \<Rightarrow> (if cs_autoIncrement c then [[T ''GENERATED BY DEFAULT AS IDENTITY'']] else []) @ ?null
          @ (case (if cs_autoIncrement c then None else default_parts c) of Some d \<Rightarrow> [T ''DEFAULT '' # d] | None \<Rightarrow> []))"
    using n g d' column_words(8) by (cases "cs_generated c"; cases "cs_autoIncrement c") (simp_all split del: if_split)
  with t k show ?thesis unfolding pg_columnDef_def
    by (intro spaced_clause) (simp_all add: column_words(1) split del: if_split)
qed

lemma my_column_clause:
  assumes "plain_column Mysql c"
  shows "clause Mysql (my_columnDef c)"
proof -
  let ?null = "if cs_nullable c then [] else [[T ''NOT NULL'']]"
  have n: "list_all (clause Mysql) ?null" "clause Mysql [T (if cs_nullable c then ''NULL'' else ''NOT NULL'')]"
    by (simp_all add: column_words)
  have t: "clause Mysql [T (cs_dataType c)]" using assms clause_text by (simp add: plain_column_def)
  have p: "list_all (clause Mysql) (if given v then [[T (w @ the v)]] else [])"
    if "given v \<longrightarrow> plain_text Mysql (the v)" "text_ok Mysql w" "soft (last w)" for v w
    using that clause_prefixed [of Mysql "the v" w] by simp
  have k: "list_all (clause Mysql) (if given (cs_collation c) then [[T (''COLLATE '' @ the (cs_collation c))]] else [])"
    "list_all (clause Mysql) (if given (cs_onUpdate c) then [[T (''ON UPDATE '' @ the (cs_onUpdate c))]] else [])"
    by (rule p; use assms in \<open>simp add: plain_column_def tame_simps\<close>)+
  have ch: "list_all (clause Mysql) (if given (cs_check c) then [[T (''CHECK ('' @ the (cs_check c) @ '')'')]] else [])"
    using assms clause_wrapped [of Mysql "the (cs_check c)" "''CHECK (''" "'')''"] by (simp add: plain_column_def tame_simps)
  have g: "clause Mysql [T (''GENERATED ALWAYS AS ('' @ gc_expression g @ '') '' @ (if gc_stored g then ''STORED'' else ''VIRTUAL''))]"
    if "cs_generated c = Some g" for g
  proof -
    have "plain_text Mysql (gc_expression g)" using assms that by (simp add: plain_column_def)
    from generated_words [OF this] show ?thesis by (cases "gc_stored g") simp_all
  qed
  have d: "list_all (clause Mysql) (case cs_default c of
        Some (DefaultLiteral v) \<Rightarrow> [[T ''DEFAULT '', L v]]
      | Some (DefaultExpression e) \<Rightarrow> [[T (''DEFAULT '' @ defaultExpression e)]]
      | None \<Rightarrow> [])"
  proof (cases "cs_default c")
    case (Some x)
    then show ?thesis
    proof (cases x)
      case (DefaultExpression e)
      then have "plain_text Mysql (defaultExpression e)" using assms Some by (simp add: plain_column_def)
      from clause_prefixed [OF this, of "''DEFAULT ''"] show ?thesis using Some DefaultExpression by (simp add: tame_simps)
    qed (simp add: column_words)
  qed simp
  have i: "list_all (clause Mysql) (if cs_autoIncrement c then [[T ''AUTO_INCREMENT'']] else [])"
    "list_all (clause Mysql) (case cs_comment c of Some m \<Rightarrow> [[T ''COMMENT '', L m]] | None \<Rightarrow> [])"
    by (simp_all add: column_words split: option.split)
  show ?thesis unfolding my_columnDef_def
    by (rule spaced_clause, simp)
      (cases "cs_generated c"; use n t k ch g d i column_words(1) in \<open>simp split del: if_split\<close>)
qed

end
