(* ===== verification/Ddl_Run.thy ===== *)
theory Ddl_Run
  imports Ddl_Facts
begin

text \<open>
  Every operation of a builder whose free text is plain yields statements the splitter gives back, so the script
  made of them runs statement by statement as it was shown.
\<close>

subsection \<open>Shared operations\<close>

lemma statement_drop [tame_simps]:
  "statement Postgres [T (''DROP '' @ PG_DROP_KEYWORD k @ '' IF EXISTS ''), Q ns t, T '' CASCADE'']"
  "statement Postgres [T (''DROP '' @ PG_DROP_KEYWORD k @ '' ''), Q ns t]"
  "statement Mysql [T (''DROP '' @ my_drop_keyword k @ '' IF EXISTS ''), Q ns t]"
  "statement Mysql [T (''DROP '' @ my_drop_keyword k @ '' ''), Q ns t]"
  by (cases k; simp add: statement_def tame_simps js_space_def)+

lemma pg_simple:
  "yields (clean Postgres) (pgDdl_build ns (OpCreateSchema name))"
  "yields (clean Postgres) (pgDdl_build ns (OpDropDatabase name))"
  "yields (clean Postgres) (pgDdl_build ns (OpDropDatabases dbs))"
  "yields (clean Postgres) (pgDdl_build ns (OpRenameDatabase name newName tls collation))"
  "yields (clean Postgres) (pgDdl_build ns (OpMoveTable t to))"
  "ts \<noteq> [] \<Longrightarrow> yields (clean Postgres) (pgDdl_build ns (OpDropTables ts))"
  "ts \<noteq> [] \<Longrightarrow> yields (clean Postgres) (pgDdl_build ns (OpTruncateTables ts))"
  "yields (clean Postgres) (pgDdl_build ns (OpRenameTables rs))"
  "yields (clean Postgres) (pgDdl_build ns (OpTruncateTable t))"
  "yields (clean Postgres) (pgDdl_build ns (OpRenameTable t newName))"
  "yields (clean Postgres) (pgDdl_build ns (OpDropColumn t name))"
  "yields (clean Postgres) (pgDdl_build ns (OpDropForeignKey t name))"
  "yields (clean Postgres) (pgDdl_build ns (OpRenameIndex t name newName))"
  "yields (clean Postgres) (pgDdl_build ns (OpDropIndex t name online))"
  "yields (clean Postgres) (pgDdl_build ns (OpAddForeignKey t fk))"
  "cs \<noteq> [] \<Longrightarrow> yields (clean Postgres) (pgDdl_build ns (OpDropColumns t cs))"
  by (auto simp: statement_def tame_simps releaseOwnConnections_def list_all_iff js_space_def
        dropColumns_statement [unfolded statement_def]
      intro!: yields_intros)

lemma pg_drops:
  "yields (clean Postgres) (pgDdl_build ns (OpDropObjects obs))"
  "yields (clean Postgres) (pgDdl_build ns (OpDropTable t kind))"
  by (auto simp: list_all_iff statement_drop simp del: append_Cons intro!: yields_intros)

lemma my_simple:
  "yields (clean Mysql) (mysqlDdl_build ns (OpCreateSchema name))"
  "yields (clean Mysql) (mysqlDdl_build ns (OpDropDatabase name))"
  "yields (clean Mysql) (mysqlDdl_build ns (OpDropDatabases dbs))"
  "yields (clean Mysql) (mysqlDdl_build ns (OpMoveTable t to))"
  "ts \<noteq> [] \<Longrightarrow> yields (clean Mysql) (mysqlDdl_build ns (OpDropTables ts))"
  "ts \<noteq> [] \<Longrightarrow> yields (clean Mysql) (mysqlDdl_build ns (OpTruncateTables ts))"
  "yields (clean Mysql) (mysqlDdl_build ns (OpTruncateTable t))"
  "yields (clean Mysql) (mysqlDdl_build ns (OpRenameTable t newName))"
  "yields (clean Mysql) (mysqlDdl_build ns (OpDropColumn t name))"
  "yields (clean Mysql) (mysqlDdl_build ns (OpDropForeignKey t name))"
  "yields (clean Mysql) (mysqlDdl_build ns (OpRenameIndex t name newName))"
  "yields (clean Mysql) (mysqlDdl_build ns (OpDropIndex t name online))"
  "yields (clean Mysql) (mysqlDdl_build ns (OpAddForeignKey t fk))"
  "cs \<noteq> [] \<Longrightarrow> yields (clean Mysql) (mysqlDdl_build ns (OpDropColumns t cs))"
  "yields (clean Mysql) (mysqlDdl_build ns (OpAddIndex ix))"
  "yields (clean Mysql) (mysqlDdl_build ns (OpDropTrigger name t))"
  by (auto simp: statement_def tame_simps list_all_iff js_space_def my_dropIndex_def my_dropTrigger_def
        dropColumns_statement [unfolded statement_def] intro!: yields_intros)

lemma my_drops:
  "yields (clean Mysql) (mysqlDdl_build ns (OpDropObjects obs))"
  "yields (clean Mysql) (mysqlDdl_build ns (OpDropTable t kind))"
  by (auto simp: list_all_iff statement_drop simp del: append_Cons intro!: yields_intros)

lemma list_clause:
  assumes "xs \<noteq> []" and "list_all (\<lambda>x. clause d (f x)) xs" and "text_ok d s" and "soft (last s)" and "\<And>r. starts (T s # r)"
  shows "statement d (T s # sep_by '', '' (map f xs))"
proof -
  have "clause d (sep_by '', '' (map f xs))" by (rule clauses) (use assms(1,2) in \<open>simp_all add: list_all_iff\<close>)
  then show ?thesis using assms(3-5) by (simp add: statement_def clause_def tame_simps stops_append)
qed

lemma rename_clauses:
  "xs \<noteq> [] \<Longrightarrow> statement Mysql (T ''RENAME TABLE '' # sep_by '', '' (map (\<lambda>r. [Q (a r) (b r), T '' TO '', Q (c r) (e r)]) xs))"
  by (rule list_clause) (simp_all add: clause_def tame_simps list_all_iff)

lemma my_renames:
  "rs \<noteq> [] \<Longrightarrow> yields (clean Mysql) (mysqlDdl_build ns (OpRenameTables rs))"
  "yields (clean Mysql) (mysqlDdl_build ns (OpRenameDatabase name newName ts None))"
proof -
  show "rs \<noteq> [] \<Longrightarrow> yields (clean Mysql) (mysqlDdl_build ns (OpRenameTables rs))"
    by (simp add: yields_stmts rename_clauses)
  have "statement Mysql (my_createDatabaseSql newName None)"
    by (simp add: my_createDatabaseSql_def opt_parts_def statement_def tame_simps)
  then show "yields (clean Mysql) (mysqlDdl_build ns (OpRenameDatabase name newName ts None))"
    using rename_clauses by (cases ts) (auto simp: my_renameDatabase_def intro!: yields_stmts)
qed

subsection \<open>Keys, indexes, maintenance and copies of values\<close>

lemma key_clause: "clause d ([T ''ADD PRIMARY KEY (''] @ names cs @ [T '')''])"
  by (simp add: clause_def tame_simps)

lemma pg_setPrimaryKey_clean: "yields (clean Postgres) (pg_setPrimaryKey ns t cs current)"
  unfolding pg_setPrimaryKey_def
  by (auto simp: statement_def tame_simps opt_parts_def split: option.split intro!: yields_intros)

lemma my_setPrimaryKey_clean: "yields (clean Mysql) (mysqlDdl_build ns (OpSetPrimaryKey t cs current))"
  by (auto simp: statement_def tame_simps opt_parts_def split: option.split intro!: yields_intros)

lemma pg_addIndex_clean: "yields (clean Postgres) (pg_addIndex ns op)"
proof -
  have "yields (clean Postgres) (if on (ix_replacesUnusable op)
      then stmts Postgres [[T (''DROP INDEX '' @ (if on (ix_online op) then ''CONCURRENTLY '' else []) @ ''IF EXISTS ''),
             I (pg_schema ns), T ''.'', I (ix_name op)]] else Inr [])"
    by (auto simp: statement_def tame_simps intro!: yields_intros)
  then show ?thesis unfolding pg_addIndex_def
    by (auto simp: Let_def inTransaction_clean createIndex_clean yieldsD [OF yields_indexComment]
        dest: yieldsD simp del: append_Cons intro!: yields_on_table yields_rbind)
qed

lemma pg_alterIndex_clean: "yields (clean Postgres) (pg_alterIndex ns t name ix)"
  unfolding pg_alterIndex_def
  by (auto simp: statement_def tame_simps simp del: rconcat_simps intro!: yields_intros)

lemma pg_maintain_clean:
  "yields (clean Postgres) (pg_maintainTable ns t action)"
  "ts \<noteq> [] \<Longrightarrow> yields (clean Postgres) (pg_maintainTables ns ts action)"
  unfolding pg_maintainTable_def pg_maintainTables_def
  by (cases action; auto simp: statement_def tame_simps unsupported_def intro!: yields_intros)+

lemma my_maintain_clean:
  "yields (clean Mysql) (my_maintainTable ns t action)"
  "ts \<noteq> [] \<Longrightarrow> yields (clean Mysql) (my_maintainTables ns ts action)"
proof -
  have u: "upper_char CHR ''a'' = CHR ''A''" "upper_char CHR ''c'' = CHR ''C''" "upper_char CHR ''e'' = CHR ''E''" "upper_char CHR ''h'' = CHR ''H''" "upper_char CHR ''i'' = CHR ''I''" "upper_char CHR ''k'' = CHR ''K''" "upper_char CHR ''l'' = CHR ''L''" "upper_char CHR ''m'' = CHR ''M''" "upper_char CHR ''n'' = CHR ''N''" "upper_char CHR ''o'' = CHR ''O''" "upper_char CHR ''p'' = CHR ''P''" "upper_char CHR ''r'' = CHR ''R''" "upper_char CHR ''s'' = CHR ''S''" "upper_char CHR ''t'' = CHR ''T''" "upper_char CHR ''u'' = CHR ''U''" "upper_char CHR ''y'' = CHR ''Y''" "upper_char CHR ''z'' = CHR ''Z''" by code_simp+
  have f: "upper_char CHR ''f'' = CHR ''F''" by code_simp
  have fl: "text_ok Mysql ''FLUSH TABLE ''" "starts (T ''FLUSH TABLE '' # r)" for r
    unfolding starts_def by (code_simp, simp, code_simp)
  show "yields (clean Mysql) (my_maintainTable ns t action)"
    unfolding my_maintainTable_def
    by (cases action; auto simp: u statement_def tame_simps unsupported_def intro!: yields_intros)
  show "ts \<noteq> [] \<Longrightarrow> yields (clean Mysql) (my_maintainTables ns ts action)"
    unfolding my_maintainTables_def
    by (cases action; auto simp: u f fl statement_def tame_simps unsupported_def intro!: yields_intros)
qed

lemma replaceInColumn_clean:
  "yields (clean Postgres) (pg_replaceInColumn ns op)"
  "yields (clean Mysql) (my_replaceInColumn ns op)"
  unfolding pg_replaceInColumn_def my_replaceInColumn_def
  by (auto simp: Let_def statement_def tame_simps intro!: yields_intros)

lemma orderTable_clean:
  "yields (clean Postgres) (pg_orderTable ns t ix)"
  "yields (clean Mysql) (my_orderTable ns t column desc)"
  unfolding pg_orderTable_def my_orderTable_def
  by (auto simp: statement_def tame_simps js_space_def intro!: yields_intros)

lemma pg_dropTrigger_clean: "yields (clean Postgres) (pg_dropTrigger ns name t)"
  unfolding pg_dropTrigger_def by (auto simp: statement_def tame_simps intro!: yields_intros)

subsection \<open>Columns\<close>

lemma add_column_statement:
  "clause d ps \<Longrightarrow> statement d ([T ''ALTER TABLE '', Q ns t, T '' ADD COLUMN ''] @ ps)"
  by (simp add: clause_def statement_def tame_simps stops_append)

lemma comment_statements: "list_all (statement Postgres) (commentSql (Q ns t) c)"
  by (simp add: commentSql_def statement_def tame_simps split: option.split)

lemma pg_addColumn_clean:
  "plain_column Postgres c \<Longrightarrow> yields (clean Postgres) (pg_addColumn ns t c key)"
  unfolding pg_addColumn_def
  by (intro yields_on_table yields_rconcat)
    (simp add: add_column_statement comment_statements pg_column_clause yields_columnKey yields_stmts del: append_Cons append_Nil)

lemma position_suffix: "statement Mysql ps \<Longrightarrow> statement Mysql (ps @ position pos)"
proof -
  assume st: "statement Mysql ps"
  then have "starts (ps @ qs) = starts ps" for qs by (cases ps) (auto simp: statement_def starts_def split: Part.splits)
  with st statement_suffix [OF st, of "'' FIRST''"] show ?thesis
    by (auto simp: position_def opt_parts_def statement_def tame_simps js_space_def split: option.split)
qed

lemma my_addColumn_clean:
  "plain_column Mysql c \<Longrightarrow> yields (clean Mysql) (mysqlDdl_build ns (OpAddColumn t c pos key))"
proof -
  assume "plain_column Mysql c"
  from position_suffix [OF add_column_statement [OF my_column_clause [OF this]]]
  have "statement Mysql ([T ''ALTER TABLE '', Q ns t, T '' ADD COLUMN ''] @ my_columnDef c @ position pos)" by (simp only: append_assoc)
  then show ?thesis
    by (simp add: yields_on_table yields_rconcat yields_columnKey yields_stmts del: rconcat_simps append_Cons append_Nil)
qed

lemma change_clause:
  "plain_column Mysql (cc_column c) \<Longrightarrow> clause Mysql (my_change_clause c)"
proof -
  assume "plain_column Mysql (cc_column c)"
  from my_column_clause [OF this] show ?thesis
    by (auto simp: clause_def my_change_clause_def tame_simps stops_append)
qed

lemma my_modifyColumn_clean:
  "plain_column Mysql (cc_column op) \<Longrightarrow> yields (clean Mysql) (my_modifyColumn ns t op pos)"
proof -
  assume "plain_column Mysql (cc_column op)"
  from position_suffix [OF alter_clause [OF change_clause [OF this]]]
  have "statement Mysql ([T ''ALTER TABLE '', Q ns t, T '' ''] @ my_change_clause op @ position pos)" by simp
  then show ?thesis unfolding my_modifyColumn_def by (simp add: yields_on_table yields_stmts del: append_Cons append_Nil)
qed

lemma my_modifyColumns_clean:
  assumes "changes \<noteq> []" and "list_all (\<lambda>c. plain_column Mysql (cc_column c)) changes"
  shows "yields (clean Mysql) (mysqlDdl_build ns (OpModifyColumns t changes))"
proof -
  have "clause Mysql (sep_by '', '' (map my_change_clause changes))"
    by (rule clauses) (use assms change_clause in \<open>auto simp: list_all_iff\<close>)
  from alter_clause [OF this] show ?thesis by (auto intro!: yields_intros)
qed

lemma option_clause:
  assumes "plain_column Postgres c" and "default_parts c = Some ps"
  shows "clause Postgres ps"
  using assms clause_text column_words(6)
  by (auto simp: default_parts_def plain_column_def clause_def tame_simps plain_text_def split: option.splits ColumnDefault.splits if_splits)

fun plain_change :: "PgChange \<Rightarrow> bool" where
  "plain_change (SetType dt coll use) = plain_text Postgres dt"
| "plain_change (SetExpression e) = plain_text Postgres e"
| "plain_change (SetDefaultTo (Some ps)) = clause Postgres ps"
| "plain_change _ = True"

lemma generated_plain:
  "generatedChange b a = Inr g \<Longrightarrow> (\<And>x. a = Some x \<Longrightarrow> plain_text Postgres (gc_expression x)) \<Longrightarrow> list_all plain_change g"
  by (induction b a rule: generatedChange.induct) (auto simp: unsupported_def split: option.splits if_splits)

lemma changes_plain:
  assumes "plain_column Postgres (cc_column op)" and "column_changes op = Inr cs"
  shows "list_all plain_change cs"
proof -
  obtain g where g: "generatedChange (map_option cs_generated (cc_previous op)) (cs_generated (cc_column op)) = Inr g"
    and cs: "cs = rename_change op @ type_change op @ g @ other_changes op"
    using assms(2) by (auto simp: column_changes_def rbind_Inr)
  have "list_all plain_change g" by (rule generated_plain [OF g]) (use assms(1) in \<open>simp add: plain_column_def\<close>)
  moreover have "list_all plain_change (rename_change op)" by (simp add: rename_change_def)
  moreover have "list_all plain_change (type_change op)" using assms(1)
    by (auto simp: type_change_def plain_column_def Let_def split: option.split)
  moreover have "plain_change (SetDefaultTo (default_parts (cc_column op)))"
    using option_clause [OF assms(1)] by (cases "default_parts (cc_column op)") simp_all
  then have "list_all plain_change (other_changes op)" by (simp add: other_changes_def Let_def)
  ultimately show ?thesis using cs by simp
qed

lemma prefixed_text:
  assumes "plain_text d s" and "text_ok d p" and "soft (last p)"
  shows "text_ok d (p @ s)" "\<not> js_space (last (p @ s))" "soft (hd p) \<Longrightarrow> soft (hd (p @ s))"
  using assms plain_textD [OF assms(1)] by (auto simp: text_ok_append text_ok_def [of d p] hd_append)

lemma type_statement:
  assumes "plain_text Postgres dt"
  shows "statement Postgres (pg_change_sql (Q ns t) (I n) (SetType dt coll use))"
proof -
  have p: "text_ok Postgres '' TYPE ''" "soft (last '' TYPE '')" "soft (hd '' TYPE '')"
    "text_ok Postgres ''::''" "soft (last ''::'')" "soft (hd ''::'')" by (simp_all add: tame_simps)
  define tt where "tt = '' TYPE '' @ dt"
  define uu where "uu = ''::'' @ dt"
  have tt: "text_ok Postgres tt" "\<not> js_space (last tt)" "soft (hd tt)"
    unfolding tt_def using prefixed_text [OF assms p(1,2)] p(3) by auto
  have uu: "text_ok Postgres uu" "\<not> js_space (last uu)" "soft (hd uu)"
    unfolding uu_def using prefixed_text [OF assms p(4,5)] p(6) by auto
  show ?thesis unfolding pg_change_sql.simps tt_def [symmetric] uu_def [symmetric]
    using tt uu by (auto simp: statement_def tame_simps opt_parts_def split: option.split)
qed

lemma expression_statement:
  assumes "plain_text Postgres e"
  shows "statement Postgres (pg_change_sql (Q ns t) (I n) (SetExpression e))"
proof -
  have "clause Postgres [T ('' SET EXPRESSION AS ('' @ e @ '')'')]"
    by (rule clause_wrapped [OF assms]) (simp_all add: tame_simps)
  then show ?thesis by (simp add: clause_def statement_def tame_simps)
qed

lemma change_statement: "plain_change c \<Longrightarrow> statement Postgres (pg_change_sql (Q ns t) (I n) c)"
proof (induction c rule: plain_change.induct)
  case (1 dt coll use)
  then show ?case using type_statement by simp
next
  case (2 e)
  then show ?case using expression_statement by simp
next
  case (3 ps)
  then have "clause Postgres ps" by simp
  then show ?case by (auto simp: clause_def statement_def tame_simps stops_append)
qed (auto simp: statement_def tame_simps js_space_def split: option.split)

lemma pg_modifyColumn_clean:
  assumes "plain_column Postgres (cc_column op)"
  shows "yields (clean Postgres) (pg_modifyColumn ns t op pos)"
proof -
  have "list_all (statement Postgres) (map (pg_change_sql (Q ns t) (I (cs_name (cc_column op)))) cs)"
    if "column_changes op = Inr cs" for cs
    using changes_plain [OF assms that] change_statement by (simp add: list_all_iff)
  then show ?thesis unfolding pg_modifyColumn_def Let_def
    by (auto intro!: yields_rbind yields_stmts simp del: pg_change_sql.simps)
qed

lemma pg_modifyColumns_clean:
  "list_all (\<lambda>c. plain_column Postgres (cc_column c)) changes \<Longrightarrow> yields (clean Postgres) (pg_modifyColumns ns t changes)"
  unfolding pg_modifyColumns_def
  by (intro yields_on_table yields_transaction yields_rconcat) (auto simp: list_all_iff intro!: pg_modifyColumn_clean)

subsection \<open>Tables\<close>

lemma definitions_clause:
  assumes "cs \<noteq> []" and "list_all (clause d) cs"
  shows "tame d (sep_by ('','' @ nl @ ''  '') cs)"
  by (rule tame_sep_by [OF text_seps(5)]) (use assms in \<open>simp_all add: soft_chars clause_def list_all_iff\<close>)

lemma table_defs:
  assumes "list_all (\<lambda>c. clause d (f c)) cs"
  shows "list_all (clause d) (map f cs @ (if keys = [] then [] else [[T ''PRIMARY KEY (''] @ names keys @ [T '')'']]))"
  using assms by (simp add: list_all_iff clause_def tame_simps)

lemma table_head:
  assumes "defs \<noteq> []" and "list_all (clause d) defs"
  shows "statement d ([T ''CREATE TABLE '', Q ns t, T ('' ('' @ nl @ ''  '')] @ sep_by ('','' @ nl @ ''  '') defs @ [T (nl @ '')'')])"
proof -
  define a where "a = '' ('' @ nl @ ''  ''"
  define b where "b = nl @ '')''"
  have a: "text_ok d a" "soft (hd a)" "soft (last a)" and b: "text_ok d b" "soft (hd b)" "\<not> js_space (last b)"
    unfolding a_def b_def using text_layout by (simp_all add: tame_simps)
  show ?thesis unfolding a_def [symmetric] b_def [symmetric]
    using definitions_clause [OF assms] a b by (simp add: statement_def tame_simps)
qed

lemma given_clause:
  "given v \<longrightarrow> plain_text d (the v) \<Longrightarrow> text_ok d w \<Longrightarrow> soft (last w)
   \<Longrightarrow> list_all (clause d) (if given v then [[T (w @ the v)]] else [])"
  using clause_prefixed [of d "the v" w] by simp

lemma options_suffix:
  assumes "statement d ps" and "list_all (clause d) opts"
  shows "statement d (ps @ (if opts = [] then [] else T '' '' # sep_by '' '' opts))"
proof (cases "opts = []")
  case False
  have "clause d (sep_by '' '' opts)" by (rule spaced_clause [OF False assms(2)])
  moreover have "starts (ps @ qs) = starts ps" for qs
    using assms(1) by (cases ps) (auto simp: statement_def starts_def split: Part.splits)
  ultimately show ?thesis using assms(1) False by (simp add: statement_def clause_def tame_simps stops_append)
qed (use assms in simp)

lemma pg_createTable_clean:
  assumes "plain_op Postgres (OpCreateTable op)"
  shows "yields (clean Postgres) (pg_createTable ns op)"
proof -
  let ?defs = "map pg_columnDef (ct_columns op)
    @ (if ct_primaryKey op = [] then [] else [[T ''PRIMARY KEY (''] @ names (ct_primaryKey op) @ [T '')'']])"
  have defs: "?defs \<noteq> []" "list_all (clause Postgres) ?defs"
    using assms pg_column_clause by (simp, intro table_defs) (auto simp: list_all_iff)
  have p: "ct_partitionBy op = None" using assms by simp
  have "list_all (statement Postgres) ([[T ''CREATE TABLE '', Q ns (ct_table op), T ('' ('' @ nl @ ''  '')] @ sep_by ('','' @ nl @ ''  '') ?defs @ [T (nl @ '')'')]]
     @ (if given (ct_comment op) then [[T ''COMMENT ON TABLE '', Q ns (ct_table op), T '' IS '', L (the (ct_comment op))]] else [])
     @ concat (map (commentSql (Q ns (ct_table op))) (ct_columns op)))"
    using table_head [OF defs] comment_statements by (auto simp: list_all_iff statement_def tame_simps)
  from yields_stmts [OF this] show ?thesis unfolding pg_createTable_def Let_def p
    by (intro yields_on_table yields_rbind) (simp del: append_Cons)
qed

lemma clause_comment: "clause d [T ''COMMENT = '', L v]"
  by (simp add: clause_def tame_simps)

lemma my_createTable_clean:
  assumes "plain_op Mysql (OpCreateTable op)"
  shows "yields (clean Mysql) (my_createTable ns op)"
proof -
  let ?defs = "map my_columnDef (ct_columns op)
    @ (if ct_primaryKey op = [] then [] else [[T ''PRIMARY KEY (''] @ names (ct_primaryKey op) @ [T '')'']])"
  let ?options = "(if given (ct_engine op) then [[T (''ENGINE = '' @ the (ct_engine op))]] else [])
     @ (if given (ct_collation op) then [[T (''COLLATE = '' @ the (ct_collation op))]] else [])
     @ (if given (ct_comment op) then [[T ''COMMENT = '', L (the (ct_comment op))]] else [])"
  have defs: "?defs \<noteq> []" "list_all (clause Mysql) ?defs"
    using assms my_column_clause by (simp, intro table_defs) (auto simp: list_all_iff)
  have e: "text_ok Mysql ''ENGINE = ''" "text_ok Mysql ''COLLATE = ''" by code_simp+
  have "list_all (clause Mysql) (if given (ct_engine op) then [[T (''ENGINE = '' @ the (ct_engine op))]] else [])"
    "list_all (clause Mysql) (if given (ct_collation op) then [[T (''COLLATE = '' @ the (ct_collation op))]] else [])"
    "list_all (clause Mysql) (if given (ct_comment op) then [[T ''COMMENT = '', L (the (ct_comment op))]] else [])"
    using given_clause [of "ct_engine op" Mysql "''ENGINE = ''"] given_clause [of "ct_collation op" Mysql "''COLLATE = ''"] assms e
      clause_comment by (auto simp: tame_simps simp del: append_Cons)
  then have "list_all (clause Mysql) ?options" by (simp only: list_all_append)
  from options_suffix [OF table_head [OF defs] this]
  have "statement Mysql ([T ''CREATE TABLE '', Q ns (ct_table op), T ('' ('' @ nl @ ''  '')] @ sep_by ('','' @ nl @ ''  '') ?defs @ [T (nl @ '')'')]
     @ (if ?options = [] then [] else T '' '' # sep_by '' '' ?options))"
    by (simp only: append_assoc)
  then show ?thesis unfolding my_createTable_def Let_def
    using assms by (intro yields_on_table) (simp add: yields_stmts del: append_Cons)
qed

lemma filled_clause: "cs \<noteq> [] \<Longrightarrow> clause d (sep_by '' AND '' (map (\<lambda>c. [I c, T '' IS NOT NULL'']) cs))"
  using tame_sep_by [of d "'' AND ''" "map (\<lambda>c. [I c, T '' IS NOT NULL'']) cs"] stops_sep_by [of "map (\<lambda>c. [I c, T '' IS NOT NULL'']) cs"]
  by (simp add: clause_def tame_simps list_all_iff js_space_def)

lemma splitTable_clean:
  assumes "sp_keyColumns op \<noteq> []" and "sp_columns op \<noteq> []"
  shows "yields (clean d) (splitTableSql d ns op)"
proof -
  have "statement d ([T ''CREATE TABLE '', Q ns (sp_newName op), T '' AS SELECT DISTINCT ''] @ names (sp_keyColumns op @ sp_columns op)
      @ [T '' FROM '', Q ns (sp_table op), T '' WHERE ''] @ sep_by '' AND '' (map (\<lambda>c. [I c, T '' IS NOT NULL'']) (sp_keyColumns op)))"
    using filled_clause [OF assms(1), of d] by (simp add: clause_def statement_def tame_simps stops_append)
  moreover have "statement d ([T ''ALTER TABLE '', Q ns (sp_newName op), T '' ADD PRIMARY KEY (''] @ names (sp_keyColumns op) @ [T '')''])"
    by (simp add: statement_def tame_simps)
  ultimately show ?thesis unfolding splitTableSql_def Let_def
    by (intro yields_rconcat)
      (auto simp: yields_stmts yields_addForeignKey dropColumns_statement assms(2) simp del: append_Cons append_Nil)
qed

lemma moveRepeatingGroup_clean:
  assumes "mg_columns op \<noteq> []"
  shows "yields (clean d) (moveRepeatingGroupSql d ns op)"
proof -
  let ?row = "\<lambda>c. [T ''SELECT ''] @ names (mg_keyColumns op) @ [T '', '', I c, T '' AS '', I (mg_valueColumn op), T '' FROM '', Q ns (mg_table op),
                          T '' WHERE '', I c, T '' IS NOT NULL'']"
  have row: "clause d (?row c)" for c by (simp add: clause_def tame_simps js_space_def)
  have "clause d (sep_by '' UNION ALL '' (map ?row (mg_columns op)))"
    using tame_sep_by [of d "'' UNION ALL ''" "map ?row (mg_columns op)"] stops_sep_by [of "map ?row (mg_columns op)"] assms row
    by (auto simp: clause_def tame_simps list_all_iff)
  then have "statement d ([T ''CREATE TABLE '', Q ns (mg_newName op), T '' AS ''] @ sep_by '' UNION ALL '' (map ?row (mg_columns op)))"
    by (simp add: clause_def statement_def tame_simps stops_append)
  moreover have "statement d ([T ''CREATE INDEX '', I n, T '' ON '', Q ns (mg_newName op), T '' (''] @ names (mg_keyColumns op) @ [T '')''])" for n
    by (simp add: statement_def tame_simps)
  ultimately show ?thesis unfolding moveRepeatingGroupSql_def Let_def
    by (intro yields_rconcat)
      (auto simp: yields_stmts yields_addForeignKey dropColumns_statement assms simp del: append_Cons append_Nil)
qed

subsection \<open>Indexes of MySQL\<close>

lemma index_clause:
  assumes "mysqlAddIndexClause i primary = Inr ps"
  shows "clause Mysql ps"
proof -
  obtain k m cols where p: "indexParts Mysql i = Inr (k, m, cols)"
    and ps: "ps = (if primary then [T ''ADD PRIMARY KEY (''] @ cols @ [T '')'']
       else [T (''ADD '' @ k @ ''INDEX ''), I (ix_name i), T '' (''] @ cols @ [T ('')'' @ m)] @ mysqlIndexComment i)"
    using assms by (auto simp: mysqlAddIndexClause_def rbind_Inr)
  define a where "a = ''ADD '' @ k @ ''INDEX ''"
  define b where "b = '')'' @ m"
  have a: "text_ok Mysql a" "soft (last a)" and b: "text_ok Mysql b" "soft (hd b)" "\<not> js_space (last b)"
    using indexParts_words(2) [OF p] by (auto simp: a_def b_def tame_simps js_space_def)
  have ps': "ps = (if primary then [T ''ADD PRIMARY KEY (''] @ cols @ [T '')'']
       else [T a, I (ix_name i), T '' (''] @ cols @ [T b] @ mysqlIndexComment i)"
    unfolding ps a_def b_def ..
  show ?thesis unfolding ps' using a b indexParts_tame [OF p]
    by (auto simp: clause_def tame_simps mysqlIndexComment_def opt_parts_def split: option.split)
qed

lemma my_alterIndex_clean: "yields (clean Mysql) (my_alterIndex ns t name ix)"
proof -
  have "statement Mysql ([T ''ALTER TABLE '', Q ns t, T '' ''] @ drop @ [T '', ''] @ ps)"
    if "clause Mysql ps" "clause Mysql drop" for drop ps
    using that by (simp add: clause_def statement_def tame_simps stops_append)
  moreover have "clause Mysql (if name = ''PRIMARY'' then [T ''DROP PRIMARY KEY''] else [T ''DROP INDEX '', I name])"
    by (simp add: clause_def tame_simps js_space_def)
  ultimately show ?thesis unfolding my_alterIndex_def Let_def
    by (intro yields_on_table yields_rbind yields_stmts) (simp add: index_clause del: append_Cons append_Nil)
qed

subsection \<open>The builders\<close>

text \<open>The facts above, operation by operation.\<close>

lemmas pg_ops_clean = pg_simple [unfolded pgDdl_build.simps] pg_drops [unfolded pgDdl_build.simps] pg_setPrimaryKey_clean
  pg_addIndex_clean pg_alterIndex_clean pg_maintain_clean replaceInColumn_clean(1) orderTable_clean(1)
  pg_dropTrigger_clean pg_addColumn_clean pg_modifyColumn_clean pg_modifyColumns_clean splitTable_clean moveRepeatingGroup_clean

lemmas my_ops_clean = my_simple [unfolded mysqlDdl_build.simps] my_drops [unfolded mysqlDdl_build.simps]
  my_renames [unfolded mysqlDdl_build.simps] my_setPrimaryKey_clean [unfolded mysqlDdl_build.simps]
  my_maintain_clean replaceInColumn_clean(2) orderTable_clean(2) my_addColumn_clean [unfolded mysqlDdl_build.simps]
  my_modifyColumn_clean my_modifyColumns_clean [unfolded mysqlDdl_build.simps] splitTable_clean moveRepeatingGroup_clean
  my_alterIndex_clean

lemma pg_plain_op: "plain_op Postgres op \<Longrightarrow> yields (clean Postgres) (pgDdl_build ns op)"
proof (cases op)
  case (OpCreateTable x)
  then show "plain_op Postgres op \<Longrightarrow> yields (clean Postgres) (pgDdl_build ns op)" using pg_createTable_clean by simp
qed (simp_all only: plain_op.simps pgDdl_build.simps pg_ops_clean yields_on_table simp_thms)

lemma my_plain_op: "plain_op Mysql op \<Longrightarrow> yields (clean Mysql) (mysqlDdl_build ns op)"
proof (cases op)
  case (OpCreateTable x)
  then show "plain_op Mysql op \<Longrightarrow> yields (clean Mysql) (mysqlDdl_build ns op)" using my_createTable_clean by simp
qed (simp_all only: plain_op.simps mysqlDdl_build.simps my_ops_clean yields_on_table simp_thms)

lemma plain_op_clean: "plain_op d op \<Longrightarrow> yields (clean d) (ddl_build d ns op)"
  by (cases d) (simp_all add: ddl_build_def pg_plain_op my_plain_op)

end
