(* ===== verification/Ddl_Props.thy ===== *)
theory Ddl_Props
  imports Ddl_Run "HOL-Library.Multiset"
begin

text \<open>
  The properties of the builders of structure changes: the script runs as shown, drops come in an order the server
  takes, a changed column ends as it was asked for, a change of several statements is made whole or not at all,
  stored code cannot leave its quoting, and what a server does not have is refused.
\<close>

subsection \<open>The script of a change\<close>

lemma clean_pieces: "list_all (clean d) ss \<Longrightarrow> \<exists>pss. list_all (statement_ok d) pss \<and> ss = map (render d) pss"
proof (induction ss)
  case Nil
  have "list_all (statement_ok d) [] \<and> [] = map (render d) []" by simp
  then show ?case by blast
next
  case (Cons s ss)
  from Cons.prems have "clean d s" "list_all (clean d) ss" by simp_all
  from Cons.IH [OF this(2)] obtain pss where p: "list_all (statement_ok d) pss" "ss = map (render d) pss" by blast
  from \<open>clean d s\<close> obtain ps where q: "statement_ok d ps" "s = render d ps" unfolding clean_def by blast
  have "list_all (statement_ok d) (ps # pss) \<and> s # ss = map (render d) (ps # pss)"
    unfolding p(2) q(2) list.pred_inject list.map using p(1) q(1) by blast
  then show ?case by (rule exI [of _ "ps # pss"])
qed



subsection \<open>The order of drops\<close>

fun drop_rank :: "TableKind \<Rightarrow> nat" where
  "drop_rank KView = 0"
| "drop_rank KMaterializedView = 1"
| "drop_rank KTable = 2"
| "drop_rank KSequence = 3"

text \<open>
  \<open>dropOrder\<close> leaves nothing out and adds nothing, puts views before materialized views before tables before
  sequences, and keeps the given order among objects of one kind.
\<close>

lemma dropOrder_sorts:
  "mset (dropOrder obs) = mset obs \<and> sorted (map (drop_rank \<circ> snd) (dropOrder obs))
   \<and> filter (\<lambda>ob. snd ob = k) (dropOrder obs) = filter (\<lambda>ob. snd ob = k) obs"
proof (intro conjI)
  have e: "dropOrder obs = filter (\<lambda>ob. snd ob = KView) obs @ filter (\<lambda>ob. snd ob = KMaterializedView) obs
      @ filter (\<lambda>ob. snd ob = KTable) obs @ filter (\<lambda>ob. snd ob = KSequence) obs"
    by (simp add: dropOrder_def DROP_KIND_ORDER_def)
  show "mset (dropOrder obs) = mset obs"
    unfolding e
  proof (induction obs)
    case (Cons ob obs)
    then show ?case by (cases "snd ob") simp_all
  qed simp
  have s: "sorted (map (drop_rank \<circ> snd) (filter (\<lambda>ob. snd ob = x) obs))" for x
    by (induction obs) auto
  show "sorted (map (drop_rank \<circ> snd) (dropOrder obs))"
    unfolding e map_append sorted_append using s by auto
  show "filter (\<lambda>ob. snd ob = k) (dropOrder obs) = filter (\<lambda>ob. snd ob = k) obs"
    unfolding e by (cases k) (simp_all add: filter_filter conj_commute cong: filter_cong)
qed

subsection \<open>A changed column ends as it was asked for\<close>

text \<open>
  What PostgreSQL keeps of a column, and what each clause does to it: \<open>TYPE\<close> without \<open>COLLATE\<close> goes back to the
  type's own collation, an empty comment or default is none.
\<close>

record PgColumn =
  pc_name :: string
  pc_type :: string
  pc_collation :: "string option"
  pc_generated :: "GeneratedColumn option"
  pc_nullable :: bool
  pc_default :: "string option"
  pc_comment :: "string option"

definition pg_column :: "ColumnSpec \<Rightarrow> PgColumn" where
  "pg_column c = \<lparr>pc_name = cs_name c, pc_type = cs_dataType c, pc_collation = schema_given (cs_collation c),
     pc_generated = cs_generated c, pc_nullable = cs_nullable c, pc_default = schema_given (pg_defaultSql c),
     pc_comment = schema_given (cs_comment c)\<rparr>"

fun default_text :: "Part list \<Rightarrow> string" where
  "default_text [] = []"
| "default_text (L v # ps) = pgLiteral v @ default_text ps"
| "default_text (T s # ps) = s @ default_text ps"
| "default_text (p # ps) = default_text ps"

fun apply_change :: "PgChange \<Rightarrow> PgColumn \<Rightarrow> PgColumn" where
  "apply_change (RenameColumn old new) c = (if pc_name c = old then c\<lparr>pc_name := new\<rparr> else c)"
| "apply_change (SetType dt coll use) c = c\<lparr>pc_type := dt, pc_collation := schema_given coll\<rparr>"
| "apply_change (SetExpression e) c = c\<lparr>pc_generated := map_option (\<lambda>g. g\<lparr>gc_expression := e\<rparr>) (pc_generated c)\<rparr>"
| "apply_change DropExpression c = c\<lparr>pc_generated := None\<rparr>"
| "apply_change (SetNullable n) c = c\<lparr>pc_nullable := n\<rparr>"
| "apply_change (SetDefaultTo d) c = c\<lparr>pc_default := map_option default_text d\<rparr>"
| "apply_change (SetComment m) c = c\<lparr>pc_comment := schema_given m\<rparr>"

definition apply_changes :: "PgChange list \<Rightarrow> PgColumn \<Rightarrow> PgColumn" where
  "apply_changes cs c = fold apply_change cs c"

lemma apply_changes_simps [simp]:
  "apply_changes [] c = c" "apply_changes (x # xs) c = apply_changes xs (apply_change x c)"
  "apply_changes (xs @ ys) c = apply_changes ys (apply_changes xs c)"
  by (simp_all add: apply_changes_def)

lemma apply_rename:
  "pc_name c = cc_name op \<Longrightarrow> apply_changes (rename_change op) c = c\<lparr>pc_name := cs_name (cc_column op)\<rparr>"
  by (cases c) (simp add: rename_change_def)

lemma apply_type:
  "cc_previous op = Some prev \<Longrightarrow> pc_type c = cs_dataType prev \<Longrightarrow> pc_collation c = schema_given (cs_collation prev)
   \<Longrightarrow> apply_changes (type_change op) c
       = c\<lparr>pc_type := cs_dataType (cc_column op), pc_collation := schema_given (cs_collation (cc_column op))\<rparr>"
  by (cases c) (auto simp: type_change_def Let_def)

lemma apply_generated:
  "generatedChange (Some b) a = Inr g \<Longrightarrow> pc_generated c = b \<Longrightarrow> apply_changes g c = c\<lparr>pc_generated := a\<rparr>"
  by (cases c; cases a; cases b) (auto simp: unsupported_def split: if_splits)

lemma default_parts_text: "map_option default_text (default_parts c) = schema_given (pg_defaultSql c)"
  by (auto simp: default_parts_def pg_defaultSql_def schema_given_def given_def pgLiteral_def quoteLiteral_def Let_def split: option.split ColumnDefault.split)

definition keeps_default :: "ColumnSpec \<Rightarrow> bool" where
  "keeps_default c \<longleftrightarrow> cs_autoIncrement c \<or> cs_generated c \<noteq> None"

lemma apply_other:
  "cc_previous op = Some prev \<Longrightarrow> pc_nullable c = cs_nullable prev \<Longrightarrow> pc_default c = schema_given (pg_defaultSql prev)
   \<Longrightarrow> pc_comment c = schema_given (cs_comment prev)
   \<Longrightarrow> apply_changes (other_changes op) c
       = c\<lparr>pc_nullable := cs_nullable (cc_column op),
          pc_default := schema_given (pg_defaultSql (if keeps_default (cc_column op) then prev else cc_column op)),
          pc_comment := schema_given (cs_comment (cc_column op))\<rparr>"
  by (cases c) (auto simp: other_changes_def Let_def keeps_default_def default_parts_text schema_given_def given_def split: option.splits)

text \<open>What a change asks for that the column is not already; its default is not looked at when it is kept.\<close>

definition nothing_asked :: "ColumnChange \<Rightarrow> bool" where
  "nothing_asked op \<longleftrightarrow> (case cc_previous op of None \<Rightarrow> False
     | Some prev \<Rightarrow> let c = cc_column op in
         cs_name c = cc_name op \<and> cs_dataType c = cs_dataType prev \<and> cs_collation c = cs_collation prev
         \<and> cs_generated c = cs_generated prev \<and> cs_nullable c = cs_nullable prev \<and> cs_comment c = cs_comment prev
         \<and> (keeps_default c \<or> pg_defaultSql c = pg_defaultSql prev))"



subsection \<open>All of a change or nothing of it\<close>

text \<open>The operations PostgreSQL makes in one transaction when they take several statements.\<close>

fun in_one_transaction :: "DdlOp \<Rightarrow> bool" where
  "in_one_transaction (OpAlterIndex t n ix) = True"
| "in_one_transaction (OpModifyColumns t cs) = True"
| "in_one_transaction (OpRenameTables rs) = True"
| "in_one_transaction (OpReplaceRoutine r ref) = True"
| "in_one_transaction (OpReplaceTrigger tg n t) = True"
| "in_one_transaction (OpAlterRoutine ref s a c) = True"
| "in_one_transaction _ = False"

definition changes :: "string \<Rightarrow> bool" where
  "changes s \<longleftrightarrow> \<not> is_BEGIN s \<and> \<not> is_END s"

lemma trim_end_Cons: "\<not> js_space c \<Longrightarrow> trim_end (c # r) = c # trim_end r"
  by (simp add: trim_end_def dropWhile_append3)

lemma lower_letters:
  "lower_char CHR ''A'' = CHR ''a''" "lower_char CHR ''C'' = CHR ''c''" "lower_char CHR ''D'' = CHR ''d''"
  "lower_char CHR ''M'' = CHR ''m''" "lower_char CHR ''E'' = CHR ''e''" "lower_char CHR ''O'' = CHR ''o''" "lower_char CHR ''R'' = CHR ''r''"
  by code_simp+

lemma head_changes:
  "changes (''ALTER '' @ x)" "changes (''CREATE '' @ x)" "changes (''DROP '' @ x)" "changes (''COMMENT '' @ x)"
  by (simp_all add: changes_def is_BEGIN_def is_END_def Let_def trim_Cons trim_end_Cons js_space_def lower_letters prefix_def)

lemma sql_head: "sql d (T w # ps) = Inr s \<Longrightarrow> \<exists>x. s = w @ x"
  by (auto simp: sql_Cons rbind_Inr)

definition opens :: "Part list \<Rightarrow> bool" where
  "opens ps \<longleftrightarrow> (case ps of T s # _ \<Rightarrow> list_ex (\<lambda>w. prefix w s) [''ALTER '', ''CREATE '', ''DROP '', ''COMMENT ''] | _ \<Rightarrow> False)"

lemma opens_text [simp]: "opens (T s # r) \<longleftrightarrow> list_ex (\<lambda>w. prefix w s) [''ALTER '', ''CREATE '', ''DROP '', ''COMMENT '']"
  by (simp add: opens_def)

lemma prefix_changes: "list_ex (\<lambda>w. prefix w s) [''ALTER '', ''CREATE '', ''DROP '', ''COMMENT ''] \<Longrightarrow> changes (s @ x)"
  using head_changes by (auto simp: prefix_def simp del: append_Cons)

lemma sql_changes:
  assumes "sql d ps = Inr s" and "opens ps"
  shows "changes s"
proof -
  obtain w r where ps: "ps = T w # r" using assms(2) by (auto simp: opens_def split: list.splits Part.splits)
  with assms obtain x where "s = w @ x" using sql_head by blast
  then show ?thesis using assms(2) prefix_changes [of w x] by (simp only: ps opens_text)
qed

lemma stmts_changes: "list_all opens pss \<Longrightarrow> yields changes (stmts d pss)"
proof -
  have "list_all opens pss \<Longrightarrow> stmts d pss = Inr ss \<Longrightarrow> list_all changes ss" for ss
    by (induction pss arbitrary: ss) (auto simp: rmap.simps rbind_Inr sql_changes)
  then show "list_all opens pss \<Longrightarrow> ?thesis" by (auto simp: yields_def split: sum.split)
qed

text \<open>A list of changes, in a transaction when it is longer than one.\<close>

definition whole :: "string list \<Rightarrow> bool" where
  "whole ss \<longleftrightarrow> (\<exists>body. list_all changes body \<and> ss = inTransaction body)"

definition makes_whole :: "(AdapterError, string list) result \<Rightarrow> bool" where
  "makes_whole r \<longleftrightarrow> (\<forall>ss. r = Inr ss \<longrightarrow> whole ss)"

lemma whole_transaction: "yields changes r \<Longrightarrow> makes_whole (in_transaction r)"
  by (cases r) (auto simp: makes_whole_def whole_def yields_def)

lemma whole_rbind: "(\<And>x. makes_whole (f x)) \<Longrightarrow> makes_whole (rbind r f)"
  by (cases r) (auto simp: makes_whole_def)

lemma whole_on_table: "makes_whole r \<Longrightarrow> makes_whole (on_table ns t r)"
  unfolding on_table_def by (rule whole_rbind)

lemma whole_error: "makes_whole (unsupported m)" "makes_whole (invalid m)"
  by (simp_all add: makes_whole_def unsupported_def invalid_def)

lemmas change_intros = whole_on_table whole_rbind whole_transaction whole_error yields_rconcat yields_rbind stmts_changes

lemma createIndex_changes: "yields changes (rbind (createIndexSql d ns ix) (\<lambda>s. Inr [s]))"
proof (rule yields_rbind)
  fix s assume "createIndexSql d ns ix = Inr s"
  then obtain k m cols where s: "sql d (if d = Postgres
       then [T (''CREATE '' @ k @ ''INDEX '' @ (if on (ix_online ix) then ''CONCURRENTLY '' else [])), I (ix_name ix),
             T '' ON '', Q ns (ix_table ix), T (m @ '' ('')] @ cols @ [T '')'']
       else [T (''CREATE '' @ k @ ''INDEX ''), I (ix_name ix), T '' ON '', Q ns (ix_table ix), T '' (''] @ cols
             @ [T ('')'' @ m)] @ mysqlIndexComment ix @ (if on (ix_online ix) then [T ONLINE_MYSQL] else [])) = Inr s"
    by (auto simp: createIndexSql_def rbind_Inr simp del: append_Cons)
  have "changes s" by (rule sql_changes [OF s]) simp
  then show "yields changes (Inr [s])" by simp
qed

lemma indexComment_changes: "yields changes (pgIndexCommentSql ns ix)"
  unfolding pgIndexCommentSql_def by (simp add: stmts_changes)

lemma change_opens: "opens (pg_change_sql t c x)"
  by (cases x) simp_all

lemma modifyColumn_changes: "yields changes (pg_modifyColumn ns t op pos)"
  unfolding pg_modifyColumn_def Let_def
  by (auto intro!: yields_rbind stmts_changes simp: list_all_iff change_opens)

lemma createRoutine_changes: "yields changes (pg_createRoutineSql ns op orReplace)"
  unfolding pg_createRoutineSql_def Let_def
  by (auto intro!: yields_rbind stmts_changes)

lemma dropRoutine_changes: "yields changes (pg_dropRoutine ns op)"
  unfolding pg_dropRoutine_def by (auto intro!: stmts_changes)

lemma trigger_changes: "opens (pg_trigger_function (''CREATE '' @ x) ns op)" "opens (pg_trigger_statement ns op)"
  by (simp_all add: pg_trigger_function_def pg_trigger_statement_def del: append_Cons)

lemma alterRoutine_whole: "makes_whole (pg_alterRoutine ns op security access comment)"
proof -
  have "makes_whole (rbind r (\<lambda>out. rbind q (\<lambda>_. if out = [] then invalid m else Inr (inTransaction out))))"
    if "yields changes r" for r q m
    using that by (cases r; cases q) (auto simp: makes_whole_def whole_def invalid_def)
  then show ?thesis unfolding pg_alterRoutine_def Let_def
    by (rule whole_rbind [OF _]) (rule stmts_changes, simp split: option.split)
qed

lemma in_one_transaction_whole: "in_one_transaction op \<Longrightarrow> makes_whole (pgDdl_build ns op)"
proof (induction op rule: in_one_transaction.induct)
  case (1 t n ix)
  show ?case
    by (simp add: pg_alterIndex_def whole_on_table whole_transaction yields_rconcat stmts_changes createIndex_changes
        indexComment_changes del: rconcat_simps)
next
  case (2 t cs)
  show ?case
    by (simp add: pg_modifyColumns_def whole_on_table whole_transaction yields_rconcat modifyColumn_changes list_all_iff)
next
  case (3 rs)
  show ?case by (simp add: whole_transaction stmts_changes list_all_iff)
next
  case (4 r ref)
  show ?case
    by (simp add: pg_replaceRoutine_def Let_def whole_rbind whole_transaction yields_rconcat dropRoutine_changes createRoutine_changes
        del: rconcat_simps)
next
  case (5 tg n t)
  have "opens (pg_trigger_function ''CREATE OR REPLACE FUNCTION '' ns tg)" using trigger_changes(1) [of "''OR REPLACE FUNCTION ''"] by simp
  then show ?case
    by (simp add: pg_replaceTrigger_def pg_dropTrigger_def whole_rbind whole_transaction yields_rconcat stmts_changes trigger_changes(2)
        del: rconcat_simps)
next
  case (6 ref s a c)
  show ?case by (simp add: alterRoutine_whole)
qed simp_all

subsection \<open>Stopped in the middle\<close>

lemma run_changes: "list_all changes ss \<Longrightarrow> run_script ss (kept, Some p) = (kept, Some (p @ ss))"
  by (induction ss arbitrary: p) (auto simp: run_script_def changes_def)

lemma whole_unnested: "list_all changes ss \<Longrightarrow> unnested b ss"
  by (induction ss arbitrary: b) (auto simp: changes_def)

lemma open_changes: "list_all changes ss \<Longrightarrow> open_transaction i ss b = b"
  by (induction ss arbitrary: i b) (auto simp: changes_def)

lemma begin_end: "is_BEGIN ''BEGIN''" "\<not> is_END ''BEGIN''" "is_END ''COMMIT''" "\<not> is_BEGIN ''COMMIT''"
  by code_simp+



subsection \<open>Stored code stays in its quotes\<close>

lemma free_tag_free: "\<not> has_sub code (''$'' @ free_tag code n @ ''$'')"
proof (induction code n rule: free_tag.induct)
  case (1 code n)
  then show ?case by (subst free_tag.simps) simp
qed

lemma free_tag_form: "\<exists>k. free_tag code n = dollar_tag k"
proof (induction code n rule: free_tag.induct)
  case (1 code n)
  then show ?case by (subst free_tag.simps) auto
qed

lemma tag_chars: "list_all tag_cont (dollar_tag k) \<and> hd (dollar_tag k) = CHR ''b'' \<and> dollar_tag k \<noteq> []"
proof -
  have "list_all tag_cont (show_nat k)" using show_nat_digits [of k] by (auto simp: list_all_iff tag_cont_def js_word_def)
  moreover have "list_all tag_cont ''body''" by code_simp
  ultimately show ?thesis by (simp add: dollar_tag_def)
qed

lemma takeWhile_all: "list_all P xs \<Longrightarrow> \<not> P y \<Longrightarrow> takeWhile P (xs @ y # ys) = xs \<and> dropWhile P (xs @ y # ys) = y # ys"
  by (induction xs) auto

text \<open>The first place of the mark after the code is where it was put.\<close>

lemma find_mark:
  "\<not> has_sub code mark \<Longrightarrow> CHR 0x0A \<notin> set mark \<Longrightarrow> mark \<noteq> [] \<Longrightarrow> find_sub mark (code @ CHR 0x0A # mark @ r) = Some (length code + 1)"
proof (induction code)
  case Nil
  then show ?case by (cases mark) (auto simp: prefix_def)
next
  case (Cons c code)
  have n: "\<not> prefix mark (c # code)" "\<not> has_sub code mark" using Cons.prems(1) by (auto simp: has_sub_def split: if_splits)
  have "\<not> prefix mark (c # code @ CHR 0x0A # mark @ r)"
  proof
    assume "prefix mark (c # code @ CHR 0x0A # mark @ r)"
    then have "prefix mark ((c # code) @ CHR 0x0A # mark @ r)" by simp
    then obtain u where m: "mark = (c # code) @ u" and u: "prefix u (CHR 0x0A # mark @ r)"
      unfolding prefix_append using n(1) by blast
    with n(1) have "u \<noteq> []" by auto
    with u have "CHR 0x0A \<in> set u" by (cases u) auto
    then show False using m Cons.prems(2) by simp
  qed
  with Cons.IH [OF n(2) Cons.prems(2,3)] show ?case by simp
qed

lemma has_sub_part: "has_sub y p \<Longrightarrow> has_sub (x @ y @ z) p"
proof -
  assume "has_sub y p"
  then obtain k where k: "find_sub p y = Some k" by (auto simp: has_sub_def)
  from find_sub_prefix [OF k] find_sub_le [OF k] have "prefix p (drop (length x + k) (x @ y @ z))"
    by (simp add: prefix_def) (metis append.assoc)
  then show ?thesis using find_sub_None [of p "x @ y @ z"] unfolding has_sub_def by blast
qed

lemma trim_part: "\<exists>x z. s = x @ trim s @ z"
proof -
  have e: "t = trim_end t @ rev (takeWhile js_space (rev t))" for t
    unfolding trim_end_def rev_append [symmetric] by simp
  have "s = takeWhile js_space s @ trim_start s" by (simp add: trim_start_def)
  also have "\<dots> = takeWhile js_space s @ trim s @ rev (takeWhile js_space (rev (trim_start s)))"
    using e [of "trim_start s"] by (simp add: trim_def)
  finally show ?thesis by blast
qed

text \<open>
  Whatever the code of a routine or trigger, PostgreSQL reads \<open>dollarQuoted\<close> of it as one closed literal that
  ends at its own last mark, and what stands between the marks is the trimmed code: no code ends the literal early.
\<close>

theorem dollarQuoted_one_token:
  "scanToken Postgres nb (dollarQuoted code @ rest) = Some \<lparr>tok_kind = Literal, tok_end = length (dollarQuoted code), tok_closed = True\<rparr>
   \<and> (\<exists>mark. dollarQuoted code = mark @ nl @ trim code @ nl @ mark \<and> DOLLAR_TAG (dollarQuoted code @ rest) = Some mark)"
proof -
  obtain k where k: "free_tag code 0 = dollar_tag k" using free_tag_form by blast
  define mark where "mark = ''$'' @ dollar_tag k @ ''$''"
  have q: "dollarQuoted code = mark @ nl @ trim code @ nl @ mark" by (simp add: dollarQuoted_def mark_def k)
  have tag: "list_all tag_cont (dollar_tag k)" "hd (dollar_tag k) = CHR ''b''" "dollar_tag k \<noteq> []" using tag_chars by blast+
  have dollar: "\<not> tag_cont CHR ''$''" by code_simp
  have b: "ident_start CHR ''b''" by code_simp
  have t: "DOLLAR_TAG (mark @ x) = Some mark" for x
    using takeWhile_all [OF tag(1) dollar] tag(2,3) b dollar by (simp add: DOLLAR_TAG_def mark_def Let_def)
  have free: "\<not> has_sub (trim code) mark"
    using free_tag_free [of code 0] trim_part [of code] has_sub_part unfolding k mark_def by metis
  have "\<not> tag_cont (CHR 0x0A)" by code_simp
  then have nb: "CHR 0x0A \<notin> set mark" using tag(1) by (auto simp: mark_def list_all_iff)
  have "find_sub mark (nl @ trim code @ nl @ mark @ rest) = Some (length (trim code) + 2)"
    using find_mark [OF _ nb, of "nl @ trim code" rest] free nb by (simp add: has_sub_def mark_def prefix_def)
  then have "index_of mark (dollarQuoted code @ rest) (length mark) = Some (length mark + length (trim code) + 2)"
    by (simp add: index_of_def q)
  then have "scan_dollar (dollarQuoted code @ rest) = Some \<lparr>tok_kind = Literal, tok_end = length (dollarQuoted code), tok_closed = True\<rparr>"
    using t [of "nl @ trim code @ nl @ mark @ rest"] by (simp add: scan_dollar_def q)
  moreover have "\<exists>y. dollarQuoted code @ rest = CHR ''$'' # y" by (simp add: q mark_def)
  ultimately have "scanToken Postgres nb (dollarQuoted code @ rest) = Some \<lparr>tok_kind = Literal, tok_end = length (dollarQuoted code), tok_closed = True\<rparr>"
    by (auto simp: scanToken_def scan_quoted_def scan_word_def PG_WORD_def ident_start_def js_alpha_def non_ascii_def Let_def)
  with q t show ?thesis by (metis append.assoc)
qed

subsection \<open>What a server does not have\<close>

text \<open>What an operation asks for that the capabilities say the server has not.\<close>

fun lacks :: "DialectCapabilities \<Rightarrow> DdlOp \<Rightarrow> bool" where
  "lacks cap (OpCreateEvent e) = (\<not> cap_events cap)"
| "lacks cap (OpReplaceEvent e name) = (\<not> cap_events cap)"
| "lacks cap (OpEnableEvent name) = (\<not> cap_events cap)"
| "lacks cap (OpDisableEvent name) = (\<not> cap_events cap)"
| "lacks cap (OpDropEvent name) = (\<not> cap_events cap)"
| "lacks cap (OpReorderColumns t cs) = (\<not> cap_columnOrder cap)"
| "lacks cap (OpModifyColumn t c pos) = (\<not> cap_columnOrder cap \<and> (on (cp_first pos) \<or> given (cp_after pos)))"
| "lacks cap (OpCreateTable op) = (\<not> cap_storageEngines cap \<and> given (ct_engine op) \<or> \<not> cap_partitionsAreTables cap \<and> ct_partitionBy op \<noteq> None)"
| "lacks cap (OpSetTableOptions t op) = (\<not> cap_storageEngines cap \<and> to_engine op \<noteq> None)"
| "lacks cap (OpDetachPartition t name) = (\<not> cap_partitionsAreTables cap)"
| "lacks cap (OpPartitionTable t b ps n) = cap_partitionsAreTables cap"
| "lacks cap (OpRemovePartitioning t) = cap_partitionsAreTables cap"
| "lacks cap (OpCreateView v) = (\<not> cap_definer cap \<and> vw_definer v \<noteq> None)"
| "lacks cap (OpCreateRoutine r) = (\<not> cap_definer cap \<and> rt_definer r \<noteq> None)"
| "lacks cap (OpReplaceRoutine r ref) = (\<not> cap_definer cap \<and> rt_definer r \<noteq> None)"
| "lacks cap (OpCreateTrigger tg) = (\<not> cap_definer cap \<and> tg_definer tg \<noteq> None)"
| "lacks cap (OpReplaceTrigger tg n t) = (\<not> cap_definer cap \<and> tg_definer tg \<noteq> None)"
| "lacks cap (OpCopyDatabase op) = (\<not> cap_copyDatabaseWithoutStructure cap \<and> cdb_structure op = Some False)"
| "lacks cap _ = False"

definition refused :: "(AdapterError, 'a) result \<Rightarrow> bool" where
  "refused r \<longleftrightarrow> (case r of Inl e \<Rightarrow> err_code e = UNSUPPORTED \<or> err_code e = VALIDATION | Inr _ \<Rightarrow> False)"

lemma refused_simps [simp]: "refused (unsupported m)" "refused (invalid m)"
  by (simp_all add: refused_def unsupported_def invalid_def)

definition orderly :: "(AdapterError, 'a) result \<Rightarrow> bool" where
  "orderly r \<longleftrightarrow> (case r of Inl e \<Rightarrow> err_code e = UNSUPPORTED \<or> err_code e = VALIDATION | Inr _ \<Rightarrow> True)"

lemma refused_rbind: "orderly r \<Longrightarrow> (\<And>x. refused (f x)) \<Longrightarrow> refused (rbind r f)"
  by (cases r) (simp_all add: orderly_def refused_def)

lemma orderly_rbind: "orderly r \<Longrightarrow> (\<And>x. orderly (f x)) \<Longrightarrow> orderly (rbind r f)"
  by (cases r) (simp_all add: orderly_def)

lemma orderly_Inr: "orderly (Inr x)"
  by (simp add: orderly_def)

lemma orderly_part: "orderly (part_text d p)"
  by (cases p) (auto simp: orderly_def quoteIdent_def quoteTable_def Let_def)

lemma orderly_rmap: "(\<And>x. orderly (f x)) \<Longrightarrow> orderly (rmap f xs)"
  by (induction xs) (auto simp: rmap.simps intro!: orderly_rbind orderly_Inr)

lemma orderly_sql: "orderly (sql d ps)"
  unfolding sql_def by (intro orderly_rbind orderly_rmap orderly_part orderly_Inr)

lemma orderly_onlyMysql: "orderly (onlyMysql w b)" "b \<Longrightarrow> refused (rbind (onlyMysql w b) f)"
  by (simp_all add: orderly_def onlyMysql_def unsupported_def refused_def)

lemma refused_on_table: "refused r \<Longrightarrow> refused (on_table ns t r)" "refused r \<Longrightarrow> refused (my_on_table ns t r)"
  unfolding on_table_def my_on_table_def
  using orderly_part [of Mysql "Q ns t"] by (auto intro!: refused_rbind orderly_sql)

lemma orderly_stmts: "orderly (stmts d pss)"
  by (rule orderly_rmap) (rule orderly_sql)

lemma refused_first: "refused r \<Longrightarrow> refused (rbind r f)"
  by (cases r) (simp_all add: refused_def)

lemma refused_createRoutine: "rt_definer op \<noteq> None \<Longrightarrow> refused (pg_createRoutineSql ns op b)"
  unfolding pg_createRoutineSql_def by (rule orderly_onlyMysql)

lemma refused_second: "orderly a \<Longrightarrow> refused b \<Longrightarrow> refused (rconcat [a, b])"
  by (cases a; cases b) (simp_all add: orderly_def refused_def)

lemma pg_refusals:
  "given (ct_engine op) \<Longrightarrow> refused (pg_createTable ns op)"
  "on (cp_first pos) \<or> given (cp_after pos) \<Longrightarrow> refused (pg_modifyColumn ns t change pos)"
  "cdb_structure cdb = Some False \<Longrightarrow> refused (pg_copyDatabase cdb)"
  "to_engine opts = Some e \<Longrightarrow> refused (pg_setTableOptions ns t opts)"
  "vw_definer v = Some df \<Longrightarrow> refused (pg_createView ns v)"
  "rt_definer r = Some df \<Longrightarrow> refused (pg_replaceRoutine ns r ref)"
  "tg_definer tg = Some df \<Longrightarrow> refused (pg_createTrigger ns tg)"
  "tg_definer tg = Some df \<Longrightarrow> refused (pg_replaceTrigger ns tg n ot)"
proof -
  show "given (ct_engine op) \<Longrightarrow> refused (pg_createTable ns op)"
    unfolding pg_createTable_def Let_def by (intro refused_on_table refused_rbind orderly_stmts) simp
  show "on (cp_first pos) \<or> given (cp_after pos) \<Longrightarrow> refused (pg_modifyColumn ns t change pos)"
    by (simp add: pg_modifyColumn_def)
  show "cdb_structure cdb = Some False \<Longrightarrow> refused (pg_copyDatabase cdb)" by (simp add: pg_copyDatabase_def)
  show "to_engine opts = Some e \<Longrightarrow> refused (pg_setTableOptions ns t opts)" by (simp add: pg_setTableOptions_def refused_on_table)
  show "vw_definer v = Some df \<Longrightarrow> refused (pg_createView ns v)"
    unfolding pg_createView_def by (rule refused_rbind [OF orderly_onlyMysql(1)], rule orderly_onlyMysql(2)) simp
  show "rt_definer r = Some df \<Longrightarrow> refused (pg_replaceRoutine ns r ref)"
    unfolding pg_replaceRoutine_def Let_def pg_dropRoutine_def
    by (rule refused_rbind [OF orderly_sql]) (simp add: refused_first refused_second orderly_stmts refused_createRoutine del: rconcat_simps)
  show "tg_definer tg = Some df \<Longrightarrow> refused (pg_createTrigger ns tg)"
    unfolding pg_createTrigger_def by (rule orderly_onlyMysql) simp
  show "tg_definer tg = Some df \<Longrightarrow> refused (pg_replaceTrigger ns tg n ot)"
    unfolding pg_replaceTrigger_def by (rule orderly_onlyMysql) simp
qed



subsection \<open>Copies\<close>

abbreviation drops_nothing :: "string \<Rightarrow> bool" where
  "drops_nothing s \<equiv> \<not> prefix ''DROP'' s"

text \<open>Where a copy goes, and where the table is.\<close>

definition copy_place :: "Dialect \<Rightarrow> Namespace \<Rightarrow> CopyTable \<Rightarrow> string" where
  "copy_place d ns op = (if d = Mysql then (case cy_toDatabase op of Some db \<Rightarrow> db | None \<Rightarrow> ns_database ns)
     else pg_schema \<lparr>ns_database = ns_database ns, ns_schema = schema_given (or_else (cy_toSchema op) (ns_schema ns))\<rparr>)"

definition table_place :: "Dialect \<Rightarrow> Namespace \<Rightarrow> string" where
  "table_place d ns = (if d = Mysql then ns_database ns else pg_schema ns)"

lemma quiet_sql: "sql d (T w # r) = Inr s \<Longrightarrow> w \<noteq> [] \<Longrightarrow> hd w \<noteq> CHR ''D'' \<Longrightarrow> drops_nothing s"
  by (auto simp: prefix_def sql_Cons rbind_Inr neq_Nil_conv)

lemma quiet_stmt: "w \<noteq> [] \<Longrightarrow> hd w \<noteq> CHR ''D'' \<Longrightarrow> yields drops_nothing (stmts d [T w # r])"
  using quiet_sql by (auto simp: yields_def rmap.simps rbind_Inr split: sum.split)

lemma quiet_foreignKey: "yields drops_nothing (rbind (addForeignKeySql d ns t fk) (\<lambda>s. Inr [s]))"
proof (rule yields_rbind)
  fix s assume "addForeignKeySql d ns t fk = Inr s"
  then have "\<exists>r. sql d (T ''ALTER TABLE '' # r) = Inr s" by (auto simp: addForeignKeySql_def unsupported_def split: if_splits)
  then show "yields drops_nothing (Inr [s])" using quiet_sql by fastforce
qed

lemma quiet_advance: "yields drops_nothing (rbind (pgAdvanceSequence q c n t) (\<lambda>s. Inr [s]))"
  by (cases "quoteIdent Postgres c") (simp_all add: pgAdvanceSequence_def Let_def)

lemma quiet_rows:
  "yields drops_nothing (stmts d [pg_copy_rows a b cs])" "yields drops_nothing (stmts d [my_copy_rows a b cs])"
  "yields drops_nothing (stmts d [])"
  by (auto simp: pg_copy_rows_def my_copy_rows_def rmap.simps(1) quiet_stmt split: option.split list.split)

lemma pg_copyTable_cases:
  assumes "pg_copyTable ns op = Inr ss"
  shows "(cy_newName op, copy_place Postgres ns op) \<noteq> (cy_table op, table_place Postgres ns)"
    and "cy_structure op = Some False \<Longrightarrow> list_all drops_nothing ss"
proof -
  let ?into = "\<lparr>ns_database = ns_database ns, ns_schema = schema_given (or_else (cy_toSchema op) (ns_schema ns))\<rparr>"
  show "(cy_newName op, copy_place Postgres ns op) \<noteq> (cy_table op, table_place Postgres ns)"
    using assms by (auto simp: pg_copyTable_def Let_def on_table_def rbind_Inr invalid_def copy_place_def table_place_def split: if_splits)
  assume st: "cy_structure op = Some False"
  then have "yields drops_nothing (pg_copyTable ns op)"
    unfolding pg_copyTable_def Let_def
    by (auto simp: list_all_iff quiet_foreignKey quiet_advance quiet_rows simp del: rconcat_simps
        intro!: yields_on_table yields_rbind [where r = "quoteTable _ _ _"] yields_rconcat)
  with assms show "list_all drops_nothing ss" by (simp add: yieldsD)
qed

lemma my_copyTable_cases:
  assumes "my_copyTable ns op = Inr ss"
  shows "(cy_newName op, copy_place Mysql ns op) \<noteq> (cy_table op, table_place Mysql ns)"
    and "cy_structure op = Some False \<Longrightarrow> list_all drops_nothing ss"
proof -
  show "(cy_newName op, copy_place Mysql ns op) \<noteq> (cy_table op, table_place Mysql ns)"
    using assms by (auto simp: my_copyTable_def Let_def my_on_table_def rbind_Inr invalid_def copy_place_def table_place_def split: if_splits)
  assume st: "cy_structure op = Some False"
  then have "yields drops_nothing (my_copyTable ns op)"
    unfolding my_copyTable_def Let_def
    by (auto simp: list_all_iff quiet_foreignKey quiet_rows simp del: rconcat_simps
        intro!: yields_on_table yields_rbind [where r = "quoteTable _ _ _"] yields_rconcat)
  with assms show "list_all drops_nothing ss" by (simp add: yieldsD)
qed

text \<open>
  A copy that is turned into statements never goes onto the table it copies, on both databases, wherever the
  target is named or left out; and one without structure drops nothing, whatever else it was asked to do.
\<close>

theorem copyTable_safe:
  assumes "ddl_build d ns (OpCopyTable op) = Inr ss"
  shows "(cy_newName op, copy_place d ns op) \<noteq> (cy_table op, table_place d ns)
    \<and> (cy_structure op \<noteq> Some False \<or> list_all drops_nothing ss)"
  using assms pg_copyTable_cases [of ns op ss] my_copyTable_cases [of ns op ss]
  by (cases d) (auto simp: ddl_build_def)

theorem copyTable_safe_witness:
  "(''b'', ''public'') \<noteq> (''a'', ''public'')
   \<and> list_all drops_nothing [''INSERT INTO \"public\".\"b\" OVERRIDING SYSTEM VALUE SELECT * FROM \"public\".\"a\"'']"
proof -
  let ?op = "\<lparr>cy_table = ''a'', cy_newName = ''b'', cy_withData = True, cy_columns = None, cy_identityColumns = None, cy_serialColumns = None,
    cy_toDatabase = None, cy_toSchema = None, cy_structure = Some False, cy_dropExisting = None, cy_foreignKeys = None\<rparr>"
  let ?ns = "\<lparr>ns_database = ''d'', ns_schema = None\<rparr>"
  have "ddl_build Postgres ?ns (OpCopyTable ?op) = Inr [''INSERT INTO \"public\".\"b\" OVERRIDING SYSTEM VALUE SELECT * FROM \"public\".\"a\"'']"
    by code_simp
  from copyTable_safe [OF this] show ?thesis
    by (simp add: copy_place_def table_place_def pg_schema_def schema_given_def given_def or_else_def)
qed

subsection \<open>A statement break that is not seen\<close>


end
