(* ===== verification/Conditions.thy ===== *)
theory Conditions
  imports Quoting
begin

text \<open>
  How a filter or the key of a row becomes SQL: \<open>packages/adapter/src/sql/conditions.ts\<close>, the key types of
  \<open>packages/adapter/src/mysql/key-types.ts\<close>, the filters of \<open>packages/shared/src/schemas/browse.ts\<close> and the
  row keys of \<open>row-key.ts\<close>.

  The text of a statement is built while its values are bound, so each builder is a run over the parameters.  An
  object's entries are an association list in the order of \<open>Object.keys\<close>.
\<close>

subsection \<open>Filters and keys\<close>

datatype FilterOp =
  OpEq | OpNeq | OpLt | OpLte | OpGt | OpGte | OpContains | OpStartsWith | OpLike | OpNotLike | OpIsNull | OpIsNotNull
| OpIn | OpNotIn | OpBetween | OpNotBetween | OpRegexp | OpNotRegexp | OpEmpty | OpNotEmpty

fun op_name :: "FilterOp \<Rightarrow> string" where
  "op_name OpEq = ''eq''"
| "op_name OpNeq = ''neq''"
| "op_name OpLt = ''lt''"
| "op_name OpLte = ''lte''"
| "op_name OpGt = ''gt''"
| "op_name OpGte = ''gte''"
| "op_name OpContains = ''contains''"
| "op_name OpStartsWith = ''starts_with''"
| "op_name OpLike = ''like''"
| "op_name OpNotLike = ''not_like''"
| "op_name OpIsNull = ''is_null''"
| "op_name OpIsNotNull = ''is_not_null''"
| "op_name OpIn = ''in''"
| "op_name OpNotIn = ''not_in''"
| "op_name OpBetween = ''between''"
| "op_name OpNotBetween = ''not_between''"
| "op_name OpRegexp = ''regexp''"
| "op_name OpNotRegexp = ''not_regexp''"
| "op_name OpEmpty = ''empty''"
| "op_name OpNotEmpty = ''not_empty''"

definition LIST_OPS :: "FilterOp set" where
  "LIST_OPS = {OpIn, OpNotIn, OpBetween, OpNotBetween}"

text \<open>Operators that match on the text form, where a BIT column is not written as its bytes.\<close>

definition TEXT_OPS :: "FilterOp set" where
  "TEXT_OPS = {OpContains, OpStartsWith, OpLike, OpNotLike, OpRegexp, OpNotRegexp}"

text \<open>A missing \<open>value\<close> or \<open>values\<close> is \<open>None\<close>.\<close>

record Filter =
  f_column :: string
  f_op :: FilterOp
  f_value :: "Cell option"
  f_values :: "Cell list option"

fun FILTER_SQL :: "FilterOp \<Rightarrow> string" where
  "FILTER_SQL OpEq = ''=''"
| "FILTER_SQL OpNeq = ''<>''"
| "FILTER_SQL OpLt = ''<''"
| "FILTER_SQL OpLte = ''<=''"
| "FILTER_SQL OpGt = ''>''"
| "FILTER_SQL OpGte = ''>=''"
| "FILTER_SQL OpLike = ''LIKE''"
| "FILTER_SQL OpNotLike = ''NOT LIKE''"
| "FILTER_SQL OpContains = ''LIKE''"
| "FILTER_SQL OpStartsWith = ''LIKE''"
| "FILTER_SQL OpIsNull = ''IS NULL''"
| "FILTER_SQL OpIsNotNull = ''IS NOT NULL''"
| "FILTER_SQL OpIn = ''IN''"
| "FILTER_SQL OpNotIn = ''NOT IN''"
| "FILTER_SQL OpBetween = ''BETWEEN''"
| "FILTER_SQL OpNotBetween = ''NOT BETWEEN''"
| "FILTER_SQL OpRegexp = ''REGEXP''"
| "FILTER_SQL OpNotRegexp = ''NOT REGEXP''"
| "FILTER_SQL OpEmpty = ''=''"
| "FILTER_SQL OpNotEmpty = ''<>''"

type_synonym KeyValues = "(string \<times> Cell) list"

datatype RowKey = KeyPk KeyValues | KeyCtid string | KeyAll KeyValues

text \<open>A value to write: a cell, or a function with its argument (\<open>None\<close> where it is left out).\<close>

datatype WriteCell = PlainCell Cell | FunctionCell RowFunction "Cell option"

subsection \<open>What a dialect contributes\<close>

definition word_prefix :: "string \<Rightarrow> string \<Rightarrow> bool" where
  "word_prefix w t \<longleftrightarrow> prefix w t \<and> word_ends (drop (length w) t)"

text \<open>\<open>/^decimal\((\d+),\s*(\d+)\)/\<close>: the two numbers.\<close>

definition decimal_type :: "string \<Rightarrow> (nat \<times> nat) option" where
  "decimal_type t =
    (if \<not> prefix ''decimal('' t then None
     else let r = drop 8 t; p = takeWhile js_digit r; r1 = dropWhile js_digit r in
       if p = [] \<or> \<not> prefix '','' r1 then None
       else let r2 = dropWhile js_space (tl r1); s = takeWhile js_digit r2 in
         if s = [] \<or> \<not> prefix '')'' (dropWhile js_digit r2) then None
         else Some (read_nat p, read_nat s))"

definition keyParam :: "string \<Rightarrow> string \<Rightarrow> string" where
  "keyParam ph type =
    (let t = to_lower type in
     if word_prefix ''json'' t then ''CAST('' @ ph @ '' AS JSON)''
     else if word_prefix ''float'' t then ''CAST('' @ ph @ '' AS FLOAT)''
     else if \<exists>w \<in> set [''bigint'', ''mediumint'', ''smallint'', ''tinyint'', ''int'']. word_prefix w t then
       (if has_sub t ''unsigned'' then ''CAST('' @ ph @ '' AS UNSIGNED)'' else ''CAST('' @ ph @ '' AS SIGNED)'')
     else if word_prefix ''bit'' t then ''CAST(CONV(HEX('' @ ph @ ''), 16, 10) AS UNSIGNED)''
     else (case decimal_type t of
         Some (p, s) \<Rightarrow> ''CAST('' @ ph @ '' AS DECIMAL('' @ show_nat p @ '','' @ show_nat s @ ''))''
       | None \<Rightarrow> ph))"

definition CHARACTER_KEY_TYPE :: "string \<Rightarrow> bool" where
  "CHARACTER_KEY_TYPE type \<longleftrightarrow>
    (\<exists>w \<in> set [''char'', ''varchar'', ''tinytext'', ''text'', ''mediumtext'', ''longtext'', ''enum'', ''set''].
       word_prefix w (to_lower type))"

definition keyMatchExpr :: "string \<Rightarrow> string \<Rightarrow> string" where
  "keyMatchExpr e type =
    (if CHARACTER_KEY_TYPE type then ''CAST(CONVERT('' @ e @ '' USING utf8mb4) AS BINARY)'' else e)"

definition keyColumnExpr :: "string \<Rightarrow> string \<Rightarrow> string" where
  "keyColumnExpr quoted type =
    (if prefix ''enum('' (to_lower type) \<or> prefix ''set('' (to_lower type)
     then ''CAST('' @ quoted @ '' AS CHAR) COLLATE utf8mb4_bin'' else quoted)"

record ConditionHooks =
  ho_dialect :: Dialect
  ho_keyParam :: "string \<Rightarrow> string \<Rightarrow> string"
  ho_keyMatchExpr :: "string \<Rightarrow> string \<Rightarrow> string"
  ho_nullSafeEq :: string

text \<open>The hooks of the two adapters: MySQL's own, and PostgreSQL's, which leaves every expression alone.\<close>

definition hooks :: "Dialect \<Rightarrow> ConditionHooks" where
  "hooks d = (if d = Mysql
     then \<lparr>ho_dialect = Mysql, ho_keyParam = keyParam, ho_keyMatchExpr = keyMatchExpr, ho_nullSafeEq = ''<=>''\<rparr>
     else \<lparr>ho_dialect = Postgres, ho_keyParam = (\<lambda>ph type. ph), ho_keyMatchExpr = (\<lambda>e type. e),
       ho_nullSafeEq = ''IS NOT DISTINCT FROM''\<rparr>)"

subsection \<open>Values\<close>

text \<open>\<open>String(value)\<close> of a wire cell.\<close>

fun string_of :: "Cell \<Rightarrow> string" where
  "string_of CNull = ''null''"
| "string_of (CString s) = s"
| "string_of (CNumber n) = num_text n"
| "string_of (CBool b) = (if b then ''true'' else ''false'')"
| "string_of _ = ''[object Object]''"

definition BIT_MAX :: nat where
  "BIT_MAX = 2 ^ 64 - 1"

text \<open>\<open>n.toString(16)\<close>.\<close>

fun show_hex :: "nat \<Rightarrow> string" where
  "show_hex n = (if n < 16 then [hex_digit n] else show_hex (n div 16) @ [hex_digit (n mod 16)])"

declare show_hex.simps [simp del]

definition bitLiteral :: "Cell \<Rightarrow> (AdapterError, string) result" where
  "bitLiteral value =
    (let text = trim (string_of value) in
     if \<not> (text \<noteq> [] \<and> length text \<le> 20 \<and> all_chars js_digit text) \<or> BIT_MAX < read_nat text
     then Inl (AdapterError VALIDATION ''A BIT value must be a whole number from 0 to 18446744073709551615'')
     else let h = show_hex (read_nat text) in
       Inr (''X'' @ [sq] @ (if even (length h) then h else CHR ''0'' # h) @ [sq]))"

subsection \<open>Conditions\<close>

definition list_condition ::
  "ConditionHooks \<Rightarrow> string \<Rightarrow> Filter \<Rightarrow> string \<Rightarrow> (Cell \<Rightarrow> ('s, string) run) \<Rightarrow> ('s, string) run" where
  "list_condition h col f type bnd =
    (let op = FILTER_SQL (f_op f);
         values = (case f_values f of Some vs \<Rightarrow> vs | None \<Rightarrow> []);
         between = (f_op f = OpBetween \<or> f_op f = OpNotBetween)
     in if (if between then length values \<noteq> 2 else values = [])
        then raise (Adapter (AdapterError VALIDATION (''Filter '' @ [CHR 0x22] @ op_name (f_op f) @ [CHR 0x22]
          @ '' on '' @ f_column f @ '' takes '' @ (if between then ''two values'' else ''at least one value''))))
        else bind (each (\<lambda>v. bind (bnd v) (\<lambda>p. ret (ho_keyParam h p type))) values) (\<lambda>typed.
          ret (if between then col @ '' '' @ op @ '' '' @ typed ! 0 @ '' AND '' @ typed ! 1
               else col @ '' '' @ op @ '' ('' @ join '', '' typed @ '')'')))"

definition conditionSql ::
  "ConditionHooks \<Rightarrow> string \<Rightarrow> Filter \<Rightarrow> string \<Rightarrow> (Cell \<Rightarrow> ('s, string) run) \<Rightarrow> ('s, string) run" where
  "conditionSql h col f type bnd =
    (let d = ho_dialect h; op = FILTER_SQL (f_op f) in
     if f_op f = OpIsNull \<or> f_op f = OpIsNotNull then ret (col @ '' '' @ op)
     else let textCol = (if d = Postgres then col @ ''::text'' else col) in
     if f_op f = OpEmpty \<or> f_op f = OpNotEmpty
     then ret ((if d = Mysql then ''CONCAT('' @ col @ '')'' else textCol) @ '' '' @ op @ '' '' @ [sq, sq])
     else if f_op f \<in> LIST_OPS then list_condition h col f type bnd
     else (case f_value f of
       None \<Rightarrow> raise (Adapter (AdapterError VALIDATION (''Filter '' @ [CHR 0x22] @ op_name (f_op f) @ [CHR 0x22]
         @ '' on '' @ f_column f @ '' requires a value'')))
     | Some value \<Rightarrow>
         if f_op f = OpContains \<or> f_op f = OpStartsWith then
           (let text = escapeLike (if value = CNull then [] else string_of value);
                pattern = (if f_op f = OpContains then ''%'' @ text @ ''%'' else text @ ''%'')
            in bind (bnd (CString pattern)) (\<lambda>p. ret (textCol @ '' LIKE '' @ p @ '' ESCAPE '' @ [sq] @ ''!'' @ [sq])))
         else if f_op f = OpLike \<or> f_op f = OpNotLike then
           bind (bnd value) (\<lambda>p. ret (textCol @ '' '' @ op @ '' '' @ p))
         else if f_op f = OpRegexp \<or> f_op f = OpNotRegexp then
           bind (bnd value) (\<lambda>p. ret
             (if d = Postgres then textCol @ '' '' @ (if f_op f = OpRegexp then ''~'' else ''!~'') @ '' '' @ p
              else col @ '' '' @ op @ '' '' @ p))
         else bind (bnd value) (\<lambda>p. ret (col @ '' '' @ op @ '' '' @ ho_keyParam h p type))))"

text \<open>Binding a cell: \<open>params.add(toDbValue(v))\<close>; a value of any kind: \<open>params.add(v)\<close>.\<close>

definition add_value :: "DbValue \<Rightarrow> (Params, string) run" where
  "add_value v p = (case add_param p v of (Inl e, p') \<Rightarrow> (Inl (Plain_error e), p') | (Inr t, p') \<Rightarrow> (Inr t, p'))"

definition add_cell :: "Cell \<Rightarrow> (Params, string) run" where
  "add_cell c = bind (lift (toDbValue c)) add_value"

definition type_of :: "(string \<Rightarrow> string option) \<Rightarrow> string \<Rightarrow> string" where
  "type_of types name = (case types name of Some t \<Rightarrow> t | None \<Rightarrow> [])"

definition buildWhere :: "ConditionHooks \<Rightarrow> Filter list \<Rightarrow> (string \<Rightarrow> string option) \<Rightarrow> (Params, string) run" where
  "buildWhere h filters types =
    (if filters = [] then ret []
     else bind (each (\<lambda>f. bind (lift (quoteIdent (ho_dialect h) (f_column f))) (\<lambda>col.
         conditionSql h col f (type_of types (f_column f)) add_cell)) filters) (\<lambda>parts.
       ret ('' WHERE '' @ join '' AND '' parts)))"

fun writeValue :: "Dialect \<Rightarrow> WriteCell \<Rightarrow> (Params, string) run" where
  "writeValue d (PlainCell c) = add_cell c"
| "writeValue d (FunctionCell fn arg) =
     rowFunctionSql d fn (add_value (DbCell (case arg of Some c \<Rightarrow> c | None \<Rightarrow> CNull)))"

definition key_value ::
  "ConditionHooks \<Rightarrow> KeyValues \<Rightarrow> (string \<Rightarrow> string option) \<Rightarrow> string \<Rightarrow> (Params, string) run" where
  "key_value h vs types name =
    bind (add_cell (case map_of vs name of Some c \<Rightarrow> c | None \<Rightarrow> CNull)) (\<lambda>p.
      ret (ho_keyParam h p (type_of types name)))"

fun buildKeyWhere :: "ConditionHooks \<Rightarrow> RowKey \<Rightarrow> (string \<Rightarrow> string option) \<Rightarrow> (Params, string) run" where
  "buildKeyWhere h (KeyPk vs) types =
    (if vs = [] then raise (Adapter (AdapterError KEY_MISMATCH ''Primary key values are empty''))
     else bind (each (\<lambda>n. bind (lift (quoteIdent (ho_dialect h) n)) (\<lambda>col.
         bind (key_value h vs types n) (\<lambda>v. ret (col @ '' = '' @ v)))) (map fst vs)) (\<lambda>parts.
       ret ('' WHERE '' @ join '' AND '' parts)))"
| "buildKeyWhere h (KeyAll vs) types =
    (if ho_dialect h \<noteq> Mysql
     then raise (Adapter (AdapterError UNSUPPORTED ''all-columns keys are only supported on MySQL''))
     else if vs = [] then raise (Adapter (AdapterError KEY_MISMATCH ''Key values are empty''))
     else bind (each (\<lambda>n. bind (lift (quoteIdent (ho_dialect h) n)) (\<lambda>col.
         bind (key_value h vs types n) (\<lambda>v.
           ret (ho_keyMatchExpr h col (type_of types n) @ '' '' @ ho_nullSafeEq h @ '' ''
             @ ho_keyMatchExpr h v (type_of types n))))) (map fst vs)) (\<lambda>parts.
       ret ('' WHERE '' @ join '' AND '' parts)))"
| "buildKeyWhere h (KeyCtid value) types =
    (if ho_dialect h \<noteq> Postgres
     then raise (Adapter (AdapterError UNSUPPORTED ''ctid keys are only supported on PostgreSQL''))
     else bind (add_value (DbCell (CString value))) (\<lambda>p. ret ('' WHERE ctid = '' @ p @ ''::tid'')))"

subsection \<open>BIT values\<close>

text \<open>A number as its bytes, the most significant first, and back.\<close>

fun bytes_of :: "nat \<Rightarrow> nat list" where
  "bytes_of n = (if n < 256 then [n] else bytes_of (n div 256) @ [n mod 256])"

declare bytes_of.simps [simp del]

definition number_of :: "nat list \<Rightarrow> nat" where
  "number_of = foldl (\<lambda>n b. 256 * n + b) 0"

lemma bytes_of_value: "number_of (bytes_of n) = n"
proof (induction n rule: bytes_of.induct)
  case (1 n)
  then show ?case by (subst bytes_of.simps) (auto simp: number_of_def)
qed

lemma bytes_of_range: "list_all (\<lambda>b. b < 256) (bytes_of n)"
proof (induction n rule: bytes_of.induct)
  case (1 n)
  then show ?case by (subst bytes_of.simps) auto
qed

lemma bytes_of_length: "n < 256 ^ Suc k \<Longrightarrow> length (bytes_of n) \<le> Suc k"
proof (induction k arbitrary: n)
  case 0
  then have "bytes_of n = [n]" by (simp add: bytes_of.simps [of n])
  then show ?case by simp
next
  case (Suc k)
  show ?case
  proof (cases "n < 256")
    case True
    then have "bytes_of n = [n]" by (simp add: bytes_of.simps [of n])
    then show ?thesis by simp
  next
    case False
    from Suc.prems have "n div 256 < 256 ^ Suc k" by (simp add: less_mult_imp_div_less mult.commute)
    with Suc.IH have "length (bytes_of (n div 256)) \<le> Suc k" by blast
    moreover from False have "bytes_of n = bytes_of (n div 256) @ [n mod 256]" by (simp add: bytes_of.simps [of n])
    ultimately show ?thesis by simp
  qed
qed

lemma show_hex_two: "16 \<le> n \<Longrightarrow> n < 256 \<Longrightarrow> show_hex n = [hex_digit (n div 16), hex_digit (n mod 16)]"
  by (simp add: show_hex.simps [of n] show_hex.simps [of "n div 16"] less_mult_imp_div_less)

lemma show_hex_step: "256 \<le> n \<Longrightarrow> show_hex n = show_hex (n div 256) @ [hex_digit (n mod 256 div 16), hex_digit (n mod 256 mod 16)]"
proof -
  assume "256 \<le> n"
  then have "show_hex n = show_hex (n div 16) @ [hex_digit (n mod 16)]"
    and "show_hex (n div 16) = show_hex (n div 16 div 16) @ [hex_digit (n div 16 mod 16)]"
    by (simp_all add: show_hex.simps [of n] show_hex.simps [of "n div 16"] div_le_mono)
  moreover have "n div 16 mod 16 = n mod 256 div 16" "n mod 16 = n mod 256 mod 16" "n div 16 div 16 = n div 256"
    by (simp_all add: div_mult2_eq mod_mult2_eq [of n 16 16, simplified] mod_mod_cancel)
  ultimately show ?thesis by simp
qed

lemma padded_hex:
  "(if even (length (show_hex n)) then show_hex n else CHR ''0'' # show_hex n) = hex_bytes (bytes_of n)"
proof (induction n rule: bytes_of.induct)
  case (1 n)
  have zero: "hex_digit 0 = CHR ''0''" by (simp add: hex_digit_def)
  consider "n < 16" | "16 \<le> n" "n < 256" | "256 \<le> n" by linarith
  then show ?case
  proof cases
    case 1
    then have "show_hex n = [hex_digit n]" and "bytes_of n = [n]"
      by (simp_all add: show_hex.simps [of n] bytes_of.simps [of n])
    with 1 show ?thesis by (simp add: hex_bytes_def zero)
  next
    case 2
    then have "bytes_of n = [n]" by (simp add: bytes_of.simps [of n])
    with 2 show ?thesis by (simp add: hex_bytes_def show_hex_two)
  next
    case 3
    then have b: "hex_bytes (bytes_of n) = hex_bytes (bytes_of (n div 256))
        @ [hex_digit (n mod 256 div 16), hex_digit (n mod 256 mod 16)]"
      by (subst bytes_of.simps) (simp add: hex_bytes_def)
    from 3 1 have "(if even (length (show_hex (n div 256))) then show_hex (n div 256) else CHR ''0'' # show_hex (n div 256))
        = hex_bytes (bytes_of (n div 256))" by simp
    then show ?thesis unfolding b show_hex_step [OF 3] by (auto split: if_splits)
  qed
qed

text \<open>
  A BIT value is refused only when it is not a whole number of one to twenty digits below \<open>2^64\<close>; the literal of
  one that is taken holds the bytes of that number, one to eight of them, the most significant first.
\<close>

theorem bitLiteral_bytes:
  "case bitLiteral v of
     Inl e \<Rightarrow> err_code e = VALIDATION
       \<and> (let t = trim (string_of v) in
            \<not> (t \<noteq> [] \<and> length t \<le> 20 \<and> list_all js_digit t \<and> read_nat t < 2 ^ 64))
   | Inr s \<Rightarrow> (\<exists>bs. s = ''X'' @ [sq] @ hex_bytes bs @ [sq] \<and> bs \<noteq> [] \<and> length bs \<le> 8
       \<and> list_all (\<lambda>b. b < 256) bs \<and> number_of bs = read_nat (trim (string_of v))
       \<and> list_all js_digit (trim (string_of v)))"
proof (cases "bitLiteral v")
  case (Inl e)
  then show ?thesis by (auto simp: bitLiteral_def Let_def all_chars_def BIT_MAX_def split: if_splits)
next
  case (Inr s)
  let ?t = "trim (string_of v)"
  from Inr have t: "list_all js_digit ?t" "read_nat ?t \<le> BIT_MAX"
    and s: "s = ''X'' @ [sq] @ hex_bytes (bytes_of (read_nat ?t)) @ [sq]"
    by (auto simp: bitLiteral_def Let_def all_chars_def padded_hex split: if_splits)
  have "length (bytes_of (read_nat ?t)) \<le> Suc 7" using t(2) by (intro bytes_of_length) (simp add: BIT_MAX_def)
  moreover have "bytes_of (read_nat ?t) \<noteq> []" by (simp add: bytes_of.simps [of "read_nat ?t"])
  ultimately show ?thesis
    unfolding Inr sum.case using t s bytes_of_value bytes_of_range
    by (intro exI [of _ "bytes_of (read_nat ?t)"]) simp
qed

subsection \<open>A text with its values, placeholders or written in\<close>

text \<open>
  A built text is the pieces between its values.  With placeholders it is what runs; with the values written in it is
  what is shown for editing.
\<close>

definition value_literal :: "Dialect \<Rightarrow> DbValue \<Rightarrow> string" where
  "value_literal d v =
    (case cellLiteral d (case v of DbBytes bs \<Rightarrow> CBin (base64_encode bs) | DbCell c \<Rightarrow> c) of
       Inr t \<Rightarrow> t | Inl e \<Rightarrow> [])"

definition shown :: "Dialect \<Rightarrow> bool \<Rightarrow> nat \<Rightarrow> DbValue \<Rightarrow> string" where
  "shown d literal i v = (if literal then value_literal d v else placeholder d i)"

fun fill :: "(nat \<Rightarrow> DbValue \<Rightarrow> string) \<Rightarrow> nat \<Rightarrow> (string \<times> DbValue) list \<Rightarrow> string" where
  "fill h i [] = []"
| "fill h i ((t, v) # ps) = t @ h i v @ fill h (Suc i) ps"

definition params_at :: "Dialect \<Rightarrow> bool \<Rightarrow> DbValue list \<Rightarrow> Params" where
  "params_at d literal vs = \<lparr>pa_dialect = d, pa_literal = literal, pa_values = vs\<rparr>"

definition same_template ::
  "Dialect \<Rightarrow> DbValue list \<Rightarrow> (Params, string) run \<Rightarrow> (string \<times> DbValue) list \<Rightarrow> string \<Rightarrow> bool" where
  "same_template d vs m ps tail \<longleftrightarrow> (\<forall>lit. m (params_at d lit vs)
     = (Inr (fill (shown d lit) (Suc (length vs)) ps @ tail), params_at d lit (vs @ map snd ps)))"

definition same_error :: "Dialect \<Rightarrow> DbValue list \<Rightarrow> (Params, string) run \<Rightarrow> bool" where
  "same_error d vs m \<longleftrightarrow> (\<exists>e. \<forall>lit. fst (m (params_at d lit vs)) = Inl e)"

definition templated :: "Dialect \<Rightarrow> (Params, string) run \<Rightarrow> bool" where
  "templated d m \<longleftrightarrow> (\<forall>vs. same_error d vs m \<or> (\<exists>ps tail. same_template d vs m ps tail))"

named_theorems templated_intros \<open>runs that build a template\<close>

text \<open>Two templates one after the other.\<close>

fun glue :: "(string \<times> DbValue) list \<times> string \<Rightarrow> (string \<times> DbValue) list \<times> string
    \<Rightarrow> (string \<times> DbValue) list \<times> string" where
  "glue (ps, t) ([], u) = (ps, t @ u)"
| "glue (ps, t) ((q, v) # qs, u) = (ps @ (t @ q, v) # qs, u)"

lemma fill_append: "fill h i (ps @ qs) = fill h i ps @ fill h (i + length ps) qs"
  by (induction ps arbitrary: i) auto

lemma fill_glue:
  "fill h i (fst (glue (ps, t) (qs, u))) @ snd (glue (ps, t) (qs, u)) = fill h i ps @ t @ fill h (i + length ps) qs @ u"
  by (cases "((ps, t), (qs, u))" rule: glue.cases) (auto simp: fill_append)

lemma glue_values: "map snd (fst (glue (ps, t) (qs, u))) = map snd ps @ map snd qs"
  by (cases "((ps, t), (qs, u))" rule: glue.cases) auto

lemma templated_ret [templated_intros]: "templated d (ret t)"
  unfolding templated_def same_template_def
  by (intro allI disjI2 exI [of _ "[]"] exI [of _ t]) (simp add: ret_def)

lemma templated_raise [templated_intros]: "templated d (raise e)"
  by (auto simp: templated_def same_error_def raise_def)

lemma templated_lift [templated_intros]: "(\<And>x. r = Inr x \<Longrightarrow> templated d (f x)) \<Longrightarrow> templated d (bind (lift r) f)"
  by (cases r) (auto simp: run_simps templated_raise)

lemma literal_total: "(\<And>t k. c \<noteq> CTruncated t k) \<Longrightarrow> \<exists>t. cellLiteral d c = Inr t"
proof (cases c)
  case (CNumber n)
  then show ?thesis by (cases n) auto
qed auto

lemma templated_value:
  assumes "\<And>t k. v \<noteq> DbCell (CTruncated t k)"
  shows "templated d (add_value v)"
proof -
  have "\<exists>t. cellLiteral d (case v of DbBytes bs \<Rightarrow> CBin (base64_encode bs) | DbCell c \<Rightarrow> c) = Inr t"
    using assms literal_total by (cases v) (auto split: Cell.split)
  then have "same_template d vs (add_value v) [([], v)] []" for vs
    by (auto simp: same_template_def params_at_def shown_def value_literal_def add_value_def add_param_def Let_def)
  then show ?thesis unfolding templated_def by blast
qed

lemma templated_cell [templated_intros]: "templated d (add_cell c)"
  unfolding add_cell_def by (rule templated_lift, rule templated_value) (auto elim: toDbValue.elims)

text \<open>What is said before, between and after two parts.\<close>

lemma templated_two:
  assumes "templated d m" and "templated d m'"
  shows "templated d (bind m (\<lambda>x. bind m' (\<lambda>y. ret (a @ x @ b @ y @ c))))" (is "templated d ?m")
  unfolding templated_def
proof
  fix vs
  consider "same_error d vs m" | ps t where "same_template d vs m ps t" using assms(1) unfolding templated_def by blast
  then show "same_error d vs ?m \<or> (\<exists>ps tail. same_template d vs ?m ps tail)"
  proof cases
    case 1
    then obtain e where "\<And>lit. fst (m (params_at d lit vs)) = Inl e" by (auto simp: same_error_def)
    then have "fst (?m (params_at d lit vs)) = Inl e" for lit
      by (simp add: bind_def split: prod.split) (metis fst_conv sum.simps(5))
    then show ?thesis by (auto simp: same_error_def)
  next
    case m: 2
    let ?vs = "vs @ map snd ps"
    consider "same_error d ?vs m'" | qs u where "same_template d ?vs m' qs u"
      using assms(2) unfolding templated_def by blast
    then show ?thesis
    proof cases
      case 1
      then obtain e where e: "\<And>lit. fst (m' (params_at d lit ?vs)) = Inl e" by (auto simp: same_error_def)
      have "fst (?m (params_at d lit vs)) = Inl e" for lit
        using m e [of lit] by (cases "m' (params_at d lit ?vs)") (simp add: same_template_def bind_def)
      then show ?thesis by (auto simp: same_error_def)
    next
      case m': 2
      define r where "r = glue ([], a) (glue (ps, t @ b) (qs, u @ c))"
      have filled: "a @ (fill h i ps @ t) @ b @ (fill h (i + length ps) qs @ u) @ c = fill h i (fst r) @ snd r"
        and vals: "map snd (fst r) = map snd ps @ map snd qs" for h i
        unfolding r_def by (cases "glue (ps, t @ b) (qs, u @ c)";
          simp add: fill_glue [of h i "[]" a, simplified] glue_values;
          metis append.assoc fill_glue fst_conv snd_conv glue_values)+
      have "same_template d vs ?m (fst r) (snd r)"
        unfolding same_template_def
      proof
        fix lit
        have "?m (params_at d lit vs) = (Inr (a @ (fill (shown d lit) (Suc (length vs)) ps @ t) @ b
            @ (fill (shown d lit) (Suc (length vs) + length ps) qs @ u) @ c), params_at d lit (?vs @ map snd qs))"
          using m m' by (simp add: same_template_def bind_def ret_def)
        then show "?m (params_at d lit vs) = (Inr (fill (shown d lit) (Suc (length vs)) (fst r) @ snd r),
            params_at d lit (vs @ map snd (fst r)))"
          by (simp only: filled) (simp only: vals append.assoc)
      qed
      then show ?thesis by blast
    qed
  qed
qed

lemma templated_wrap:
  assumes "templated d m" and "f = (\<lambda>x. ret (a @ x @ b))"
  shows "templated d (bind m f)"
  using templated_two [OF assms(1) templated_ret [of d "[]"], of a "[]" b] unfolding assms(2) by (simp add: run_simps)

lemma join_Cons: "ys \<noteq> [] \<Longrightarrow> join sep (y # ys) = y @ sep @ join sep ys"
  by (cases ys) auto

lemma each_nonempty: "each f xs s = (Inr ys, t) \<Longrightarrow> xs \<noteq> [] \<Longrightarrow> ys \<noteq> []"
  by (auto dest: each_length)

lemma templated_join:
  assumes "\<And>x. x \<in> set xs \<Longrightarrow> templated d (f x)"
  shows "templated d (bind (each f xs) (\<lambda>ys. ret (join sep ys)))"
  using assms
proof (induction xs)
  case Nil
  then show ?case by (simp add: run_simps templated_ret)
next
  case (Cons x xs)
  show ?case
  proof (cases "xs = []")
    case True
    with Cons.prems show ?thesis by (simp add: run_simps bind_assoc)
  next
    case False
    have "bind (each f (x # xs)) (\<lambda>ys. ret (join sep ys))
        = bind (f x) (\<lambda>y. bind (each f xs) (\<lambda>ys. ret (join sep (y # ys))))"
      by (simp add: run_simps bind_assoc)
    also have "\<dots> = bind (f x) (\<lambda>y. bind (each f xs) (\<lambda>ys. ret (y @ sep @ join sep ys)))"
      using False by (intro bind_cong) (auto intro!: bind_cong [THEN fun_cong] simp: join_Cons dest!: each_nonempty)
    also have "\<dots> = bind (f x) (\<lambda>y. bind (bind (each f xs) (\<lambda>ys. ret (join sep ys))) (\<lambda>z. ret ([] @ y @ sep @ z @ [])))"
      by (simp add: run_simps bind_assoc)
    finally show ?thesis using templated_two Cons by (metis list.set_intros)
  qed
qed

lemma templated_joined:
  assumes "\<And>x. x \<in> set xs \<Longrightarrow> templated d (f x)" and "g = (\<lambda>ys. ret (a @ join sep ys @ b))"
  shows "templated d (bind (each f xs) g)"
  using templated_wrap [OF templated_join [where xs = xs and f = f and sep = sep, OF assms(1)] refl, of a b]
  unfolding assms(2) by (simp add: run_simps bind_assoc)

definition around :: "(string \<Rightarrow> string) \<Rightarrow> bool" where
  "around f \<longleftrightarrow> (\<exists>a b. \<forall>q. f q = a @ q @ b)"

lemma around_rules:
  "around (\<lambda>q. q)" "around (\<lambda>q. s @ q @ t)" "around f \<Longrightarrow> around g \<Longrightarrow> around (\<lambda>q. if P then f q else g q)"
proof -
  have "\<forall>q. q = [] @ q @ []" by simp
  then show "around (\<lambda>q. q)" unfolding around_def by blast
next
  show "around (\<lambda>q. s @ q @ t)" unfolding around_def by blast
next
  show "around f \<Longrightarrow> around g \<Longrightarrow> around (\<lambda>q. if P then f q else g q)" by (cases P) simp_all
qed

lemma keyParam_around: "around (\<lambda>q. keyParam q type)"
  unfolding keyParam_def Let_def
  by (cases "decimal_type (to_lower type)"; simp only: option.case split_beta; intro around_rules)

lemma hooks_simps [simp]: "ho_dialect (hooks d) = d"
  by (cases d) (simp_all add: hooks_def)

lemma hook_around: obtains a b where "\<And>p. ho_keyParam (hooks d) p type = a @ p @ b"
proof (cases d)
  case Mysql
  then show ?thesis using keyParam_around [of type] that by (auto simp: hooks_def around_def)
next
  case Postgres
  then show ?thesis using that [of "[]" "[]"] by (simp add: hooks_def)
qed

lemma templated_typed: "templated d m \<Longrightarrow> templated d (bind m (\<lambda>p. ret (x @ ho_keyParam (hooks d) p type)))"
proof -
  assume m: "templated d m"
  obtain a b where k: "\<And>p. ho_keyParam (hooks d) p type = a @ p @ b" by (rule hook_around [of d type]) blast
  show ?thesis by (rule templated_wrap [OF m, of _ "x @ a" b]) (simp add: k)
qed

lemma templated_list_condition: "templated d (list_condition (hooks d) col f type add_cell)"
proof -
  let ?one = "\<lambda>v. bind (add_cell v) (\<lambda>p. ret (ho_keyParam (hooks d) p type))"
  have one: "templated d (?one v)" for v using templated_typed [of d "add_cell v" "[]"] by (simp add: templated_cell)
  let ?vs = "case f_values f of Some vs \<Rightarrow> vs | None \<Rightarrow> []"
  consider (no) "if f_op f = OpBetween \<or> f_op f = OpNotBetween then length ?vs \<noteq> 2 else ?vs = []"
    | (two) v w where "f_op f = OpBetween \<or> f_op f = OpNotBetween" "?vs = [v, w]"
    | (many) "\<not> (f_op f = OpBetween \<or> f_op f = OpNotBetween)" "?vs \<noteq> []"
    by (cases "f_op f = OpBetween \<or> f_op f = OpNotBetween"; cases ?vs; cases "tl ?vs"; cases "tl (tl ?vs)") auto
  then show ?thesis
  proof cases
    case no
    then show ?thesis by (simp add: list_condition_def Let_def templated_raise)
  next
    case two
    then have "list_condition (hooks d) col f type add_cell = bind (?one v) (\<lambda>x. bind (?one w) (\<lambda>y.
        ret ((col @ '' '' @ FILTER_SQL (f_op f) @ '' '') @ x @ '' AND '' @ y @ [])))"
      by (simp add: list_condition_def Let_def run_simps bind_assoc)
    then show ?thesis by (simp only: templated_two [OF one one])
  next
    case many
    then have "list_condition (hooks d) col f type add_cell = bind (each ?one ?vs) (\<lambda>typed.
        ret ((col @ '' '' @ FILTER_SQL (f_op f) @ '' ('') @ join '', '' typed @ '')''))"
      by (simp add: list_condition_def Let_def)
    then show ?thesis by (simp only: templated_joined [OF one refl])
  qed
qed

lemma around_steps:
  "around (\<lambda>q. q @ t)" "around f \<Longrightarrow> around (\<lambda>q. s @ f q)" "around f \<Longrightarrow> around (\<lambda>q. c # f q)"
  "around (\<lambda>q. ho_keyParam (hooks d) q type)"
proof -
  have "\<forall>q. q @ t = [] @ q @ t" by simp
  then show "around (\<lambda>q. q @ t)" unfolding around_def by blast
  assume "around f"
  then obtain a b where f: "\<forall>q. f q = a @ q @ b" unfolding around_def by blast
  then have "\<forall>q. s @ f q = (s @ a) @ q @ b" and "\<forall>q. c # f q = (c # a) @ q @ b" by simp_all
  then show "around (\<lambda>q. s @ f q)" and "around (\<lambda>q. c # f q)" unfolding around_def by blast+
next
  show "around (\<lambda>q. ho_keyParam (hooks d) q type)"
    by (rule hook_around [of d type]) (unfold around_def, blast)
qed

lemma templated_around: "templated d m \<Longrightarrow> around g \<Longrightarrow> templated d (bind m (\<lambda>p. ret (g p)))"
proof -
  assume m: "templated d m" and "around g"
  then obtain a b where "\<forall>q. g q = a @ q @ b" unfolding around_def by blast
  then show ?thesis using templated_wrap [OF m] by simp
qed

lemma templated_condition [templated_intros]: "templated d (conditionSql (hooks d) col f type add_cell)"
  unfolding conditionSql_def Let_def hooks_simps
  by (auto intro!: templated_ret templated_raise templated_list_condition templated_around [OF templated_cell]
    around_rules(1) around_steps split: option.split)

lemma templated_where: "templated d (buildWhere (hooks d) filters types)"
proof -
  have "templated d (bind (lift (quoteIdent d (f_column f))) (\<lambda>col.
      conditionSql (hooks d) col f (type_of types (f_column f)) add_cell))" for f
    by (intro templated_intros)
  from templated_joined [where a = "'' WHERE ''" and b = "[]" and sep = "'' AND ''" and xs = filters, OF this refl]
  show ?thesis unfolding buildWhere_def hooks_simps append_Nil2 by (simp only: templated_ret split: if_split) simp
qed

end
