(* ===== verification/Tables.thy ===== *)
theory Tables
  imports Conditions Ddl_Ops
begin

text \<open>
  What a table is, as the adapters describe it (\<open>packages/shared/src/schemas/structure.ts\<close>), the browse options of
  \<open>browse.ts\<close>, and how the rows of a table are addressed (\<open>BaseAdapter.resolveRowKey\<close>).
\<close>

record ColumnDef =
  co_name :: string
  co_dataType :: string
  co_nullable :: bool
  co_default :: "string option"
  co_defaultIsExpression :: bool
  co_extra :: string
  co_comment :: "string option"
  co_collation :: "string option"
  co_check :: "string option"
  co_generated :: "GeneratedColumn option"

record IndexDef =
  idx_name :: string
  idx_unique :: bool
  idx_primary :: bool
  idx_columns :: "string list"
  idx_type :: "string option"
  idx_predicate :: "string option"
  idx_definition :: "string option"
  idx_lengths :: "(string \<times> nat) list"
  idx_comment :: "string option"

record ForeignKeyDef =
  fkd_name :: string
  fkd_columns :: "string list"
  fkd_refNamespace :: Namespace
  fkd_refTable :: string
  fkd_refColumns :: "string list"
  fkd_onUpdate :: "string option"
  fkd_onDelete :: "string option"

record ReferencingKeyDef =
  rkd_name :: string
  rkd_fromNamespace :: Namespace
  rkd_fromTable :: string
  rkd_fromColumns :: "string list"
  rkd_columns :: "string list"

record TableSchema =
  tb_name :: string
  tb_kind :: TableKind
  tb_comment :: "string option"
  tb_engine :: "string option"
  tb_rowEstimate :: "int option"
  tb_partitioned :: bool
  tb_hasChildren :: bool
  tb_inherits :: "string list"
  tb_collation :: "string option"
  tb_autoIncrement :: "string option"
  tb_columns :: "ColumnDef list"
  tb_primaryKey :: "string list"
  tb_indexes :: "IndexDef list"
  tb_unusableIndexes :: "string list option"
  tb_foreignKeys :: "ForeignKeyDef list"
  tb_referencedBy :: "ReferencingKeyDef list"

definition isViewKind :: "TableKind \<Rightarrow> bool" where
  "isViewKind kind \<longleftrightarrow> kind \<noteq> KTable"

text \<open>\<open>/^(?:(?:VIRTUAL|STORED) )?GENERATED\b/i\<close>\<close>

definition isGeneratedColumn :: "string \<Rightarrow> bool" where
  "isGeneratedColumn extra \<longleftrightarrow>
    (\<exists>w \<in> set [''generated'', ''virtual generated'', ''stored generated'']. word_prefix w (to_lower extra))"

datatype SortDirection = Ascending | Descending

record SortSpec =
  so_column :: string
  so_direction :: SortDirection

record BrowseOptions =
  bo_offset :: nat
  bo_limit :: nat
  bo_sort :: "SortSpec list"
  bo_filters :: "Filter list"
  bo_profile :: bool

definition BROWSE_ALL_MAX :: nat where "BROWSE_ALL_MAX = 100000"

definition EXACT_COUNT_MAX_ROWS :: int where "EXACT_COUNT_MAX_ROWS = 100000"

definition DISTINCT_VALUES_LIMIT :: nat where "DISTINCT_VALUES_LIMIT = 100"

datatype RowKeyKind = PkKind | CtidKind | AllColumnsKind | NoKind

datatype CountKind = CountExact | CountEstimate | CountLowerBound

definition countMode :: "int option \<Rightarrow> CountKind" where
  "countMode estimate =
    (case estimate of Some n \<Rightarrow> if n > EXACT_COUNT_MAX_ROWS then CountEstimate else CountExact | None \<Rightarrow> CountExact)"

definition fallbackKeyKind :: "Dialect \<Rightarrow> RowKeyKind" where
  "fallbackKeyKind d = (if d = Mysql then AllColumnsKind else CtidKind)"

definition fallbackKeySelect :: "Dialect \<Rightarrow> string option" where
  "fallbackKeySelect d = (if d = Mysql then None else Some (''ctid::text AS '' @ [CHR 0x22] @ ''ctid'' @ [CHR 0x22]))"

definition resolveRowKey :: "Dialect \<Rightarrow> TableSchema \<Rightarrow> RowKeyKind \<times> string list" where
  "resolveRowKey d schema =
    (if isViewKind (tb_kind schema) then (NoKind, [])
     else if tb_primaryKey schema \<noteq> [] then (PkKind, tb_primaryKey schema)
     else let notNull = map co_name (filter (\<lambda>c. \<not> co_nullable c) (tb_columns schema)) in
       (case List.find (\<lambda>i. idx_unique i \<and> idx_predicate i = None \<and> list_all (\<lambda>c. c \<in> set notNull) (idx_columns i))
           (tb_indexes schema) of
         Some unique \<Rightarrow> (PkKind, idx_columns unique)
       | None \<Rightarrow> let kind = fallbackKeyKind d in
           if kind = CtidKind \<and> (tb_partitioned schema \<or> tb_hasChildren schema) then (NoKind, [])
           else (kind, if kind = CtidKind then [''ctid''] else map co_name (tb_columns schema))))"

text \<open>A described table: its key and its indexes are over its own columns, an index has at least one.\<close>

definition wf_schema :: "TableSchema \<Rightarrow> bool" where
  "wf_schema schema \<longleftrightarrow> set (tb_primaryKey schema) \<subseteq> co_name ` set (tb_columns schema)
     \<and> list_all (\<lambda>i. idx_columns i \<noteq> []) (tb_indexes schema) \<and> tb_columns schema \<noteq> []"

text \<open>The columns a key of each kind can hold, and the kinds each dialect's key condition takes.\<close>

definition key_of_kind :: "RowKeyKind \<Rightarrow> KeyValues \<Rightarrow> string \<Rightarrow> RowKey option" where
  "key_of_kind kind vs ctid = (case kind of
     PkKind \<Rightarrow> Some (KeyPk vs) | AllColumnsKind \<Rightarrow> Some (KeyAll vs) | CtidKind \<Rightarrow> Some (KeyCtid ctid) | NoKind \<Rightarrow> None)"

definition ok_run :: "('s \<Rightarrow> bool) \<Rightarrow> ('s, 'a) run \<Rightarrow> bool" where
  "ok_run P m \<longleftrightarrow> (\<forall>s. P s \<longrightarrow> (\<exists>x s'. m s = (Inr x, s') \<and> P s'))"

named_theorems ok_intros \<open>runs that return\<close>

lemma ok_ret [ok_intros]: "ok_run P (ret x)"
  by (simp add: ok_run_def ret_def)

lemma ok_bind [ok_intros]: "ok_run P m \<Longrightarrow> (\<And>x. ok_run P (f x)) \<Longrightarrow> ok_run P (bind m f)"
proof -
  assume m: "ok_run P m" and f: "\<And>x. ok_run P (f x)"
  show "ok_run P (bind m f)" unfolding ok_run_def
  proof (intro allI impI)
    fix s assume "P s"
    with m obtain x s' where "m s = (Inr x, s')" "P s'" by (auto simp: ok_run_def)
    with f [of x] show "\<exists>y t. bind m f s = (Inr y, t) \<and> P t" by (simp add: ok_run_def bind_def)
  qed
qed

lemma ok_each [ok_intros]: "(\<And>x. x \<in> set xs \<Longrightarrow> ok_run P (f x)) \<Longrightarrow> ok_run P (each f xs)"
proof (induction xs)
  case (Cons x xs)
  then show ?case unfolding each.simps by (intro ok_bind ok_ret) simp_all
qed (simp add: ok_ret)

lemma ok_add_value [ok_intros]: "ok_run (\<lambda>p. \<not> pa_literal p) (add_value v)"
  by (simp add: ok_run_def add_value_def add_param_def Let_def)

lemma ok_key_value [ok_intros]:
  "list_all (\<lambda>x. isInputCell (snd x)) vs \<Longrightarrow> ok_run (\<lambda>p. \<not> pa_literal p) (key_value h vs types n)"
proof -
  assume vs: "list_all (\<lambda>x. isInputCell (snd x)) vs"
  let ?c = "case map_of vs n of Some c \<Rightarrow> c | None \<Rightarrow> CNull"
  have "isInputCell ?c"
    using vs by (cases "map_of vs n") (force simp: isInputCell_def list_all_iff dest: map_of_SomeD)+
  then obtain v where "toDbValue ?c = Inr v" by (cases ?c) (auto simp: isInputCell_def)
  then show ?thesis by (simp add: key_value_def add_cell_def run_simps) (intro ok_intros)
qed



end
