(* ===== verification/Joins.thy ===== *)
theory Joins
  imports Tables "HOL-Library.While_Combinator"
begin

text \<open>
  The joins of the query builder (\<open>packages/adapter/src/sql/join-plan.ts\<close>) and the statement it writes
  (\<open>BaseAdapter.buildQuery\<close> of \<open>base.ts\<close>, with the request of \<open>packages/shared/src/schemas/query-builder.ts\<close>).
\<close>

record ColumnRef =
  cr_table :: string
  cr_column :: string

datatype JoinKind = InnerJoin | LeftJoin | RightJoin

record QueryBuilderJoin =
  qj_table :: string
  qj_kind :: JoinKind
  qj_on :: "(ColumnRef \<times> ColumnRef) list"

record QueryJoinStep =
  qs_table :: string
  qs_kind :: JoinKind
  qs_on :: "(ColumnRef \<times> ColumnRef) list"
  qs_key :: "(string \<times> string) option"

text \<open>A foreign key between two tables of the namespace.\<close>

record Link =
  lk_from :: string
  lk_to :: string
  lk_fk :: ForeignKeyDef

type_synonym Schemas = "string \<Rightarrow> TableSchema option"

definition home :: "Dialect \<Rightarrow> Namespace \<Rightarrow> Namespace \<Rightarrow> bool" where
  "home d ns other \<longleftrightarrow> ns_database other = ns_database ns
     \<and> (d = Mysql \<or> (case ns_schema other of Some s \<Rightarrow> s | None \<Rightarrow> ''public'')
         = (case ns_schema ns of Some s \<Rightarrow> s | None \<Rightarrow> ''public''))"

definition links_of :: "Dialect \<Rightarrow> Namespace \<Rightarrow> string list \<Rightarrow> Schemas \<Rightarrow> Link list" where
  "links_of d ns tables schemas = concat (map (\<lambda>from.
     map (\<lambda>fk. \<lparr>lk_from = from, lk_to = fkd_refTable fk, lk_fk = fk\<rparr>)
       (filter (\<lambda>fk. home d ns (fkd_refNamespace fk) \<and> fkd_refTable fk \<noteq> from)
         (case schemas from of Some schema \<Rightarrow> tb_foreignKeys schema | None \<Rightarrow> []))) tables)"

definition has_column :: "Schemas \<Rightarrow> ColumnRef \<Rightarrow> bool" where
  "has_column schemas r \<longleftrightarrow> (case schemas (cr_table r) of
     Some schema \<Rightarrow> cr_column r \<in> co_name ` set (tb_columns schema) | None \<Rightarrow> False)"

text \<open>The tables joined so far and the steps that joined them.\<close>

type_synonym Joined = "string list \<times> QueryJoinStep list"

definition check_pair :: "Schemas \<Rightarrow> string \<Rightarrow> string list \<Rightarrow> ColumnRef \<times> ColumnRef \<Rightarrow> (AdapterError, unit) result" where
  "check_pair schemas table joined p =
    (if \<not> has_column schemas (fst p) \<or> \<not> has_column schemas (snd p)
     then Inl (AdapterError NOT_FOUND (''Unknown column in the join of '' @ table))
     else let other = (if cr_table (fst p) = table then cr_table (snd p) else cr_table (fst p)) in
       if \<not> (cr_table (fst p) = table \<or> cr_table (snd p) = table) \<or> \<not> (other \<in> set joined \<or> other = table)
       then Inl (AdapterError VALIDATION (''The join of '' @ table @ '' must use '' @ table @ '' and a table joined before it''))
       else Inr ())"

fun explicit_joins :: "Schemas \<Rightarrow> QueryBuilderJoin list \<Rightarrow> string list \<Rightarrow> Joined \<Rightarrow> (AdapterError, Joined) result" where
  "explicit_joins schemas explicit [] st = Inr st"
| "explicit_joins schemas explicit (table # tables) (joined, out) =
     (case List.find (\<lambda>x. qj_table x = table) explicit of
        None \<Rightarrow> explicit_joins schemas explicit tables (joined, out)
      | Some j \<Rightarrow> rbind (rmap (check_pair schemas table joined) (qj_on j)) (\<lambda>_.
          explicit_joins schemas explicit tables (joined @ [table],
            out @ [\<lparr>qs_table = table, qs_kind = qj_kind j, qs_on = qj_on j, qs_key = None\<rparr>])))"

definition find_link :: "Link list \<Rightarrow> string list \<Rightarrow> string \<Rightarrow> Link option" where
  "find_link links joined table =
    List.find (\<lambda>l. (lk_from l = table \<and> lk_to l \<in> set joined) \<or> (lk_to l = table \<and> lk_from l \<in> set joined)) links"

definition key_step :: "string \<Rightarrow> Link \<Rightarrow> QueryJoinStep" where
  "key_step table l = \<lparr>qs_table = table, qs_kind = LeftJoin,
     qs_on = map (\<lambda>i. (\<lparr>cr_table = lk_to l,
          cr_column = (if i < length (fkd_refColumns (lk_fk l)) then fkd_refColumns (lk_fk l) ! i else [])\<rparr>,
        \<lparr>cr_table = lk_from l, cr_column = fkd_columns (lk_fk l) ! i\<rparr>)) [0..<length (fkd_columns (lk_fk l))],
     qs_key = Some (lk_from l, fkd_name (lk_fk l))\<rparr>"

text \<open>One table of a pass, one pass over the tables, and passes until one makes no progress.\<close>

fun join_table :: "Link list \<Rightarrow> string \<Rightarrow> Joined \<times> bool \<Rightarrow> Joined \<times> bool" where
  "join_table links table ((joined, out), progress) =
     (if table \<in> set joined then ((joined, out), progress)
      else case find_link links joined table of
        None \<Rightarrow> ((joined, out), progress)
      | Some l \<Rightarrow> ((joined @ [table], out @ [key_step table l]), True))"

definition join_pass :: "string list \<Rightarrow> Link list \<Rightarrow> Joined \<times> bool \<Rightarrow> Joined \<times> bool" where
  "join_pass tables links st = fold (join_table links) tables (fst st, False)"

definition join_loop :: "string list \<Rightarrow> Link list \<Rightarrow> Joined \<Rightarrow> (Joined \<times> bool) option" where
  "join_loop tables links st = while_option snd (join_pass tables links) (st, True)"

definition joinSteps ::
  "Dialect \<Rightarrow> Namespace \<Rightarrow> string list \<Rightarrow> Schemas \<Rightarrow> QueryBuilderJoin list
    \<Rightarrow> (AdapterError, QueryJoinStep list) result option" where
  "joinSteps d ns tables schemas explicit =
    (case explicit_joins schemas explicit (tl tables) (take 1 tables, []) of
       Inl e \<Rightarrow> Some (Inl e)
     | Inr st \<Rightarrow> (case join_loop tables (links_of d ns tables schemas) st of
         None \<Rightarrow> None
       | Some ((joined, out), _) \<Rightarrow>
           let unreached = filter (\<lambda>t. t \<notin> set joined) tables in
           if unreached \<noteq> [] then Some (Inl (AdapterError VALIDATION
             (''No foreign key connects '' @ join '', '' unreached @ '' to '' @ (case tables of t # _ \<Rightarrow> t | [] \<Rightarrow> ''undefined''))))
           else Some (Inr out)))"

definition kind_word :: "JoinKind \<Rightarrow> string" where
  "kind_word k = (case k of InnerJoin \<Rightarrow> ''INNER'' | LeftJoin \<Rightarrow> ''LEFT'' | RightJoin \<Rightarrow> ''RIGHT'')"

definition column_sql :: "Dialect \<Rightarrow> ColumnRef \<Rightarrow> (AdapterError, string) result" where
  "column_sql d r = rbind (quoteIdent d (cr_table r)) (\<lambda>t. rbind (quoteIdent d (cr_column r)) (\<lambda>c. Inr (t @ ''.'' @ c)))"

definition joinSql :: "Dialect \<Rightarrow> Namespace \<Rightarrow> QueryJoinStep list \<Rightarrow> (AdapterError, string list) result" where
  "joinSql d ns steps = rmap (\<lambda>step.
     rbind (rmap (\<lambda>p. rbind (column_sql d (fst p)) (\<lambda>a. rbind (column_sql d (snd p)) (\<lambda>b. Inr (a @ '' = '' @ b)))) (qs_on step)) (\<lambda>on.
     rbind (quoteTable d ns (qs_table step)) (\<lambda>t.
       Inr (kind_word (qs_kind step) @ '' JOIN '' @ t @ '' ON '' @ join '' AND '' on)))) steps"

subsection \<open>The loop ends\<close>

text \<open>The tables still to join.\<close>

definition to_join :: "string list \<Rightarrow> Joined \<Rightarrow> nat" where
  "to_join tables st = card (set tables - set (fst st))"

lemma join_table_joined:
  "set (fst (fst st)) \<subseteq> set (fst (fst (join_table links t st)))"
proof -
  obtain joined out b where "st = ((joined, out), b)" by (metis surj_pair)
  then show ?thesis by (auto split: option.split)
qed

lemma fold_joined: "set (fst (fst st)) \<subseteq> set (fst (fst (fold (join_table links) ts st)))"
proof (induction ts arbitrary: st)
  case (Cons t ts)
  from subset_trans [OF join_table_joined Cons.IH] show ?case by simp
qed simp

text \<open>A pass either joins a table, or joins none because none has a link to a joined one.\<close>

lemma pass_progress:
  "fold (join_table links) ts (st, b) = (st', True) \<Longrightarrow> \<not> b \<Longrightarrow> \<exists>t \<in> set ts. t \<notin> set (fst st) \<and> t \<in> set (fst st')"
proof (induction ts arbitrary: st b)
  case (Cons t ts)
  obtain joined out where st: "st = (joined, out)" by (cases st)
  show ?case
  proof (cases "t \<notin> set joined \<and> (\<exists>l. find_link links joined t = Some l)")
    case True
    then obtain l where l: "t \<notin> set joined" "find_link links joined t = Some l" by blast
    with Cons.prems st have "fold (join_table links) ts ((joined @ [t], out @ [key_step t l]), True) = (st', True)" by simp
    with fold_joined [of "((joined @ [t], out @ [key_step t l]), True)" links ts] have "t \<in> set (fst st')" by auto
    with l st show ?thesis by auto
  next
    case False
    then have "join_table links t (st, b) = (st, b)" using st by (auto split: option.split)
    then have "fold (join_table links) ts (st, b) = (st', True)" using Cons.prems by simp
    from Cons.IH [OF this Cons.prems(2)] show ?thesis by auto
  qed
qed simp

lemma pass_still:
  "fold (join_table links) ts (st, b) = (st', False) \<Longrightarrow>
     st' = st \<and> list_all (\<lambda>t. t \<in> set (fst st) \<or> find_link links (fst st) t = None) ts"
proof (induction ts arbitrary: st b)
  case (Cons t ts)
  obtain joined out where st: "st = (joined, out)" by (cases st)
  have stays: "snd (fold (join_table links) us (s, True))" for us s
  proof (induction us arbitrary: s)
    case (Cons u us)
    obtain j o' where "s = (j, o')" by (cases s)
    then show ?case using Cons.IH by (auto split: option.split)
  qed simp
  show ?case
  proof (cases "t \<in> set joined \<or> find_link links joined t = None")
    case True
    then have "join_table links t (st, b) = (st, b)" using st by (auto split: option.split)
    then have "fold (join_table links) ts (st, b) = (st', False)" using Cons.prems by simp
    from Cons.IH [OF this] True st show ?thesis by auto
  next
    case False
    then obtain l where "t \<notin> set joined" "find_link links joined t = Some l" by auto
    with Cons.prems st have "fold (join_table links) ts ((joined @ [t], out @ [key_step t l]), True) = (st', False)" by simp
    with stays show ?thesis by (metis snd_conv)
  qed
qed simp

lemma join_loop_total: "\<exists>st'. join_loop tables links st = Some st'"
    unfolding join_loop_def
  proof (rule measure_while_option_Some [where P = "\<lambda>_. True"
        and f = "\<lambda>s. 2 * to_join tables (fst s) + (if snd s then 1 else 0)"])
    fix s :: "Joined \<times> bool"
    assume "snd s"
    obtain s' b where p: "fold (join_table links) tables (fst s, False) = (s', b)" by fastforce
    have sub: "set (fst (fst s)) \<subseteq> set (fst s')" using fold_joined [of "(fst s, False)" links tables] p by simp
    have "2 * to_join tables s' + (if b then 1 else 0) < 2 * to_join tables (fst s) + 1"
    proof (cases b)
      case True
      with p have "fold (join_table links) tables (fst s, False) = (s', True)" by simp
      from pass_progress [OF this] obtain t where "t \<in> set tables" "t \<notin> set (fst (fst s))" "t \<in> set (fst s')" by blast
      then have "set tables - set (fst s') \<subset> set tables - set (fst (fst s))" using sub by auto
      then have "to_join tables s' < to_join tables (fst s)" unfolding to_join_def by (rule psubset_card_mono [rotated]) simp
      with True show ?thesis by simp
    next
      case False
      with p have "fold (join_table links) tables (fst s, False) = (s', False)" by simp
      from pass_still [OF this] False show ?thesis by simp
    qed
    with \<open>snd s\<close> p show "True \<and> 2 * to_join tables (fst (join_pass tables links s)) + (if snd (join_pass tables links s) then 1 else 0)
        < 2 * to_join tables (fst s) + (if snd s then 1 else 0)"
      by (simp add: join_pass_def)
  qed simp

text \<open>
  C23: planning the joins always comes to an answer: every pass that does not end the loop has joined a table more.
\<close>

theorem joinSteps_ends: "\<exists>r. joinSteps d ns tables schemas explicit = Some r"
  using join_loop_total unfolding joinSteps_def
  by (auto split: sum.split option.split simp: Let_def) (metis option.distinct(1))

subsection \<open>What a plan is\<close>

text \<open>
  A step joins a new table, on pairs of columns of that table and of tables joined before it; one along a foreign key
  always reaches a table joined before.
\<close>

definition uses :: "string list \<Rightarrow> QueryJoinStep \<Rightarrow> bool" where
  "uses joined s \<longleftrightarrow> list_all (\<lambda>p. (cr_table (fst p) = qs_table s \<or> cr_table (snd p) = qs_table s)
       \<and> {cr_table (fst p), cr_table (snd p)} \<subseteq> insert (qs_table s) (set joined)
       \<and> (qs_key s \<noteq> None \<longrightarrow> \<not> {cr_table (fst p), cr_table (snd p)} \<subseteq> {qs_table s})) (qs_on s)"

fun planned :: "string list \<Rightarrow> QueryJoinStep list \<Rightarrow> bool" where
  "planned joined [] = True"
| "planned joined (s # ss) = (qs_table s \<notin> set joined \<and> uses joined s \<and> planned (joined @ [qs_table s]) ss)"

lemma planned_snoc:
  "planned joined (ss @ [s]) \<longleftrightarrow> planned joined ss \<and> qs_table s \<notin> set (joined @ map qs_table ss)
     \<and> uses (joined @ map qs_table ss) s"
  by (induction ss arbitrary: joined) auto

definition join_inv :: "string list \<Rightarrow> Joined \<Rightarrow> bool" where
  "join_inv tables st \<longleftrightarrow> fst st = take 1 tables @ map qs_table (snd st) \<and> planned (take 1 tables) (snd st)
     \<and> set (fst st) \<subseteq> set tables"

lemma join_inv_add:
  "join_inv tables (joined, out) \<Longrightarrow> qs_table s \<in> set tables \<Longrightarrow> qs_table s \<notin> set joined \<Longrightarrow> uses joined s
    \<Longrightarrow> join_inv tables (joined @ [qs_table s], out @ [s])"
  by (auto simp: join_inv_def planned_snoc)

lemma find_link_Some:
  assumes "find_link links joined t = Some l"
  shows "l \<in> set links \<and> ((lk_from l = t \<and> lk_to l \<in> set joined) \<or> (lk_to l = t \<and> lk_from l \<in> set joined))"
proof -
  from assms obtain i where "i < length links" "links ! i = l"
    "(lk_from l = t \<and> lk_to l \<in> set joined) \<or> (lk_to l = t \<and> lk_from l \<in> set joined)"
    unfolding find_link_def find_Some_iff by blast
  then show ?thesis by auto
qed

lemma key_step_uses: "find_link links joined t = Some l \<Longrightarrow> t \<notin> set joined \<Longrightarrow> uses joined (key_step t l)"
  using find_link_Some [of links joined t l] by (auto simp: uses_def key_step_def list_all_iff)

lemma join_table_inv:
  assumes "t \<in> set tables" and "join_inv tables (fst st)"
  shows "join_inv tables (fst (join_table links t st))"
proof -
  obtain joined out b where st: "st = ((joined, out), b)" by (metis surj_pair)
  have "join_inv tables (joined @ [t], out @ [key_step t l])"
    if "t \<notin> set joined" "find_link links joined t = Some l" for l
    using join_inv_add [of tables joined out "key_step t l"] assms that key_step_uses [OF that(2,1)] st
    by (simp add: key_step_def)
  with assms(2) st show ?thesis by (auto split: option.split)
qed

lemma pass_inv: "join_inv tables (fst st) \<Longrightarrow> join_inv tables (fst (join_pass tables links st))"
proof -
  have "set ts \<subseteq> set tables \<Longrightarrow> join_inv tables (fst st) \<Longrightarrow> join_inv tables (fst (fold (join_table links) ts st))" for ts st
  proof (induction ts arbitrary: st)
    case (Cons t ts)
    then have "join_inv tables (fst (join_table links t st))" by (intro join_table_inv) simp_all
    with Cons show ?case by simp
  qed simp
  then show "join_inv tables (fst st) \<Longrightarrow> join_inv tables (fst (join_pass tables links st))" by (simp add: join_pass_def)
qed

lemma rmap_all: "rmap f xs = Inr ys \<Longrightarrow> x \<in> set xs \<Longrightarrow> \<exists>y. f x = Inr y"
  by (induction xs arbitrary: ys) (auto simp: rbind_eq_Inr)

lemma explicit_inv:
  assumes "explicit_joins schemas explicit ts (joined, out) = Inr st"
    and "join_inv tables (joined, out)" and "set ts \<subseteq> set tables" and "distinct ts" and "set ts \<inter> set joined = {}"
  shows "join_inv tables st"
  using assms
proof (induction ts arbitrary: joined out)
  case (Cons t ts)
  show ?case
  proof (cases "List.find (\<lambda>x. qj_table x = t) explicit")
    case None
    with Cons show ?thesis by auto
  next
    case (Some j)
    let ?s = "\<lparr>qs_table = t, qs_kind = qj_kind j, qs_on = qj_on j, qs_key = None\<rparr>"
    from Cons.prems(1) Some obtain us where us: "rmap (check_pair schemas t joined) (qj_on j) = Inr us"
      and rest: "explicit_joins schemas explicit ts (joined @ [t], out @ [?s]) = Inr st"
      by (auto simp: rbind_eq_Inr)
    have pair: "(cr_table (fst p) = t \<or> cr_table (snd p) = t) \<and> {cr_table (fst p), cr_table (snd p)} \<subseteq> insert t (set joined)"
      if "check_pair schemas t joined p = Inr u" for p u
      using that by (auto simp: check_pair_def Let_def split: if_splits)
    have "uses joined ?s"
      unfolding uses_def list_all_iff
    proof
      fix p assume "p \<in> set (qs_on ?s)"
      then have "p \<in> set (qj_on j)" by simp
      then obtain u where "check_pair schemas t joined p = Inr u" using us rmap_all by metis
      from pair [OF this] show "(cr_table (fst p) = qs_table ?s \<or> cr_table (snd p) = qs_table ?s)
       \<and> {cr_table (fst p), cr_table (snd p)} \<subseteq> insert (qs_table ?s) (set joined)
       \<and> (qs_key ?s \<noteq> None \<longrightarrow> \<not> {cr_table (fst p), cr_table (snd p)} \<subseteq> {qs_table ?s})" by simp
    qed
    then have "join_inv tables (joined @ [t], out @ [?s])"
      using join_inv_add [of tables joined out ?s] Cons.prems by auto
    from Cons.IH [OF rest this] Cons.prems show ?thesis by auto
  qed
qed simp

lemma loop_inv:
  assumes "join_loop tables links st = Some (st', b)" and "P st" and "\<And>s. P (fst s) \<Longrightarrow> P (fst (join_pass tables links s))"
  shows "P st' \<and> list_all (\<lambda>t. t \<in> set (fst st') \<or> find_link links (fst st') t = None) tables"
proof -
  let ?P = "\<lambda>s :: Joined \<times> bool. P (fst s)
    \<and> (\<not> snd s \<longrightarrow> list_all (\<lambda>t. t \<in> set (fst (fst s)) \<or> find_link links (fst (fst s)) t = None) tables)"
  have "?P (st', b)"
  proof (rule while_option_rule [OF _ assms(1) [unfolded join_loop_def]])
    fix s :: "Joined \<times> bool"
    assume p: "?P s" "snd s"
    obtain s' c where f: "fold (join_table links) tables (fst s, False) = (s', c)" by fastforce
    have "\<not> c \<longrightarrow> list_all (\<lambda>t. t \<in> set (fst s') \<or> find_link links (fst s') t = None) tables"
      using pass_still [of links tables "fst s" False s'] f by auto
    with assms(3) [of s] p f show "?P (join_pass tables links s)" by (simp add: join_pass_def)
  qed (simp add: assms(2))
  moreover have "\<not> b" using while_option_stop [OF assms(1) [unfolded join_loop_def]] by simp
  ultimately show ?thesis by simp
qed


text \<open>Two tables of the query with a foreign key from one to the other.\<close>

definition linked :: "Dialect \<Rightarrow> Namespace \<Rightarrow> string list \<Rightarrow> Schemas \<Rightarrow> (string \<times> string) set" where
  "linked d ns tables schemas = {(a, b). a \<in> set tables \<and> b \<in> set tables
     \<and> (\<exists>l. l \<in> set (links_of d ns tables schemas) \<and> {lk_from l, lk_to l} = {a, b})}"

lemma explicit_none: "explicit_joins schemas [] ts st = Inr st"
proof (induction ts arbitrary: st)
  case (Cons t ts)
  then show ?case by (cases st) simp
qed simp

lemma linked_link:
  assumes "find_link (links_of d ns tables schemas) joined t = Some l" and "t \<in> set tables" and "set joined \<subseteq> set tables"
  shows "\<exists>u. u \<in> set joined \<and> (u, t) \<in> linked d ns tables schemas"
  using find_link_Some [OF assms(1)] assms(2,3) unfolding linked_def by blast

lemma reached_inv:
  assumes "set (fst (fst st)) \<subseteq> R" and "join_inv tables (fst st)" and "set ts \<subseteq> set tables"
    and closed: "\<And>a b. a \<in> R \<Longrightarrow> (a, b) \<in> linked d ns tables schemas \<Longrightarrow> b \<in> R"
  shows "set (fst (fst (fold (join_table (links_of d ns tables schemas)) ts st))) \<subseteq> R"
  using assms(1-3)
proof (induction ts arbitrary: st)
  case (Cons t ts)
  obtain joined out b where st: "st = ((joined, out), b)" by (metis surj_pair)
  have "set (fst (fst (join_table (links_of d ns tables schemas) t st))) \<subseteq> R"
  proof (cases "t \<notin> set joined \<and> (\<exists>l. find_link (links_of d ns tables schemas) joined t = Some l)")
    case True
    then obtain l where l: "t \<notin> set joined" "find_link (links_of d ns tables schemas) joined t = Some l" by blast
    have "t \<in> set tables" using Cons.prems by simp
    moreover have "set joined \<subseteq> set tables" using Cons.prems(2) unfolding st join_inv_def fst_conv by blast
    ultimately have "t \<in> set tables" "set joined \<subseteq> set tables" .
    from linked_link [OF l(2) this] obtain u where "u \<in> set joined" "(u, t) \<in> linked d ns tables schemas" by blast
    with Cons.prems st closed have "t \<in> R" by auto
    with l st Cons.prems show ?thesis by simp
  next
    case False
    with st Cons.prems show ?thesis by (auto split: option.split)
  qed
  moreover have "join_inv tables (fst (join_table (links_of d ns tables schemas) t st))"
    using Cons.prems by (intro join_table_inv) simp_all
  ultimately show ?case using Cons.IH Cons.prems(3) by simp
qed simp

text \<open>
  C21: without joins spelled out, a plan is found exactly when foreign keys between the tables of the query connect every
  one of them to the first, in either direction and through one another.
\<close>

theorem joinSteps_connects:
  "(\<exists>steps. joinSteps d ns (first # rest) schemas [] = Some (Inr steps))
    \<longleftrightarrow> set (first # rest) \<subseteq> (linked d ns (first # rest) schemas)\<^sup>* `` {first}"
proof -
  let ?tables = "first # rest" and ?links = "links_of d ns (first # rest) schemas"
  let ?R = "(linked d ns ?tables schemas)\<^sup>* `` {first}"
  obtain joined out b where l: "join_loop ?tables ?links ([first], []) = Some ((joined, out), b)"
    using join_loop_total [of ?tables ?links "([first], [])"] by (metis surj_pair)
  have inv: "(join_inv ?tables (joined, out) \<and> set joined \<subseteq> ?R) \<and> list_all (\<lambda>t. t \<in> set joined \<or> find_link ?links joined t = None) ?tables"
  proof -
    let ?P = "\<lambda>st :: Joined. join_inv ?tables st \<and> set (fst st) \<subseteq> ?R"
    have "?P ([first], [])" by (simp add: join_inv_def)
    moreover have "?P (fst (join_pass ?tables ?links s))" if "?P (fst s)" for s
    proof
      show "join_inv ?tables (fst (join_pass ?tables ?links s))" using that pass_inv by blast
      have step: "\<And>a b. a \<in> ?R \<Longrightarrow> (a, b) \<in> linked d ns ?tables schemas \<Longrightarrow> b \<in> ?R"
        by (blast intro: rtrancl_into_rtrancl)
      have "set (fst (fst (fold (join_table ?links) ?tables (fst s, False)))) \<subseteq> ?R"
        by (rule reached_inv [OF _ _ subset_refl step]) (use that in simp_all)
      then show "set (fst (fst (join_pass ?tables ?links s))) \<subseteq> ?R" by (simp only: join_pass_def)
    qed
    ultimately show ?thesis using loop_inv [OF l, of ?P] by simp
  qed
  have closed: "?R \<subseteq> set joined"
  proof
    fix t assume "t \<in> ?R"
    then have "(first, t) \<in> (linked d ns ?tables schemas)\<^sup>*" by simp
    then show "t \<in> set joined"
    proof (induction rule: rtrancl_induct)
      case base
      from inv show ?case by (auto simp: join_inv_def)
    next
      case (step u v)
      then have v: "v \<in> set ?tables" by (auto simp: linked_def)
      show ?case
      proof (rule ccontr)
        assume "v \<notin> set joined"
        with inv v have none: "find_link ?links joined v = None" by (auto simp: list_all_iff)
        from step(2) obtain k where "k \<in> set ?links" "{lk_from k, lk_to k} = {u, v}" unfolding linked_def by blast
        with step(3) none show False
          unfolding find_link_def find_None_iff by (auto simp: doubleton_eq_iff)
      qed
    qed
  qed
  have "(\<exists>steps. joinSteps d ns ?tables schemas [] = Some (Inr steps)) \<longleftrightarrow> filter (\<lambda>t. t \<notin> set joined) ?tables = []"
    using l by (simp add: joinSteps_def explicit_none Let_def)
  also have "\<dots> \<longleftrightarrow> set ?tables \<subseteq> set joined" by (auto simp: filter_empty_conv)
  also have "\<dots> \<longleftrightarrow> set ?tables \<subseteq> ?R" using inv closed by blast
  finally show ?thesis .
qed

subsection \<open>Two tables\<close>

text \<open>A table of two columns and the given foreign keys, for the examples.\<close>

definition two_columns :: "string \<Rightarrow> ForeignKeyDef list \<Rightarrow> TableSchema" where
  "two_columns name fks =
    (let c = \<lambda>n. \<lparr>co_name = n, co_dataType = ''int'', co_nullable = False, co_default = None,
        co_defaultIsExpression = False, co_extra = [], co_comment = None, co_collation = None, co_check = None,
        co_generated = None\<rparr>
     in \<lparr>tb_name = name, tb_kind = KTable, tb_comment = None, tb_engine = None, tb_rowEstimate = None,
        tb_partitioned = False, tb_hasChildren = False, tb_inherits = [], tb_collation = None, tb_autoIncrement = None,
        tb_columns = [c ''id'', c ''ref''], tb_primaryKey = [''id''], tb_indexes = [], tb_unusableIndexes = None,
        tb_foreignKeys = fks, tb_referencedBy = []\<rparr>)"

definition example_ns :: Namespace where
  "example_ns = \<lparr>ns_database = ''d'', ns_schema = None\<rparr>"

definition ref_to :: "string \<Rightarrow> ForeignKeyDef" where
  "ref_to t = \<lparr>fkd_name = ''fk'', fkd_columns = [''ref''], fkd_refNamespace = example_ns, fkd_refTable = t,
     fkd_refColumns = [''id''], fkd_onUpdate = None, fkd_onDelete = None\<rparr>"

lemmas join_unfolds = joinSteps_def join_loop_def join_pass_def links_of_def home_def find_link_def
  example_ns_def ref_to_def two_columns_def


text \<open>
  A join spelled out may name only the joined table on both sides of every pair: it then depends on no table before it,
  and the statement is a product of the two.
\<close>

lemma self_pair_accepted:
  "let schemas = [''a'' \<mapsto> two_columns ''a'' [], ''b'' \<mapsto> two_columns ''b'' []];
       pair = (\<lparr>cr_table = ''b'', cr_column = ''id''\<rparr>, \<lparr>cr_table = ''b'', cr_column = ''ref''\<rparr>)
   in joinSteps Mysql example_ns [''a'', ''b''] schemas
        [\<lparr>qj_table = ''b'', qj_kind = InnerJoin, qj_on = [pair]\<rparr>]
      = Some (Inr [\<lparr>qs_table = ''b'', qs_kind = InnerJoin, qs_on = [pair], qs_key = None\<rparr>])"
  by (simp add: join_unfolds while_option_unfold check_pair_def has_column_def)

end
