(* ===== verification/Adapter_Conn.thy ===== *)
theory Adapter_Conn
  imports Tables
begin

text \<open>
  Connections and transactions of \<open>BaseAdapter\<close> (\<open>packages/adapter/src/base.ts\<close>: \<open>borrow\<close>, \<open>forgetSessionState\<close>,
  \<open>withConn\<close>, \<open>withTransaction\<close>) over what a driver provides (\<open>packages/adapter/src/driver.ts\<close>).

  The driver and the server behind it are a parameter: a record of functions on a state \<open>'db\<close> nobody here looks into.
  The world adds the adapter's own state, the statement timeout it last applied to each connection, and a log of what
  it asked of the driver, which no operation reads.  A driver error is the \<open>AdapterError\<close> it becomes, its message
  standing for \<open>detail ?? message\<close>.
\<close>

record ColumnMeta =
  cm_name :: string
  cm_dataType :: string

record RawResult =
  rr_columns :: "ColumnMeta list"
  rr_rows :: "Cell list list"
  rr_affectedRows :: int
  rr_hasRows :: bool
  rr_notices :: "string list"

text \<open>A query answers with one result or, for several statements, a list of them.\<close>

datatype QueryResponse = One RawResult | Several "RawResult list"

definition no_result :: RawResult where
  "no_result = \<lparr>rr_columns = [], rr_rows = [], rr_affectedRows = 0, rr_hasRows = False, rr_notices = []\<rparr>"

fun firstResult :: "QueryResponse \<Rightarrow> RawResult" where
  "firstResult (One r) = r"
| "firstResult (Several []) = no_result"
| "firstResult (Several (r # rs)) = r"

record ProfileStage =
  pr_state :: string
  pr_seconds :: string

record 'db Server =
  sv_acquire :: "Namespace \<Rightarrow> ('db, nat) run"
  sv_setTimeout :: "nat \<Rightarrow> nat \<Rightarrow> ('db, unit) run"
  sv_query :: "nat \<Rightarrow> string \<Rightarrow> DbValue list \<Rightarrow> ('db, QueryResponse) run"
  sv_release :: "nat \<Rightarrow> 'db \<Rightarrow> 'db"
  sv_forget :: "nat \<Rightarrow> 'db \<Rightarrow> 'db"
  sv_startProfiling :: "nat \<Rightarrow> ('db, bool) run"
  sv_readProfile :: "nat \<Rightarrow> ('db, ProfileStage list option) run"
  sv_describe :: "Namespace \<Rightarrow> string \<Rightarrow> ('db, TableSchema) run"
  sv_toAdapterError :: "string \<Rightarrow> AdapterError"

datatype ConnEvent =
  Took nat
| TimeoutSet nat nat
| Sent nat string "DbValue list" "int option"
| Gave nat

record 'db World =
  wo_db :: 'db
  wo_applied :: "nat \<Rightarrow> nat option"
  wo_log :: "ConnEvent list"

definition on_db :: "('db, 'a) run \<Rightarrow> ('db World, 'a) run" where
  "on_db m w = (case m (wo_db w) of (r, db) \<Rightarrow> (r, w\<lparr>wo_db := db\<rparr>))"

definition log_event :: "ConnEvent \<Rightarrow> ('db World, unit) run" where
  "log_event e w = (Inr (), w\<lparr>wo_log := wo_log w @ [e]\<rparr>)"

definition set_applied :: "nat \<Rightarrow> nat option \<Rightarrow> ('db World, unit) run" where
  "set_applied c ms w = (Inr (), w\<lparr>wo_applied := (wo_applied w)(c := ms)\<rparr>)"

definition acquire :: "'db Server \<Rightarrow> Namespace \<Rightarrow> ('db World, nat) run" where
  "acquire sv ns = bind (on_db (sv_acquire sv ns)) (\<lambda>c. bind (log_event (Took c)) (\<lambda>_. ret c))"

definition setStatementTimeout :: "'db Server \<Rightarrow> nat \<Rightarrow> nat \<Rightarrow> ('db World, unit) run" where
  "setStatementTimeout sv c ms = bind (log_event (TimeoutSet c ms)) (\<lambda>_. on_db (sv_setTimeout sv c ms))"

definition release :: "'db Server \<Rightarrow> nat \<Rightarrow> ('db World, unit) run" where
  "release sv c w = (Inr (), w\<lparr>wo_db := sv_release sv c (wo_db w), wo_log := wo_log w @ [Gave c]\<rparr>)"

text \<open>\<open>firstResult(await conn.query(sql, params))\<close>.\<close>

definition conn_query :: "'db Server \<Rightarrow> nat \<Rightarrow> string \<Rightarrow> DbValue list \<Rightarrow> ('db World, RawResult) run" where
  "conn_query sv c sql ps w = (case sv_query sv c sql ps (wo_db w) of
     (Inl e, db) \<Rightarrow> (Inl e, w\<lparr>wo_db := db, wo_log := wo_log w @ [Sent c sql ps None]\<rparr>)
   | (Inr q, db) \<Rightarrow> (Inr (firstResult q),
       w\<lparr>wo_db := db, wo_log := wo_log w @ [Sent c sql ps (Some (rr_affectedRows (firstResult q)))]\<rparr>))"

definition describeTable :: "'db Server \<Rightarrow> Namespace \<Rightarrow> string \<Rightarrow> ('db World, TableSchema) run" where
  "describeTable sv ns table = on_db (sv_describe sv ns table)"

definition DEFAULT_TIMEOUT_MS :: nat where "DEFAULT_TIMEOUT_MS = 30000"

definition borrow :: "'db Server \<Rightarrow> Namespace \<Rightarrow> nat \<Rightarrow> ('db World, nat) run" where
  "borrow sv ns ms = bind (acquire sv ns) (\<lambda>c w.
     if wo_applied w c \<noteq> Some ms then
       catch (bind (setStatementTimeout sv c ms) (\<lambda>_. bind (set_applied c (Some ms)) (\<lambda>_. ret c)))
         (\<lambda>e. bind (set_applied c None) (\<lambda>_. bind (release sv c) (\<lambda>_. raise e))) w
     else ret c w)"

definition forgetSessionState :: "'db Server \<Rightarrow> nat \<Rightarrow> ('db World, unit) run" where
  "forgetSessionState sv c w =
    (Inr (), w\<lparr>wo_applied := (wo_applied w)(c := None), wo_db := sv_forget sv c (wo_db w)\<rparr>)"

definition withConn :: "'db Server \<Rightarrow> Namespace \<Rightarrow> (nat \<Rightarrow> ('db World, 'a) run) \<Rightarrow> nat \<Rightarrow> ('db World, 'a) run" where
  "withConn sv ns fn ms = bind (borrow sv ns ms) (\<lambda>c. finally_do (fn c) (release sv c))"

definition withTransaction :: "'db Server \<Rightarrow> Namespace \<Rightarrow> (nat \<Rightarrow> ('db World, 'a) run) \<Rightarrow> ('db World, 'a) run" where
  "withTransaction sv ns fn = withConn sv ns (\<lambda>c.
     bind (conn_query sv c ''BEGIN'' []) (\<lambda>_.
       catch (bind (fn c) (\<lambda>result. bind (conn_query sv c ''COMMIT'' []) (\<lambda>_. ret result)))
         (\<lambda>err. bind (catch (conn_query sv c ''ROLLBACK'' []) (\<lambda>_. ret no_result)) (\<lambda>_. raise err)))) DEFAULT_TIMEOUT_MS"

subsection \<open>What the log says\<close>

text \<open>A run that only sends statements on a connection, in this order, with these answers.\<close>

definition sends :: "nat \<Rightarrow> ('db World, 'a) run \<Rightarrow> ((Thrown, 'a) result \<Rightarrow> (string \<times> DbValue list \<times> int option) list \<Rightarrow> bool) \<Rightarrow> bool" where
  "sends c m Q \<longleftrightarrow> (\<forall>w r w'. m w = (r, w') \<longrightarrow>
     (\<exists>es. wo_log w' = wo_log w @ map (\<lambda>(s, p, n). Sent c s p n) es \<and> Q r es \<and> wo_applied w' = wo_applied w))"

lemma sendsI:
  assumes "\<And>w r w'. m w = (r, w') \<Longrightarrow>
    \<exists>es. wo_log w' = wo_log w @ map (\<lambda>(s, p, n). Sent c s p n) es \<and> Q r es \<and> wo_applied w' = wo_applied w"
  shows "sends c m Q"
  using assms unfolding sends_def by blast

lemma sends_weaken: "sends c m Q \<Longrightarrow> (\<And>r es. Q r es \<Longrightarrow> Q' r es) \<Longrightarrow> sends c m Q'"
  unfolding sends_def by blast

lemma sends_ret: "Q (Inr x) [] \<Longrightarrow> sends c (ret x) Q"
  by (rule sendsI) (auto simp: ret_def intro!: exI [of _ "[]"])

lemma sends_raise: "Q (Inl e) [] \<Longrightarrow> sends c (raise e) Q"
  by (rule sendsI) (auto simp: raise_def intro!: exI [of _ "[]"])

lemma sends_query:
  assumes "\<And>e. Q (Inl e) [(sql, ps, None)]" and "\<And>r. Q (Inr r) [(sql, ps, Some (rr_affectedRows r))]"
  shows "sends c (conn_query sv c sql ps) Q"
proof (rule sendsI)
  fix w r w'
  assume m: "conn_query sv c sql ps w = (r, w')"
  show "\<exists>es. wo_log w' = wo_log w @ map (\<lambda>(s, p, n). Sent c s p n) es \<and> Q r es \<and> wo_applied w' = wo_applied w"
  proof (cases r)
    case (Inl e)
    with m assms(1) show ?thesis
      by (intro exI [of _ "[(sql, ps, None)]"]) (auto simp: conn_query_def split: prod.splits sum.splits)
  next
    case (Inr x)
    with m assms(2) show ?thesis
      by (intro exI [of _ "[(sql, ps, Some (rr_affectedRows x))]"]) (auto simp: conn_query_def split: prod.splits sum.splits)
  qed
qed

lemma sends_bind:
  assumes "sends c m P" and "\<And>e es. P (Inl e) es \<Longrightarrow> Q (Inl e) es"
    and "\<And>x es. P (Inr x) es \<Longrightarrow> sends c (f x) (\<lambda>r es'. Q r (es @ es'))"
  shows "sends c (bind m f) Q"
proof (rule sendsI)
  fix w r w'
  assume b: "bind m f w = (r, w')"
  obtain r1 w1 where m: "m w = (r1, w1)" by (cases "m w")
  with assms(1) obtain es where es: "wo_log w1 = wo_log w @ map (\<lambda>(s, p, n). Sent c s p n) es" "P r1 es"
    "wo_applied w1 = wo_applied w" unfolding sends_def by blast
  show "\<exists>es. wo_log w' = wo_log w @ map (\<lambda>(s, p, n). Sent c s p n) es \<and> Q r es \<and> wo_applied w' = wo_applied w"
  proof (cases r1)
    case (Inl e)
    with b m es assms(2) show ?thesis by (auto simp: bind_def)
  next
    case (Inr x)
    with b m have "f x w1 = (r, w')" by (simp add: bind_def)
    with assms(3) [of x es] es Inr obtain es' where
      "wo_log w' = wo_log w1 @ map (\<lambda>(s, p, n). Sent c s p n) es'" "Q r (es @ es')" "wo_applied w' = wo_applied w1"
      unfolding sends_def by blast
    with es show ?thesis by (intro exI [of _ "es @ es'"]) simp
  qed
qed

lemma sends_catch:
  assumes "sends c m P" and "\<And>x es. P (Inr x) es \<Longrightarrow> Q (Inr x) es"
    and "\<And>e es. P (Inl e) es \<Longrightarrow> sends c (h e) (\<lambda>r es'. Q r (es @ es'))"
  shows "sends c (catch m h) Q"
proof (rule sendsI)
  fix w r w'
  assume b: "catch m h w = (r, w')"
  obtain r1 w1 where m: "m w = (r1, w1)" by (cases "m w")
  with assms(1) obtain es where es: "wo_log w1 = wo_log w @ map (\<lambda>(s, p, n). Sent c s p n) es" "P r1 es"
    "wo_applied w1 = wo_applied w" unfolding sends_def by blast
  show "\<exists>es. wo_log w' = wo_log w @ map (\<lambda>(s, p, n). Sent c s p n) es \<and> Q r es \<and> wo_applied w' = wo_applied w"
  proof (cases r1)
    case (Inr x)
    with b m es assms(2) show ?thesis by (auto simp: catch_def)
  next
    case (Inl e)
    with b m have "h e w1 = (r, w')" by (simp add: catch_def)
    with assms(3) [of e es] es Inl obtain es' where
      "wo_log w' = wo_log w1 @ map (\<lambda>(s, p, n). Sent c s p n) es'" "Q r (es @ es')" "wo_applied w' = wo_applied w1"
      unfolding sends_def by blast
    with es show ?thesis by (intro exI [of _ "es @ es'"]) simp
  qed
qed

text \<open>What a use of one connection adds to the log: nothing, a timeout that failed, or what was sent between taking
  the connection and giving it back.\<close>

definition talked ::
  "((Thrown, 'a) result \<Rightarrow> (string \<times> DbValue list \<times> int option) list \<Rightarrow> bool)
    \<Rightarrow> ConnEvent list \<Rightarrow> (Thrown, 'a) result \<Rightarrow> ConnEvent list \<Rightarrow> bool" where
  "talked Q log r log' \<longleftrightarrow>
     (isl r \<and> (log' = log \<or> (\<exists>c ms. log' = log @ [Took c, TimeoutSet c ms, Gave c])))
   \<or> (\<exists>c ms pre es. Q r es \<and> pre \<in> {[], [TimeoutSet c ms]}
        \<and> log' = log @ Took c # pre @ map (\<lambda>(s, p, n). Sent c s p n) es @ [Gave c])"

lemma withConn_talked:
  assumes "\<And>c. sends c (fn c) Q" and "withConn sv ns fn ms w = (r, w')"
  shows "talked Q (wo_log w) r (wo_log w')"
proof -
  obtain r1 w1 where b: "borrow sv ns ms w = (r1, w1)" by (cases "borrow sv ns ms w")
  obtain r0 db0 where a: "sv_acquire sv ns (wo_db w) = (r0, db0)" by (cases "sv_acquire sv ns (wo_db w)")
  have "(isl r1 \<and> (wo_log w1 = wo_log w \<or> (\<exists>c. wo_log w1 = wo_log w @ [Took c, TimeoutSet c ms, Gave c])))
    \<or> (\<exists>c pre. r1 = Inr c \<and> pre \<in> {[], [TimeoutSet c ms]} \<and> wo_log w1 = wo_log w @ Took c # pre)"
    using b a
    by (cases r0) (auto simp: borrow_def acquire_def bind_def on_db_def log_event_def ret_def catch_def raise_def
        setStatementTimeout_def set_applied_def release_def split: prod.splits sum.splits if_splits)
  then consider (fails) "isl r1" "wo_log w1 = wo_log w \<or> (\<exists>c. wo_log w1 = wo_log w @ [Took c, TimeoutSet c ms, Gave c])"
    | (has) c pre where "r1 = Inr c" "pre \<in> {[], [TimeoutSet c ms]}" "wo_log w1 = wo_log w @ Took c # pre"
    by blast
  then show ?thesis
  proof cases
    case fails
    then have "r = Inl (projl r1)" "w' = w1" using assms(2) b by (cases r1; simp add: withConn_def bind_def)+
    with fails show ?thesis unfolding talked_def by auto
  next
    case has
    obtain r2 w2 where f: "fn c w1 = (r2, w2)" by (cases "fn c w1")
    then have "r = r2" "wo_log w' = wo_log w2 @ [Gave c]"
      using assms(2) b has by (auto simp: withConn_def bind_def finally_do_def release_def)
    moreover obtain es where "wo_log w2 = wo_log w1 @ map (\<lambda>(s, p, n). Sent c s p n) es" "Q r2 es"
      using assms(1) [of c] f unfolding sends_def by blast
    ultimately show ?thesis using has unfolding talked_def
      by (intro disjI2 exI [of _ c] exI [of _ ms] exI [of _ pre] exI [of _ es]) simp
  qed
qed

text \<open>What a transaction sends around what runs in it.\<close>

definition in_transaction ::
  "((Thrown, 'a) result \<Rightarrow> (string \<times> DbValue list \<times> int option) list \<Rightarrow> bool)
    \<Rightarrow> (Thrown, 'a) result \<Rightarrow> (string \<times> DbValue list \<times> int option) list \<Rightarrow> bool" where
  "in_transaction Q r es \<longleftrightarrow>
     isl r \<and> es = [(''BEGIN'', [], None)]
   \<or> (\<exists>n body. \<not> isl r \<and> Q r body \<and> (\<exists>m. es = (''BEGIN'', [], Some n) # body @ [(''COMMIT'', [], Some m)]))
   \<or> (\<exists>n body m x. isl r \<and> Q (Inr x) body
        \<and> es = (''BEGIN'', [], Some n) # body @ [(''COMMIT'', [], None), (''ROLLBACK'', [], m)])
   \<or> (\<exists>n body m. isl r \<and> Q r body \<and> es = (''BEGIN'', [], Some n) # body @ [(''ROLLBACK'', [], m)])"

lemma sends_rollback: "sends c (catch (conn_query sv c ''ROLLBACK'' []) (\<lambda>_. ret no_result))
    (\<lambda>r es. \<not> isl r \<and> (\<exists>m. es = [(''ROLLBACK'', [], m)]))"
  by (rule sends_catch [OF sends_query [where Q = "\<lambda>r es. \<exists>m. es = [(''ROLLBACK'', [], m)]"]])
    (auto intro: sends_ret)

lemma withTransaction_talked:
  assumes "\<And>c. sends c (fn c) Q" and "withTransaction sv ns fn w = (r, w')"
  shows "talked (in_transaction Q) (wo_log w) r (wo_log w')"
proof (rule withConn_talked [OF _ assms(2) [unfolded withTransaction_def]])
  fix c
  let ?B = "\<lambda>r es. es = [(''BEGIN'', [], if isl r then None else Some (rr_affectedRows (projr r)))]"
  let ?M = "\<lambda>r es. \<not> isl r \<and> Q r (butlast es) \<and> es \<noteq> [] \<and> (\<exists>m. last es = (''COMMIT'', [], Some m))
    \<or> isl r \<and> (\<exists>x. Q (Inr x) (butlast es)) \<and> es \<noteq> [] \<and> last es = (''COMMIT'', [], None) \<or> isl r \<and> Q r es"
  have commit: "sends c (bind (fn c) (\<lambda>result. bind (conn_query sv c ''COMMIT'' []) (\<lambda>_. ret result))) ?M"
    by (rule sends_bind [OF assms(1)], simp,
        rule sends_bind [OF sends_query [where Q = "\<lambda>r es. es = [(''COMMIT'', [], if isl r then None else Some (rr_affectedRows (projr r)))]"]])
      (auto intro!: sends_ret)
  show "sends c (bind (conn_query sv c ''BEGIN'' []) (\<lambda>_.
       catch (bind (fn c) (\<lambda>result. bind (conn_query sv c ''COMMIT'' []) (\<lambda>_. ret result)))
         (\<lambda>err. bind (catch (conn_query sv c ''ROLLBACK'' []) (\<lambda>_. ret no_result)) (\<lambda>_. raise err)))) (in_transaction Q)"
  proof (rule sends_bind [OF sends_query [where Q = ?B]])
    fix x and es :: "(string \<times> DbValue list \<times> int option) list"
    assume b: "?B (Inr x) es"
    show "sends c (catch (bind (fn c) (\<lambda>result. bind (conn_query sv c ''COMMIT'' []) (\<lambda>_. ret result)))
         (\<lambda>err. bind (catch (conn_query sv c ''ROLLBACK'' []) (\<lambda>_. ret no_result)) (\<lambda>_. raise err)))
       (\<lambda>r es'. in_transaction Q r (es @ es'))"
    proof (rule sends_catch [OF commit])
      fix y es1
      assume "?M (Inr y) es1"
      then obtain m body where "Q (Inr y) body" "es1 = body @ [(''COMMIT'', [], Some m)]"
        by (metis append_butlast_last_id sum.disc(2))
      with b show "in_transaction Q (Inr y) (es @ es1)" unfolding in_transaction_def by auto
    next
      fix e es1
      assume m: "?M (Inl e) es1"
      show "sends c (bind (catch (conn_query sv c ''ROLLBACK'' []) (\<lambda>_. ret no_result)) (\<lambda>_. raise e))
          (\<lambda>r es'. in_transaction Q r (es @ es1 @ es'))"
      proof (rule sends_bind [OF sends_rollback], simp, rule sends_raise)
        fix z and es2 :: "(string \<times> DbValue list \<times> int option) list"
        assume "\<not> isl (Inr z) \<and> (\<exists>k. es2 = [(''ROLLBACK'', [], k)])"
        then obtain k where k: "es2 = [(''ROLLBACK'', [], k)]" by blast
        from m consider v body where "Q (Inr v) body" "es1 = body @ [(''COMMIT'', [], None)]"
          | "Q (Inl e) es1" by (metis append_butlast_last_id sum.disc(1))
        then show "in_transaction Q (Inl e) (es @ es1 @ es2 @ [])"
        proof cases
          case 1
          with b k show ?thesis unfolding in_transaction_def by auto
        next
          case 2
          with b k show ?thesis unfolding in_transaction_def by auto
        qed
      qed
    qed
  qed (auto simp: in_transaction_def)
qed

subsection \<open>A server with transactions\<close>

text \<open>
  What a server with transactional tables documents: the data others see (\<open>committed\<close>) changes by a COMMIT that
  succeeds and by nothing else while a transaction is open; a statement that succeeds leaves it open.  Taking a
  connection, its timeout, giving it back and describing a table change no data.
\<close>

definition data_statement :: "string \<Rightarrow> bool" where
  "data_statement sql \<longleftrightarrow>
    (\<exists>v \<in> set [''INSERT '', ''REPLACE '', ''UPDATE '', ''DELETE '', ''SHOW WARNINGS'']. prefix v sql)"

definition transactional :: "'db Server \<Rightarrow> ('db \<Rightarrow> 'd) \<Rightarrow> (nat \<Rightarrow> 'db \<Rightarrow> bool) \<Rightarrow> bool" where
  "transactional sv committed opened \<longleftrightarrow>
     (\<forall>c sql ps db. let (r, db') = sv_query sv c sql ps db in
        (sql = ''BEGIN'' \<longrightarrow> committed db' = committed db \<and> (\<not> isl r \<longrightarrow> opened c db'))
      \<and> (sql = ''ROLLBACK'' \<or> sql = ''COMMIT'' \<and> isl r \<longrightarrow> committed db' = committed db)
      \<and> (data_statement sql \<and> opened c db \<longrightarrow> committed db' = committed db \<and> (\<not> isl r \<longrightarrow> opened c db')))
   \<and> (\<forall>ns db. committed (snd (sv_acquire sv ns db)) = committed db)
   \<and> (\<forall>c ms db. committed (snd (sv_setTimeout sv c ms db)) = committed db)
   \<and> (\<forall>c db. committed (sv_release sv c db) = committed db)
   \<and> (\<forall>ns t db. committed (snd (sv_describe sv ns t db)) = committed db)"

lemma transactionalD:
  assumes "transactional sv cm op" and "sv_query sv c sql ps db = (r, db')"
  shows "sql = ''BEGIN'' \<Longrightarrow> cm db' = cm db \<and> (\<not> isl r \<longrightarrow> op c db')"
    and "sql = ''ROLLBACK'' \<or> sql = ''COMMIT'' \<and> isl r \<Longrightarrow> cm db' = cm db"
    and "data_statement sql \<Longrightarrow> op c db \<Longrightarrow> cm db' = cm db \<and> (\<not> isl r \<longrightarrow> op c db')"
proof -
  have "let (r, db') = sv_query sv c sql ps db in
        (sql = ''BEGIN'' \<longrightarrow> cm db' = cm db \<and> (\<not> isl r \<longrightarrow> op c db'))
      \<and> (sql = ''ROLLBACK'' \<or> sql = ''COMMIT'' \<and> isl r \<longrightarrow> cm db' = cm db)
      \<and> (data_statement sql \<and> op c db \<longrightarrow> cm db' = cm db \<and> (\<not> isl r \<longrightarrow> op c db'))"
    using assms(1) unfolding transactional_def by blast
  then have law: "(sql = ''BEGIN'' \<longrightarrow> cm db' = cm db \<and> (\<not> isl r \<longrightarrow> op c db'))
      \<and> (sql = ''ROLLBACK'' \<or> sql = ''COMMIT'' \<and> isl r \<longrightarrow> cm db' = cm db)
      \<and> (data_statement sql \<and> op c db \<longrightarrow> cm db' = cm db \<and> (\<not> isl r \<longrightarrow> op c db'))"
    unfolding assms(2) Let_def case_prod_conv .
  show "sql = ''BEGIN'' \<Longrightarrow> cm db' = cm db \<and> (\<not> isl r \<longrightarrow> op c db')"
    and "sql = ''ROLLBACK'' \<or> sql = ''COMMIT'' \<and> isl r \<Longrightarrow> cm db' = cm db"
    and "data_statement sql \<Longrightarrow> op c db \<Longrightarrow> cm db' = cm db \<and> (\<not> isl r \<longrightarrow> op c db')"
    using law by blast+
qed

lemma conn_query_db:
  "conn_query sv c sql ps w = (r, w') \<Longrightarrow>
    \<exists>q. sv_query sv c sql ps (wo_db w) = (q, wo_db w') \<and> isl q = isl r"
  by (cases "sv_query sv c sql ps (wo_db w)") (auto simp: conn_query_def split: sum.splits)

text \<open>A condition before and one after, for every outcome.\<close>

definition triple :: "('s \<Rightarrow> bool) \<Rightarrow> ('s, 'a) run \<Rightarrow> ((Thrown, 'a) result \<Rightarrow> 's \<Rightarrow> bool) \<Rightarrow> bool" where
  "triple P m Q \<longleftrightarrow> (\<forall>s r s'. P s \<longrightarrow> m s = (r, s') \<longrightarrow> Q r s')"

lemma tripleD: "triple P m Q \<Longrightarrow> P s \<Longrightarrow> m s = (r, s') \<Longrightarrow> Q r s'"
  unfolding triple_def by blast

lemma tripleI: "(\<And>s r s'. P s \<Longrightarrow> m s = (r, s') \<Longrightarrow> Q r s') \<Longrightarrow> triple P m Q"
  unfolding triple_def by blast

lemma triple_ret: "(\<And>s. P s \<Longrightarrow> Q (Inr x) s) \<Longrightarrow> triple P (ret x) Q"
  by (auto simp: triple_def ret_def)

lemma triple_raise: "(\<And>s. P s \<Longrightarrow> Q (Inl e) s) \<Longrightarrow> triple P (raise e) Q"
  by (auto simp: triple_def raise_def)

lemma triple_conseq: "triple P m Q \<Longrightarrow> (\<And>s. P' s \<Longrightarrow> P s) \<Longrightarrow> (\<And>r s. Q r s \<Longrightarrow> Q' r s) \<Longrightarrow> triple P' m Q'"
  unfolding triple_def by blast

lemma triple_bind:
  assumes "triple P m R" and "\<And>x. triple (R (Inr x)) (f x) Q" and "\<And>e s. R (Inl e) s \<Longrightarrow> Q (Inl e) s"
  shows "triple P (bind m f) Q"
proof (rule tripleI)
  fix s r s'
  assume p: "P s" and b: "bind m f s = (r, s')"
  obtain r1 s1 where m: "m s = (r1, s1)" by (cases "m s")
  note r1 = tripleD [OF assms(1) p m]
  show "Q r s'"
  proof (cases r1)
    case (Inl e)
    with b m r1 assms(3) show ?thesis by (auto simp: bind_def)
  next
    case (Inr x)
    with b m have "f x s1 = (r, s')" by (simp add: bind_def)
    with r1 Inr assms(2) show ?thesis by (blast intro: tripleD)
  qed
qed

lemma triple_catch:
  assumes "triple P m R" and "\<And>e. triple (R (Inl e)) (h e) Q" and "\<And>x s. R (Inr x) s \<Longrightarrow> Q (Inr x) s"
  shows "triple P (catch m h) Q"
proof (rule tripleI)
  fix s r s'
  assume p: "P s" and b: "catch m h s = (r, s')"
  obtain r1 s1 where m: "m s = (r1, s1)" by (cases "m s")
  note r1 = tripleD [OF assms(1) p m]
  show "Q r s'"
  proof (cases r1)
    case (Inr e)
    with b m r1 assms(3) show ?thesis by (auto simp: catch_def)
  next
    case (Inl x)
    with b m have "h x s1 = (r, s')" by (simp add: catch_def)
    with r1 Inl assms(2) show ?thesis by (blast intro: tripleD)
  qed
qed

lemma query_triple:
  assumes "\<And>db r db'. sv_query sv c sql ps db = (r, db') \<Longrightarrow> P db \<Longrightarrow> Q (isl r) db'"
  shows "triple (\<lambda>w. P (wo_db w)) (conn_query sv c sql ps) (\<lambda>r w. Q (isl r) (wo_db w))"
proof (rule tripleI)
  fix w r w'
  assume p: "P (wo_db w)" and m: "conn_query sv c sql ps w = (r, w')"
  from conn_query_db [OF m] obtain q where "sv_query sv c sql ps (wo_db w) = (q, wo_db w')" "isl q = isl r" by blast
  from assms [OF this(1) p] this(2) show "Q (isl r) (wo_db w')" by simp
qed

definition kept :: "('db \<Rightarrow> 'd) \<Rightarrow> (nat \<Rightarrow> 'db \<Rightarrow> bool) \<Rightarrow> nat \<Rightarrow> ('db World, 'a) run \<Rightarrow> bool" where
  "kept cm op c m \<longleftrightarrow> (\<forall>d0. triple (\<lambda>w. cm (wo_db w) = d0 \<and> op c (wo_db w)) m
     (\<lambda>r w. cm (wo_db w) = d0 \<and> (\<not> isl r \<longrightarrow> op c (wo_db w))))"

named_theorems kept_intros \<open>runs inside a transaction that leave the committed data alone\<close>

lemma kept_ret [kept_intros]: "kept cm op c (ret x)"
  unfolding kept_def by (intro allI triple_ret) simp

lemma kept_raise [kept_intros]: "kept cm op c (raise e)"
  unfolding kept_def by (intro allI triple_raise) simp

lemma kept_bind [kept_intros]:
  assumes "kept cm op c m" and "\<And>x. kept cm op c (f x)"
  shows "kept cm op c (bind m f)"
  unfolding kept_def
proof (intro allI)
  fix d0
  show "triple (\<lambda>w. cm (wo_db w) = d0 \<and> op c (wo_db w)) (bind m f)
     (\<lambda>r w. cm (wo_db w) = d0 \<and> (\<not> isl r \<longrightarrow> op c (wo_db w)))"
  proof (rule triple_bind)
    show "triple (\<lambda>w. cm (wo_db w) = d0 \<and> op c (wo_db w)) m
       (\<lambda>r w. cm (wo_db w) = d0 \<and> (\<not> isl r \<longrightarrow> op c (wo_db w)))"
      using assms(1) unfolding kept_def by blast
  next
    fix x
    show "triple (\<lambda>w. cm (wo_db w) = d0 \<and> (\<not> isl (Inr x) \<longrightarrow> op c (wo_db w))) (f x)
       (\<lambda>r w. cm (wo_db w) = d0 \<and> (\<not> isl r \<longrightarrow> op c (wo_db w)))"
      using assms(2) [of x] unfolding kept_def by simp
  qed simp
qed

lemma kept_rethrow [kept_intros]:
  assumes "kept cm op c m"
  shows "kept cm op c (catch m (\<lambda>e. raise (h e)))"
  unfolding kept_def
proof (intro allI)
  fix d0
  show "triple (\<lambda>w. cm (wo_db w) = d0 \<and> op c (wo_db w)) (catch m (\<lambda>e. raise (h e)))
     (\<lambda>r w. cm (wo_db w) = d0 \<and> (\<not> isl r \<longrightarrow> op c (wo_db w)))"
  proof (rule triple_catch)
    show "triple (\<lambda>w. cm (wo_db w) = d0 \<and> op c (wo_db w)) m
       (\<lambda>r w. cm (wo_db w) = d0 \<and> (\<not> isl r \<longrightarrow> op c (wo_db w)))"
      using assms unfolding kept_def by blast
  qed (auto intro: triple_raise)
qed

lemma kept_lift [kept_intros]: "(\<And>x. kept cm op c (f x)) \<Longrightarrow> kept cm op c (bind (lift r) f)"
  by (cases r) (auto simp: run_simps intro: kept_raise)

lemma kept_within [kept_intros]: "(\<And>x p. kept cm op c (f x p)) \<Longrightarrow> kept cm op c (within m p f)"
  by (auto simp: within_def intro: kept_raise split: prod.splits sum.splits)

lemma kept_query [kept_intros]:
  "transactional sv cm op \<Longrightarrow> data_statement sql \<Longrightarrow> kept cm op c (conn_query sv c sql ps)"
  unfolding kept_def
  by (intro allI query_triple [where P = "\<lambda>db. cm db = _ \<and> op c db" and Q = "\<lambda>bad db. cm db = _ \<and> (\<not> bad \<longrightarrow> op c db)"])
    (drule (1) transactionalD(3), assumption, blast, simp)

lemma triple_begin:
  "transactional sv cm op \<Longrightarrow> triple (\<lambda>w. cm (wo_db w) = d0) (conn_query sv c ''BEGIN'' [])
    (\<lambda>r w. cm (wo_db w) = d0 \<and> (\<not> isl r \<longrightarrow> op c (wo_db w)))"
  by (rule query_triple [where P = "\<lambda>db. cm db = d0" and Q = "\<lambda>bad db. cm db = d0 \<and> (\<not> bad \<longrightarrow> op c db)"])
    (drule (1) transactionalD(1), rule refl, simp)

lemma triple_commit:
  "transactional sv cm op \<Longrightarrow> triple (\<lambda>w. cm (wo_db w) = d0) (conn_query sv c ''COMMIT'' []) (\<lambda>r w. isl r \<longrightarrow> cm (wo_db w) = d0)"
  by (rule query_triple [where P = "\<lambda>db. cm db = d0" and Q = "\<lambda>bad db. bad \<longrightarrow> cm db = d0"])
    (auto dest: transactionalD(2))

lemma triple_rollback:
  "transactional sv cm op \<Longrightarrow> triple (\<lambda>w. cm (wo_db w) = d0) (conn_query sv c ''ROLLBACK'' []) (\<lambda>r w. cm (wo_db w) = d0)"
  by (rule query_triple [where P = "\<lambda>db. cm db = d0" and Q = "\<lambda>bad db. cm db = d0"])
    (auto dest: transactionalD(2))

lemma on_db_kept: "(\<And>db. cm (snd (m db)) = cm db) \<Longrightarrow> triple (\<lambda>w. cm (wo_db w) = d0) (on_db m) (\<lambda>r w. cm (wo_db w) = d0)"
proof (rule tripleI)
  fix w r w'
  assume k: "\<And>db. cm (snd (m db)) = cm db" and "cm (wo_db w) = d0" and "on_db m w = (r, w')"
  moreover have "wo_db w' = snd (m (wo_db w))" using \<open>on_db m w = (r, w')\<close> by (auto simp: on_db_def split: prod.splits)
  ultimately show "cm (wo_db w') = d0" by simp
qed

lemma log_kept: "triple (\<lambda>w. cm (wo_db w) = d0) (log_event e) (\<lambda>r w. cm (wo_db w) = d0)"
  by (auto simp: triple_def log_event_def)

lemma set_applied_kept: "triple (\<lambda>w. cm (wo_db w) = d0) (set_applied c ms) (\<lambda>r w. cm (wo_db w) = d0)"
  by (auto simp: triple_def set_applied_def)

lemma release_kept:
  "transactional sv cm op \<Longrightarrow> triple (\<lambda>w. cm (wo_db w) = d0) (release sv c) (\<lambda>r w. cm (wo_db w) = d0 \<and> \<not> isl r)"
  by (auto simp: triple_def release_def transactional_def)

lemma borrow_kept:
  assumes sv: "transactional sv cm op"
  shows "triple (\<lambda>w. cm (wo_db w) = d0) (borrow sv ns ms) (\<lambda>r w. cm (wo_db w) = d0)"
proof -
  let ?A = "\<lambda>w. cm (wo_db w) = d0"
  have law: "\<And>db. cm (snd (sv_acquire sv ns db)) = cm db" "\<And>c ms db. cm (snd (sv_setTimeout sv c ms db)) = cm db"
    using sv unfolding transactional_def by blast+
  have a: "triple ?A (acquire sv ns) (\<lambda>r. ?A)"
    unfolding acquire_def
    by (rule triple_bind [OF on_db_kept [where cm = cm, OF law(1)]], rule triple_bind [OF log_kept], rule triple_ret) simp_all
  have t: "triple ?A (setStatementTimeout sv c ms) (\<lambda>r. ?A)" for c
    unfolding setStatementTimeout_def by (rule triple_bind [OF log_kept]) (simp_all add: on_db_kept [where cm = cm, OF law(2)])
  have s: "triple ?A (catch (bind (setStatementTimeout sv c ms) (\<lambda>_. bind (set_applied c (Some ms)) (\<lambda>_. ret c)))
      (\<lambda>e. bind (set_applied c None) (\<lambda>_. bind (release sv c) (\<lambda>_. raise e)))) (\<lambda>r. ?A)" for c
    by (rule triple_catch [where R = "\<lambda>r. ?A"], rule triple_bind [OF t], rule triple_bind [OF set_applied_kept], rule triple_ret,
      simp_all, rule triple_bind [OF set_applied_kept], rule triple_bind [OF release_kept [OF sv]], rule triple_raise) simp_all
  show ?thesis
    unfolding borrow_def
  proof (rule triple_bind [OF a], rule tripleI)
    fix c w r w'
    assume "?A w" and b: "(if wo_applied w c \<noteq> Some ms
      then catch (bind (setStatementTimeout sv c ms) (\<lambda>_. bind (set_applied c (Some ms)) (\<lambda>_. ret c)))
        (\<lambda>e. bind (set_applied c None) (\<lambda>_. bind (release sv c) (\<lambda>_. raise e))) w
      else ret c w) = (r, w')"
    then show "?A w'" using tripleD [OF s] by (auto simp: ret_def split: if_splits)
  qed simp
qed

lemma transaction_all_or_nothing:
  fixes fn :: "nat \<Rightarrow> ('db World, 'a) run"
  assumes sv: "transactional sv cm op" and body: "\<And>c. kept cm op c (fn c)"
    and run: "withTransaction sv ns fn w = (Inl e, w')"
  shows "cm (wo_db w') = cm (wo_db w)"
proof -
  let ?d = "cm (wo_db w)"
  let ?A = "\<lambda>w. cm (wo_db w) = ?d"
  have inner: "triple (\<lambda>w. ?A w \<and> op c (wo_db w)) (bind (fn c) (\<lambda>result. bind (conn_query sv c ''COMMIT'' []) (\<lambda>_. ret result)))
      (\<lambda>r w. isl r \<longrightarrow> ?A w)" for c
  proof (rule triple_bind)
    show "triple (\<lambda>w. ?A w \<and> op c (wo_db w)) (fn c) (\<lambda>r w. ?A w \<and> (\<not> isl r \<longrightarrow> op c (wo_db w)))"
      using body [of c] unfolding kept_def by blast
    show "triple (\<lambda>w. ?A w \<and> (\<not> isl (Inr x) \<longrightarrow> op c (wo_db w)))
        (bind (conn_query sv c ''COMMIT'' []) (\<lambda>_. ret x)) (\<lambda>r w. isl r \<longrightarrow> ?A w)" for x
      by (rule triple_bind [OF triple_conseq [OF triple_commit [OF sv, of ?d]]], simp, assumption, rule triple_ret) simp_all
  qed simp
  have undo: "triple ?A (bind (catch (conn_query sv c ''ROLLBACK'' []) (\<lambda>_. ret no_result)) (\<lambda>_. raise err)) (\<lambda>r. ?A)" for c err
    by (rule triple_bind [OF triple_catch [OF triple_rollback [OF sv]]], rule triple_ret, simp_all add: triple_raise)
  have tx: "triple ?A (bind (conn_query sv c ''BEGIN'' []) (\<lambda>_.
       catch (bind (fn c) (\<lambda>result. bind (conn_query sv c ''COMMIT'' []) (\<lambda>_. ret result)))
         (\<lambda>err. bind (catch (conn_query sv c ''ROLLBACK'' []) (\<lambda>_. ret no_result)) (\<lambda>_. raise err)))) (\<lambda>r w. isl r \<longrightarrow> ?A w)" for c
  proof (rule triple_bind [OF triple_begin [OF sv]])
    fix x
    show "triple (\<lambda>w. ?A w \<and> (\<not> isl (Inr x) \<longrightarrow> op c (wo_db w)))
        (catch (bind (fn c) (\<lambda>result. bind (conn_query sv c ''COMMIT'' []) (\<lambda>_. ret result)))
         (\<lambda>err. bind (catch (conn_query sv c ''ROLLBACK'' []) (\<lambda>_. ret no_result)) (\<lambda>_. raise err)))
        (\<lambda>r w. isl r \<longrightarrow> ?A w)"
    proof (rule triple_catch)
      show "triple (\<lambda>w. ?A w \<and> (\<not> isl (Inr x) \<longrightarrow> op c (wo_db w)))
          (bind (fn c) (\<lambda>result. bind (conn_query sv c ''COMMIT'' []) (\<lambda>_. ret result))) (\<lambda>r w. isl r \<longrightarrow> ?A w)"
        using inner [of c] by simp
      show "triple (\<lambda>w. isl (Inl e :: (Thrown, 'a) result) \<longrightarrow> ?A w)
          (bind (catch (conn_query sv c ''ROLLBACK'' []) (\<lambda>_. ret no_result)) (\<lambda>_. raise e)) (\<lambda>r w. isl r \<longrightarrow> ?A w)" for e
        by (rule triple_conseq [OF undo]) simp_all
    qed simp
  qed simp
  have freed: "triple (\<lambda>w. ?A w) (finally_do m (release sv c)) (\<lambda>r w. isl r \<longrightarrow> ?A w)"
    if "triple ?A m (\<lambda>r w. isl r \<longrightarrow> ?A w)" for m c
  proof (rule tripleI)
    fix w0 r w1
    assume a: "?A w0" and f: "finally_do m (release sv c) w0 = (r, w1)"
    obtain w2 where m: "m w0 = (r, w2)" and w1: "release sv c w2 = (Inr (), w1)"
      using f by (cases "m w0") (auto simp: finally_do_def release_def)
    from tripleD [OF that a m] tripleD [OF release_kept [OF sv, of ?d] _ w1] show "isl r \<longrightarrow> ?A w1" by blast
  qed
  have "triple ?A (withTransaction sv ns fn) (\<lambda>r w. isl r \<longrightarrow> ?A w)"
    unfolding withTransaction_def withConn_def
    by (rule triple_bind [OF borrow_kept [OF sv]], rule freed, rule tx) simp
  from tripleD [OF this refl run] show ?thesis by simp
qed

end
