(* ===== verification/Query_Builder.thy ===== *)
theory Query_Builder
  imports Joins Adapter_Conn
begin

text \<open>
  The statement of the query builder: \<open>BaseAdapter.buildQuery\<close> of \<open>packages/adapter/src/base.ts\<close>, on the request of
  \<open>packages/shared/src/schemas/query-builder.ts\<close>.  Nothing is run to produce it beyond describing the tables.
\<close>

record QueryBuilderColumn =
  qc_ref :: ColumnRef
  qc_alias :: string
  qc_show :: bool
  qc_sort :: "SortDirection option"

record QueryBuilderCondition =
  qn_ref :: ColumnRef
  qn_op :: FilterOp
  qn_value :: "string option"
  qn_values :: "string list option"

record QueryBuilderSpec =
  qb_tables :: "string list"
  qb_columns :: "QueryBuilderColumn list"
  qb_where :: "QueryBuilderCondition list list"
  qb_joins :: "QueryBuilderJoin list"
  qb_distinct :: bool
  qb_whereSql :: string
  qb_limit :: "nat option"

definition typeOf :: "Schemas \<Rightarrow> ColumnRef \<Rightarrow> ('s, string) run" where
  "typeOf schemas r =
    (case (case schemas (cr_table r) of
        Some schema \<Rightarrow> List.find (\<lambda>c. co_name c = cr_column r) (tb_columns schema) | None \<Rightarrow> None) of
       Some column \<Rightarrow> ret (co_dataType column)
     | None \<Rightarrow> raise (Adapter (AdapterError NOT_FOUND (''Unknown column: '' @ cr_table r @ ''.'' @ cr_column r))))"

definition qb_select :: "Dialect \<Rightarrow> Schemas \<Rightarrow> QueryBuilderColumn \<Rightarrow> ('s, string) run" where
  "qb_select d schemas c = bind (typeOf schemas (qc_ref c)) (\<lambda>_. bind (lift (column_sql d (qc_ref c))) (\<lambda>r.
     if qc_alias c = [] then ret r
     else bind (lift (quoteIdent d (qc_alias c))) (\<lambda>a. ret (r @ '' AS '' @ a))))"

definition qb_filter :: "QueryBuilderCondition \<Rightarrow> Filter" where
  "qb_filter c = \<lparr>f_column = cr_column (qn_ref c), f_op = qn_op c, f_value = map_option CString (qn_value c),
     f_values = map_option (map CString) (qn_values c)\<rparr>"

definition qb_literal :: "Dialect \<Rightarrow> Cell \<Rightarrow> ('s, string) run" where
  "qb_literal d v = ret (quoteLiteral d (string_of v))"

definition qb_condition :: "Dialect \<Rightarrow> Schemas \<Rightarrow> QueryBuilderCondition \<Rightarrow> ('s, string) run" where
  "qb_condition d schemas c = bind (typeOf schemas (qn_ref c)) (\<lambda>type.
     let bitCompare = (d = Mysql \<and> word_prefix ''bit'' (to_lower type) \<and> qn_op c \<notin> TEXT_OPS) in
     bind (lift (column_sql d (qn_ref c))) (\<lambda>col.
       conditionSql (hooks d) col (qb_filter c) type (if bitCompare then (\<lambda>v. lift (bitLiteral v)) else qb_literal d)))"

definition qb_order :: "Dialect \<Rightarrow> Schemas \<Rightarrow> QueryBuilderColumn \<Rightarrow> ('s, string) run" where
  "qb_order d schemas c = bind (typeOf schemas (qc_ref c)) (\<lambda>_. bind (lift (column_sql d (qc_ref c))) (\<lambda>r.
     ret (r @ '' '' @ (if qc_sort c = Some Descending then ''DESC'' else ''ASC''))))"

text \<open>The typed SQL goes in its own parentheses, so an OR in it cannot escape the AND with the built conditions.\<close>

definition qb_conditions :: "string list \<Rightarrow> string \<Rightarrow> string list" where
  "qb_conditions groups typed =
    (let built = (case groups of [] \<Rightarrow> [] | [g] \<Rightarrow> g | _ \<Rightarrow> join '' OR '' (map (\<lambda>g. ''('' @ g @ '')'') groups))
     in filter (\<lambda>s. s \<noteq> [])
       [if built \<noteq> [] \<and> typed \<noteq> [] \<and> 1 < length groups then ''('' @ built @ '')'' else built,
        if typed \<noteq> [] then ''('' @ typed @ '')'' else []])"

definition qb_lines ::
  "QueryBuilderSpec \<Rightarrow> string list \<Rightarrow> string \<Rightarrow> string list \<Rightarrow> string list \<Rightarrow> string list \<Rightarrow> string list" where
  "qb_lines spec select first joins groups order =
    (let wh = qb_conditions groups (trim (qb_whereSql spec)) in
     [''SELECT '' @ (if qb_distinct spec then ''DISTINCT '' else []) @ (if select = [] then ''*'' else join '', '' select),
      ''FROM '' @ first] @ joins
     @ (if wh \<noteq> [] then [''WHERE '' @ join '' AND '' wh] else [])
     @ (if order \<noteq> [] then [''ORDER BY '' @ join '', '' order] else [])
     @ (case qb_limit spec of Some n \<Rightarrow> [''LIMIT '' @ show_nat n] | None \<Rightarrow> []))"

text \<open>The loop of \<open>joinSteps\<close> always ends (\<open>Joins.joinSteps_ends\<close>), so its \<open>None\<close> never comes here.\<close>

definition qb_statement ::
  "Dialect \<Rightarrow> Namespace \<Rightarrow> QueryBuilderSpec \<Rightarrow> Schemas \<Rightarrow> ('s, string \<times> QueryJoinStep list) run" where
  "qb_statement d ns spec schemas =
    bind (each (qb_select d schemas) (filter qc_show (qb_columns spec))) (\<lambda>select.
    bind (each (\<lambda>g. bind (each (qb_condition d schemas) g) (\<lambda>cs. ret (join '' AND '' cs))) (qb_where spec)) (\<lambda>groups.
    bind (each (qb_order d schemas) (filter (\<lambda>c. qc_sort c \<noteq> None) (qb_columns spec))) (\<lambda>order.
    bind (case joinSteps d ns (qb_tables spec) schemas (qb_joins spec) of
        Some r \<Rightarrow> lift r | None \<Rightarrow> raise (Plain_error ''no end'')) (\<lambda>joins.
    bind (lift (quoteTable d ns (case qb_tables spec of t # _ \<Rightarrow> t | [] \<Rightarrow> []))) (\<lambda>first.
    bind (lift (joinSql d ns joins)) (\<lambda>joined.
      ret (join [CHR 0x0A] (qb_lines spec select first joined groups order), joins)))))))"

definition buildQuery ::
  "'db Server \<Rightarrow> Dialect \<Rightarrow> Namespace \<Rightarrow> QueryBuilderSpec \<Rightarrow> ('db World, string \<times> QueryJoinStep list) run" where
  "buildQuery sv d ns spec =
    (if \<not> distinct (qb_tables spec)
     then raise (Adapter (AdapterError VALIDATION ''Each table can be listed only once''))
     else bind (each (describeTable sv ns) (qb_tables spec)) (\<lambda>schemas.
       qb_statement d ns spec (map_of (zip (qb_tables spec) schemas))))"

end
