(* ===== verification/Rows.thy ===== *)
theory Rows
  imports Adapter_Conn
begin

text \<open>
  Reading and changing the rows of a table: \<open>BaseAdapter\<close>'s browsing, searching, inserting, updating, deleting and
  reading of one value (\<open>packages/adapter/src/base.ts\<close>), and the type filter of the database-wide search
  (\<open>packages/adapter/src/sql/search.ts\<close>).
\<close>

subsection \<open>Numbers the server answers with\<close>

text \<open>\<open>Number\<close> of a cell that holds a whole number, as counts, sizes and codes do; \<open>None\<close> for anything else.\<close>

definition number_text :: "string \<Rightarrow> int option" where
  "number_text t = (if t \<noteq> [] \<and> list_all js_digit t then Some (int (read_nat t)) else None)"

fun cell_number :: "Cell \<Rightarrow> int option" where
  "cell_number (CNumber (Finite t)) = number_text t"
| "cell_number (CString t) = number_text t"
| "cell_number CNull = Some 0"
| "cell_number _ = None"

definition cell_at :: "Cell list list \<Rightarrow> nat \<Rightarrow> nat \<Rightarrow> Cell option" where
  "cell_at rows i j = (if i < length rows \<and> j < length (rows ! i) then Some (rows ! i ! j) else None)"

definition number_value :: "nat \<Rightarrow> DbValue" where
  "number_value n = DbCell (CNumber (Finite (show_nat n)))"

subsection \<open>The types of key columns\<close>

definition keyColumnTypes :: "'db Server \<Rightarrow> Dialect \<Rightarrow> Namespace \<Rightarrow> string \<Rightarrow> ('db World, string \<Rightarrow> string option) run" where
  "keyColumnTypes sv d ns table =
    (if d \<noteq> Mysql then ret Map.empty
     else bind (describeTable sv ns table) (\<lambda>schema.
       ret (map_of (rev (map (\<lambda>c. (co_name c, co_dataType c)) (tb_columns schema))))))"

subsection \<open>Browsing\<close>

text \<open>The statement of a page, built over given parameters.\<close>

definition defaultOrder :: "Dialect \<Rightarrow> TableSchema \<Rightarrow> string \<Rightarrow> (AdapterError, string) result" where
  "defaultOrder d schema tableSql = (case resolveRowKey d schema of (kind, cols) \<Rightarrow>
     if kind = PkKind then rbind (rmap (quoteIdent d) cols) (\<lambda>qs. Inr (join '', '' qs))
     else if kind = CtidKind \<and> countMode (tb_rowEstimate schema) = CountExact then Inr (tableSql @ ''.ctid'')
     else Inr [])"

definition orderClause :: "Dialect \<Rightarrow> TableSchema \<Rightarrow> string \<Rightarrow> SortSpec list \<Rightarrow> (AdapterError, string) result" where
  "orderClause d schema tableSql sorts = rbind (defaultOrder d schema tableSql) (\<lambda>default.
     if sorts \<noteq> [] then
       rbind (rmap (\<lambda>s. rbind (quoteIdent d (so_column s)) (\<lambda>q.
           Inr (q @ '' '' @ (if so_direction s = Descending then ''DESC'' else ''ASC'')))) sorts) (\<lambda>os.
         Inr ('' ORDER BY '' @ join '', '' os))
     else if default \<noteq> [] then Inr ('' ORDER BY '' @ default) else Inr [])"

definition selectList :: "Dialect \<Rightarrow> TableSchema \<Rightarrow> (AdapterError, string list) result" where
  "selectList d schema = rbind (rmap (\<lambda>c. quoteIdent d (co_name c)) (tb_columns schema)) (\<lambda>cs.
     Inr (case fallbackKeySelect d of
       Some f \<Rightarrow> if fst (resolveRowKey d schema) = CtidKind then cs @ [f] else cs
     | None \<Rightarrow> cs))"

definition column_types :: "TableSchema \<Rightarrow> string \<Rightarrow> string option" where
  "column_types schema = map_of (rev (map (\<lambda>c. (co_name c, co_dataType c)) (tb_columns schema)))"

definition browseStatement ::
  "Dialect \<Rightarrow> TableSchema \<Rightarrow> string \<Rightarrow> string list \<Rightarrow> string \<Rightarrow> BrowseOptions \<Rightarrow> (Params, string) run" where
  "browseStatement d schema tableSql columns order opts =
    bind (buildWhere (hooks d) (bo_filters opts) (column_types schema)) (\<lambda>wh.
    bind (add_value (number_value (if bo_limit opts = 0 then BROWSE_ALL_MAX else bo_limit opts))) (\<lambda>limit.
    bind (add_value (number_value (if bo_limit opts = 0 then 0 else bo_offset opts))) (\<lambda>offset.
      ret (''SELECT '' @ join '', '' columns @ '' FROM '' @ tableSql @ wh @ order @ '' LIMIT '' @ limit
        @ '' OFFSET '' @ offset))))"

definition countStatement :: "Dialect \<Rightarrow> TableSchema \<Rightarrow> string \<Rightarrow> BrowseOptions \<Rightarrow> (Params, string) run" where
  "countStatement d schema tableSql opts =
    bind (buildWhere (hooks d) (bo_filters opts) (column_types schema)) (\<lambda>wh.
    bind (add_value (number_value (nat (EXACT_COUNT_MAX_ROWS + 1)))) (\<lambda>limit.
      ret (''SELECT COUNT(*) FROM (SELECT 1 FROM '' @ tableSql @ wh @ '' LIMIT '' @ limit @ '') AS tsmyadmin_count'')))"

record BrowseResult =
  br_columns :: "ColumnMeta list"
  br_rows :: "Cell list list"
  br_total :: "int option"
  br_count :: CountKind
  br_keyKind :: RowKeyKind
  br_keyColumns :: "string list"
  br_foreignKeys :: "ForeignKeyDef list"
  br_referencedBy :: "ReferencingKeyDef list"
  br_sql :: string
  br_literal :: string
  br_params :: "Cell list"
  br_profile :: "ProfileStage list"

definition MAX_BINARY_BYTES :: nat where "MAX_BINARY_BYTES = 65536"

definition bufferToCell :: "nat list \<Rightarrow> nat \<Rightarrow> Cell" where
  "bufferToCell buf limit = CBin (base64_encode (take limit buf))"

definition param_cell :: "DbValue \<Rightarrow> Cell" where
  "param_cell v = (case v of DbBytes bs \<Rightarrow> bufferToCell bs MAX_BINARY_BYTES | DbCell c \<Rightarrow> c)"

definition check_column :: "TableSchema \<Rightarrow> string \<Rightarrow> ('s, unit) run" where
  "check_column schema column =
    (if column \<in> co_name ` set (tb_columns schema) then ret ()
     else raise (Adapter (AdapterError NOT_FOUND (''Unknown column: '' @ column))))"

text \<open>A count that stopped at the limit is a lower bound.\<close>

definition counted_total :: "Cell option \<Rightarrow> int option \<times> CountKind" where
  "counted_total cell =
    (let total = (case cell of Some (CNumber n) \<Rightarrow> cell_number (CNumber n) | Some (CString t) \<Rightarrow> cell_number (CString t)
                  | _ \<Rightarrow> None)
     in case total of
          Some n \<Rightarrow> if n > EXACT_COUNT_MAX_ROWS then (Some EXACT_COUNT_MAX_ROWS, CountLowerBound) else (Some n, CountExact)
        | None \<Rightarrow> (None, CountExact))"

definition profile_on :: "'db Server \<Rightarrow> nat \<Rightarrow> bool \<Rightarrow> ('db World, bool) run" where
  "profile_on sv c asked = (if asked then on_db (sv_startProfiling sv c) else ret False)"

definition profile_read :: "'db Server \<Rightarrow> nat \<Rightarrow> bool \<Rightarrow> ('db World, ProfileStage list) run" where
  "profile_read sv c on = (if on then
     bind (catch (on_db (sv_readProfile sv c)) (\<lambda>_. ret None)) (\<lambda>st. ret (case st of Some ss \<Rightarrow> ss | None \<Rightarrow> []))
   else ret [])"

definition browse_on ::
  "'db Server \<Rightarrow> Dialect \<Rightarrow> TableSchema \<Rightarrow> string \<Rightarrow> string \<Rightarrow> Params \<Rightarrow> string \<Rightarrow> Params \<Rightarrow> BrowseOptions
    \<Rightarrow> nat \<Rightarrow> ('db World, BrowseResult) run" where
  "browse_on sv d schema dataSql literalSql params countSql countParams opts c =
    bind (profile_on sv c (bo_profile opts)) (\<lambda>profiling.
    bind (conn_query sv c dataSql (pa_values params)) (\<lambda>data.
    bind (profile_read sv c profiling) (\<lambda>stages.
      let page = \<lambda>n kind. \<lparr>br_columns = rr_columns data, br_rows = rr_rows data, br_total = n, br_count = kind,
          br_keyKind = fst (resolveRowKey d schema), br_keyColumns = snd (resolveRowKey d schema),
          br_foreignKeys = tb_foreignKeys schema, br_referencedBy = tb_referencedBy schema,
          br_sql = dataSql, br_literal = literalSql, br_params = map param_cell (pa_values params), br_profile = stages\<rparr>;
        estimate = (if bo_filters opts = [] then tb_rowEstimate schema else None)
      in if countMode estimate = CountEstimate then ret (page estimate CountEstimate)
         else bind (conn_query sv c countSql (pa_values countParams)) (\<lambda>count.
           ret (case counted_total (cell_at (rr_rows count) 0 0) of (n, kind) \<Rightarrow> page n kind)))))"

definition browseRows ::
  "'db Server \<Rightarrow> Dialect \<Rightarrow> Namespace \<Rightarrow> string \<Rightarrow> BrowseOptions \<Rightarrow> ('db World, BrowseResult) run" where
  "browseRows sv d ns table opts =
    bind (describeTable sv ns table) (\<lambda>schema.
    bind (each (\<lambda>s. check_column schema (so_column s)) (bo_sort opts)) (\<lambda>_.
    bind (each (\<lambda>f. check_column schema (f_column f)) (bo_filters opts)) (\<lambda>_.
    bind (lift (quoteTable d ns table)) (\<lambda>tableSql.
    bind (lift (selectList d schema)) (\<lambda>columns.
    bind (lift (orderClause d schema tableSql (bo_sort opts))) (\<lambda>order.
    within (browseStatement d schema tableSql columns order opts) (new_params d False) (\<lambda>dataSql params.
    within (browseStatement d schema tableSql columns order opts) (new_params d True) (\<lambda>literalSql _.
    within (countStatement d schema tableSql opts) (new_params d False) (\<lambda>countSql countParams.
    withConn sv ns (browse_on sv d schema dataSql literalSql params countSql countParams opts) DEFAULT_TIMEOUT_MS)))))))))"

text \<open>
  The statement text is sent with its values apart.  The last two arguments of the count are the same pieces with the
  limit of an exact count.
\<close>

definition countRows :: "'db Server \<Rightarrow> Dialect \<Rightarrow> Namespace \<Rightarrow> string \<Rightarrow> ('db World, int option) run" where
  "countRows sv d ns table = withConn sv ns (\<lambda>c.
     bind (lift (quoteTable d ns table)) (\<lambda>t.
     bind (conn_query sv c (''SELECT COUNT(*) FROM '' @ t) []) (\<lambda>r.
       ret (case cell_at (rr_rows r) 0 0 of Some cell \<Rightarrow> cell_number cell | None \<Rightarrow> Some 0)))) DEFAULT_TIMEOUT_MS"

subsection \<open>Inserting\<close>

type_synonym RowValues = "(string \<times> WriteCell) list"

definition insertStatement :: "Dialect \<Rightarrow> Namespace \<Rightarrow> string \<Rightarrow> RowValues \<Rightarrow> bool \<Rightarrow> (Params, string) run" where
  "insertStatement d ns table values ignore =
    (let verb = (if d = Mysql \<and> ignore then ''INSERT IGNORE'' else ''INSERT'') in
     bind (lift (quoteTable d ns table)) (\<lambda>t.
     bind (if values = [] then
         ret (verb @ '' INTO '' @ t @ (if d = Mysql then '' () VALUES ()'' else '' DEFAULT VALUES''))
       else bind (lift (rmap (\<lambda>v. quoteIdent d (fst v)) values)) (\<lambda>names.
         bind (each (\<lambda>v. writeValue d (snd v)) values) (\<lambda>vals.
           ret (verb @ '' INTO '' @ t @ '' ('' @ join '', '' names @ '') VALUES ('' @ join '', '' vals @ '')'')))) (\<lambda>head.
       ret (if d = Postgres \<and> ignore then head @ '' ON CONFLICT DO NOTHING'' else head))))"

definition insertRow ::
  "'db Server \<Rightarrow> Dialect \<Rightarrow> Namespace \<Rightarrow> string \<Rightarrow> RowValues \<Rightarrow> bool \<Rightarrow> ('db World, int) run" where
  "insertRow sv d ns table values ignore =
    within (insertStatement d ns table values ignore) (new_params d False) (\<lambda>sql p.
    withConn sv ns (\<lambda>c. bind (conn_query sv c sql (pa_values p)) (\<lambda>r. ret (rr_affectedRows r))) DEFAULT_TIMEOUT_MS)"

definition insertPreview ::
  "Dialect \<Rightarrow> Namespace \<Rightarrow> string \<Rightarrow> RowValues \<Rightarrow> bool \<Rightarrow> (Thrown, string \<times> Cell list) result" where
  "insertPreview d ns table values ignore =
    (case insertStatement d ns table values ignore (new_params d False) of
       (Inl e, p) \<Rightarrow> Inl e
     | (Inr sql, p) \<Rightarrow> Inr (sql, map (\<lambda>v. case v of DbBytes bs \<Rightarrow> CBin (base64_encode bs) | DbCell c \<Rightarrow> c) (pa_values p)))"

definition chunkSize :: "nat \<Rightarrow> nat" where
  "chunkSize columnCount = max 1 (min 500 (30000 div max 1 columnCount))"

datatype OnDuplicate = DuplicateIgnore | DuplicateReplace

record InsertRowsOptions =
  io_overriding :: bool
  io_onDuplicate :: "OnDuplicate option"
  io_keyColumns :: "string list option"

definition key_columns :: "InsertRowsOptions \<Rightarrow> string list" where
  "key_columns opt = (case io_keyColumns opt of Some ks \<Rightarrow> ks | None \<Rightarrow> [])"

definition insertHead ::
  "Dialect \<Rightarrow> Namespace \<Rightarrow> string \<Rightarrow> string list \<Rightarrow> InsertRowsOptions \<Rightarrow> (AdapterError, string) result" where
  "insertHead d ns table columns opt =
    (let overriding = (if d = Postgres \<and> io_overriding opt then '' OVERRIDING SYSTEM VALUE'' else []);
         mysqlVerb = (case io_onDuplicate opt of Some DuplicateReplace \<Rightarrow> ''REPLACE''
           | Some DuplicateIgnore \<Rightarrow> ''INSERT IGNORE'' | None \<Rightarrow> ''INSERT'');
         verb = (if d = Mysql then mysqlVerb else ''INSERT'')
     in rbind (quoteTable d ns table) (\<lambda>t. rbind (rmap (quoteIdent d) columns) (\<lambda>cs.
       Inr (verb @ '' INTO '' @ t @ '' ('' @ join '', '' cs @ '')'' @ overriding @ '' VALUES ''))))"

definition insertTail :: "Dialect \<Rightarrow> string list \<Rightarrow> InsertRowsOptions \<Rightarrow> (AdapterError, string) result" where
  "insertTail d columns opt =
    (let rest = filter (\<lambda>c. c \<notin> set (key_columns opt)) columns in
     if d = Postgres \<and> io_onDuplicate opt = Some DuplicateReplace \<and> key_columns opt = []
     then Inl (AdapterError VALIDATION ''Replacing rows needs a primary key on the table'')
     else if d \<noteq> Postgres \<or> io_onDuplicate opt = None then Inr []
     else if io_onDuplicate opt = Some DuplicateIgnore \<or> rest = [] then Inr '' ON CONFLICT DO NOTHING''
     else rbind (rmap (quoteIdent d) (key_columns opt)) (\<lambda>ks.
       rbind (rmap (\<lambda>c. rbind (quoteIdent d c) (\<lambda>q. Inr (q @ '' = EXCLUDED.'' @ q))) rest) (\<lambda>rs.
         Inr ('' ON CONFLICT ('' @ join '', '' ks @ '') DO UPDATE SET '' @ join '', '' rs))))"

text \<open>The values of one row: a missing one is NULL, one past the columns is not sent.\<close>

definition row_value :: "Cell list \<Rightarrow> nat \<Rightarrow> Cell" where
  "row_value row j = (if j < length row then row ! j else CNull)"

definition valuesList :: "nat \<Rightarrow> Cell list list \<Rightarrow> (Params, string) run" where
  "valuesList n batch = bind (each (\<lambda>row. bind (each (\<lambda>j. add_cell (row_value row j)) [0..<n]) (\<lambda>vs.
     ret (''('' @ join '', '' vs @ '')''))) batch) (\<lambda>rows. ret (join '', '' rows))"

definition DUPLICATE_ENTRY :: int where "DUPLICATE_ENTRY = 1062"

definition MAX_INSERT_WARNINGS :: nat where "MAX_INSERT_WARNINGS = 20"

definition take_warning :: "string list \<Rightarrow> Cell list \<Rightarrow> string list" where
  "take_warning warnings w =
    (if (if 1 < length w then cell_number (w ! 1) else None) \<noteq> Some DUPLICATE_ENTRY \<and> length warnings < MAX_INSERT_WARNINGS
     then warnings @ [if 2 < length w then string_of (w ! 2) else ''undefined''] else warnings)"

text \<open>\<open>/\bat row (\d+)/i\<close>: the number the message names.\<close>

fun at_row :: "bool \<Rightarrow> string \<Rightarrow> nat option" where
  "at_row in_word [] = None"
| "at_row in_word (c # s) =
     (if \<not> in_word \<and> ci_prefix ''at row '' (c # s) \<and> takeWhile js_digit (drop 7 (c # s)) \<noteq> []
      then Some (read_nat (takeWhile js_digit (drop 7 (c # s)))) else at_row (js_word c) s)"

definition as_adapter_error :: "'db Server \<Rightarrow> Thrown \<Rightarrow> AdapterError" where
  "as_adapter_error sv e = (case e of Adapter a \<Rightarrow> a | Adapter_rows a i j \<Rightarrow> a | Plain_error m \<Rightarrow> sv_toAdapterError sv m)"

text \<open>Where the rows of a failed statement stand in the input: the row the server names, or the whole batch.\<close>

definition failed_rows :: "'db Server \<Rightarrow> nat \<Rightarrow> nat \<Rightarrow> Thrown \<Rightarrow> Thrown" where
  "failed_rows sv offset batch err =
    (let e = as_adapter_error sv err in
     case at_row False (err_message e) of
       Some n \<Rightarrow> Adapter_rows e (int offset + int n - 1) (int offset + int n - 1)
     | None \<Rightarrow> Adapter_rows e (int offset) (int offset + int batch - 1))"

lemma chunkSize_pos: "0 < chunkSize n"
  by (simp add: chunkSize_def)

function insert_from ::
  "'db Server \<Rightarrow> Dialect \<Rightarrow> string \<Rightarrow> string \<Rightarrow> nat \<Rightarrow> bool \<Rightarrow> nat \<Rightarrow> Cell list list \<Rightarrow> nat \<Rightarrow> int \<Rightarrow> string list
    \<Rightarrow> ('db World, int \<times> string list) run" where
  "insert_from sv d head tail n warn c rows offset affected warnings =
    (if rows = [] then ret (affected, warnings)
     else let batch = take (chunkSize n) rows in
       within (valuesList n batch) (new_params d False) (\<lambda>values p.
       bind (catch
           (bind (conn_query sv c (head @ values @ tail) (pa_values p)) (\<lambda>r.
              if warn then bind (conn_query sv c ''SHOW WARNINGS'' []) (\<lambda>w.
                ret (affected + rr_affectedRows r, foldl take_warning warnings (rr_rows w)))
              else ret (affected + rr_affectedRows r, warnings)))
           (\<lambda>err. raise (failed_rows sv offset (length batch) err))) (\<lambda>so_far.
       insert_from sv d head tail n warn c (drop (chunkSize n) rows) (offset + length batch) (fst so_far) (snd so_far))))"
  by pat_completeness auto

termination
  by (relation "measure (\<lambda>(sv, d, head, tail, n, warn, c, rows, offset, affected, warnings). length rows)")
    (auto simp: chunkSize_pos)

declare insert_from.simps [simp del]

definition insertRows ::
  "'db Server \<Rightarrow> Dialect \<Rightarrow> Namespace \<Rightarrow> string \<Rightarrow> string list \<Rightarrow> Cell list list \<Rightarrow> InsertRowsOptions
    \<Rightarrow> ('db World, int \<times> string list) run" where
  "insertRows sv d ns table columns rows opt =
    (if columns = [] then raise (Adapter (AdapterError QUERY_FAILED ''insertRows requires at least one column''))
     else bind (lift (insertHead d ns table columns opt)) (\<lambda>head.
       bind (lift (insertTail d columns opt)) (\<lambda>tail.
       if rows = [] then ret (0, [])
       else withTransaction sv ns (\<lambda>c. insert_from sv d head tail (length columns)
         (d = Mysql \<and> io_onDuplicate opt = Some DuplicateIgnore) c rows 0 0 []))))"

subsection \<open>Updating and deleting\<close>

definition row_limit :: "Dialect \<Rightarrow> RowKey \<Rightarrow> string" where
  "row_limit d key = (case key of KeyAll vs \<Rightarrow> if d = Mysql then '' LIMIT 1'' else [] | _ \<Rightarrow> [])"

definition expect_one :: "string \<Rightarrow> int \<Rightarrow> ('s, int) run" where
  "expect_one verb n =
    (if n \<noteq> 1 then raise (Adapter (AdapterError KEY_MISMATCH (''Expected to '' @ verb @ '' exactly 1 row but matched ''
       @ (if n < 0 then ''-'' @ show_nat (nat (- n)) else show_nat (nat n)) @ ''; rolled back'')))
     else ret n)"

definition setClause :: "Dialect \<Rightarrow> RowValues \<Rightarrow> (Params, string) run" where
  "setClause d values = bind (each (\<lambda>v. bind (lift (quoteIdent d (fst v))) (\<lambda>q.
     bind (writeValue d (snd v)) (\<lambda>x. ret (q @ '' = '' @ x)))) values) (\<lambda>parts. ret (join '', '' parts))"

definition updateRow ::
  "'db Server \<Rightarrow> Dialect \<Rightarrow> Namespace \<Rightarrow> string \<Rightarrow> RowKey \<Rightarrow> RowValues \<Rightarrow> ('db World, int) run" where
  "updateRow sv d ns table key values =
    (if values = [] then ret 0
     else within (setClause d values) (new_params d False) (\<lambda>assignments p.
       bind (keyColumnTypes sv d ns table) (\<lambda>types.
       within (buildKeyWhere (hooks d) key types) p (\<lambda>wh p'.
       bind (lift (quoteTable d ns table)) (\<lambda>t.
       withTransaction sv ns (\<lambda>c.
         bind (conn_query sv c (''UPDATE '' @ t @ '' SET '' @ assignments @ wh @ row_limit d key) (pa_values p')) (\<lambda>r.
           expect_one ''update'' (rr_affectedRows r))))))))"

definition deleteStatement ::
  "Dialect \<Rightarrow> Namespace \<Rightarrow> string \<Rightarrow> (string \<Rightarrow> string option) \<Rightarrow> RowKey \<Rightarrow> (Params, string) run" where
  "deleteStatement d ns table types key =
    bind (buildKeyWhere (hooks d) key types) (\<lambda>wh. bind (lift (quoteTable d ns table)) (\<lambda>t.
      ret (''DELETE FROM '' @ t @ wh @ row_limit d key)))"

definition deleteRows ::
  "'db Server \<Rightarrow> Dialect \<Rightarrow> Namespace \<Rightarrow> string \<Rightarrow> RowKey list \<Rightarrow> ('db World, int) run" where
  "deleteRows sv d ns table keys =
    bind (keyColumnTypes sv d ns table) (\<lambda>types.
    withTransaction sv ns (\<lambda>c.
      bind (each (\<lambda>key. within (deleteStatement d ns table types key) (new_params d False) (\<lambda>sql p.
        bind (conn_query sv c sql (pa_values p)) (\<lambda>r. expect_one ''delete'' (rr_affectedRows r)))) keys) (\<lambda>ns.
      ret (sum_list ns))))"

subsection \<open>One value, whole\<close>

definition READ_CELL_MAX_BYTES :: int where "READ_CELL_MAX_BYTES = 64 * 1024 * 1024"

definition measured_as_is :: "string \<Rightarrow> bool" where
  "measured_as_is dataType \<longleftrightarrow>
    (\<exists>w \<in> set [''bytea'', ''bit'', ''text'', ''character'', ''varchar'']. word_prefix w (to_lower dataType))"

definition one_row :: "nat \<Rightarrow> ('s, unit) run" where
  "one_row n = (if n \<noteq> 1 then raise (Adapter (AdapterError KEY_MISMATCH (''Expected exactly 1 row but matched '' @ show_nat n)))
     else ret ())"

definition readCell ::
  "'db Server \<Rightarrow> Dialect \<Rightarrow> Namespace \<Rightarrow> string \<Rightarrow> RowKey \<Rightarrow> string \<Rightarrow> ('db World, Cell) run" where
  "readCell sv d ns table key column =
    bind (describeTable sv ns table) (\<lambda>schema.
    case List.find (\<lambda>c. co_name c = column) (tb_columns schema) of
      None \<Rightarrow> raise (Adapter (AdapterError NOT_FOUND (''Unknown column: '' @ column)))
    | Some def \<Rightarrow> bind (keyColumnTypes sv d ns table) (\<lambda>types.
        within (buildKeyWhere (hooks d) key types) (new_params d False) (\<lambda>wh p.
        bind (lift (quoteIdent d column)) (\<lambda>col.
        bind (lift (quoteTable d ns table)) (\<lambda>t.
        let measured = (if d = Postgres \<and> \<not> measured_as_is (co_dataType def) then col @ ''::text'' else col) in
        withConn sv ns (\<lambda>c.
          bind (conn_query sv c (''SELECT OCTET_LENGTH('' @ measured @ '') FROM '' @ t @ wh @ '' LIMIT 2'') (pa_values p)) (\<lambda>sized.
          bind (one_row (length (rr_rows sized))) (\<lambda>_.
          bind (case (case cell_at (rr_rows sized) 0 0 of Some x \<Rightarrow> cell_number x | None \<Rightarrow> Some 0) of
              Some n \<Rightarrow> if n > READ_CELL_MAX_BYTES
                then raise (Adapter (AdapterError VALIDATION (''The value is larger than 67108864 bytes''))) else ret ()
            | None \<Rightarrow> ret ()) (\<lambda>_.
          bind (conn_query sv c (''SELECT '' @ col @ '' FROM '' @ t @ wh @ '' LIMIT 2'') (pa_values p)) (\<lambda>r.
          bind (one_row (length (rr_rows r))) (\<lambda>_.
            ret (case cell_at (rr_rows r) 0 0 of Some x \<Rightarrow> x | None \<Rightarrow> CNull))))))) DEFAULT_TIMEOUT_MS)))))"

end
