(* ===== verification/Row_Facts.thy ===== *)
theory Row_Facts
  imports Rows
begin

text \<open>
  What the row operations promise: the statement shown is the one that ran, an update or a delete changes exactly the
  rows it addresses or nothing, a bulk insert sends every row once and in order within the limits of a statement.
\<close>

subsection \<open>The statement shown is the statement that ran\<close>

lemma templated_number [templated_intros]: "templated d (add_value (number_value n))"
  by (rule templated_value) (simp add: number_value_def)

lemma templated_before: "templated d m \<Longrightarrow> templated d m' \<Longrightarrow> templated d (bind m (\<lambda>x. bind m' (\<lambda>y. ret (x @ b @ y))))"
  using templated_two [where a = "[]" and c = "[]"] by simp

lemma templated_browse: "templated d (browseStatement d schema tableSql columns order opts)"
proof -
  let ?w = "buildWhere (hooks d) (bo_filters opts) (column_types schema)"
  let ?l = "add_value (number_value (if bo_limit opts = 0 then BROWSE_ALL_MAX else bo_limit opts))"
  let ?o = "add_value (number_value (if bo_limit opts = 0 then 0 else bo_offset opts))"
  let ?s = "''SELECT '' @ join '', '' columns @ '' FROM '' @ tableSql"
  have tail: "templated d (bind ?l (\<lambda>x. bind ?o (\<lambda>y. ret ((order @ '' LIMIT '') @ x @ '' OFFSET '' @ y @ []))))"
    by (intro templated_two templated_number)
  have "browseStatement d schema tableSql columns order opts = bind ?w (\<lambda>wh. bind
      (bind ?l (\<lambda>x. bind ?o (\<lambda>y. ret ((order @ '' LIMIT '') @ x @ '' OFFSET '' @ y @ [])))) (\<lambda>z. ret (?s @ wh @ [] @ z @ [])))"
    by (simp add: browseStatement_def bind_assoc run_simps)
  then show ?thesis by (simp only: templated_two [OF templated_where tail])
qed

text \<open>
  C16: the statement of a page and the one shown for editing are the same text around the same values: where the first
  has the placeholders of the values it is sent with, numbered in order, the second has those values as literals; and
  both fail alike.
\<close>

theorem browse_literal_is_statement:
  "case (browseStatement d schema t cols order opts (new_params d False),
         browseStatement d schema t cols order opts (new_params d True)) of
     ((Inl e, p), (Inl e', p')) \<Rightarrow> e = e'
   | ((Inr sql, p), (Inr literal, p')) \<Rightarrow> (\<exists>ps tail. sql = fill (\<lambda>i v. placeholder d i) 1 ps @ tail
       \<and> literal = fill (\<lambda>i v. value_literal d v) 1 ps @ tail \<and> pa_values p = map snd ps)
   | _ \<Rightarrow> False"
proof -
  let ?m = "browseStatement d schema t cols order opts"
  have at: "new_params d lit = params_at d lit []" for lit by (simp add: new_params_def params_at_def)
  from templated_browse [of d] consider e where "\<And>lit. fst (?m (params_at d lit [])) = Inl e"
    | ps tail where "same_template d [] ?m ps tail"
    unfolding templated_def same_error_def by blast
  then show ?thesis
  proof cases
    case 1
    then obtain p p' where "?m (params_at d False []) = (Inl e, p)" and "?m (params_at d True []) = (Inl e, p')"
      by (metis prod.collapse)
    then show ?thesis unfolding at by simp
  next
    case 2
    have sh: "shown d False = (\<lambda>i v. placeholder d i)" "shown d True = (\<lambda>i v. value_literal d v)"
      by (simp_all add: shown_def fun_eq_iff)
    from 2 have "?m (params_at d lit []) = (Inr (fill (shown d lit) 1 ps @ tail), params_at d lit (map snd ps))" for lit
      by (simp add: same_template_def)
    then show ?thesis unfolding at sh [symmetric] by (auto simp: params_at_def)
  qed
qed

subsection \<open>Changes to the addressed rows or none\<close>

text \<open>A transaction that sent these statements, each with its count, and committed.\<close>

definition transaction_log :: "ConnEvent list \<Rightarrow> (string \<times> DbValue list \<times> int) list \<Rightarrow> ConnEvent list \<Rightarrow> bool" where
  "transaction_log log stmts log' \<longleftrightarrow> (\<exists>c pre b m. (pre = [] \<or> (\<exists>ms. pre = [TimeoutSet c ms]))
     \<and> log' = log @ Took c # pre @ Sent c ''BEGIN'' [] (Some b)
         # map (\<lambda>(s, p, n). Sent c s p (Some n)) stmts @ [Sent c ''COMMIT'' [] (Some m), Gave c])"

lemma committed_log:
  assumes "talked (in_transaction (\<lambda>r es. \<not> isl r \<longrightarrow> (\<exists>stmts. es = map (\<lambda>(s, p, n). (s, p, Some n)) stmts \<and> Q (projr r) stmts)))
      log (Inr x) log'"
  shows "\<exists>stmts. transaction_log log stmts log' \<and> Q x stmts"
proof -
  let ?Q = "\<lambda>r es. \<not> isl r \<longrightarrow> (\<exists>stmts. es = map (\<lambda>(s, p, n). (s, p, Some n)) stmts \<and> Q (projr r) stmts)"
  from assms obtain c ms pre es where es: "in_transaction ?Q (Inr x) es" and pre: "pre \<in> {[], [TimeoutSet c ms]}"
    and log: "log' = log @ Took c # pre @ map (\<lambda>(s, p, n). Sent c s p n) es @ [Gave c]"
    unfolding talked_def by auto
  from es obtain b body m where body: "?Q (Inr x) body" and "es = (''BEGIN'', [], Some b) # body @ [(''COMMIT'', [], Some m)]"
    unfolding in_transaction_def by auto
  moreover from body obtain stmts where "body = map (\<lambda>(s, p, n). (s, p, Some n)) stmts" and q: "Q x stmts" by auto
  ultimately have "log' = log @ Took c # pre @ Sent c ''BEGIN'' [] (Some b)
      # map (\<lambda>(s, p, n). Sent c s p (Some n)) stmts @ [Sent c ''COMMIT'' [] (Some m), Gave c]"
    using log by (simp add: comp_def split_beta)
  with pre q show ?thesis unfolding transaction_log_def by blast
qed

definition addressed :: "string \<Rightarrow> string \<Rightarrow> bool" where
  "addressed start sql \<longleftrightarrow> (\<exists>target conditions. sql = start @ target @ '' WHERE '' @ conditions)"

lemma key_where_prefix: "buildKeyWhere h key types p = (Inr wh, p') \<Longrightarrow> \<exists>cs. wh = '' WHERE '' @ cs"
  by (cases key) (auto simp: bind_Inr ret_def raise_def split: if_splits)

lemma sends_one:
  "sends c (bind (conn_query sv c sql ps) (\<lambda>r. expect_one verb (rr_affectedRows r)))
     (\<lambda>r es. \<not> isl r \<longrightarrow> projr r = 1 \<and> es = [(sql, ps, Some 1)])"
  by (rule sends_bind [OF sends_query [where Q = "\<lambda>r es. es = [(sql, ps, if isl r then None else Some (rr_affectedRows (projr r)))]"]])
    (auto simp: expect_one_def intro!: sends_ret sends_raise)

lemma kept_expect [kept_intros]: "kept cm op c (expect_one verb n)"
  by (auto simp: expect_one_def intro: kept_intros)

lemma types_quiet:
  assumes "keyColumnTypes sv d ns table w = (r, w')"
  shows "wo_log w' = wo_log w" and "transactional sv cm op \<Longrightarrow> cm (wo_db w') = cm (wo_db w)"
  using assms
  by (auto simp: keyColumnTypes_def describeTable_def on_db_def bind_def ret_def transactional_def
      split: if_splits prod.splits sum.splits) (metis snd_conv)+

lemma within_Inr: "within m p f s = (Inr y, s') \<longleftrightarrow> (\<exists>x p'. m p = (Inr x, p') \<and> f x p' s = (Inr y, s'))"
  by (auto simp: within_def raise_def split: prod.splits sum.splits)

lemma within_Inl: "within m p f s = (Inl e, s') \<longleftrightarrow>
    (\<exists>p'. m p = (Inl e, p') \<and> s' = s) \<or> (\<exists>x p'. m p = (Inr x, p') \<and> f x p' s = (Inl e, s'))"
  by (auto simp: within_def raise_def split: prod.splits sum.splits)

lemma lift_Inr: "lift m s = (Inr y, s') \<longleftrightarrow> m = Inr y \<and> s' = s"
  by (cases m) (auto simp: run_defs)

lemma lift_Inl: "lift m s = (Inl e, s') \<longleftrightarrow> (\<exists>a. m = Inl a \<and> e = Adapter a \<and> s' = s)"
  by (cases m) (auto simp: run_defs)

text \<open>Runs that leave the committed data alone, always or when they throw.\<close>

definition quiet :: "('db \<Rightarrow> 'd) \<Rightarrow> ('db World, 'a) run \<Rightarrow> bool" where
  "quiet cm m \<longleftrightarrow> (\<forall>w r w'. m w = (r, w') \<longrightarrow> cm (wo_db w') = cm (wo_db w))"

definition unharmed :: "('db \<Rightarrow> 'd) \<Rightarrow> ('db World, 'a) run \<Rightarrow> bool" where
  "unharmed cm m \<longleftrightarrow> (\<forall>w e w'. m w = (Inl e, w') \<longrightarrow> cm (wo_db w') = cm (wo_db w))"

named_theorems unharmed_intros \<open>runs that change nothing when they throw\<close>

lemma unharmed_simple [unharmed_intros]: "unharmed cm (ret x)" "unharmed cm (raise e)"
  by (auto simp: unharmed_def ret_def raise_def)

lemma unharmed_bind [unharmed_intros]: "quiet cm m \<Longrightarrow> (\<And>x. unharmed cm (f x)) \<Longrightarrow> unharmed cm (bind m f)"
  unfolding unharmed_def quiet_def bind_Inl by metis

lemma unharmed_lift [unharmed_intros]: "(\<And>x. unharmed cm (f x)) \<Longrightarrow> unharmed cm (bind (lift r) f)"
  by (rule unharmed_bind) (auto simp: quiet_def lift_def ret_def raise_def split: sum.splits)

lemma unharmed_within [unharmed_intros]: "(\<And>x p. unharmed cm (f x p)) \<Longrightarrow> unharmed cm (within m q f)"
  unfolding unharmed_def within_Inl by metis

lemma unharmed_transaction [unharmed_intros]:
  "transactional sv cm op \<Longrightarrow> (\<And>c. kept cm op c (fn c)) \<Longrightarrow> unharmed cm (withTransaction sv ns fn)"
  unfolding unharmed_def by (metis transaction_all_or_nothing)

lemma quiet_types [unharmed_intros]: "transactional sv cm op \<Longrightarrow> quiet cm (keyColumnTypes sv d ns table)"
  unfolding quiet_def using types_quiet(2) by blast

lemma updateRow_unharmed:
  assumes "transactional sv cm op"
  shows "unharmed cm (updateRow sv d ns table key values)"
  using assms unfolding updateRow_def
  by (auto intro!: unharmed_intros kept_intros simp: data_statement_def)

text \<open>
  C4: an update changes exactly the one row its key addresses or nothing: when it returns, its transaction sent one
  UPDATE with a condition, which the server said matched one row, and committed it (nothing is sent when there is
  nothing to set); when it throws, whatever the server answered on the way, the committed data is as before.
\<close>

theorem updateRow_one_row:
  assumes "transactional sv committed opened" and "updateRow sv d ns table key values w = (r, w')"
  shows "case r of
      Inl e \<Rightarrow> committed (wo_db w') = committed (wo_db w)
    | Inr n \<Rightarrow> if values = [] then n = 0 \<and> w' = w
        else n = 1 \<and> (\<exists>sql ps. addressed ''UPDATE '' sql \<and> transaction_log (wo_log w) [(sql, ps, 1)] (wo_log w'))"
proof (cases "values = []")
  case True
  with assms(2) show ?thesis by (auto simp: updateRow_def ret_def)
next
  case False
  show ?thesis
  proof (cases r)
    case (Inr n)
    with assms(2) False obtain a p types w1 wh p' t where types: "keyColumnTypes sv d ns table w = (Inr types, w1)"
      and wh: "buildKeyWhere (hooks d) key types p = (Inr wh, p')"
      and tx: "withTransaction sv ns (\<lambda>c. bind (conn_query sv c (''UPDATE '' @ t @ '' SET '' @ a @ wh @ row_limit d key)
        (pa_values p')) (\<lambda>r. expect_one ''update'' (rr_affectedRows r))) w1 = (Inr n, w')"
      by (auto simp: updateRow_def within_Inr bind_Inr lift_Inr)
    obtain cs where cs: "wh = '' WHERE '' @ cs" using key_where_prefix [OF wh] by blast
    define sql where "sql = ''UPDATE '' @ t @ '' SET '' @ a @ wh @ row_limit d key"
    have "addressed ''UPDATE '' sql" unfolding addressed_def sql_def cs
      by (intro exI [of _ "t @ '' SET '' @ a"] exI [of _ "cs @ row_limit d key"]) simp
    moreover have "talked (in_transaction (\<lambda>r es. \<not> isl r \<longrightarrow> (\<exists>stmts. es = map (\<lambda>(s, p, n). (s, p, Some n)) stmts
        \<and> projr r = 1 \<and> stmts = [(sql, pa_values p', 1)]))) (wo_log w1) (Inr n) (wo_log w')"
      by (rule withTransaction_talked [OF sends_weaken [OF sends_one] tx [folded sql_def]]) auto
    then have "n = 1 \<and> transaction_log (wo_log w1) [(sql, pa_values p', 1)] (wo_log w')"
      using committed_log [where Q = "\<lambda>x stmts. x = 1 \<and> stmts = [(sql, pa_values p', 1)]"] by blast
    ultimately show ?thesis using Inr False types_quiet(1) [OF types] by auto
  next
    case (Inl e)
    with updateRow_unharmed [OF assms(1)] assms(2) show ?thesis by (auto simp: unharmed_def)
  qed
qed

definition deletes :: "Dialect \<Rightarrow> Namespace \<Rightarrow> string \<Rightarrow> (string \<Rightarrow> string option) \<Rightarrow> RowKey
    \<Rightarrow> string \<times> DbValue list \<times> int \<Rightarrow> bool" where
  "deletes d ns table types key st \<longleftrightarrow> snd (snd st) = 1 \<and> addressed ''DELETE FROM '' (fst st)
     \<and> (\<exists>p. deleteStatement d ns table types key (new_params d False) = (Inr (fst st), p) \<and> pa_values p = fst (snd st))"

lemma delete_addressed: "deleteStatement d ns table types key p = (Inr sql, p') \<Longrightarrow> addressed ''DELETE FROM '' sql"
proof -
  assume "deleteStatement d ns table types key p = (Inr sql, p')"
  then obtain wh p1 t where "buildKeyWhere (hooks d) key types p = (Inr wh, p1)"
    and sql: "sql = ''DELETE FROM '' @ t @ wh @ row_limit d key"
    by (auto simp: deleteStatement_def bind_Inr lift_Inr ret_def)
  then obtain cs where "wh = '' WHERE '' @ cs" using key_where_prefix by blast
  with sql show ?thesis unfolding addressed_def by (intro exI [of _ t] exI [of _ "cs @ row_limit d key"]) simp
qed

lemma sends_delete:
  "sends c (within (deleteStatement d ns table types key) (new_params d False) (\<lambda>sql p.
      bind (conn_query sv c sql (pa_values p)) (\<lambda>r. expect_one ''delete'' (rr_affectedRows r))))
    (\<lambda>r es. \<not> isl r \<longrightarrow> projr r = 1 \<and> (\<exists>st. deletes d ns table types key st \<and> es = [(fst st, fst (snd st), Some (snd (snd st)))]))"
proof (cases "deleteStatement d ns table types key (new_params d False)")
  case (Pair r p)
  show ?thesis
  proof (cases r)
    case (Inl e)
    with Pair show ?thesis by (simp add: within_def sends_raise)
  next
    case (Inr sql)
    then have "deletes d ns table types key (sql, pa_values p, 1)"
      using Pair delete_addressed by (auto simp: deletes_def)
    with Pair Inr show ?thesis
      by (auto simp: within_def intro!: sends_weaken [OF sends_one] exI [of _ "(sql, pa_values p, 1)"])
  qed
qed

lemma sends_deletes:
  "sends c (each (\<lambda>key. within (deleteStatement d ns table types key) (new_params d False) (\<lambda>sql p.
      bind (conn_query sv c sql (pa_values p)) (\<lambda>r. expect_one ''delete'' (rr_affectedRows r)))) keys)
    (\<lambda>r es. \<not> isl r \<longrightarrow> projr r = replicate (length keys) 1
      \<and> (\<exists>stmts. list_all2 (deletes d ns table types) keys stmts \<and> es = map (\<lambda>(s, p, n). (s, p, Some n)) stmts))"
proof (induction keys)
  case Nil
  then show ?case by (auto intro: sends_ret)
next
  case (Cons key keys)
  show ?case
    unfolding each.simps
  proof (rule sends_bind [OF sends_delete], simp, rule sends_bind [OF Cons.IH], simp, rule sends_ret)
    fix x :: int and ys :: "int list" and es es' :: "(string \<times> DbValue list \<times> int option) list"
    assume "\<not> isl (Inr x) \<longrightarrow> projr (Inr x) = 1 \<and> (\<exists>st. deletes d ns table types key st \<and> es = [(fst st, fst (snd st), Some (snd (snd st)))])"
      and "\<not> isl (Inr ys) \<longrightarrow> projr (Inr ys) = replicate (length keys) 1
      \<and> (\<exists>stmts. list_all2 (deletes d ns table types) keys stmts \<and> es' = map (\<lambda>(s, p, n). (s, p, Some n)) stmts)"
    then obtain st stmts where "x = 1" "deletes d ns table types key st" "es = [(fst st, fst (snd st), Some (snd (snd st)))]"
      "ys = replicate (length keys) 1" "list_all2 (deletes d ns table types) keys stmts"
      "es' = map (\<lambda>(s, p, n). (s, p, Some n)) stmts" by auto
    then show "\<not> isl (Inr (x # ys)) \<longrightarrow> projr (Inr (x # ys)) = replicate (length (key # keys)) 1
      \<and> (\<exists>stmts. list_all2 (deletes d ns table types) (key # keys) stmts
          \<and> es @ es' @ [] = map (\<lambda>(s, p, n). (s, p, Some n)) stmts)"
      by (auto intro!: exI [of _ "st # stmts"] simp: split_beta)
  qed
qed

lemma sum_ones: "sum_list (replicate n (1::int)) = int n"
  by (induction n) auto

lemma kept_each: "(\<And>x. kept cm op c (f x)) \<Longrightarrow> kept cm op c (each f xs)"
proof (induction xs)
  case (Cons x xs)
  from Cons.IH Cons.prems have "kept cm op c (each f xs)" by blast
  with Cons.prems show ?case unfolding each.simps by (intro kept_bind kept_ret)
qed (simp add: kept_ret)

lemma kept_deletes:
  assumes "transactional sv cm op"
  shows "kept cm op c (bind (each (\<lambda>key. within (deleteStatement d ns table types key) (new_params d False) (\<lambda>sql p.
        bind (conn_query sv c sql (pa_values p)) (\<lambda>r. expect_one ''delete'' (rr_affectedRows r)))) keys) (\<lambda>ns. ret (sum_list ns)))"
proof -
  have "kept cm op c (within (deleteStatement d ns table types key) (new_params d False) (\<lambda>sql p.
        bind (conn_query sv c sql (pa_values p)) (\<lambda>r. expect_one ''delete'' (rr_affectedRows r))))" for key
  proof (cases "deleteStatement d ns table types key (new_params d False)")
    case (Pair r p)
    show ?thesis
    proof (cases r)
      case (Inr sql)
      with Pair obtain t cs where "sql = ''DELETE FROM '' @ t @ '' WHERE '' @ cs"
        using delete_addressed unfolding addressed_def by blast
      then have "data_statement sql" by (simp add: data_statement_def)
      with assms Pair Inr show ?thesis by (auto simp: within_def intro!: kept_intros)
    qed (use Pair in \<open>simp add: within_def kept_raise\<close>)
  qed
  then have "kept cm op c (each (\<lambda>key. within (deleteStatement d ns table types key) (new_params d False) (\<lambda>sql p.
        bind (conn_query sv c sql (pa_values p)) (\<lambda>r. expect_one ''delete'' (rr_affectedRows r)))) keys)"
    by (rule kept_each)
  then show ?thesis by (intro kept_bind kept_ret)
qed

text \<open>
  C3: a delete of rows removes exactly the rows its keys address or nothing: when it returns, its transaction sent one
  DELETE with a condition for each key, in order, each of which matched one row, and committed them; when it throws,
  the committed data is as before.
\<close>

theorem deleteRows_all_or_nothing:
  assumes "transactional sv committed opened" and "deleteRows sv d ns table keys w = (r, w')"
  shows "case r of
      Inl e \<Rightarrow> committed (wo_db w') = committed (wo_db w)
    | Inr n \<Rightarrow> n = int (length keys) \<and> (\<exists>types stmts. list_all2 (deletes d ns table types) keys stmts
        \<and> transaction_log (wo_log w) stmts (wo_log w'))"
proof (cases r)
  case (Inr n)
  with assms(2) obtain types w1 where types: "keyColumnTypes sv d ns table w = (Inr types, w1)"
    and tx: "withTransaction sv ns (\<lambda>c. bind (each (\<lambda>key. within (deleteStatement d ns table types key) (new_params d False) (\<lambda>sql p.
        bind (conn_query sv c sql (pa_values p)) (\<lambda>r. expect_one ''delete'' (rr_affectedRows r)))) keys) (\<lambda>ns.
      ret (sum_list ns))) w1 = (Inr n, w')"
    by (auto simp: deleteRows_def bind_Inr)
  let ?Q = "\<lambda>x stmts. x = int (length keys) \<and> list_all2 (deletes d ns table types) keys stmts"
  have "talked (in_transaction (\<lambda>r es. \<not> isl r \<longrightarrow> (\<exists>stmts. es = map (\<lambda>(s, p, n). (s, p, Some n)) stmts \<and> ?Q (projr r) stmts)))
      (wo_log w1) (Inr n) (wo_log w')"
    by (rule withTransaction_talked [OF sends_bind [OF sends_deletes] tx]) (auto intro!: sends_ret simp: sum_ones)
  from committed_log [OF this] types_quiet(1) [OF types] Inr show ?thesis by auto
next
  case (Inl e)
  have "unharmed committed (deleteRows sv d ns table keys)"
    unfolding deleteRows_def using assms(1) by (intro unharmed_intros kept_deletes)
  with Inl assms(2) show ?thesis by (auto simp: unharmed_def)
qed

text \<open>A server that counts changes: those committed, those of the open transaction, and whether one is open.\<close>

definition counting_query :: "nat \<Rightarrow> string \<Rightarrow> DbValue list \<Rightarrow> (nat \<times> nat \<times> bool, QueryResponse) run" where
  "counting_query c sql ps db = (case db of (saved, made, opened) \<Rightarrow>
     (Inr (One (no_result\<lparr>rr_affectedRows := 1\<rparr>)),
      if sql = ''BEGIN'' then (saved, saved, True)
      else if sql = ''COMMIT'' then (made, made, False)
      else if sql = ''ROLLBACK'' then (saved, saved, False)
      else if opened then (saved, made + 1, opened) else (saved + 1, made + 1, opened)))"

definition counting_server :: "(nat \<times> nat \<times> bool) Server" where
  "counting_server = \<lparr>sv_acquire = (\<lambda>ns. ret 7), sv_setTimeout = (\<lambda>c ms. ret ()), sv_query = counting_query,
     sv_release = (\<lambda>c db. db), sv_forget = (\<lambda>c db. db), sv_startProfiling = (\<lambda>c. ret False),
     sv_readProfile = (\<lambda>c. ret None),
     sv_describe = (\<lambda>ns t. raise (Adapter (AdapterError NOT_FOUND t))),
     sv_toAdapterError = AdapterError QUERY_FAILED\<rparr>"

definition counting_world :: "(nat \<times> nat \<times> bool) World" where
  "counting_world = \<lparr>wo_db = (0, 0, False), wo_applied = Map.empty, wo_log = []\<rparr>"

lemma counting_transactional: "transactional counting_server fst (\<lambda>c db. snd (snd db))"
  by (auto simp: transactional_def counting_server_def counting_query_def data_statement_def ret_def raise_def split: prod.splits)

lemmas run_unfolds = keyColumnTypes_def withTransaction_def withConn_def borrow_def acquire_def bind_def ret_def raise_def
  on_db_def log_event_def set_applied_def setStatementTimeout_def catch_def finally_do_def release_def conn_query_def
  within_def lift_def no_result_def expect_one_def DEFAULT_TIMEOUT_MS_def
  counting_server_def counting_world_def counting_query_def

lemmas text_unfolds = add_value_def add_param_def new_params_def quoteTable_def quoteIdent_def

theorem deleteRows_all_or_nothing_witness:
  "let ns = \<lparr>ns_database = ''d'', ns_schema = None\<rparr>; keys = [KeyCtid ''(0,1)'', KeyCtid ''(0,2)''];
       out = deleteRows counting_server Postgres ns ''t'' keys counting_world
   in fst out = Inr 2 \<and> (\<exists>types stmts. list_all2 (deletes Postgres ns ''t'' types) keys stmts
        \<and> transaction_log [] stmts (wo_log (snd out)))"
proof -
  define ns where "ns = \<lparr>ns_database = ''d'', ns_schema = None\<rparr>"
  define keys where "keys = [KeyCtid ''(0,1)'', KeyCtid ''(0,2)'']"
  let ?out = "deleteRows counting_server Postgres ns ''t'' keys counting_world"
  have two: "fst ?out = Inr 2"
    by (simp add: ns_def keys_def deleteRows_def deleteStatement_def run_unfolds text_unfolds)
  obtain r w' where run: "?out = (r, w')" by (cases ?out)
  from deleteRows_all_or_nothing [OF counting_transactional run] two run
  have "\<exists>types stmts. list_all2 (deletes Postgres ns ''t'' types) keys stmts \<and> transaction_log (wo_log counting_world) stmts (wo_log w')"
    by simp
  with two run show ?thesis unfolding Let_def ns_def keys_def by (simp add: counting_world_def)
qed

theorem updateRow_one_row_witness:
  "let out = updateRow counting_server Postgres \<lparr>ns_database = ''d'', ns_schema = None\<rparr> ''t'' (KeyCtid ''(0,1)'')
         [(''a'', PlainCell (CString ''x''))] counting_world
   in fst out = Inr 1 \<and> (\<exists>sql ps. addressed ''UPDATE '' sql \<and> transaction_log [] [(sql, ps, 1)] (wo_log (snd out)))"
proof -
  let ?out = "updateRow counting_server Postgres \<lparr>ns_database = ''d'', ns_schema = None\<rparr> ''t'' (KeyCtid ''(0,1)'')
         [(''a'', PlainCell (CString ''x''))] counting_world"
  have one: "fst ?out = Inr 1"
    by (simp add: updateRow_def setClause_def add_cell_def run_unfolds text_unfolds)
  obtain r w' where run: "?out = (r, w')" by (cases ?out)
  from updateRow_one_row [OF counting_transactional run] one run
  have "\<exists>sql ps. addressed ''UPDATE '' sql \<and> transaction_log (wo_log counting_world) [(sql, ps, 1)] (wo_log w')" by simp
  with one run show ?thesis unfolding Let_def by (simp add: counting_world_def)
qed

subsection \<open>A bulk insert\<close>

definition db_value :: "Cell \<Rightarrow> DbValue" where
  "db_value c = (case c of CBin b \<Rightarrow> DbBytes (base64_decode b) | _ \<Rightarrow> DbCell c)"

definition batch_values :: "nat \<Rightarrow> Cell list list \<Rightarrow> DbValue list" where
  "batch_values n batch = concat (map (\<lambda>row. map (\<lambda>j. db_value (row_value row j)) [0..<n]) batch)"

lemma add_cell_values: "add_cell c p = (Inr t, p') \<Longrightarrow> pa_values p' = pa_values p @ [db_value c]"
  by (cases c) (auto simp: add_cell_def add_value_def add_param_def run_defs db_value_def Let_def split: sum.splits prod.splits)

lemma each_values:
  assumes "\<And>x p t p'. f x p = (Inr t, p') \<Longrightarrow> pa_values p' = pa_values p @ g x"
  shows "each f xs p = (Inr ts, p') \<Longrightarrow> pa_values p' = pa_values p @ concat (map g xs)"
  by (induction xs arbitrary: p ts) (auto simp: bind_Inr ret_def dest!: assms)

lemma concat_single: "concat (map (\<lambda>x. [f x]) xs) = map f xs"
  by (induction xs) auto

lemma valuesList_values: "valuesList n batch p = (Inr t, p') \<Longrightarrow> pa_values p' = pa_values p @ batch_values n batch"
proof -
  assume "valuesList n batch p = (Inr t, p')"
  then obtain ts where e: "each (\<lambda>row. bind (each (\<lambda>j. add_cell (row_value row j)) [0..<n]) (\<lambda>vs.
      ret (''('' @ join '', '' vs @ '')''))) batch p = (Inr ts, p')"
    by (auto simp: valuesList_def bind_Inr ret_def)
  have "pa_values q' = pa_values q @ map (\<lambda>j. db_value (row_value row j)) [0..<n]"
    if "bind (each (\<lambda>j. add_cell (row_value row j)) [0..<n]) (\<lambda>vs. ret (''('' @ join '', '' vs @ '')'')) q = (Inr t, q')" for row q t q'
    using that each_values [where g = "\<lambda>j. [db_value (row_value row j)]", OF add_cell_values]
    by (fastforce simp: bind_Inr ret_def concat_single)
  from each_values [where g = "\<lambda>row. map (\<lambda>j. db_value (row_value row j)) [0..<n]", OF this e]
  show ?thesis by (simp add: batch_values_def)
qed

lemma batch_values_length: "length (batch_values n batch) = length batch * n"
  by (induction batch) (simp_all add: batch_values_def)

text \<open>A batch the code sends in one statement: some rows, at most 500, and no more values than a statement may bind.\<close>

definition sendable :: "nat \<Rightarrow> Cell list list \<Rightarrow> bool" where
  "sendable n batch \<longleftrightarrow> batch \<noteq> [] \<and> length batch \<le> 500 \<and> length batch * n \<le> max 30000 n"

lemma chunk_sendable:
  assumes "rows \<noteq> []"
  shows "sendable n (take (chunkSize n) rows)"
proof -
  let ?b = "take (chunkSize n) rows"
  have "length ?b \<le> chunkSize n" by simp
  then have "length ?b * n \<le> chunkSize n * n" by (rule mult_right_mono) simp
  also have "chunkSize n * n \<le> max 30000 n"
  proof (cases "n = 0 \<or> 30000 div n = 0")
    case True
    then show ?thesis by (auto simp: chunkSize_def max_def)
  next
    case False
    then have "chunkSize n \<le> 30000 div n" by (auto simp: chunkSize_def max_def)
    then have "chunkSize n * n \<le> 30000 div n * n" by (rule mult_right_mono) simp
    also have "\<dots> \<le> 30000" by simp
    finally show ?thesis by simp
  qed
  finally have "length ?b * n \<le> max 30000 n" .
  moreover have "length ?b \<le> 500" using le_trans [OF \<open>length ?b \<le> chunkSize n\<close>, of 500] by (simp add: chunkSize_def)
  moreover have "?b \<noteq> []" using assms chunkSize_pos [of n] by simp
  ultimately show ?thesis unfolding sendable_def by blast
qed

definition inserted :: "Dialect \<Rightarrow> string \<Rightarrow> string \<Rightarrow> nat \<Rightarrow> Cell list list \<Rightarrow> string \<times> DbValue list \<times> int \<Rightarrow> bool" where
  "inserted d head tail n batch st \<longleftrightarrow> fst (snd st) = batch_values n batch
     \<and> (\<exists>values p. valuesList n batch (new_params d False) = (Inr values, p) \<and> fst st = head @ values @ tail)"

text \<open>The statements of a bulk insert, the warnings read back between them left out.\<close>

definition insert_statements :: "(string \<times> DbValue list \<times> int) list \<Rightarrow> (string \<times> DbValue list \<times> int) list" where
  "insert_statements = filter (\<lambda>st. fst st \<noteq> ''SHOW WARNINGS'')"

definition insert_head :: "string \<Rightarrow> bool" where
  "insert_head head \<longleftrightarrow> prefix ''INSERT '' head \<or> prefix ''REPLACE '' head"

lemma insert_head_text: "insert_head head \<Longrightarrow> head @ s \<noteq> ''SHOW WARNINGS'' \<and> data_statement (head @ s)"
  by (auto simp: insert_head_def data_statement_def prefix_def)

lemma insertHead_head: "insertHead d ns table columns opt = Inr head \<Longrightarrow> insert_head head"
  by (auto simp: insertHead_def insert_head_def Let_def rbind_eq_Inr split: option.splits OnDuplicate.splits if_splits)

definition batch_run ::
  "'db Server \<Rightarrow> string \<Rightarrow> string \<Rightarrow> bool \<Rightarrow> nat \<Rightarrow> nat \<Rightarrow> nat \<Rightarrow> int \<Rightarrow> string list \<Rightarrow> string \<Rightarrow> Params
    \<Rightarrow> ('db World, int \<times> string list) run" where
  "batch_run sv head tail warn c offset k affected warnings values p =
     catch (bind (conn_query sv c (head @ values @ tail) (pa_values p)) (\<lambda>r.
              if warn then bind (conn_query sv c ''SHOW WARNINGS'' []) (\<lambda>w.
                ret (affected + rr_affectedRows r, foldl take_warning warnings (rr_rows w)))
              else ret (affected + rr_affectedRows r, warnings)))
           (\<lambda>err. raise (failed_rows sv offset k err))"

lemma insert_from_unfold:
  "insert_from sv d head tail n warn c rows offset affected warnings =
    (if rows = [] then ret (affected, warnings)
     else within (valuesList n (take (chunkSize n) rows)) (new_params d False) (\<lambda>values p.
       bind (batch_run sv head tail warn c offset (length (take (chunkSize n) rows)) affected warnings values p) (\<lambda>so_far.
       insert_from sv d head tail n warn c (drop (chunkSize n) rows) (offset + length (take (chunkSize n) rows))
         (fst so_far) (snd so_far))))"
  by (subst insert_from.simps) (simp add: batch_run_def Let_def)

lemma sends_batch:
  assumes "insert_head head"
  shows "sends c (batch_run sv head tail warn c offset k affected warnings values p) (\<lambda>r es. \<not> isl r \<longrightarrow>
    (\<exists>m stmts. es = map (\<lambda>(s, p, n). (s, p, Some n)) stmts \<and> insert_statements stmts = [(head @ values @ tail, pa_values p, m)]))"
proof -
  let ?q = "\<lambda>sql ps r es. es = [(sql, ps, if isl r then None else Some (rr_affectedRows (projr r)))]"
  have other: "head @ values @ tail \<noteq> ''SHOW WARNINGS''" using insert_head_text [OF assms] by blast
  have body: "sends c (bind (conn_query sv c (head @ values @ tail) (pa_values p)) (\<lambda>r.
              if warn then bind (conn_query sv c ''SHOW WARNINGS'' []) (\<lambda>w.
                ret (affected + rr_affectedRows r, foldl take_warning warnings (rr_rows w)))
              else ret (affected + rr_affectedRows r, warnings)))
     (\<lambda>r es. \<not> isl r \<longrightarrow>
    (\<exists>m stmts. es = map (\<lambda>(s, p, n). (s, p, Some n)) stmts \<and> insert_statements stmts = [(head @ values @ tail, pa_values p, m)]))"
  proof (rule sends_bind [OF sends_query [where Q = "?q (head @ values @ tail) (pa_values p)"]], simp, simp, simp)
    fix x and es :: "(string \<times> DbValue list \<times> int option) list"
    assume "?q (head @ values @ tail) (pa_values p) (Inr x) es"
    then have es: "es = map (\<lambda>(s, p, n). (s, p, Some n)) [(head @ values @ tail, pa_values p, rr_affectedRows x)]" by simp
    show "sends c (if warn then bind (conn_query sv c ''SHOW WARNINGS'' []) (\<lambda>w.
                ret (affected + rr_affectedRows x, foldl take_warning warnings (rr_rows w)))
              else ret (affected + rr_affectedRows x, warnings)) (\<lambda>r es'. \<not> isl r \<longrightarrow>
      (\<exists>m stmts. es @ es' = map (\<lambda>(s, p, n). (s, p, Some n)) stmts
        \<and> insert_statements stmts = [(head @ values @ tail, pa_values p, m)]))"
    proof (cases warn)
      case True
      have "sends c (bind (conn_query sv c ''SHOW WARNINGS'' []) (\<lambda>w.
                ret (affected + rr_affectedRows x, foldl take_warning warnings (rr_rows w)))) (\<lambda>r es'. \<not> isl r \<longrightarrow>
      (\<exists>m stmts. es @ es' = map (\<lambda>(s, p, n). (s, p, Some n)) stmts
        \<and> insert_statements stmts = [(head @ values @ tail, pa_values p, m)]))"
      proof (rule sends_bind [OF sends_query [where Q = "?q ''SHOW WARNINGS'' []"]], simp, simp, simp, rule sends_ret)
        fix y and es2 :: "(string \<times> DbValue list \<times> int option) list"
        assume "?q ''SHOW WARNINGS'' [] (Inr y) es2"
        then show "\<not> isl (Inr (affected + rr_affectedRows x, foldl take_warning warnings (rr_rows y)) :: (Thrown, int \<times> string list) result) \<longrightarrow>
          (\<exists>m stmts. es @ es2 @ [] = map (\<lambda>(s, p, n). (s, p, Some n)) stmts
            \<and> insert_statements stmts = [(head @ values @ tail, pa_values p, m)])"
          using es other
          by (intro impI exI [of _ "rr_affectedRows x"]
              exI [of _ "[(head @ values @ tail, pa_values p, rr_affectedRows x), (''SHOW WARNINGS'', [], rr_affectedRows y)]"])
            (simp add: insert_statements_def)
      qed
      with True show ?thesis by simp
    next
      case False
      with es other show ?thesis
        by (auto simp: insert_statements_def intro!: sends_ret exI [of _ "rr_affectedRows x"]
            exI [of _ "[(head @ values @ tail, pa_values p, rr_affectedRows x)]"])
    qed
  qed
  show ?thesis unfolding batch_run_def
    by (rule sends_catch [OF body]) (auto intro: sends_raise)
qed

lemma sends_insert:
  assumes "insert_head head"
  shows "sends c (insert_from sv d head tail n warn c rows offset affected warnings) (\<lambda>r es. \<not> isl r \<longrightarrow>
    (\<exists>batches stmts. es = map (\<lambda>(s, p, n). (s, p, Some n)) stmts \<and> concat batches = rows
      \<and> list_all (sendable n) batches \<and> list_all2 (inserted d head tail n) batches (insert_statements stmts)))"
proof (induction "length rows" arbitrary: rows offset affected warnings rule: less_induct)
  case less
  show ?case
  proof (cases "rows = []")
    case True
    then show ?thesis unfolding insert_from_unfold [of sv d head tail n warn c rows]
      by (auto intro!: sends_ret exI [of _ "[]"] simp: insert_statements_def)
  next
    case False
    let ?b = "take (chunkSize n) rows"
    show ?thesis
    proof (cases "valuesList n ?b (new_params d False)")
      case (Pair v p)
      show ?thesis
      proof (cases v)
        case (Inl e)
        with False Pair show ?thesis unfolding insert_from_unfold [of sv d head tail n warn c rows]
          by (auto simp: within_def intro!: sends_raise)
      next
        case (Inr vals)
        have ps: "pa_values p = batch_values n ?b"
          using valuesList_values [of n ?b] Pair Inr by (auto simp: new_params_def)
        have ins: "inserted d head tail n ?b (head @ vals @ tail, pa_values p, m)" for m
          using Pair Inr ps by (auto simp: inserted_def)
        have rest: "length (drop (chunkSize n) rows) < length rows" using False chunkSize_pos [of n] by simp
        show ?thesis
          unfolding insert_from_unfold [of sv d head tail n warn c rows]
          using False Pair Inr
          apply (simp add: within_def)
          apply (rule sends_bind [OF sends_batch [OF assms]])
           apply simp
          apply (rule sends_weaken [OF less [OF rest]])
          subgoal premises prems for so_far es r es'
          proof
            assume r: "\<not> isl r"
            from prems(4) obtain m stmts where a: "es = map (\<lambda>(s, p, n). (s, p, Some n)) stmts"
              "insert_statements stmts = [(head @ vals @ tail, pa_values p, m)]" by auto
            from prems(5) r obtain batches stmts' where b: "es' = map (\<lambda>(s, p, n). (s, p, Some n)) stmts'"
              "concat batches = drop (chunkSize n) rows" "list_all (sendable n) batches"
              "list_all2 (inserted d head tail n) batches (insert_statements stmts')" by auto
            show "\<exists>batches stmts. es @ es' = map (\<lambda>(s, p, n). (s, p, Some n)) stmts \<and> concat batches = rows
              \<and> list_all (sendable n) batches \<and> list_all2 (inserted d head tail n) batches (insert_statements stmts)"
              using a b chunk_sendable [OF False, of n] ins
              by (intro exI [of _ "?b # batches"] exI [of _ "stmts @ stmts'"]) (simp add: insert_statements_def)
          qed
          done
      qed
    qed
  qed
qed

text \<open>Which errors a run can throw.\<close>

definition throws :: "(Thrown \<Rightarrow> bool) \<Rightarrow> ('s, 'a) run \<Rightarrow> bool" where
  "throws E m \<longleftrightarrow> (\<forall>w e w'. m w = (Inl e, w') \<longrightarrow> E e)"

named_theorems throws_intros \<open>what the combinators throw\<close>

lemma throws_ret [throws_intros]: "throws E (ret x)"
  by (simp add: throws_def ret_def)

lemma throws_raise [throws_intros]: "E e \<Longrightarrow> throws E (raise e)"
  by (simp add: throws_def raise_def)

lemma throws_bind [throws_intros]: "throws E m \<Longrightarrow> (\<And>x. throws E (f x)) \<Longrightarrow> throws E (bind m f)"
  unfolding throws_def bind_Inl by blast

lemma throws_catch [throws_intros]: "(\<And>e. throws E (h e)) \<Longrightarrow> throws E (catch m h)"
  by (auto simp: throws_def catch_def split: prod.splits sum.splits)

lemma throws_finally: "throws E m \<Longrightarrow> throws E (finally_do m (release sv c))"
  by (auto simp: throws_def finally_do_def release_def split: prod.splits)

lemma throws_on_db: "throws E m \<Longrightarrow> throws E (on_db m)"
  by (auto simp: throws_def on_db_def split: prod.splits)

lemma throws_quiet [throws_intros]: "throws E (log_event e)" "throws E (set_applied c ms)" "throws E (release sv c)"
  by (auto simp: throws_def log_event_def set_applied_def release_def)

lemma throws_query: "throws E (sv_query sv c sql ps) \<Longrightarrow> throws E (conn_query sv c sql ps)"
  unfolding throws_def conn_query_def by (auto split: prod.splits sum.splits)

text \<open>
  What a server documents of its errors: they name no input rows, and a row a message names is a row of the statement,
  counted from one.
\<close>

definition names_rows :: "'db Server \<Rightarrow> nat \<Rightarrow> bool" where
  "names_rows sv n \<longleftrightarrow>
     (\<forall>ns. throws (\<lambda>e. \<forall>a i j. e \<noteq> Adapter_rows a i j) (sv_acquire sv ns))
   \<and> (\<forall>c ms. throws (\<lambda>e. \<forall>a i j. e \<noteq> Adapter_rows a i j) (sv_setTimeout sv c ms))
   \<and> (\<forall>c sql ps. throws (\<lambda>e. (\<forall>a i j. e \<noteq> Adapter_rows a i j)
       \<and> (\<forall>k. at_row False (err_message (as_adapter_error sv e)) = Some k \<longrightarrow> 1 \<le> k \<and> (k - 1) * n < length ps))
       (sv_query sv c sql ps))"

definition row_range :: "int \<Rightarrow> int \<Rightarrow> Thrown \<Rightarrow> bool" where
  "row_range lo hi e \<longleftrightarrow> (case e of Adapter_rows a i j \<Rightarrow> lo \<le> i \<and> i \<le> j \<and> j < hi | _ \<Rightarrow> True)"

lemma row_range_mono: "row_range lo hi e \<Longrightarrow> lo' \<le> lo \<Longrightarrow> hi \<le> hi' \<Longrightarrow> row_range lo' hi' e"
  by (auto simp: row_range_def split: Thrown.splits)

lemma throws_weaken: "throws E m \<Longrightarrow> (\<And>e. E e \<Longrightarrow> E' e) \<Longrightarrow> throws E' m"
  unfolding throws_def by blast

lemma failed_rows_range:
  assumes "0 < k" and "\<And>m. at_row False (err_message (as_adapter_error sv err)) = Some m \<Longrightarrow> 1 \<le> m \<and> m - 1 < k"
  shows "row_range (int offset) (int (offset + k)) (failed_rows sv offset k err)"
proof (cases "at_row False (err_message (as_adapter_error sv err))")
  case None
  with assms(1) show ?thesis by (simp add: failed_rows_def row_range_def Let_def)
next
  case (Some m)
  with assms(2) [OF this] show ?thesis by (auto simp: failed_rows_def row_range_def Let_def)
qed

lemma throws_rethrow: "throws E m \<Longrightarrow> (\<And>e. E e \<Longrightarrow> E' (h e)) \<Longrightarrow> throws E' (catch m (\<lambda>e. raise (h e)))"
  by (auto simp: throws_def catch_def raise_def split: prod.splits sum.splits)

lemma throws_each [throws_intros]: "(\<And>x. throws E (f x)) \<Longrightarrow> throws E (each f xs)"
proof (induction xs)
  case (Cons x xs)
  from Cons.IH Cons.prems have "throws E (each f xs)" by blast
  with Cons.prems show ?case unfolding each.simps by (intro throws_bind throws_ret)
qed (simp add: throws_ret)

lemma throws_cell [throws_intros]: "(\<And>a. E (Adapter a)) \<Longrightarrow> (\<And>m. E (Plain_error m)) \<Longrightarrow> throws E (add_cell c)"
  by (cases "toDbValue c")
    (auto simp: add_cell_def throws_def run_simps raise_def add_value_def split: prod.splits sum.splits)

lemma throws_values: "throws (row_range lo hi) (valuesList n batch)"
  unfolding valuesList_def by (intro throws_intros) (auto simp: row_range_def)

definition row_of :: "'db Server \<Rightarrow> nat \<Rightarrow> Thrown \<Rightarrow> bool" where
  "row_of sv k e \<longleftrightarrow> (\<forall>m. at_row False (err_message (as_adapter_error sv e)) = Some m \<longrightarrow> 1 \<le> m \<and> m - 1 < k)"

lemma throws_batch:
  assumes "names_rows sv n" and "0 < k" and "length (pa_values p) = k * n"
  shows "throws (row_range (int offset) (int (offset + k))) (batch_run sv head tail warn c offset k affected warnings values p)"
proof -
  have q: "throws (row_of sv k) (conn_query sv c sql ps)" if "length ps = k * n \<or> ps = []" for sql ps
  proof (rule throws_query, rule throws_weaken)
    show "throws (\<lambda>e. (\<forall>a i j. e \<noteq> Adapter_rows a i j)
       \<and> (\<forall>k. at_row False (err_message (as_adapter_error sv e)) = Some k \<longrightarrow> 1 \<le> k \<and> (k - 1) * n < length ps)) (sv_query sv c sql ps)"
      using assms(1) by (simp add: names_rows_def)
  qed (use that in \<open>auto simp: row_of_def\<close>)
  show ?thesis
    unfolding batch_run_def
  proof (rule throws_rethrow [where E = "row_of sv k"])
    show "throws (row_of sv k) (bind (conn_query sv c (head @ values @ tail) (pa_values p)) (\<lambda>r.
              if warn then bind (conn_query sv c ''SHOW WARNINGS'' []) (\<lambda>w.
                ret (affected + rr_affectedRows r, foldl take_warning warnings (rr_rows w)))
              else ret (affected + rr_affectedRows r, warnings)))"
      by (cases warn) (simp_all add: throws_bind q throws_ret assms(3))
  next
    fix e assume "row_of sv k e"
    then show "row_range (int offset) (int (offset + k)) (failed_rows sv offset k e)"
      by (intro failed_rows_range assms(2)) (simp add: row_of_def)
  qed
qed

lemma throws_insert:
  assumes "names_rows sv n"
  shows "throws (row_range (int offset) (int (offset + length rows))) (insert_from sv d head tail n warn c rows offset affected warnings)"
proof (induction "length rows" arbitrary: rows offset affected warnings rule: less_induct)
  case less
  show ?case
  proof (cases "rows = []")
    case True
    then show ?thesis by (simp add: insert_from_unfold throws_ret)
  next
    case False
    let ?b = "take (chunkSize n) rows"
    have k: "0 < length ?b" "length (drop (chunkSize n) rows) < length rows" "length ?b + length (drop (chunkSize n) rows) = length rows"
      using False chunkSize_pos [of n] by auto
    show ?thesis
    proof (cases "valuesList n ?b (new_params d False)")
      case (Pair v p)
      show ?thesis
      proof (cases v)
        case (Inl e)
        then have "row_range (int offset) (int (offset + length rows)) e"
          using Pair throws_values unfolding throws_def by blast
        with Inl Pair False show ?thesis by (simp add: insert_from_unfold [of sv d head tail n warn c rows] within_def throws_raise)
      next
        case (Inr vals)
        have "pa_values p = batch_values n ?b" using valuesList_values [of n ?b] Pair Inr by (auto simp: new_params_def)
        then have "length (pa_values p) = length ?b * n" by (simp only: batch_values_length)
        from throws_batch [OF assms k(1) this]
        have first: "throws (row_range (int offset) (int (offset + length rows)))
            (batch_run sv head tail warn c offset (length ?b) affected warnings vals p)"
          by (rule throws_weaken) (erule row_range_mono, simp, use k(3) in linarith)
        have "throws (row_range (int offset) (int (offset + length rows))) (insert_from sv d head tail n warn c
            (drop (chunkSize n) rows) (offset + length ?b) a ws)" for a ws
          by (rule throws_weaken [OF less [OF k(2)]]) (erule row_range_mono, simp, use k(3) in linarith)
        with first Pair Inr False show ?thesis
          by (auto simp: insert_from_unfold [of sv d head tail n warn c rows] within_def intro!: throws_intros)
      qed
    qed
  qed
qed

lemma throws_transaction:
  assumes sv: "names_rows sv n" and fn: "\<And>c. throws (row_range 0 hi) (fn c)"
  shows "throws (row_range 0 hi) (withTransaction sv ns fn)"
proof -
  have plain: "(\<forall>a i j. e \<noteq> Adapter_rows a i j) \<Longrightarrow> row_range 0 hi e" for e by (cases e) (auto simp: row_range_def)
  have a: "throws (row_range 0 hi) (sv_acquire sv ns)"
    by (rule throws_weaken [OF _ plain]) (use sv in \<open>simp_all add: names_rows_def\<close>)
  have t: "throws (row_range 0 hi) (sv_setTimeout sv c ms)" for c ms
    by (rule throws_weaken [OF _ plain]) (use sv in \<open>simp_all add: names_rows_def\<close>)
  have q: "throws (row_range 0 hi) (sv_query sv c sql ps)" for c sql ps
  proof (rule throws_weaken)
    show "throws (\<lambda>e. (\<forall>a i j. e \<noteq> Adapter_rows a i j)
       \<and> (\<forall>k. at_row False (err_message (as_adapter_error sv e)) = Some k \<longrightarrow> 1 \<le> k \<and> (k - 1) * n < length ps)) (sv_query sv c sql ps)"
      using sv by (simp add: names_rows_def)
  qed (simp add: plain)
  from a t q have acquire: "throws (row_range 0 hi) (acquire sv ns)"
    and timeout: "\<And>c ms. throws (row_range 0 hi) (setStatementTimeout sv c ms)"
    and query: "\<And>c sql ps. throws (row_range 0 hi) (conn_query sv c sql ps)"
    by (auto simp: acquire_def setStatementTimeout_def intro!: throws_intros throws_on_db throws_query)
  have again: "throws E (\<lambda>w. if b w then m w else m' w)" if "throws E m" "throws E m'" for E b and m m' :: "('x, 'y) run"
    using that by (simp add: throws_def)
  have rethrow: "throws E (catch m h)" if "throws E m" "\<And>e. E e \<Longrightarrow> throws E (h e)" for E and m :: "('x, 'y) run" and h
    unfolding throws_def
  proof (intro allI impI)
    fix w e w'
    assume c: "catch m h w = (Inl e, w')"
    then obtain e1 w1 where "m w = (Inl e1, w1)" "h e1 w1 = (Inl e, w')"
      by (auto simp: catch_def split: prod.splits sum.splits)
    with that show "E e" unfolding throws_def by blast
  qed
  have borrow: "throws (row_range 0 hi) (borrow sv ns ms)" for ms
    unfolding borrow_def
    by (intro throws_bind acquire again rethrow timeout throws_intros) assumption
  show ?thesis
    unfolding withTransaction_def withConn_def
    by (intro throws_bind borrow throws_finally query rethrow fn throws_intros) assumption
qed

lemma kept_batch: "transactional sv cm op \<Longrightarrow> insert_head head \<Longrightarrow>
    kept cm op c (batch_run sv head tail warn c offset k affected warnings values p)"
  using insert_head_text [of head] unfolding batch_run_def
  by (auto intro!: kept_intros simp: data_statement_def [of "''SHOW WARNINGS''"])

lemma kept_insert:
  assumes "transactional sv cm op" and "insert_head head"
  shows "kept cm op c (insert_from sv d head tail n warn c rows offset affected warnings)"
proof (induction "length rows" arbitrary: rows offset affected warnings rule: less_induct)
  case less
  show ?case
  proof (cases "rows = []")
    case False
    then have "length (drop (chunkSize n) rows) < length rows" using chunkSize_pos [of n] by simp
    from less [OF this] False show ?thesis
      unfolding insert_from_unfold [of sv d head tail n warn c rows]
      by (auto intro!: kept_within kept_bind kept_batch assms)
  qed (simp add: insert_from_unfold kept_ret)
qed



end
