(* ===== verification/Search.thy ===== *)
theory Search
  imports Row_Facts
begin

text \<open>
  Searching a table and the values of a column: the type filter of \<open>packages/adapter/src/sql/search.ts\<close>, and
  \<open>searchTable\<close> and \<open>distinctValues\<close> of \<open>packages/adapter/src/base.ts\<close>.
\<close>

subsection \<open>Types that are searched\<close>

text \<open>\<open>(?:\[\])*$\<close>, and \<open>(?:\(.*\))?\<close> before it.\<close>

fun brackets_to_end :: "string \<Rightarrow> bool" where
  "brackets_to_end [] = True"
| "brackets_to_end [c] = False"
| "brackets_to_end (a # b # s) = (a = CHR ''['' \<and> b = CHR '']'' \<and> brackets_to_end s)"

fun closes_then_brackets :: "string \<Rightarrow> bool" where
  "closes_then_brackets [] = False"
| "closes_then_brackets (c # s) =
     ((c = CHR '')'' \<and> brackets_to_end s) \<or> (c \<noteq> CHR 0x0A \<and> c \<noteq> CHR 0x0D \<and> closes_then_brackets s))"

definition typmod_to_end :: "string \<Rightarrow> bool" where
  "typmod_to_end s \<longleftrightarrow> brackets_to_end s \<or> (s \<noteq> [] \<and> hd s = CHR ''('' \<and> closes_then_brackets (tl s))"

definition after_quote :: "string \<Rightarrow> string list" where
  "after_quote s = s # (if s \<noteq> [] \<and> hd s = CHR 0x22 then [tl s] else [])"

definition postgis_name :: "string \<Rightarrow> bool" where
  "postgis_name s \<longleftrightarrow> (\<exists>r \<in> set (after_quote s). \<exists>w \<in> set [''geometry'', ''geography'', ''raster''].
     prefix w r \<and> (\<exists>q \<in> set (after_quote (drop (length w) r)). typmod_to_end q))"

fun after_dots :: "string \<Rightarrow> string list" where
  "after_dots [] = []"
| "after_dots (c # s) = (if c = CHR ''.'' then [s] else []) @ after_dots s"

fun UNSEARCHABLE_TYPE :: "Dialect \<Rightarrow> string \<Rightarrow> bool" where
  "UNSEARCHABLE_TYPE Mysql t = (\<exists>w \<in> set [''blob'', ''tinyblob'', ''mediumblob'', ''longblob'', ''binary'', ''varbinary'',
     ''bit'', ''vector'', ''point'', ''linestring'', ''polygon'', ''multipoint'', ''multilinestring'', ''multipolygon'',
     ''geometry'', ''geometrycollection'', ''geomcollection'']. word_prefix w (to_lower t))"
| "UNSEARCHABLE_TYPE Postgres t = (prefix ''bytea'' (to_lower t) \<and> brackets_to_end (drop 5 t)
     \<or> (\<exists>s \<in> set (to_lower t # after_dots (to_lower t)). postgis_name s))"

definition isSearchableType :: "Dialect \<Rightarrow> string \<Rightarrow> bool" where
  "isSearchableType d dataType \<longleftrightarrow> \<not> UNSEARCHABLE_TYPE d dataType"

subsection \<open>Searching a table\<close>

datatype SearchMode = SearchPhrase | SearchAny | SearchAll | SearchRegexp

text \<open>\<open>term.split(/\s+/)\<close> without its empty pieces.\<close>

fun words_from :: "string \<Rightarrow> string \<Rightarrow> string list" where
  "words_from w [] = (if w = [] then [] else [rev w])"
| "words_from w (c # s) = (if js_space c then (if w = [] then [] else [rev w]) @ words_from [] s else words_from (c # w) s)"

definition search_words :: "SearchMode \<Rightarrow> string \<Rightarrow> string list" where
  "search_words mode query = (if mode = SearchAny \<or> mode = SearchAll then words_from [] query else [query])"

definition search_columns :: "Dialect \<Rightarrow> TableSchema \<Rightarrow> string option \<Rightarrow> string list" where
  "search_columns d schema only =
    (let wanted = (case only of Some s \<Rightarrow> to_lower (trim s) | None \<Rightarrow> []) in
     map co_name (filter (\<lambda>c. isSearchableType d (co_dataType c) \<and> (wanted = [] \<or> has_sub (to_lower (co_name c)) wanted)) (tb_columns schema)))"

definition text_form :: "Dialect \<Rightarrow> string \<Rightarrow> (AdapterError, string) result" where
  "text_form d c = rbind (quoteIdent d c) (\<lambda>q. Inr (if d = Mysql then ''CAST('' @ q @ '' AS CHAR)'' else q @ ''::text''))"

definition match_one ::
  "Dialect \<Rightarrow> SearchMode \<Rightarrow> (string \<Rightarrow> ('s, string) run) \<Rightarrow> string \<Rightarrow> string \<Rightarrow> ('s, string) run" where
  "match_one d mode bnd w c = bind (lift (text_form d c)) (\<lambda>t.
     if mode = SearchRegexp then
       bind (bnd w) (\<lambda>p. ret (t @ '' '' @ (if d = Mysql then ''REGEXP'' else ''~*'') @ '' '' @ p))
     else bind (bnd (''%'' @ escapeLike w @ ''%'')) (\<lambda>p.
       ret (t @ '' '' @ (if d = Mysql then ''LIKE'' else ''ILIKE'') @ '' '' @ p @ '' ESCAPE '' @ [sq] @ ''!'' @ [sq])))"

definition search_match ::
  "Dialect \<Rightarrow> SearchMode \<Rightarrow> string list \<Rightarrow> string list \<Rightarrow> (string \<Rightarrow> ('s, string) run) \<Rightarrow> ('s, string) run" where
  "search_match d mode ws columns bnd =
    bind (each (\<lambda>w. bind (each (match_one d mode bnd w) columns) (\<lambda>cs. ret (''('' @ join '' OR '' cs @ '')''))) ws) (\<lambda>perWord.
      ret (join (if mode = SearchAll then '' AND '' else '' OR '') perWord))"

record TableSearchResult =
  sr_total :: "int option"
  sr_count :: CountKind
  sr_columns :: "string list"
  sr_sql :: string
  sr_deleteSql :: string

definition bound_text :: "string \<Rightarrow> (Params, string) run" where
  "bound_text v = add_value (DbCell (CString v))"

definition search_count :: "Dialect \<Rightarrow> SearchMode \<Rightarrow> string list \<Rightarrow> string list \<Rightarrow> string \<Rightarrow> (Params, string) run" where
  "search_count d mode ws columns tableSql =
    bind (search_match d mode ws columns bound_text) (\<lambda>wh.
    bind (add_value (number_value (nat (EXACT_COUNT_MAX_ROWS + 1)))) (\<lambda>limit.
      ret (''SELECT COUNT(*) FROM (SELECT 1 FROM '' @ tableSql @ '' WHERE '' @ wh @ '' LIMIT '' @ limit
        @ '') AS tsmyadmin_search'')))"

definition searchTable ::
  "'db Server \<Rightarrow> Dialect \<Rightarrow> Namespace \<Rightarrow> string \<Rightarrow> string \<Rightarrow> SearchMode \<Rightarrow> string option
    \<Rightarrow> ('db World, TableSearchResult) run" where
  "searchTable sv d ns table query mode only =
    bind (describeTable sv ns table) (\<lambda>schema.
    let columns = search_columns d schema only; ws = search_words mode query in
    if columns = [] then ret \<lparr>sr_total = Some 0, sr_count = CountExact, sr_columns = [], sr_sql = [], sr_deleteSql = []\<rparr>
    else bind (lift (quoteTable d ns table)) (\<lambda>tableSql.
      within (search_count d mode ws columns tableSql) (new_params d False) (\<lambda>countSql p.
      within (search_match d mode ws columns (\<lambda>v. ret (quoteLiteral d v))) () (\<lambda>literalWhere _.
      withConn sv ns (\<lambda>c.
        bind (conn_query sv c countSql (pa_values p)) (\<lambda>r.
        let counted = (case cell_at (rr_rows r) 0 0 of Some x \<Rightarrow> cell_number x | None \<Rightarrow> Some 0);
            bounded = (case counted of Some n \<Rightarrow> n > EXACT_COUNT_MAX_ROWS | None \<Rightarrow> False)
        in ret \<lparr>sr_total = (if bounded then Some EXACT_COUNT_MAX_ROWS else counted),
             sr_count = (if bounded then CountLowerBound else CountExact), sr_columns = columns,
             sr_sql = ''SELECT * FROM '' @ tableSql @ '' WHERE '' @ literalWhere,
             sr_deleteSql = ''DELETE FROM '' @ tableSql @ '' WHERE '' @ literalWhere\<rparr>)) DEFAULT_TIMEOUT_MS))))"

subsection \<open>The values of a column\<close>

definition distinct_statement :: "string \<Rightarrow> string \<Rightarrow> (Params, string) run" where
  "distinct_statement col tableSql = bind (add_value (number_value (DISTINCT_VALUES_LIMIT + 1))) (\<lambda>limit.
     ret (''SELECT '' @ col @ '', COUNT(*) AS n FROM '' @ tableSql @ '' GROUP BY '' @ col @ '' ORDER BY n DESC, '' @ col
       @ '' LIMIT '' @ limit))"

definition distinctValues ::
  "'db Server \<Rightarrow> Dialect \<Rightarrow> Namespace \<Rightarrow> string \<Rightarrow> string \<Rightarrow> ('db World, (Cell \<times> int option) list \<times> bool) run" where
  "distinctValues sv d ns table column =
    bind (describeTable sv ns table) (\<lambda>schema.
    bind (check_column schema column) (\<lambda>_.
    bind (lift (quoteIdent d column)) (\<lambda>col.
    bind (lift (quoteTable d ns table)) (\<lambda>tableSql.
    within (distinct_statement col tableSql) (new_params d False) (\<lambda>sql p.
    withConn sv ns (\<lambda>c. bind (conn_query sv c sql (pa_values p)) (\<lambda>r.
      ret (map (\<lambda>row. (if row = [] then CNull else row ! 0, if 1 < length row then cell_number (row ! 1) else None))
          (take DISTINCT_VALUES_LIMIT (rr_rows r)),
        DISTINCT_VALUES_LIMIT < length (rr_rows r)))) DEFAULT_TIMEOUT_MS)))))"

subsection \<open>The rows counted are the rows the offered DELETE removes\<close>

text \<open>A run over parameters whose values are written in, and one without parameters that builds the same text.\<close>

definition writes_in :: "Dialect \<Rightarrow> (Params, 'a) run \<Rightarrow> (unit, 'a) run \<Rightarrow> bool" where
  "writes_in d m m' \<longleftrightarrow> (\<forall>vs. \<exists>vs'. m (params_at d True vs) = (fst (m' ()), params_at d True vs'))"

named_theorems writes_intros \<open>runs that build the same text\<close>

lemma writes_same [writes_intros]: "writes_in d (ret x) (ret x)" "writes_in d (raise e) (raise e)"
  by (auto simp: writes_in_def ret_def raise_def)

lemma writes_bind [writes_intros]:
  assumes "writes_in d m m'" and "\<And>x. writes_in d (f x) (f' x)"
  shows "writes_in d (bind m f) (bind m' f')"
  unfolding writes_in_def
proof
  fix vs
  from assms(1) obtain vs1 where m: "m (params_at d True vs) = (fst (m' ()), params_at d True vs1)"
    unfolding writes_in_def by blast
  obtain r u where m': "m' () = (r, u)" by (cases "m' ()")
  show "\<exists>vs'. bind m f (params_at d True vs) = (fst (bind m' f' ()), params_at d True vs')"
  proof (cases r)
    case (Inl e)
    with m m' show ?thesis by (auto simp: bind_def)
  next
    case (Inr x)
    from assms(2) [of x] obtain vs2 where "f x (params_at d True vs1) = (fst (f' x ()), params_at d True vs2)"
      unfolding writes_in_def by blast
    with m m' Inr show ?thesis by (auto simp: bind_def)
  qed
qed

lemma writes_lift [writes_intros]: "(\<And>x. writes_in d (f x) (f' x)) \<Longrightarrow> writes_in d (bind (lift r) f) (bind (lift r) f')"
  by (cases r) (auto simp: run_simps intro: writes_same)

lemma writes_each [writes_intros]: "(\<And>x. writes_in d (f x) (f' x)) \<Longrightarrow> writes_in d (each f xs) (each f' xs)"
  by (induction xs) (auto intro!: writes_intros)

lemma writes_text [writes_intros]: "writes_in d (bound_text v) (ret (quoteLiteral d v))"
  by (cases d) (auto simp: writes_in_def bound_text_def add_value_def add_param_def params_at_def ret_def mysqlLiteral_def pgLiteral_def)

lemma writes_search: "writes_in d (search_match d mode ws columns bound_text) (search_match d mode ws columns (\<lambda>v. ret (quoteLiteral d v)))"
  unfolding search_match_def match_one_def by (cases "mode = SearchRegexp") (auto intro!: writes_intros)

lemma templated_text [templated_intros]: "templated d (bound_text v)"
  unfolding bound_text_def by (rule templated_value) simp

lemma templated_search: "templated d (search_match d mode ws columns bound_text)"
proof -
  have one: "templated d (match_one d mode bound_text w c)" for w c
    unfolding match_one_def
    by (cases "mode = SearchRegexp") (auto intro!: templated_lift templated_around [OF templated_text] around_steps around_rules(1))
  have "templated d (bind (each (match_one d mode bound_text w) columns) (\<lambda>cs. ret (''('' @ join '' OR '' cs @ '')'')))" for w
    by (rule templated_joined [OF one refl])
  from templated_join [of ws d "\<lambda>w. bind (each (match_one d mode bound_text w) columns) (\<lambda>cs. ret (''('' @ join '' OR '' cs @ '')''))", OF this]
  show ?thesis unfolding search_match_def .
qed


text \<open>Words that are only spaces leave no condition: the statements then end with an empty WHERE.\<close>

lemma blank_words_no_condition:
  "search_match d SearchAny (search_words SearchAny '' '') columns bnd = ret []"
  by (simp add: search_words_def search_match_def js_space_def run_simps)

end
