(* ===== verification/Read_Wrap.thy ===== *)
theory Read_Wrap
  imports Splitter
begin

text \<open>
  The row cap of the SQL console, \<open>packages/adapter/src/sql/read-wrap.ts\<close>: a plain read is run as a subquery with a
  LIMIT.  Each regular expression is a function that tries its alternatives in the order they are written.
\<close>

subsection \<open>Literals and comments\<close>

text \<open>
  \<open>(?:[^q\\]|\\.|qq)*q\<close> after an opening quote: how many characters the match takes.  A doubled quote that
  does not lead to a closing one is given up again, and the first of the pair closes.
\<close>

fun quoted_match :: "char \<Rightarrow> bool \<Rightarrow> string \<Rightarrow> nat option" where
  "quoted_match q backslash [] = None"
| "quoted_match q backslash [c] = (if c = q then Some 1 else None)"
| "quoted_match q backslash (c # e # s) =
     (if c = q then
        (if e = q then (case quoted_match q backslash s of Some n \<Rightarrow> Some (n + 2) | None \<Rightarrow> Some 1) else Some 1)
      else if backslash \<and> c = CHR 0x5C then
        (if e = CHR 0x0A \<or> e = CHR 0x0D then None else map_option (\<lambda>n. n + 2) (quoted_match q backslash s))
      else map_option Suc (quoted_match q backslash (e # s)))"

text \<open>\<open>(\$[A-Za-z_][A-Za-z0-9_]*\$|\$\$)[\s\S]*?\1\<close>.\<close>

definition dollar_mark :: "string \<Rightarrow> string option" where
  "dollar_mark s =
    (let name = takeWhile js_word (tl s) in
     if prefix ''$'' s \<and> prefix ''$'' (dropWhile js_word (tl s)) \<and> (name = [] \<or> \<not> js_digit (hd name))
     then Some (''$'' @ name @ ''$'') else None)"

definition dollar_match :: "string \<Rightarrow> nat option" where
  "dollar_match s = (case dollar_mark s of None \<Rightarrow> None
     | Some m \<Rightarrow> map_option (\<lambda>k. k + length m) (index_of m s (length m)))"

definition line_length :: "string \<Rightarrow> nat" where
  "line_length s = length (takeWhile (\<lambda>c. c \<noteq> CHR 0x0A) s)"

definition block_match :: "string \<Rightarrow> nat option" where
  "block_match s = (if prefix ''/*'' s then map_option (\<lambda>k. k + 2) (index_of ''*/'' s 2) else None)"

definition quote_match :: "char \<Rightarrow> bool \<Rightarrow> string \<Rightarrow> nat option" where
  "quote_match q backslash s = (if prefix [q] s then map_option Suc (quoted_match q backslash (tl s)) else None)"

text \<open>
  One match of \<open>LITERALS_AND_COMMENTS\<close> (MySQL) or \<open>LITERALS_AND_COMMENTS_STANDARD\<close> at the start of the text; \<open>inside\<close> says
  whether the character before it is a word character.
\<close>

definition literal_match :: "Dialect \<Rightarrow> bool \<Rightarrow> string \<Rightarrow> nat option" where
  "literal_match d inside s = first_some id
     [if prefix ''E'' s \<and> \<not> inside then map_option Suc (quote_match sq True (tl s)) else None,
      quote_match sq (d = Mysql) s,
      quote_match (CHR 0x22) False s,
      if d = Mysql then quote_match (CHR 0x60) False s else None,
      dollar_match s,
      if prefix ''--'' s then Some (line_length s) else None,
      if d = Mysql \<and> prefix ''#'' s then Some (line_length s) else None,
      block_match s]"

lemma quoted_match_le: "quoted_match q b s = Some n \<Longrightarrow> 0 < n \<and> n \<le> length s"
  by (induction q b s arbitrary: n rule: quoted_match.induct) (fastforce split: if_splits option.splits)+

definition match_in :: "string \<Rightarrow> nat option \<Rightarrow> bool" where
  "match_in s m \<longleftrightarrow> (case m of None \<Rightarrow> True | Some n \<Rightarrow> 0 < n \<and> n \<le> length s)"

lemma quote_match_in: "match_in s (quote_match q b s)"
  by (cases s) (auto simp: match_in_def quote_match_def split: option.split dest: quoted_match_le)

lemma dollar_match_in: "match_in s (dollar_match s)"
proof (cases "dollar_mark s")
  case (Some m)
  then obtain c r where s: "s = c # r" and w: "prefix ''$'' (dropWhile js_word r)" and m: "m = ''$'' @ takeWhile js_word r @ ''$''"
    by (cases s) (auto simp: dollar_mark_def Let_def split: if_splits)
  from w have "1 \<le> length (dropWhile js_word r)" by (auto dest: prefix_length_le)
  moreover have "length r = length (takeWhile js_word r) + length (dropWhile js_word r)"
    by (metis length_append takeWhile_dropWhile_id)
  ultimately have m: "0 < length m" "length m \<le> length s" unfolding m s by simp_all
  from Some m show ?thesis
    by (auto simp: match_in_def dollar_match_def split: option.split dest: index_of_bounds)
qed (simp add: match_in_def dollar_match_def)

lemma line_length_in: "s \<noteq> [] \<Longrightarrow> hd s \<noteq> CHR 0x0A \<Longrightarrow> match_in s (Some (line_length s))"
  by (cases s) (auto simp: match_in_def line_length_def length_takeWhile_le)

lemma block_match_in: "match_in s (block_match s)"
  by (auto simp: match_in_def block_match_def prefix_def split: option.split dest!: index_of_bounds)

lemma escape_match_in: "prefix ''E'' s \<Longrightarrow> match_in s (map_option Suc (quote_match sq True (tl s)))"
  using quote_match_in [of "tl s" sq True] by (cases s) (auto simp: match_in_def split: option.splits)

lemma first_some_in: "first_some f xs = Some y \<Longrightarrow> \<exists>x \<in> set xs. f x = Some y"
  by (induction xs) (auto split: option.splits)

lemma literal_match_le: "literal_match d inside s = Some n \<Longrightarrow> 0 < n \<and> n \<le> length s"
proof -
  assume "literal_match d inside s = Some n"
  then obtain m where m: "m = Some n" and alt: "m = map_option Suc (quote_match sq True (tl s)) \<and> prefix ''E'' s
      \<or> (\<exists>q b. m = quote_match q b s) \<or> m = dollar_match s
      \<or> m = Some (line_length s) \<and> (prefix ''--'' s \<or> prefix ''#'' s) \<or> m = block_match s"
    unfolding literal_match_def by (drule_tac first_some_in) (auto split: if_splits)
  from alt have "match_in s m"
    using escape_match_in quote_match_in dollar_match_in block_match_in line_length_in [of s] by (auto simp: prefix_def)
  with m show ?thesis by (simp add: match_in_def)
qed

function strip_from :: "Dialect \<Rightarrow> bool \<Rightarrow> string \<Rightarrow> string" where
  "strip_from d inside s = (case s of [] \<Rightarrow> [] | c # r \<Rightarrow>
     (case literal_match d inside s of
        Some n \<Rightarrow> '' '' @ strip_from d (js_word (s ! (n - 1))) (drop n s)
      | None \<Rightarrow> c # strip_from d (js_word c) r))"
  by pat_completeness auto

termination
  by (relation "measure (\<lambda>(d, inside, s). length s)") (auto dest!: literal_match_le)

declare strip_from.simps [simp del]

definition stripLiterals :: "string \<Rightarrow> Dialect \<Rightarrow> string" where
  "stripLiterals code d = strip_from d False code"

subsection \<open>Plain reads\<close>

definition word_start :: "string \<Rightarrow> string \<Rightarrow> bool" where
  "word_start w s \<longleftrightarrow> ci_prefix w s \<and> word_ends (drop (length w) s)"

definition READ_START :: "string \<Rightarrow> bool" where
  "READ_START code \<longleftrightarrow> (let s = dropWhile js_space code in
     prefix ''('' s \<or> (\<exists>w \<in> set [''select'', ''with'', ''values'', ''table'']. word_start w s))"

text \<open>The words of a phrase, with blanks between them.\<close>

fun phrase_at :: "string list \<Rightarrow> string \<Rightarrow> bool" where
  "phrase_at [] s = True"
| "phrase_at [w] s = word_start w s"
| "phrase_at (w # ws) s = (ci_prefix w s \<and> (let r = drop (length w) s in
     r \<noteq> [] \<and> js_space (hd r) \<and> phrase_at ws (dropWhile js_space r)))"

definition WRITING_PHRASES :: "string list list" where
  "WRITING_PHRASES = [[''into''], [''for'', ''update''], [''for'', ''share''], [''for'', ''no'', ''key'', ''update''],
     [''for'', ''key'', ''share''], [''lock'', ''in'', ''share'', ''mode''], [''insert''], [''update''], [''delete''],
     [''merge'']]"

text \<open>\<open>\b(?:...)\b\<close> anywhere in a text.\<close>

fun phrase_in :: "string list list \<Rightarrow> bool \<Rightarrow> string \<Rightarrow> bool" where
  "phrase_in ps inside [] = False"
| "phrase_in ps inside (c # s) = ((\<not> inside \<and> (\<exists>p \<in> set ps. phrase_at p (c # s))) \<or> phrase_in ps (js_word c) s)"

definition NOT_WRAPPABLE :: "string \<Rightarrow> bool" where
  "NOT_WRAPPABLE code \<longleftrightarrow> phrase_in WRITING_PHRASES False code"

definition isPlainRead :: "string \<Rightarrow> Dialect \<Rightarrow> bool" where
  "isPlainRead code d \<longleftrightarrow> READ_START code \<and> \<not> NOT_WRAPPABLE (stripLiterals code d)"

definition WRAP_PREFIX :: string where
  "WRAP_PREFIX = ''SELECT * FROM ('' @ [CHR 0x0A]"

text \<open>\<open>.trim().replace(/;+\s*$/, '')\<close>: the semicolons at the end of a trimmed text.\<close>

definition without_end :: "string \<Rightarrow> string" where
  "without_end s = rev (dropWhile (\<lambda>c. c = CHR '';'') (rev (trim s)))"

definition wrapReadOnly :: "string \<Rightarrow> nat \<Rightarrow> Dialect \<Rightarrow> string option" where
  "wrapReadOnly sql limit d =
    (let bdy = without_end sql; code = stripLeadingComments d bdy in
     if \<not> isPlainRead code d then None
     else Some (WRAP_PREFIX @ bdy @ [CHR 0x0A] @ '') AS _tsmyadmin LIMIT '' @ show_nat (max 1 limit)))"

text \<open>
  An escape string of PostgreSQL may start with \<open>e\<close> too, which the expression knows only as \<open>E\<close>: the lock of this
  read is taken for text, and the read is wrapped.
\<close>

lemma lower_case_escape_string:
  "isPlainRead (''SELECT e'' @ [sq, CHR 0x5C, sq, sq] @ '' FROM t FOR UPDATE --'' @ [sq]) Postgres"
  "\<not> isPlainRead (''SELECT E'' @ [sq, CHR 0x5C, sq, sq] @ '' FROM t FOR UPDATE --'' @ [sq]) Postgres"
  by code_simp+

end
