(* ===== verification/Console.thy ===== *)
theory Console
  imports Read_Wrap Adapter_Conn
begin

text \<open>
  Running a script for the SQL console and cancelling it: \<open>packages/adapter/src/sql-console.ts\<close>.

  A run and the cancels that address it interleave.  Each step of the model is what happens between two awaits, one
  event each: the answer of a server or of the pool, a timer, a request that comes in, or the continuation of a
  promise.  A continuation that waits for no I/O runs before any other event, which is what \<open>quiet\<close> says.
\<close>

subsection \<open>Statements and results\<close>

text \<open>An \<open>AdapterError\<close> with the details of the driver.\<close>

record SqlFailure =
  sf_code :: AdapterErrorCode
  sf_message :: string
  sf_detail :: "string option"
  sf_native :: "string option"
  sf_position :: "nat option"

datatype ConsoleResult =
  RowsResult string nat nat "ColumnMeta list" "Cell list list" bool "string list"
| AffectedResult string nat nat int "string list"
| ErrorResult string nat nat string AdapterErrorCode "string option" "nat option"

record ConsoleOptions =
  xo_maxRows :: nat
  xo_stopOnError :: bool
  xo_queryId :: "string option"
  xo_streams :: bool
  xo_probes :: bool

record ConsoleHost =
  hs_dialect :: Dialect
  hs_copyFrom :: bool
  hs_wrapperOnlyErrors :: "string list"

definition META_COMMAND :: "string \<Rightarrow> bool" where
  "META_COMMAND s \<longleftrightarrow> prefix [CHR 0x5C] s"

definition HAS_LIMIT :: "string \<Rightarrow> bool" where
  "HAS_LIMIT code \<longleftrightarrow> phrase_in [[''limit'']] False code"

definition TOUCHES_CAP :: "string \<Rightarrow> bool" where
  "TOUCHES_CAP code \<longleftrightarrow> ci_has ''sql_select_limit'' code"

text \<open>
  \<open>COPY_BLOCK\<close>: the statement line without its end, and the data up to the closing \<open>\.\<close>.  The line is the shortest
  start of it after which only blanks, a semicolon, blanks and a carriage return follow.
\<close>

definition copy_line_end :: "string \<Rightarrow> bool" where
  "copy_line_end s \<longleftrightarrow>
    (let r = dropWhile blank s; r1 = (if prefix '';'' r then tl r else r); r2 = dropWhile blank r1
     in r2 = [] \<or> r2 = [CHR 0x0D])"

fun copy_line :: "string \<Rightarrow> string" where
  "copy_line [] = []"
| "copy_line (c # s) = (if copy_line_end (c # s) then [] else c # copy_line s)"

text \<open>Where the first \<open>FROM STDIN\<close> ends.\<close>

fun stdin_end :: "bool \<Rightarrow> string \<Rightarrow> nat option" where
  "stdin_end inside [] = None"
| "stdin_end inside (c # s) =
     (let r = drop 3 s; t = dropWhile js_space r in
      if \<not> inside \<and> ci_prefix ''from'' (c # s) \<and> t \<noteq> r \<and> ci_prefix ''stdin'' t \<and> word_ends (drop 5 t)
      then Some (length (c # s) - length t + 5) else map_option Suc (stdin_end (js_word c) s))"

definition COPY_BLOCK :: "string \<Rightarrow> (string \<times> string) option" where
  "COPY_BLOCK s =
    (if \<not> (ci_prefix ''copy'' s \<and> word_ends (drop 4 s)) then None
     else case stdin_end True (drop 4 s) of None \<Rightarrow> None
     | Some k \<Rightarrow>
         (let head = take (k + 4) s; line = takeWhile (\<lambda>c. c \<noteq> CHR 0x0A) (drop (k + 4) s);
              rest = drop (length head + length line) s
          in if rest \<noteq> [] \<and> suffix [CHR 0x5C, CHR ''.''] (tl rest)
             then Some (head @ copy_line line, take (length (tl rest) - 2) (tl rest)) else None))"

text \<open>What is done with a statement: refused, copied from its data, or sent (as it is, or wrapped).\<close>

datatype Sending = Refused SqlFailure | Copied string string | Sent_as string | Sent_wrapped string

definition unsupported_failure :: "string \<Rightarrow> string option \<Rightarrow> SqlFailure" where
  "unsupported_failure m detail = \<lparr>sf_code = UNSUPPORTED, sf_message = m, sf_detail = detail, sf_native = None, sf_position = None\<rparr>"

definition sending :: "ConsoleHost \<Rightarrow> bool \<Rightarrow> nat \<Rightarrow> string \<Rightarrow> Sending" where
  "sending host capped maxRows sql =
    (let code = stripLiterals sql (hs_dialect host);
         copy = (if hs_dialect host = Postgres then COPY_BLOCK (stripLeadingComments Postgres sql) else None)
     in if META_COMMAND sql
        then (let m = ''psql meta-command is not supported: '' @ takeWhile (\<lambda>c. \<not> js_space c) sql
              in Refused (unsupported_failure m (Some m)))
        else (case copy of
          Some (line, data) \<Rightarrow>
            if hs_copyFrom host then Copied line data
            else Refused (unsupported_failure ''COPY FROM stdin is not supported'' None)
        | None \<Rightarrow>
            (case (if capped \<and> \<not> HAS_LIMIT code then None else wrapReadOnly sql (maxRows + 1) (hs_dialect host)) of
               Some wrapped \<Rightarrow> Sent_wrapped wrapped
             | None \<Rightarrow> Sent_as sql)))"

text \<open>A failure of the wrapped form: sent again as written, or its position counted in the statement as written.\<close>

definition rerun_unwrapped :: "ConsoleHost \<Rightarrow> bool \<Rightarrow> SqlFailure \<Rightarrow> bool" where
  "rerun_unwrapped host cancelled e \<longleftrightarrow>
    (case sf_native e of Some n \<Rightarrow> n \<in> set (hs_wrapperOnlyErrors host) | None \<Rightarrow> False) \<and> \<not> cancelled"

definition unwrapped_failure :: "SqlFailure \<Rightarrow> SqlFailure" where
  "unwrapped_failure e = (case sf_position e of
     Some p \<Rightarrow> if p > length WRAP_PREFIX then e\<lparr>sf_position := Some (p - length WRAP_PREFIX)\<rparr> else e
   | None \<Rightarrow> e)"

definition console_result :: "nat \<Rightarrow> Statement \<Rightarrow> nat \<Rightarrow> RawResult \<Rightarrow> ConsoleResult" where
  "console_result maxRows st i r =
    (if rr_hasRows r then
       (let truncated = (length (rr_rows r) > maxRows) in
        RowsResult (st_sql st) (st_line st) i (rr_columns r)
          (if truncated then take maxRows (rr_rows r) else rr_rows r) truncated (rr_notices r))
     else AffectedResult (st_sql st) (st_line st) i (rr_affectedRows r) (rr_notices r))"

definition error_result :: "Statement \<Rightarrow> nat \<Rightarrow> SqlFailure \<Rightarrow> ConsoleResult" where
  "error_result st i e = ErrorResult (st_sql st) (st_line st) i
     (case sf_detail e of Some m \<Rightarrow> m | None \<Rightarrow> sf_message e) (sf_code e) (sf_native e) (sf_position e)"

text \<open>What is kept of a result that goes to a consumer: a copy without rows.\<close>

definition kept_result :: "bool \<Rightarrow> ConsoleResult \<Rightarrow> ConsoleResult" where
  "kept_result streams r = (case r of
     RowsResult s l i cols rows trunc notices \<Rightarrow> RowsResult s l i cols (if streams then [] else rows) trunc notices
   | _ \<Rightarrow> r)"

subsection \<open>The state of the runner\<close>

text \<open>
  \<open>RunningEntry\<close>.  The promise of the backend id is \<open>None\<close> while it is pending; it resolves to the connection it is the
  id of, or to the empty id.  \<open>settled\<close> is the phase \<open>Ended\<close> of the run, and the cancel in progress is the number of the
  request that sends it.
\<close>

record RunningEntry =
  en_backend :: "nat option option"
  en_cancelled :: bool
  en_interrupted :: bool
  en_signalled :: bool
  en_inFlight :: bool
  en_cancelling :: "nat option"

definition newEntry :: RunningEntry where
  "newEntry = \<lparr>en_backend = None, en_cancelled = False, en_interrupted = False, en_signalled = False,
     en_inFlight = False, en_cancelling = None\<rparr>"

text \<open>Where a run is: what it awaits, or what it does next without waiting (\<open>Leaving\<close>, \<open>Released\<close>).\<close>

datatype Phase =
  Waiting | Starting | OnWire nat bool | Finishing nat "RawResult list" | Reporting nat SqlFailure
| Probing | Resetting | Leaving | Released | Ended

record Run =
  ru_options :: ConsoleOptions
  ru_statements :: "Statement list"
  ru_phase :: Phase
  ru_conn :: "nat option"
  ru_capped :: bool
  ru_broken :: bool
  ru_results :: "ConsoleResult list"
  ru_sent :: "(nat \<times> Sending) list"
  ru_entry :: RunningEntry

datatype CancelPhase =
  AwaitBackend | Sharing nat | Opening nat | Signalling nat bool | Pausing nat nat | Repeating nat nat | Settling
| Answered bool | Failed

record Cancel =
  ca_query :: string
  ca_run :: "nat option"
  ca_phase :: CancelPhase

datatype Use = Pooled | Held nat | Closed

text \<open>
  \<open>cs_wire\<close> are the signals sent: the connection each is addressed to and the run it is meant for.  They may arrive at
  any later time.  \<open>cs_dirty\<close> are the connections whose session differs from that of a fresh one.
\<close>

record Console =
  cs_running :: "string \<rightharpoonup> nat"
  cs_runs :: "Run list"
  cs_cancels :: "Cancel list"
  cs_conns :: "nat \<Rightarrow> Use"
  cs_dirty :: "nat \<Rightarrow> bool"
  cs_wire :: "(nat \<times> nat) list"

definition CANCEL_RETRIES :: nat where "CANCEL_RETRIES = 40"

definition no_console :: Console where
  "no_console = \<lparr>cs_running = Map.empty, cs_runs = [], cs_cancels = [], cs_conns = (\<lambda>_. Pooled), cs_dirty = (\<lambda>_. False),
     cs_wire = []\<rparr>"

definition set_run :: "nat \<Rightarrow> Run \<Rightarrow> Console \<Rightarrow> Console" where
  "set_run r run s = s\<lparr>cs_runs := (cs_runs s)[r := run]\<rparr>"

definition set_cancel :: "nat \<Rightarrow> CancelPhase \<Rightarrow> Console \<Rightarrow> Console" where
  "set_cancel k ph s = s\<lparr>cs_cancels := (cs_cancels s)[k := (cs_cancels s ! k)\<lparr>ca_phase := ph\<rparr>]\<rparr>"

definition in_entry :: "(RunningEntry \<Rightarrow> RunningEntry) \<Rightarrow> Run \<Rightarrow> Run" where
  "in_entry f run = run\<lparr>ru_entry := f (ru_entry run)\<rparr>"

definition in_flight :: "bool \<Rightarrow> Run \<Rightarrow> Run" where
  "in_flight b = in_entry (\<lambda>en. en\<lparr>en_inFlight := b\<rparr>)"

abbreviation cancelled :: "Run \<Rightarrow> bool" where
  "cancelled run \<equiv> en_cancelled (ru_entry run)"

text \<open>No continuation that waits for nothing is left to run.\<close>

definition quiet :: "Console \<Rightarrow> bool" where
  "quiet s \<longleftrightarrow> list_all (\<lambda>run. ru_phase run \<noteq> Leaving \<and> ru_phase run \<noteq> Released) (cs_runs s)"

subsection \<open>The steps of a run\<close>

text \<open>The two \<open>finally\<close> blocks around the statements, up to their awaits.\<close>

definition after_probe :: "Run \<Rightarrow> Run" where
  "after_probe run = (if cancelled run then run\<lparr>ru_broken := True, ru_phase := Leaving\<rparr> else run\<lparr>ru_phase := Resetting\<rparr>)"

definition clean_up :: "Run \<Rightarrow> Run" where
  "clean_up run = (if xo_probes (ru_options run) then run\<lparr>ru_phase := Probing\<rparr> else after_probe run)"

definition interrupted_if_cancelled :: "Run \<Rightarrow> Run" where
  "interrupted_if_cancelled run =
    (if cancelled run then in_entry (\<lambda>en. en\<lparr>en_interrupted := True\<rparr>) run else run)"

text \<open>The loop at statement \<open>i\<close>: over, stopped by a cancel, or the statement is sent.\<close>

definition look :: "ConsoleHost \<Rightarrow> nat \<Rightarrow> Run \<Rightarrow> Run" where
  "look host i run =
    (if length (ru_statements run) \<le> i then clean_up run
     else if cancelled run then clean_up (interrupted_if_cancelled run)
     else (let how = sending host (ru_capped run) (xo_maxRows (ru_options run)) (st_sql (ru_statements run ! i)) in
       case how of
         Refused e \<Rightarrow> run\<lparr>ru_phase := Reporting i e\<rparr>
       | Sent_wrapped t \<Rightarrow> (in_flight True run)\<lparr>ru_phase := OnWire i True, ru_sent := ru_sent run @ [(i, how)]\<rparr>
       | _ \<Rightarrow> (in_flight True run)\<lparr>ru_phase := OnWire i False, ru_sent := ru_sent run @ [(i, how)]\<rparr>))"

definition failed_on_wire :: "ConsoleHost \<Rightarrow> nat \<Rightarrow> bool \<Rightarrow> SqlFailure \<Rightarrow> Run \<Rightarrow> Run" where
  "failed_on_wire host i wrapped e run =
    (if wrapped \<and> rerun_unwrapped host (cancelled run) e
     then run\<lparr>ru_phase := OnWire i False, ru_sent := ru_sent run @ [(i, Sent_as (st_sql (ru_statements run ! i)))]\<rparr>
     else (in_flight False run)\<lparr>ru_phase := Reporting i (if wrapped then unwrapped_failure e else e)\<rparr>)"

definition add_results :: "ConsoleResult list \<Rightarrow> Run \<Rightarrow> Run" where
  "add_results rs run =
    run\<lparr>ru_results := ru_results run @ map (kept_result (xo_streams (ru_options run))) rs\<rparr>"

definition statement_results :: "nat \<Rightarrow> RawResult list \<Rightarrow> Run \<Rightarrow> ConsoleResult list" where
  "statement_results i list run =
    map (console_result (xo_maxRows (ru_options run)) (ru_statements run ! i) i) list"

text \<open>A statement that may have changed the cap of the session has it applied again.\<close>

definition cap_again :: "ConsoleHost \<Rightarrow> nat \<Rightarrow> bool \<Rightarrow> Run \<Rightarrow> Run" where
  "cap_again host i capped run =
    (if ru_capped run \<and> TOUCHES_CAP (stripLiterals (st_sql (ru_statements run ! i)) (hs_dialect host))
     then run\<lparr>ru_capped := capped\<rparr> else run)"

datatype RunEvent =
  Borrowed nat | Borrow_failed | Set_up bool bool | Setup_failed | Returned "RawResult list" | Threw SqlFailure
| Emitted bool | Emit_failed bool nat SqlFailure | Reported | Report_failed | Probed | Reset_done bool | Left | Over

text \<open>
  What an event does to its run, \<open>None\<close> where the run does not wait for it.  \<open>Set_up\<close> says whether the session caps the
  rows and whether the backend id is a number; \<open>Emit_failed\<close> how many results had been taken before the consumer (or
  reading the profile, or capping the rows again) failed.  Where a run cannot reset its connection, the connection
  is discarded, as \<open>Conn.reset\<close> promises.
\<close>

definition publish :: "nat option \<Rightarrow> bool \<Rightarrow> Run \<Rightarrow> Run" where
  "publish c known run = (if xo_queryId (ru_options run) = None then run
     else in_entry (\<lambda>en. en\<lparr>en_backend := Some (if known then c else None)\<rparr>) run)"

fun run_event :: "ConsoleHost \<Rightarrow> RunEvent \<Rightarrow> Run \<Rightarrow> Run option" where
  "run_event host (Borrowed c) run =
     (if ru_phase run = Waiting then Some (run\<lparr>ru_phase := Starting, ru_conn := Some c\<rparr>) else None)"
| "run_event host Borrow_failed run = (if ru_phase run = Waiting then Some (run\<lparr>ru_phase := Released\<rparr>) else None)"
| "run_event host (Set_up capped known) run =
     (if ru_phase run = Starting then Some (look host 0 (publish (ru_conn run) known (run\<lparr>ru_capped := capped\<rparr>))) else None)"
| "run_event host Setup_failed run = (if ru_phase run = Starting then Some (clean_up run) else None)"
| "run_event host (Returned list) run = (case ru_phase run of
     OnWire i wrapped \<Rightarrow> Some ((in_flight False run)\<lparr>ru_phase := Finishing i list\<rparr>) | _ \<Rightarrow> None)"
| "run_event host (Threw e) run = (case ru_phase run of
     OnWire i wrapped \<Rightarrow> Some (failed_on_wire host i wrapped e run) | _ \<Rightarrow> None)"
| "run_event host (Emitted capped) run = (case ru_phase run of
     Finishing i list \<Rightarrow>
       Some (look host (Suc i) (add_results (statement_results i list run) (cap_again host i capped run))) | _ \<Rightarrow> None)"
| "run_event host (Emit_failed capped n e) run = (case ru_phase run of
     Finishing i list \<Rightarrow>
       Some ((add_results (take n (statement_results i list run)) (cap_again host i capped run))\<lparr>ru_phase := Reporting i e\<rparr>)
   | _ \<Rightarrow> None)"
| "run_event host Reported run = (case ru_phase run of
     Reporting i e \<Rightarrow>
       (let run' = interrupted_if_cancelled (add_results [error_result (ru_statements run ! i) i e] run) in
        Some (if xo_stopOnError (ru_options run) then clean_up run' else look host (Suc i) run')) | _ \<Rightarrow> None)"
| "run_event host Report_failed run = (case ru_phase run of
     Reporting i e \<Rightarrow> Some (clean_up (add_results [error_result (ru_statements run ! i) i e] run)) | _ \<Rightarrow> None)"
| "run_event host Probed run = (if ru_phase run = Probing then Some (after_probe run) else None)"
| "run_event host (Reset_done ok) run =
     (if ru_phase run = Resetting then Some (run\<lparr>ru_broken := \<not> ok \<or> cancelled run, ru_phase := Leaving\<rparr>) else None)"
| "run_event host Left run = (if ru_phase run = Leaving then Some (run\<lparr>ru_phase := Released, ru_conn := None\<rparr>) else None)"
| "run_event host Over run = (if ru_phase run = Released then
     Some ((in_entry (\<lambda>en. en\<lparr>en_backend := (case en_backend en of None \<Rightarrow> Some None | b \<Rightarrow> b)\<rparr>) run)\<lparr>ru_phase := Ended\<rparr>)
   else None)"

text \<open>What it does to the connections and the registry.\<close>

definition unregister :: "nat \<Rightarrow> Run \<Rightarrow> Console \<Rightarrow> Console" where
  "unregister r run s = (case xo_queryId (ru_options run) of
     Some q \<Rightarrow> if cs_running s q = Some r then s\<lparr>cs_running := (cs_running s)(q := None)\<rparr> else s
   | None \<Rightarrow> s)"

definition conn_event :: "nat \<Rightarrow> RunEvent \<Rightarrow> Run \<Rightarrow> Console \<Rightarrow> Console" where
  "conn_event r ev run s = (case ev of
     Borrowed c \<Rightarrow> s\<lparr>cs_conns := (cs_conns s)(c := Held r), cs_dirty := (cs_dirty s)(c := True)\<rparr>
   | Reset_done ok \<Rightarrow> (case ru_conn run of
       Some c \<Rightarrow> if ok then s\<lparr>cs_dirty := (cs_dirty s)(c := False)\<rparr> else s | None \<Rightarrow> s)
   | Left \<Rightarrow> (case ru_conn run of
       Some c \<Rightarrow> s\<lparr>cs_conns := (cs_conns s)(c := if ru_broken run then Closed else Pooled)\<rparr> | None \<Rightarrow> s)
   | Over \<Rightarrow> unregister r run s
   | _ \<Rightarrow> s)"

definition awaits_nothing :: "RunEvent \<Rightarrow> bool" where
  "awaits_nothing ev \<longleftrightarrow> ev = Left \<or> ev = Over"

definition step_run :: "ConsoleHost \<Rightarrow> nat \<Rightarrow> RunEvent \<Rightarrow> Console \<Rightarrow> Console option" where
  "step_run host r ev s =
    (if r < length (cs_runs s) \<and> (awaits_nothing ev \<or> quiet s)
        \<and> (case ev of Borrowed c \<Rightarrow> cs_conns s c = Pooled | _ \<Rightarrow> True)
     then map_option (\<lambda>run'. set_run r run' (conn_event r ev (cs_runs s ! r) s)) (run_event host ev (cs_runs s ! r))
     else None)"

definition execute :: "ConsoleOptions \<Rightarrow> Statement list \<Rightarrow> Console \<Rightarrow> Console" where
  "execute opts sts s = s\<lparr>cs_runs := cs_runs s @ [\<lparr>ru_options = opts, ru_statements = sts, ru_phase = Waiting,
       ru_conn = None, ru_capped = False, ru_broken = False, ru_results = [], ru_sent = [], ru_entry = newEntry\<rparr>],
     cs_running := (case xo_queryId opts of Some q \<Rightarrow> (cs_running s)(q \<mapsto> length (cs_runs s)) | None \<Rightarrow> cs_running s)\<rparr>"

subsection \<open>The steps of a cancel\<close>

definition cancel :: "string \<Rightarrow> Console \<Rightarrow> Console" where
  "cancel q s = s\<lparr>cs_cancels := cs_cancels s @ [\<lparr>ca_query = q, ca_run = cs_running s q,
     ca_phase = (if cs_running s q = None then Answered False else AwaitBackend)\<rparr>]\<rparr>"

datatype CancelEvent =
  Backend_known | Wait_over | Opened | Open_failed | Signalled bool | Paused | Repeated bool | Settled | Settle_over
| Shared_answer

definition stillRunning :: "Cancel \<Rightarrow> nat \<Rightarrow> Console \<Rightarrow> bool" where
  "stillRunning ca r s \<longleftrightarrow> cs_running s (ca_query ca) = Some r"

definition entry_of :: "nat \<Rightarrow> Console \<Rightarrow> RunningEntry" where
  "entry_of r s = ru_entry (cs_runs s ! r)"

definition edit_entry :: "nat \<Rightarrow> (RunningEntry \<Rightarrow> RunningEntry) \<Rightarrow> Console \<Rightarrow> Console" where
  "edit_entry r f s = set_run r (in_entry f (cs_runs s ! r)) s"

text \<open>\<open>sendCancel\<close> up to opening its connection, and the signal itself.\<close>

definition begin_sending :: "nat \<Rightarrow> nat \<Rightarrow> nat \<Rightarrow> Console \<Rightarrow> Console" where
  "begin_sending k r c s =
    (let s1 = edit_entry r (\<lambda>en. en\<lparr>en_cancelled := True\<rparr>) s in
     case en_cancelling (entry_of r s) of
       Some k' \<Rightarrow> set_cancel k (Sharing k') s1
     | None \<Rightarrow> set_cancel k (if stillRunning (cs_cancels s ! k) r s then Opening c else Answered (en_interrupted (entry_of r s)))
         (edit_entry r (\<lambda>en. en\<lparr>en_cancelling := Some k\<rparr>) s1))"

definition send_signal :: "nat \<Rightarrow> nat \<Rightarrow> Console \<Rightarrow> Console" where
  "send_signal c r s = s\<lparr>cs_wire := (c, r) # cs_wire s\<rparr>"

definition give_up :: "nat \<Rightarrow> nat \<Rightarrow> Console \<Rightarrow> Console" where
  "give_up k r s = set_cancel k Failed (edit_entry r (\<lambda>en. en\<lparr>en_cancelling := None\<rparr>) s)"

definition signalled_if :: "bool \<Rightarrow> nat \<Rightarrow> Console \<Rightarrow> Console" where
  "signalled_if b r s = (if b then edit_entry r (\<lambda>en. en\<lparr>en_signalled := True\<rparr>) s else s)"

definition cancel_event :: "nat \<Rightarrow> CancelEvent \<Rightarrow> nat \<Rightarrow> Console \<Rightarrow> Console option" where
  "cancel_event k ev r s =
    (let ca = cs_cancels s ! k; en = entry_of r s; still = stillRunning ca r s in
     case (ca_phase ca, ev) of
       (AwaitBackend, Backend_known) \<Rightarrow> (case en_backend en of
           None \<Rightarrow> None
         | Some None \<Rightarrow> Some (set_cancel k (Answered False) s)
         | Some (Some c) \<Rightarrow> Some (begin_sending k r c s))
     | (AwaitBackend, Wait_over) \<Rightarrow> if en_backend en = None then Some (set_cancel k (Answered False) s) else None
     | (Opening c, Opened) \<Rightarrow>
         if still then Some (set_cancel k (Signalling c (en_inFlight en)) (send_signal c r s))
         else Some (set_cancel k (Answered (en_interrupted en)) s)
     | (Opening c, Open_failed) \<Rightarrow> Some (give_up k r s)
     | (Signalling c was, Signalled ok) \<Rightarrow>
         if \<not> ok \<and> still then Some (give_up k r s)
         else Some (set_cancel k (Pausing c 0) (signalled_if (ok \<and> was \<and> en_inFlight en) r s))
     | (Pausing c n, Paused) \<Rightarrow>
         if \<not> still \<or> \<not> en_inFlight en then Some (set_cancel k Settling s)
         else Some (set_cancel k (Repeating c n) (send_signal c r s))
     | (Repeating c n, Repeated ok) \<Rightarrow>
         Some (set_cancel k (if Suc n < CANCEL_RETRIES then Pausing c (Suc n) else Settling)
           (signalled_if (ok \<and> en_inFlight en) r s))
     | (Settling, Settled) \<Rightarrow>
         if ru_phase (cs_runs s ! r) = Ended then Some (set_cancel k (Answered (en_interrupted en \<or> en_signalled en)) s)
         else None
     | (Settling, Settle_over) \<Rightarrow>
         if ru_phase (cs_runs s ! r) \<noteq> Ended then Some (set_cancel k (Answered True) s) else None
     | (Sharing k', Shared_answer) \<Rightarrow> (case ca_phase (cs_cancels s ! k') of
           Answered b \<Rightarrow> Some (set_cancel k (Answered b) s)
         | Failed \<Rightarrow> Some (set_cancel k Failed s)
         | _ \<Rightarrow> None)
     | _ \<Rightarrow> None)"

definition follows_a_promise :: "CancelEvent \<Rightarrow> bool" where
  "follows_a_promise ev \<longleftrightarrow> ev = Backend_known \<or> ev = Settled \<or> ev = Shared_answer"

definition step_cancel :: "nat \<Rightarrow> CancelEvent \<Rightarrow> Console \<Rightarrow> Console option" where
  "step_cancel k ev s =
    (if k < length (cs_cancels s) \<and> (follows_a_promise ev \<or> quiet s)
     then (case ca_run (cs_cancels s ! k) of Some r \<Rightarrow> cancel_event k ev r s | None \<Rightarrow> None) else None)"

subsection \<open>Interleaving\<close>

datatype ConsoleEvent = Execute ConsoleOptions "Statement list" | CancelCall string | OfRun nat RunEvent | OfCancel nat CancelEvent

fun console_step :: "ConsoleHost \<Rightarrow> ConsoleEvent \<Rightarrow> Console \<Rightarrow> Console option" where
  "console_step host (Execute opts sts) s = (if quiet s then Some (execute opts sts s) else None)"
| "console_step host (CancelCall q) s = (if quiet s then Some (cancel q s) else None)"
| "console_step host (OfRun r ev) s = step_run host r ev s"
| "console_step host (OfCancel k ev) s = step_cancel k ev s"

inductive console_reachable :: "ConsoleHost \<Rightarrow> Console \<Rightarrow> bool" for host where
  start: "console_reachable host no_console"
| move: "console_reachable host s \<Longrightarrow> console_step host ev s = Some s' \<Longrightarrow> console_reachable host s'"

end
