(* ===== verification/Console_Facts.thy ===== *)
theory Console_Facts
  imports Console
begin

text \<open>
  What the console keeps: a cancel signal reaches no connection but that of the run it is meant for, a connection goes
  back to the pool clean, and a cancelled run sends nothing more.
\<close>

subsection \<open>What the parts of a step change\<close>

named_theorems console_simps \<open>what the parts of a step leave alone\<close>

lemma edit_simps [console_simps]:
  "ru_conn (in_entry f run) = ru_conn run" "ru_phase (in_entry f run) = ru_phase run"
  "ru_broken (in_entry f run) = ru_broken run" "ru_entry (in_entry f run) = f (ru_entry run)"
  "ru_sent (in_entry f run) = ru_sent run" "ru_options (in_entry f run) = ru_options run"
  "ru_statements (in_entry f run) = ru_statements run"
  by (simp_all add: in_entry_def)

lemma flight_simps [console_simps]:
  "ru_conn (in_flight b run) = ru_conn run" "ru_broken (in_flight b run) = ru_broken run"
  "ru_phase (in_flight b run) = ru_phase run"
  "en_backend (ru_entry (in_flight b run)) = en_backend (ru_entry run)"
  "cancelled (in_flight b run) = cancelled run" "ru_sent (in_flight b run) = ru_sent run"
  by (simp_all add: in_flight_def console_simps)

lemma interrupted_simps [console_simps]:
  "ru_conn (interrupted_if_cancelled run) = ru_conn run"
  "ru_phase (interrupted_if_cancelled run) = ru_phase run"
  "en_backend (ru_entry (interrupted_if_cancelled run)) = en_backend (ru_entry run)"
  "cancelled (interrupted_if_cancelled run) = cancelled run"
  "ru_sent (interrupted_if_cancelled run) = ru_sent run"
  by (simp_all add: interrupted_if_cancelled_def console_simps)

lemma added_simps [console_simps]:
  "ru_conn (add_results rs run) = ru_conn run" "ru_entry (add_results rs run) = ru_entry run"
  "ru_sent (add_results rs run) = ru_sent run"
  "ru_conn (cap_again host i c run) = ru_conn run" "ru_entry (cap_again host i c run) = ru_entry run"
  "ru_sent (cap_again host i c run) = ru_sent run"
  by (simp_all add: add_results_def cap_again_def)

lemma clean_up_simps [console_simps]:
  "ru_conn (clean_up run) = ru_conn run" "ru_entry (clean_up run) = ru_entry run" "ru_sent (clean_up run) = ru_sent run"
  "ru_conn (after_probe run) = ru_conn run" "ru_entry (after_probe run) = ru_entry run"
  "ru_sent (after_probe run) = ru_sent run"
  by (simp_all add: clean_up_def after_probe_def)

lemma look_simps [console_simps]:
  "ru_conn (look host i run) = ru_conn run" "en_backend (ru_entry (look host i run)) = en_backend (ru_entry run)"
  "cancelled (look host i run) = cancelled run"
  by (auto simp: look_def Let_def console_simps split: Sending.split)

lemma failed_simps [console_simps]:
  "ru_conn (failed_on_wire host i w e run) = ru_conn run"
  "en_backend (ru_entry (failed_on_wire host i w e run)) = en_backend (ru_entry run)"
  "cancelled (failed_on_wire host i w e run) = cancelled run"
  by (auto simp: failed_on_wire_def console_simps)

text \<open>A run at work has a connection; one that leaves at the end of a step has been cancelled and drops it.\<close>

fun at_work :: "Phase \<Rightarrow> bool" where
  "at_work Waiting = False"
| "at_work Released = False"
| "at_work Ended = False"
| "at_work _ = True"

lemma at_work_phases [simp]: "at_work ph \<Longrightarrow> ph \<noteq> Waiting \<and> ph \<noteq> Released \<and> ph \<noteq> Ended"
  by (cases ph) auto

definition goes_on :: "Run \<Rightarrow> bool" where
  "goes_on run \<longleftrightarrow> at_work (ru_phase run) \<and> (ru_phase run = Leaving \<longrightarrow> ru_broken run) \<and> ru_phase run \<noteq> Starting"

lemma clean_up_goes_on: "goes_on (clean_up run)" "goes_on (after_probe run)"
  by (auto simp: goes_on_def clean_up_def after_probe_def)

lemma look_goes_on: "goes_on (look host i run)"
  by (auto simp: look_def Let_def clean_up_goes_on split: Sending.split) (auto simp: goes_on_def)

lemma failed_goes_on: "goes_on (failed_on_wire host i w e run)"
  by (auto simp: goes_on_def failed_on_wire_def)

lemma waits_goes_on: "goes_on (run\<lparr>ru_phase := Finishing i list\<rparr>)" "goes_on (run\<lparr>ru_phase := Reporting i e\<rparr>)"
  by (simp_all add: goes_on_def)

text \<open>The events between taking the connection and leaving.\<close>

definition on_the_way :: "RunEvent \<Rightarrow> bool" where
  "on_the_way ev \<longleftrightarrow> (case ev of Borrowed c \<Rightarrow> False | Borrow_failed \<Rightarrow> False | Set_up c k \<Rightarrow> False | Reset_done ok \<Rightarrow> False
     | Left \<Rightarrow> False | Over \<Rightarrow> False | _ \<Rightarrow> True)"

lemma on_the_way_event:
  assumes "run_event host ev run = Some run'" and "on_the_way ev"
  shows "at_work (ru_phase run) \<and> goes_on run' \<and> ru_conn run' = ru_conn run
    \<and> en_backend (ru_entry run') = en_backend (ru_entry run)"
  using assms
  by (cases ev; cases "ru_phase run")
    (auto simp: on_the_way_def console_simps clean_up_goes_on look_goes_on failed_goes_on
      waits_goes_on Let_def
      split: if_splits)

lemma event_cancelled: "run_event host ev run = Some run' \<Longrightarrow> cancelled run' = cancelled run"
  by (cases ev; cases "ru_phase run") (auto simp: console_simps publish_def Let_def split: if_splits)

text \<open>A cancelled run sends nothing more.\<close>

lemma look_sends: "cancelled run \<Longrightarrow> ru_sent (look host i run) = ru_sent run"
  by (simp add: look_def console_simps)

lemma cancelled_event_sends:
  "run_event host ev run = Some run' \<Longrightarrow> cancelled run \<Longrightarrow> ru_sent run' = ru_sent run"
  by (cases ev; cases "ru_phase run")
    (auto simp: console_simps publish_def Let_def look_sends failed_on_wire_def rerun_unwrapped_def split: if_splits)

subsection \<open>The invariant\<close>

text \<open>A signal for run \<open>r\<close> that is on its way.\<close>

definition addressed_to :: "Console \<Rightarrow> nat \<Rightarrow> bool" where
  "addressed_to s r \<longleftrightarrow> r \<in> snd ` set (cs_wire s)"

definition run_ok :: "Console \<Rightarrow> nat \<Rightarrow> Run \<Rightarrow> bool" where
  "run_ok s r run \<longleftrightarrow>
     (case ru_conn run of None \<Rightarrow> \<not> at_work (ru_phase run) | Some c \<Rightarrow> at_work (ru_phase run) \<and> cs_conns s c = Held r)
   \<and> (case en_backend (ru_entry run) of
        Some (Some c) \<Rightarrow> ru_phase run \<noteq> Waiting \<and> ru_phase run \<noteq> Starting \<and> (ru_conn run = None \<or> ru_conn run = Some c)
      | _ \<Rightarrow> True)
   \<and> (ru_phase run = Leaving \<longrightarrow> ru_broken run \<or> (\<not> addressed_to s r \<and> (\<forall>c. ru_conn run = Some c \<longrightarrow> \<not> cs_dirty s c)))"

fun target :: "CancelPhase \<Rightarrow> nat option" where
  "target (Opening c) = Some c"
| "target (Signalling c b) = Some c"
| "target (Pausing c n) = Some c"
| "target (Repeating c n) = Some c"
| "target _ = None"

definition cancel_ok :: "Console \<Rightarrow> Cancel \<Rightarrow> bool" where
  "cancel_ok s ca \<longleftrightarrow> (case ca_run ca of None \<Rightarrow> True | Some r \<Rightarrow> r < length (cs_runs s)
     \<and> (case target (ca_phase ca) of None \<Rightarrow> True
       | Some c \<Rightarrow> cancelled (cs_runs s ! r) \<and> en_backend (ru_entry (cs_runs s ! r)) = Some (Some c)))"

definition signal_ok :: "Console \<Rightarrow> nat \<times> nat \<Rightarrow> bool" where
  "signal_ok s x \<longleftrightarrow> snd x < length (cs_runs s) \<and> cancelled (cs_runs s ! snd x)
     \<and> (cs_conns s (fst x) = Held (snd x) \<or> cs_conns s (fst x) = Closed)"

definition conn_ok :: "Console \<Rightarrow> nat \<Rightarrow> bool" where
  "conn_ok s c \<longleftrightarrow> (case cs_conns s c of Held r \<Rightarrow> r < length (cs_runs s) \<and> ru_conn (cs_runs s ! r) = Some c
     | Pooled \<Rightarrow> \<not> cs_dirty s c | Closed \<Rightarrow> True)"

definition registry_ok :: "Console \<Rightarrow> string \<Rightarrow> bool" where
  "registry_ok s q \<longleftrightarrow> (case cs_running s q of None \<Rightarrow> True
     | Some r \<Rightarrow> r < length (cs_runs s) \<and> ru_phase (cs_runs s ! r) \<noteq> Ended \<and> xo_queryId (ru_options (cs_runs s ! r)) = Some q)"

definition console_inv :: "Console \<Rightarrow> bool" where
  "console_inv s \<longleftrightarrow> (\<forall>r < length (cs_runs s). run_ok s r (cs_runs s ! r)) \<and> (\<forall>c. conn_ok s c) \<and> (\<forall>q. registry_ok s q)
     \<and> (\<forall>x \<in> set (cs_wire s). signal_ok s x) \<and> (\<forall>ca \<in> set (cs_cancels s). cancel_ok s ca)"

lemmas ok_defs = run_ok_def cancel_ok_def signal_ok_def conn_ok_def registry_ok_def

lemma inv_parts:
  assumes "console_inv s"
  shows "r < length (cs_runs s) \<Longrightarrow> run_ok s r (cs_runs s ! r)" and "conn_ok s c" and "registry_ok s q"
    and "x \<in> set (cs_wire s) \<Longrightarrow> signal_ok s x" and "k < length (cs_cancels s) \<Longrightarrow> cancel_ok s (cs_cancels s ! k)"
  using assms by (auto simp: console_inv_def)

text \<open>
  Replacing one run by one at another place of its work.  The other runs, the cancels and the signals see of it only
  its flag, its backend id and its connection.
\<close>

definition same_to_others :: "Run \<Rightarrow> Run \<Rightarrow> bool" where
  "same_to_others run run' \<longleftrightarrow> cancelled run' = cancelled run \<and> ru_options run' = ru_options run
     \<and> (en_backend (ru_entry run') = en_backend (ru_entry run) \<or> (\<forall>c. en_backend (ru_entry run) \<noteq> Some (Some c)))"

lemma options_kept [console_simps]:
  "ru_options (in_flight b run) = ru_options run" "ru_options (interrupted_if_cancelled run) = ru_options run"
  "ru_options (add_results rs run) = ru_options run" "ru_options (cap_again host i c run) = ru_options run"
  "ru_options (clean_up run) = ru_options run" "ru_options (after_probe run) = ru_options run"
  by (simp_all add: in_flight_def interrupted_if_cancelled_def console_simps add_results_def cap_again_def clean_up_def
      after_probe_def)

lemma look_options [console_simps]: "ru_options (look host i run) = ru_options run"
  "ru_options (failed_on_wire host i w e run) = ru_options run"
  by (auto simp: look_def failed_on_wire_def Let_def console_simps split: Sending.split)

lemma event_options: "run_event host ev run = Some run' \<Longrightarrow> ru_options run' = ru_options run"
  by (cases ev; cases "ru_phase run") (auto simp: console_simps publish_def Let_def split: if_splits)

lemma inv_step_run:
  assumes inv: "console_inv s" and r: "r < length (cs_runs s)" and same: "same_to_others (cs_runs s ! r) run'"
    and s': "s' = set_run r run' t" and t: "cs_runs t = cs_runs s" "cs_cancels t = cs_cancels s" "cs_wire t = cs_wire s"
    and reg: "\<And>q. cs_running t q = cs_running s q \<or> cs_running t q = None"
    and ended: "\<And>q. ru_phase run' = Ended \<Longrightarrow> cs_running t q \<noteq> Some r"
    and ok: "run_ok s' r run'"
    and conns: "\<And>c. cs_conns t c = cs_conns s c \<and> cs_dirty t c = cs_dirty s c
      \<or> (cs_conns s c = Held r \<or> cs_conns s c = Pooled)
        \<and> (cs_conns t c = Held r \<or> cs_conns t c = Closed \<or> cs_conns t c = Pooled \<and> \<not> cs_dirty t c \<and> \<not> addressed_to s r)"
    and held: "\<And>c. cs_conns t c = Held r \<Longrightarrow> ru_conn run' = Some c"
  shows "console_inv s'"
proof -
  have runs: "cs_runs s' = (cs_runs s)[r := run']" and rest: "cs_conns s' = cs_conns t" "cs_dirty s' = cs_dirty t"
      "cs_running s' = cs_running t" "cs_wire s' = cs_wire s" "cs_cancels s' = cs_cancels s"
    unfolding s' set_run_def using t by simp_all
  have others: "run_ok s' i (cs_runs s' ! i)" if "i < length (cs_runs s')" for i
  proof (cases "i = r")
    case False
    have same_conn: "cs_conns t c = Held i \<and> cs_dirty t c = cs_dirty s c" if "cs_conns s c = Held i" for c
      using conns [of c] that False by auto
    from inv_parts(1) [OF inv, of i] that runs have "run_ok s i (cs_runs s ! i)" by simp
    with same_conn show ?thesis unfolding run_ok_def runs rest addressed_to_def using False
      by (auto split: option.splits)
  qed (use ok runs r in simp)
  have "conn_ok s' c" for c
    using conns [of c] held [of c] inv_parts(2) [OF inv, of c] r unfolding conn_ok_def runs rest
    by (auto simp: nth_list_update split: Use.splits)
  moreover have "registry_ok s' q" for q
    using reg [of q] ended [of q] inv_parts(3) [OF inv, of q] same r unfolding registry_ok_def runs rest same_to_others_def
    by (auto simp: nth_list_update split: option.splits)
  moreover have "signal_ok s' x" if "x \<in> set (cs_wire s')" for x
  proof -
    from that have x: "x \<in> set (cs_wire s)" by (simp add: rest)
    then have "addressed_to s (snd x)" by (simp add: addressed_to_def)
    with conns [of "fst x"] inv_parts(4) [OF inv x] same r show ?thesis
      unfolding signal_ok_def runs rest same_to_others_def by (auto simp: nth_list_update)
  qed
  moreover have "cancel_ok s' ca" if "ca \<in> set (cs_cancels s')" for ca
    using that inv same r unfolding console_inv_def cancel_ok_def runs rest same_to_others_def
    by (fastforce simp: nth_list_update split: option.splits)
  ultimately show ?thesis using others by (auto simp: console_inv_def)
qed

text \<open>Every event of a run.\<close>

lemma on_the_way_conn: "on_the_way ev \<Longrightarrow> conn_event r ev run s = s"
  by (cases ev) (auto simp: on_the_way_def conn_event_def)

lemma set_run_use [simp]: "cs_conns (set_run r run s) = cs_conns s" "cs_dirty (set_run r run s) = cs_dirty s"
  "cs_wire (set_run r run s) = cs_wire s" "cs_running (set_run r run s) = cs_running s"
  "cs_cancels (set_run r run s) = cs_cancels s" "cs_runs (set_run r run s) = (cs_runs s)[r := run]"
  by (simp_all add: set_run_def)

lemma unregister_simps [simp]: "cs_conns (unregister r run s) = cs_conns s" "cs_dirty (unregister r run s) = cs_dirty s"
  "cs_wire (unregister r run s) = cs_wire s" "cs_cancels (unregister r run s) = cs_cancels s"
  "cs_runs (unregister r run s) = cs_runs s"
  by (auto simp: unregister_def split: option.split)

lemma unregister_running: "cs_running (unregister r run s) q = cs_running s q \<or> cs_running (unregister r run s) q = None"
  by (auto simp: unregister_def split: option.split)

lemma inv_on_the_way:
  assumes inv: "console_inv s" and r: "r < length (cs_runs s)" and ev: "run_event host ev (cs_runs s ! r) = Some run'"
    and way: "on_the_way ev"
  shows "console_inv (set_run r run' s)"
proof (rule inv_step_run [OF inv r, where t = s])
  let ?run = "cs_runs s ! r"
  note e = on_the_way_event [OF ev way] and ok = inv_parts(1) [OF inv r]
  from e obtain c where c: "ru_conn ?run = Some c" "cs_conns s c = Held r"
    using ok by (auto simp: run_ok_def split: option.splits)
  show "same_to_others ?run run'" using e event_cancelled [OF ev] event_options [OF ev] by (simp add: same_to_others_def)
  show "run_ok (set_run r run' s) r run'" using e ok c
    by (auto simp: run_ok_def goes_on_def addressed_to_def split: option.splits)
  show "cs_running s q \<noteq> Some r" if "ru_phase run' = Ended" for q using that e by (auto simp: goes_on_def)
  show "ru_conn run' = Some c'" if "cs_conns s c' = Held r" for c'
    using inv_parts(2) [OF inv, of c'] that e by (simp add: conn_ok_def)
qed auto

lemma inv_borrowed:
  assumes inv: "console_inv s" and r: "r < length (cs_runs s)" and ph: "ru_phase (cs_runs s ! r) = Waiting"
    and free: "cs_conns s c = Pooled"
  shows "console_inv (set_run r ((cs_runs s ! r)\<lparr>ru_phase := Starting, ru_conn := Some c\<rparr>)
    (conn_event r (Borrowed c) (cs_runs s ! r) s))"
proof (rule inv_step_run [OF inv r _ refl])
  note ok = inv_parts(1) [OF inv r]
  show "run_ok (set_run r ((cs_runs s ! r)\<lparr>ru_phase := Starting, ru_conn := Some c\<rparr>)
      (conn_event r (Borrowed c) (cs_runs s ! r) s)) r ((cs_runs s ! r)\<lparr>ru_phase := Starting, ru_conn := Some c\<rparr>)"
    using ok ph by (auto simp: run_ok_def conn_event_def split: option.splits)
  show "ru_conn ((cs_runs s ! r)\<lparr>ru_phase := Starting, ru_conn := Some c\<rparr>) = Some c'"
    if "cs_conns (conn_event r (Borrowed c) (cs_runs s ! r) s) c' = Held r" for c'
    using that inv_parts(2) [OF inv, of c'] ok ph by (auto simp: conn_event_def conn_ok_def run_ok_def split: if_splits)
qed (use free in \<open>auto simp: conn_event_def same_to_others_def\<close>)

lemma inv_set_up:
  assumes inv: "console_inv s" and r: "r < length (cs_runs s)" and ev: "run_event host (Set_up capped known) (cs_runs s ! r) = Some run'"
  shows "console_inv (set_run r run' s)"
proof (rule inv_step_run [OF inv r, where t = s])
  let ?run = "cs_runs s ! r"
  note ok = inv_parts(1) [OF inv r]
  from ev have ph: "ru_phase ?run = Starting"
    and run': "run' = look host 0 (publish (ru_conn ?run) known (?run\<lparr>ru_capped := capped\<rparr>))"
    by (auto split: if_splits)
  then obtain c where c: "ru_conn ?run = Some c" "cs_conns s c = Held r" using ok by (auto simp: run_ok_def split: option.splits)
  have e: "goes_on run'" "ru_conn run' = Some c" unfolding run' using c
    by (simp_all add: look_goes_on console_simps publish_def)
  have b: "en_backend (ru_entry ?run) = None \<or> en_backend (ru_entry ?run) = Some None"
    using ok ph by (auto simp: run_ok_def split: option.splits)
  show "same_to_others ?run run'" using b event_cancelled [OF ev] event_options [OF ev] by (auto simp: same_to_others_def)
  have "en_backend (ru_entry run') \<in> {None, Some None, Some (Some c)}" using b c unfolding run'
    by (auto simp: console_simps publish_def)
  then show "run_ok (set_run r run' s) r run'" using e c
    by (auto simp: run_ok_def goes_on_def addressed_to_def split: option.splits)
  show "cs_running s q \<noteq> Some r" if "ru_phase run' = Ended" for q using that e by (auto simp: goes_on_def)
  show "ru_conn run' = Some c'" if "cs_conns s c' = Held r" for c'
    using inv_parts(2) [OF inv, of c'] that e c by (simp add: conn_ok_def)
qed auto

lemma inv_reset:
  assumes inv: "console_inv s" and r: "r < length (cs_runs s)" and ph: "ru_phase (cs_runs s ! r) = Resetting"
    and run': "run' = (cs_runs s ! r)\<lparr>ru_broken := \<not> ok \<or> cancelled (cs_runs s ! r), ru_phase := Leaving\<rparr>"
  shows "console_inv (set_run r run' (conn_event r (Reset_done ok) (cs_runs s ! r) s))"
proof (rule inv_step_run [OF inv r _ refl])
  let ?run = "cs_runs s ! r" and ?t = "conn_event r (Reset_done ok) (cs_runs s ! r) s"
  note o = inv_parts(1) [OF inv r]
  from o ph obtain c where c: "ru_conn ?run = Some c" "cs_conns s c = Held r" by (auto simp: run_ok_def split: option.splits)
  have quiet_wire: "\<not> cancelled ?run \<Longrightarrow> \<not> addressed_to s r"
    using inv_parts(4) [OF inv] by (fastforce simp: addressed_to_def signal_ok_def)
  show "run_ok (set_run r run' ?t) r run'" using c o ph quiet_wire unfolding run'
    by (auto simp: run_ok_def conn_event_def addressed_to_def split: option.splits)
  show "ru_conn run' = Some c'" if "cs_conns ?t c' = Held r" for c'
    using that inv_parts(2) [OF inv, of c'] c unfolding run' by (auto simp: conn_event_def conn_ok_def split: if_splits)
  show "cs_conns ?t c' = cs_conns s c' \<and> cs_dirty ?t c' = cs_dirty s c'
      \<or> (cs_conns s c' = Held r \<or> cs_conns s c' = Pooled)
        \<and> (cs_conns ?t c' = Held r \<or> cs_conns ?t c' = Closed \<or> cs_conns ?t c' = Pooled \<and> \<not> cs_dirty ?t c' \<and> \<not> addressed_to s r)" for c'
    using c by (auto simp: conn_event_def)
qed (auto simp: run' conn_event_def same_to_others_def split: option.split)

lemma inv_left:
  assumes inv: "console_inv s" and r: "r < length (cs_runs s)" and ph: "ru_phase (cs_runs s ! r) = Leaving"
    and run': "run' = (cs_runs s ! r)\<lparr>ru_phase := Released, ru_conn := None\<rparr>"
  shows "console_inv (set_run r run' (conn_event r Left (cs_runs s ! r) s))"
proof (rule inv_step_run [OF inv r _ refl])
  let ?run = "cs_runs s ! r" and ?t = "conn_event r Left (cs_runs s ! r) s"
  note o = inv_parts(1) [OF inv r]
  from o ph obtain c where c: "ru_conn ?run = Some c" "cs_conns s c = Held r" by (auto simp: run_ok_def split: option.splits)
  show "run_ok (set_run r run' ?t) r run'" using o ph unfolding run' by (auto simp: run_ok_def split: option.splits)
  show "ru_conn run' = Some c'" if "cs_conns ?t c' = Held r" for c'
    using that inv_parts(2) [OF inv, of c'] c unfolding run' by (auto simp: conn_event_def conn_ok_def split: if_splits)
  show "cs_conns ?t c' = cs_conns s c' \<and> cs_dirty ?t c' = cs_dirty s c'
      \<or> (cs_conns s c' = Held r \<or> cs_conns s c' = Pooled)
        \<and> (cs_conns ?t c' = Held r \<or> cs_conns ?t c' = Closed \<or> cs_conns ?t c' = Pooled \<and> \<not> cs_dirty ?t c' \<and> \<not> addressed_to s r)" for c'
    using c o ph by (auto simp: conn_event_def run_ok_def)
qed (auto simp: run' conn_event_def same_to_others_def split: option.split)

lemma inv_over:
  assumes inv: "console_inv s" and r: "r < length (cs_runs s)" and ev: "run_event host Over (cs_runs s ! r) = Some run'"
  shows "console_inv (set_run r run' (conn_event r Over (cs_runs s ! r) s))"
proof (rule inv_step_run [OF inv r _ refl])
  let ?run = "cs_runs s ! r" and ?t = "conn_event r Over (cs_runs s ! r) s"
  note o = inv_parts(1) [OF inv r]
  from ev have ph: "ru_phase ?run = Released" by (auto split: if_splits)
  from o ph have none: "ru_conn ?run = None" by (auto simp: run_ok_def split: option.splits)
  have e: "ru_conn run' = None" "ru_phase run' = Ended"
    "en_backend (ru_entry run') = (case en_backend (ru_entry ?run) of None \<Rightarrow> Some None | b \<Rightarrow> b)"
    using ev none by (auto simp: console_simps split: if_splits)
  show "run_ok (set_run r run' ?t) r run'" using o ph e by (auto simp: run_ok_def split: option.splits)
  show "same_to_others ?run run'" using e event_cancelled [OF ev] event_options [OF ev]
    by (auto simp: same_to_others_def split: option.splits)
  show "cs_running ?t q \<noteq> Some r" for q
    using inv_parts(3) [OF inv, of q] unfolding conn_event_def registry_ok_def unregister_def
    by (auto split: option.splits if_splits)
  show "ru_conn run' = Some c'" if "cs_conns ?t c' = Held r" for c'
    using that inv_parts(2) [OF inv, of c'] none by (auto simp: conn_event_def conn_ok_def)
qed (auto simp: conn_event_def unregister_running)

lemma inv_borrow_failed:
  assumes inv: "console_inv s" and r: "r < length (cs_runs s)" and ph: "ru_phase (cs_runs s ! r) = Waiting"
  shows "console_inv (set_run r ((cs_runs s ! r)\<lparr>ru_phase := Released\<rparr>) s)"
proof (rule inv_step_run [OF inv r _ refl])
  note o = inv_parts(1) [OF inv r]
  show "run_ok (set_run r ((cs_runs s ! r)\<lparr>ru_phase := Released\<rparr>) s) r ((cs_runs s ! r)\<lparr>ru_phase := Released\<rparr>)"
    using o ph by (auto simp: run_ok_def split: option.splits)
  show "ru_conn ((cs_runs s ! r)\<lparr>ru_phase := Released\<rparr>) = Some c" if "cs_conns s c = Held r" for c
    using that inv_parts(2) [OF inv, of c] by (simp add: conn_ok_def)
qed (auto simp: same_to_others_def)

lemma inv_run_step: "console_inv s \<Longrightarrow> step_run host r ev s = Some s' \<Longrightarrow> console_inv s'"
proof -
  assume inv: "console_inv s" and step: "step_run host r ev s = Some s'"
  from step obtain run' where r: "r < length (cs_runs s)" and ev: "run_event host ev (cs_runs s ! r) = Some run'"
    and free: "case ev of Borrowed c \<Rightarrow> cs_conns s c = Pooled | _ \<Rightarrow> True"
    and s': "s' = set_run r run' (conn_event r ev (cs_runs s ! r) s)"
    by (auto simp: step_run_def split: if_splits)
  show ?thesis
  proof (cases "on_the_way ev")
    case True
    with inv_on_the_way [OF inv r ev] show ?thesis by (simp add: s' on_the_way_conn)
  next
    case False
    then show ?thesis
    proof (cases ev)
      case (Borrowed c)
      with ev free inv_borrowed [OF inv r, of c] s' show ?thesis by (auto split: if_splits)
    next
      case Borrow_failed
      with ev inv_borrow_failed [OF inv r] s' show ?thesis by (auto simp: conn_event_def split: if_splits)
    next
      case (Set_up a b)
      with inv_set_up [OF inv r, of host a b] ev s' show ?thesis by (simp add: conn_event_def)
    next
      case (Reset_done ok)
      with ev inv_reset [OF inv r] s' show ?thesis by (auto split: if_splits)
    next
      case Left
      with ev inv_left [OF inv r] s' show ?thesis by (auto split: if_splits)
    next
      case Over
      with ev inv_over [OF inv r] s' show ?thesis by simp
    qed (auto simp: on_the_way_def)
  qed
qed

text \<open>A run and a cancel begin.\<close>

lemma inv_execute: "console_inv s \<Longrightarrow> console_inv (execute opts sts s)"
proof -
  assume inv: "console_inv s"
  let ?s = "execute opts sts s" and ?n = "length (cs_runs s)"
  have runs: "cs_runs ?s ! i = cs_runs s ! i" "i < length (cs_runs ?s)" if "i < ?n" for i
    using that by (simp_all add: execute_def nth_append)
  have len: "length (cs_runs ?s) = Suc ?n" by (simp add: execute_def)
  have same: "cs_conns ?s = cs_conns s" "cs_dirty ?s = cs_dirty s" "cs_wire ?s = cs_wire s" "cs_cancels ?s = cs_cancels s"
    by (simp_all add: execute_def)
  have new: "ru_phase (cs_runs ?s ! ?n) = Waiting" "ru_conn (cs_runs ?s ! ?n) = None"
    "ru_entry (cs_runs ?s ! ?n) = newEntry" "xo_queryId (ru_options (cs_runs ?s ! ?n)) = xo_queryId opts"
    by (simp_all add: execute_def)
  have "run_ok ?s i (cs_runs ?s ! i)" if "i < length (cs_runs ?s)" for i
  proof (cases "i < ?n")
    case True
    with inv_parts(1) [OF inv True] show ?thesis by (simp add: run_ok_def runs same addressed_to_def split: option.splits)
  next
    case False
    with that len have "i = ?n" by simp
    then show ?thesis by (simp add: run_ok_def new newEntry_def)
  qed
  moreover have "conn_ok ?s c" for c
    using inv_parts(2) [OF inv, of c] by (auto simp: conn_ok_def same runs split: Use.splits)
  moreover have "registry_ok ?s q" for q
    using inv_parts(3) [OF inv, of q] runs new len
    by (auto simp: registry_ok_def execute_def nth_append split: option.splits if_splits)
  moreover have "signal_ok ?s x" if "x \<in> set (cs_wire ?s)" for x
    using inv_parts(4) [OF inv, of x] that by (auto simp: signal_ok_def same runs)
  moreover have "cancel_ok ?s ca" if "ca \<in> set (cs_cancels ?s)" for ca
    using inv that by (auto simp: console_inv_def cancel_ok_def same runs split: option.splits)
  ultimately show ?thesis by (simp add: console_inv_def)
qed

lemma ok_cancels:
  "run_ok (s\<lparr>cs_cancels := x\<rparr>) = run_ok s" "conn_ok (s\<lparr>cs_cancels := x\<rparr>) = conn_ok s"
  "registry_ok (s\<lparr>cs_cancels := x\<rparr>) = registry_ok s" "signal_ok (s\<lparr>cs_cancels := x\<rparr>) = signal_ok s"
  "cancel_ok (s\<lparr>cs_cancels := x\<rparr>) = cancel_ok s"
  by ((intro ext)?, simp add: ok_defs addressed_to_def cong: option.case_cong Use.case_cong)+

lemma inv_cancel: "console_inv s \<Longrightarrow> console_inv (cancel q s)"
proof -
  assume inv: "console_inv s"
  have "cancel_ok s \<lparr>ca_query = q, ca_run = cs_running s q,
      ca_phase = if cs_running s q = None then Answered False else AwaitBackend\<rparr>"
    using inv_parts(3) [OF inv, of q] by (auto simp: cancel_ok_def registry_ok_def split: option.splits)
  with inv show ?thesis by (auto simp: console_inv_def cancel_def ok_cancels)
qed

text \<open>What a cancel changes: the flags of the entry, its own place, and the signals.\<close>

lemma inv_edit_entry:
  assumes inv: "console_inv s" and r: "r < length (cs_runs s)"
    and f: "\<And>en. en_backend (f en) = en_backend en" "\<And>en. en_cancelled en \<Longrightarrow> en_cancelled (f en)"
  shows "console_inv (edit_entry r f s)"
proof -
  let ?s = "edit_entry r f s"
  have runs: "cs_runs ?s ! i = (if i = r then in_entry f (cs_runs s ! i) else cs_runs s ! i)" for i
    using r by (simp add: edit_entry_def)
  have same: "length (cs_runs ?s) = length (cs_runs s)" "cs_conns ?s = cs_conns s" "cs_dirty ?s = cs_dirty s"
    "cs_wire ?s = cs_wire s" "cs_running ?s = cs_running s" "cs_cancels ?s = cs_cancels s"
    by (simp_all add: edit_entry_def)
  have "run_ok ?s i (cs_runs ?s ! i)" if "i < length (cs_runs s)" for i
    using inv_parts(1) [OF inv that] unfolding run_ok_def runs same addressed_to_def
    by (auto simp: console_simps f cong: option.case_cong)
  moreover have "conn_ok ?s c" for c
    using inv_parts(2) [OF inv, of c] unfolding conn_ok_def runs same by (auto simp: console_simps split: Use.splits)
  moreover have "registry_ok ?s q" for q
    using inv_parts(3) [OF inv, of q] unfolding registry_ok_def runs same by (auto simp: console_simps split: option.splits)
  moreover have "signal_ok ?s x" if "x \<in> set (cs_wire s)" for x
    using inv_parts(4) [OF inv that] f(2) unfolding signal_ok_def runs same by (auto simp: console_simps)
  moreover have "cancel_ok ?s ca" if "ca \<in> set (cs_cancels s)" for ca
  proof -
    from inv that have "cancel_ok s ca" by (simp add: console_inv_def)
    with f show ?thesis unfolding cancel_ok_def runs same by (auto simp: console_simps split: option.splits)
  qed
  ultimately show ?thesis unfolding console_inv_def same by blast
qed

lemma inv_set_cancel:
  assumes inv: "console_inv s" and k: "k < length (cs_cancels s)"
    and ok: "cancel_ok s ((cs_cancels s ! k)\<lparr>ca_phase := ph\<rparr>)"
  shows "console_inv (set_cancel k ph s)"
proof -
  from ok inv have "\<forall>ca \<in> set ((cs_cancels s)[k := (cs_cancels s ! k)\<lparr>ca_phase := ph\<rparr>]). cancel_ok s ca"
    by (auto simp: console_inv_def dest: subsetD [OF set_update_subset_insert])
  with inv show ?thesis by (simp add: console_inv_def set_cancel_def ok_cancels)
qed

lemma inv_place:
  assumes inv: "console_inv s" and k: "k < length (cs_cancels s)"
    and ph: "target ph = None \<or> target ph = target (ca_phase (cs_cancels s ! k))"
  shows "console_inv (set_cancel k ph s)"
  using inv_parts(5) [OF inv k] ph by (intro inv_set_cancel [OF inv k]) (auto simp: cancel_ok_def split: option.splits)

lemma inv_signal:
  assumes inv: "console_inv s" and k: "k < length (cs_cancels s)" and r: "ca_run (cs_cancels s ! k) = Some r"
    and c: "target (ca_phase (cs_cancels s ! k)) = Some c"
    and still: "stillRunning (cs_cancels s ! k) r s" and q: "quiet s"
  shows "console_inv (send_signal c r s)"
proof -
  let ?s = "send_signal c r s"
  note ca = inv_parts(5) [OF inv k]
  from ca r c have r': "r < length (cs_runs s)" and flag: "cancelled (cs_runs s ! r)"
    and b: "en_backend (ru_entry (cs_runs s ! r)) = Some (Some c)" by (auto simp: cancel_ok_def)
  note o = inv_parts(1) [OF inv r']
  from still inv_parts(3) [OF inv, of "ca_query (cs_cancels s ! k)"] have "ru_phase (cs_runs s ! r) \<noteq> Ended"
    by (auto simp: stillRunning_def registry_ok_def)
  moreover from q r' have "ru_phase (cs_runs s ! r) \<noteq> Leaving" "ru_phase (cs_runs s ! r) \<noteq> Released"
    by (auto simp: quiet_def list_all_length)
  moreover from o b have "ru_phase (cs_runs s ! r) \<noteq> Waiting" by (auto simp: run_ok_def)
  ultimately have held: "cs_conns s c = Held r" and "ru_phase (cs_runs s ! r) \<noteq> Leaving"
    using o b by (cases "ru_phase (cs_runs s ! r)"; auto simp: run_ok_def split: option.splits)+
  have "run_ok ?s i (cs_runs s ! i)" if "i < length (cs_runs s)" for i
    using inv_parts(1) [OF inv that] \<open>ru_phase (cs_runs s ! r) \<noteq> Leaving\<close>
    by (auto simp: run_ok_def send_signal_def addressed_to_def split: option.splits)
  moreover have "signal_ok ?s x" if "x \<in> set (cs_wire ?s)" for x
    using inv_parts(4) [OF inv, of x] that held flag r' by (auto simp: send_signal_def signal_ok_def)
  moreover have "conn_ok ?s = conn_ok s" "registry_ok ?s = registry_ok s" "cancel_ok ?s = cancel_ok s"
    by (intro ext, simp add: ok_defs send_signal_def cong: option.case_cong Use.case_cong)+
  ultimately show ?thesis using inv by (simp add: console_inv_def send_signal_def)
qed

lemma edit_entry_kept [simp]: "cs_cancels (edit_entry r f s) = cs_cancels s" "cs_running (edit_entry r f s) = cs_running s"
  "length (cs_runs (edit_entry r f s)) = length (cs_runs s)"
  by (simp_all add: edit_entry_def)

lemma entry_edited: "r < length (cs_runs s) \<Longrightarrow> ru_entry (cs_runs (edit_entry r f s) ! r) = f (ru_entry (cs_runs s ! r))"
  by (simp add: edit_entry_def console_simps)

lemma inv_begin_sending:
  assumes inv: "console_inv s" and k: "k < length (cs_cancels s)" and r: "ca_run (cs_cancels s ! k) = Some r"
    and b: "en_backend (entry_of r s) = Some (Some c)"
  shows "console_inv (begin_sending k r c s)"
proof -
  from inv_parts(5) [OF inv k] r have r': "r < length (cs_runs s)" by (simp add: cancel_ok_def)
  let ?s1 = "edit_entry r (\<lambda>en. en\<lparr>en_cancelled := True\<rparr>) s"
  let ?s2 = "edit_entry r (\<lambda>en. en\<lparr>en_cancelling := Some k\<rparr>) ?s1"
  have inv1: "console_inv ?s1" using inv_edit_entry [OF inv r'] by simp
  have inv2: "console_inv ?s2" using inv_edit_entry [OF inv1] r' by simp
  have "cancel_ok ?s2 ((cs_cancels s ! k)\<lparr>ca_phase := Opening c\<rparr>)"
    using r r' b by (simp add: cancel_ok_def entry_edited entry_of_def)
  with inv_set_cancel [OF inv2, of k "Opening c"] k have "console_inv (set_cancel k (Opening c) ?s2)" by simp
  moreover have "console_inv (set_cancel k (Answered x) ?s2)" "console_inv (set_cancel k (Sharing k') ?s1)" for x k'
    using inv_place [OF inv2, of k] inv_place [OF inv1, of k] k by simp_all
  ultimately show ?thesis by (simp add: begin_sending_def Let_def split: option.split)
qed

lemma inv_signalled_if: "console_inv s \<Longrightarrow> r < length (cs_runs s) \<Longrightarrow> console_inv (signalled_if b r s)"
  by (simp add: signalled_if_def inv_edit_entry)

lemma signalled_if_kept [simp]: "cs_cancels (signalled_if b r s) = cs_cancels s"
  by (simp add: signalled_if_def)

lemma inv_cancel_step:
  assumes inv: "console_inv s" and step: "step_cancel k ev s = Some s'"
  shows "console_inv s'"
proof -
  from step obtain r where k: "k < length (cs_cancels s)" and r: "ca_run (cs_cancels s ! k) = Some r"
    and q: "follows_a_promise ev \<or> quiet s" and ev: "cancel_event k ev r s = Some s'"
    by (auto simp: step_cancel_def split: if_splits option.splits)
  from inv_parts(5) [OF inv k] r have r': "r < length (cs_runs s)" by (simp add: cancel_ok_def)
  note place = inv_place [OF inv k]
  have gave_up: "console_inv (give_up k r s)" unfolding give_up_def
    using inv_edit_entry [OF inv r', of "\<lambda>en. en\<lparr>en_cancelling := None\<rparr>"] k by (intro inv_place) auto
  have mark: "console_inv (set_cancel k ph (signalled_if b r s))"
    if "target ph = None \<or> target ph = target (ca_phase (cs_cancels s ! k))" for ph b
    using inv_place [OF inv_signalled_if [OF inv r', of b], of k ph] that k by simp
  have sent: "console_inv (set_cancel k ph (send_signal c r s))"
    if "target ph = Some c" "target (ca_phase (cs_cancels s ! k)) = Some c" "stillRunning (cs_cancels s ! k) r s" "quiet s"
    for ph c
    using inv_place [OF inv_signal [OF inv k r that(2-4)], of k ph] that k by (simp add: send_signal_def)
  show ?thesis
  proof (cases "ca_phase (cs_cancels s ! k)")
    case AwaitBackend
    with ev inv_begin_sending [OF inv k r] place show ?thesis
      by (cases ev) (auto simp: cancel_event_def Let_def split: option.splits if_splits)
  next
    case (Sharing k')
    with ev place show ?thesis
      by (cases ev) (auto simp: cancel_event_def Let_def split: CancelPhase.splits)
  next
    case (Opening c)
    with ev q place gave_up sent show ?thesis
      by (cases ev) (auto simp: cancel_event_def Let_def follows_a_promise_def split: if_splits)
  next
    case (Signalling c b)
    with ev place gave_up mark show ?thesis
      by (cases ev) (auto simp: cancel_event_def Let_def split: if_splits)
  next
    case (Pausing c n)
    with ev q place sent show ?thesis
      by (cases ev) (auto simp: cancel_event_def Let_def follows_a_promise_def split: if_splits)
  next
    case (Repeating c n)
    with ev mark show ?thesis by (cases ev) (auto simp: cancel_event_def Let_def split: if_splits)
  next
    case Settling
    with ev place show ?thesis by (cases ev) (auto simp: cancel_event_def Let_def split: if_splits)
  qed (use ev in \<open>auto simp: cancel_event_def Let_def\<close>)
qed

lemma inv_start: "console_inv no_console"
  by (simp add: console_inv_def no_console_def conn_ok_def registry_ok_def)

lemma reachable_inv: "console_reachable host s \<Longrightarrow> console_inv s"
proof (induction rule: console_reachable.induct)
  case (move s ev s')
  then show ?case
    by (cases ev) (auto simp: inv_execute inv_cancel intro: inv_run_step inv_cancel_step split: if_splits)
qed (rule inv_start)

subsection \<open>The properties\<close>

text \<open>A sequence of events.\<close>

fun console_run :: "ConsoleHost \<Rightarrow> ConsoleEvent list \<Rightarrow> Console \<Rightarrow> Console option" where
  "console_run host [] s = Some s"
| "console_run host (ev # evs) s = (case console_step host ev s of Some s' \<Rightarrow> console_run host evs s' | None \<Rightarrow> None)"

lemma run_reachable: "console_reachable host s \<Longrightarrow> console_run host evs s = Some s' \<Longrightarrow> console_reachable host s'"
  by (induction evs arbitrary: s) (auto split: option.splits intro: console_reachable.move)

text \<open>
  C6: whatever runs and cancels interleave, a cancel signal that was sent, and may arrive at any later time, is addressed
  to a connection that is still held by the run it is meant for or has been closed: never to one that another
  run holds or that is back in the pool; and a connection in the pool has been reset since it was last used.
\<close>

theorem signals_stay_with_their_run:
  assumes "console_reachable host s"
  shows "case cs_conns s c of
      Pooled \<Rightarrow> \<not> cs_dirty s c \<and> (\<forall>r. (c, r) \<notin> set (cs_wire s))
    | Held r \<Rightarrow> (\<forall>r'. (c, r') \<in> set (cs_wire s) \<longrightarrow> r' = r)
    | Closed \<Rightarrow> True"
proof -
  note inv = reachable_inv [OF assms]
  have "cs_conns s c = Held r \<or> cs_conns s c = Closed" if "(c, r) \<in> set (cs_wire s)" for r
    using inv_parts(4) [OF inv that] by (simp add: signal_ok_def)
  with inv_parts(2) [OF inv, of c] show ?thesis by (force simp: conn_ok_def split: Use.split)
qed

lemma conn_event_runs: "cs_runs (conn_event r ev run s) = cs_runs s"
  by (cases ev) (auto simp: conn_event_def split: option.split)

text \<open>
  C7: once a cancel has set its flag, nothing more of the script is sent, not the next statement and not the one on
  the wire a second time, and the flag stays set.
\<close>

theorem cancelled_run_sends_nothing:
  assumes "console_step host ev s = Some s'" and "r < length (cs_runs s)" and "cancelled (cs_runs s ! r)"
  shows "ru_sent (cs_runs s' ! r) = ru_sent (cs_runs s ! r) \<and> cancelled (cs_runs s' ! r)"
proof -
  have edit: "ru_sent (cs_runs (edit_entry i f t) ! r) = ru_sent (cs_runs t ! r)
      \<and> cancelled (cs_runs (edit_entry i f t) ! r)"
    if "cancelled (cs_runs t ! r)" "r < length (cs_runs t)" "\<And>en. en_cancelled en \<Longrightarrow> en_cancelled (f en)" for i f t
    using that by (cases "i = r") (auto simp: edit_entry_def console_simps)
  have runs: "cs_runs (set_cancel k ph t) = cs_runs t" "cs_runs (send_signal c i t) = cs_runs t" for k ph c i t
    by (simp_all add: set_cancel_def send_signal_def)
  show ?thesis
  proof (cases ev)
    case (OfRun i e)
    with assms(1) obtain run' where "run_event host e (cs_runs s ! i) = Some run'"
      and s': "s' = set_run i run' (conn_event i e (cs_runs s ! i) s)"
      by (auto simp: step_run_def split: if_splits)
    with assms(2,3) event_cancelled cancelled_event_sends show ?thesis
      by (cases "i = r") (simp_all add: s' conn_event_runs)
  next
    case (OfCancel k e)
    with assms obtain i where "cancel_event k e i s = Some s'"
      by (auto simp: step_cancel_def split: if_splits option.splits)
    then show ?thesis using assms(2,3)
      by (cases "ca_phase (cs_cancels s ! k)"; cases e)
        (auto simp: cancel_event_def Let_def begin_sending_def give_up_def signalled_if_def runs edit
          split: if_splits option.splits CancelPhase.splits)
  qed (use assms in \<open>auto simp: execute_def cancel_def nth_append split: if_splits\<close>)
qed

subsection \<open>Two runs and a cancel\<close>

definition pg_host :: ConsoleHost where
  "pg_host = \<lparr>hs_dialect = Postgres, hs_copyFrom = True, hs_wrapperOnlyErrors = []\<rparr>"

definition one_script :: "string \<Rightarrow> ConsoleEvent" where
  "one_script q = Execute \<lparr>xo_maxRows = 10, xo_stopOnError = True, xo_queryId = Some q, xo_streams = False, xo_probes = False\<rparr>
     [\<lparr>st_sql = ''SELECT 1'', st_line = 1\<rparr>, \<lparr>st_sql = ''DELETE FROM t'', st_line = 2\<rparr>]"

definition cancelled_script :: "ConsoleEvent list" where
  "cancelled_script = [one_script ''a'', OfRun 0 (Borrowed 7), OfRun 0 (Set_up False True), CancelCall ''a'',
     OfCancel 0 Backend_known, OfCancel 0 Opened]"

definition signalled_state :: Console where
  "signalled_state = (case console_run pg_host cancelled_script no_console of Some s \<Rightarrow> s | None \<Rightarrow> no_console)"

lemma script_runs: "case console_run pg_host cancelled_script no_console of Some s \<Rightarrow> True | None \<Rightarrow> False"
  by code_simp

lemma signalled_reachable: "console_reachable pg_host signalled_state"
  using run_reachable [OF console_reachable.start, of pg_host cancelled_script] script_runs
  by (auto simp: signalled_state_def split: option.splits)

lemma signalled_state:
  "cs_conns signalled_state 7 = Held 0" "cs_wire signalled_state = [(7, 0)]" "cs_conns signalled_state 8 = Pooled"
  "length (cs_runs signalled_state) = 1" "cancelled (cs_runs signalled_state ! 0)"
  "ru_sent (cs_runs signalled_state ! 0) = [(0, Sent_wrapped (WRAP_PREFIX @ ''SELECT 1'' @ [CHR 0x0A] @ '') AS _tsmyadmin LIMIT 11''))]"
  by code_simp+

lemma signals_stay_with_their_run_witness:
  "(7, 0) \<in> set (cs_wire signalled_state) \<and> (7, 1) \<notin> set (cs_wire signalled_state)
    \<and> \<not> cs_dirty signalled_state 8"
  using signals_stay_with_their_run [OF signalled_reachable, of 7] signals_stay_with_their_run [OF signalled_reachable, of 8]
  by (simp add: signalled_state)

text \<open>The statement fails as it is cancelled; the second is not sent.\<close>

definition stopped_failure :: SqlFailure where
  "stopped_failure = \<lparr>sf_code = QUERY_FAILED, sf_message = ''canceling statement due to user request'', sf_detail = None,
     sf_native = Some ''57014'', sf_position = None\<rparr>"

definition stopped_state :: Console where
  "stopped_state = (case console_step pg_host (OfRun 0 (Threw stopped_failure)) signalled_state of
     Some s \<Rightarrow> s | None \<Rightarrow> no_console)"

lemma stopped_step:
  "case console_step pg_host (OfRun 0 (Threw stopped_failure)) signalled_state of Some s \<Rightarrow> True | None \<Rightarrow> False"
  by code_simp

lemma cancelled_run_sends_nothing_witness:
  "ru_sent (cs_runs stopped_state ! 0) = ru_sent (cs_runs signalled_state ! 0) \<and> cancelled (cs_runs stopped_state ! 0)"
proof (rule cancelled_run_sends_nothing)
  show "console_step pg_host (OfRun 0 (Threw stopped_failure)) signalled_state = Some stopped_state"
    using stopped_step unfolding stopped_state_def by (auto split: option.splits)
qed (simp_all add: signalled_state)

end
