(* ===== verification/Infer_Type.thy ===== *)
theory Infer_Type
  imports Dialects
begin

text \<open>
  The column types guessed for an imported file: \<open>packages/shared/src/infer-type.ts\<close>.  The lemmas show that every value
  of the column fits the type it is given, and that whole numbers get the narrowest one.
\<close>

subsection \<open>What a text can be read as\<close>

datatype RowCell = TextCell string | NullCell | BytesCell string

definition unsigned :: "string \<Rightarrow> string" where
  "unsigned s = (if prefix ''-'' s then tl s else s)"

definition whole_number :: "string \<Rightarrow> bool" where
  "whole_number t \<longleftrightarrow> t = ''0'' \<or> (t \<noteq> [] \<and> hd t \<noteq> CHR ''0'' \<and> list_all js_digit t)"

definition INT_TEXT :: "string \<Rightarrow> bool" where
  "INT_TEXT s \<longleftrightarrow> whole_number (unsigned s)"

definition fraction_of :: "string \<Rightarrow> string option" where
  "fraction_of t = (case dropWhile (\<lambda>c. c \<noteq> CHR ''.'') t of [] \<Rightarrow> None | _ # f \<Rightarrow> Some f)"

definition DECIMAL_TEXT :: "string \<Rightarrow> bool" where
  "DECIMAL_TEXT s \<longleftrightarrow> whole_number (takeWhile (\<lambda>c. c \<noteq> CHR ''.'') (unsigned s))
     \<and> (case fraction_of (unsigned s) of Some f \<Rightarrow> f \<noteq> [] \<and> list_all js_digit f | None \<Rightarrow> False)"

text \<open>\<open>BigInt(cell)\<close> of a text \<open>INT_TEXT\<close> takes.\<close>

definition int_value :: "string \<Rightarrow> int" where
  "int_value s = (if prefix ''-'' s then - int (read_nat (tl s)) else int (read_nat s))"

definition INT32 :: int where "INT32 = 2147483647"

definition INT64 :: int where "INT64 = 9223372036854775807"

definition MAX_PRECISION :: nat where "MAX_PRECISION = 38"

definition MAX_SCALE :: nat where "MAX_SCALE = 30"

text \<open>The days of a month: the day of the date that \<open>Date.UTC(y, m, 0)\<close> gives.\<close>

definition leap_year :: "nat \<Rightarrow> bool" where
  "leap_year y \<longleftrightarrow> 4 dvd y \<and> (\<not> 100 dvd y \<or> 400 dvd y)"

definition month_days :: "nat \<Rightarrow> nat \<Rightarrow> nat" where
  "month_days y m = (if m = 2 then (if leap_year y then 29 else 28) else if m \<in> {4, 6, 9, 11} then 30 else 31)"

definition calendarDate :: "string \<Rightarrow> string \<Rightarrow> string \<Rightarrow> bool" where
  "calendarDate year month day =
    (let y = read_nat year; m = read_nat month; d = read_nat day in
     if y < 1000 \<or> m < 1 \<or> m > 12 \<or> d < 1 then False else d \<le> month_days y m)"

text \<open>A text of digits and fixed characters: \<open>d\<close> in the shape stands for a digit.\<close>

definition shaped :: "string \<Rightarrow> string \<Rightarrow> bool" where
  "shaped shape s \<longleftrightarrow> list_all2 (\<lambda>p c. if p = CHR ''d'' then js_digit c else c = p) shape s"

definition isDate :: "string \<Rightarrow> bool" where
  "isDate s \<longleftrightarrow> shaped ''dddd-dd-dd'' s \<and> calendarDate (take 4 s) (slice 5 7 s) (slice 8 10 s)"

text \<open>The fraction digits of a valid date-time, \<open>None\<close> for the \<open>-1\<close> of the source.\<close>

definition dateTimeFraction :: "string \<Rightarrow> nat option" where
  "dateTimeFraction s =
    (let f = drop 20 s in
     if (shaped ''dddd-dd-dd dd:dd:dd'' (take 19 s) \<or> shaped ''dddd-dd-ddTdd:dd:dd'' (take 19 s))
        \<and> (length s = 19 \<or> (s ! 19 = CHR ''.'' \<and> f \<noteq> [] \<and> length f \<le> 6 \<and> list_all js_digit f))
        \<and> calendarDate (take 4 s) (slice 5 7 s) (slice 8 10 s)
        \<and> read_nat (slice 11 13 s) \<le> 23 \<and> read_nat (slice 14 16 s) \<le> 59 \<and> read_nat (slice 17 19 s) \<le> 59
     then Some (length f) else None)"

subsection \<open>Reading a column\<close>

datatype InferredType = TInt | TBigint | TDecimal | TDate | TDatetime | TVarchar | TText

record Seen =
  sn_values :: nat
  sn_ints :: bool
  sn_decimals :: bool
  sn_dates :: bool
  sn_datetimes :: bool
  sn_int32 :: bool
  sn_int64 :: bool
  sn_maxInt :: nat
  sn_maxScale :: nat
  sn_maxLength :: nat
  sn_maxBytes :: nat
  sn_maxFraction :: nat

definition nothing_seen :: Seen where
  "nothing_seen = \<lparr>sn_values = 0, sn_ints = True, sn_decimals = True, sn_dates = True, sn_datetimes = True,
     sn_int32 = True, sn_int64 = True, sn_maxInt = 0, sn_maxScale = 0, sn_maxLength = 0, sn_maxBytes = 0, sn_maxFraction = 0\<rparr>"

text \<open>The bytes of a text in UTF-8, for the characters of the model (the first 256).\<close>

definition utf8_length :: "string \<Rightarrow> nat" where
  "utf8_length s = sum_list (map (\<lambda>c. if non_ascii c then 2 else 1) s)"

definition within32 :: "int \<Rightarrow> bool" where
  "within32 n \<longleftrightarrow> \<not> (n > INT32 \<or> n < - INT32 - 1)"

definition within64 :: "int \<Rightarrow> bool" where
  "within64 n \<longleftrightarrow> \<not> (n > INT64 \<or> n < - INT64 - 1)"

text \<open>The digits before and after the point, of a text \<open>INT_TEXT\<close> or \<open>DECIMAL\<close> takes: its parts once the sign is gone.\<close>

definition whole_digits :: "string \<Rightarrow> nat" where
  "whole_digits s = length (takeWhile (\<lambda>c. c \<noteq> CHR ''.'') (unsigned s))"

definition fraction_digits :: "string \<Rightarrow> nat" where
  "fraction_digits s = (case fraction_of (unsigned s) of Some f \<Rightarrow> length f | None \<Rightarrow> 0)"

definition see_text :: "string \<Rightarrow> Seen \<Rightarrow> Seen" where
  "see_text cell s =
    (let number = (INT_TEXT cell \<or> DECIMAL_TEXT cell) in
     s\<lparr>sn_values := sn_values s + 1,
       sn_maxLength := max (sn_maxLength s) (length cell),
       sn_maxBytes := max (sn_maxBytes s) (utf8_length cell),
       sn_ints := (sn_ints s \<and> INT_TEXT cell),
       sn_decimals := (sn_decimals s \<and> number),
       sn_dates := (sn_dates s \<and> isDate cell),
       sn_datetimes := (sn_datetimes s \<and> dateTimeFraction cell \<noteq> None),
       sn_maxFraction := (case dateTimeFraction cell of Some f \<Rightarrow> max (sn_maxFraction s) f | None \<Rightarrow> sn_maxFraction s),
       sn_int32 := (sn_int32 s \<and> (if INT_TEXT cell then within32 (int_value cell) else True)),
       sn_int64 := (sn_int64 s \<and> (if INT_TEXT cell then within64 (int_value cell) else True)),
       sn_maxInt := (if number then max (sn_maxInt s) (whole_digits cell) else sn_maxInt s),
       sn_maxScale := (if number then max (sn_maxScale s) (fraction_digits cell) else sn_maxScale s)\<rparr>)"

definition see_bytes :: "string \<Rightarrow> Seen \<Rightarrow> Seen" where
  "see_bytes b s = s\<lparr>sn_ints := False, sn_decimals := False, sn_dates := False, sn_datetimes := False,
     sn_values := sn_values s + 1, sn_maxLength := max (sn_maxLength s) (length b), sn_maxBytes := max (sn_maxBytes s) (length b)\<rparr>"

fun see :: "RowCell \<Rightarrow> Seen \<Rightarrow> Seen" where
  "see NullCell s = s"
| "see (BytesCell b) s = see_bytes b s"
| "see (TextCell t) s = see_text t s"

text \<open>The cell of a row in a column; a row that is too short has none.\<close>

definition cell_in :: "nat \<Rightarrow> RowCell list \<Rightarrow> RowCell" where
  "cell_in column row = (if column < length row then row ! column else NullCell)"

definition scan_column :: "RowCell list list \<Rightarrow> nat \<Rightarrow> Seen" where
  "scan_column rows column = foldl (\<lambda>s row. see (cell_in column row) s) nothing_seen rows"

definition text_type :: "Dialect \<Rightarrow> Seen \<Rightarrow> InferredType \<times> string" where
  "text_type d s =
    (if sn_maxLength s \<le> 255 then (TVarchar, ''VARCHAR(255)'')
     else (TText, if d = Mysql then
         (if sn_maxBytes s > 16777215 then ''LONGTEXT'' else if sn_maxBytes s > 65535 then ''MEDIUMTEXT'' else ''TEXT'')
       else ''TEXT''))"

definition time_or_text :: "Dialect \<Rightarrow> Seen \<Rightarrow> InferredType \<times> string" where
  "time_or_text d s =
    (if sn_dates s then (TDate, ''DATE'')
     else if sn_datetimes s then (TDatetime, if d = Mysql then
         (if sn_maxFraction s > 0 then ''DATETIME('' @ show_nat (sn_maxFraction s) @ '')'' else ''DATETIME'')
       else ''TIMESTAMP'')
     else text_type d s)"

definition inferType :: "RowCell list list \<Rightarrow> nat \<Rightarrow> Dialect \<Rightarrow> InferredType \<times> string" where
  "inferType rows column d =
    (let s = scan_column rows column; precision = sn_maxInt s + sn_maxScale s in
     if sn_values s = 0 then (TVarchar, ''VARCHAR(255)'')
     else if sn_ints s \<and> sn_int32 s then (TInt, ''INT'')
     else if sn_ints s \<and> sn_int64 s then (TBigint, ''BIGINT'')
     else if sn_decimals s \<and> \<not> sn_ints s \<and> precision \<le> MAX_PRECISION \<and> sn_maxScale s > 0 \<and> sn_maxScale s \<le> MAX_SCALE
     then (TDecimal, ''DECIMAL('' @ show_nat precision @ '','' @ show_nat (sn_maxScale s) @ '')'')
     else time_or_text d s)"

subsection \<open>Every value fits\<close>

text \<open>Whether a type holds a value as it is, written without the reading above.\<close>

fun holds :: "Dialect \<Rightarrow> InferredType \<Rightarrow> string \<Rightarrow> RowCell \<Rightarrow> bool" where
  "holds d t sql NullCell = True"
| "holds d t sql (BytesCell b) =
    ((t = TVarchar \<and> length b \<le> 255)
     \<or> (t = TText \<and> (d = Postgres \<or> sql = ''LONGTEXT'' \<or> (sql = ''MEDIUMTEXT'' \<and> length b < 2 ^ 24) \<or> (sql = ''TEXT'' \<and> length b < 2 ^ 16))))"
| "holds d TInt sql (TextCell s) = (INT_TEXT s \<and> - (2 ^ 31) \<le> int_value s \<and> int_value s < 2 ^ 31)"
| "holds d TBigint sql (TextCell s) = (INT_TEXT s \<and> - (2 ^ 63) \<le> int_value s \<and> int_value s < 2 ^ 63)"
| "holds d TDecimal sql (TextCell s) = ((INT_TEXT s \<or> DECIMAL_TEXT s) \<and> (\<exists>p f. sql = ''DECIMAL('' @ show_nat p @ '','' @ show_nat f @ '')''
     \<and> p \<le> 38 \<and> f \<le> 30 \<and> f \<le> p \<and> whole_digits s \<le> p - f \<and> fraction_digits s \<le> f))"
| "holds d TDate sql (TextCell s) = isDate s"
| "holds d TDatetime sql (TextCell s) = (case dateTimeFraction s of None \<Rightarrow> False
     | Some f \<Rightarrow> d = Postgres \<or> (f = 0 \<and> sql = ''DATETIME'') \<or> (\<exists>n \<ge> f. n \<le> 6 \<and> sql = ''DATETIME('' @ show_nat n @ '')''))"
| "holds d TVarchar sql (TextCell s) = (length s \<le> 255)"
| "holds d TText sql (TextCell s) =
    (d = Postgres \<or> sql = ''LONGTEXT'' \<or> (sql = ''MEDIUMTEXT'' \<and> utf8_length s < 2 ^ 24) \<or> (sql = ''TEXT'' \<and> utf8_length s < 2 ^ 16))"

text \<open>What the reading says of each cell it has seen.\<close>

definition bounds :: "Seen \<Rightarrow> RowCell \<Rightarrow> bool" where
  "bounds s c = (case c of NullCell \<Rightarrow> True
    | BytesCell b \<Rightarrow> 0 < sn_values s \<and> \<not> sn_ints s \<and> \<not> sn_decimals s \<and> \<not> sn_dates s \<and> \<not> sn_datetimes s
        \<and> length b \<le> sn_maxLength s \<and> length b \<le> sn_maxBytes s
    | TextCell t \<Rightarrow> 0 < sn_values s \<and> length t \<le> sn_maxLength s \<and> utf8_length t \<le> sn_maxBytes s
        \<and> (sn_ints s \<longrightarrow> INT_TEXT t) \<and> (sn_decimals s \<longrightarrow> INT_TEXT t \<or> DECIMAL_TEXT t) \<and> (sn_dates s \<longrightarrow> isDate t)
        \<and> (sn_datetimes s \<longrightarrow> (\<exists>f. dateTimeFraction t = Some f \<and> f \<le> sn_maxFraction s))
        \<and> (INT_TEXT t \<longrightarrow> (sn_int32 s \<longrightarrow> within32 (int_value t)) \<and> (sn_int64 s \<longrightarrow> within64 (int_value t)))
        \<and> (INT_TEXT t \<or> DECIMAL_TEXT t \<longrightarrow> whole_digits t \<le> sn_maxInt s \<and> fraction_digits t \<le> sn_maxScale s))"

text \<open>A reading that has seen more.\<close>

definition grows :: "Seen \<Rightarrow> Seen \<Rightarrow> bool" where
  "grows s s' \<longleftrightarrow> sn_values s \<le> sn_values s' \<and> sn_maxLength s \<le> sn_maxLength s' \<and> sn_maxBytes s \<le> sn_maxBytes s'
     \<and> sn_maxFraction s \<le> sn_maxFraction s' \<and> sn_maxInt s \<le> sn_maxInt s' \<and> sn_maxScale s \<le> sn_maxScale s'
     \<and> (sn_ints s' \<longrightarrow> sn_ints s) \<and> (sn_decimals s' \<longrightarrow> sn_decimals s) \<and> (sn_dates s' \<longrightarrow> sn_dates s)
     \<and> (sn_datetimes s' \<longrightarrow> sn_datetimes s) \<and> (sn_int32 s' \<longrightarrow> sn_int32 s) \<and> (sn_int64 s' \<longrightarrow> sn_int64 s)"

lemma see_grows: "grows s (see c s)"
  by (cases c) (simp_all add: grows_def see_text_def see_bytes_def Let_def split: option.split)

lemma bounds_seen: "bounds (see c s) c"
proof (cases c)
  case (TextCell t)
  then show ?thesis
    by (cases "dateTimeFraction t") (simp_all add: bounds_def see_text_def Let_def)
qed (simp_all add: bounds_def see_bytes_def)

lemma bounds_grows:
  assumes "bounds s c" and g: "grows s s'"
  shows "bounds s' c"
proof (cases c)
  case (TextCell t)
  note b = assms(1) [unfolded bounds_def TextCell RowCell.case] and g = g [unfolded grows_def]
  have "0 < sn_values s' \<and> length t \<le> sn_maxLength s' \<and> utf8_length t \<le> sn_maxBytes s'" using b g by linarith
  moreover have "(sn_ints s' \<longrightarrow> INT_TEXT t) \<and> (sn_decimals s' \<longrightarrow> INT_TEXT t \<or> DECIMAL_TEXT t) \<and> (sn_dates s' \<longrightarrow> isDate t)"
    using b g by blast
  moreover have "\<exists>f. dateTimeFraction t = Some f \<and> f \<le> sn_maxFraction s'" if "sn_datetimes s'"
  proof -
    from that b g obtain f where "dateTimeFraction t = Some f" "f \<le> sn_maxFraction s" by blast
    moreover have "sn_maxFraction s \<le> sn_maxFraction s'" using g by blast
    ultimately show ?thesis by (meson le_trans)
  qed
  moreover have "(sn_int32 s' \<longrightarrow> within32 (int_value t)) \<and> (sn_int64 s' \<longrightarrow> within64 (int_value t))" if "INT_TEXT t"
    using that b g by blast
  moreover have "whole_digits t \<le> sn_maxInt s' \<and> fraction_digits t \<le> sn_maxScale s'" if "INT_TEXT t \<or> DECIMAL_TEXT t"
  proof -
    from that b have "whole_digits t \<le> sn_maxInt s" "fraction_digits t \<le> sn_maxScale s" by blast+
    with g show ?thesis by linarith
  qed
  ultimately show ?thesis unfolding bounds_def TextCell RowCell.case by blast
qed (use assms in \<open>auto simp: bounds_def grows_def\<close>)

lemmas bounds_kept = bounds_grows [OF _ see_grows]

lemma scan_bounds: "row \<in> set rows \<Longrightarrow> bounds (scan_column rows column) (cell_in column row)"
proof (induction rows rule: rev_induct)
  case (snoc r rows)
  then show ?case by (cases "row = r") (auto simp: scan_column_def bounds_seen bounds_kept)
qed simp

lemma fraction_le: "dateTimeFraction s = Some f \<Longrightarrow> f \<le> 6"
  by (auto simp: dateTimeFraction_def Let_def split: if_splits)

lemma scan_fraction: "sn_maxFraction (scan_column rows column) \<le> 6"
proof (induction rows rule: rev_induct)
  case (snoc r rows)
  then show ?case
    by (cases "cell_in column r")
      (auto simp: scan_column_def see_text_def see_bytes_def Let_def dest: fraction_le split: option.split)
qed (simp add: scan_column_def nothing_seen_def)

text \<open>When a column is one of whole numbers.\<close>

definition int_cell :: "(int \<Rightarrow> bool) \<Rightarrow> RowCell \<Rightarrow> bool" where
  "int_cell P c = (case c of NullCell \<Rightarrow> True | BytesCell b \<Rightarrow> False | TextCell t \<Rightarrow> INT_TEXT t \<and> P (int_value t))"

lemma see_ints:
  "sn_ints (see c s) \<and> sn_int32 (see c s) \<longleftrightarrow> sn_ints s \<and> sn_int32 s \<and> int_cell within32 c"
  "sn_ints (see c s) \<and> sn_int64 (see c s) \<longleftrightarrow> sn_ints s \<and> sn_int64 s \<and> int_cell within64 c"
  "sn_values (see c s) = 0 \<longleftrightarrow> sn_values s = 0 \<and> c = NullCell"
  by (cases c; auto simp: int_cell_def see_text_def see_bytes_def Let_def)+

lemma scan_all:
  assumes "\<And>c s. P (see c s) \<longleftrightarrow> P s \<and> Q c" and "P nothing_seen"
  shows "P (scan_column rows column) \<longleftrightarrow> list_all (\<lambda>row. Q (cell_in column row)) rows"
  unfolding scan_column_def by (induction rows rule: rev_induct) (simp_all add: assms)

lemma scan_ints:
  "sn_ints (scan_column rows column) \<and> sn_int32 (scan_column rows column)
    \<longleftrightarrow> list_all (\<lambda>row. int_cell within32 (cell_in column row)) rows"
  "sn_ints (scan_column rows column) \<and> sn_int64 (scan_column rows column)
    \<longleftrightarrow> list_all (\<lambda>row. int_cell within64 (cell_in column row)) rows"
  "sn_values (scan_column rows column) = 0 \<longleftrightarrow> list_all (\<lambda>row. cell_in column row = NullCell) rows"
proof -
  show "sn_ints (scan_column rows column) \<and> sn_int32 (scan_column rows column)
      \<longleftrightarrow> list_all (\<lambda>row. int_cell within32 (cell_in column row)) rows"
    by (rule scan_all) (use see_ints(1) in \<open>auto simp: nothing_seen_def\<close>)
  show "sn_ints (scan_column rows column) \<and> sn_int64 (scan_column rows column)
      \<longleftrightarrow> list_all (\<lambda>row. int_cell within64 (cell_in column row)) rows"
    by (rule scan_all) (use see_ints(2) in \<open>auto simp: nothing_seen_def\<close>)
  show "sn_values (scan_column rows column) = 0 \<longleftrightarrow> list_all (\<lambda>row. cell_in column row = NullCell) rows"
    by (rule scan_all) (use see_ints(3) in \<open>auto simp: nothing_seen_def\<close>)
qed

lemma within_bits: "within32 n \<longleftrightarrow> - (2 ^ 31) \<le> n \<and> n < 2 ^ 31" "within64 n \<longleftrightarrow> - (2 ^ 63) \<le> n \<and> n < 2 ^ 63"
  by (auto simp: within32_def within64_def INT32_def INT64_def)

lemma decimal_fits:
  assumes "bounds s c" and "sn_decimals s" and "sn_maxInt s + sn_maxScale s \<le> MAX_PRECISION" and "sn_maxScale s \<le> MAX_SCALE"
  shows "holds d TDecimal (''DECIMAL('' @ show_nat (sn_maxInt s + sn_maxScale s) @ '','' @ show_nat (sn_maxScale s) @ '')'') c"
proof (cases c)
  case (TextCell t)
  with assms have "INT_TEXT t \<or> DECIMAL_TEXT t" "whole_digits t \<le> sn_maxInt s" "fraction_digits t \<le> sn_maxScale s"
    by (auto simp: bounds_def)
  moreover have "sn_maxInt s + sn_maxScale s \<le> 38" "sn_maxScale s \<le> 30"
    using assms(3,4) by (simp_all add: MAX_PRECISION_def MAX_SCALE_def)
  ultimately show ?thesis unfolding TextCell holds.simps
    by (intro conjI exI [of _ "sn_maxInt s + sn_maxScale s"] exI [of _ "sn_maxScale s"]) simp_all
qed (use assms in \<open>auto simp: bounds_def\<close>)

lemma text_type_fits: "bounds s c \<Longrightarrow> case text_type d s of (t, sql) \<Rightarrow> holds d t sql c"
  by (cases c; cases d) (auto simp: text_type_def bounds_def)

lemma datetime_fits:
  assumes "dateTimeFraction t = Some n" and "n \<le> m" and "m \<le> 6"
  shows "holds d TDatetime (if d = Mysql then (if m > 0 then ''DATETIME('' @ show_nat m @ '')'' else ''DATETIME'')
    else ''TIMESTAMP'') (TextCell t)"
  using assms by (cases d; cases "m = 0") auto

lemma time_or_text_fits:
  assumes b: "bounds s c" and f: "sn_maxFraction s \<le> 6"
  shows "case time_or_text d s of (t, sql) \<Rightarrow> holds d t sql c"
proof (cases "sn_dates s")
  case True
  with b show ?thesis by (cases c) (simp_all add: time_or_text_def bounds_def)
next
  case no_dates: False
  show ?thesis
  proof (cases "sn_datetimes s")
    case True
    show ?thesis
    proof (cases c)
      case (TextCell t)
      with b True obtain n where "dateTimeFraction t = Some n" "n \<le> sn_maxFraction s" unfolding bounds_def by auto
      from datetime_fits [OF this f] show ?thesis using no_dates True TextCell by (simp add: time_or_text_def)
    qed (use b no_dates True in \<open>auto simp: time_or_text_def bounds_def\<close>)
  next
    case False
    with text_type_fits [OF b] no_dates show ?thesis by (simp add: time_or_text_def)
  qed
qed

text \<open>
  C34: the type guessed for a column of an imported file holds every value of the column as it is written there; it is
  INT exactly when there are values and all of them are whole numbers of 32 bits, and a whole-number type exactly when
  all of them have at most 64.
\<close>

theorem inferred_type_holds:
  "case inferType rows column d of (t, sql) \<Rightarrow>
     list_all (\<lambda>row. holds d t sql (cell_in column row)) rows
   \<and> (t = TInt \<longleftrightarrow> list_ex (\<lambda>row. cell_in column row \<noteq> NullCell) rows
       \<and> list_all (\<lambda>row. int_cell (\<lambda>n. - (2 ^ 31) \<le> n \<and> n < 2 ^ 31) (cell_in column row)) rows)
   \<and> (t = TInt \<or> t = TBigint \<longleftrightarrow> list_ex (\<lambda>row. cell_in column row \<noteq> NullCell) rows
       \<and> list_all (\<lambda>row. int_cell (\<lambda>n. - (2 ^ 63) \<le> n \<and> n < 2 ^ 63) (cell_in column row)) rows)"
proof -
  let ?s = "scan_column rows column"
  have b: "bounds ?s (cell_in column row)" if "row \<in> set rows" for row using scan_bounds [OF that] .
  have fits: "case inferType rows column d of (t, sql) \<Rightarrow> holds d t sql (cell_in column row)" if "row \<in> set rows" for row
    using b [OF that] decimal_fits [OF b [OF that]] time_or_text_fits [OF b [OF that] scan_fraction]
    unfolding inferType_def Let_def
    by (cases "cell_in column row") (auto simp: bounds_def within_bits)
  have no_int: "fst (text_type d ?s) \<notin> {TInt, TBigint}" "fst (time_or_text d ?s) \<notin> {TInt, TBigint}"
    by (simp_all add: text_type_def time_or_text_def)
  obtain t sql where ts: "inferType rows column d = (t, sql)" by fastforce
  have within: "within32 = (\<lambda>n. - (2 ^ 31) \<le> n \<and> n < 2 ^ 31)" "within64 = (\<lambda>n. - (2 ^ 63) \<le> n \<and> n < 2 ^ 63)"
    by (auto simp: within_bits)
  have ex: "list_ex (\<lambda>row. cell_in column row \<noteq> NullCell) rows \<longleftrightarrow> sn_values ?s \<noteq> 0"
    unfolding scan_ints by (auto simp: list_ex_iff list_all_iff)
  have small: "sn_ints ?s \<and> sn_int32 ?s \<longrightarrow> sn_ints ?s \<and> sn_int64 ?s"
    unfolding scan_ints by (auto simp: list_all_iff int_cell_def within_bits split: RowCell.splits)
  have "(t = TInt \<longleftrightarrow> sn_values ?s \<noteq> 0 \<and> sn_ints ?s \<and> sn_int32 ?s)
      \<and> (t = TInt \<or> t = TBigint \<longleftrightarrow> sn_values ?s \<noteq> 0 \<and> sn_ints ?s \<and> sn_int64 ?s)"
    using ts no_int small unfolding inferType_def Let_def by (auto split: if_splits)
  with fits show ?thesis unfolding ts prod.case ex within [symmetric] scan_ints [symmetric] list_all_iff by blast
qed

end
