(* ===== verification/Secrets.thy ===== *)
theory Secrets
  imports Lexer
begin

text \<open>
  Masking the password of an account statement: \<open>packages/shared/src/sql-secrets.ts\<close>.  What is masked shows no quote
  after the keyword but those of the mask, so that no part of a literal is left outside it.
\<close>

subsection \<open>Literals\<close>

definition PASSWORD_MASK :: string where "PASSWORD_MASK = ''****''"

definition quote_like :: "char \<Rightarrow> bool" where
  "quote_like c \<longleftrightarrow> c = sq \<or> c = CHR 0x22 \<or> c = CHR ''$''"

text \<open>
  The rest of a quoted literal of \<open>sqlLiteralPattern(1, true)\<close>: a quote after the closing one is a doubled quote, and a
  backslash before a quote makes the literal incomplete.
\<close>

fun literal_rest :: "char \<Rightarrow> string \<Rightarrow> nat option" where
  "literal_rest q [] = None"
| "literal_rest q [c] = (if c = q then Some 1 else None)"
| "literal_rest q (c # e # s) =
     (if c = q then (if e = q then map_option (\<lambda>n. n + 2) (literal_rest q s) else Some 1)
      else if c = CHR 0x5C then (if e = q then None else map_option (\<lambda>n. n + 2) (literal_rest q s))
      else map_option Suc (literal_rest q (e # s)))"

definition LITERAL_AT :: "string \<Rightarrow> nat option" where
  "LITERAL_AT s =
    (if prefix [sq] s then map_option Suc (literal_rest sq (tl s))
     else if prefix [CHR 0x22] s then map_option Suc (literal_rest (CHR 0x22) (tl s))
     else (case DOLLAR_TAG s of
         Some tag \<Rightarrow> map_option (\<lambda>e. e + length tag) (index_of tag s (length tag))
       | None \<Rightarrow> None))"

text \<open>Where a literal or a comment may start, from the start of the text on.\<close>

definition opener :: "string \<Rightarrow> bool" where
  "opener s \<longleftrightarrow> s \<noteq> [] \<and> (quote_like (hd s) \<or> prefix ''/*'' s \<or> prefix ''--'' s \<or> prefix ''#'' s)"

fun nextLiteralOrComment :: "string \<Rightarrow> nat option" where
  "nextLiteralOrComment [] = None"
| "nextLiteralOrComment (c # s) = (if opener (c # s) then Some 0 else map_option Suc (nextLiteralOrComment s))"

lemma literal_rest_le: "literal_rest q s = Some n \<Longrightarrow> 0 < n \<and> n \<le> length s"
  by (induction q s arbitrary: n rule: literal_rest.induct) (fastforce split: if_splits)+

lemma LITERAL_AT_le: "LITERAL_AT s = Some n \<Longrightarrow> 0 < n \<and> n \<le> length s"
  by (cases s) (auto simp: LITERAL_AT_def split: if_splits option.splits
    dest!: literal_rest_le dest: DOLLAR_TAG_bounds index_of_bounds)

text \<open>
  \<open>maskEnd\<close>, on the text from the first literal or comment on: how much of it the mask covers.
\<close>

function mask_length :: "string \<Rightarrow> nat" where
  "mask_length s =
    (if s = [] \<or> \<not> quote_like (hd s) then length s
     else case LITERAL_AT s of
       None \<Rightarrow> length s
     | Some n \<Rightarrow> (case nextLiteralOrComment (drop n s) of
         None \<Rightarrow> n
       | Some k \<Rightarrow> n + k + mask_length (drop (n + k) s)))"
  by pat_completeness auto

termination
  by (relation "measure length") (auto dest!: LITERAL_AT_le)

declare mask_length.simps [simp del]

subsection \<open>The credential part\<close>

definition credential_word :: "string \<Rightarrow> bool" where
  "credential_word w \<longleftrightarrow> (let l = to_lower w in
     \<exists>k \<in> set [''identified'', ''password'']. l = k \<or> (suffix (''_'' @ k) l \<and> length k + 1 < length l))"

text \<open>
  \<open>CREDENTIAL_PART\<close>: the text up to the first word that is a keyword or ends in one after an underscore, and the rest.
\<close>

function credential_split :: "string \<Rightarrow> (string \<times> string) option" where
  "credential_split s =
    (case s of [] \<Rightarrow> None
     | c # r \<Rightarrow>
         if js_word c then
           (let w = takeWhile js_word s; rest = dropWhile js_word s in
            if credential_word w then Some (w, rest)
            else map_option (\<lambda>(m, t). (w @ m, t)) (credential_split rest))
         else map_option (\<lambda>(m, t). (c # m, t)) (credential_split r))"
  by pat_completeness auto

termination
  by (relation "measure length") (auto simp: dropWhile_length_le less_Suc_eq_le)

declare credential_split.simps [simp del]

definition maskCredentialPart :: "string \<Rightarrow> string" where
  "maskCredentialPart statement = (case credential_split statement of
     None \<Rightarrow> statement
   | Some (m, tail) \<Rightarrow>
       if \<not> list_ex quote_like tail then statement
       else (case nextLiteralOrComment tail of
         None \<Rightarrow> statement
       | Some first \<Rightarrow> m @ take first tail @ [sq] @ PASSWORD_MASK @ [sq]
           @ drop (first + mask_length (drop first tail)) tail))"

subsection \<open>Connection strings and URLs\<close>

text \<open>\<open>(?:\\[\s\S]|[^\s'";\\])+\<close>: how many characters the value takes.\<close>

fun password_value :: "string \<Rightarrow> nat" where
  "password_value [] = 0"
| "password_value [c] = (if c = CHR 0x5C \<or> js_space c \<or> c = sq \<or> c = CHR 0x22 \<or> c = CHR '';'' then 0 else 1)"
| "password_value (c # e # s) =
     (if c = CHR 0x5C then 2 + password_value s
      else if js_space c \<or> c = sq \<or> c = CHR 0x22 \<or> c = CHR '';'' then 0 else 1 + password_value (e # s))"

definition password_head :: "string \<Rightarrow> nat option" where
  "password_head s =
    (if ci_prefix ''password'' s then
       (let r = dropWhile js_space (drop 8 s) in
        if prefix ''='' r then Some (length s - length (dropWhile js_space (tl r))) else None)
     else None)"

lemma password_value_le: "password_value s \<le> length s"
  by (induction s rule: password_value.induct) auto

text \<open>
  \<open>\b[A-Za-z][\w+.-]*:\/\/[^\s'"/@:]*:\<close> at a text, and the secret after it, up to the last at sign of its run.
\<close>

definition url_head :: "string \<Rightarrow> nat option" where
  "url_head s =
    (if s = [] \<or> \<not> js_alpha (hd s) then None
     else let r = dropWhile (\<lambda>c. js_word c \<or> c = CHR ''+'' \<or> c = CHR ''.'' \<or> c = CHR ''-'') s in
       if \<not> prefix ''://'' r then None
       else let u = dropWhile (\<lambda>c. \<not> js_space c \<and> c \<noteq> sq \<and> c \<noteq> CHR 0x22 \<and> c \<noteq> CHR ''/'' \<and> c \<noteq> CHR ''@'' \<and> c \<noteq> CHR '':'') (drop 3 r) in
         if prefix '':'' u then Some (length s - length (tl u)) else None)"

lemma drop_while_length: "length (dropWhile P s) \<le> length s"
  by (rule dropWhile_length_le)

lemma password_head_le:
  assumes "password_head s = Some h"
  shows "0 < h \<and> h \<le> length s"
proof -
  let ?r = "dropWhile js_space (drop 8 s)"
  have "h = length s - length (dropWhile js_space (tl ?r)) \<and> prefix ''='' ?r"
    using assms by (simp only: password_head_def Let_def split: if_splits) simp_all
  then have h: "h = length s - length (dropWhile js_space (tl ?r))" and r: "?r \<noteq> []" by (metis prefix_Nil list.distinct(1))+
  have "length (dropWhile js_space (tl ?r)) \<le> length (tl ?r)" by (rule drop_while_length)
  moreover have "length (tl ?r) < length ?r" using r by (cases ?r) auto
  moreover have "length ?r \<le> length (drop 8 s)" by (rule drop_while_length)
  ultimately show ?thesis unfolding h by simp
qed

lemma url_head_le:
  assumes "url_head s = Some h"
  shows "0 < h \<and> h \<le> length s"
proof -
  let ?r = "dropWhile (\<lambda>c. js_word c \<or> c = CHR ''+'' \<or> c = CHR ''.'' \<or> c = CHR ''-'') s"
  let ?u = "dropWhile (\<lambda>c. \<not> js_space c \<and> c \<noteq> sq \<and> c \<noteq> CHR 0x22 \<and> c \<noteq> CHR ''/'' \<and> c \<noteq> CHR ''@'' \<and> c \<noteq> CHR '':'') (drop 3 ?r)"
  have "h = length s - length (tl ?u) \<and> prefix '':'' ?u"
    using assms by (simp only: url_head_def Let_def split: if_splits) simp_all
  then have h: "h = length s - length (tl ?u)" and u: "?u \<noteq> []" by (metis prefix_Nil list.distinct(1))+
  have "length (tl ?u) < length ?u" using u by (cases ?u) auto
  moreover have "length ?u \<le> length (drop 3 ?r)" by (rule drop_while_length)
  moreover have "length ?r \<le> length s" by (rule drop_while_length)
  ultimately show ?thesis unfolding h length_drop by linarith
qed

function mask_passwords :: "bool \<Rightarrow> string \<Rightarrow> string" where
  "mask_passwords inside s = (case s of [] \<Rightarrow> []
   | c # r \<Rightarrow>
       (case (if inside then None else password_head s) of
          Some h \<Rightarrow> (let v = password_value (drop h s) in
            if 0 < v
            then take h s @ PASSWORD_MASK @ mask_passwords (js_word (s ! (h + v - 1))) (drop (h + v) s)
            else c # mask_passwords (js_word c) r)
        | None \<Rightarrow> c # mask_passwords (js_word c) r))"
  by pat_completeness auto

termination
  by (relation "measure (\<lambda>(b, s). length s)") (auto split: if_splits dest: password_head_le url_head_le)

declare mask_passwords.simps [simp del]

definition secret_length :: "string \<Rightarrow> nat" where
  "secret_length s =
    (let run = takeWhile (\<lambda>c. \<not> js_space c \<and> c \<noteq> sq \<and> c \<noteq> CHR 0x22) s in
     length run - length (takeWhile (\<lambda>c. c \<noteq> CHR ''@'') (rev run)) - 1)"

function mask_urls :: "bool \<Rightarrow> string \<Rightarrow> string" where
  "mask_urls inside s = (case s of [] \<Rightarrow> []
   | c # r \<Rightarrow>
       (case (if inside then None else url_head s) of
          Some h \<Rightarrow> (let v = secret_length (drop h s) in
            if 0 < v
            then take h s @ PASSWORD_MASK @ mask_urls (js_word (s ! (h + v - 1))) (drop (h + v) s)
            else c # mask_urls (js_word c) r)
        | None \<Rightarrow> c # mask_urls (js_word c) r))"
  by pat_completeness auto

termination
  by (relation "measure (\<lambda>(b, s). length s)") (auto split: if_splits dest: password_head_le url_head_le)

declare mask_urls.simps [simp del]

definition maskConnectionPassword :: "string \<Rightarrow> string" where
  "maskConnectionPassword sql = mask_urls False (mask_passwords False sql)"

subsection \<open>What is left outside the mask\<close>

text \<open>No literal and no comment starts in a text.\<close>

definition no_opener :: "string \<Rightarrow> bool" where
  "no_opener s \<longleftrightarrow> nextLiteralOrComment s = None"

lemma no_opener_plain: "no_opener s \<Longrightarrow> \<not> list_ex quote_like s"
  unfolding no_opener_def by (induction s) (auto simp: opener_def split: if_splits)

lemma next_bounds: "nextLiteralOrComment s = Some k \<Longrightarrow> k < length s"
  by (induction s arbitrary: k) (auto split: if_splits)

lemma opener_mono: "opener (s @ t) \<or> \<not> opener s"
  by (cases s; cases "tl s") (auto simp: opener_def)

lemma next_before: "nextLiteralOrComment s = Some k \<Longrightarrow> no_opener (take k s)"
proof (induction s arbitrary: k)
  case (Cons c s)
  show ?case
  proof (cases "opener (c # s)")
    case False
    with Cons.prems obtain j where j: "k = Suc j" "nextLiteralOrComment s = Some j" by auto
    have "\<not> opener (c # take j s)" using opener_mono [of "c # take j s" "drop j s"] False by simp
    with Cons.IH [OF j(2)] j(1) show ?thesis by (simp add: no_opener_def)
  qed (use Cons.prems in \<open>simp add: no_opener_def\<close>)
qed simp

lemma next_plain: "list_ex quote_like s \<Longrightarrow> \<exists>k. nextLiteralOrComment s = Some k"
  using no_opener_plain [of s] by (auto simp: no_opener_def)

lemma mask_length_rest: "mask_length s \<le> length s \<and> no_opener (drop (mask_length s) s)"
proof (induction s rule: mask_length.induct)
  case (1 s)
  show ?case
  proof (cases "s = [] \<or> \<not> quote_like (hd s)")
    case False
    show ?thesis
    proof (cases "LITERAL_AT s")
      case (Some n)
      note n = LITERAL_AT_le [OF Some]
      show ?thesis
      proof (cases "nextLiteralOrComment (drop n s)")
        case None
        with Some n False show ?thesis by (simp add: mask_length.simps [of s] no_opener_def)
      next
        case (Some k)
        let ?d = "drop (n + k) s"
        have len: "mask_length s = n + k + mask_length ?d"
          using False Some \<open>LITERAL_AT s = Some n\<close> by (simp add: mask_length.simps [of s])
        have "drop (mask_length s) s = drop (mask_length ?d) ?d" by (simp add: len add.commute)
        moreover have "n + k \<le> length s" using next_bounds [OF Some] n by simp
        moreover note 1 [OF False \<open>LITERAL_AT s = Some n\<close> Some]
        moreover from this have "mask_length ?d \<le> length s - (n + k)" by simp
        ultimately show ?thesis unfolding len by (metis add_le_mono1 le_add_diff_inverse nat_add_left_cancel_le)
      qed
    qed (use False in \<open>simp add: mask_length.simps [of s] no_opener_def\<close>)
  qed (simp add: mask_length.simps [of s] no_opener_def)
qed

lemma word_ends_dropWhile: "word_ends (dropWhile js_word s)"
  by (induction s) (auto simp: word_ends_def)

lemma credential_split_parts:
  "credential_split s = Some (m, t) \<Longrightarrow> s = m @ t
    \<and> (\<exists>p w. m = p @ w \<and> credential_word w \<and> list_all js_word w \<and> word_ends t)"
proof (induction s arbitrary: m t rule: credential_split.induct)
  case (1 s)
  show ?case
  proof (cases s)
    case (Cons c r)
    show ?thesis
    proof (cases "js_word c")
      case True
      let ?w = "takeWhile js_word s" and ?rest = "dropWhile js_word s"
      have s: "s = ?w @ ?rest" by simp
      show ?thesis
      proof (cases "credential_word ?w")
        case True
        with 1(3) \<open>js_word c\<close> Cons have "m = ?w" "t = ?rest" by (simp_all add: credential_split.simps [of "c # r"])
        moreover have "list_all js_word ?w" by (auto simp: list_all_iff dest: set_takeWhileD)
        moreover have "word_ends ?rest" by (rule word_ends_dropWhile)
        ultimately show ?thesis using True s by (intro conjI exI [of _ "[]"] exI [of _ ?w]) auto
      next
        case False
        with 1(3) \<open>js_word c\<close> Cons obtain m' where m': "credential_split ?rest = Some (m', t)" "m = ?w @ m'"
          by (auto simp: credential_split.simps [of "c # r"] Let_def split: option.splits)
        from 1(1) [OF Cons True refl refl False m'(1)] obtain p w where
          "?rest = m' @ t" "m' = p @ w" "credential_word w" "list_all js_word w" "word_ends t" by blast
        with m' s show ?thesis by (metis append.assoc)
      qed
    next
      case False
      with 1(3) Cons obtain m' where m': "credential_split r = Some (m', t)" "m = c # m'"
        by (auto simp: credential_split.simps [of "c # r"] split: option.splits)
      from 1(2) [OF Cons False m'(1)] obtain p w where
        "r = m' @ t" "m' = p @ w" "credential_word w" "list_all js_word w" "word_ends t" by blast
      with m' Cons show ?thesis by (metis append_Cons)
    qed
  qed (use 1(3) in \<open>simp add: credential_split.simps\<close>)
qed


end
