(* ===== verification/Totp.thy ===== *)
theory Totp
  imports Prelude "HOL-Library.Word"
begin

unbundle bit_operations_syntax

text \<open>
  One-time codes: \<open>apps/api/src/lib/totp.ts\<close>.  The shifts of the base 32 routines are kept at the 32 bits JavaScript gives
  them; the accumulator is never masked there, so it loses its high bits, and the round trip shows that no bit that
  is still needed is among them.  HMAC-SHA-1 and SHA-256 are arguments.
\<close>

subsection \<open>Base 32\<close>

definition BASE32 :: string where "BASE32 = ''ABCDEFGHIJKLMNOPQRSTUVWXYZ234567''"

definition base32_char :: "nat \<Rightarrow> 32 word \<Rightarrow> char" where
  "base32_char shift value = BASE32 ! unat (drop_bit shift value AND 31)"

text \<open>The inner loop: five bits at a time, from the highest of those not yet written.\<close>

fun emit :: "nat \<Rightarrow> 32 word \<Rightarrow> string \<Rightarrow> nat \<times> string" where
  "emit bits value out =
    (if 5 \<le> bits then emit (bits - 5) value (out @ [base32_char (bits - 5) value]) else (bits, out))"

declare emit.simps [simp del]

fun encode_from :: "8 word list \<Rightarrow> nat \<Rightarrow> 32 word \<Rightarrow> string \<Rightarrow> string" where
  "encode_from [] bits value out =
    (if 0 < bits then out @ [BASE32 ! unat (push_bit (5 - bits) value AND 31)] else out)"
| "encode_from (byte # bytes) bits value out =
    (let value = push_bit 8 value OR ucast byte; (bits, out) = emit (bits + 8) value out in
     encode_from bytes bits value out)"

definition base32Encode :: "8 word list \<Rightarrow> string" where
  "base32Encode bytes = encode_from bytes 0 0 []"

definition base32_index :: "char \<Rightarrow> nat option" where
  "base32_index c = (if c \<in> set BASE32 then Some (length (takeWhile (\<lambda>x. x \<noteq> c) BASE32)) else None)"

fun decode_from :: "string \<Rightarrow> nat \<Rightarrow> 32 word \<Rightarrow> 8 word list \<Rightarrow> (string, 8 word list) result" where
  "decode_from [] bits value out = Inr out"
| "decode_from (c # s) bits value out = (case base32_index c of
     None \<Rightarrow> Inl ''not base32''
   | Some index \<Rightarrow>
       (let value = push_bit 5 value OR word_of_nat index; bits = bits + 5 in
        if 8 \<le> bits then decode_from s (bits - 8) value (out @ [ucast (drop_bit (bits - 8) value AND 255)])
        else decode_from s bits value out))"

definition base32Decode :: "string \<Rightarrow> (string, 8 word list) result" where
  "base32Decode s =
    decode_from (filter (\<lambda>c. \<not> js_space c) (rev (dropWhile (\<lambda>c. c = CHR ''='') (rev (to_upper s))))) 0 0 []"

subsection \<open>Codes\<close>

definition TOTP_STEP_SECONDS :: int where "TOTP_STEP_SECONDS = 30"

definition TOTP_DIGITS :: nat where "TOTP_DIGITS = 6"

definition TOTP_WINDOW :: int where "TOTP_WINDOW = 1"

type_synonym hmac = "8 word list \<Rightarrow> 8 word list \<Rightarrow> 8 word list"

definition newSecret :: "8 word list \<Rightarrow> string" where
  "newSecret random = base32Encode (take 20 random)"

text \<open>\<open>Math.floor(atMs / 1000 / 30)\<close> of a whole number of milliseconds.\<close>

definition stepAt :: "int \<Rightarrow> int" where
  "stepAt atMs = atMs div (1000 * TOTP_STEP_SECONDS)"

text \<open>The eight bytes of the counter, most significant first; a negative one is refused (\<open>ERR_OUT_OF_RANGE\<close>).\<close>

definition counter_bytes :: "int \<Rightarrow> (string, 8 word list) result" where
  "counter_bytes step =
    (if 0 \<le> step \<and> step < 2 ^ 64 then Inr (map (\<lambda>k. word_of_int (step div 256 ^ k)) (rev [0..<8])) else Inl ''ERR_OUT_OF_RANGE'')"

definition byte_at :: "8 word list \<Rightarrow> nat \<Rightarrow> 32 word" where
  "byte_at digest k = (if k < length digest then ucast (digest ! k) else 0)"

definition truncated :: "8 word list \<Rightarrow> nat" where
  "truncated digest =
    (let offset = unat ((if digest = [] then 0 else ucast (last digest) :: 32 word) AND 0x0F) in
     unat (push_bit 24 (byte_at digest offset AND 0x7F) OR push_bit 16 (byte_at digest (offset + 1) AND 0xFF)
       OR push_bit 8 (byte_at digest (offset + 2) AND 0xFF) OR (byte_at digest (offset + 3) AND 0xFF)))"

definition pad_start :: "nat \<Rightarrow> char \<Rightarrow> string \<Rightarrow> string" where
  "pad_start n c s = replicate (n - length s) c @ s"

definition codeFor :: "hmac \<Rightarrow> string \<Rightarrow> int \<Rightarrow> (string, string) result" where
  "codeFor hmac secret step =
    rbind (counter_bytes step) (\<lambda>counter. rbind (base32Decode secret) (\<lambda>key.
      Inr (pad_start TOTP_DIGITS (CHR ''0'') (show_nat (truncated (hmac key counter) mod 10 ^ TOTP_DIGITS)))))"

text \<open>The steps within the window, tried in order; one at or below \<open>after\<close> is passed over.\<close>

fun try_steps :: "hmac \<Rightarrow> string \<Rightarrow> string \<Rightarrow> int \<Rightarrow> int list \<Rightarrow> (string, int option) result" where
  "try_steps hmac secret given after [] = Inr None"
| "try_steps hmac secret given after (step # steps) =
    (if step \<le> after then try_steps hmac secret given after steps
     else rbind (codeFor hmac secret step) (\<lambda>code.
       if code = given then Inr (Some step) else try_steps hmac secret given after steps))"

definition verifyCode :: "hmac \<Rightarrow> string \<Rightarrow> string \<Rightarrow> int \<Rightarrow> int \<Rightarrow> (string, int option) result" where
  "verifyCode hmac secret code atMs after =
    (let given = trim code; t = stepAt atMs in
     if \<not> (length given = TOTP_DIGITS \<and> list_all js_digit given) then Inr None
     else try_steps hmac secret given after (map (\<lambda>offset. t + offset) [- TOTP_WINDOW .. TOTP_WINDOW]))"

definition newRecoveryCodes :: "8 word list list \<Rightarrow> string list" where
  "newRecoveryCodes random = map (\<lambda>bytes. take 10 (base32Encode (take 7 bytes))) (take 10 random)"

definition hashRecoveryCode :: "(string \<Rightarrow> string) \<Rightarrow> string \<Rightarrow> string" where
  "hashRecoveryCode sha256 code = sha256 (filter (\<lambda>c. \<not> js_space c \<and> c \<noteq> CHR ''-'') (to_upper code))"

subsection \<open>The accumulator\<close>

text \<open>A number in base \<open>2 ^ k\<close>, most significant digit first.\<close>

definition num :: "nat \<Rightarrow> nat list \<Rightarrow> nat" where
  "num k ds = foldl (\<lambda>a d. a * 2 ^ k + d) 0 ds"

lemma num_simps [simp]: "num k [] = 0" "num k (ds @ [d]) = num k ds * 2 ^ k + d"
  by (simp_all add: num_def)

lemma num_Cons: "num k (d # ds) = d * 2 ^ (k * length ds) + num k ds"
  by (induction ds rule: rev_induct) (simp_all add: num_def algebra_simps power_add)

lemma num_append: "num k (xs @ ys) = num k xs * 2 ^ (k * length ys) + num k ys"
  by (induction xs) (simp_all add: num_Cons algebra_simps power_add)

lemma num_less: "\<forall>d \<in> set ds. d < 2 ^ k \<Longrightarrow> num k ds < 2 ^ (k * length ds)"
proof (induction ds rule: rev_induct)
  case (snoc d ds)
  then have "num k ds + 1 \<le> 2 ^ (k * length ds)" "d < 2 ^ k" by (simp_all add: Suc_le_eq)
  then have "num k ds * 2 ^ k + d < (num k ds + 1) * 2 ^ k" "(num k ds + 1) * 2 ^ k \<le> 2 ^ (k * length ds) * 2 ^ k"
    by (simp_all only: mult_le_mono1) simp
  then show ?case by (simp add: power_add algebra_simps)
qed simp

lemma num_inj:
  assumes "length xs = length ys" and "\<forall>d \<in> set xs. d < 2 ^ k" and "\<forall>d \<in> set ys. d < 2 ^ k" and "num k xs = num k ys"
  shows "xs = ys"
  using assms
proof (induction xs arbitrary: ys rule: rev_induct)
  case (snoc x xs)
  then obtain y zs where ys: "ys = zs @ [y]" by (cases ys rule: rev_cases) auto
  have "(num k xs * 2 ^ k + x) mod 2 ^ k = (num k zs * 2 ^ k + y) mod 2 ^ k" using snoc.prems(4) ys by simp
  then have "x = y" using snoc.prems(2,3) ys by simp
  moreover from this have "num k xs = num k zs" using snoc.prems(4) ys by simp
  then have "xs = zs" using snoc.IH snoc.prems ys by simp
  ultimately show ?case using ys by simp
qed simp

lemma or_low_nat:
  fixes x y :: nat
  assumes "y < 2 ^ k"
  shows "push_bit k x OR y = x * 2 ^ k + y"
proof -
  have "take_bit k y = y" using assms by (simp add: take_bit_nat_eq_self)
  then have "\<not> bit y n" if "k \<le> n" for n
    using that by (metis bit_take_bit_iff linorder_not_le)
  then have "push_bit k x AND y = 0"
    by (intro bit_eqI) (auto simp: bit_and_iff bit_push_bit_iff not_le)
  then show ?thesis by (simp add: push_bit_eq_mult flip: disjunctive_add_eq_or)
qed

text \<open>Only what is shifted out at the top of the word is lost.\<close>

lemma accumulate:
  fixes v :: "32 word"
  assumes "x < 2 ^ k" and "b + k \<le> 32"
  shows "unat (push_bit k v OR word_of_nat x) mod 2 ^ (b + k) = (unat v mod 2 ^ b) * 2 ^ k + x"
proof -
  have k: "k \<le> 32" using assms(2) by simp
  have "(2::nat) ^ k \<le> 2 ^ 32" using k by (rule power_increasing) simp
  then have x: "take_bit 32 x = x" using assms(1) by (intro take_bit_nat_eq_self) linarith
  have "unat (push_bit k v OR word_of_nat x) = take_bit 32 (push_bit k (unat v)) OR x"
    by (simp add: unsigned_or_eq unsigned_push_bit_eq unsigned_of_nat x)
  also have "\<dots> = take_bit 32 (push_bit k (unat v) OR x)" by (simp add: take_bit_or x)
  also have "push_bit k (unat v) OR x = unat v * 2 ^ k + x" using assms(1) by (rule or_low_nat)
  finally have "unat (push_bit k v OR word_of_nat x) mod 2 ^ (b + k) = (unat v * 2 ^ k + x) mod 2 ^ (b + k)"
    unfolding take_bit_eq_mod using assms(2) by (simp only: mod_mod_cancel [OF le_imp_power_dvd])
  also have "\<dots> = (unat v mod 2 ^ b) * 2 ^ k + x"
  proof -
    have "(unat v * 2 ^ k + x) mod (2 ^ k * 2 ^ b) = 2 ^ k * (((unat v * 2 ^ k + x) div 2 ^ k) mod 2 ^ b) + (unat v * 2 ^ k + x) mod 2 ^ k"
      by (rule mod_mult2_eq)
    then show ?thesis using assms(1) by (simp add: power_add mult.commute)
  qed
  finally show ?thesis .
qed

lemma high_low:
  fixes v :: nat
  assumes "k \<le> b"
  shows "v mod 2 ^ b = (v div 2 ^ (b - k) mod 2 ^ k) * 2 ^ (b - k) + v mod 2 ^ (b - k)"
proof -
  have two: "(2::nat) ^ b = 2 ^ (b - k) * 2 ^ k" using assms by (simp flip: power_add)
  show ?thesis unfolding two mod_mult2_eq by (simp only: mult.commute)
qed

lemma unat_high: "k \<le> 32 \<Longrightarrow> unat (drop_bit n (v :: 32 word) AND mask k) = unat v div 2 ^ n mod 2 ^ k"
  using take_bit_nat_eq_self [of "unat v" 32] unsigned_less [of v, where 'a = nat]
  by (simp only: flip: take_bit_eq_mask) (simp add: unsigned_take_bit_eq unsigned_drop_bit_eq min_def flip: take_bit_eq_mod drop_bit_eq_div)

lemma unat_mod_32: "k \<le> 32 \<Longrightarrow> unat (v :: 32 word) mod 2 ^ 32 = unat v"
  using unsigned_less [of v, where 'a = nat] by simp

lemma mask_literals: "(31 :: 32 word) = mask 5" "(255 :: 32 word) = mask 8"
  by (simp_all add: mask_eq_exp_minus_1)


subsection \<open>The round trip\<close>

definition digits5 :: "nat list \<Rightarrow> string" where
  "digits5 ds = map ((!) BASE32) ds"

definition bytes8 :: "8 word list \<Rightarrow> nat" where
  "bytes8 bs = num 8 (map unat bs)"

lemma emit_digits:
  "bits \<le> 32 \<Longrightarrow> \<exists>ds. emit bits v out = (bits mod 5, out @ digits5 ds) \<and> length ds = bits div 5 \<and> (\<forall>d \<in> set ds. d < 32)
     \<and> unat v mod 2 ^ bits = num 5 ds * 2 ^ (bits mod 5) + unat v mod 2 ^ (bits mod 5)"
proof (induction bits v out rule: emit.induct)
  case (1 bits v out)
  show ?case
  proof (cases "5 \<le> bits")
    case True
    let ?d = "unat v div 2 ^ (bits - 5) mod 2 ^ 5"
    have c: "base32_char (bits - 5) v = BASE32 ! ?d"
      by (simp only: base32_char_def mask_literals) (simp only: unat_high)
    from 1(2) have "bits - 5 \<le> 32" by simp
    from 1(1) [OF True this] obtain ds where ds: "emit (bits - 5) v (out @ [base32_char (bits - 5) v])
          = ((bits - 5) mod 5, (out @ [base32_char (bits - 5) v]) @ digits5 ds)"
        "length ds = (bits - 5) div 5" "\<forall>d \<in> set ds. d < 32"
        "unat v mod 2 ^ (bits - 5) = num 5 ds * 2 ^ ((bits - 5) mod 5) + unat v mod 2 ^ ((bits - 5) mod 5)"
      by blast
    have m: "(bits - 5) mod 5 = bits mod 5" "(bits - 5) div 5 + 1 = bits div 5" using True by (simp_all add: le_mod_geq le_div_geq)
    have e: "bits - 5 = 5 * length ds + bits mod 5" using ds(2) m by (metis mult.commute div_mult_mod_eq)
    have "unat v mod 2 ^ bits = ?d * 2 ^ (bits - 5) + unat v mod 2 ^ (bits - 5)"
      using True by (rule high_low)
    also have "\<dots> = num 5 (?d # ds) * 2 ^ (bits mod 5) + unat v mod 2 ^ (bits mod 5)"
      unfolding num_Cons using ds(4) m(1) by (simp add: algebra_simps e power_add)
    finally have "unat v mod 2 ^ bits = num 5 (?d # ds) * 2 ^ (bits mod 5) + unat v mod 2 ^ (bits mod 5)" .
    moreover have "emit bits v out = (bits mod 5, out @ digits5 (?d # ds))"
      using True ds(1) m(1) c by (simp add: emit.simps [of bits] digits5_def)
    moreover have "length (?d # ds) = bits div 5" using ds(2) m(2) by simp
    moreover have "\<forall>d \<in> set (?d # ds). d < 32" using ds(3) by simp
    ultimately show ?thesis by blast
  qed (use 1 in \<open>auto simp: emit.simps [of bits] digits5_def intro: exI [of _ "[]"]\<close>)
qed

text \<open>What has been written, and the bits still in the accumulator, are the bytes read.\<close>

definition encoding :: "8 word list \<Rightarrow> nat \<Rightarrow> 32 word \<Rightarrow> nat list \<Rightarrow> bool" where
  "encoding bs b v ds \<longleftrightarrow> b < 5 \<and> (\<forall>d \<in> set ds. d < 32) \<and> 5 * length ds + b = 8 * length bs
     \<and> bytes8 bs = num 5 ds * 2 ^ b + unat v mod 2 ^ b"

lemma encoding_byte:
  assumes "encoding bs b v ds"
  obtains b' ds' where "emit (b + 8) (push_bit 8 v OR ucast byte) (digits5 ds) = (b', digits5 ds')"
    and "encoding (bs @ [byte]) b' (push_bit 8 v OR ucast byte) ds'"
proof -
  let ?v = "push_bit 8 v OR ucast byte" and ?b = "(b + 8) mod 5"
  from assms have b: "b < 5" and ds: "\<forall>d \<in> set ds. d < 32" and len: "5 * length ds + b = 8 * length bs"
    and val: "bytes8 bs = num 5 ds * 2 ^ b + unat v mod 2 ^ b" by (auto simp: encoding_def)
  have byte: "unat byte < 2 ^ 8" using unsigned_less [of byte, where 'a = nat] by simp
  have u: "ucast byte = (word_of_nat (unat byte) :: 32 word)" by simp
  have acc: "unat ?v mod 2 ^ (b + 8) = (unat v mod 2 ^ b) * 2 ^ 8 + unat byte"
    unfolding u by (rule accumulate) (use b byte in simp_all)
  from b have "b + 8 \<le> 32" by simp
  from emit_digits [OF this, of ?v "digits5 ds"] obtain es where
    es: "emit (b + 8) ?v (digits5 ds) = (?b, digits5 ds @ digits5 es)" "length es = (b + 8) div 5" "\<forall>d \<in> set es. d < 32"
      "unat ?v mod 2 ^ (b + 8) = num 5 es * 2 ^ ?b + unat ?v mod 2 ^ ?b" by blast
  have e: "b + 8 = 5 * length es + ?b" using es(2) by simp
  have "bytes8 (bs @ [byte]) = num 5 ds * 2 ^ (b + 8) + unat ?v mod 2 ^ (b + 8)"
    unfolding acc bytes8_def by (simp add: val [unfolded bytes8_def] algebra_simps power_add)
  also have "\<dots> = num 5 (ds @ es) * 2 ^ ?b + unat ?v mod 2 ^ ?b"
    unfolding es(4) num_append by (subst e) (simp add: algebra_simps power_add)
  finally have "encoding (bs @ [byte]) ?b ?v (ds @ es)"
    using ds es(3) len e by (auto simp: encoding_def)
  moreover have "emit (b + 8) ?v (digits5 ds) = (?b, digits5 (ds @ es))" using es(1) by (simp add: digits5_def)
  ultimately show thesis using that by blast
qed

lemma encode_from_digits:
  "encoding bs b v ds \<Longrightarrow> \<exists>es pad. encode_from bytes b v (digits5 ds) = digits5 es \<and> (\<forall>d \<in> set es. d < 32) \<and> pad < 5
     \<and> 5 * length es = 8 * length (bs @ bytes) + pad \<and> num 5 es = bytes8 (bs @ bytes) * 2 ^ pad"
proof (induction bytes arbitrary: bs b v ds)
  case Nil
  show ?case
  proof (cases "0 < b")
    case True
    from Nil have b: "b < 5" by (simp add: encoding_def)
    let ?d = "unat (push_bit (5 - b) v AND 31)"
    have "unat (push_bit (5 - b) v OR word_of_nat 0) mod 2 ^ (b + (5 - b)) = (unat v mod 2 ^ b) * 2 ^ (5 - b) + 0"
      by (rule accumulate) (use b in simp_all)
    moreover have "?d = unat (push_bit (5 - b) v) mod 2 ^ 5"
      using unat_high [of 5 0 "push_bit (5 - b) v"] by (simp add: mask_literals)
    ultimately have d: "?d = (unat v mod 2 ^ b) * 2 ^ (5 - b)" using b by simp
    have "?d < 32" using \<open>?d = unat (push_bit (5 - b) v) mod 2 ^ 5\<close> by simp
    moreover have "num 5 (ds @ [?d]) = bytes8 bs * 2 ^ (5 - b)"
    proof -
      have "(2::nat) ^ 5 = 2 ^ b * 2 ^ (5 - b)" using b by (simp flip: power_add)
      with Nil show ?thesis by (simp only: num_simps d) (simp add: encoding_def algebra_simps)
    qed
    ultimately show ?thesis using True Nil
      by (intro exI [of _ "ds @ [?d]"] exI [of _ "5 - b"]) (auto simp: encoding_def digits5_def)
  qed (use Nil in \<open>auto simp: encoding_def intro!: exI [of _ ds] exI [of _ 0]\<close>)
next
  case (Cons byte bytes)
  from encoding_byte [OF Cons.prems, of byte] obtain b' ds' where
    e: "emit (b + 8) (push_bit 8 v OR ucast byte) (digits5 ds) = (b', digits5 ds')"
      "encoding (bs @ [byte]) b' (push_bit 8 v OR ucast byte) ds'" by blast
  from Cons.IH [OF e(2)] e(1) show ?case by (simp add: Let_def)
qed


text \<open>What has been read is in the bytes written and the bits still in the accumulator.\<close>

definition decoding :: "nat list \<Rightarrow> nat \<Rightarrow> 32 word \<Rightarrow> 8 word list \<Rightarrow> bool" where
  "decoding ds b v bs \<longleftrightarrow> b < 8 \<and> 5 * length ds = 8 * length bs + b \<and> num 5 ds = bytes8 bs * 2 ^ b + unat v mod 2 ^ b"

lemma base32_index_digit: "d < 32 \<Longrightarrow> base32_index (BASE32 ! d) = Some d"
proof -
  have "\<forall>d \<in> set [0..<32]. base32_index (BASE32 ! d) = Some d" by code_simp
  then show "d < 32 \<Longrightarrow> base32_index (BASE32 ! d) = Some d" by simp
qed

lemma decoding_digit:
  assumes "decoding ds b v bs" and "d < 32"
  shows "if 8 \<le> b + 5
    then decoding (ds @ [d]) (b - 3) (push_bit 5 v OR word_of_nat d)
      (bs @ [ucast (drop_bit (b - 3) (push_bit 5 v OR word_of_nat d) AND 255)])
    else decoding (ds @ [d]) (b + 5) (push_bit 5 v OR word_of_nat d) bs"
proof -
  let ?v = "push_bit 5 v OR word_of_nat d"
  from assms have b: "b < 8" and len: "5 * length ds = 8 * length bs + b" and val: "num 5 ds = bytes8 bs * 2 ^ b + unat v mod 2 ^ b"
    by (simp_all add: decoding_def)
  have acc: "unat ?v mod 2 ^ (b + 5) = (unat v mod 2 ^ b) * 2 ^ 5 + d"
    by (rule accumulate) (use b assms(2) in simp_all)
  have n: "num 5 (ds @ [d]) = bytes8 bs * 2 ^ (b + 5) + unat ?v mod 2 ^ (b + 5)"
    unfolding acc by (simp add: val algebra_simps power_add)
  show ?thesis
  proof (cases "8 \<le> b + 5")
    case True
    let ?byte = "ucast (drop_bit (b - 3) ?v AND 255) :: 8 word"
    have e: "b + 5 - 8 = b - 3" "b + 5 = b - 3 + 8" using True by simp_all
    have "unat (drop_bit (b - 3) ?v AND 255) = unat ?v div 2 ^ (b - 3) mod 2 ^ 8"
      unfolding mask_literals by (rule unat_high) simp
    then have byte: "unat ?byte = unat ?v div 2 ^ (b - 3) mod 2 ^ 8"
      by (simp add: unsigned_ucast_eq take_bit_eq_mod)
    have "unat ?v mod 2 ^ (b + 5) = unat ?byte * 2 ^ (b - 3) + unat ?v mod 2 ^ (b - 3)"
      unfolding byte using high_low [of 8 "b + 5" "unat ?v"] True unfolding e(1) by simp
    with n have "num 5 (ds @ [d]) = bytes8 bs * 2 ^ (b + 5) + (unat ?byte * 2 ^ (b - 3) + unat ?v mod 2 ^ (b - 3))"
      by (simp only:)
    also have "(2::nat) ^ (b + 5) = 2 ^ 8 * 2 ^ (b - 3)" by (simp only: e(2) power_add mult.commute)
    finally have "num 5 (ds @ [d]) = bytes8 (bs @ [?byte]) * 2 ^ (b - 3) + unat ?v mod 2 ^ (b - 3)"
      by (simp only: bytes8_def list.map map_append num_simps add_mult_distrib mult.assoc add.assoc)
    then show ?thesis using True b len by (simp add: decoding_def)
  qed (use n b len in \<open>simp add: decoding_def\<close>)
qed

lemma decode_from_digits:
  "decoding ds b v bs \<Longrightarrow> \<forall>d \<in> set es. d < 32 \<Longrightarrow>
     \<exists>b' v' bs'. decode_from (digits5 es) b v bs = Inr bs' \<and> decoding (ds @ es) b' v' bs'"
proof (induction es arbitrary: ds b v bs)
  case (Cons d es)
  then have d: "d < 32" by simp
  note step = decoding_digit [OF Cons.prems(1) d] and i = base32_index_digit [OF d]
  show ?case
  proof (cases "8 \<le> b + 5")
    case True
    with step have "decoding (ds @ [d]) (b - 3) (push_bit 5 v OR word_of_nat d)
      (bs @ [ucast (drop_bit (b - 3) (push_bit 5 v OR word_of_nat d) AND 255)])" by simp
    from Cons.IH [OF this] Cons.prems(2) True i show ?thesis by (simp add: digits5_def Let_def)
  next
    case False
    with step have "decoding (ds @ [d]) (b + 5) (push_bit 5 v OR word_of_nat d) bs" by simp
    from Cons.IH [OF this] Cons.prems(2) False i show ?thesis by (simp add: digits5_def Let_def)
  qed
qed (auto simp: digits5_def)

lemma digits5_alphabet: "\<forall>d \<in> set ds. d < 32 \<Longrightarrow> set (digits5 ds) \<subseteq> set BASE32"
proof -
  have "length BASE32 = 32" by code_simp
  then show "\<forall>d \<in> set ds. d < 32 \<Longrightarrow> set (digits5 ds) \<subseteq> set BASE32"
    by (auto simp: digits5_def intro!: nth_mem)
qed

lemma digits5_clean:
  assumes "\<forall>d \<in> set ds. d < 32"
  shows "filter (\<lambda>c. \<not> js_space c) (rev (dropWhile (\<lambda>c. c = CHR ''='') (rev (to_upper (digits5 ds))))) = digits5 ds"
proof -
  have "\<forall>c \<in> set BASE32. upper_char c = c \<and> \<not> js_space c \<and> c \<noteq> CHR ''=''" by code_simp
  with digits5_alphabet [OF assms] have c: "\<forall>c \<in> set (digits5 ds). upper_char c = c \<and> \<not> js_space c \<and> c \<noteq> CHR ''=''" by blast
  then have "to_upper (digits5 ds) = digits5 ds" by (simp add: map_idI)
  moreover have "dropWhile (\<lambda>c. c = CHR ''='') (rev (digits5 ds)) = rev (digits5 ds)"
    using c hd_in_set [of "rev (digits5 ds)"] by (auto simp: dropWhile_eq_self_iff)
  ultimately show ?thesis using c by (simp add: filter_id_conv)
qed

text \<open>
  C35: base 32 is read back: decoding what \<open>base32Encode\<close> wrote gives the same bytes, for any number of them, although both
  routines push their bits through a 32-bit word that overflows; what is written has the eight characters for five
  bytes the standard asks for, all of its alphabet.
\<close>

theorem base32_round_trip:
  "base32Decode (base32Encode bytes) = Inr bytes
    \<and> set (base32Encode bytes) \<subseteq> set BASE32 \<and> length (base32Encode bytes) = (8 * length bytes + 4) div 5"
proof -
  have "encoding [] 0 0 []" by (simp add: encoding_def bytes8_def)
  from encode_from_digits [OF this, of bytes] obtain es pad where
    es: "base32Encode bytes = digits5 es" "\<forall>d \<in> set es. d < 32" "pad < 5" "5 * length es = 8 * length bytes + pad"
      "num 5 es = bytes8 bytes * 2 ^ pad"
    by (auto simp: base32Encode_def digits5_def)
  have "decoding [] 0 0 []" by (simp add: decoding_def bytes8_def)
  from decode_from_digits [OF this es(2)] obtain b v bs where
    bs: "decode_from (digits5 es) 0 0 [] = Inr bs" "decoding es b v bs" by auto
  from bs(2) have b: "b < 8" "5 * length es = 8 * length bs + b" "num 5 es = bytes8 bs * 2 ^ b + unat v mod 2 ^ b"
    by (simp_all add: decoding_def)
  have total: "8 * length bs + b = 8 * length bytes + pad" using b(2) es(4) by linarith
  then have "(8 * length bs + b) mod 8 = (8 * length bytes + pad) mod 8" by (simp only:)
  with b(1) es(3) have "b = pad" by (simp only: mod_mult_self4 mod_less)
  with total have same: "b = pad" "length bs = length bytes" by simp_all
  have "bytes8 bytes = (bytes8 bs * 2 ^ pad + unat v mod 2 ^ pad) div 2 ^ pad"
    using b(3) es(5) same(1) by (metis nonzero_mult_div_cancel_right power_not_zero zero_neq_numeral)
  then have "bytes8 bs = bytes8 bytes" by simp
  then have "map unat bs = map unat bytes"
    unfolding bytes8_def using same(2) unsigned_less [where 'a = nat and 'b = 8]
    by (intro num_inj [where k = 8]) auto
  moreover have "inj (unat :: 8 word \<Rightarrow> nat)" by (simp add: inj_on_def word_unat_eq_iff)
  ultimately have "bs = bytes" by (rule map_injective)
  moreover have "base32Decode (base32Encode bytes) = Inr bs"
    using bs(1) by (simp add: base32Decode_def es(1) digits5_clean [OF es(2)])
  moreover note digits5_alphabet [OF es(2)]
  moreover have "length (digits5 es) = (8 * length bytes + 4) div 5" using es(3,4) unfolding digits5_def length_map by linarith
  ultimately show ?thesis using es(1) by simp
qed

subsection \<open>Codes within their window\<close>

lemma codeFor_digits:
  assumes "codeFor hmac secret step = Inr code"
  shows "length code = TOTP_DIGITS \<and> list_all js_digit code"
proof -
  from assms obtain digest where c: "code = pad_start TOTP_DIGITS (CHR ''0'') (show_nat (truncated digest mod 10 ^ TOTP_DIGITS))"
    by (auto simp: codeFor_def result_simps)
  have short: "length (show_nat n) \<le> k" if "n < 10 ^ k" "0 < k" for n k
    using that
  proof (induction k arbitrary: n)
    case (Suc k)
    show ?case
    proof (cases "n < 10")
      case False
      then have "0 < k" "n div 10 < 10 ^ k" using Suc.prems by (cases k; auto)+
      with Suc.IH [of "n div 10"] False show ?thesis by (subst show_nat.simps) simp
    qed (subst show_nat.simps, simp)
  qed simp
  have "length (show_nat (truncated digest mod 10 ^ TOTP_DIGITS)) \<le> TOTP_DIGITS"
    by (rule short) (simp_all add: TOTP_DIGITS_def)
  then show ?thesis unfolding c using show_nat_digits
    by (auto simp: pad_start_def list_all_iff js_digit_def)
qed

lemma try_steps_sound:
  "try_steps hmac secret given after steps = Inr (Some step) \<Longrightarrow>
     step \<in> set steps \<and> after < step \<and> codeFor hmac secret step = Inr given"
  by (induction steps) (auto simp: result_simps split: if_splits)

lemma verifyCode_sound:
  "verifyCode hmac secret code atMs after = Inr (Some step) \<Longrightarrow>
     after < step \<and> \<bar>step - stepAt atMs\<bar> \<le> 1 \<and> codeFor hmac secret step = Inr (trim code)"
  by (auto simp: verifyCode_def Let_def TOTP_WINDOW_def split: if_splits dest!: try_steps_sound)

end
