(* ===== verification/Second_Factor.thy ===== *)
theory Second_Factor
  imports Totp Limits
begin

text \<open>
  The second factor of an account: \<open>apps/api/src/session/second-factor.ts\<close> (where it is kept),
  \<open>session/second-factor-lock.ts\<close> (how many wrong proofs it takes) and \<open>apps/api/src/routes/second-factor.ts\<close> (proofs,
  enrolment, changes and resets).

  Requests interleave wherever the code awaits: a request is a task with a phase, and \<open>advance\<close> runs one task from one
  \<open>await\<close> to the next.  The passkey library, the hashes and the random values are fields of \<open>Crypto\<close>.
\<close>

subsection \<open>The stored factor\<close>

record StoredPasskey =
  pk_id :: string
  pk_publicKey :: string
  pk_counter :: nat
  pk_transports :: "string list option"
  pk_at :: int

record SecondFactor =
  sf_secret :: "string option"
  sf_lastStep :: int
  sf_passkeys :: "StoredPasskey list option"
  sf_recoveryHashes :: "string list"
  sf_at :: int
  sf_misses :: "nat option"
  sf_lastMissAt :: "int option"
  sf_version :: "string option"

text \<open>
  A payload is a factor sealed under a random value of its own, so the number of the sealing stands for the payload's
  bytes; \<open>None\<close> is a payload that does not open.  \<open>fingerprint\<close> is the \<open>version\<close> of a payload.
\<close>

record StoredRow =
  row_payload :: "SecondFactor option"
  row_sealing :: nat
  row_updatedAt :: int

record FactorStore =
  fs_rows :: "string \<rightharpoonup> StoredRow"
  fs_sealings :: nat

type_synonym fingerprint = "nat \<Rightarrow> string"

definition put_row :: "string \<Rightarrow> SecondFactor \<Rightarrow> FactorStore \<Rightarrow> FactorStore" where
  "put_row identity factor st =
    st\<lparr>fs_rows := (fs_rows st)(identity \<mapsto>
         \<lparr>row_payload = Some (factor\<lparr>sf_version := None\<rparr>), row_sealing = fs_sealings st, row_updatedAt = sf_at factor\<rparr>),
       fs_sealings := Suc (fs_sealings st)\<rparr>"

definition remove_row :: "string \<Rightarrow> FactorStore \<Rightarrow> FactorStore" where
  "remove_row identity st = st\<lparr>fs_rows := (fs_rows st)(identity := None)\<rparr>"

text \<open>A payload that is sealed and then not written.\<close>

definition sealed_only :: "FactorStore \<Rightarrow> FactorStore" where
  "sealed_only st = st\<lparr>fs_sealings := Suc (fs_sealings st)\<rparr>"

definition get_factor :: "fingerprint \<Rightarrow> string \<Rightarrow> FactorStore \<Rightarrow> SecondFactor option \<times> FactorStore" where
  "get_factor fp identity st = (case fs_rows st identity of
     None \<Rightarrow> (None, st)
   | Some row \<Rightarrow> (case row_payload row of
       Some factor \<Rightarrow> (Some (factor\<lparr>sf_version := Some (fp (row_sealing row))\<rparr>), st)
     | None \<Rightarrow> (None, remove_row identity st)))"

definition set_factor :: "fingerprint \<Rightarrow> string \<Rightarrow> SecondFactor \<Rightarrow> FactorStore \<Rightarrow> bool \<times> FactorStore" where
  "set_factor fp identity factor st = (case sf_version factor of
     None \<Rightarrow> (True, put_row identity factor st)
   | Some expected \<Rightarrow> (case fs_rows st identity of
       None \<Rightarrow> (False, sealed_only st)
     | Some row \<Rightarrow> if fp (row_sealing row) \<noteq> expected then (False, sealed_only st)
         else (True, put_row identity factor st)))"

definition create_factor :: "string \<Rightarrow> SecondFactor \<Rightarrow> FactorStore \<Rightarrow> bool \<times> FactorStore" where
  "create_factor identity factor st =
    (if fs_rows st identity = None then (True, put_row identity factor st) else (False, sealed_only st))"

definition clear_factor :: "fingerprint \<Rightarrow> string \<Rightarrow> string option \<Rightarrow> FactorStore \<Rightarrow> bool \<times> FactorStore" where
  "clear_factor fp identity expected st = (case expected of
     None \<Rightarrow> (True, remove_row identity st)
   | Some v \<Rightarrow> (case fs_rows st identity of
       None \<Rightarrow> (False, st)
     | Some row \<Rightarrow> if fp (row_sealing row) \<noteq> v then (False, st) else (True, remove_row identity st)))"

subsection \<open>The lock\<close>

definition MAX_MISSES :: nat where "MAX_MISSES = 10"

definition LOCK_MS :: int where "LOCK_MS = 15 * 60000"

definition recent :: "SecondFactor \<Rightarrow> int \<Rightarrow> nat" where
  "recent factor t = (case sf_lastMissAt factor of
     Some at \<Rightarrow> if t - at < LOCK_MS then (case sf_misses factor of Some n \<Rightarrow> n | None \<Rightarrow> 0) else 0
   | None \<Rightarrow> 0)"

definition lockLeftMs :: "SecondFactor \<Rightarrow> int \<Rightarrow> int" where
  "lockLeftMs factor t = (case sf_lastMissAt factor of
     None \<Rightarrow> 0
   | Some at \<Rightarrow> if recent factor t < MAX_MISSES then 0 else max 0 (at + LOCK_MS - t))"

definition withMiss :: "SecondFactor \<Rightarrow> int \<Rightarrow> SecondFactor" where
  "withMiss factor t = factor\<lparr>sf_misses := Some (recent factor t + 1), sf_lastMissAt := Some t\<rparr>"

definition withoutMisses :: "SecondFactor \<Rightarrow> SecondFactor" where
  "withoutMisses factor = factor\<lparr>sf_misses := None, sf_lastMissAt := None\<rparr>"

subsection \<open>Requests\<close>

record PasskeyAnswer =
  an_ticket :: string
  an_id :: string
  an_response :: string

datatype SecondFactorProof = ByCode string | ByPasskey PasskeyAnswer

text \<open>
  What the code asks of others.  \<open>cr_verify\<close> and \<open>cr_register\<close> are the passkey library: the new counter of a passkey that
  answered a challenge, and the passkey a registration made.  \<open>cr_ticket\<close>, \<open>cr_challenge\<close> and \<open>cr_random\<close> are the random
  values a request draws.  \<open>cr_identity\<close> is the row key of an account name at a session's address, \<open>cr_identityKey\<close> what a
  login's challenge is bound to.
\<close>

record Crypto =
  cr_hmac :: hmac
  cr_sha256 :: "string \<Rightarrow> string"
  cr_version :: fingerprint
  cr_passkeys :: bool
  cr_verify :: "string \<Rightarrow> string \<Rightarrow> StoredPasskey \<Rightarrow> nat option"
  cr_register :: "string \<Rightarrow> string \<Rightarrow> StoredPasskey option"
  cr_ticket :: "nat \<Rightarrow> string"
  cr_challenge :: "nat \<Rightarrow> string"
  cr_random :: "nat \<Rightarrow> nat \<Rightarrow> 8 word list"
  cr_user :: "string \<Rightarrow> string"
  cr_identity :: "string \<Rightarrow> string \<Rightarrow> string"
  cr_identityKey :: "string \<Rightarrow> string"

definition account :: "Crypto \<Rightarrow> string \<Rightarrow> string" where
  "account cr session = cr_identity cr session (cr_user cr session)"

datatype What =
    Login "PasskeyAnswer option" "string option"
  | BeginApp "SecondFactorProof option"
  | ConfirmApp string
  | BeginKey "SecondFactorProof option"
  | ConfirmKey string
  | AskChallenge
  | RemoveAll SecondFactorProof
  | RemoveApp SecondFactorProof
  | RemoveKey string SecondFactorProof
  | ResetAccount string bool

text \<open>What \<open>changeFactor\<close> is to make of the stored factor: its \<open>apply\<close>.\<close>

datatype Change =
    PutApp string int "string list"
  | PutKey StoredPasskey "string list"
  | DropAll
  | DropApp
  | DropKey string

datatype Outcome = Accepted | NotEnrolled | Refused | Locked int | Missing | NotFound | StartAgain | Conflict
  | Unsupported | Forbidden | RateLimited | Failed string

datatype Phase =
    Arrived
  | Held SecondFactor
  | Counted
  | Fresh SecondFactor
  | Verifying SecondFactor string PasskeyAnswer
  | Proven
  | Offering "string list"
  | Registering string "string list" int
  | Changing Change nat
  | Applying Change nat "SecondFactor option"
  | Issuing Outcome
  | Resetting
  | Answered Outcome

text \<open>A request, with the address it came from and the end of the window its place in that address's budget was taken in.\<close>

record Task =
  tk_session :: string
  tk_ip :: string
  tk_slot :: "int option"
  tk_what :: What
  tk_phase :: Phase

record Challenge =
  ch_bound :: string
  ch_challenge :: string
  ch_at :: int

record Pending =
  pe_value :: string
  pe_recoveryCodes :: "string list"
  pe_at :: int

text \<open>What happened, for the properties: nothing of the code reads it.\<close>

datatype Mark = Step int | Recovery string | Ticket string

datatype Entry =
    Looked string int
  | Spent string string Mark
  | Created string
  | Placed string string "int option" bool
  | Cut string string
  | WasReset string

record Desk =
  dk_store :: FactorStore
  dk_limiter :: RateLimiter
  dk_challenges :: "string \<rightharpoonup> Challenge"
  dk_pendingTotp :: "string \<rightharpoonup> Pending"
  dk_pendingPasskey :: "string \<rightharpoonup> Pending"
  dk_now :: int
  dk_tasks :: "Task list"
  dk_log :: "Entry list"
  dk_taken :: "string list"

definition note_entry :: "Entry \<Rightarrow> Desk \<Rightarrow> Desk" where
  "note_entry e d = d\<lparr>dk_log := e # dk_log d\<rparr>"

definition ENROLMENT_WINDOW_MS :: int where "ENROLMENT_WINDOW_MS = 10 * 60000"

definition CHALLENGE_WINDOW_MS :: int where "CHALLENGE_WINDOW_MS = 2 * 60000"

definition CHANGE_ATTEMPTS :: nat where "CHANGE_ATTEMPTS = 3"

text \<open>The entries of a map that are kept when it is swept.\<close>

definition sweep_map :: "('v \<Rightarrow> int) \<Rightarrow> int \<Rightarrow> int \<Rightarrow> (string \<rightharpoonup> 'v) \<Rightarrow> (string \<rightharpoonup> 'v)" where
  "sweep_map at t window m = (\<lambda>k. case m k of Some v \<Rightarrow> if t - at v > window then None else Some v | None \<Rightarrow> None)"

definition with_store :: "(FactorStore \<Rightarrow> 'a \<times> FactorStore) \<Rightarrow> Desk \<Rightarrow> 'a \<times> Desk" where
  "with_store f d = (case f (dk_store d) of (x, st) \<Rightarrow> (x, d\<lparr>dk_store := st\<rparr>))"

abbreviation read_factor :: "Crypto \<Rightarrow> string \<Rightarrow> Desk \<Rightarrow> SecondFactor option \<times> Desk" where
  "read_factor cr a \<equiv> with_store (get_factor (cr_version cr) a)"

abbreviation write_factor :: "Crypto \<Rightarrow> string \<Rightarrow> SecondFactor \<Rightarrow> Desk \<Rightarrow> bool \<times> Desk" where
  "write_factor cr a f \<equiv> with_store (set_factor (cr_version cr) a f)"

subsection \<open>Challenges\<close>

text \<open>The challenges left once a new one is asked for: swept, and no other of the same account or session.\<close>

definition clear_challenges :: "string \<Rightarrow> Desk \<Rightarrow> Desk" where
  "clear_challenges bound d =
    (let kept = sweep_map ch_at (dk_now d) CHALLENGE_WINDOW_MS (dk_challenges d) in
     d\<lparr>dk_challenges := (\<lambda>k. case kept k of Some c \<Rightarrow> if ch_bound c = bound then None else Some c | None \<Rightarrow> None)\<rparr>)"

definition bound_to :: "Crypto \<Rightarrow> Task \<Rightarrow> string" where
  "bound_to cr t = (case tk_what t of Login _ _ \<Rightarrow> cr_identityKey cr (tk_session t) | _ \<Rightarrow> tk_session t)"

definition issue :: "Crypto \<Rightarrow> nat \<Rightarrow> Task \<Rightarrow> Desk \<Rightarrow> Desk" where
  "issue cr i t d = d\<lparr>dk_challenges := (dk_challenges d)(cr_ticket cr i \<mapsto>
     \<lparr>ch_bound = bound_to cr t, ch_challenge = cr_challenge cr i, ch_at = dk_now d\<rparr>)\<rparr>"

definition takeChallenge :: "string \<Rightarrow> string \<Rightarrow> Desk \<Rightarrow> string option \<times> Desk" where
  "takeChallenge ticket bound d =
    (let d' = d\<lparr>dk_challenges := (dk_challenges d)(ticket := None)\<rparr> in
     case dk_challenges d ticket of
       None \<Rightarrow> (None, d')
     | Some issued \<Rightarrow>
         if ch_bound issued \<noteq> bound \<or> dk_now d - ch_at issued > CHALLENGE_WINDOW_MS then (None, d')
         else (Some (ch_challenge issued), d'\<lparr>dk_taken := ticket # dk_taken d\<rparr>))"

subsection \<open>Proofs\<close>

definition attempt :: "Crypto \<Rightarrow> string \<Rightarrow> SecondFactor \<Rightarrow> Desk \<Rightarrow> Phase \<times> Desk" where
  "attempt cr a factor d =
    (let left = lockLeftMs factor (dk_now d) in
     if left > 0 then (Answered (Locked (ceil_sec left)), d)
     else (case write_factor cr a (withMiss factor (dk_now d)) d of
       (written, d) \<Rightarrow> if written then (Counted, note_entry (Looked a (dk_now d)) d) else (Answered Refused, d)))"

definition read_again :: "Crypto \<Rightarrow> string \<Rightarrow> Desk \<Rightarrow> Phase \<times> Desk" where
  "read_again cr a d = (case read_factor cr a d of
     (None, d) \<Rightarrow> (Answered Refused, d)
   | (Some fresh, d) \<Rightarrow> (Fresh (withoutMisses fresh), d))"

text \<open>A proof is spent by a write against the version it was looked at with.\<close>

definition spend :: "Crypto \<Rightarrow> string \<Rightarrow> string \<Rightarrow> Mark \<Rightarrow> SecondFactor \<Rightarrow> Desk \<Rightarrow> Phase \<times> Desk" where
  "spend cr a session mark factor d = (case write_factor cr a factor d of
     (written, d) \<Rightarrow> if written then (Proven, note_entry (Spent a session mark) d) else (Answered Refused, d))"

definition code_step :: "Crypto \<Rightarrow> SecondFactor \<Rightarrow> string \<Rightarrow> int \<Rightarrow> (string, int option) result" where
  "code_step cr fresh code t = (case sf_secret fresh of
     Some secret \<Rightarrow> if secret = [] then Inr None else verifyCode (cr_hmac cr) secret code t (sf_lastStep fresh)
   | None \<Rightarrow> Inr None)"

definition check_code :: "Crypto \<Rightarrow> string \<Rightarrow> string \<Rightarrow> bool \<Rightarrow> string \<Rightarrow> SecondFactor \<Rightarrow> Desk \<Rightarrow> Phase \<times> Desk" where
  "check_code cr a session login code fresh d = (case code_step cr fresh code (dk_now d) of
     Inl e \<Rightarrow> (Answered (Failed e), d)
   | Inr (Some step) \<Rightarrow> spend cr a session (Step step) (fresh\<lparr>sf_lastStep := step\<rparr>) d
   | Inr None \<Rightarrow>
       if \<not> login then (Answered Refused, d)
       else (let hash = hashRecoveryCode (cr_sha256 cr) code in
         if hash \<notin> set (sf_recoveryHashes fresh) then (Answered Refused, d)
         else spend cr a session (Recovery hash)
           (fresh\<lparr>sf_recoveryHashes := filter (\<lambda>h. h \<noteq> hash) (sf_recoveryHashes fresh)\<rparr>) d))"

definition passkeys_of :: "SecondFactor \<Rightarrow> StoredPasskey list" where
  "passkeys_of factor = (case sf_passkeys factor of Some ps \<Rightarrow> ps | None \<Rightarrow> [])"

definition ask_passkey :: "Crypto \<Rightarrow> string \<Rightarrow> PasskeyAnswer \<Rightarrow> SecondFactor \<Rightarrow> Desk \<Rightarrow> Phase \<times> Desk" where
  "ask_passkey cr bound answer fresh d = (case takeChallenge (an_ticket answer) bound d of
     (Some challenge, d) \<Rightarrow> if cr_passkeys cr then (Verifying fresh challenge answer, d) else (Answered Refused, d)
   | (None, d) \<Rightarrow> (Answered Refused, d))"

definition verifyPasskey :: "Crypto \<Rightarrow> PasskeyAnswer \<Rightarrow> string \<Rightarrow> StoredPasskey list \<Rightarrow> (string \<times> nat) option" where
  "verifyPasskey cr answer challenge have = (case List.find (\<lambda>p. pk_id p = an_id answer) have of
     None \<Rightarrow> None
   | Some passkey \<Rightarrow> map_option (\<lambda>n. (pk_id passkey, n)) (cr_verify cr (an_response answer) challenge passkey))"

definition spendPasskey :: "Crypto \<Rightarrow> string \<Rightarrow> string \<Rightarrow> PasskeyAnswer \<Rightarrow> string \<Rightarrow> SecondFactor \<Rightarrow> Desk \<Rightarrow> Phase \<times> Desk" where
  "spendPasskey cr a session answer challenge factor d = (case verifyPasskey cr answer challenge (passkeys_of factor) of
     None \<Rightarrow> (Answered Refused, d)
   | Some (used, counter) \<Rightarrow> spend cr a session (Ticket (an_ticket answer))
       (factor\<lparr>sf_passkeys := Some (map (\<lambda>p. if pk_id p = used then p\<lparr>pk_counter := counter\<rparr> else p) (passkeys_of factor))\<rparr>) d)"


definition proof_of :: "What \<Rightarrow> SecondFactorProof option" where
  "proof_of what = (case what of
     Login (Some passkey) _ \<Rightarrow> Some (ByPasskey passkey)
   | Login None (Some code) \<Rightarrow> Some (ByCode code)
   | BeginApp p \<Rightarrow> p
   | BeginKey p \<Rightarrow> p
   | RemoveAll p \<Rightarrow> Some p
   | RemoveApp p \<Rightarrow> Some p
   | RemoveKey _ p \<Rightarrow> Some p
   | _ \<Rightarrow> None)"

definition is_login :: "What \<Rightarrow> bool" where
  "is_login what = (case what of Login _ _ \<Rightarrow> True | _ \<Rightarrow> False)"

definition look_at :: "Crypto \<Rightarrow> Task \<Rightarrow> SecondFactor \<Rightarrow> Desk \<Rightarrow> Phase \<times> Desk" where
  "look_at cr t fresh d = (case proof_of (tk_what t) of
     Some (ByCode code) \<Rightarrow> check_code cr (account cr (tk_session t)) (tk_session t) (is_login (tk_what t)) code fresh d
   | Some (ByPasskey answer) \<Rightarrow> ask_passkey cr (bound_to cr t) answer fresh d
   | None \<Rightarrow> (Answered Refused, d))"

subsection \<open>Enrolment and changes\<close>

definition begin_totp :: "Crypto \<Rightarrow> nat \<Rightarrow> string \<Rightarrow> string list \<Rightarrow> Desk \<Rightarrow> Desk" where
  "begin_totp cr i session codes d =
    d\<lparr>dk_pendingTotp := (sweep_map pe_at (dk_now d) ENROLMENT_WINDOW_MS (dk_pendingTotp d))(session \<mapsto>
       \<lparr>pe_value = newSecret (cr_random cr i 0), pe_recoveryCodes = codes, pe_at = dk_now d\<rparr>)\<rparr>"

definition begin_passkey :: "Crypto \<Rightarrow> nat \<Rightarrow> string \<Rightarrow> string list \<Rightarrow> Desk \<Rightarrow> Desk" where
  "begin_passkey cr i session codes d =
    d\<lparr>dk_pendingPasskey := (sweep_map pe_at (dk_now d) ENROLMENT_WINDOW_MS (dk_pendingPasskey d))(session \<mapsto>
       \<lparr>pe_value = cr_challenge cr i, pe_recoveryCodes = codes, pe_at = dk_now d\<rparr>)\<rparr>"

definition recovery_codes :: "Crypto \<Rightarrow> nat \<Rightarrow> string list" where
  "recovery_codes cr i = newRecoveryCodes (map (\<lambda>k. cr_random cr i (Suc k)) [0..<10])"

definition remaining :: "SecondFactor \<Rightarrow> SecondFactor option" where
  "remaining factor = (if sf_secret factor \<noteq> None \<or> passkeys_of factor \<noteq> [] then Some factor else None)"

definition first_factor :: "Crypto \<Rightarrow> string list \<Rightarrow> SecondFactor" where
  "first_factor cr codes = \<lparr>sf_secret = None, sf_lastStep = -1, sf_passkeys = None,
     sf_recoveryHashes = map (hashRecoveryCode (cr_sha256 cr)) codes, sf_at = 0, sf_misses = None, sf_lastMissAt = None,
     sf_version = None\<rparr>"

text \<open>The \<open>apply\<close> of a change, \<open>Inl\<close> where it throws \<open>StaleEnrolment\<close>.\<close>

fun apply_change :: "Crypto \<Rightarrow> Change \<Rightarrow> int \<Rightarrow> SecondFactor option \<Rightarrow> (unit, SecondFactor option) result" where
  "apply_change cr (PutApp secret step codes) t current =
    (if (current \<noteq> None) \<noteq> (codes = []) then Inl ()
     else Inr (Some ((case current of Some f \<Rightarrow> f | None \<Rightarrow> first_factor cr codes)
       \<lparr>sf_secret := Some secret, sf_lastStep := step, sf_at := t\<rparr>)))"
| "apply_change cr (PutKey passkey codes) t current =
    (if (current \<noteq> None) \<noteq> (codes = []) then Inl ()
     else Inr (Some (let f = (case current of Some f \<Rightarrow> f | None \<Rightarrow> first_factor cr codes) in
       f\<lparr>sf_passkeys := Some (passkeys_of f @ [passkey]), sf_at := t\<rparr>)))"
| "apply_change cr DropAll t current = Inr None"
| "apply_change cr DropApp t current = Inr (case current of None \<Rightarrow> None
     | Some f \<Rightarrow> remaining (f\<lparr>sf_secret := None, sf_lastStep := -1\<rparr>))"
| "apply_change cr (DropKey k) t current = Inr (case current of None \<Rightarrow> None
     | Some f \<Rightarrow> remaining (f\<lparr>sf_passkeys := Some (filter (\<lambda>p. pk_id p \<noteq> k) (passkeys_of f))\<rparr>))"

definition forget_totp :: "string \<Rightarrow> Desk \<Rightarrow> Desk" where
  "forget_totp session d = d\<lparr>dk_pendingTotp := (dk_pendingTotp d)(session := None)\<rparr>"

fun note_change :: "Change \<Rightarrow> string \<Rightarrow> string \<Rightarrow> bool \<Rightarrow> Desk \<Rightarrow> Desk" where
  "note_change (PutApp secret step codes) a session over d =
    note_entry (Placed a session (Some step) over) (if over then d else note_entry (Created a) d)"
| "note_change (PutKey passkey codes) a session over d =
    note_entry (Placed a session None over) (if over then d else note_entry (Created a) d)"
| "note_change _ a session over d = note_entry (Cut a session) d"

fun after_change :: "Change \<Rightarrow> string \<Rightarrow> Desk \<Rightarrow> Desk" where
  "after_change (PutApp _ _ _) session d = forget_totp session d"
| "after_change _ session d = d"

text \<open>One pass of \<open>changeFactor\<close>, from the read of \<open>current\<close> on.\<close>

definition apply_to :: "Crypto \<Rightarrow> string \<Rightarrow> Change \<Rightarrow> nat \<Rightarrow> SecondFactor option \<Rightarrow> Desk \<Rightarrow> Phase \<times> Desk" where
  "apply_to cr session c n current d =
    (let a = account cr session in
     case apply_change cr c (dk_now d) current of
       Inl _ \<Rightarrow> (Answered StartAgain, after_change c session d)
     | Inr None \<Rightarrow> (case with_store (clear_factor (cr_version cr) a (Option.bind current sf_version)) d of
         (True, d) \<Rightarrow> (Answered Accepted, note_change c a session (current \<noteq> None) d)
       | (False, d) \<Rightarrow> (Changing c n, d))
     | Inr (Some next) \<Rightarrow> (case with_store (case current of
           Some _ \<Rightarrow> set_factor (cr_version cr) a next
         | None \<Rightarrow> create_factor a next) d of
         (True, d) \<Rightarrow> (Answered Accepted, after_change c session (note_change c a session (current \<noteq> None) d))
       | (False, d) \<Rightarrow> (Changing c n, d)))"

definition change_again :: "Crypto \<Rightarrow> string \<Rightarrow> Change \<Rightarrow> nat \<Rightarrow> Desk \<Rightarrow> Phase \<times> Desk" where
  "change_again cr session c n d = (case n of
     0 \<Rightarrow> (Answered Conflict, d)
   | Suc k \<Rightarrow> (case read_factor cr (account cr session) d of (current, d) \<Rightarrow> (Applying c k current, d)))"

definition confirm_totp :: "Crypto \<Rightarrow> string \<Rightarrow> string \<Rightarrow> Desk \<Rightarrow> Phase \<times> Desk" where
  "confirm_totp cr session code d = (case dk_pendingTotp d session of
     None \<Rightarrow> (Answered StartAgain, forget_totp session d)
   | Some started \<Rightarrow>
       if dk_now d - pe_at started > ENROLMENT_WINDOW_MS then (Answered StartAgain, forget_totp session d)
       else (case verifyCode (cr_hmac cr) (pe_value started) code (dk_now d) (-1) of
         Inl e \<Rightarrow> (Answered (Failed e), d)
       | Inr None \<Rightarrow> (Answered Refused, d)
       | Inr (Some step) \<Rightarrow> (Changing (PutApp (pe_value started) step (pe_recoveryCodes started)) CHANGE_ATTEMPTS, d)))"

definition confirm_passkey :: "Crypto \<Rightarrow> string \<Rightarrow> Desk \<Rightarrow> Phase \<times> Desk" where
  "confirm_passkey cr session d =
    (let d' = d\<lparr>dk_pendingPasskey := (dk_pendingPasskey d)(session := None)\<rparr> in
     if \<not> cr_passkeys cr then (Answered Unsupported, d)
     else (case dk_pendingPasskey d session of
       None \<Rightarrow> (Answered StartAgain, d')
     | Some started \<Rightarrow>
         if dk_now d - pe_at started > ENROLMENT_WINDOW_MS then (Answered StartAgain, d')
         else (Registering (pe_value started) (pe_recoveryCodes started) (dk_now d), d')))"

definition verifyRegistration :: "Crypto \<Rightarrow> string \<Rightarrow> string \<Rightarrow> int \<Rightarrow> StoredPasskey option" where
  "verifyRegistration cr response challenge t = map_option (\<lambda>p.
     p\<lparr>pk_at := t, pk_transports := (if pk_transports p = Some [] then None else pk_transports p)\<rparr>)
     (cr_register cr response challenge)"

definition register :: "Crypto \<Rightarrow> Task \<Rightarrow> string \<Rightarrow> string list \<Rightarrow> int \<Rightarrow> Desk \<Rightarrow> Phase \<times> Desk" where
  "register cr t challenge codes at d = (case tk_what t of
     ConfirmKey response \<Rightarrow> (case verifyRegistration cr response challenge at of
         None \<Rightarrow> (Answered Refused, d)
       | Some passkey \<Rightarrow> (Changing (PutKey passkey codes) CHANGE_ATTEMPTS, d))
   | _ \<Rightarrow> (Answered Refused, d))"

subsection \<open>A request, step by step\<close>

text \<open>Up to the first read of the stored factor, and what it leads to.\<close>

definition hold_if :: "bool \<Rightarrow> SecondFactor option \<Rightarrow> Desk \<Rightarrow> Phase \<times> Desk" where
  "hold_if enrolled factor d = (case factor of
     Some f \<Rightarrow> if enrolled then (Held f, d) else (Answered NotFound, d)
   | None \<Rightarrow> (Answered NotFound, d))"

definition arrive :: "Crypto \<Rightarrow> nat \<Rightarrow> Task \<Rightarrow> Desk \<Rightarrow> Phase \<times> Desk" where
  "arrive cr i t d =
    (let session = tk_session t; a = account cr session in
     case tk_what t of
       Login passkey code \<Rightarrow> (case read_factor cr a d of
           (None, d) \<Rightarrow> (Answered NotEnrolled, d)
         | (Some f, d) \<Rightarrow>
             if passkey \<noteq> None \<or> code \<noteq> None then (Held f, d)
             else if cr_passkeys cr \<and> passkeys_of f \<noteq> [] then (Issuing Missing, clear_challenges (bound_to cr t) d)
             else (Answered Missing, d))
     | BeginApp p \<Rightarrow> (case read_factor cr a d of
           (None, d) \<Rightarrow> (Answered Accepted, begin_totp cr i session (recovery_codes cr i) d)
         | (Some f, d) \<Rightarrow> (if p = None then Answered Refused else Held f, d))
     | BeginKey p \<Rightarrow>
         if \<not> cr_passkeys cr then (Answered Unsupported, d)
         else (case read_factor cr a d of
           (None, d) \<Rightarrow> (Offering (recovery_codes cr i), d)
         | (Some f, d) \<Rightarrow> (if p = None then Answered Refused else Held f, d))
     | ConfirmApp code \<Rightarrow> confirm_totp cr session code d
     | ConfirmKey response \<Rightarrow> confirm_passkey cr session d
     | AskChallenge \<Rightarrow>
         if \<not> cr_passkeys cr then (Answered Unsupported, d)
         else (case read_factor cr a d of (f, d) \<Rightarrow>
           if (case f of Some f \<Rightarrow> passkeys_of f = [] | None \<Rightarrow> True) then (Answered NotFound, d)
           else (Issuing Accepted, clear_challenges (bound_to cr t) d))
     | RemoveAll p \<Rightarrow> (case read_factor cr a d of (f, d) \<Rightarrow> hold_if True f d)
     | RemoveApp p \<Rightarrow> (case read_factor cr a d of (f, d) \<Rightarrow>
         hold_if (case f of Some f \<Rightarrow> sf_secret f \<noteq> None \<and> sf_secret f \<noteq> Some [] | None \<Rightarrow> False) f d)
     | RemoveKey k p \<Rightarrow> (case read_factor cr a d of (f, d) \<Rightarrow>
         hold_if (case f of Some f \<Rightarrow> list_ex (\<lambda>p. pk_id p = k) (passkeys_of f) | None \<Rightarrow> False) f d)
     | ResetAccount user manages \<Rightarrow>
         if user = cr_user cr session \<or> \<not> manages then (Answered Forbidden, d)
         else (case read_factor cr (cr_identity cr session user) d of
           (None, d) \<Rightarrow> (Answered NotFound, d)
         | (Some _, d) \<Rightarrow> (Resetting, d)))"

text \<open>What follows an accepted proof.\<close>

definition go_on :: "Crypto \<Rightarrow> nat \<Rightarrow> Task \<Rightarrow> Desk \<Rightarrow> Phase \<times> Desk" where
  "go_on cr i t d = (case tk_what t of
     BeginApp _ \<Rightarrow> (Answered Accepted, begin_totp cr i (tk_session t) [] d)
   | BeginKey _ \<Rightarrow> (Offering [], d)
   | RemoveAll _ \<Rightarrow> (Changing DropAll CHANGE_ATTEMPTS, d)
   | RemoveApp _ \<Rightarrow> (Changing DropApp CHANGE_ATTEMPTS, d)
   | RemoveKey k _ \<Rightarrow> (Changing (DropKey k) CHANGE_ATTEMPTS, d)
   | _ \<Rightarrow> (Answered Accepted, d))"

definition reset_account :: "Crypto \<Rightarrow> Task \<Rightarrow> Desk \<Rightarrow> Phase \<times> Desk" where
  "reset_account cr t d = (case tk_what t of
     ResetAccount user _ \<Rightarrow>
       (let a = cr_identity cr (tk_session t) user in
        (Answered Accepted, note_entry (WasReset a) (snd (with_store (clear_factor (cr_version cr) a None) d))))
   | _ \<Rightarrow> (Answered Forbidden, d))"

definition step_task :: "Crypto \<Rightarrow> nat \<Rightarrow> Task \<Rightarrow> Desk \<Rightarrow> Phase \<times> Desk" where
  "step_task cr i t d =
    (let session = tk_session t; a = account cr session in
     case tk_phase t of
       Arrived \<Rightarrow> arrive cr i t d
     | Held factor \<Rightarrow> attempt cr a factor d
     | Counted \<Rightarrow> read_again cr a d
     | Fresh factor \<Rightarrow> look_at cr t factor d
     | Verifying factor challenge answer \<Rightarrow> spendPasskey cr a session answer challenge factor d
     | Proven \<Rightarrow> go_on cr i t d
     | Offering codes \<Rightarrow> (Answered Accepted, begin_passkey cr i session codes d)
     | Registering challenge codes at \<Rightarrow> register cr t challenge codes at d
     | Changing c n \<Rightarrow> change_again cr session c n d
     | Applying c n current \<Rightarrow> apply_to cr session c n current d
     | Issuing outcome \<Rightarrow> (Answered outcome, issue cr i t d)
     | Resetting \<Rightarrow> reset_account cr t d
     | Answered outcome \<Rightarrow> (Answered outcome, d))"

text \<open>
  The budget of an address: a place is taken before anything is awaited (\<open>tooManyCodes\<close>) and given back with the answer
  (\<open>giveBackCodeSlots\<close>), unless a proof was refused or the account is locked (\<open>spendCodeSlot\<close>).  A login takes its place
  elsewhere.
\<close>

definition limited :: "Crypto \<Rightarrow> What \<Rightarrow> bool" where
  "limited cr what = (case what of
     Login _ _ \<Rightarrow> False
   | ResetAccount _ _ \<Rightarrow> False
   | BeginKey _ \<Rightarrow> cr_passkeys cr
   | ConfirmKey _ \<Rightarrow> cr_passkeys cr
   | AskChallenge \<Rightarrow> cr_passkeys cr
   | _ \<Rightarrow> True)"

definition tooManyCodes :: "string \<Rightarrow> Desk \<Rightarrow> int option \<times> Desk" where
  "tooManyCodes ip d = (case hit ip (dk_now d) (dk_limiter d) of (slot, rl) \<Rightarrow>
     if hr_allowed slot then (Some (hr_windowEnd slot), d\<lparr>dk_limiter := rl\<rparr>)
     else (None, d\<lparr>dk_limiter := refund ip (hr_windowEnd slot) rl\<rparr>))"

definition keeps_place :: "Outcome \<Rightarrow> bool" where
  "keeps_place out = (case out of Refused \<Rightarrow> True | Locked _ \<Rightarrow> True | _ \<Rightarrow> False)"

definition giveBackCodeSlots :: "Task \<Rightarrow> Phase \<Rightarrow> RateLimiter \<Rightarrow> RateLimiter" where
  "giveBackCodeSlots t phase rl = (case (phase, tk_slot t) of
     (Answered out, Some windowEnd) \<Rightarrow> if keeps_place out then rl else refund (tk_ip t) windowEnd rl
   | _ \<Rightarrow> rl)"

definition answered :: "Phase \<Rightarrow> bool" where
  "answered phase = (case phase of Answered _ \<Rightarrow> True | _ \<Rightarrow> False)"

definition finish :: "nat \<Rightarrow> Task \<Rightarrow> Phase \<times> Desk \<Rightarrow> Desk" where
  "finish i t r = (case r of (phase, d) \<Rightarrow>
     d\<lparr>dk_limiter := giveBackCodeSlots t phase (dk_limiter d),
       dk_tasks := (dk_tasks d)[i := t\<lparr>tk_phase := phase, tk_slot := (if answered phase then None else tk_slot t)\<rparr>]\<rparr>)"

definition advance :: "Crypto \<Rightarrow> nat \<Rightarrow> Desk \<Rightarrow> Desk" where
  "advance cr i d =
    (let t = dk_tasks d ! i in
     if tk_phase t = Arrived \<and> limited cr (tk_what t) then
       (case tooManyCodes (tk_ip t) d of
          (None, d) \<Rightarrow> finish i t (Answered RateLimited, d)
        | (Some windowEnd, d) \<Rightarrow> let t = t\<lparr>tk_slot := Some windowEnd\<rparr> in finish i t (step_task cr i t d))
     else finish i t (step_task cr i t d))"

text \<open>A row written by other hands, which does not open.\<close>

definition spoil :: "string \<Rightarrow> FactorStore \<Rightarrow> FactorStore" where
  "spoil a st = st\<lparr>fs_rows := (fs_rows st)(a \<mapsto> \<lparr>row_payload = None, row_sealing = fs_sealings st, row_updatedAt = 0\<rparr>),
     fs_sealings := Suc (fs_sealings st)\<rparr>"

datatype DeskEvent = Request string string What | Advance nat | Wait int | Spoil string

fun desk_step :: "Crypto \<Rightarrow> DeskEvent \<Rightarrow> Desk \<Rightarrow> Desk option" where
  "desk_step cr (Request session ip what) d =
    Some (d\<lparr>dk_tasks := dk_tasks d @ [\<lparr>tk_session = session, tk_ip = ip, tk_slot = None, tk_what = what, tk_phase = Arrived\<rparr>]\<rparr>)"
| "desk_step cr (Advance i) d = (if i < length (dk_tasks d) then Some (advance cr i d) else None)"
| "desk_step cr (Wait t) d = (if dk_now d \<le> t then Some (d\<lparr>dk_now := t\<rparr>) else None)"
| "desk_step cr (Spoil a) d = Some (d\<lparr>dk_store := spoil a (dk_store d)\<rparr>)"

definition empty_desk :: "nat \<Rightarrow> int \<Rightarrow> Desk" where
  "empty_desk cap windowMs = \<lparr>dk_store = \<lparr>fs_rows = Map.empty, fs_sealings = 0\<rparr>, dk_limiter = new_limiter cap windowMs,
     dk_challenges = Map.empty, dk_pendingTotp = Map.empty, dk_pendingPasskey = Map.empty, dk_now = 0, dk_tasks = [],
     dk_log = [], dk_taken = []\<rparr>"

inductive desk_reachable :: "Crypto \<Rightarrow> Desk \<Rightarrow> bool" for cr where
  start: "desk_reachable cr (empty_desk cap windowMs)"
| move: "desk_reachable cr d \<Longrightarrow> desk_step cr ev d = Some d' \<Longrightarrow> desk_reachable cr d'"

fun desk_run :: "Crypto \<Rightarrow> DeskEvent list \<Rightarrow> Desk \<Rightarrow> Desk option" where
  "desk_run cr [] d = Some d"
| "desk_run cr (ev # evs) d = Option.bind (desk_step cr ev d) (desk_run cr evs)"

lemma desk_run_reachable: "desk_reachable cr d \<Longrightarrow> desk_run cr evs d = Some d' \<Longrightarrow> desk_reachable cr d'"
  by (induction evs arbitrary: d) (auto split: bind_splits intro: desk_reachable.move)


text \<open>
  What advancing a task comes to: it is turned away by the limiter, or makes a step of its own on the desk with a place
  taken.  The limiter aside, the first changes nothing but the task.
\<close>

lemma advance_cases:
  assumes "i < length (dk_tasks d)"
  obtains (turned_away) rl where "tk_phase (dk_tasks d ! i) = Arrived"
      "advance cr i d = finish i (dk_tasks d ! i) (Answered RateLimited, d\<lparr>dk_limiter := rl\<rparr>)"
    | (step) rl slot ph e where
      "step_task cr i ((dk_tasks d ! i)\<lparr>tk_slot := slot\<rparr>) (d\<lparr>dk_limiter := rl\<rparr>) = (ph, e)"
      "advance cr i d = finish i ((dk_tasks d ! i)\<lparr>tk_slot := slot\<rparr>) (ph, e)"
proof (cases "tk_phase (dk_tasks d ! i) = Arrived \<and> limited cr (tk_what (dk_tasks d ! i))")
  case True
  let ?t = "dk_tasks d ! i"
  show thesis
  proof (cases "fst (tooManyCodes (tk_ip ?t) d)")
    case None
    then obtain rl where "tooManyCodes (tk_ip ?t) d = (None, d\<lparr>dk_limiter := rl\<rparr>)"
      by (auto simp: tooManyCodes_def split: prod.splits if_splits)
    with True turned_away show thesis by (simp add: advance_def Let_def)
  next
    case (Some e)
    then obtain rl where l: "tooManyCodes (tk_ip ?t) d = (Some e, d\<lparr>dk_limiter := rl\<rparr>)"
      by (auto simp: tooManyCodes_def split: prod.splits if_splits)
    obtain ph d' where s: "step_task cr i (?t\<lparr>tk_slot := Some e\<rparr>) (d\<lparr>dk_limiter := rl\<rparr>) = (ph, d')" by fastforce
    from True l s step show thesis by (simp add: advance_def Let_def)
  qed
next
  case False
  obtain ph e where "step_task cr i (dk_tasks d ! i) d = (ph, e)" by fastforce
  moreover from this False have "advance cr i d = finish i (dk_tasks d ! i) (ph, e)" by (auto simp: advance_def Let_def)
  ultimately show thesis using step [of "tk_slot (dk_tasks d ! i)" "dk_limiter d" ph e] by simp
qed


lemma finish_task:
  obtains t' rl where "finish i t (phase, d) = d\<lparr>dk_limiter := rl, dk_tasks := (dk_tasks d)[i := t']\<rparr>"
    and "tk_phase t' = phase" and "tk_session t' = tk_session t" and "tk_what t' = tk_what t"
  by (rule that [where t' = "t\<lparr>tk_phase := phase, tk_slot := (if answered phase then None else tk_slot t)\<rparr>"])
    (simp_all only: finish_def prod.case, simp_all)

end
