(* ===== verification/Second_Factor_Facts.thy ===== *)
theory Second_Factor_Facts
  imports Second_Factor
begin

text \<open>
  What the second factor promises.  \<open>Ledger\<close> is the contract: one factor for each account, changed in single steps by the
  proofs spent on it.  The interleaved requests refine it, because every write compares versions; the bounds are
  proved on the ledger and carried over.
\<close>

subsection \<open>The contract\<close>

record Ledger =
  lg_factors :: "string \<rightharpoonup> SecondFactor"
  lg_now :: int
  lg_log :: "Entry list"

definition set_row :: "string \<Rightarrow> SecondFactor option \<Rightarrow> Entry list \<Rightarrow> Ledger \<Rightarrow> Ledger" where
  "set_row a f es l = l\<lparr>lg_factors := (lg_factors l)(a := f), lg_log := es @ lg_log l\<rparr>"

inductive ledger_step :: "Crypto \<Rightarrow> Ledger \<Rightarrow> Ledger \<Rightarrow> bool" for cr where
  passes: "lg_now l \<le> t \<Longrightarrow> ledger_step cr l (l\<lparr>lg_now := t\<rparr>)"
| looked: "lg_factors l a = Some f \<Longrightarrow> recent f (lg_now l) < MAX_MISSES \<Longrightarrow>
    ledger_step cr l (set_row a (Some (withMiss f (lg_now l))) [Looked a (lg_now l)] l)"
| by_code: "lg_factors l a = Some f \<Longrightarrow> sf_secret f = Some secret \<Longrightarrow> sf_lastStep f < step \<Longrightarrow>
    \<bar>step - stepAt (lg_now l)\<bar> \<le> 1 \<Longrightarrow> codeFor (cr_hmac cr) secret step = Inr code \<Longrightarrow>
    ledger_step cr l (set_row a (Some ((withoutMisses f)\<lparr>sf_lastStep := step\<rparr>)) [Spent a session (Step step)] l)"
| by_recovery: "lg_factors l a = Some f \<Longrightarrow> h \<in> set (sf_recoveryHashes f) \<Longrightarrow>
    ledger_step cr l (set_row a (Some ((withoutMisses f)\<lparr>sf_recoveryHashes := filter (\<lambda>x. x \<noteq> h) (sf_recoveryHashes f)\<rparr>))
      [Spent a session (Recovery h)] l)"
| by_passkey: "lg_factors l a = Some f \<Longrightarrow> p \<in> set (passkeys_of f) \<Longrightarrow> cr_verify cr response challenge p = Some n \<Longrightarrow>
    ledger_step cr l (set_row a (Some ((withoutMisses f)
        \<lparr>sf_passkeys := Some (map (\<lambda>q. if pk_id q = pk_id p then q\<lparr>pk_counter := n\<rparr> else q) (passkeys_of f))\<rparr>))
      [Spent a session (Ticket ticket)] l)"
| first: "lg_factors l a = None \<Longrightarrow> sf_misses f = None \<Longrightarrow> sf_lastMissAt f = None \<Longrightarrow>
    (case step of Some n \<Rightarrow> sf_lastStep f = n | None \<Rightarrow> sf_secret f = None) \<Longrightarrow>
    ledger_step cr l (set_row a (Some f) [Placed a session step False, Created a] l)"
| another_app: "lg_factors l a = Some f \<Longrightarrow>
    ledger_step cr l (set_row a (Some (f\<lparr>sf_secret := Some secret, sf_lastStep := step, sf_at := t\<rparr>))
      [Placed a session (Some step) True] l)"
| another_key: "lg_factors l a = Some f \<Longrightarrow>
    ledger_step cr l (set_row a (Some (f\<lparr>sf_passkeys := ps, sf_at := t\<rparr>)) [Placed a session None True] l)"
| app_gone: "lg_factors l a = Some f \<Longrightarrow>
    ledger_step cr l (set_row a (Some (f\<lparr>sf_secret := None, sf_lastStep := -1\<rparr>)) [Cut a session] l)"
| key_gone: "lg_factors l a = Some f \<Longrightarrow>
    ledger_step cr l (set_row a (Some (f\<lparr>sf_passkeys := ps\<rparr>)) [Cut a session] l)"
| all_gone: "ledger_step cr l (set_row a None [Cut a session] l)"
| was_reset: "ledger_step cr l (set_row a None [WasReset a] l)"
| lost: "ledger_step cr l (set_row a None [] l)"

definition empty_ledger :: Ledger where
  "empty_ledger = \<lparr>lg_factors = Map.empty, lg_now = 0, lg_log = []\<rparr>"

definition ledger_reachable :: "Crypto \<Rightarrow> Ledger \<Rightarrow> bool" where
  "ledger_reachable cr l \<longleftrightarrow> (ledger_step cr)\<^sup>*\<^sup>* empty_ledger l"

text \<open>The ledger a desk stands for: what opens of the stored rows.\<close>

definition shown :: "FactorStore \<Rightarrow> string \<Rightarrow> SecondFactor option" where
  "shown st a = (case fs_rows st a of Some row \<Rightarrow> row_payload row | None \<Rightarrow> None)"

definition ledger_of :: "Desk \<Rightarrow> Ledger" where
  "ledger_of d = \<lparr>lg_factors = shown (dk_store d), lg_now = dk_now d, lg_log = dk_log d\<rparr>"

subsection \<open>Writes that compare versions\<close>

definition store_ok :: "FactorStore \<Rightarrow> bool" where
  "store_ok st \<longleftrightarrow> (\<forall>a row. fs_rows st a = Some row \<longrightarrow> row_sealing row < fs_sealings st
     \<and> (\<forall>f. row_payload row = Some f \<longrightarrow> sf_version f = None))"

text \<open>A later store holds a row that was there before, or one sealed since.\<close>

definition later :: "FactorStore \<Rightarrow> FactorStore \<Rightarrow> bool" where
  "later st st' \<longleftrightarrow> fs_sealings st \<le> fs_sealings st' \<and> store_ok st'
     \<and> (\<forall>a row. fs_rows st' a = Some row \<longrightarrow> fs_rows st a = Some row \<or> fs_sealings st \<le> row_sealing row)"

text \<open>A factor read from the store: while its version is the one stored, it is what is stored.\<close>

definition in_hand :: "Crypto \<Rightarrow> string \<Rightarrow> SecondFactor \<Rightarrow> SecondFactor \<Rightarrow> FactorStore \<Rightarrow> bool" where
  "in_hand cr a f g st \<longleftrightarrow> (\<exists>n < fs_sealings st. sf_version f = Some (cr_version cr n)
     \<and> (\<forall>row. fs_rows st a = Some row \<and> row_sealing row = n \<longrightarrow> row_payload row = Some g))"

lemma in_hand_later: "in_hand cr a f g st \<Longrightarrow> later st st' \<Longrightarrow> in_hand cr a f g st'"
  unfolding in_hand_def later_def by (elim exE conjE) (rule exI, rule conjI, erule (1) less_le_trans, auto dest: leD)

lemma later_refl: "store_ok st \<Longrightarrow> later st st"
  by (simp add: later_def)

lemma shown_put_row [simp]: "shown (put_row a f st) = (shown st)(a \<mapsto> f\<lparr>sf_version := None\<rparr>)"
  by (auto simp: shown_def put_row_def fun_eq_iff)

lemma shown_remove_row [simp]: "shown (remove_row a st) = (shown st)(a := None)"
  by (auto simp: shown_def remove_row_def fun_eq_iff)

lemma shown_sealed_only [simp]: "shown (sealed_only st) = shown st"
  by (auto simp: shown_def sealed_only_def fun_eq_iff)

lemma later_put_row: "store_ok st \<Longrightarrow> later st (put_row a f st)"
  by (auto simp: later_def store_ok_def put_row_def less_Suc_eq split: if_splits)

lemma later_remove_row: "store_ok st \<Longrightarrow> later st (remove_row a st)"
  by (auto simp: later_def store_ok_def remove_row_def split: if_splits)

lemma later_sealed_only: "store_ok st \<Longrightarrow> later st (sealed_only st)"
  by (auto simp: later_def store_ok_def sealed_only_def less_Suc_eq)

lemma later_spoil: "store_ok st \<Longrightarrow> later st (spoil a st)"
  by (auto simp: later_def store_ok_def spoil_def less_Suc_eq split: if_splits)

lemmas later_intros = later_refl later_put_row later_remove_row later_sealed_only later_spoil

lemma shown_idem: "fs_rows st a = Some row \<Longrightarrow> row_payload row = None \<Longrightarrow> (shown st)(a := None) = shown st"
  by (auto simp: shown_def)

lemma get_factor_later: "store_ok st \<Longrightarrow> get_factor fp a st = (x, st') \<Longrightarrow> later st st' \<and> shown st' = shown st"
  by (auto simp: get_factor_def later_intros shown_idem split: option.splits)

lemma get_factor_in_hand:
  assumes "store_ok st" and "get_factor (cr_version cr) a st = (Some f, st')"
  shows "in_hand cr a f (f\<lparr>sf_version := None\<rparr>) st'"
proof -
  from assms(2) obtain row g where r: "fs_rows st a = Some row" "row_payload row = Some g"
      "f = g\<lparr>sf_version := Some (cr_version cr (row_sealing row))\<rparr>" "st' = st"
    by (auto simp: get_factor_def split: option.splits)
  moreover from assms(1) r(1,2) have "row_sealing row < fs_sealings st" "sf_version g = None" by (auto simp: store_ok_def)
  ultimately show ?thesis by (auto simp: in_hand_def intro!: exI [of _ "row_sealing row"])
qed

lemma set_factor_later: "store_ok st \<Longrightarrow> set_factor fp a f st = (b, st') \<Longrightarrow> later st st' \<and> (b \<or> shown st' = shown st)"
  by (auto simp: set_factor_def later_intros split: option.splits if_splits)

lemma set_factor_swaps:
  assumes "inj (cr_version cr)" and "in_hand cr a f g st" and "sf_version f' = sf_version f"
    and "set_factor (cr_version cr) a f' st = (True, st')"
  shows "shown st a = Some g \<and> shown st' = (shown st)(a \<mapsto> f'\<lparr>sf_version := None\<rparr>)"
proof -
  from assms(2) obtain n where n: "sf_version f' = Some (cr_version cr n)"
      "\<forall>row. fs_rows st a = Some row \<and> row_sealing row = n \<longrightarrow> row_payload row = Some g"
    using assms(3) by (auto simp: in_hand_def)
  from assms(4) n(1) obtain row where "fs_rows st a = Some row" "cr_version cr (row_sealing row) = cr_version cr n"
      "st' = put_row a f' st" by (auto simp: set_factor_def split: option.splits if_splits)
  with n(2) assms(1) show ?thesis by (auto simp: inj_eq shown_def [of st])
qed

lemma create_factor_later: "store_ok st \<Longrightarrow> create_factor a f st = (b, st') \<Longrightarrow> later st st' \<and> (b \<or> shown st' = shown st)"
  by (auto simp: create_factor_def later_intros split: if_splits)

lemma create_factor_first:
  "create_factor a f st = (True, st') \<Longrightarrow> shown st a = None \<and> shown st' = (shown st)(a \<mapsto> f\<lparr>sf_version := None\<rparr>)"
  by (auto simp: create_factor_def shown_def [of st] split: if_splits)

lemma clear_factor_later: "store_ok st \<Longrightarrow> clear_factor fp a v st = (b, st') \<Longrightarrow>
    later st st' \<and> shown st' = (if b then (shown st)(a := None) else shown st)"
  by (auto simp: clear_factor_def later_intros split: option.splits if_splits)


subsection \<open>Each step of a request is a step of the ledger\<close>

fun hand_ok :: "Crypto \<Rightarrow> string \<Rightarrow> Phase \<Rightarrow> FactorStore \<Rightarrow> bool" where
  "hand_ok cr a (Held f) st = in_hand cr a f (f\<lparr>sf_version := None\<rparr>) st"
| "hand_ok cr a (Fresh f) st = (\<exists>g. in_hand cr a f g st \<and> f\<lparr>sf_version := None\<rparr> = withoutMisses g)"
| "hand_ok cr a (Verifying f ch answer) st = (\<exists>g. in_hand cr a f g st \<and> f\<lparr>sf_version := None\<rparr> = withoutMisses g)"
| "hand_ok cr a (Applying c n (Some f)) st = in_hand cr a f (f\<lparr>sf_version := None\<rparr>) st"
| "hand_ok cr a ph st = True"

lemma hand_ok_later: "hand_ok cr a ph st \<Longrightarrow> later st st' \<Longrightarrow> hand_ok cr a ph st'"
  by (cases "(cr, a, ph, st)" rule: hand_ok.cases) (auto intro: in_hand_later)

definition simulates :: "Crypto \<Rightarrow> string \<Rightarrow> Phase \<Rightarrow> Desk \<Rightarrow> Desk \<Rightarrow> bool" where
  "simulates cr a ph d d' \<longleftrightarrow> later (dk_store d) (dk_store d') \<and> dk_tasks d' = dk_tasks d \<and> dk_now d' = dk_now d
     \<and> hand_ok cr a ph (dk_store d') \<and> (ledger_of d' = ledger_of d \<or> ledger_step cr (ledger_of d) (ledger_of d'))"

lemma with_store_eq: "with_store f d = (x, d') \<longleftrightarrow> (\<exists>st. f (dk_store d) = (x, st) \<and> d' = d\<lparr>dk_store := st\<rparr>)"
  by (auto simp: with_store_def split: prod.splits)

lemma ledger_of_simps [simp]:
  "lg_factors (ledger_of d) = shown (dk_store d)" "lg_now (ledger_of d) = dk_now d" "lg_log (ledger_of d) = dk_log d"
  by (simp_all add: ledger_of_def)

text \<open>A step that leaves the shown factors and the log as they are.\<close>

lemma simulates_quiet:
  "later (dk_store d) (dk_store d') \<Longrightarrow> shown (dk_store d') = shown (dk_store d) \<Longrightarrow> dk_log d' = dk_log d \<Longrightarrow>
     dk_tasks d' = dk_tasks d \<Longrightarrow> dk_now d' = dk_now d \<Longrightarrow> hand_ok cr a ph (dk_store d') \<Longrightarrow> simulates cr a ph d d'"
  by (simp add: simulates_def ledger_of_def)

lemma simulates_write:
  "later (dk_store d) (dk_store d') \<Longrightarrow> shown (dk_store d') = (shown (dk_store d))(b := f) \<Longrightarrow> dk_log d' = es @ dk_log d \<Longrightarrow>
     ledger_step cr (ledger_of d) (set_row b f es (ledger_of d)) \<Longrightarrow>
     dk_tasks d' = dk_tasks d \<Longrightarrow> dk_now d' = dk_now d \<Longrightarrow> hand_ok cr a ph (dk_store d') \<Longrightarrow> simulates cr a ph d d'"
  by (simp add: simulates_def ledger_of_def set_row_def)

lemma recent_version [simp]: "recent (f\<lparr>sf_version := v\<rparr>) t = recent f t"
  by (simp add: recent_def split: option.split)

lemma withMiss_version: "(withMiss f t)\<lparr>sf_version := v\<rparr> = withMiss (f\<lparr>sf_version := v\<rparr>) t"
  by (cases f) (simp add: withMiss_def recent_def split: option.split)

lemma unlocked: "\<not> 0 < lockLeftMs f t \<Longrightarrow> recent f t < MAX_MISSES"
  by (auto simp: lockLeftMs_def recent_def MAX_MISSES_def split: option.splits if_splits)

lemma attempt_sim:
  assumes "inj (cr_version cr)" and "store_ok (dk_store d)" and "hand_ok cr a (Held f) (dk_store d)"
    and "attempt cr a f d = (ph, d')"
  shows "simulates cr a ph d d'"
proof (cases "0 < lockLeftMs f (dk_now d)")
  case False
  obtain b st where w: "set_factor (cr_version cr) a (withMiss f (dk_now d)) (dk_store d) = (b, st)" by fastforce
  note l = set_factor_later [OF assms(2) w]
  show ?thesis
  proof (cases b)
    case True
    have "in_hand cr a f (f\<lparr>sf_version := None\<rparr>) (dk_store d)" using assms(3) by simp
    from set_factor_swaps [OF assms(1) this, of "withMiss f (dk_now d)" st] w True
    have sw: "shown (dk_store d) a = Some (f\<lparr>sf_version := None\<rparr>)"
        "shown st = (shown (dk_store d))(a \<mapsto> withMiss (f\<lparr>sf_version := None\<rparr>) (dk_now d))"
      by (simp_all add: withMiss_version) (simp_all add: withMiss_def)
    have "ledger_step cr (ledger_of d)
        (set_row a (Some (withMiss (f\<lparr>sf_version := None\<rparr>) (dk_now d))) [Looked a (dk_now d)] (ledger_of d))"
      using ledger_step.looked [of "ledger_of d" a "f\<lparr>sf_version := None\<rparr>"] sw(1) unlocked [OF False] by simp
    then show ?thesis using assms(4) False w True l sw(2)
      by (intro simulates_write) (auto simp: attempt_def with_store_def Let_def note_entry_def)
  qed (use assms(4) False w l in \<open>auto simp: attempt_def with_store_def Let_def intro!: simulates_quiet\<close>)
qed (use assms in \<open>auto simp: attempt_def Let_def intro!: simulates_quiet later_refl\<close>)

lemma read_again_sim:
  assumes "store_ok (dk_store d)" and "read_again cr a d = (ph, d')"
  shows "simulates cr a ph d d'"
proof -
  obtain x st where g: "get_factor (cr_version cr) a (dk_store d) = (x, st)" by fastforce
  note l = get_factor_later [OF assms(1) g]
  show ?thesis
  proof (cases x)
    case (Some f)
    have "in_hand cr a (withoutMisses f) (f\<lparr>sf_version := None\<rparr>) st"
      using get_factor_in_hand [OF assms(1)] g Some by (simp add: in_hand_def withoutMisses_def)
    then show ?thesis using assms(2) g Some l
      by (auto simp: read_again_def with_store_def withoutMisses_def intro!: simulates_quiet exI [of _ "f\<lparr>sf_version := None\<rparr>"])
  qed (use assms(2) g l in \<open>auto simp: read_again_def with_store_def intro!: simulates_quiet\<close>)
qed

text \<open>A proof is spent on the factor it was looked at with, or not at all.\<close>

lemma spend_sim:
  assumes "inj (cr_version cr)" and "store_ok (dk_store d)" and "in_hand cr a f g (dk_store d)"
    and "sf_version f' = sf_version f" and "spend cr a session m f' d = (ph, d')"
    and "lg_factors (ledger_of d) a = Some g \<Longrightarrow>
      ledger_step cr (ledger_of d) (set_row a (Some (f'\<lparr>sf_version := None\<rparr>)) [Spent a session m] (ledger_of d))"
  shows "simulates cr a ph d d'"
proof -
  obtain b st where w: "set_factor (cr_version cr) a f' (dk_store d) = (b, st)" by fastforce
  note l = set_factor_later [OF assms(2) w]
  show ?thesis
  proof (cases b)
    case True
    with set_factor_swaps [OF assms(1,3,4)] w
    have sw: "shown (dk_store d) a = Some g" "shown st = (shown (dk_store d))(a \<mapsto> f'\<lparr>sf_version := None\<rparr>)" by auto
    then show ?thesis using assms(5,6) w True l
      by (intro simulates_write) (auto simp: spend_def with_store_def note_entry_def)
  qed (use assms(5) w l in \<open>auto simp: spend_def with_store_def intro!: simulates_quiet\<close>)
qed

lemma cleared_fields:
  assumes "f\<lparr>sf_version := None\<rparr> = withoutMisses g"
  shows "sf_secret f = sf_secret g" and "sf_lastStep f = sf_lastStep g" and "sf_recoveryHashes f = sf_recoveryHashes g"
    and "passkeys_of f = passkeys_of g" and "sf_passkeys f = sf_passkeys g"
  using assms [THEN arg_cong [where f = sf_secret]] assms [THEN arg_cong [where f = sf_lastStep]]
    assms [THEN arg_cong [where f = sf_recoveryHashes]] assms [THEN arg_cong [where f = sf_passkeys]]
  by (simp_all add: withoutMisses_def passkeys_of_def)

lemma check_code_sim:
  assumes "inj (cr_version cr)" and "store_ok (dk_store d)" and "hand_ok cr a (Fresh f) (dk_store d)"
    and c: "check_code cr a session login code f d = (ph, d')"
  shows "simulates cr a ph d d'"
proof -
  from assms(3) obtain g where h: "in_hand cr a f g (dk_store d)" and g: "f\<lparr>sf_version := None\<rparr> = withoutMisses g" by auto
  note fields = cleared_fields [OF g]
  show ?thesis
  proof (cases "code_step cr f code (dk_now d)")
    case (Inr r)
    show ?thesis
    proof (cases r)
      case None
      let ?h = "hashRecoveryCode (cr_sha256 cr) code"
      let ?f = "f\<lparr>sf_recoveryHashes := filter (\<lambda>x. x \<noteq> ?h) (sf_recoveryHashes f)\<rparr>"
      show ?thesis
      proof (cases "login \<and> ?h \<in> set (sf_recoveryHashes f)")
        case True
        have e: "?f\<lparr>sf_version := None\<rparr> = (withoutMisses g)\<lparr>sf_recoveryHashes := filter (\<lambda>x. x \<noteq> ?h) (sf_recoveryHashes g)\<rparr>"
          by (simp add: fields flip: g)
        show ?thesis
        proof (rule spend_sim [OF assms(1,2) h])
          show "spend cr a session (Recovery ?h) ?f d = (ph, d')"
            using c True Inr None by (simp add: check_code_def Let_def)
          show "ledger_step cr (ledger_of d) (set_row a (Some (?f\<lparr>sf_version := None\<rparr>)) [Spent a session (Recovery ?h)] (ledger_of d))"
            if "lg_factors (ledger_of d) a = Some g"
            unfolding e using that by (rule ledger_step.by_recovery) (use True fields in simp)
        qed simp
      next
        case False
        with c Inr None have "d' = d" "\<exists>x. ph = Answered x" by (auto simp: check_code_def Let_def split: if_splits)
        then show ?thesis using assms(2) by (auto intro: simulates_quiet later_refl)
      qed
    next
      case (Some step)
      let ?f = "f\<lparr>sf_lastStep := step\<rparr>"
      from Inr Some obtain secret where s: "sf_secret f = Some secret"
          "verifyCode (cr_hmac cr) secret code (dk_now d) (sf_lastStep f) = Inr (Some step)"
        by (auto simp: code_step_def split: option.splits if_splits)
      note v = verifyCode_sound [OF s(2)]
      have e: "?f\<lparr>sf_version := None\<rparr> = (withoutMisses g)\<lparr>sf_lastStep := step\<rparr>" by (simp flip: g)
      show ?thesis
      proof (rule spend_sim [OF assms(1,2) h])
        show "spend cr a session (Step step) ?f d = (ph, d')" using c Inr Some by (simp add: check_code_def)
        show "ledger_step cr (ledger_of d) (set_row a (Some (?f\<lparr>sf_version := None\<rparr>)) [Spent a session (Step step)] (ledger_of d))"
          if "lg_factors (ledger_of d) a = Some g"
          unfolding e using that by (rule ledger_step.by_code) (use s v fields in auto)
      qed simp
    qed
  next
    case (Inl err)
    with c have "d' = d" "ph = Answered (Failed err)" by (auto simp: check_code_def)
    then show ?thesis using assms(2) by (auto intro: simulates_quiet later_refl)
  qed
qed

lemma ask_passkey_sim:
  assumes "store_ok (dk_store d)" and "hand_ok cr a (Fresh f) (dk_store d)" and "ask_passkey cr bound answer f d = (ph, d')"
  shows "simulates cr a ph d d'"
  using assms by (auto simp: ask_passkey_def takeChallenge_def Let_def split: option.splits if_splits
    intro!: simulates_quiet later_refl)

lemma spendPasskey_sim:
  assumes "inj (cr_version cr)" and "store_ok (dk_store d)" and "hand_ok cr a (Verifying f challenge answer) (dk_store d)"
    and c: "spendPasskey cr a session answer challenge f d = (ph, d')"
  shows "simulates cr a ph d d'"
proof -
  from assms(3) obtain g where h: "in_hand cr a f g (dk_store d)" and g: "f\<lparr>sf_version := None\<rparr> = withoutMisses g" by auto
  note fields = cleared_fields [OF g]
  show ?thesis
  proof (cases "verifyPasskey cr answer challenge (passkeys_of f)")
    case None
    with c have "d' = d" "ph = Answered Refused" by (auto simp: spendPasskey_def)
    then show ?thesis using assms(2) by (auto intro: simulates_quiet later_refl)
  next
    case (Some r)
    then obtain p n where f: "List.find (\<lambda>p. pk_id p = an_id answer) (passkeys_of f) = Some p"
        and p: "cr_verify cr (an_response answer) challenge p = Some n" "r = (pk_id p, n)"
      by (auto simp: verifyPasskey_def split: option.splits)
    from f have p: "p \<in> set (passkeys_of f)" "cr_verify cr (an_response answer) challenge p = Some n" "r = (pk_id p, n)"
      using p by (auto simp: find_Some_iff)
    let ?f = "f\<lparr>sf_passkeys := Some (map (\<lambda>q. if pk_id q = pk_id p then q\<lparr>pk_counter := n\<rparr> else q) (passkeys_of f))\<rparr>"
    have e: "?f\<lparr>sf_version := None\<rparr> = (withoutMisses g)
        \<lparr>sf_passkeys := Some (map (\<lambda>q. if pk_id q = pk_id p then q\<lparr>pk_counter := n\<rparr> else q) (passkeys_of g))\<rparr>"
      by (simp add: fields flip: g)
    show ?thesis
    proof (rule spend_sim [OF assms(1,2) h])
      show "spend cr a session (Ticket (an_ticket answer)) ?f d = (ph, d')" using c Some p(3) by (simp add: spendPasskey_def)
      show "ledger_step cr (ledger_of d)
          (set_row a (Some (?f\<lparr>sf_version := None\<rparr>)) [Spent a session (Ticket (an_ticket answer))] (ledger_of d))"
        if "lg_factors (ledger_of d) a = Some g"
        unfolding e using that by (rule ledger_step.by_passkey) (use p fields in auto)
    qed simp
  qed
qed


fun entry_of :: "Change \<Rightarrow> string \<Rightarrow> string \<Rightarrow> Entry" where
  "entry_of (PutApp secret step codes) a session = Placed a session (Some step) True"
| "entry_of (PutKey passkey codes) a session = Placed a session None True"
| "entry_of _ a session = Cut a session"

lemma note_change_over: "note_change c a session True d = note_entry (entry_of c a session) d"
  by (cases c) simp_all

lemma desk_fields [simp]:
  "dk_store (note_entry e d) = dk_store d" "dk_tasks (note_entry e d) = dk_tasks d" "dk_now (note_entry e d) = dk_now d"
  "dk_log (note_entry e d) = e # dk_log d"
  "dk_store (after_change c session d) = dk_store d" "dk_tasks (after_change c session d) = dk_tasks d"
  "dk_now (after_change c session d) = dk_now d" "dk_log (after_change c session d) = dk_log d"
  "dk_store (note_change c a session b d) = dk_store d" "dk_tasks (note_change c a session b d) = dk_tasks d"
  "dk_now (note_change c a session b d) = dk_now d"
  by (cases c; simp add: note_entry_def forget_totp_def)+

lemma version_out:
  "f\<lparr>sf_version := v, sf_secret := s\<rparr> = f\<lparr>sf_secret := s, sf_version := v\<rparr>"
  "f\<lparr>sf_version := v, sf_lastStep := n\<rparr> = f\<lparr>sf_lastStep := n, sf_version := v\<rparr>"
  "f\<lparr>sf_version := v, sf_passkeys := ps\<rparr> = f\<lparr>sf_passkeys := ps, sf_version := v\<rparr>"
  "f\<lparr>sf_version := v, sf_at := t\<rparr> = f\<lparr>sf_at := t, sf_version := v\<rparr>"
  by (cases f; simp)+

lemma change_over:
  assumes "apply_change cr c t (Some f) = Inr (Some next)"
  shows "sf_version next = sf_version f"
    and "lg_factors l a = Some (f\<lparr>sf_version := None\<rparr>) \<Longrightarrow>
      ledger_step cr l (set_row a (Some (next\<lparr>sf_version := None\<rparr>)) [entry_of c a session] l)"
proof -
  show "sf_version next = sf_version f"
    using assms by (cases c) (auto simp: remaining_def Let_def split: if_splits)
  show "ledger_step cr l (set_row a (Some (next\<lparr>sf_version := None\<rparr>)) [entry_of c a session] l)"
    if l: "lg_factors l a = Some (f\<lparr>sf_version := None\<rparr>)"
  proof (cases c)
    case (PutApp secret step codes)
    then show ?thesis using assms ledger_step.another_app [OF l, where secret = secret and step = step and t = t and session = session] by (auto simp: version_out split: if_splits)
  next
    case (PutKey p codes)
    then show ?thesis using assms ledger_step.another_key [OF l, where ps = "Some (passkeys_of f @ [p])" and t = t and session = session]
      by (auto simp: version_out Let_def split: if_splits)
  next
    case DropAll
    then show ?thesis using assms by simp
  next
    case DropApp
    then show ?thesis using assms ledger_step.app_gone [OF l, where session = session]
      by (auto simp: version_out remaining_def split: if_splits)
  next
    case (DropKey k)
    then show ?thesis using assms ledger_step.key_gone [OF l, where ps = "Some (filter (\<lambda>p. pk_id p \<noteq> k) (passkeys_of f))" and session = session]
      by (auto simp: version_out remaining_def split: if_splits)
  qed
qed

lemma change_first:
  assumes "apply_change cr c t None = Inr (Some next)" and "lg_factors l a = None"
  shows "\<exists>es. note_change c a session False d = d\<lparr>dk_log := es @ dk_log d\<rparr>
    \<and> ledger_step cr l (set_row a (Some (next\<lparr>sf_version := None\<rparr>)) es l)"
proof -
  from assms(1) obtain step where n: "note_change c a session False d = d\<lparr>dk_log := [Placed a session step False, Created a] @ dk_log d\<rparr>"
      "sf_misses next = None" "sf_lastMissAt next = None" "case step of Some n \<Rightarrow> sf_lastStep next = n | None \<Rightarrow> sf_secret next = None"
    by (cases c) (auto simp: note_entry_def first_factor_def Let_def split: if_splits)
  have "ledger_step cr l (set_row a (Some (next\<lparr>sf_version := None\<rparr>)) [Placed a session step False, Created a] l)"
    by (rule ledger_step.first) (use assms(2) n in \<open>auto split: option.splits\<close>)
  with n(1) show ?thesis by blast
qed

lemma apply_to_sim:
  assumes "inj (cr_version cr)" and "store_ok (dk_store d)" and "hand_ok cr (account cr session) (Applying c n current) (dk_store d)"
    and s: "apply_to cr session c n current d = (ph, d')"
  shows "simulates cr (account cr session) ph d d'"
proof -
  let ?a = "account cr session"
  show ?thesis
  proof (cases "apply_change cr c (dk_now d) current")
    case (Inl u)
    with s show ?thesis using assms(2) by (auto simp: apply_to_def intro!: simulates_quiet later_refl)
  next
    case (Inr r)
    show ?thesis
    proof (cases r)
      case None
      obtain b st where w: "clear_factor (cr_version cr) ?a (Option.bind current sf_version) (dk_store d) = (b, st)" by fastforce
      note l = clear_factor_later [OF assms(2) w]
      from Inr None have cut: "note_change c ?a session x e = note_entry (Cut ?a session) e" for x e
        by (cases c) (auto simp: Let_def split: if_splits)
      show ?thesis
      proof (cases b)
        case True
        then show ?thesis using s Inr None w l ledger_step.all_gone [of cr "ledger_of d" ?a session]
          by (intro simulates_write) (auto simp: apply_to_def with_store_def cut)
      qed (use s Inr None w l in \<open>auto simp: apply_to_def with_store_def intro!: simulates_quiet\<close>)
    next
      case (Some "next")
      show ?thesis
      proof (cases current)
        case None
        obtain b st where w: "create_factor ?a next (dk_store d) = (b, st)" by fastforce
        note l = create_factor_later [OF assms(2) w]
        show ?thesis
        proof (cases b)
          case True
          with w create_factor_first have f: "shown (dk_store d) ?a = None"
              "shown st = (shown (dk_store d))(?a \<mapsto> next\<lparr>sf_version := None\<rparr>)" by auto
          from Inr Some None have "apply_change cr c (dk_now d) None = Inr (Some next)" by simp
          from change_first [OF this, of "ledger_of d" ?a session "d\<lparr>dk_store := st\<rparr>"] f(1) obtain es where
            es: "note_change c ?a session False (d\<lparr>dk_store := st\<rparr>) = d\<lparr>dk_store := st, dk_log := es @ dk_log d\<rparr>"
              "ledger_step cr (ledger_of d) (set_row ?a (Some (next\<lparr>sf_version := None\<rparr>)) es (ledger_of d))" by auto
          then show ?thesis using s Inr Some None w True l f(2)
            by (intro simulates_write [where es = es]) (auto simp: apply_to_def with_store_def)
        qed (use s Inr Some None w l in \<open>auto simp: apply_to_def with_store_def intro!: simulates_quiet\<close>)
      next
        case f: (Some f)
        from Inr Some f have c: "apply_change cr c (dk_now d) (Some f) = Inr (Some next)" by simp
        obtain b st where w: "set_factor (cr_version cr) ?a next (dk_store d) = (b, st)" by fastforce
        note l = set_factor_later [OF assms(2) w]
        show ?thesis
        proof (cases b)
          case True
          from assms(3) f have "in_hand cr ?a f (f\<lparr>sf_version := None\<rparr>) (dk_store d)" by simp
          from set_factor_swaps [OF assms(1) this change_over(1) [OF c]] w True
          have sw: "shown (dk_store d) ?a = Some (f\<lparr>sf_version := None\<rparr>)"
              "shown st = (shown (dk_store d))(?a \<mapsto> next\<lparr>sf_version := None\<rparr>)" by auto
          then show ?thesis using s Inr Some f w True l change_over(2) [OF c, of "ledger_of d" ?a session]
            by (intro simulates_write [where es = "[entry_of c ?a session]"]) (auto simp: apply_to_def with_store_def note_change_over)
        qed (use s Inr Some f w l in \<open>auto simp: apply_to_def with_store_def intro!: simulates_quiet\<close>)
      qed
    qed
  qed
qed

lemma read_quiet:
  assumes "store_ok (dk_store d)" and "read_factor cr a d = (x, d')"
  shows "later (dk_store d) (dk_store d') \<and> shown (dk_store d') = shown (dk_store d) \<and> dk_log d' = dk_log d \<and> dk_tasks d' = dk_tasks d
    \<and> dk_now d' = dk_now d \<and> dk_challenges d' = dk_challenges d \<and> dk_pendingTotp d' = dk_pendingTotp d
    \<and> dk_pendingPasskey d' = dk_pendingPasskey d \<and> dk_taken d' = dk_taken d
    \<and> (\<forall>f. x = Some f \<longrightarrow> in_hand cr a f (f\<lparr>sf_version := None\<rparr>) (dk_store d'))"
proof -
  from assms(2) obtain st where g: "get_factor (cr_version cr) a (dk_store d) = (x, st)" "d' = d\<lparr>dk_store := st\<rparr>"
    by (auto simp: with_store_eq)
  with get_factor_later [OF assms(1) g(1)] get_factor_in_hand [OF assms(1)] show ?thesis by auto
qed

lemma change_again_sim:
  assumes "store_ok (dk_store d)" and "change_again cr session c n d = (ph, d')"
  shows "simulates cr (account cr session) ph d d'"
proof (cases n)
  case (Suc k)
  obtain x e where r: "read_factor cr (account cr session) d = (x, e)" by fastforce
  note q = read_quiet [OF assms(1) r]
  from assms(2) Suc r have "ph = Applying c k x" "d' = e" by (auto simp: change_again_def)
  then show ?thesis using q by (cases x) (auto intro: simulates_quiet)
qed (use assms in \<open>auto simp: change_again_def intro: simulates_quiet later_refl\<close>)


lemmas quiet_defs = confirm_totp_def confirm_passkey_def begin_totp_def begin_passkey_def forget_totp_def clear_challenges_def
  hold_if_def Let_def

lemma arrive_sim:
  assumes "store_ok (dk_store d)" and s: "arrive cr i t d = (ph, d')"
  shows "simulates cr (account cr (tk_session t)) ph d d'"
proof -
  let ?a = "account cr (tk_session t)"
  obtain x e where r: "read_factor cr ?a d = (x, e)" by fastforce
  note q = read_quiet [OF assms(1) r]
  note refl = later_refl [OF assms(1)]
  have "later (dk_store d) (dk_store d') \<and> shown (dk_store d') = shown (dk_store d) \<and> dk_log d' = dk_log d
      \<and> dk_tasks d' = dk_tasks d \<and> dk_now d' = dk_now d \<and> hand_ok cr ?a ph (dk_store d')"
  proof (cases "tk_what t")
    case (Login p c)
    then show ?thesis using s r q by (auto simp: arrive_def quiet_defs split: option.splits if_splits)
  next
    case (BeginApp p)
    then show ?thesis using s r q by (auto simp: arrive_def quiet_defs split: option.splits if_splits)
  next
    case (ConfirmApp c)
    then show ?thesis using s refl by (auto simp: arrive_def quiet_defs split: option.splits if_splits sum.splits)
  next
    case (BeginKey p)
    then show ?thesis using s r q refl by (auto simp: arrive_def quiet_defs split: option.splits if_splits)
  next
    case (ConfirmKey r)
    then show ?thesis using s refl by (auto simp: arrive_def quiet_defs split: option.splits if_splits)
  next
    case AskChallenge
    then show ?thesis using s r q refl by (auto simp: arrive_def quiet_defs split: option.splits if_splits)
  next
    case (RemoveAll p)
    then show ?thesis using s r q by (auto simp: arrive_def quiet_defs split: option.splits if_splits)
  next
    case (RemoveApp p)
    then show ?thesis using s r q by (auto simp: arrive_def quiet_defs split: option.splits if_splits)
  next
    case (RemoveKey k p)
    then show ?thesis using s r q by (auto simp: arrive_def quiet_defs split: option.splits if_splits)
  next
    case (ResetAccount u m)
    obtain y e' where r': "read_factor cr (cr_identity cr (tk_session t) u) d = (y, e')" by fastforce
    from ResetAccount show ?thesis using s r' read_quiet [OF assms(1) r'] refl
      by (auto simp: arrive_def quiet_defs split: option.splits if_splits)
  qed
  then show ?thesis by (intro simulates_quiet) auto
qed

lemma step_task_sim:
  assumes "inj (cr_version cr)" and "store_ok (dk_store d)" and h: "hand_ok cr (account cr (tk_session t)) (tk_phase t) (dk_store d)"
    and s: "step_task cr i t d = (ph, d')"
  shows "simulates cr (account cr (tk_session t)) ph d d'"
proof (cases "tk_phase t")
  case Arrived
  then show ?thesis using s arrive_sim [OF assms(2)] by (simp add: step_task_def)
next
  case (Held f)
  then show ?thesis using s attempt_sim [OF assms(1,2)] h by (simp add: step_task_def Let_def)
next
  case Counted
  then show ?thesis using s read_again_sim [OF assms(2)] by (simp add: step_task_def Let_def)
next
  case (Fresh f)
  with s have l: "look_at cr t f d = (ph, d')" by (simp add: step_task_def Let_def)
  show ?thesis
  proof (cases "proof_of (tk_what t)")
    case None
    with l show ?thesis using assms(2) by (auto simp: look_at_def intro: simulates_quiet later_refl)
  next
    case (Some p)
    show ?thesis
    proof (cases p)
      case (ByCode code)
      with Some l show ?thesis using check_code_sim [OF assms(1,2)] h Fresh by (simp add: look_at_def)
    next
      case (ByPasskey answer)
      with Some l show ?thesis using ask_passkey_sim [OF assms(2)] h Fresh by (simp add: look_at_def)
    qed
  qed
next
  case (Verifying f challenge answer)
  then show ?thesis using s spendPasskey_sim [OF assms(1,2)] h by (simp add: step_task_def Let_def)
next
  case Proven
  with s have "go_on cr i t d = (ph, d')" by (simp add: step_task_def Let_def)
  then show ?thesis using later_refl [OF assms(2)]
    by (cases "tk_what t") (auto simp: go_on_def begin_totp_def intro!: simulates_quiet)
next
  case (Offering codes)
  then show ?thesis using s later_refl [OF assms(2)]
    by (auto simp: step_task_def begin_passkey_def Let_def intro!: simulates_quiet)
next
  case (Registering challenge codes at)
  then show ?thesis using s later_refl [OF assms(2)]
    by (auto simp: step_task_def register_def Let_def split: What.splits option.splits intro!: simulates_quiet)
next
  case (Changing c n)
  then show ?thesis using s change_again_sim [OF assms(2)] by (simp add: step_task_def Let_def)
next
  case (Applying c n current)
  then show ?thesis using s apply_to_sim [OF assms(1,2)] h by (simp add: step_task_def Let_def)
next
  case (Issuing out)
  then show ?thesis using s later_refl [OF assms(2)]
    by (auto simp: step_task_def issue_def Let_def intro!: simulates_quiet)
next
  case Resetting
  with s have r: "reset_account cr t d = (ph, d')" by (simp add: step_task_def Let_def)
  show ?thesis
  proof (cases "\<exists>u m. tk_what t = ResetAccount u m")
    case True
    then obtain u m where w: "tk_what t = ResetAccount u m" by blast
    let ?b = "cr_identity cr (tk_session t) u"
    show ?thesis using r w later_remove_row [OF assms(2), of ?b] ledger_step.was_reset [of cr "ledger_of d" ?b]
      by (intro simulates_write [where b = ?b and es = "[WasReset ?b]" and f = None])
        (auto simp: reset_account_def with_store_def clear_factor_def Let_def)
  next
    case False
    with r have "ph = Answered Forbidden" "d' = d" by (auto simp: reset_account_def split: What.splits)
    then show ?thesis using assms(2) by (auto intro: simulates_quiet later_refl)
  qed
next
  case (Answered out)
  with s have "ph = Answered out" "d' = d" by (simp_all add: step_task_def Let_def)
  then show ?thesis using assms(2) by (auto intro: simulates_quiet later_refl)
qed

subsection \<open>Refinement\<close>

definition desk_ok :: "Crypto \<Rightarrow> Desk \<Rightarrow> bool" where
  "desk_ok cr d \<longleftrightarrow> store_ok (dk_store d)
     \<and> (\<forall>t \<in> set (dk_tasks d). hand_ok cr (account cr (tk_session t)) (tk_phase t) (dk_store d))"

lemma desk_ok_start: "desk_ok cr (empty_desk cap windowMs)"
  by (simp add: desk_ok_def empty_desk_def store_ok_def)

lemma hand_ok_list_update:
  assumes "\<forall>u \<in> set ts. hand_ok cr (account cr (tk_session u)) (tk_phase u) st" and "later st st'"
    and "hand_ok cr (account cr (tk_session t)) (tk_phase t) st'"
  shows "\<forall>u \<in> set (ts[i := t]). hand_ok cr (account cr (tk_session u)) (tk_phase u) st'"
proof
  fix u assume "u \<in> set (ts[i := t])"
  then have "u = t \<or> u \<in> set ts" using set_update_subset_insert by fastforce
  with assms hand_ok_later show "hand_ok cr (account cr (tk_session u)) (tk_phase u) st'" by blast
qed

lemma advance_sim:
  assumes "inj (cr_version cr)" and ok: "desk_ok cr d" and i: "i < length (dk_tasks d)"
  shows "desk_ok cr (advance cr i d) \<and> (ledger_of (advance cr i d) = ledger_of d \<or> ledger_step cr (ledger_of d) (ledger_of (advance cr i d)))"
  using i
proof (cases rule: advance_cases [of i d cr])
  case (turned_away rl)
  have l: "later (dk_store d) (dk_store d)" using ok by (simp add: desk_ok_def later_refl)
  obtain t' rl' where f: "advance cr i d = d\<lparr>dk_limiter := rl', dk_tasks := (dk_tasks d)[i := t']\<rparr>" "tk_phase t' = Answered RateLimited"
    unfolding turned_away(2) by (rule finish_task [of i "dk_tasks d ! i" _ "d\<lparr>dk_limiter := rl\<rparr>"]) simp
  show ?thesis using ok hand_ok_list_update [OF _ l, of "dk_tasks d" cr t']
    by (simp add: f desk_ok_def ledger_of_def)
next
  case (step rl slot ph e)
  let ?t = "(dk_tasks d ! i)\<lparr>tk_slot := slot\<rparr>"
  have "dk_tasks d ! i \<in> set (dk_tasks d)" using i by simp
  with ok have "simulates cr (account cr (tk_session ?t)) ph (d\<lparr>dk_limiter := rl\<rparr>) e"
    by (intro step_task_sim [OF assms(1) _ _ step(1)]) (auto simp: desk_ok_def)
  then have sim: "later (dk_store d) (dk_store e)" "dk_tasks e = dk_tasks d" "hand_ok cr (account cr (tk_session ?t)) ph (dk_store e)"
      "ledger_of e = ledger_of d \<or> ledger_step cr (ledger_of d) (ledger_of e)"
    by (auto simp: simulates_def ledger_of_def)
  from sim(1) have "store_ok (dk_store e)" by (simp add: later_def)
  moreover obtain t' rl' where f: "advance cr i d = e\<lparr>dk_limiter := rl', dk_tasks := (dk_tasks e)[i := t']\<rparr>"
      "tk_phase t' = ph" "tk_session t' = tk_session ?t"
    unfolding step(2) by (rule finish_task)
  ultimately have "desk_ok cr (advance cr i d)"
    using ok sim(2,3) hand_ok_list_update [OF _ sim(1), of "dk_tasks d" cr t'] by (simp add: desk_ok_def)
  moreover have "ledger_of (advance cr i d) = ledger_of e" by (simp add: f ledger_of_def)
  ultimately show ?thesis using sim(4) by simp
qed

lemma desk_step_sim:
  assumes "inj (cr_version cr)" and ok: "desk_ok cr d" and s: "desk_step cr ev d = Some d'"
  shows "desk_ok cr d' \<and> (ledger_of d' = ledger_of d \<or> ledger_step cr (ledger_of d) (ledger_of d'))"
proof (cases ev)
  case (Request session ip what)
  with s ok show ?thesis by (auto simp: desk_ok_def ledger_of_def)
next
  case (Advance i)
  with s have i: "i < length (dk_tasks d)" and d': "d' = advance cr i d" by (auto split: if_splits)
  with advance_sim [OF assms(1) ok i] show ?thesis by simp
next
  case (Wait t)
  with s have d': "dk_now d \<le> t" "d' = d\<lparr>dk_now := t\<rparr>" by (auto split: if_splits)
  then have "ledger_step cr (ledger_of d) (ledger_of d')" using ledger_step.passes [of "ledger_of d" t] by (simp add: ledger_of_def)
  with ok d' show ?thesis by (simp add: desk_ok_def)
next
  case (Spoil a)
  with s have d': "d' = d\<lparr>dk_store := spoil a (dk_store d)\<rparr>" by simp
  from ok have l: "later (dk_store d) (spoil a (dk_store d))" by (simp add: desk_ok_def later_spoil)
  have "shown (spoil a (dk_store d)) = (shown (dk_store d))(a := None)" by (auto simp: shown_def spoil_def fun_eq_iff)
  then have "ledger_of d' = set_row a None [] (ledger_of d)" by (simp add: ledger_of_def set_row_def d')
  moreover have "desk_ok cr d'" using ok l hand_ok_later unfolding desk_ok_def d' by (auto simp: later_def)
  ultimately show ?thesis using ledger_step.lost by simp
qed

lemma desk_reachable_ok: "desk_reachable cr d \<Longrightarrow> inj (cr_version cr) \<Longrightarrow> desk_ok cr d \<and> ledger_reachable cr (ledger_of d)"
proof (induction rule: desk_reachable.induct)
  case (start cap windowMs)
  have "ledger_of (empty_desk cap windowMs) = empty_ledger"
    by (simp add: ledger_of_def empty_desk_def empty_ledger_def shown_def fun_eq_iff)
  then show ?case by (simp add: desk_ok_start ledger_reachable_def)
next
  case (move d ev d')
  with desk_step_sim [OF move.prems _ move.hyps(2)] show ?case
    by (auto simp: ledger_reachable_def intro: rtranclp.rtrancl_into_rtrancl)
qed


subsection \<open>What the ledger keeps\<close>

text \<open>The steps of the codes accepted since the app's secret was put there, the newest first, and the step it was confirmed with.\<close>

fun steps_since :: "string \<Rightarrow> Entry list \<Rightarrow> int list" where
  "steps_since a [] = []"
| "steps_since a (Placed b s (Some n) over # es) = (if a = b then [n] else steps_since a es)"
| "steps_since a (Spent b s (Step n) # es) = (if a = b then n # steps_since a es else steps_since a es)"
| "steps_since a (e # es) = steps_since a es"

text \<open>The recovery hashes accepted since the factor was made.\<close>

fun hashes_since :: "string \<Rightarrow> Entry list \<Rightarrow> string list" where
  "hashes_since a [] = []"
| "hashes_since a (Created b # es) = (if a = b then [] else hashes_since a es)"
| "hashes_since a (Spent b s (Recovery h) # es) = (if a = b then h # hashes_since a es else hashes_since a es)"
| "hashes_since a (e # es) = hashes_since a es"

text \<open>When proofs were looked at since the last one was accepted, or since the factor was made.\<close>

fun looks_since :: "string \<Rightarrow> Entry list \<Rightarrow> int list" where
  "looks_since a [] = []"
| "looks_since a (Looked b t # es) = (if a = b then t # looks_since a es else looks_since a es)"
| "looks_since a (Spent b s m # es) = (if a = b then [] else looks_since a es)"
| "looks_since a (Created b # es) = (if a = b then [] else looks_since a es)"
| "looks_since a (e # es) = looks_since a es"

text \<open>How many of the newest looks follow one another within the lock's time.\<close>

fun chain :: "int list \<Rightarrow> nat" where
  "chain [] = 0"
| "chain [t] = 1"
| "chain (t # u # ts) = (if t - u < LOCK_MS then Suc (chain (u # ts)) else 1)"

fun chains_short :: "int list \<Rightarrow> bool" where
  "chains_short [] \<longleftrightarrow> True"
| "chains_short (t # ts) \<longleftrightarrow> chain (t # ts) \<le> MAX_MISSES \<and> chains_short ts"

definition spent_ok :: "SecondFactor option \<Rightarrow> string \<Rightarrow> Entry list \<Rightarrow> bool" where
  "spent_ok row a es \<longleftrightarrow> sorted_wrt (>) (steps_since a es) \<and> distinct (hashes_since a es)
     \<and> (\<forall>f. row = Some f \<longrightarrow> (sf_secret f \<noteq> None \<longrightarrow> (\<forall>n \<in> set (steps_since a es). n \<le> sf_lastStep f))
          \<and> set (hashes_since a es) \<inter> set (sf_recoveryHashes f) = {})"

definition misses_ok :: "SecondFactor option \<Rightarrow> string \<Rightarrow> int \<Rightarrow> Entry list \<Rightarrow> bool" where
  "misses_ok row a t es \<longleftrightarrow> (let ts = looks_since a es in
     chains_short ts \<and> sorted_wrt (\<ge>) ts \<and> (\<forall>u \<in> set ts. u \<le> t)
     \<and> (\<forall>f. row = Some f \<longrightarrow> sf_lastMissAt f = (case ts of [] \<Rightarrow> None | u # us \<Rightarrow> Some u)
          \<and> sf_misses f = (case ts of [] \<Rightarrow> None | u # us \<Rightarrow> Some (chain ts))))"

definition ledger_ok :: "Ledger \<Rightarrow> bool" where
  "ledger_ok l \<longleftrightarrow> (\<forall>a. spent_ok (lg_factors l a) a (lg_log l) \<and> misses_ok (lg_factors l a) a (lg_now l) (lg_log l))"

lemma ledger_ok_set_row:
  assumes "ledger_ok l" and "\<And>b. b \<noteq> a \<Longrightarrow> steps_since b (es @ lg_log l) = steps_since b (lg_log l)
      \<and> hashes_since b (es @ lg_log l) = hashes_since b (lg_log l) \<and> looks_since b (es @ lg_log l) = looks_since b (lg_log l)"
    and "spent_ok f a (es @ lg_log l)" and "misses_ok f a (lg_now l) (es @ lg_log l)"
  shows "ledger_ok (set_row a f es l)"
  unfolding ledger_ok_def
proof
  fix b
  show "spent_ok (lg_factors (set_row a f es l) b) b (lg_log (set_row a f es l))
      \<and> misses_ok (lg_factors (set_row a f es l) b) b (lg_now (set_row a f es l)) (lg_log (set_row a f es l))"
    using assms by (cases "b = a") (simp_all add: set_row_def spent_ok_def misses_ok_def ledger_ok_def)
qed

lemma recent_chain:
  "misses_ok (Some f) a t es \<Longrightarrow> recent f t + 1 = chain (t # looks_since a es)"
  by (cases "looks_since a es") (auto simp: misses_ok_def recent_def Let_def)

lemma ledger_step_ok: "ledger_step cr l l' \<Longrightarrow> ledger_ok l \<Longrightarrow> ledger_ok l'"
proof (induction rule: ledger_step.induct)
  case (passes l t)
  then show ?case by (fastforce simp: ledger_ok_def misses_ok_def Let_def)
next
  case (looked l a f)
  then have m: "misses_ok (Some f) a (lg_now l) (lg_log l)" and s: "spent_ok (Some f) a (lg_log l)"
    by (metis ledger_ok_def)+
  show ?case
  proof (rule ledger_ok_set_row [OF looked(3)])
    show "spent_ok (Some (withMiss f (lg_now l))) a ([Looked a (lg_now l)] @ lg_log l)"
      using s by (simp add: spent_ok_def withMiss_def)
    show "misses_ok (Some (withMiss f (lg_now l))) a (lg_now l) ([Looked a (lg_now l)] @ lg_log l)"
      using m recent_chain [OF m] looked(2) by (simp add: misses_ok_def Let_def withMiss_def)
  qed auto
next
  case (by_code l a f secret step code session)
  then have s: "spent_ok (Some f) a (lg_log l)" by (metis ledger_ok_def)
  have "sf_secret f \<noteq> None" using by_code(2) by simp
  with s by_code(3) have "\<forall>n \<in> set (steps_since a (lg_log l)). n < step" by (fastforce simp: spent_ok_def)
  then show ?case using s
    by (intro ledger_ok_set_row [OF by_code(6)]) (auto simp: spent_ok_def misses_ok_def Let_def withoutMisses_def)
next
  case (by_recovery l a f h session)
  then have s: "spent_ok (Some f) a (lg_log l)" by (metis ledger_ok_def)
  then show ?case using by_recovery(2)
    by (intro ledger_ok_set_row [OF by_recovery(3)]) (auto simp: spent_ok_def misses_ok_def Let_def withoutMisses_def)
next
  case (by_passkey l a f p response n session ticket)
  then have s: "spent_ok (Some f) a (lg_log l)" by (metis ledger_ok_def)
  then show ?case
    by (intro ledger_ok_set_row [OF by_passkey(4)]) (auto simp: spent_ok_def misses_ok_def Let_def withoutMisses_def)
next
  case (first l a f step session)
  then have "spent_ok None a (lg_log l)" by (metis ledger_ok_def)
  with first(2-4) show ?case
    by (intro ledger_ok_set_row [OF first(5)]) (cases step; auto simp: spent_ok_def misses_ok_def Let_def)+
next
  case (another_app l a f secret step t session)
  then have "spent_ok (Some f) a (lg_log l)" "misses_ok (Some f) a (lg_now l) (lg_log l)" by (metis ledger_ok_def)+
  then show ?case by (intro ledger_ok_set_row [OF another_app(2)]) (auto simp: spent_ok_def misses_ok_def Let_def)
next
  case (another_key l a f ps t session)
  then have "spent_ok (Some f) a (lg_log l)" "misses_ok (Some f) a (lg_now l) (lg_log l)" by (metis ledger_ok_def)+
  then show ?case by (intro ledger_ok_set_row [OF another_key(2)]) (auto simp: spent_ok_def misses_ok_def Let_def)
next
  case (app_gone l a f session)
  then have "spent_ok (Some f) a (lg_log l)" "misses_ok (Some f) a (lg_now l) (lg_log l)" by (metis ledger_ok_def)+
  then show ?case by (intro ledger_ok_set_row [OF app_gone(2)]) (auto simp: spent_ok_def misses_ok_def Let_def)
next
  case (key_gone l a f ps session)
  then have "spent_ok (Some f) a (lg_log l)" "misses_ok (Some f) a (lg_now l) (lg_log l)" by (metis ledger_ok_def)+
  then show ?case by (intro ledger_ok_set_row [OF key_gone(2)]) (auto simp: spent_ok_def misses_ok_def Let_def)
next
  case (all_gone l a session)
  then have "spent_ok (lg_factors l a) a (lg_log l)" "misses_ok (lg_factors l a) a (lg_now l) (lg_log l)" by (metis ledger_ok_def)+
  then show ?case by (intro ledger_ok_set_row [OF all_gone]) (auto simp: spent_ok_def misses_ok_def Let_def)
next
  case (was_reset l a)
  then have "spent_ok (lg_factors l a) a (lg_log l)" "misses_ok (lg_factors l a) a (lg_now l) (lg_log l)" by (metis ledger_ok_def)+
  then show ?case by (intro ledger_ok_set_row [OF was_reset]) (auto simp: spent_ok_def misses_ok_def Let_def)
next
  case (lost l a)
  then have "spent_ok (lg_factors l a) a (lg_log l)" "misses_ok (lg_factors l a) a (lg_now l) (lg_log l)" by (metis ledger_ok_def)+
  then show ?case by (intro ledger_ok_set_row [OF lost]) (auto simp: spent_ok_def misses_ok_def Let_def)
qed

lemma ledger_reachable_ok: "ledger_reachable cr l \<Longrightarrow> ledger_ok l"
  unfolding ledger_reachable_def
proof (induction rule: rtranclp_induct)
  case base
  show ?case by (simp add: empty_ledger_def ledger_ok_def spent_ok_def misses_ok_def)
qed (rule ledger_step_ok)

lemma desk_ledger_ok: "desk_reachable cr d \<Longrightarrow> inj (cr_version cr) \<Longrightarrow> ledger_ok (ledger_of d)"
  by (auto dest: desk_reachable_ok ledger_reachable_ok)

lemma chain_gap: "sorted_wrt (\<ge>) ts \<Longrightarrow> k < length ts \<Longrightarrow> chain ts \<le> k \<Longrightarrow> LOCK_MS \<le> ts ! 0 - ts ! k"
proof (induction ts arbitrary: k rule: chain.induct)
  case (3 t u ts)
  show ?case
  proof (cases "t - u < LOCK_MS")
    case True
    with 3 obtain j where k: "k = Suc j" by (cases k) auto
    with 3 True have "LOCK_MS \<le> (u # ts) ! 0 - (u # ts) ! j" by auto
    with k 3(2) show ?thesis by simp
  next
    case False
    with 3 obtain j where k: "k = Suc j" by (cases k) auto
    have "(u # ts) ! j \<in> set (u # ts)" using 3(3) k by (intro nth_mem) simp
    then have "(u # ts) ! j \<le> u" using 3(2) by auto
    with k False show ?thesis by simp
  qed
qed auto

lemma chains_short_drop: "chains_short ts \<Longrightarrow> chains_short (drop i ts)"
  by (induction ts arbitrary: i) (auto simp: drop_Cons')

lemma short_gap:
  assumes "chains_short ts" and "sorted_wrt (\<ge>) ts" and "i + MAX_MISSES < length ts"
  shows "LOCK_MS \<le> ts ! i - ts ! (i + MAX_MISSES)"
proof -
  have "chain (drop i ts) \<le> MAX_MISSES"
    using chains_short_drop [OF assms(1), of i] by (cases "drop i ts") auto
  then have "LOCK_MS \<le> drop i ts ! 0 - drop i ts ! MAX_MISSES"
    using assms(2,3) by (intro chain_gap) (auto intro: sorted_wrt_drop)
  then show ?thesis using assms(3) by simp
qed

end
