(* ===== verification/Factor_Warrants.thy ===== *)
theory Factor_Warrants
  imports Second_Factor_Facts
begin

text \<open>
  Who may change a second factor, and how often a passkey's challenge is answered: invariants of the interleaved requests
  of \<open>Second_Factor\<close> themselves, kept beside the ledger of \<open>Second_Factor_Facts\<close>.
\<close>

subsection \<open>A change rests on a proof\<close>

definition proved :: "Crypto \<Rightarrow> string \<Rightarrow> Entry list \<Rightarrow> bool" where
  "proved cr session es \<longleftrightarrow> list_ex (\<lambda>e. case e of Spent a s m \<Rightarrow> a = account cr session \<and> s = session | _ \<Rightarrow> False) es"

text \<open>
  What a session has changed in a factor that was there already, it had spent a proof of before: the log is read from
  its newest entry on.
\<close>

fun backed :: "Crypto \<Rightarrow> Entry list \<Rightarrow> bool" where
  "backed cr [] \<longleftrightarrow> True"
| "backed cr (Placed a s step over # es) \<longleftrightarrow> (a = account cr s \<and> (if over then proved cr s es else True)) \<and> backed cr es"
| "backed cr (Cut a s # es) \<longleftrightarrow> (a = account cr s \<and> proved cr s es) \<and> backed cr es"
| "backed cr (e # es) \<longleftrightarrow> backed cr es"

fun warranted :: "Crypto \<Rightarrow> string \<Rightarrow> Change \<Rightarrow> Entry list \<Rightarrow> bool" where
  "warranted cr s (PutApp secret step codes) es = (codes = [] \<longrightarrow> proved cr s es)"
| "warranted cr s (PutKey passkey codes) es = (codes = [] \<longrightarrow> proved cr s es)"
| "warranted cr s _ es = proved cr s es"

fun phase_ok :: "Crypto \<Rightarrow> string \<Rightarrow> What \<Rightarrow> Phase \<Rightarrow> Entry list \<Rightarrow> bool" where
  "phase_ok cr s w Proven es = proved cr s es"
| "phase_ok cr s w (Offering codes) es = ((codes = [] \<longrightarrow> proved cr s es) \<and> \<not> is_login w)"
| "phase_ok cr s w (Registering ch codes at) es = (codes = [] \<longrightarrow> proved cr s es)"
| "phase_ok cr s w (Changing c n) es = (warranted cr s c es \<and> \<not> is_login w)"
| "phase_ok cr s w (Applying c n current) es = (warranted cr s c es \<and> \<not> is_login w)"
| "phase_ok cr s w (Issuing out) es = (is_login w \<longrightarrow> out \<noteq> Accepted)"
| "phase_ok cr s w Resetting es = (\<not> is_login w)"
| "phase_ok cr s w (Answered out) es = (is_login w \<and> out = Accepted \<longrightarrow> proved cr s es)"
| "phase_ok cr s w ph es = True"

definition pending_ok :: "Crypto \<Rightarrow> (string \<rightharpoonup> Pending) \<Rightarrow> Entry list \<Rightarrow> bool" where
  "pending_ok cr m es \<longleftrightarrow> (\<forall>s p. m s = Some p \<longrightarrow> pe_recoveryCodes p = [] \<longrightarrow> proved cr s es)"

definition warrants :: "Crypto \<Rightarrow> Desk \<Rightarrow> bool" where
  "warrants cr d \<longleftrightarrow> backed cr (dk_log d) \<and> pending_ok cr (dk_pendingTotp d) (dk_log d)
     \<and> pending_ok cr (dk_pendingPasskey d) (dk_log d)
     \<and> (\<forall>t \<in> set (dk_tasks d). phase_ok cr (tk_session t) (tk_what t) (tk_phase t) (dk_log d))"

lemma proved_more: "proved cr s es \<Longrightarrow> proved cr s (e # es)"
  by (simp add: proved_def)

lemma warranted_more: "warranted cr s c es \<Longrightarrow> warranted cr s c (e # es)"
  by (cases c) (auto intro: proved_more)

lemma phase_ok_more: "phase_ok cr s w ph es \<Longrightarrow> phase_ok cr s w ph (e # es)"
  by (cases ph) (auto intro: proved_more warranted_more)

lemma pending_ok_more: "pending_ok cr m es \<Longrightarrow> pending_ok cr m (e # es)"
  by (auto simp: pending_ok_def intro: proved_more)

lemma phase_ok_append: "phase_ok cr s w ph es \<Longrightarrow> phase_ok cr s w ph (fs @ es)"
  by (induction fs) (auto intro: phase_ok_more)

text \<open>What a step of a task must keep, the other tasks aside.\<close>

definition keeps :: "Crypto \<Rightarrow> Task \<Rightarrow> Phase \<Rightarrow> Desk \<Rightarrow> Desk \<Rightarrow> bool" where
  "keeps cr t ph d d' \<longleftrightarrow> backed cr (dk_log d') \<and> pending_ok cr (dk_pendingTotp d') (dk_log d')
     \<and> pending_ok cr (dk_pendingPasskey d') (dk_log d') \<and> phase_ok cr (tk_session t) (tk_what t) ph (dk_log d')
     \<and> (\<exists>es. dk_log d' = es @ dk_log d) \<and> dk_tasks d' = dk_tasks d"

definition desk_part :: "Crypto \<Rightarrow> Desk \<Rightarrow> bool" where
  "desk_part cr d \<longleftrightarrow> backed cr (dk_log d) \<and> pending_ok cr (dk_pendingTotp d) (dk_log d)
     \<and> pending_ok cr (dk_pendingPasskey d) (dk_log d)"

lemma keeps_same:
  "desk_part cr d \<Longrightarrow> dk_log d' = dk_log d \<Longrightarrow> dk_tasks d' = dk_tasks d \<Longrightarrow>
     pending_ok cr (dk_pendingTotp d') (dk_log d) \<Longrightarrow> pending_ok cr (dk_pendingPasskey d') (dk_log d) \<Longrightarrow>
     phase_ok cr (tk_session t) (tk_what t) ph (dk_log d) \<Longrightarrow> keeps cr t ph d d'"
  by (simp add: keeps_def desk_part_def)

lemma keeps_entry:
  "desk_part cr d \<Longrightarrow> dk_log d' = e # dk_log d \<Longrightarrow> dk_tasks d' = dk_tasks d \<Longrightarrow>
     dk_pendingTotp d' = dk_pendingTotp d \<Longrightarrow> dk_pendingPasskey d' = dk_pendingPasskey d \<Longrightarrow> backed cr (e # dk_log d) \<Longrightarrow>
     phase_ok cr (tk_session t) (tk_what t) ph (e # dk_log d) \<Longrightarrow> keeps cr t ph d d'"
  by (simp add: keeps_def desk_part_def pending_ok_more)

lemma pending_removed: "pending_ok cr m es \<Longrightarrow> pending_ok cr (m(s := None)) es"
  by (simp add: pending_ok_def)

lemma pending_swept: "pending_ok cr m es \<Longrightarrow> pending_ok cr (sweep_map at t w m) es"
  unfolding pending_ok_def sweep_map_def by (fastforce split: option.splits if_splits)

lemma pending_put:
  "pending_ok cr m es \<Longrightarrow> (pe_recoveryCodes p = [] \<Longrightarrow> proved cr s es) \<Longrightarrow> pending_ok cr (m(s \<mapsto> p)) es"
  by (simp add: pending_ok_def)

lemmas pending_intros = pending_removed pending_swept pending_put

lemma codes_given: "recovery_codes cr i \<noteq> []"
  by (simp add: recovery_codes_def newRecoveryCodes_def upt_conv_Cons)

lemma read_same:
  "read_factor cr a d = (x, e) \<Longrightarrow> dk_log e = dk_log d \<and> dk_tasks e = dk_tasks d \<and> dk_pendingTotp e = dk_pendingTotp d
     \<and> dk_pendingPasskey e = dk_pendingPasskey d \<and> dk_now e = dk_now d \<and> dk_challenges e = dk_challenges d \<and> dk_taken e = dk_taken d"
  by (auto simp: with_store_eq)

lemma arrive_keeps:
  assumes "desk_part cr d" and "arrive cr i t d = (ph, d')"
  shows "keeps cr t ph d d'"
proof -
  let ?a = "account cr (tk_session t)"
  obtain x e where r: "read_factor cr ?a d = (x, e)" by fastforce
  note q = read_same [OF r]
  from assms(1) have p: "pending_ok cr (dk_pendingTotp d) (dk_log d)" "pending_ok cr (dk_pendingPasskey d) (dk_log d)"
    by (simp_all add: desk_part_def)
  note defs = arrive_def quiet_defs is_login_def
  show ?thesis
  proof (cases "tk_what t")
    case (Login k c)
    then show ?thesis using assms r q p
      by (intro keeps_same) (auto simp: defs split: option.splits if_splits)
  next
    case (BeginApp k)
    then show ?thesis using assms r q p
      by (intro keeps_same) (auto simp: defs codes_given split: option.splits if_splits intro!: pending_intros)
  next
    case (ConfirmApp c)
    then show ?thesis using assms p
      by (intro keeps_same) (auto simp: defs pending_ok_def split: option.splits if_splits sum.splits)
  next
    case (BeginKey k)
    then show ?thesis using assms r q p
      by (intro keeps_same) (auto simp: defs codes_given split: option.splits if_splits)
  next
    case (ConfirmKey k)
    then show ?thesis using assms p
      by (intro keeps_same) (auto simp: defs pending_ok_def split: option.splits if_splits)
  next
    case AskChallenge
    then show ?thesis using assms r q p
      by (intro keeps_same) (auto simp: defs split: option.splits if_splits)
  next
    case (RemoveAll k)
    then show ?thesis using assms r q p
      by (intro keeps_same) (auto simp: defs split: option.splits if_splits)
  next
    case (RemoveApp k)
    then show ?thesis using assms r q p
      by (intro keeps_same) (auto simp: defs split: option.splits if_splits)
  next
    case (RemoveKey j k)
    then show ?thesis using assms r q p
      by (intro keeps_same) (auto simp: defs split: option.splits if_splits)
  next
    case (ResetAccount u m)
    obtain y f where r': "read_factor cr (cr_identity cr (tk_session t) u) d = (y, f)" by fastforce
    from ResetAccount show ?thesis using assms r' read_same [OF r'] p
      by (intro keeps_same) (auto simp: defs split: option.splits if_splits)
  qed
qed

lemma spend_keeps:
  assumes "desk_part cr d" and "spend cr (account cr (tk_session t)) (tk_session t) m f d = (ph, d')"
  shows "keeps cr t ph d d'"
proof -
  obtain b e where w: "write_factor cr (account cr (tk_session t)) f d = (b, e)" by fastforce
  then have q: "dk_log e = dk_log d" "dk_tasks e = dk_tasks d" "dk_pendingTotp e = dk_pendingTotp d" "dk_pendingPasskey e = dk_pendingPasskey d"
    by (auto simp: with_store_eq)
  show ?thesis
  proof (cases b)
    case True
    then show ?thesis using assms w q
      by (intro keeps_entry [where e = "Spent (account cr (tk_session t)) (tk_session t) m"])
        (auto simp: spend_def note_entry_def proved_def desk_part_def)
  qed (use assms w q in \<open>auto simp: spend_def desk_part_def intro!: keeps_same\<close>)
qed


lemma attempt_keeps:
  assumes "desk_part cr d" and "attempt cr (account cr (tk_session t)) f d = (ph, d')"
  shows "keeps cr t ph d d'"
proof -
  let ?a = "account cr (tk_session t)"
  obtain b e where w: "write_factor cr ?a (withMiss f (dk_now d)) d = (b, e)" by fastforce
  then have q: "dk_log e = dk_log d" "dk_tasks e = dk_tasks d" "dk_pendingTotp e = dk_pendingTotp d"
      "dk_pendingPasskey e = dk_pendingPasskey d" "dk_now e = dk_now d"
    by (auto simp: with_store_eq)
  show ?thesis
  proof (cases "\<not> 0 < lockLeftMs f (dk_now d) \<and> b")
    case True
    then show ?thesis using assms w q
      by (intro keeps_entry [where e = "Looked ?a (dk_now d)"]) (auto simp: attempt_def Let_def note_entry_def desk_part_def)
  qed (use assms w q in \<open>auto simp: attempt_def Let_def desk_part_def split: if_splits intro!: keeps_same\<close>)
qed

lemma read_again_keeps:
  assumes "desk_part cr d" and "read_again cr a d = (ph, d')"
  shows "keeps cr t ph d d'"
proof -
  obtain x e where r: "read_factor cr a d = (x, e)" by fastforce
  show ?thesis using assms r read_same [OF r]
    by (intro keeps_same) (auto simp: read_again_def desk_part_def split: option.splits)
qed

lemma look_at_keeps:
  assumes "desk_part cr d" and "look_at cr t f d = (ph, d')"
  shows "keeps cr t ph d d'"
proof (cases "proof_of (tk_what t)")
  case None
  with assms show ?thesis by (auto simp: look_at_def desk_part_def intro!: keeps_same)
next
  case (Some p)
  show ?thesis
  proof (cases p)
    case (ByPasskey answer)
    with Some assms show ?thesis
      by (intro keeps_same) (auto simp: look_at_def ask_passkey_def takeChallenge_def Let_def desk_part_def
        split: option.splits if_splits)
  next
    case (ByCode code)
    with Some assms(2) have c: "check_code cr (account cr (tk_session t)) (tk_session t) (is_login (tk_what t)) code f d = (ph, d')"
      by (simp add: look_at_def)
    show ?thesis
    proof (cases "(\<exists>x. ph = Answered x) \<and> d' = d \<and> ph \<noteq> Answered Accepted")
      case True
      with assms(1) show ?thesis by (intro keeps_same) (auto simp: desk_part_def)
    next
      case False
      with c obtain m f' where "spend cr (account cr (tk_session t)) (tk_session t) m f' d = (ph, d')"
        by (auto simp: check_code_def Let_def split: sum.splits option.splits if_splits)
      with assms(1) show ?thesis by (rule spend_keeps)
    qed
  qed
qed

lemma spendPasskey_keeps:
  assumes "desk_part cr d" and "spendPasskey cr (account cr (tk_session t)) (tk_session t) answer ch f d = (ph, d')"
  shows "keeps cr t ph d d'"
proof (cases "verifyPasskey cr answer ch (passkeys_of f)")
  case None
  with assms show ?thesis by (intro keeps_same) (auto simp: spendPasskey_def desk_part_def)
qed (use assms in \<open>auto simp: spendPasskey_def intro: spend_keeps\<close>)

lemma go_on_keeps:
  assumes "desk_part cr d" and "proved cr (tk_session t) (dk_log d)" and "go_on cr i t d = (ph, d')"
  shows "keeps cr t ph d d'"
proof -
  from assms(1) have p: "pending_ok cr (dk_pendingTotp d) (dk_log d)" "pending_ok cr (dk_pendingPasskey d) (dk_log d)"
    by (simp_all add: desk_part_def)
  show ?thesis using assms p
    by (cases "tk_what t"; intro keeps_same) (auto simp: go_on_def begin_totp_def is_login_def intro!: pending_intros)
qed

lemma offering_keeps:
  assumes "desk_part cr d" and "codes = [] \<longrightarrow> proved cr (tk_session t) (dk_log d)" and "\<not> is_login (tk_what t)"
  shows "keeps cr t (Answered out) d (begin_passkey cr i (tk_session t) codes d)"
  using assms by (intro keeps_same) (auto simp: begin_passkey_def desk_part_def intro!: pending_intros)

lemma change_again_keeps:
  assumes "desk_part cr d" and "warranted cr (tk_session t) c (dk_log d)" and "\<not> is_login (tk_what t)"
    and "change_again cr (tk_session t) c n d = (ph, d')"
  shows "keeps cr t ph d d'"
proof (cases n)
  case (Suc k)
  obtain x e where r: "read_factor cr (account cr (tk_session t)) d = (x, e)" by fastforce
  show ?thesis using assms Suc r read_same [OF r]
    by (intro keeps_same) (auto simp: change_again_def desk_part_def)
qed (use assms in \<open>auto simp: change_again_def desk_part_def intro!: keeps_same\<close>)

lemma after_change_pending:
  "pending_ok cr (dk_pendingTotp d) es \<Longrightarrow> pending_ok cr (dk_pendingTotp (after_change c s d)) es"
  "dk_pendingPasskey (after_change c s d) = dk_pendingPasskey d"
  by (cases c; simp add: forget_totp_def pending_removed)+

lemma note_change_fields [simp]:
  "dk_pendingTotp (note_change c a s b d) = dk_pendingTotp d" "dk_pendingPasskey (note_change c a s b d) = dk_pendingPasskey d"
  by (cases c; simp add: note_entry_def)+

text \<open>The entries of a change that lands.\<close>

lemma note_change_log:
  assumes "backed cr (dk_log d)" and "warranted cr s c (dk_log d)" and "apply_change cr c u current = Inr r"
  shows "\<exists>es. dk_log (note_change c (account cr s) s (current \<noteq> None) d) = es @ dk_log d
    \<and> backed cr (es @ dk_log d)"
proof -
  have "dk_log (note_change c (account cr s) s (current \<noteq> None) d)
      = (case c of PutApp secret step codes \<Rightarrow> Placed (account cr s) s (Some step) (current \<noteq> None) # (if current \<noteq> None then [] else [Created (account cr s)])
         | PutKey p codes \<Rightarrow> Placed (account cr s) s None (current \<noteq> None) # (if current \<noteq> None then [] else [Created (account cr s)])
         | _ \<Rightarrow> [Cut (account cr s) s]) @ dk_log d"
    by (cases c) (simp_all add: note_entry_def)
  moreover have "backed cr \<dots>"
    using assms by (cases c) (auto split: if_splits)
  ultimately show ?thesis by metis
qed

lemma apply_to_keeps:
  assumes d: "desk_part cr d" and w: "warranted cr (tk_session t) c (dk_log d)" and l: "\<not> is_login (tk_what t)"
    and s: "apply_to cr (tk_session t) c n current d = (ph, d')"
  shows "keeps cr t ph d d'"
proof -
  let ?s = "tk_session t"
  let ?a = "account cr ?s"
  from d have p: "backed cr (dk_log d)" "pending_ok cr (dk_pendingTotp d) (dk_log d)" "pending_ok cr (dk_pendingPasskey d) (dk_log d)"
    by (simp_all add: desk_part_def)
  have same: "keeps cr t (Changing c n) d e" if "\<exists>st. e = d\<lparr>dk_store := st\<rparr>" for e
    using that d w l p by (intro keeps_same) auto
  have lands: "keeps cr t (Answered Accepted) d (after_change c ?s (note_change c ?a ?s (current \<noteq> None) e))"
    and lands': "keeps cr t (Answered Accepted) d (note_change c ?a ?s (current \<noteq> None) e)"
    if r: "apply_change cr c (dk_now d) current = Inr r" and e: "\<exists>st. e = d\<lparr>dk_store := st\<rparr>" for e r
  proof -
    from e have q: "dk_log e = dk_log d" "dk_tasks e = dk_tasks d" "dk_pendingTotp e = dk_pendingTotp d"
      "dk_pendingPasskey e = dk_pendingPasskey d" by auto
    from note_change_log [of cr e ?s c "dk_now d" current r] q p(1) w r obtain es where
      es: "dk_log (note_change c ?a ?s (current \<noteq> None) e) = es @ dk_log d" "backed cr (es @ dk_log d)" by auto
    have more: "pending_ok cr m (es @ dk_log d)" if "pending_ok cr m (dk_log d)" for m
      using that by (induction es) (auto intro: pending_ok_more)
    show "keeps cr t (Answered Accepted) d (after_change c ?s (note_change c ?a ?s (current \<noteq> None) e))"
      "keeps cr t (Answered Accepted) d (note_change c ?a ?s (current \<noteq> None) e)"
      using es q p more l by (auto simp: keeps_def after_change_pending)
  qed
  show ?thesis
  proof (cases "apply_change cr c (dk_now d) current")
    case (Inl u)
    with s have "ph = Answered StartAgain" "d' = after_change c ?s d" by (auto simp: apply_to_def)
    then show ?thesis using d p by (intro keeps_same) (auto simp: after_change_pending)
  next
    case (Inr r)
    show ?thesis
    proof (cases r)
      case None
      obtain b e where w: "with_store (clear_factor (cr_version cr) ?a (Option.bind current sf_version)) d = (b, e)" by fastforce
      then have "\<exists>st. e = d\<lparr>dk_store := st\<rparr>" by (auto simp: with_store_eq)
      with s Inr None w same lands' [OF Inr] show ?thesis by (cases b) (auto simp: apply_to_def)
    next
      case (Some "next")
      obtain b e where w: "with_store (case current of Some _ \<Rightarrow> set_factor (cr_version cr) ?a next | None \<Rightarrow> create_factor ?a next) d = (b, e)"
        by fastforce
      then have "\<exists>st. e = d\<lparr>dk_store := st\<rparr>" by (auto simp: with_store_eq)
      with s Inr Some w same lands [OF Inr] show ?thesis by (cases b) (auto simp: apply_to_def)
    qed
  qed
qed

lemma reset_keeps:
  assumes "desk_part cr d" and "\<not> is_login (tk_what t)" and "reset_account cr t d = (ph, d')"
  shows "keeps cr t ph d d'"
proof (cases "\<exists>u m. tk_what t = ResetAccount u m")
  case True
  then obtain u m where w: "tk_what t = ResetAccount u m" by blast
  show ?thesis using assms w
    by (intro keeps_entry [where e = "WasReset (cr_identity cr (tk_session t) u)"])
      (auto simp: reset_account_def note_entry_def with_store_def Let_def desk_part_def is_login_def split: prod.splits)
next
  case False
  with assms(3) have "ph = Answered Forbidden" "d' = d" by (auto simp: reset_account_def split: What.splits)
  with assms(1) show ?thesis by (intro keeps_same) (auto simp: desk_part_def)
qed

lemma step_task_keeps:
  assumes d: "desk_part cr d" and ok: "phase_ok cr (tk_session t) (tk_what t) (tk_phase t) (dk_log d)"
    and s: "step_task cr i t d = (ph, d')"
  shows "keeps cr t ph d d'"
proof (cases "tk_phase t")
  case Arrived
  then show ?thesis using s arrive_keeps [OF d] by (simp add: step_task_def)
next
  case (Held f)
  then show ?thesis using s attempt_keeps [OF d] by (simp add: step_task_def Let_def)
next
  case Counted
  then show ?thesis using s read_again_keeps [OF d] by (simp add: step_task_def Let_def)
next
  case (Fresh f)
  then show ?thesis using s look_at_keeps [OF d] by (simp add: step_task_def Let_def)
next
  case (Verifying f ch answer)
  then show ?thesis using s spendPasskey_keeps [OF d] by (simp add: step_task_def Let_def)
next
  case Proven
  then show ?thesis using s ok go_on_keeps [OF d] by (simp add: step_task_def Let_def)
next
  case (Offering codes)
  with s have "ph = Answered Accepted" "d' = begin_passkey cr i (tk_session t) codes d" by (simp_all add: step_task_def Let_def)
  with offering_keeps [OF d] ok Offering show ?thesis by simp
next
  case (Registering ch codes at)
  then show ?thesis using s ok d
    by (intro keeps_same)
      (auto simp: step_task_def register_def Let_def desk_part_def is_login_def split: What.splits option.splits)
next
  case (Changing c n)
  then show ?thesis using s ok by (auto simp: step_task_def Let_def intro: change_again_keeps [OF d])
next
  case (Applying c n current)
  then show ?thesis using s ok by (auto simp: step_task_def Let_def intro: apply_to_keeps [OF d])
next
  case (Issuing out)
  then show ?thesis using s ok d by (intro keeps_same) (auto simp: step_task_def issue_def Let_def desk_part_def)
next
  case Resetting
  then show ?thesis using s ok reset_keeps [OF d] by (simp add: step_task_def Let_def)
next
  case (Answered out)
  then show ?thesis using s ok d by (intro keeps_same) (auto simp: step_task_def Let_def desk_part_def)
qed


lemma phases_list_update:
  assumes "\<forall>u \<in> set ts. phase_ok cr (tk_session u) (tk_what u) (tk_phase u) es"
    and "phase_ok cr (tk_session t) (tk_what t) (tk_phase t) (fs @ es)"
  shows "\<forall>u \<in> set (ts[i := t]). phase_ok cr (tk_session u) (tk_what u) (tk_phase u) (fs @ es)"
proof
  fix u assume "u \<in> set (ts[i := t])"
  then have "u = t \<or> u \<in> set ts" using set_update_subset_insert by fastforce
  with assms phase_ok_append show "phase_ok cr (tk_session u) (tk_what u) (tk_phase u) (fs @ es)" by blast
qed

lemma advance_warrants:
  assumes w: "warrants cr d" and i: "i < length (dk_tasks d)"
  shows "warrants cr (advance cr i d)"
  using i
proof (cases rule: advance_cases [of i d cr])
  case (turned_away rl)
  obtain t' rl' where f: "advance cr i d = d\<lparr>dk_limiter := rl', dk_tasks := (dk_tasks d)[i := t']\<rparr>" "tk_phase t' = Answered RateLimited"
    unfolding turned_away(2) by (rule finish_task [of i "dk_tasks d ! i" _ "d\<lparr>dk_limiter := rl\<rparr>"]) simp
  show ?thesis using w phases_list_update [of "dk_tasks d" cr "dk_log d" t' "[]"] by (simp add: f warrants_def)
next
  case (step rl slot ph e)
  let ?t = "(dk_tasks d ! i)\<lparr>tk_slot := slot\<rparr>"
  have "dk_tasks d ! i \<in> set (dk_tasks d)" using i by simp
  with w have "keeps cr ?t ph (d\<lparr>dk_limiter := rl\<rparr>) e"
    by (intro step_task_keeps [OF _ _ step(1)]) (auto simp: warrants_def desk_part_def)
  then obtain es where es: "dk_log e = es @ dk_log d" "dk_tasks e = dk_tasks d"
    and k: "backed cr (dk_log e)" "pending_ok cr (dk_pendingTotp e) (dk_log e)" "pending_ok cr (dk_pendingPasskey e) (dk_log e)"
      "phase_ok cr (tk_session ?t) (tk_what ?t) ph (es @ dk_log d)"
    by (auto simp: keeps_def)
  obtain t' rl' where f: "advance cr i d = e\<lparr>dk_limiter := rl', dk_tasks := (dk_tasks e)[i := t']\<rparr>"
      "tk_phase t' = ph" "tk_session t' = tk_session ?t" "tk_what t' = tk_what ?t"
    unfolding step(2) by (rule finish_task)
  show ?thesis using w k es phases_list_update [of "dk_tasks d" cr "dk_log d" t' es] by (simp add: f warrants_def)
qed

lemma desk_step_warrants:
  assumes w: "warrants cr d" and s: "desk_step cr ev d = Some d'"
  shows "warrants cr d'"
proof (cases ev)
  case (Advance i)
  with s advance_warrants [OF w] show ?thesis by (auto split: if_splits)
qed (use w s in \<open>auto simp: warrants_def split: if_splits\<close>)

lemma desk_warrants: "desk_reachable cr d \<Longrightarrow> warrants cr d"
proof (induction rule: desk_reachable.induct)
  case start
  show ?case by (simp add: warrants_def empty_desk_def pending_ok_def)
qed (rule desk_step_warrants)

subsection \<open>A challenge is answered once\<close>

definition tickets_ok :: "Crypto \<Rightarrow> Desk \<Rightarrow> bool" where
  "tickets_ok cr d \<longleftrightarrow> distinct (dk_taken d) \<and> set (dk_taken d) \<inter> dom (dk_challenges d) = {}
     \<and> (\<forall>k \<in> set (dk_taken d) \<union> dom (dk_challenges d). \<exists>i < length (dk_tasks d). k = cr_ticket cr i \<and> answered (tk_phase (dk_tasks d ! i)))"

text \<open>What a step does to the challenges: fewer, one taken, or the task's own ticket set by its last step.\<close>

definition ticket_effect :: "Crypto \<Rightarrow> nat \<Rightarrow> Task \<Rightarrow> Phase \<Rightarrow> Desk \<Rightarrow> Desk \<Rightarrow> bool" where
  "ticket_effect cr i t ph d d' \<longleftrightarrow>
     (dom (dk_challenges d') \<subseteq> dom (dk_challenges d) \<and> dk_taken d' = dk_taken d \<and> (answered (tk_phase t) \<longrightarrow> answered ph))
   \<or> (\<not> answered (tk_phase t) \<and> (\<exists>k \<in> dom (dk_challenges d). dk_challenges d' = (dk_challenges d)(k := None) \<and> dk_taken d' = k # dk_taken d))
   \<or> (\<not> answered (tk_phase t) \<and> answered ph \<and> (\<exists>c. dk_challenges d' = (dk_challenges d)(cr_ticket cr i \<mapsto> c)) \<and> dk_taken d' = dk_taken d)"

lemma effect_none:
  "\<not> answered (tk_phase t) \<Longrightarrow> dom (dk_challenges d') \<subseteq> dom (dk_challenges d) \<Longrightarrow> dk_taken d' = dk_taken d \<Longrightarrow>
     ticket_effect cr i t ph d d'"
  by (simp add: ticket_effect_def)

lemma clear_challenges_fewer: "dom (dk_challenges (clear_challenges b d)) \<subseteq> dom (dk_challenges d)"
  by (auto simp: clear_challenges_def sweep_map_def Let_def split: option.splits if_splits)

lemma untouched [simp]:
  "dk_challenges (note_entry e d) = dk_challenges d" "dk_taken (note_entry e d) = dk_taken d"
  "dk_challenges (note_change c a s b d) = dk_challenges d" "dk_taken (note_change c a s b d) = dk_taken d"
  "dk_challenges (after_change c s d) = dk_challenges d" "dk_taken (after_change c s d) = dk_taken d"
  "dk_challenges (begin_totp cr i s codes d) = dk_challenges d" "dk_taken (begin_totp cr i s codes d) = dk_taken d"
  "dk_challenges (begin_passkey cr i s codes d) = dk_challenges d" "dk_taken (begin_passkey cr i s codes d) = dk_taken d"
  "dk_challenges (forget_totp s d) = dk_challenges d" "dk_taken (forget_totp s d) = dk_taken d"
  "dk_taken (clear_challenges bound d) = dk_taken d"
  by (cases c; simp add: note_entry_def forget_totp_def begin_totp_def begin_passkey_def clear_challenges_def Let_def)+

lemma with_store_untouched:
  "with_store f d = (x, e) \<Longrightarrow> dk_challenges e = dk_challenges d \<and> dk_taken e = dk_taken d"
  by (auto simp: with_store_eq)

lemma spend_untouched: "spend cr a s m f d = (ph, d') \<Longrightarrow> dk_challenges d' = dk_challenges d \<and> dk_taken d' = dk_taken d"
  by (auto simp: spend_def with_store_def split: prod.splits if_splits)

lemma arrive_tickets:
  assumes "arrive cr i t d = (ph, d')"
  shows "dom (dk_challenges d') \<subseteq> dom (dk_challenges d) \<and> dk_taken d' = dk_taken d"
proof -
  obtain x e where r: "read_factor cr (account cr (tk_session t)) d = (x, e)" by fastforce
  note q = with_store_untouched [OF r]
  note sub = clear_challenges_fewer [of "bound_to cr t" e]
  note defs = arrive_def confirm_totp_def confirm_passkey_def hold_if_def Let_def
  show ?thesis
  proof (cases "tk_what t")
    case (ResetAccount u m)
    obtain y f where r': "read_factor cr (cr_identity cr (tk_session t) u) d = (y, f)" by fastforce
    from ResetAccount show ?thesis using assms r' with_store_untouched [OF r']
      by (auto simp: defs split: option.splits if_splits)
  next
    case (Login p c)
    then show ?thesis using assms r q sub by (auto simp: defs split: option.splits if_splits)
  next
    case AskChallenge
    then show ?thesis using assms r q sub by (auto simp: defs split: option.splits if_splits)
  qed (use assms r q in \<open>auto simp: defs split: option.splits if_splits sum.splits\<close>)
qed

lemma step_task_tickets:
  assumes s: "step_task cr i t d = (ph, d')"
  shows "ticket_effect cr i t ph d d'"
proof (cases "tk_phase t")
  case Arrived
  with s have "arrive cr i t d = (ph, d')" by (simp add: step_task_def)
  from arrive_tickets [OF this] Arrived show ?thesis by (intro effect_none) (auto simp: answered_def)
next
  case (Held f)
  with s show ?thesis
    by (intro effect_none)
      (auto simp: step_task_def answered_def attempt_def with_store_def Let_def split: prod.splits if_splits)
next
  case Counted
  with s show ?thesis
    by (intro effect_none)
      (auto simp: step_task_def answered_def read_again_def with_store_def Let_def split: prod.splits option.splits)
next
  case (Fresh f)
  with s have l: "look_at cr t f d = (ph, d')" by (simp add: step_task_def Let_def)
  show ?thesis
  proof (cases "proof_of (tk_what t)")
    case None
    with l Fresh show ?thesis by (intro effect_none) (auto simp: look_at_def answered_def)
  next
    case (Some p)
    show ?thesis
    proof (cases p)
      case (ByCode code)
      with Some l Fresh show ?thesis
        by (intro effect_none)
          (auto simp: look_at_def answered_def check_code_def Let_def dest!: spend_untouched
            split: sum.splits option.splits if_splits)
    next
      case (ByPasskey answer)
      with Some l Fresh show ?thesis
        by (auto simp: look_at_def answered_def ask_passkey_def takeChallenge_def ticket_effect_def Let_def dom_def
            split: option.splits if_splits)
    qed
  qed
next
  case (Verifying f ch answer)
  with s show ?thesis
    by (intro effect_none)
      (auto simp: step_task_def answered_def spendPasskey_def Let_def dest!: spend_untouched split: option.splits)
next
  case Proven
  with s show ?thesis
    by (intro effect_none) (auto simp: step_task_def answered_def go_on_def Let_def split: What.splits)
next
  case (Offering codes)
  with s show ?thesis by (intro effect_none) (auto simp: step_task_def answered_def Let_def)
next
  case (Registering ch codes at)
  with s show ?thesis
    by (intro effect_none) (auto simp: step_task_def answered_def register_def Let_def split: What.splits option.splits)
next
  case (Changing c n)
  with s show ?thesis
    by (intro effect_none)
      (auto simp: step_task_def answered_def change_again_def with_store_def Let_def split: nat.splits prod.splits)
next
  case (Applying c n current)
  with s show ?thesis
    by (intro effect_none)
      (auto simp: step_task_def answered_def apply_to_def with_store_def Let_def
        split: sum.splits option.splits prod.splits bool.splits)
next
  case (Issuing out)
  with s show ?thesis by (auto simp: step_task_def answered_def issue_def ticket_effect_def Let_def)
next
  case Resetting
  with s show ?thesis
    by (intro effect_none)
      (auto simp: step_task_def answered_def reset_account_def with_store_def Let_def split: What.splits prod.splits)
next
  case (Answered out)
  with s show ?thesis by (auto simp: step_task_def answered_def ticket_effect_def Let_def)
qed


text \<open>The tasks that have drawn a ticket are answered, and stay so.\<close>

lemma tickets_kept:
  assumes "\<And>i. i < length ts \<Longrightarrow> answered (tk_phase (ts ! i)) \<Longrightarrow> i < length us \<and> answered (tk_phase (us ! i))"
    and "\<forall>k \<in> K. \<exists>i < length ts. k = cr_ticket cr i \<and> answered (tk_phase (ts ! i))"
  shows "\<forall>k \<in> K. \<exists>i < length us. k = cr_ticket cr i \<and> answered (tk_phase (us ! i))"
  using assms by blast

lemma tickets_ok_same:
  "tickets_ok cr d \<Longrightarrow> dk_tasks d' = dk_tasks d \<Longrightarrow> dk_taken d' = dk_taken d \<Longrightarrow> dk_challenges d' = dk_challenges d \<Longrightarrow>
     tickets_ok cr d'"
  by (simp add: tickets_ok_def)

lemma effect_tickets:
  assumes inj: "inj (cr_ticket cr)" and w: "tickets_ok cr d" and i: "i < length (dk_tasks d)"
    and eff: "ticket_effect cr i (dk_tasks d ! i) ph d e" and t: "answered (tk_phase t) = answered ph"
    and d': "dk_tasks d' = (dk_tasks d)[i := t]" "dk_taken d' = dk_taken e" "dk_challenges d' = dk_challenges e"
  shows "tickets_ok cr d'"
proof -
  let ?t = "dk_tasks d ! i"
  have kept: "answered (tk_phase ?t) \<Longrightarrow> answered (tk_phase t)" using eff t by (auto simp: ticket_effect_def)
  have old: "\<forall>k \<in> set (dk_taken d) \<union> dom (dk_challenges d). \<exists>j < length (dk_tasks d'). k = cr_ticket cr j \<and> answered (tk_phase (dk_tasks d' ! j))"
    by (rule tickets_kept [where ts = "dk_tasks d"]) (use w kept i in \<open>auto simp: d' tickets_ok_def nth_list_update\<close>)
  from w have ok: "distinct (dk_taken d)" "set (dk_taken d) \<inter> dom (dk_challenges d) = {}" by (auto simp: tickets_ok_def)
  from eff show ?thesis unfolding ticket_effect_def
  proof (elim disjE conjE bexE exE)
    assume "dom (dk_challenges e) \<subseteq> dom (dk_challenges d)" "dk_taken e = dk_taken d"
    with ok old d' show ?thesis unfolding tickets_ok_def by (simp add: disjoint_iff subset_iff) blast
  next
    fix k assume "k \<in> dom (dk_challenges d)" "dk_challenges e = (dk_challenges d)(k := None)" "dk_taken e = k # dk_taken d"
    with ok old d' show ?thesis unfolding tickets_ok_def by (simp add: disjoint_iff) blast
  next
    fix c assume new: "dk_challenges e = (dk_challenges d)(cr_ticket cr i \<mapsto> c)" "dk_taken e = dk_taken d"
      and "\<not> answered (tk_phase ?t)" "answered ph"
    have "cr_ticket cr i \<notin> set (dk_taken d)"
    proof
      assume "cr_ticket cr i \<in> set (dk_taken d)"
      with w obtain j where "j < length (dk_tasks d)" "cr_ticket cr i = cr_ticket cr j" "answered (tk_phase (dk_tasks d ! j))"
        unfolding tickets_ok_def by blast
      with inj \<open>\<not> answered (tk_phase ?t)\<close> show False by (simp add: inj_eq)
    qed
    moreover have "\<exists>j < length (dk_tasks d'). cr_ticket cr i = cr_ticket cr j \<and> answered (tk_phase (dk_tasks d' ! j))"
      using i \<open>answered ph\<close> by (intro exI [of _ i]) (simp add: d' t)
    ultimately show ?thesis using ok old new d' unfolding tickets_ok_def by (simp add: disjoint_iff)
  qed
qed

lemma desk_step_tickets:
  assumes inj: "inj (cr_ticket cr)" and w: "tickets_ok cr d" and s: "desk_step cr ev d = Some d'"
    and same: "warrants cr d"
  shows "tickets_ok cr d'"
proof (cases ev)
  case (Request session ip what)
  with s have d': "dk_tasks d' = dk_tasks d @ [\<lparr>tk_session = session, tk_ip = ip, tk_slot = None, tk_what = what, tk_phase = Arrived\<rparr>]"
      "dk_taken d' = dk_taken d" "dk_challenges d' = dk_challenges d" by auto
  have "\<forall>k \<in> set (dk_taken d) \<union> dom (dk_challenges d). \<exists>i < length (dk_tasks d'). k = cr_ticket cr i \<and> answered (tk_phase (dk_tasks d' ! i))"
    by (rule tickets_kept [where ts = "dk_tasks d"]) (use w in \<open>auto simp: d' tickets_ok_def nth_append\<close>)
  with w d' show ?thesis by (simp add: tickets_ok_def)
next
  case (Advance i)
  with s have i: "i < length (dk_tasks d)" and d': "d' = advance cr i d" by (auto split: if_splits)
  from i show ?thesis
  proof (cases rule: advance_cases [of i d cr])
    case (turned_away rl)
    have eff: "ticket_effect cr i (dk_tasks d ! i) (Answered RateLimited) d (d\<lparr>dk_limiter := rl\<rparr>)"
      using turned_away(1) by (intro effect_none) (auto simp: answered_def)
    obtain t' rl' where f: "advance cr i d = d\<lparr>dk_limiter := rl', dk_tasks := (dk_tasks d)[i := t']\<rparr>" "tk_phase t' = Answered RateLimited"
      unfolding turned_away(2) by (rule finish_task [of i "dk_tasks d ! i" _ "d\<lparr>dk_limiter := rl\<rparr>"]) simp
    show ?thesis by (rule effect_tickets [OF inj w i eff, of t']) (simp_all add: d' f)
  next
    case (step rl slot ph e)
    let ?t = "(dk_tasks d ! i)\<lparr>tk_slot := slot\<rparr>"
    have "dk_tasks d ! i \<in> set (dk_tasks d)" using i by simp
    with same have "keeps cr ?t ph (d\<lparr>dk_limiter := rl\<rparr>) e"
      by (intro step_task_keeps [OF _ _ step(1)]) (auto simp: warrants_def desk_part_def)
    then have e: "dk_tasks e = dk_tasks d" by (simp add: keeps_def)
    from step_task_tickets [OF step(1)] have eff: "ticket_effect cr i (dk_tasks d ! i) ph d e" by (simp add: ticket_effect_def)
    obtain t' rl' where f: "advance cr i d = e\<lparr>dk_limiter := rl', dk_tasks := (dk_tasks e)[i := t']\<rparr>" "tk_phase t' = ph"
      unfolding step(2) by (rule finish_task)
    show ?thesis by (rule effect_tickets [OF inj w i eff, of t']) (simp_all add: d' f e)
  qed
qed (use w s in \<open>auto split: if_splits intro: tickets_ok_same\<close>)

lemma desk_tickets:
  assumes "inj (cr_ticket cr)" and "desk_reachable cr d"
  shows "tickets_ok cr d"
  using assms(2)
proof (induction rule: desk_reachable.induct)
  case start
  show ?case by (simp add: tickets_ok_def empty_desk_def)
next
  case (move d ev d')
  show ?case by (rule desk_step_tickets [OF assms(1) move.IH move.hyps(2) desk_warrants [OF move.hyps(1)]])
qed

end
