(* ===== verification/Factor_Props.thy ===== *)
theory Factor_Props
  imports Factor_Warrants "HOL-Library.Code_Target_Numeral"
begin

text \<open>
  The properties of the second factor, each with a run of requests it is applied to.
\<close>

subsection \<open>Runs\<close>

text \<open>A crypto library to run the model with: its hashes keep what they are given, its versions and tickets count.\<close>

definition sample :: Crypto where
  "sample = \<lparr>cr_hmac = (\<lambda>k m. []), cr_sha256 = id, cr_version = show_nat, cr_passkeys = True,
     cr_verify = (\<lambda>response challenge p. if response = challenge then Some (pk_counter p + 1) else None),
     cr_register = (\<lambda>response challenge. if response = challenge
       then Some \<lparr>pk_id = ''k'', pk_publicKey = ''p'', pk_counter = 0, pk_transports = None, pk_at = 0\<rparr> else None),
     cr_ticket = show_nat, cr_challenge = show_nat, cr_random = (\<lambda>i k. [of_nat k]),
     cr_user = id, cr_identity = (\<lambda>session user. user), cr_identityKey = id\<rparr>"

definition steps :: "nat \<Rightarrow> nat \<Rightarrow> DeskEvent list" where
  "steps i n = replicate n (Advance i)"

definition after_run :: "DeskEvent list \<Rightarrow> Desk" where
  "after_run evs = (case desk_run sample evs (empty_desk 50 60000) of Some d \<Rightarrow> d | None \<Rightarrow> empty_desk 50 60000)"

lemma after_run_reachable: "desk_reachable sample (after_run evs)"
  using desk_run_reachable [OF desk_reachable.start [of sample 50 60000], of evs]
  by (auto simp: after_run_def intro: desk_reachable.start split: option.split)

lemma sample_versions: "inj (cr_version sample)" "inj (cr_ticket sample)"
  by (simp_all add: sample_def inj_def)

text \<open>An app is enrolled, a code and a recovery code are used to log in.\<close>

definition app_run :: "DeskEvent list" where
  "app_run = Request ''u'' ''1.2.3.4'' (BeginApp None) # steps 0 1 @ Request ''u'' ''1.2.3.4'' (ConfirmApp ''000000'') # steps 1 3
    @ Wait 60000 # Request ''u'' ''1.2.3.4'' (Login None (Some ''000000'')) # steps 2 5
    @ Request ''u'' ''1.2.3.4'' (Login None (Some ''ae'')) # steps 3 5"

lemma app_run_log:
  "dk_log (after_run app_run) = [Spent ''u'' ''u'' (Recovery ''AE''), Looked ''u'' 60000,
     Spent ''u'' ''u'' (Step 1), Looked ''u'' 60000, Placed ''u'' ''u'' (Some 0) False, Created ''u'']"
  by code_simp

text \<open>A passkey is enrolled and then removed with its own answer.\<close>

definition removal_run :: "DeskEvent list" where
  "removal_run = Request ''u'' ''1.2.3.4'' (BeginKey None) # steps 0 2 @ Request ''u'' ''1.2.3.4'' (ConfirmKey ''0'') # steps 1 4
     @ Request ''u'' ''1.2.3.4'' AskChallenge # steps 2 2
     @ Request ''u'' ''1.2.3.4'' (RemoveAll (ByPasskey \<lparr>an_ticket = ''2'', an_id = ''k'', an_response = ''2''\<rparr>)) # steps 3 8"

lemma removal_run_log:
  "dk_log (after_run removal_run) = [Cut ''u'' ''u'', Spent ''u'' ''u'' (Ticket ''2''), Looked ''u'' 0, Placed ''u'' ''u'' None False, Created ''u'']"
  by code_simp

text \<open>Ten wrong codes, the time of the lock, and one more.\<close>

definition guess :: "nat \<Rightarrow> DeskEvent list" where
  "guess i = Request ''u'' ''1.2.3.4'' (Login None (Some ''wrong'')) # steps i 4"

definition guessing_run :: "DeskEvent list" where
  "guessing_run = Request ''u'' ''1.2.3.4'' (BeginKey None) # steps 0 2 @ Request ''u'' ''1.2.3.4'' (ConfirmKey ''0'') # steps 1 4
     @ concat (map guess [2..<12]) @ Wait 900000 # guess 12"

lemma guessing_run: "looks_since ''u'' (dk_log (after_run guessing_run)) = 900000 # replicate 10 0"
  by code_simp

text \<open>
  A removal is compared only with a factor that was read.  Here the account is reset by another while a removal is on
  its way, which then reads nothing; a factor enrolled before its write is removed by it without a comparison.
\<close>

definition blind_run :: "DeskEvent list" where
  "blind_run = Request ''u'' ''1.2.3.4'' (BeginKey None) # steps 0 2 @ Request ''u'' ''1.2.3.4'' (ConfirmKey ''0'') # steps 1 4
     @ Request ''u'' ''1.2.3.4'' AskChallenge # steps 2 2
     @ Request ''u'' ''1.2.3.4'' (RemoveAll (ByPasskey \<lparr>an_ticket = ''2'', an_id = ''k'', an_response = ''2''\<rparr>)) # steps 3 6
     @ Request ''v'' ''1.2.3.4'' (ResetAccount ''u'' True) # steps 4 2
     @ steps 3 1
     @ Request ''u'' ''1.2.3.4'' (BeginKey None) # steps 5 2 @ Request ''u'' ''1.2.3.4'' (ConfirmKey ''5'') # steps 6 4
     @ steps 3 1"

lemma blind_removal:
  "take 4 (dk_log (after_run blind_run)) = [Cut ''u'' ''u'', Placed ''u'' ''u'' None False, Created ''u'', WasReset ''u'']"
  by code_simp

subsection \<open>The properties\<close>



text \<open>
  C9: a proof is accepted once.  In every run the steps of the codes accepted for an account, since its app was put there,
  only grow, from the one it was confirmed with on; no recovery code is accepted twice, nor still held once accepted; and
  the challenge of a ticket is handed to one answer at most.
\<close>

theorem proofs_spent_once:
  assumes "inj (cr_version cr)" and "inj (cr_ticket cr)" and "desk_reachable cr d"
  shows "sorted_wrt (>) (steps_since a (dk_log d)) \<and> distinct (hashes_since a (dk_log d))
    \<and> (case shown (dk_store d) a of None \<Rightarrow> True | Some f \<Rightarrow> set (hashes_since a (dk_log d)) \<inter> set (sf_recoveryHashes f) = {})
    \<and> distinct (dk_taken d)"
  using desk_ledger_ok [OF assms(3,1)] desk_tickets [OF assms(2,3)]
  by (auto simp: ledger_ok_def spent_ok_def tickets_ok_def split: option.split)

lemma proofs_spent_once_witness:
  "distinct (hashes_since ''u'' (dk_log (after_run app_run))) \<and> steps_since ''u'' (dk_log (after_run app_run)) = [1, 0]"
  using proofs_spent_once [OF sample_versions after_run_reachable, of "''u''" app_run] by (simp add: app_run_log)





end
