(* ===== verification/Delete_Impact.thy ===== *)
theory Delete_Impact
  imports Joins Rows Row_Facts "HOL-Library.Code_Target_Numeral"
begin

text \<open>
  What a delete would reach through ON DELETE, counted without deleting anything
  (\<open>packages/adapter/src/sql/delete-impact.ts\<close> with \<open>packages/shared/src/schemas/impact.ts\<close>,
  \<open>BaseAdapter.deleteImpact\<close>), and the rows whose parent is missing (\<open>sql/references.ts\<close>,
  \<open>BaseAdapter.checkReferences\<close>).

  A count is \<open>None\<close> where \<open>Number\<close> gives \<open>NaN\<close>.  The foreign keys of the namespace (\<open>listForeignKeys\<close>, a query of
  each dialect over its catalogue) are an argument.
\<close>

subsection \<open>Actions, keys and steps\<close>

datatype DeleteAction = Cascade | SetNull | SetDefault | Restrict | NoAction

definition deleteActionOf :: "string option \<Rightarrow> DeleteAction" where
  "deleteActionOf onDelete = (case map_option to_upper onDelete of
     None \<Rightarrow> NoAction
   | Some a \<Rightarrow> if a = ''CASCADE'' then Cascade else if a = ''SET NULL'' then SetNull
       else if a = ''SET DEFAULT'' then SetDefault else if a = ''RESTRICT'' then Restrict else NoAction)"

definition DELETE_IMPACT_MAX_DEPTH :: nat where "DELETE_IMPACT_MAX_DEPTH = 15"

definition DELETE_IMPACT_MAX_STEPS :: nat where "DELETE_IMPACT_MAX_STEPS = 200"

record RelationDef = ForeignKeyDef +
  rel_table :: string

record DeleteImpactStep =
  st_depth :: nat
  st_table :: string
  st_constraint :: string
  st_columns :: "string list"
  st_refTable :: string
  st_action :: DeleteAction
  st_rows :: "int option"

record DeleteImpact =
  di_table :: string
  di_rows :: "int option"
  di_steps :: "DeleteImpactStep list"
  di_blocked :: bool
  di_capped :: bool

text \<open>The rows of a key's table that refer to the rows \<open>parents\<close> selects.\<close>

definition referring :: "Dialect \<Rightarrow> RelationDef \<Rightarrow> string \<Rightarrow> (AdapterError, string) result" where
  "referring d fk parents = rbind (rmap (quoteIdent d) (fkd_columns fk)) (\<lambda>cols.
     Inr ((case cols of [col] \<Rightarrow> col | _ \<Rightarrow> ''('' @ join '', '' cols @ '')'') @ '' IN ('' @ parents @ '')''))"

subsection \<open>The walk\<close>

text \<open>What the loop changes: the steps, the two flags, and the tables of the next depth with the condition on their rows.\<close>

record Walk =
  wk_steps :: "DeleteImpactStep list"
  wk_blocked :: bool
  wk_capped :: bool
  wk_next :: "(string \<times> string) list"

definition step_for :: "nat \<Rightarrow> string \<Rightarrow> RelationDef \<Rightarrow> int option \<Rightarrow> DeleteImpactStep" where
  "step_for depth parent fk n = \<lparr>st_depth = depth, st_table = rel_table fk, st_constraint = fkd_name fk,
     st_columns = fkd_columns fk, st_refTable = parent, st_action = deleteActionOf (fkd_onDelete fk), st_rows = n\<rparr>"

definition add_step :: "DeleteImpactStep \<Rightarrow> string \<Rightarrow> Walk \<Rightarrow> Walk" where
  "add_step st wh wk =
    (let wk' = wk\<lparr>wk_steps := wk_steps wk @ [st]\<rparr> in
     if st_rows st = Some 0 then wk'
     else if st_action st = Cascade then wk'\<lparr>wk_next := wk_next wk @ [(st_table st, wh)]\<rparr>
     else if st_action st = Restrict \<or> st_action st = NoAction then wk'\<lparr>wk_blocked := True\<rparr>
     else wk')"

text \<open>\<open>for (const x of xs)\<close> with a body that awaits and changes what it carries.\<close>

fun each_from :: "('x \<Rightarrow> 'w \<Rightarrow> ('s, 'w) run) \<Rightarrow> 'x list \<Rightarrow> 'w \<Rightarrow> ('s, 'w) run" where
  "each_from f [] w = ret w"
| "each_from f (x # xs) w = bind (f x w) (each_from f xs)"

definition count_sql :: "string \<Rightarrow> string \<Rightarrow> string" where
  "count_sql t wh = ''SELECT COUNT(*) FROM '' @ t @ '' WHERE '' @ wh"

definition visit_key ::
  "Dialect \<Rightarrow> Namespace \<Rightarrow> (string \<Rightarrow> ('s, int option) run) \<Rightarrow> nat \<Rightarrow> (string \<times> string) \<Rightarrow> RelationDef \<Rightarrow> Walk \<Rightarrow> ('s, Walk) run" where
  "visit_key d ns count depth parent fk wk =
    (if depth > DELETE_IMPACT_MAX_DEPTH \<or> length (wk_steps wk) \<ge> DELETE_IMPACT_MAX_STEPS
     then ret (wk\<lparr>wk_capped := True\<rparr>)
     else bind (lift (rmap (quoteIdent d) (fkd_refColumns fk))) (\<lambda>refs.
       bind (lift (quoteTable d ns (fst parent))) (\<lambda>p.
       bind (lift (referring d fk
           (''SELECT '' @ join '', '' refs @ '' FROM '' @ p @ '' WHERE '' @ snd parent))) (\<lambda>wh.
       bind (lift (quoteTable d ns (rel_table fk))) (\<lambda>t.
       bind (count (count_sql t wh)) (\<lambda>n.
         ret (add_step (step_for depth (fst parent) fk n) wh wk)))))))"

text \<open>The keys that refer to a table of the namespace.\<close>

definition keys_to :: "Dialect \<Rightarrow> Namespace \<Rightarrow> RelationDef list \<Rightarrow> string \<Rightarrow> RelationDef list" where
  "keys_to d ns relations table = filter (\<lambda>r. fkd_refTable r = table \<and> home d ns (fkd_refNamespace r)) relations"

definition visit_level ::
  "Dialect \<Rightarrow> Namespace \<Rightarrow> RelationDef list \<Rightarrow> (string \<Rightarrow> ('s, int option) run) \<Rightarrow> nat \<Rightarrow> (string \<times> string) list
    \<Rightarrow> Walk \<Rightarrow> ('s, Walk) run" where
  "visit_level d ns relations count depth level wk =
    each_from (\<lambda>parent. each_from (visit_key d ns count depth parent) (keys_to d ns relations (fst parent)))
      level (wk\<lparr>wk_next := []\<rparr>)"

text \<open>One level as a list of keys to visit.\<close>

definition visits :: "Dialect \<Rightarrow> Namespace \<Rightarrow> RelationDef list \<Rightarrow> (string \<times> string) list \<Rightarrow> ((string \<times> string) \<times> RelationDef) list" where
  "visits d ns relations level = concat (map (\<lambda>p. map (Pair p) (keys_to d ns relations (fst p))) level)"

lemma each_from_append: "each_from f (xs @ ys) w = bind (each_from f xs w) (each_from f ys)"
proof (induction xs arbitrary: w)
  case (Cons x xs)
  then have "each_from f (xs @ ys) = (\<lambda>w. bind (each_from f xs w) (each_from f ys))" by (rule ext)
  then show ?case by (simp add: bind_assoc)
qed (simp add: run_simps)

lemma each_from_map: "each_from f (map g xs) w = each_from (\<lambda>x. f (g x)) xs w"
proof (induction xs arbitrary: w)
  case (Cons x xs)
  then have "each_from f (map g xs) = each_from (\<lambda>x. f (g x)) xs" by (rule ext)
  then show ?case by simp
qed simp

lemma visit_level_visits:
  "visit_level d ns relations count depth level wk =
    each_from (\<lambda>v. visit_key d ns count depth (fst v) (snd v)) (visits d ns relations level) (wk\<lparr>wk_next := []\<rparr>)"
proof -
  have "each_from (\<lambda>parent. each_from (visit_key d ns count depth parent) (keys_to d ns relations (fst parent))) level w
      = each_from (\<lambda>v. visit_key d ns count depth (fst v) (snd v)) (visits d ns relations level) w" for w
  proof (induction level arbitrary: w)
    case (Cons p level)
    then have "each_from (\<lambda>parent. each_from (visit_key d ns count depth parent) (keys_to d ns relations (fst parent))) level
        = each_from (\<lambda>v. visit_key d ns count depth (fst v) (snd v)) (visits d ns relations level)" by (rule ext)
    then show ?case by (simp add: visits_def each_from_append each_from_map)
  qed (simp add: visits_def)
  then show ?thesis by (simp add: visit_level_def)
qed

text \<open>What one visit does to the walk.\<close>

lemma visit_key_cases:
  assumes "visit_key d ns count depth p fk wk s = (Inr wk', s')"
  shows "(depth > DELETE_IMPACT_MAX_DEPTH \<or> length (wk_steps wk) \<ge> DELETE_IMPACT_MAX_STEPS) \<and> wk' = wk\<lparr>wk_capped := True\<rparr>
    \<or> depth \<le> DELETE_IMPACT_MAX_DEPTH \<and> length (wk_steps wk) < DELETE_IMPACT_MAX_STEPS
      \<and> (\<exists>n wh. wk' = add_step (step_for depth (fst p) fk n) wh wk)"
  using assms unfolding visit_key_def
  by (auto simp: bind_Inr ret_def not_le not_less split: if_splits) 

text \<open>The rows a step deletes too, and the steps that make the delete fail.\<close>

definition deletes_on :: "DeleteImpactStep \<Rightarrow> bool" where
  "deletes_on st \<longleftrightarrow> st_rows st \<noteq> Some 0 \<and> st_action st = Cascade"

definition refuses :: "DeleteImpactStep \<Rightarrow> bool" where
  "refuses st \<longleftrightarrow> st_rows st \<noteq> Some 0 \<and> (st_action st = Restrict \<or> st_action st = NoAction)"

lemma add_step_fields:
  "wk_steps (add_step st wh wk) = wk_steps wk @ [st]"
  "wk_capped (add_step st wh wk) = wk_capped wk"
  "wk_blocked (add_step st wh wk) \<longleftrightarrow> wk_blocked wk \<or> refuses st"
  "wk_next (add_step st wh wk) = wk_next wk @ (if deletes_on st then [(st_table st, wh)] else [])"
  by (auto simp: add_step_def Let_def refuses_def deletes_on_def)

text \<open>The steps a list of visits adds: which keys, at which depth, how the flags and the next level follow from them.\<close>

definition step_of :: "nat \<Rightarrow> string \<Rightarrow> RelationDef \<Rightarrow> DeleteImpactStep \<Rightarrow> bool" where
  "step_of depth parent fk st \<longleftrightarrow> st = step_for depth parent fk (st_rows st)"

lemma visits_effect:
  assumes "each_from (\<lambda>v. visit_key d ns count depth (fst v) (snd v)) vs wk s = (Inr wk', s')"
  shows "\<exists>new. wk_steps wk' = wk_steps wk @ new
    \<and> (\<forall>st \<in> set new. \<exists>v \<in> set vs. step_of depth (fst (fst v)) (snd v) st)
    \<and> (new \<noteq> [] \<longrightarrow> depth \<le> DELETE_IMPACT_MAX_DEPTH)
    \<and> length (wk_steps wk') \<le> max (length (wk_steps wk)) DELETE_IMPACT_MAX_STEPS
    \<and> (wk_blocked wk' \<longleftrightarrow> wk_blocked wk \<or> (\<exists>st \<in> set new. refuses st))
    \<and> fst ` set (wk_next wk') = fst ` set (wk_next wk) \<union> st_table ` {st \<in> set new. deletes_on st}
    \<and> (wk_capped wk' \<longrightarrow> wk_capped wk \<or> depth > DELETE_IMPACT_MAX_DEPTH \<or> length (wk_steps wk') \<ge> DELETE_IMPACT_MAX_STEPS)
    \<and> (wk_capped wk \<longrightarrow> wk_capped wk')
    \<and> (\<not> wk_capped wk' \<longrightarrow> (\<forall>v \<in> set vs. \<exists>st \<in> set new. step_of depth (fst (fst v)) (snd v) st))"
  using assms
proof (induction vs arbitrary: wk s)
  case Nil
  then show ?case by (auto simp: ret_def)
next
  case (Cons v vs)
  then obtain wk1 s1 where first: "visit_key d ns count depth (fst v) (snd v) wk s = (Inr wk1, s1)"
    and rest: "each_from (\<lambda>v. visit_key d ns count depth (fst v) (snd v)) vs wk1 s1 = (Inr wk', s')"
    by (auto simp: bind_Inr)
  from Cons.IH [OF rest] obtain new where new: "wk_steps wk' = wk_steps wk1 @ new"
    and sound: "\<forall>st \<in> set new. \<exists>v \<in> set vs. step_of depth (fst (fst v)) (snd v) st"
    and deep: "new \<noteq> [] \<longrightarrow> depth \<le> DELETE_IMPACT_MAX_DEPTH"
    and len: "length (wk_steps wk') \<le> max (length (wk_steps wk1)) DELETE_IMPACT_MAX_STEPS"
    and blocked: "wk_blocked wk' \<longleftrightarrow> wk_blocked wk1 \<or> (\<exists>st \<in> set new. refuses st)"
    and nxt: "fst ` set (wk_next wk') = fst ` set (wk_next wk1) \<union> st_table ` {st \<in> set new. deletes_on st}"
    and cap: "wk_capped wk' \<longrightarrow> wk_capped wk1 \<or> depth > DELETE_IMPACT_MAX_DEPTH \<or> length (wk_steps wk') \<ge> DELETE_IMPACT_MAX_STEPS"
    and stays: "wk_capped wk1 \<longrightarrow> wk_capped wk'"
    and all: "\<not> wk_capped wk' \<longrightarrow> (\<forall>v \<in> set vs. \<exists>st \<in> set new. step_of depth (fst (fst v)) (snd v) st)"
    by blast
  from visit_key_cases [OF first] consider
      (stop) "depth > DELETE_IMPACT_MAX_DEPTH \<or> length (wk_steps wk) \<ge> DELETE_IMPACT_MAX_STEPS"
        "wk1 = wk\<lparr>wk_capped := True\<rparr>"
    | (go) n wh where "depth \<le> DELETE_IMPACT_MAX_DEPTH" "length (wk_steps wk) < DELETE_IMPACT_MAX_STEPS"
        "wk1 = add_step (step_for depth (fst (fst v)) (snd v) n) wh wk" by blast
  then show ?case
  proof cases
    case stop
    with stays have "wk_capped wk'" by simp
    then show ?thesis using new sound deep len blocked nxt stop by (intro exI [of _ new]) auto
  next
    case go
    let ?st = "step_for depth (fst (fst v)) (snd v) n"
    have st: "step_of depth (fst (fst v)) (snd v) ?st" by (simp add: step_of_def step_for_def)
    show ?thesis
      using new sound deep len blocked nxt cap stays all go st
      by (intro exI [of _ "?st # new"]) (auto simp: add_step_fields)
  qed
qed

lemma goes_deeper:
  assumes "(Inr wk', s') = visit_level d ns relations count depth level wk s" and "wk_next wk' \<noteq> []"
  shows "depth \<le> DELETE_IMPACT_MAX_DEPTH"
proof (rule ccontr)
  assume "\<not> ?thesis"
  moreover from assms(1) have "visit_level d ns relations count depth level wk s = (Inr wk', s')" by simp
  ultimately have "fst ` set (wk_next wk') = {}"
    unfolding visit_level_visits by (auto dest: visits_effect)
  with assms(2) show False by simp
qed

text \<open>
  Depth by depth until a level is empty.  The loop has no bound of its own: it ends because nothing is put on the level
  after a depth past \<open>DELETE_IMPACT_MAX_DEPTH\<close>.
\<close>

function walk_levels ::
  "Dialect \<Rightarrow> Namespace \<Rightarrow> RelationDef list \<Rightarrow> (string \<Rightarrow> ('s, int option) run) \<Rightarrow> nat \<Rightarrow> (string \<times> string) list
    \<Rightarrow> Walk \<Rightarrow> ('s, Walk) run" where
  "walk_levels d ns relations count depth level wk s =
    (if level = [] then (Inr wk, s)
     else (case visit_level d ns relations count depth level wk s of
         (Inl e, s') \<Rightarrow> (Inl e, s')
       | (Inr wk', s') \<Rightarrow> walk_levels d ns relations count (Suc depth) (wk_next wk') wk' s'))"
  by pat_completeness auto
termination
  by (relation "measure (\<lambda>(d, ns, relations, count, depth, level, wk, s).
      if level = [] then 0 else Suc (Suc DELETE_IMPACT_MAX_DEPTH - depth))")
    (auto dest: goes_deeper simp: Suc_diff_le)

declare walk_levels.simps [simp del]

definition walkDeleteImpact ::
  "Dialect \<Rightarrow> Namespace \<Rightarrow> string \<Rightarrow> RelationDef list \<Rightarrow> string \<Rightarrow> (string \<Rightarrow> ('s, int option) run) \<Rightarrow> ('s, DeleteImpact) run" where
  "walkDeleteImpact d ns table relations wh count =
    bind (lift (quoteTable d ns table)) (\<lambda>t.
    bind (count (count_sql t wh)) (\<lambda>rows.
    bind (walk_levels d ns relations count 1 (case rows of Some n \<Rightarrow> if n > 0 then [(table, wh)] else [] | None \<Rightarrow> [])
        \<lparr>wk_steps = [], wk_blocked = False, wk_capped = False, wk_next = []\<rparr>) (\<lambda>wk.
      ret \<lparr>di_table = table, di_rows = rows, di_steps = wk_steps wk, di_blocked = wk_blocked wk,
        di_capped = wk_capped wk\<rparr>)))"

text \<open>On a connection, from the keys of the rows: one condition for every key, whose values every count binds.\<close>

definition without_where :: "string \<Rightarrow> string" where
  "without_where wh = (if take 7 wh = '' WHERE '' then drop 7 wh else wh)"

definition keys_condition :: "ConditionHooks \<Rightarrow> RowKey list \<Rightarrow> (string \<Rightarrow> string option) \<Rightarrow> (Params, string) run" where
  "keys_condition h keys types =
    bind (each (\<lambda>key. bind (buildKeyWhere h key types) (\<lambda>wh. ret (''('' @ without_where wh @ '')''))) keys) (\<lambda>parts.
      ret (join '' OR '' parts))"

definition count_rows :: "'db Server \<Rightarrow> nat \<Rightarrow> DbValue list \<Rightarrow> string \<Rightarrow> ('db World, int option) run" where
  "count_rows sv c ps sql = bind (conn_query sv c sql ps) (\<lambda>r.
     ret (case cell_at (rr_rows r) 0 0 of Some x \<Rightarrow> cell_number x | None \<Rightarrow> Some 0))"

definition deleteImpactOn ::
  "'db Server \<Rightarrow> nat \<Rightarrow> ConditionHooks \<Rightarrow> Namespace \<Rightarrow> string \<Rightarrow> RowKey list \<Rightarrow> (string \<Rightarrow> string option)
    \<Rightarrow> RelationDef list \<Rightarrow> ('db World, DeleteImpact) run" where
  "deleteImpactOn sv c h ns table keys types relations =
    within (keys_condition h keys types) (new_params (ho_dialect h) False) (\<lambda>wh p.
      walkDeleteImpact (ho_dialect h) ns table relations wh (count_rows sv c (pa_values p)))"

definition deleteImpact ::
  "'db Server \<Rightarrow> Dialect \<Rightarrow> ('db World, RelationDef list) run \<Rightarrow> Namespace \<Rightarrow> string \<Rightarrow> RowKey list
    \<Rightarrow> ('db World, DeleteImpact) run" where
  "deleteImpact sv d listForeignKeys ns table keys =
    bind (keyColumnTypes sv d ns table) (\<lambda>types.
    bind listForeignKeys (\<lambda>relations.
      withConn sv ns (\<lambda>c. deleteImpactOn sv c (hooks d) ns table keys types relations) DEFAULT_TIMEOUT_MS))"

subsection \<open>What the walk finds\<close>

text \<open>The walk from a level: every step has its reason, and what is not stopped by a limit is followed.\<close>

definition refers_to :: "Dialect \<Rightarrow> Namespace \<Rightarrow> string \<Rightarrow> RelationDef \<Rightarrow> bool" where
  "refers_to d ns table r \<longleftrightarrow> fkd_refTable r = table \<and> home d ns (fkd_refNamespace r)"

definition reached_by ::
  "Dialect \<Rightarrow> Namespace \<Rightarrow> RelationDef list \<Rightarrow> nat \<Rightarrow> string set \<Rightarrow> DeleteImpactStep list \<Rightarrow> DeleteImpactStep \<Rightarrow> bool" where
  "reached_by d ns relations depth tables steps st \<longleftrightarrow>
    depth \<le> st_depth st \<and> st_depth st \<le> DELETE_IMPACT_MAX_DEPTH
    \<and> (\<exists>fk \<in> set relations. refers_to d ns (st_refTable st) fk \<and> step_of (st_depth st) (st_refTable st) fk st)
    \<and> (if st_depth st = depth then st_refTable st \<in> tables
       else \<exists>up \<in> set steps. Suc (st_depth up) = st_depth st \<and> deletes_on up \<and> st_table up = st_refTable st)"

definition all_followed :: "Dialect \<Rightarrow> Namespace \<Rightarrow> RelationDef list \<Rightarrow> nat \<Rightarrow> string \<Rightarrow> DeleteImpactStep list \<Rightarrow> bool" where
  "all_followed d ns relations depth table steps \<longleftrightarrow>
    (\<forall>fk \<in> set relations. refers_to d ns table fk \<longrightarrow> (\<exists>st \<in> set steps. step_of depth table fk st))"

lemma visits_iff:
  "(p, fk) \<in> set (visits d ns relations level) \<longleftrightarrow> p \<in> set level \<and> fk \<in> set relations \<and> refers_to d ns (fst p) fk"
  by (auto simp: visits_def keys_to_def refers_to_def)

lemma step_of_fields: "step_of depth parent fk st \<Longrightarrow> st_depth st = depth \<and> st_refTable st = parent"
  by (metis step_of_def step_for_def DeleteImpactStep.select_convs(1,5))

lemma all_followed_mono: "all_followed d ns relations depth table steps \<Longrightarrow> set steps \<subseteq> set steps' \<Longrightarrow>
    all_followed d ns relations depth table steps'"
  unfolding all_followed_def by blast

text \<open>What one level leaves to show, and what the levels below it add.\<close>

lemma level_then_below:
  assumes new: "\<forall>st \<in> set new. \<exists>v \<in> set (visits d ns relations level). step_of depth (fst (fst v)) (snd v) st"
    and deep: "new \<noteq> [] \<longrightarrow> depth \<le> DELETE_IMPACT_MAX_DEPTH"
    and below: "\<forall>st \<in> set below. reached_by d ns relations (Suc depth) (st_table ` {up \<in> set new. deletes_on up}) below st"
  shows "\<forall>st \<in> set (new @ below). reached_by d ns relations depth (fst ` set level) (new @ below) st"
proof
  fix st
  assume "st \<in> set (new @ below)"
  then consider "st \<in> set new" | "st \<in> set below" by auto
  then show "reached_by d ns relations depth (fst ` set level) (new @ below) st"
  proof cases
    case 1
    with new obtain p fk where v: "(p, fk) \<in> set (visits d ns relations level)" "step_of depth (fst p) fk st" by auto
    with step_of_fields [OF v(2)] deep 1 show ?thesis by (auto simp: reached_by_def visits_iff)
  next
    case 2
    with below have b: "reached_by d ns relations (Suc depth) (st_table ` {up \<in> set new. deletes_on up}) below st" by blast
    have "st_depth up = depth" if "up \<in> set new" for up using new that step_of_fields by blast
    with b show ?thesis unfolding reached_by_def
      by (cases "st_depth st = Suc depth") fastforce+
  qed
qed

lemma walk_levels_finds:
  assumes "walk_levels d ns relations count depth level wk s = (Inr wk', s')"
  shows "\<exists>new. wk_steps wk' = wk_steps wk @ new
    \<and> length (wk_steps wk') \<le> max (length (wk_steps wk)) DELETE_IMPACT_MAX_STEPS
    \<and> (\<forall>st \<in> set new. reached_by d ns relations depth (fst ` set level) new st)
    \<and> (wk_blocked wk' \<longleftrightarrow> wk_blocked wk \<or> (\<exists>st \<in> set new. refuses st))
    \<and> (wk_capped wk \<longrightarrow> wk_capped wk')
    \<and> (\<not> wk_capped wk' \<longrightarrow> (\<forall>t \<in> fst ` set level. all_followed d ns relations depth t new)
        \<and> (\<forall>up \<in> set new. deletes_on up \<longrightarrow> all_followed d ns relations (Suc (st_depth up)) (st_table up) new))"
  using assms
proof (induction d ns relations count depth level wk s rule: walk_levels.induct)
  case (1 d ns relations count depth level wk s)
  show ?case
  proof (cases "level = []")
    case True
    with "1.prems" show ?thesis by (simp add: walk_levels.simps)
  next
    case False
    with "1.prems" obtain wk1 s1 where first: "visit_level d ns relations count depth level wk s = (Inr wk1, s1)"
      and rest: "walk_levels d ns relations count (Suc depth) (wk_next wk1) wk1 s1 = (Inr wk', s')"
      by (subst (asm) walk_levels.simps) (auto split: prod.splits sum.splits)
    from visits_effect [OF first [unfolded visit_level_visits], simplified] obtain new where
      new: "wk_steps wk1 = wk_steps wk @ new"
        "\<forall>st \<in> set new. \<exists>v \<in> set (visits d ns relations level). step_of depth (fst (fst v)) (snd v) st"
        "new \<noteq> [] \<longrightarrow> depth \<le> DELETE_IMPACT_MAX_DEPTH"
        "length (wk_steps wk1) \<le> max (length (wk_steps wk)) DELETE_IMPACT_MAX_STEPS"
        "wk_blocked wk1 \<longleftrightarrow> wk_blocked wk \<or> (\<exists>st \<in> set new. refuses st)"
        "fst ` set (wk_next wk1) = (st_table ` {up \<in> set new. deletes_on up})"
        "wk_capped wk \<longrightarrow> wk_capped wk1"
        "\<not> wk_capped wk1 \<longrightarrow> (\<forall>v \<in> set (visits d ns relations level). \<exists>st \<in> set new. step_of depth (fst (fst v)) (snd v) st)"
      by blast
    from "1.IH" [OF False first [symmetric] refl rest, unfolded new(6)] obtain below where
      below: "wk_steps wk' = wk_steps wk1 @ below"
        "length (wk_steps wk') \<le> max (length (wk_steps wk1)) DELETE_IMPACT_MAX_STEPS"
        "\<forall>st \<in> set below. reached_by d ns relations (Suc depth) (st_table ` {up \<in> set new. deletes_on up}) below st"
        "wk_blocked wk' \<longleftrightarrow> wk_blocked wk1 \<or> (\<exists>st \<in> set below. refuses st)"
        "wk_capped wk1 \<longrightarrow> wk_capped wk'"
        "\<not> wk_capped wk' \<longrightarrow> (\<forall>t \<in> (st_table ` {up \<in> set new. deletes_on up}). all_followed d ns relations (Suc depth) t below)
          \<and> (\<forall>up \<in> set below. deletes_on up \<longrightarrow> all_followed d ns relations (Suc (st_depth up)) (st_table up) below)"
      by blast
    have here: "all_followed d ns relations depth t new" if "\<not> wk_capped wk1" "t \<in> fst ` set level" for t
      using that new(8) by (auto simp: all_followed_def) (metis fst_conv snd_conv visits_iff)
    have depths: "st_depth up = depth" if "up \<in> set new" for up using new(2) that step_of_fields by blast
    have followed: "(\<forall>t \<in> fst ` set level. all_followed d ns relations depth t (new @ below))
        \<and> (\<forall>up \<in> set (new @ below). deletes_on up \<longrightarrow> all_followed d ns relations (Suc (st_depth up)) (st_table up) (new @ below))"
      if open_end: "\<not> wk_capped wk'"
    proof (intro conjI ballI impI)
      fix t assume "t \<in> fst ` set level"
      with here below(5) open_end have "all_followed d ns relations depth t new" by blast
      then show "all_followed d ns relations depth t (new @ below)" by (rule all_followed_mono) simp
    next
      fix up assume "up \<in> set (new @ below)" "deletes_on up"
      with below(6) open_end depths have "all_followed d ns relations (Suc (st_depth up)) (st_table up) below" by auto
      then show "all_followed d ns relations (Suc (st_depth up)) (st_table up) (new @ below)"
        by (rule all_followed_mono) simp
    qed
    show ?thesis
      using new(1,4,5,7) below(1,2,4,5) level_then_below [OF new(2,3) below(3)] followed
      by (intro exI [of _ "new @ below"]) auto
  qed
qed

text \<open>The walk from its start: the limits, what each step rests on, the two flags.\<close>

definition impact_ok :: "Dialect \<Rightarrow> Namespace \<Rightarrow> RelationDef list \<Rightarrow> DeleteImpact \<Rightarrow> bool" where
  "impact_ok d ns relations im \<longleftrightarrow>
    length (di_steps im) \<le> DELETE_IMPACT_MAX_STEPS
    \<and> (\<forall>st \<in> set (di_steps im). reached_by d ns relations 1 {di_table im} (di_steps im) st)
    \<and> (di_blocked im \<longleftrightarrow> (\<exists>st \<in> set (di_steps im). refuses st))
    \<and> (\<not> di_capped im \<longrightarrow>
        ((\<exists>n > 0. di_rows im = Some n) \<longrightarrow> all_followed d ns relations 1 (di_table im) (di_steps im))
        \<and> (\<forall>up \<in> set (di_steps im). deletes_on up \<longrightarrow>
             all_followed d ns relations (Suc (st_depth up)) (st_table up) (di_steps im)))"

lemma walkDeleteImpact_ok:
  assumes "walkDeleteImpact d ns table relations wh count s = (Inr im, s')"
  shows "impact_ok d ns relations im"
proof -
  let ?level = "\<lambda>rows. case rows of Some n \<Rightarrow> if n > (0::int) then [(table, wh)] else [] | None \<Rightarrow> []"
  from assms obtain rows wk s1 where
    walk: "walk_levels d ns relations count 1 (?level rows) \<lparr>wk_steps = [], wk_blocked = False, wk_capped = False, wk_next = []\<rparr> s1
        = (Inr wk, s')"
    and im: "im = \<lparr>di_table = table, di_rows = rows, di_steps = wk_steps wk, di_blocked = wk_blocked wk, di_capped = wk_capped wk\<rparr>"
    unfolding walkDeleteImpact_def by (auto simp: bind_Inr ret_def)
  have level: "fst ` set (?level rows) \<subseteq> {table}" "(\<exists>n > 0. rows = Some n) \<Longrightarrow> table \<in> fst ` set (?level rows)"
    by (auto split: option.splits)
  have widen: "reached_by d ns relations 1 {table} steps st" if "reached_by d ns relations 1 (fst ` set (?level rows)) steps st" for steps st
    using that level(1) unfolding reached_by_def by (auto split: if_splits)
  from walk_levels_finds [OF walk] level(2) widen show ?thesis
    unfolding impact_ok_def im by auto
qed

subsection \<open>Nothing but counts is sent\<close>

definition counts_only :: "DbValue list \<Rightarrow> (string \<times> DbValue list \<times> int option) list \<Rightarrow> bool" where
  "counts_only ps es \<longleftrightarrow> (\<forall>(sql, qs, n) \<in> set es. take 21 sql = ''SELECT COUNT(*) FROM '' \<and> qs = ps)"

definition counts_steps :: "DbValue list \<Rightarrow> Walk \<Rightarrow> (Thrown, Walk) result \<Rightarrow> (string \<times> DbValue list \<times> int option) list \<Rightarrow> bool" where
  "counts_steps ps wk r es \<longleftrightarrow> counts_only ps es
    \<and> (case r of Inl e \<Rightarrow> True | Inr wk' \<Rightarrow> length (wk_steps wk') = length (wk_steps wk) + length es)"

lemma counts_only_append [simp]: "counts_only ps (es @ es') \<longleftrightarrow> counts_only ps es \<and> counts_only ps es'"
  by (simp add: counts_only_def ball_Un)

lemma counts_only_count [simp]: "counts_only ps ((count_sql t wh, qs, n) # es) \<longleftrightarrow> qs = ps \<and> counts_only ps es"
  by (auto simp: counts_only_def count_sql_def)

lemma counts_only_Nil [simp]: "counts_only ps []"
  by (simp add: counts_only_def)

lemma sends_lift: "(\<And>e. Q (Inl e) []) \<Longrightarrow> (\<And>x. sends c (f x) Q) \<Longrightarrow> sends c (bind (lift r) f) Q"
  by (cases r) (simp_all add: run_simps sends_raise)

lemma sends_count_rows:
  "sends c (count_rows sv c ps (count_sql t wh)) (\<lambda>r es. counts_only ps es \<and> (\<not> isl r \<longrightarrow> length es = 1))"
  unfolding count_rows_def
  by (rule sends_bind [OF sends_query [where Q = "\<lambda>r es. counts_only ps es \<and> length es = 1"]]) (auto intro: sends_ret)

lemma sends_visit_key: "sends c (visit_key d ns (count_rows sv c ps) depth p fk wk) (counts_steps ps wk)"
  unfolding visit_key_def
  by (auto simp: counts_steps_def add_step_fields
      intro!: sends_ret sends_lift sends_bind [OF sends_count_rows])

lemma sends_visits:
  "sends c (each_from (\<lambda>v. visit_key d ns (count_rows sv c ps) depth (fst v) (snd v)) vs wk) (counts_steps ps wk)"
proof (induction vs arbitrary: wk)
  case Nil
  then show ?case by (simp add: sends_ret counts_steps_def)
next
  case (Cons v vs)
  show ?case unfolding each_from.simps
    by (rule sends_bind [OF sends_visit_key])
      (auto simp: counts_steps_def intro!: sends_weaken [OF Cons.IH] split: sum.splits)
qed

lemma sends_level: "sends c (visit_level d ns relations (count_rows sv c ps) depth level wk) (counts_steps ps wk)"
  unfolding visit_level_visits by (rule sends_weaken [OF sends_visits]) (auto simp: counts_steps_def split: sum.splits)

lemma walk_levels_run:
  "walk_levels d ns relations count depth level wk = (if level = [] then ret wk
    else bind (visit_level d ns relations count depth level wk) (\<lambda>wk'.
      walk_levels d ns relations count (Suc depth) (wk_next wk') wk'))"
  by (rule ext) (subst walk_levels.simps, simp add: ret_def bind_def)

lemma sends_walk: "sends c (walk_levels d ns relations (count_rows sv c ps) depth level wk) (counts_steps ps wk)"
proof (rule sendsI)
  fix w r w'
  assume "walk_levels d ns relations (count_rows sv c ps) depth level wk w = (r, w')"
  then show "\<exists>es. wo_log w' = wo_log w @ map (\<lambda>(s, p, n). Sent c s p n) es \<and> counts_steps ps wk r es \<and> wo_applied w' = wo_applied w"
  proof (induction d ns relations "count_rows sv c ps" depth level wk w rule: walk_levels.induct)
    case (1 d ns relations depth level wk w)
    show ?case
    proof (cases "level = []")
      case True
      with "1.prems" show ?thesis
        by (intro exI [of _ "[]"]) (auto simp: walk_levels.simps counts_steps_def)
    next
      case False
      obtain r1 w1 where first: "visit_level d ns relations (count_rows sv c ps) depth level wk w = (r1, w1)" by fastforce
      with sends_level obtain es where es: "wo_log w1 = wo_log w @ map (\<lambda>(s, p, n). Sent c s p n) es"
        "counts_steps ps wk r1 es" "wo_applied w1 = wo_applied w" unfolding sends_def by blast
      show ?thesis
      proof (cases r1)
        case (Inl e)
        with "1.prems" False first es show ?thesis
          by (intro exI [of _ es]) (auto simp: walk_levels.simps counts_steps_def)
      next
        case (Inr wk1)
        with "1.prems" False first have "walk_levels d ns relations (count_rows sv c ps) (Suc depth) (wk_next wk1) wk1 w1 = (r, w')"
          by (simp add: walk_levels.simps)
        from "1.hyps" [OF False first [symmetric] Inr this] obtain es' where
          "wo_log w' = wo_log w1 @ map (\<lambda>(s, p, n). Sent c s p n) es'" "counts_steps ps wk1 r es'"
          "wo_applied w' = wo_applied w1" by blast
        with es Inr show ?thesis
          by (intro exI [of _ "es @ es'"]) (auto simp: counts_steps_def split: sum.splits)
      qed
    qed
  qed
qed

definition one_count_a_step :: "(Thrown, DeleteImpact) result \<Rightarrow> (string \<times> DbValue list \<times> int option) list \<Rightarrow> bool" where
  "one_count_a_step r es \<longleftrightarrow>
    (\<exists>ps. counts_only ps es) \<and> (\<forall>im. r = Inr im \<longrightarrow> length es = Suc (length (di_steps im)))"

lemma sends_impact: "sends c (deleteImpactOn sv c h ns table keys types relations) one_count_a_step"
proof (cases "keys_condition h keys types (new_params (ho_dialect h) False)")
  case (Pair r p)
  show ?thesis
  proof (cases r)
    case (Inl e)
    with Pair show ?thesis
      by (auto simp: deleteImpactOn_def within_def one_count_a_step_def intro!: sends_raise exI [of _ "[]"])
  next
    case (Inr wh)
    let ?ps = "pa_values p"
    have "sends c (walkDeleteImpact (ho_dialect h) ns table relations wh (count_rows sv c ?ps))
        (\<lambda>r es. counts_only ?ps es \<and> (\<forall>im. r = Inr im \<longrightarrow> length es = Suc (length (di_steps im))))"
      unfolding walkDeleteImpact_def
      by (auto simp: counts_steps_def intro!: sends_lift sends_ret sends_bind [OF sends_count_rows] sends_bind [OF sends_walk])
    then have "sends c (walkDeleteImpact (ho_dialect h) ns table relations wh (count_rows sv c ?ps))
        one_count_a_step"
      by (rule sends_weaken) (auto simp: one_count_a_step_def)
    with Pair Inr show ?thesis by (simp add: deleteImpactOn_def within_def)
  qed
qed

lemma withConn_result:
  assumes "withConn sv ns fn ms w = (Inr x, w')"
  shows "\<exists>c w1 w2. fn c w1 = (Inr x, w2)"
proof -
  from assms obtain c w1 where c: "finally_do (fn c) (release sv c) w1 = (Inr x, w')"
    unfolding withConn_def by (auto simp: bind_Inr)
  obtain r w2 where "fn c w1 = (r, w2)" by fastforce
  with c show ?thesis by (auto simp: finally_do_def release_def)
qed

lemma hooks_dialect [simp]: "ho_dialect (hooks d) = d"
  by (cases d) (simp_all add: hooks_def)

subsection \<open>Rows without a parent\<close>

record ReferenceCheck =
  rc_name :: string
  rc_columns :: "string list"
  rc_refNamespace :: Namespace
  rc_refTable :: string
  rc_refColumns :: "string list"
  rc_orphans :: "int option"
  rc_sql :: string

definition nth_or_empty :: "string list \<Rightarrow> nat \<Rightarrow> string" where
  "nth_or_empty xs i = (if i < length xs then xs ! i else [])"

text \<open>\<open>FROM child c LEFT JOIN parent p ON ... WHERE ...\<close>: what the count and the listing of the rows share.\<close>

definition orphans_from :: "Dialect \<Rightarrow> Namespace \<Rightarrow> string \<Rightarrow> ForeignKeyDef \<Rightarrow> (AdapterError, string) result" where
  "orphans_from d ns table fk =
    rbind (quoteTable d ns table) (\<lambda>child.
    rbind (quoteTable d (fkd_refNamespace fk) (fkd_refTable fk)) (\<lambda>parent.
    rbind (rmap (\<lambda>i. rbind (quoteIdent d (fkd_columns fk ! i)) (\<lambda>c.
        rbind (quoteIdent d (nth_or_empty (fkd_refColumns fk) i)) (\<lambda>p. Inr (''c.'' @ c @ '' = p.'' @ p))))
      [0..<length (fkd_columns fk)]) (\<lambda>on.
    rbind (quoteIdent d (nth_or_empty (fkd_refColumns fk) 0)) (\<lambda>p0.
    rbind (rmap (\<lambda>c. rbind (quoteIdent d c) (\<lambda>q. Inr (''c.'' @ q @ '' IS NOT NULL''))) (fkd_columns fk)) (\<lambda>given.
      Inr (''FROM '' @ child @ '' c LEFT JOIN '' @ parent @ '' p ON '' @ join '' AND '' on
        @ '' WHERE '' @ join '' AND '' ((''p.'' @ p0 @ '' IS NULL'') # given)))))))"

definition checkReferencesOn ::
  "'db Server \<Rightarrow> nat \<Rightarrow> Dialect \<Rightarrow> Namespace \<Rightarrow> string \<Rightarrow> ForeignKeyDef list \<Rightarrow> ('db World, ReferenceCheck list) run" where
  "checkReferencesOn sv c d ns table fks = each (\<lambda>fk.
     bind (lift (orphans_from d ns table fk)) (\<lambda>rows.
     bind (conn_query sv c (''SELECT COUNT(*) '' @ rows) []) (\<lambda>r.
       ret \<lparr>rc_name = fkd_name fk, rc_columns = fkd_columns fk, rc_refNamespace = fkd_refNamespace fk,
         rc_refTable = fkd_refTable fk, rc_refColumns = fkd_refColumns fk,
         rc_orphans = (case cell_at (rr_rows r) 0 0 of Some x \<Rightarrow> cell_number x | None \<Rightarrow> Some 0),
         rc_sql = ''SELECT c.* '' @ rows\<rparr>))) fks"

definition checkReferences :: "'db Server \<Rightarrow> Dialect \<Rightarrow> Namespace \<Rightarrow> string \<Rightarrow> ('db World, ReferenceCheck list) run" where
  "checkReferences sv d ns table = bind (describeTable sv ns table) (\<lambda>schema.
     withConn sv ns (\<lambda>c. checkReferencesOn sv c d ns table (tb_foreignKeys schema)) DEFAULT_TIMEOUT_MS)"

text \<open>One check per key, in order; the listing it shows is over the very rows its count was over.\<close>

definition counted_as_listed :: "ReferenceCheck \<Rightarrow> string \<times> DbValue list \<times> int option \<Rightarrow> bool" where
  "counted_as_listed check e \<longleftrightarrow> (\<exists>rows. rc_sql check = ''SELECT c.* '' @ rows \<and> fst e = ''SELECT COUNT(*) '' @ rows \<and> fst (snd e) = [])"

lemma sends_checks:
  "sends c (checkReferencesOn sv c d ns table fks) (\<lambda>r es. \<not> isl r \<longrightarrow>
     map rc_name (projr r) = map fkd_name fks \<and> list_all2 counted_as_listed (projr r) es)"
proof (induction fks)
  case Nil
  then show ?case by (simp add: checkReferencesOn_def sends_ret)
next
  case (Cons fk fks)
  let ?q = "\<lambda>sql r es. \<exists>n. es = [(sql, [], n)]"
  show ?case unfolding checkReferencesOn_def each.simps bind_assoc
    apply (rule sends_lift)
     apply simp
    unfolding bind_assoc bind_ret
    apply (rule sends_bind [OF sends_query [where Q = "?q _"]])
       apply simp
      apply simp
     apply simp
    apply (rule sends_bind [OF Cons.IH [unfolded checkReferencesOn_def]])
     apply simp
    apply (auto intro!: sends_ret simp: counted_as_listed_def)
    done
qed

subsection \<open>The theorems\<close>

text \<open>C37: the answer of \<open>deleteImpact\<close> explains itself.  At most 200 steps, none deeper than 15; every step follows a
  foreign key of the namespace into the table to delete from (depth 1) or into a table a CASCADE step with rows reached
  one depth above; the delete is called blocked exactly when a RESTRICT or NO ACTION step has rows; and unless the
  answer says it was capped, no key was left out: all keys into the table (when it has rows to delete) and all keys into
  every table a CASCADE step reaches are among the steps.\<close>

theorem deleteImpact_explained:
  assumes "deleteImpact sv d listForeignKeys ns table keys w = (Inr im, w')"
  shows "\<exists>types relations w0 w1. keyColumnTypes sv d ns table w = (Inr types, w0)
    \<and> listForeignKeys w0 = (Inr relations, w1) \<and> di_table im = table \<and> impact_ok d ns relations im"
proof -
  from assms obtain types w0 relations w1 where
    run: "keyColumnTypes sv d ns table w = (Inr types, w0)" "listForeignKeys w0 = (Inr relations, w1)"
      "withConn sv ns (\<lambda>c. deleteImpactOn sv c (hooks d) ns table keys types relations) DEFAULT_TIMEOUT_MS w1 = (Inr im, w')"
    unfolding deleteImpact_def by (auto simp: bind_Inr)
  from withConn_result [OF run(3)] obtain c w2 w3 where
    "deleteImpactOn sv c (hooks d) ns table keys types relations w2 = (Inr im, w3)" by blast
  then obtain wh ps where "walkDeleteImpact d ns table relations wh (count_rows sv c ps) w2 = (Inr im, w3)"
    by (auto simp: deleteImpactOn_def within_def raise_def split: prod.splits sum.splits)
  moreover from this have "di_table im = table" by (auto simp: walkDeleteImpact_def bind_Inr ret_def)
  ultimately show ?thesis using run by (auto intro: walkDeleteImpact_ok)
qed


subsection \<open>A sample\<close>

text \<open>A server that answers each query with the next number of a script.\<close>

definition scripted_server :: "string list Server" where
  "scripted_server = \<lparr>
     sv_acquire = (\<lambda>ns. ret 0), sv_setTimeout = (\<lambda>c ms. ret ()),
     sv_query = (\<lambda>c sql ps db. (Inr (One \<lparr>rr_columns = [], rr_rows = [[CString (hd db)]], rr_affectedRows = 0,
       rr_hasRows = True, rr_notices = []\<rparr>), tl db)),
     sv_release = (\<lambda>c db. db), sv_forget = (\<lambda>c db. db), sv_startProfiling = (\<lambda>c. ret False),
     sv_readProfile = (\<lambda>c. ret None), sv_describe = (\<lambda>ns t. raise (Adapter (AdapterError NOT_FOUND t))),
     sv_toAdapterError = AdapterError QUERY_FAILED\<rparr>"

definition scripted_world :: "string list World" where
  "scripted_world = \<lparr>wo_db = [''1'', ''2'', ''3''], wo_applied = Map.empty, wo_log = []\<rparr>"

definition sample_key :: "string \<Rightarrow> string \<Rightarrow> string \<Rightarrow> RelationDef" where
  "sample_key from to onDelete = \<lparr>fkd_name = from @ ''_fk'', fkd_columns = [''ref''],
     fkd_refNamespace = \<lparr>ns_database = ''d'', ns_schema = None\<rparr>, fkd_refTable = to, fkd_refColumns = [''id''],
     fkd_onUpdate = None, fkd_onDelete = Some onDelete, rel_table = from\<rparr>"

definition sample_impact :: "(Thrown, DeleteImpact) result \<times> string list World" where
  "sample_impact = deleteImpact scripted_server Postgres
     (ret [sample_key ''orders'' ''customers'' ''CASCADE'', sample_key ''lines'' ''orders'' ''RESTRICT''])
     \<lparr>ns_database = ''d'', ns_schema = None\<rparr> ''customers'' [KeyCtid ''(0,1)''] scripted_world"

lemmas scripted_defs = sample_impact_def scripted_server_def scripted_world_def sample_key_def

lemma sample_impact_is:
  "fst sample_impact = Inr \<lparr>di_table = ''customers'', di_rows = Some 1,
     di_steps = [\<lparr>st_depth = 1, st_table = ''orders'', st_constraint = ''orders_fk'', st_columns = [''ref''],
         st_refTable = ''customers'', st_action = Cascade, st_rows = Some 2\<rparr>,
       \<lparr>st_depth = 2, st_table = ''lines'', st_constraint = ''lines_fk'', st_columns = [''ref''],
         st_refTable = ''orders'', st_action = Restrict, st_rows = Some 3\<rparr>],
     di_blocked = True, di_capped = False\<rparr>"
  by code_simp

lemma sample_reads:
  "keyColumnTypes scripted_server Postgres ns t w = (Inr Map.empty, w)"
  by (simp add: keyColumnTypes_def ret_def)

lemma sample_impact_counts:
  "di_rows (projr (fst sample_impact)) = Some 1 \<and> length (di_steps (projr (fst sample_impact))) = 2
    \<and> di_blocked (projr (fst sample_impact)) \<and> \<not> di_capped (projr (fst sample_impact))"
  by (simp add: sample_impact_is)

theorem deleteImpact_explained_witness:
  "\<exists>im relations. fst sample_impact = Inr im \<and> length (di_steps im) = 2 \<and> di_blocked im \<and> \<not> di_capped im
    \<and> impact_ok Postgres \<lparr>ns_database = ''d'', ns_schema = None\<rparr> relations im"
proof -
  obtain im where im: "fst sample_impact = Inr im" using sample_impact_is by blast
  then have run: "sample_impact = (Inr im, snd sample_impact)" by (metis prod.collapse)
  have "length (di_steps im) = 2 \<and> di_blocked im \<and> \<not> di_capped im" using sample_impact_counts im by simp
  moreover obtain relations where "impact_ok Postgres \<lparr>ns_database = ''d'', ns_schema = None\<rparr> relations im"
    using deleteImpact_explained [OF run [unfolded sample_impact_def]] by blast
  ultimately show ?thesis using im by blast
qed


end
