(* ===== verification/Table_Scan.thy ===== *)
theory Table_Scan
  imports Rows Row_Facts "HOL-Library.Code_Target_Numeral"
begin

text \<open>
  Reading a whole table (\<open>iterateRows\<close>): MySQL and MariaDB by keyset pages over the key or one SELECT where there is
  none (\<open>packages/adapter/src/mysql/scan.ts\<close>, \<open>mysql/adapter.ts\<close>), PostgreSQL by a cursor
  (\<open>packages/adapter/src/postgres/adapter.ts\<close>).

  A generator is read by a consumer that wants some number of batches, or all of them: it gives the batches handed over
  and how it ended.  Its loop goes on as long as the server answers with full pages, so it is a partial function;
  the theorems show when it ends.  A result streamed by the driver is an argument.
\<close>

record RowBatch =
  rb_columns :: "ColumnMeta list"
  rb_rows :: "Cell list list"

datatype ScanEnd = Finished | Failed Thrown | Stopped

subsection \<open>The loop over pages\<close>

text \<open>
  \<open>fetch\<close> reads the page at a position, \<open>next_page\<close> is the position after it or the loop's \<open>return\<close>.  An empty page is
  handed over only as the first.
\<close>

partial_function (option) pages ::
  "('k \<Rightarrow> ('w, RowBatch) run) \<Rightarrow> ('k \<Rightarrow> RowBatch \<Rightarrow> 'k option) \<Rightarrow> nat option \<Rightarrow> 'k \<Rightarrow> bool \<Rightarrow> 'w
    \<Rightarrow> ((RowBatch list \<times> ScanEnd) \<times> 'w) option" where
  "pages fetch next_page wanted k first w = (case fetch k w of
     (Inl e, w') \<Rightarrow> Some (([], Failed e), w')
   | (Inr b, w') \<Rightarrow>
       (let yields = (rb_rows b \<noteq> [] \<or> first); out = (if yields then [b] else []) in
        if yields \<and> wanted = Some 1 then Some ((out, Stopped), w')
        else (case next_page k b of
            None \<Rightarrow> Some ((out, Finished), w')
          | Some k' \<Rightarrow> Option.bind
              (pages fetch next_page (if yields then map_option (\<lambda>n. n - 1) wanted else wanted) k' False w')
              (\<lambda>x. Some ((out @ fst (fst x), snd (fst x)), snd x)))))"

declare pages.simps [code]

subsection \<open>MySQL and MariaDB\<close>

record ScanPlan =
  sp_columns :: "string list"
  sp_tableSql :: string
  sp_keyIndexes :: "nat list"
  sp_keyTypes :: "string list"
  sp_keyExprs :: "string list"
  sp_orderBy :: string
  sp_single :: bool
  sp_batchSize :: nat

fun index_from :: "nat \<Rightarrow> ('a \<Rightarrow> bool) \<Rightarrow> 'a list \<Rightarrow> nat option" where
  "index_from i p [] = None"
| "index_from i p (x # xs) = (if p x then Some i else index_from (Suc i) p xs)"

definition find_index :: "('a \<Rightarrow> bool) \<Rightarrow> 'a list \<Rightarrow> nat option" where
  "find_index p xs = index_from 0 p xs"

definition key_positions :: "TableSchema \<Rightarrow> RowKeyKind \<times> string list \<Rightarrow> nat option list" where
  "key_positions schema key = (if fst key = PkKind
     then map (\<lambda>c. find_index (\<lambda>col. co_name col = c) (tb_columns schema)) (snd key) else [])"

definition mysqlScanPlan ::
  "Namespace \<Rightarrow> string \<Rightarrow> TableSchema \<Rightarrow> RowKeyKind \<times> string list \<Rightarrow> nat \<Rightarrow> (AdapterError, ScanPlan) result" where
  "mysqlScanPlan ns table schema key batchSize =
    rbind (rmap (\<lambda>c. quoteIdent Mysql (co_name c)) (tb_columns schema)) (\<lambda>columns.
    rbind (quoteTable Mysql ns table) (\<lambda>tableSql.
    if None \<in> set (key_positions schema key)
    then Inl (AdapterError QUERY_FAILED ''Key column missing from table schema'')
    else let keyIndexes = map the (key_positions schema key);
             keyTypes = map (\<lambda>i. co_dataType (tb_columns schema ! i)) keyIndexes in
      rbind (rmap (\<lambda>(c, t). rbind (quoteIdent Mysql c) (\<lambda>q. Inr (keyColumnExpr q t)))
          (if fst key = PkKind then zip (snd key) keyTypes else [])) (\<lambda>keyExprs.
      let orderBy = (if keyExprs \<noteq> [] then '' ORDER BY '' @ join '', '' keyExprs else []) in
        Inr \<lparr>sp_columns = columns, sp_tableSql = tableSql, sp_keyIndexes = keyIndexes, sp_keyTypes = keyTypes,
          sp_keyExprs = keyExprs, sp_orderBy = orderBy, sp_single = (orderBy = []), sp_batchSize = max 1 batchSize\<rparr>)))"

text \<open>One statement of the loop: the rows after the last one read, in the key's order.\<close>

definition key_cell :: "Cell list \<Rightarrow> nat \<Rightarrow> Cell" where
  "key_cell row i = (if i < length row then row ! i else CNull)"

definition after_key :: "ScanPlan \<Rightarrow> Cell list option \<Rightarrow> (Params, string) run" where
  "after_key plan lastRow = (case lastRow of
     None \<Rightarrow> ret []
   | Some row \<Rightarrow> bind (each (\<lambda>(i, t). bind (add_cell (key_cell row i)) (\<lambda>p. ret (keyParam p t)))
         (zip (sp_keyIndexes plan) (sp_keyTypes plan))) (\<lambda>lastKey.
       ret ('' WHERE ('' @ join '', '' (sp_keyExprs plan) @ '') > ('' @ join '', '' lastKey @ '')'')))"

definition pageStatement :: "ScanPlan \<Rightarrow> Cell list option \<Rightarrow> (Params, string) run" where
  "pageStatement plan lastRow =
    bind (after_key plan lastRow) (\<lambda>wh.
    bind (if sp_single plan then ret [] else bind (add_value (number_value (sp_batchSize plan))) (\<lambda>p. ret ('' LIMIT '' @ p))) (\<lambda>limit.
      ret (''SELECT '' @ join '', '' (sp_columns plan) @ '' FROM '' @ sp_tableSql plan @ wh @ sp_orderBy plan @ limit)))"

definition mysql_page :: "'db Server \<Rightarrow> nat \<Rightarrow> ScanPlan \<Rightarrow> Cell list option \<Rightarrow> ('db World, RowBatch) run" where
  "mysql_page sv c plan lastRow = within (pageStatement plan lastRow) (new_params Mysql False) (\<lambda>sql p.
     bind (conn_query sv c sql (pa_values p)) (\<lambda>r. ret \<lparr>rb_columns = rr_columns r, rb_rows = rr_rows r\<rparr>))"

definition mysql_next :: "ScanPlan \<Rightarrow> Cell list option \<Rightarrow> RowBatch \<Rightarrow> Cell list option option" where
  "mysql_next plan lastRow b =
    (if sp_single plan \<or> length (rb_rows b) < sp_batchSize plan then None
     else Some (if rb_rows b = [] then None else Some (last (rb_rows b))))"

type_synonym 'db Stream = "nat \<Rightarrow> string \<Rightarrow> nat \<Rightarrow> nat option \<Rightarrow> 'db World \<Rightarrow> (RowBatch list \<times> ScanEnd) \<times> 'db World"

definition mysqlScanRows ::
  "'db Server \<Rightarrow> 'db Stream option \<Rightarrow> nat \<Rightarrow> ScanPlan \<Rightarrow> bool \<Rightarrow> nat option \<Rightarrow> 'db World
    \<Rightarrow> ((RowBatch list \<times> ScanEnd) \<times> 'db World) option" where
  "mysqlScanRows sv stream c plan utc wanted w =
    (case (if utc then conn_query sv c (''SET SESSION time_zone = '' @ sq # ''+00:00'' @ [sq]) [] w else (Inr no_result, w)) of
       (Inl e, w') \<Rightarrow> Some (([], Failed e), w')
     | (Inr _, w') \<Rightarrow>
         (case (if sp_single plan then stream else None) of
            Some st \<Rightarrow> Some (st c (''SELECT '' @ join '', '' (sp_columns plan) @ '' FROM '' @ sp_tableSql plan) (sp_batchSize plan) wanted w')
          | None \<Rightarrow> pages (mysql_page sv c plan) (mysql_next plan) wanted None True w'))"

text \<open>The generator's \<open>finally\<close> runs however it ends: after a scan in UTC the session is reset, then the connection goes back.\<close>

definition mysql_iterateRows ::
  "'db Server \<Rightarrow> 'db Stream option \<Rightarrow> (nat \<Rightarrow> 'db \<Rightarrow> 'db) \<Rightarrow> Namespace \<Rightarrow> string \<Rightarrow> nat \<Rightarrow> TableSchema option \<Rightarrow> bool
    \<Rightarrow> nat option \<Rightarrow> 'db World \<Rightarrow> ((RowBatch list \<times> ScanEnd) \<times> 'db World) option" where
  "mysql_iterateRows sv stream reset ns table batchSize known utc wanted w =
    (case bind (case known of Some schema \<Rightarrow> ret schema | None \<Rightarrow> describeTable sv ns table) (\<lambda>schema.
          bind (lift (mysqlScanPlan ns table schema (resolveRowKey Mysql schema) batchSize)) (\<lambda>plan.
          bind (borrow sv ns 0) (\<lambda>c. ret (plan, c)))) w of
       (Inl e, w') \<Rightarrow> Some (([], Failed e), w')
     | (Inr (plan, c), w') \<Rightarrow> Option.bind (mysqlScanRows sv stream c plan utc wanted w') (\<lambda>(out, w'').
         let w3 = (if utc then w''\<lparr>wo_db := reset c (wo_db w'')\<rparr> else w'')
         in Some (out, snd (release sv c w3))))"

subsection \<open>PostgreSQL\<close>

definition FETCH_SQL :: "nat \<Rightarrow> string" where
  "FETCH_SQL n = ''FETCH '' @ show_nat n @ '' FROM tsmyadmin_export''"

definition pg_page :: "'db Server \<Rightarrow> nat \<Rightarrow> nat \<Rightarrow> unit \<Rightarrow> ('db World, RowBatch) run" where
  "pg_page sv c n k = bind (conn_query sv c (FETCH_SQL n) []) (\<lambda>r. ret \<lparr>rb_columns = rr_columns r, rb_rows = rr_rows r\<rparr>)"

definition pg_next :: "nat \<Rightarrow> unit \<Rightarrow> RowBatch \<Rightarrow> unit option" where
  "pg_next n k b = (if length (rb_rows b) < n then None else Some ())"

definition pgScanSource :: "Namespace \<Rightarrow> string \<Rightarrow> TableSchema \<Rightarrow> (AdapterError, string) result" where
  "pgScanSource ns table schema =
    rbind (rmap (\<lambda>c. quoteIdent Postgres (co_name c)) (tb_columns schema)) (\<lambda>columns.
    rbind (quoteTable Postgres ns table) (\<lambda>t.
    let key = resolveRowKey Postgres schema in
    rbind (if fst key = PkKind then rbind (rmap (quoteIdent Postgres) (snd key)) (\<lambda>ks. Inr ('' ORDER BY '' @ join '', '' ks))
           else Inr []) (\<lambda>orderBy.
      Inr (''SELECT '' @ join '', '' columns @ '' FROM '' @ (if tb_partitioned schema then [] else ''ONLY '') @ t @ orderBy))))"

text \<open>From BEGIN to COMMIT; whatever is not committed is rolled back.\<close>

definition pg_opening :: "'db Server \<Rightarrow> nat \<Rightarrow> string \<Rightarrow> bool \<Rightarrow> ('db World, unit) run" where
  "pg_opening sv c source utc =
    bind (conn_query sv c ''BEGIN'' []) (\<lambda>_.
    bind (if utc then conn_query sv c (''SET LOCAL TIME ZONE '' @ sq # ''UTC'' @ [sq]) [] else ret no_result) (\<lambda>_.
    bind (conn_query sv c (''DECLARE tsmyadmin_export NO SCROLL CURSOR FOR '' @ source) []) (\<lambda>_. ret ())))"

definition pg_closing :: "'db Server \<Rightarrow> nat \<Rightarrow> ('db World, unit) run" where
  "pg_closing sv c = bind (conn_query sv c ''CLOSE tsmyadmin_export'' []) (\<lambda>_.
     bind (conn_query sv c ''COMMIT'' []) (\<lambda>_. ret ()))"

definition pg_rollback :: "'db Server \<Rightarrow> nat \<Rightarrow> ('db World, RawResult) run" where
  "pg_rollback sv c = catch (conn_query sv c ''ROLLBACK'' []) (\<lambda>_. ret no_result)"

definition pg_scan ::
  "'db Server \<Rightarrow> nat \<Rightarrow> string \<Rightarrow> nat \<Rightarrow> bool \<Rightarrow> nat option \<Rightarrow> 'db World \<Rightarrow> ((RowBatch list \<times> ScanEnd) \<times> 'db World) option" where
  "pg_scan sv c source n utc wanted w =
    (case pg_opening sv c source utc w of
       (Inl e, w') \<Rightarrow> Some (([], Failed e), snd (pg_rollback sv c w'))
     | (Inr _, w') \<Rightarrow> Option.bind (pages (pg_page sv c n) (pg_next n) wanted () True w') (\<lambda>((out, ended), w2).
         if ended \<noteq> Finished then Some ((out, ended), snd (pg_rollback sv c w2))
         else (case pg_closing sv c w2 of
             (Inl e, w3) \<Rightarrow> Some ((out, Failed e), snd (pg_rollback sv c w3))
           | (Inr _, w3) \<Rightarrow> Some ((out, Finished), w3))))"

definition pg_iterateRows ::
  "'db Server \<Rightarrow> Namespace \<Rightarrow> string \<Rightarrow> nat \<Rightarrow> TableSchema option \<Rightarrow> bool \<Rightarrow> nat option \<Rightarrow> 'db World
    \<Rightarrow> ((RowBatch list \<times> ScanEnd) \<times> 'db World) option" where
  "pg_iterateRows sv ns table batchSize known utc wanted w =
    (case bind (case known of Some schema \<Rightarrow> ret schema | None \<Rightarrow> describeTable sv ns table) (\<lambda>schema.
          bind (lift (pgScanSource ns table schema)) (\<lambda>source. bind (borrow sv ns 0) (\<lambda>c. ret (source, c)))) w of
       (Inl e, w') \<Rightarrow> Some (([], Failed e), w')
     | (Inr (source, c), w') \<Rightarrow> Option.bind (pg_scan sv c source (max 1 batchSize) utc wanted w') (\<lambda>(out, w'').
         Some (out, snd (release sv c w''))))"

subsection \<open>A table read by pages\<close>

text \<open>
  What a loop over pages relies on: at position \<open>i\<close> the page holds the next \<open>size\<close> rows, or what is left of them, and the
  loop goes on from the position after it exactly when the page was full.
\<close>

locale paged_table =
  fixes fetch :: "'k \<Rightarrow> ('w, RowBatch) run" and next_page :: "'k \<Rightarrow> RowBatch \<Rightarrow> 'k option"
    and rows :: "Cell list list" and size :: nat and at :: "'k \<Rightarrow> nat \<Rightarrow> 'w \<Rightarrow> bool"
  assumes page: "at k i w \<Longrightarrow> 0 < size \<and> (\<exists>b w'. fetch k w = (Inr b, w') \<and> rb_rows b = take size (drop i rows)
      \<and> (if length (rb_rows b) < size then next_page k b = None \<and> (\<exists>k' j. at k' j w')
         else \<exists>k'. next_page k b = Some k' \<and> at k' (i + size) w'))"
begin

definition asked :: "nat option \<Rightarrow> Cell list list \<Rightarrow> Cell list list" where
  "asked wanted rs = (case wanted of None \<Rightarrow> rs | Some n \<Rightarrow> take (n * size) rs)"

lemma asked_rest: "wanted \<noteq> Some 0 \<Longrightarrow> wanted \<noteq> Some 1 \<Longrightarrow>
    asked wanted rs = take size rs @ asked (map_option (\<lambda>n. n - 1) wanted) (drop size rs)"
proof (cases wanted)
  case (Some n)
  assume "wanted \<noteq> Some 0" "wanted \<noteq> Some 1"
  with Some have "n * size = size + (n - 1) * size" by (metis One_nat_def mult_Suc not0_implies_Suc diff_Suc_1)
  then show ?thesis by (simp only: Some asked_def option.case option.map take_add)
qed (simp add: asked_def)

lemma asked_short:
  assumes "length rs < size" and "wanted \<noteq> Some 0"
  shows "asked wanted rs = rs"
proof (cases wanted)
  case (Some n)
  with assms(2) have "size \<le> n * size" by (cases n) auto
  with assms(1) have "length rs \<le> n * size" by linarith
  with Some show ?thesis by (simp add: asked_def)
qed (simp add: asked_def)

lemma asked_one: "asked (Some 1) rs = take size rs"
  by (simp add: asked_def)

text \<open>Every row is read, once, in order, or as many pages as were asked for; nothing else ends the loop.\<close>

lemma reads_all:
  assumes "at k i w" and "wanted \<noteq> Some 0"
  shows "\<exists>bs ended w'. pages fetch next_page wanted k first w = Some ((bs, ended), w')
    \<and> concat (map rb_rows bs) = asked wanted (drop i rows) \<and> (\<forall>b \<in> set bs. length (rb_rows b) \<le> size)
    \<and> (ended = Finished \<or> ended = Stopped \<and> wanted \<noteq> None) \<and> (\<exists>k' j. at k' j w')"
  using assms
proof (induction "length rows - i" arbitrary: k i w wanted first rule: less_induct)
  case less
  from page [OF less.prems(1)] obtain b w' where size: "0 < size" and fetch: "fetch k w = (Inr b, w')"
    and rows: "rb_rows b = take size (drop i rows)"
    and goes: "if length (rb_rows b) < size then next_page k b = None \<and> (\<exists>k' j. at k' j w')
         else \<exists>k'. next_page k b = Some k' \<and> at k' (i + size) w'" by blast
  note unfold = pages.simps [of fetch next_page wanted k first w]
  have live: "\<exists>k' j. at k' j w'" using goes by (auto split: if_splits)
  show ?case
  proof (cases "(rb_rows b \<noteq> [] \<or> first) \<and> wanted = Some 1")
    case True
    then have "pages fetch next_page wanted k first w = Some (([b], Stopped), w')"
      using fetch by (subst unfold) (simp add: Let_def)
    with True rows live show ?thesis by (simp add: asked_one del: One_nat_def)
  next
    case not_last: False
    show ?thesis
    proof (cases "length (rb_rows b) < size")
      case True
      with goes have "next_page k b = None" by simp
      moreover from True rows have "length (drop i rows) < size" by auto
      then have "drop i rows = rb_rows b" "asked wanted (drop i rows) = drop i rows"
        using rows asked_short less.prems(2) by simp_all
      ultimately show ?thesis using fetch not_last live True by (auto simp: unfold Let_def)
    next
      case False
      with goes obtain k' where next_page: "next_page k b = Some k'" and at': "at k' (i + size) w'" by auto
      from False rows size have len: "i < length rows" "rb_rows b \<noteq> []" by auto
      with not_last have not_one: "wanted \<noteq> Some 1" by blast
      let ?wanted = "map_option (\<lambda>n. n - 1) wanted"
      have "length rows - (i + size) < length rows - i" using len size by simp
      moreover from not_one less.prems(2) have "?wanted \<noteq> Some 0" by (cases wanted) auto
      ultimately obtain bs ended w2 where
        "pages fetch next_page ?wanted k' False w' = Some ((bs, ended), w2)"
        "concat (map rb_rows bs) = asked ?wanted (drop (i + size) rows)" "\<forall>b \<in> set bs. length (rb_rows b) \<le> size"
        "ended = Finished \<or> ended = Stopped \<and> ?wanted \<noteq> None" "\<exists>k' j. at k' j w2"
        using less.hyps [OF _ at'] by metis
      moreover have "asked wanted (drop i rows) = take size (drop i rows) @ asked ?wanted (drop (i + size) rows)"
        using asked_rest [OF less.prems(2) not_one, of "drop i rows"] by (simp add: add.commute)
      ultimately show ?thesis using fetch next_page not_one len rows
        by (auto simp: unfold Let_def)
    qed
  qed
qed

end

subsection \<open>The keyset pages\<close>

text \<open>
  What MySQL does with the statement of a page over a table that does not change meanwhile: the first rows, in the order
  of the key, of those whose key is greater than the one bound.  \<open>below\<close> is that order, on the values as bound.
\<close>

definition key_values :: "ScanPlan \<Rightarrow> Cell list \<Rightarrow> DbValue list" where
  "key_values plan row = map (\<lambda>i. db_value (key_cell row i)) (sp_keyIndexes plan)"

definition rows_after :: "ScanPlan \<Rightarrow> (DbValue list \<Rightarrow> DbValue list \<Rightarrow> bool) \<Rightarrow> Cell list list \<Rightarrow> Cell list option \<Rightarrow> Cell list list" where
  "rows_after plan below rows lastRow = (case lastRow of
     None \<Rightarrow> rows
   | Some row \<Rightarrow> filter (\<lambda>r. below (key_values plan row) (key_values plan r)) rows)"

definition keyset_answers ::
  "'db Server \<Rightarrow> nat \<Rightarrow> ScanPlan \<Rightarrow> (DbValue list \<Rightarrow> DbValue list \<Rightarrow> bool) \<Rightarrow> Cell list list \<Rightarrow> bool" where
  "keyset_answers sv c plan below rows \<longleftrightarrow> (\<forall>lastRow \<in> insert None (Some ` set rows). \<forall>sql p db.
     pageStatement plan lastRow (new_params Mysql False) = (Inr sql, p) \<longrightarrow>
     (\<exists>r db'. sv_query sv c sql (pa_values p) db = (Inr (One r), db')
        \<and> rr_rows r = take (sp_batchSize plan) (rows_after plan below rows lastRow)))"

fun whole_cell :: "Cell \<Rightarrow> bool" where
  "whole_cell (CTruncated t n) = False"
| "whole_cell _ = True"

text \<open>Rows in the order of their keys, no two with one key, none cut.\<close>

definition keyed_table :: "ScanPlan \<Rightarrow> (DbValue list \<Rightarrow> DbValue list \<Rightarrow> bool) \<Rightarrow> Cell list list \<Rightarrow> bool" where
  "keyed_table plan below rows \<longleftrightarrow> \<not> sp_single plan \<and> 0 < sp_batchSize plan
     \<and> (\<forall>a b. below a b \<longrightarrow> \<not> below b a) \<and> sorted_wrt (\<lambda>r r'. below (key_values plan r) (key_values plan r')) rows
     \<and> (\<forall>row \<in> set rows. \<forall>i \<in> set (sp_keyIndexes plan). whole_cell (key_cell row i))"

lemma filter_after:
  assumes "sorted_wrt lt rows" and "\<And>a b. lt a b \<Longrightarrow> \<not> lt b a" and "i < length rows"
  shows "filter (lt (rows ! i)) rows = drop (Suc i) rows"
proof -
  have "rows = take i rows @ rows ! i # drop (Suc i) rows" using assms(3) by (simp add: id_take_nth_drop)
  moreover have "filter (lt (rows ! i)) (take i rows) = []"
    using assms by (auto simp: filter_empty_conv in_set_conv_nth sorted_wrt_nth_less)
  moreover have "filter (lt (rows ! i)) (drop (Suc i) rows) = drop (Suc i) rows"
    using assms by (auto simp: filter_id_conv in_set_conv_nth sorted_wrt_nth_less)
  moreover have "\<not> lt (rows ! i) (rows ! i)" using assms(2) by blast
  ultimately show ?thesis by (metis append_Nil filter.simps(2) filter_append)
qed

lemma bind_run: "m s = (Inr x, s') \<Longrightarrow> bind m f s = f x s'"
  by (simp add: bind_def)

lemma add_cell_whole: "whole_cell v \<Longrightarrow> \<not> pa_literal p \<Longrightarrow>
    \<exists>t p'. add_cell v p = (Inr t, p') \<and> \<not> pa_literal p'"
  by (cases v) (auto simp: add_cell_def add_value_def add_param_def run_defs Let_def)

lemma each_add_whole:
  assumes "\<forall>(i, t) \<in> set its. whole_cell (key_cell row i)" and "\<not> pa_literal p"
  shows "\<exists>ts p'. each (\<lambda>(i, t). bind (add_cell (key_cell row i)) (\<lambda>q. ret (keyParam q t))) its p = (Inr ts, p') \<and> \<not> pa_literal p'"
  using assms
proof (induction its arbitrary: p)
  case (Cons it its)
  obtain i t where it: "it = (i, t)" by (cases it)
  with Cons.prems add_cell_whole [of "key_cell row i" p] obtain x p1 where
    x: "add_cell (key_cell row i) p = (Inr x, p1)" "\<not> pa_literal p1" by auto
  from Cons.IH [OF _ x(2)] Cons.prems obtain ts p2 where
    ts: "each (\<lambda>(i, t). bind (add_cell (key_cell row i)) (\<lambda>q. ret (keyParam q t))) its p1 = (Inr ts, p2)" "\<not> pa_literal p2" by auto
  have "bind (add_cell (key_cell row i)) (\<lambda>q. ret (keyParam q t)) p = (Inr (keyParam x t), p1)"
    using x(1) by (simp add: bind_run ret_def)
  with ts it have "each (\<lambda>(i, t). bind (add_cell (key_cell row i)) (\<lambda>q. ret (keyParam q t))) (it # its) p
      = (Inr (keyParam x t # ts), p2)" by (simp add: bind_run) (simp add: ret_def)
  with ts show ?case by blast
qed (simp add: ret_def)

lemma pageStatement_total:
  assumes "keyed_table plan below rows" and "lastRow \<in> insert None (Some ` set rows)"
  shows "\<exists>sql p. pageStatement plan lastRow (new_params Mysql False) = (Inr sql, p)"
proof -
  have "\<exists>wh p. after_key plan lastRow (new_params Mysql False) = (Inr wh, p) \<and> \<not> pa_literal p"
  proof (cases lastRow)
    case None
    then show ?thesis by (simp add: after_key_def ret_def new_params_def)
  next
    case (Some row)
    with assms have "\<forall>(i, t) \<in> set (zip (sp_keyIndexes plan) (sp_keyTypes plan)). whole_cell (key_cell row i)"
      by (auto simp: keyed_table_def dest: set_zip_leftD)
    from each_add_whole [OF this, of "new_params Mysql False"] obtain ts p where
      "each (\<lambda>(i, t). bind (add_cell (key_cell row i)) (\<lambda>q. ret (keyParam q t)))
         (zip (sp_keyIndexes plan) (sp_keyTypes plan)) (new_params Mysql False) = (Inr ts, p)" "\<not> pa_literal p"
      by (auto simp: new_params_def)
    with Some show ?thesis by (simp add: after_key_def bind_run ret_def)
  qed
  then obtain wh p where wh: "after_key plan lastRow (new_params Mysql False) = (Inr wh, p)" "\<not> pa_literal p" by blast
  obtain t p' where "add_value (number_value (sp_batchSize plan)) p = (Inr t, p')"
    using wh(2) by (auto simp: add_value_def add_param_def Let_def)
  with wh(1) show ?thesis by (simp add: pageStatement_def bind_run ret_def)
qed

definition mysql_at :: "'db Server \<Rightarrow> nat \<Rightarrow> ScanPlan \<Rightarrow> (DbValue list \<Rightarrow> DbValue list \<Rightarrow> bool) \<Rightarrow> Cell list list
    \<Rightarrow> Cell list option \<Rightarrow> nat \<Rightarrow> 'db World \<Rightarrow> bool" where
  "mysql_at sv c plan below rows lastRow i w \<longleftrightarrow> keyset_answers sv c plan below rows \<and> keyed_table plan below rows
     \<and> i \<le> length rows \<and> lastRow = (if i = 0 then None else Some (rows ! (i - 1)))"

lemma mysql_at_rows:
  assumes "mysql_at sv c plan below rows lastRow i w"
  shows "rows_after plan below rows lastRow = drop i rows"
proof (cases i)
  case (Suc j)
  from assms have table: "keyed_table plan below rows" and j: "j < length rows" "lastRow = Some (rows ! j)"
    using Suc by (auto simp: mysql_at_def)
  let ?lt = "\<lambda>r r'. below (key_values plan r) (key_values plan r')"
  have "filter (?lt (rows ! j)) rows = drop (Suc j) rows"
  proof (rule filter_after)
    show "sorted_wrt ?lt rows" using table by (simp add: keyed_table_def)
    show "\<not> ?lt b a" if "?lt a b" for a b using table that by (simp add: keyed_table_def)
  qed (rule j)
  with j Suc show ?thesis by (simp add: rows_after_def)
qed (use assms in \<open>simp add: mysql_at_def rows_after_def\<close>)

lemma mysql_page_at:
  assumes "mysql_at sv c plan below rows lastRow i w"
  shows "\<exists>b w'. mysql_page sv c plan lastRow w = (Inr b, w') \<and> rb_rows b = take (sp_batchSize plan) (drop i rows)"
proof -
  from assms have "lastRow \<in> insert None (Some ` set rows)" by (auto simp: mysql_at_def)
  moreover from this assms obtain sql p where st: "pageStatement plan lastRow (new_params Mysql False) = (Inr sql, p)"
    using pageStatement_total unfolding mysql_at_def by blast
  ultimately obtain r db' where "sv_query sv c sql (pa_values p) (wo_db w) = (Inr (One r), db')"
    "rr_rows r = take (sp_batchSize plan) (rows_after plan below rows lastRow)"
    using assms unfolding mysql_at_def keyset_answers_def by blast
  with st mysql_at_rows [OF assms] show ?thesis
    by (simp add: mysql_page_def within_def bind_def conn_query_def ret_def)
qed

interpretation keyset: paged_table "mysql_page sv c plan" "mysql_next plan" rows "sp_batchSize plan"
    "mysql_at sv c plan below rows" for sv c plan below rows
proof
  fix lastRow i w
  assume at: "mysql_at sv c plan below rows lastRow i w"
  let ?n = "sp_batchSize plan"
  from at have n: "0 < ?n" "\<not> sp_single plan" "i \<le> length rows" by (auto simp: mysql_at_def keyed_table_def)
  obtain b w' where page: "mysql_page sv c plan lastRow w = (Inr b, w')" "rb_rows b = take ?n (drop i rows)"
    using mysql_page_at [OF at] by blast
  have "if length (rb_rows b) < ?n then mysql_next plan lastRow b = None \<and> (\<exists>k' j. mysql_at sv c plan below rows k' j w')
         else \<exists>k'. mysql_next plan lastRow b = Some k' \<and> mysql_at sv c plan below rows k' (i + ?n) w'"
  proof (cases "length (rb_rows b) < ?n")
    case True
    have "mysql_at sv c plan below rows lastRow i w'" using at by (simp add: mysql_at_def)
    with True show ?thesis by (auto simp: mysql_next_def)
  next
    case False
    with page(2) n have full: "i + ?n \<le> length rows" by auto
    then have "last (take ?n (drop i rows)) = rows ! (i + ?n - 1)" "take ?n (drop i rows) \<noteq> []"
      using n(1) by (auto simp: last_conv_nth)
    with False full n at page(2) show ?thesis by (auto simp: mysql_next_def mysql_at_def)
  qed
  with n page show "0 < ?n \<and> (\<exists>b w'. mysql_page sv c plan lastRow w = (Inr b, w') \<and> rb_rows b = take ?n (drop i rows)
      \<and> (if length (rb_rows b) < ?n then mysql_next plan lastRow b = None \<and> (\<exists>k' j. mysql_at sv c plan below rows k' j w')
         else \<exists>k'. mysql_next plan lastRow b = Some k' \<and> mysql_at sv c plan below rows k' (i + ?n) w'))"
    by blast
qed

subsection \<open>The cursor\<close>

text \<open>
  What PostgreSQL does with a cursor: FETCH gives the next rows of the result fixed when it was declared.  \<open>place\<close> reads
  off the server's state how far the cursor of a connection is.
\<close>

definition cursor_fetches :: "'db Server \<Rightarrow> nat \<Rightarrow> nat \<Rightarrow> Cell list list \<Rightarrow> ('db \<Rightarrow> nat option) \<Rightarrow> bool" where
  "cursor_fetches sv c n rows place \<longleftrightarrow> 0 < n \<and> (\<forall>db i. place db = Some i \<longrightarrow>
     (\<exists>r db'. sv_query sv c (FETCH_SQL n) [] db = (Inr (One r), db') \<and> rr_rows r = take n (drop i rows)
        \<and> place db' = Some (i + length (rr_rows r))))"

definition cursor_at :: "'db Server \<Rightarrow> nat \<Rightarrow> nat \<Rightarrow> Cell list list \<Rightarrow> ('db \<Rightarrow> nat option) \<Rightarrow> unit \<Rightarrow> nat \<Rightarrow> 'db World \<Rightarrow> bool" where
  "cursor_at sv c n rows place k i w \<longleftrightarrow> cursor_fetches sv c n rows place \<and> place (wo_db w) = Some i"

interpretation cursor: paged_table "pg_page sv c n" "pg_next n" rows n "cursor_at sv c n rows place" for sv c n rows place
proof
  fix k i w
  assume at: "cursor_at sv c n rows place k i w"
  then obtain r db' where r: "0 < n" "sv_query sv c (FETCH_SQL n) [] (wo_db w) = (Inr (One r), db')"
    "rr_rows r = take n (drop i rows)" "place db' = Some (i + length (rr_rows r))"
    unfolding cursor_at_def cursor_fetches_def by blast
  let ?b = "\<lparr>rb_columns = rr_columns r, rb_rows = rr_rows r\<rparr>"
  obtain w' where w': "pg_page sv c n k w = (Inr ?b, w')" "wo_db w' = db'"
    using r(2) by (simp add: pg_page_def bind_def conn_query_def ret_def)
  have at': "cursor_at sv c n rows place () (i + length (rr_rows r)) w'"
    using at r(4) w'(2) by (simp add: cursor_at_def)
  show "0 < n \<and> (\<exists>b w'. pg_page sv c n k w = (Inr b, w') \<and> rb_rows b = take n (drop i rows)
      \<and> (if length (rb_rows b) < n then pg_next n k b = None \<and> (\<exists>k' j. cursor_at sv c n rows place k' j w')
         else \<exists>k'. pg_next n k b = Some k' \<and> cursor_at sv c n rows place k' (i + n) w'))"
  proof (intro conjI r(1) exI)
    show "pg_page sv c n k w = (Inr ?b, w')" by (rule w')
    show "rb_rows ?b = take n (drop i rows)" using r(3) by simp
    show "if length (rb_rows ?b) < n then pg_next n k ?b = None \<and> (\<exists>k' j. cursor_at sv c n rows place k' j w')
         else \<exists>k'. pg_next n k ?b = Some k' \<and> cursor_at sv c n rows place k' (i + n) w'"
    proof (cases "length (rr_rows r) < n")
      case True
      with at' show ?thesis by (auto simp: pg_next_def)
    next
      case False
      with r(3) have "length (rr_rows r) = n" by simp
      with at' False show ?thesis by (auto simp: pg_next_def)
    qed
  qed
qed

subsection \<open>What a scan sends\<close>

text \<open>What the loop sends, given what one page sends.\<close>

definition sent :: "nat \<Rightarrow> (string \<times> DbValue list \<times> int option) list \<Rightarrow> ConnEvent list" where
  "sent c es = map (\<lambda>(s, p, n). Sent c s p n) es"

definition only_sent :: "nat \<Rightarrow> (string \<times> DbValue list \<times> int option \<Rightarrow> bool) \<Rightarrow> 'db World \<Rightarrow> 'db World \<Rightarrow> bool" where
  "only_sent c P w w' \<longleftrightarrow>
    (\<exists>es. wo_log w' = wo_log w @ sent c es \<and> list_all P es \<and> wo_applied w' = wo_applied w)"

lemma only_sent_refl: "only_sent c P w w"
  by (auto simp: only_sent_def sent_def intro!: exI [of _ "[]"])

lemma only_sent_trans:
  assumes "only_sent c P w w1" and "only_sent c P w1 w2"
  shows "only_sent c P w w2"
proof -
  from assms obtain es es' where "wo_log w1 = wo_log w @ sent c es" "list_all P es" "wo_applied w1 = wo_applied w"
    "wo_log w2 = wo_log w1 @ sent c es'" "list_all P es'" "wo_applied w2 = wo_applied w1"
    unfolding only_sent_def by blast
  then have "wo_log w2 = wo_log w @ sent c (es @ es')" "list_all P (es @ es')" "wo_applied w2 = wo_applied w"
    by (simp_all add: sent_def)
  then show ?thesis unfolding only_sent_def by blast
qed

lemma only_sent_query:
  assumes "\<And>n. P (sql, ps, n)"
  shows "only_sent c P w (snd (conn_query sv c sql ps w))"
proof -
  obtain r db where "sv_query sv c sql ps (wo_db w) = (r, db)" by fastforce
  moreover define es where "es = [(sql, ps, case r of Inl e \<Rightarrow> None | Inr q \<Rightarrow> Some (rr_affectedRows (firstResult q)))]"
  ultimately have "wo_log (snd (conn_query sv c sql ps w)) = wo_log w @ sent c es"
    "wo_applied (snd (conn_query sv c sql ps w)) = wo_applied w"
    by (auto simp: conn_query_def sent_def split: sum.splits)
  moreover have "list_all P es" using assms by (simp add: es_def)
  ultimately show ?thesis unfolding only_sent_def by blast
qed

lemma only_sent_bind:
  assumes "only_sent c P w (snd (m w))" and "\<And>x w. only_sent c P w (snd (f x w))"
  shows "only_sent c P w (snd (bind m f w))"
  using assms by (auto simp: bind_def split: prod.splits sum.splits) (metis only_sent_trans snd_conv)

lemma pages_send:
  assumes "\<And>k w. only_sent c P w (snd (fetch k w))"
    and "pages fetch next_page wanted k first w = Some x"
  shows "only_sent c P w (snd x)"
proof -
  have "(\<forall>k w. only_sent c P w (snd (fetch k w))) \<longrightarrow> only_sent c P w (snd x)"
  proof (rule pages.raw_induct [where P = "\<lambda>fetch next_page wanted k first w x.
      (\<forall>k w. only_sent c P w (snd (fetch k w))) \<longrightarrow> only_sent c P w (snd x)", OF _ assms(2)], goal_cases)
    case (1 pgs fetch next_page wanted k first w x)
    show ?case
    proof
      assume quiet: "\<forall>k w. only_sent c P w (snd (fetch k w))"
      obtain r w1 where r: "fetch k w = (r, w1)" by fastforce
      with quiet have here: "only_sent c P w w1" by (metis snd_conv)
      show "only_sent c P w (snd x)"
      proof (cases r)
        case (Inl e)
        with 1(2) r here show ?thesis by auto
      next
        case (Inr b)
        let ?yields = "rb_rows b \<noteq> [] \<or> first"
        show ?thesis
        proof (cases "?yields \<and> wanted = Some 1 \<or> next_page k b = None")
          case True
          with 1(2) r Inr here show ?thesis by (auto simp: Let_def split: if_splits)
        next
          case False
          then obtain k' where "next_page k b = Some k'" "\<not> (?yields \<and> wanted = Some 1)" by auto
          with 1(2) r Inr obtain y where
            "pgs fetch next_page (if ?yields then map_option (\<lambda>n. n - 1) wanted else wanted) k' False w1 = Some y" "snd x = snd y"
            by (auto simp: Let_def bind_eq_Some_conv split: if_splits)
          with 1(1) quiet here show ?thesis by (metis only_sent_trans)
        qed
      qed
    qed
  qed
  with assms(1) show ?thesis by blast
qed

definition reads_cursor :: "string \<times> DbValue list \<times> int option \<Rightarrow> bool" where
  "reads_cursor e \<longleftrightarrow> fst e = ''BEGIN'' \<or> fst e = ''SET LOCAL TIME ZONE '' @ sq # ''UTC'' @ [sq]
     \<or> prefix ''DECLARE tsmyadmin_export NO SCROLL CURSOR FOR SELECT '' (fst e) \<or> prefix ''FETCH '' (fst e)
     \<or> fst e = ''CLOSE tsmyadmin_export''"

definition ends_transaction :: "string \<times> DbValue list \<times> int option \<Rightarrow> bool" where
  "ends_transaction e \<longleftrightarrow> fst e = ''ROLLBACK'' \<or> fst e = ''COMMIT'' \<and> snd (snd e) \<noteq> None"

text \<open>One transaction, whole: what the scan sends, then its end.\<close>

definition one_transaction :: "(string \<times> DbValue list \<times> int option) list \<Rightarrow> bool" where
  "one_transaction es \<longleftrightarrow> (\<exists>body stop. es = body @ [stop] \<and> ends_transaction stop
     \<and> list_all (\<lambda>e. reads_cursor e \<or> fst e = ''COMMIT'') body)"

abbreviation in_scan :: "string \<times> DbValue list \<times> int option \<Rightarrow> bool" where
  "in_scan e \<equiv> reads_cursor e \<or> fst e = ''COMMIT''"

lemma select_source: "pgScanSource ns table schema = Inr source \<Longrightarrow> prefix ''SELECT '' source"
  by (auto simp: pgScanSource_def Let_def rbind_eq_Inr)

lemma rollback_ends: "only_sent c P w w1 \<Longrightarrow>
    \<exists>es. wo_log (snd (pg_rollback sv c w1)) = wo_log w @ sent c es \<and> (\<exists>body n. es = body @ [(''ROLLBACK'', [], n)] \<and> list_all P body)"
proof -
  assume "only_sent c P w w1"
  then obtain es where es: "wo_log w1 = wo_log w @ sent c es" "list_all P es" unfolding only_sent_def by blast
  obtain n where "wo_log (snd (pg_rollback sv c w1)) = wo_log w1 @ sent c [(''ROLLBACK'', [], n)]"
  proof -
    obtain r db where "sv_query sv c ''ROLLBACK'' [] (wo_db w1) = (r, db)" by fastforce
    then show ?thesis using that
      by (cases r) (auto simp: pg_rollback_def catch_def conn_query_def ret_def sent_def)
  qed
  with es have "wo_log (snd (pg_rollback sv c w1)) = wo_log w @ sent c (es @ [(''ROLLBACK'', [], n)])" by (simp add: sent_def)
  with es(2) show ?thesis by blast
qed

lemma rolled_back: "only_sent c in_scan w w1 \<Longrightarrow>
    \<exists>es. wo_log (snd (pg_rollback sv c w1)) = wo_log w @ sent c es \<and> one_transaction es"
  using rollback_ends [of c in_scan w w1 sv] unfolding one_transaction_def ends_transaction_def by fastforce

lemma opening_sends: "prefix ''SELECT '' source \<Longrightarrow> only_sent c in_scan w (snd (pg_opening sv c source utc w))"
  unfolding pg_opening_def
  by (intro only_sent_bind only_sent_query)
    (auto simp: reads_cursor_def ret_def only_sent_refl intro!: only_sent_query)

lemma fetching_sends: "only_sent c in_scan w (snd (pg_page sv c n k w))"
  unfolding pg_page_def
  by (intro only_sent_bind only_sent_query) (auto simp: reads_cursor_def FETCH_SQL_def ret_def only_sent_refl)

lemma closing_sends: "only_sent c in_scan w (snd (pg_closing sv c w))"
  unfolding pg_closing_def
  by (intro only_sent_bind only_sent_query) (auto simp: reads_cursor_def ret_def only_sent_refl)

lemma conn_query_sent: "conn_query sv c sql ps w = (Inr x, w') \<Longrightarrow>
    wo_log w' = wo_log w @ [Sent c sql ps (Some (rr_affectedRows x))]"
  by (auto simp: conn_query_def split: prod.splits sum.splits)

lemma closing_commits:
  assumes "pg_closing sv c w = (Inr u, w')"
  shows "\<exists>body n. wo_log w' = wo_log w @ sent c (body @ [(''COMMIT'', [], Some n)]) \<and> list_all in_scan body"
proof -
  from assms obtain x y w1 where "conn_query sv c ''CLOSE tsmyadmin_export'' [] w = (Inr x, w1)"
    "conn_query sv c ''COMMIT'' [] w1 = (Inr y, w')"
    unfolding pg_closing_def by (auto simp: bind_Inr ret_def)
  from conn_query_sent [OF this(1)] conn_query_sent [OF this(2)]
  have "wo_log w' = wo_log w @ sent c ([(''CLOSE tsmyadmin_export'', [], Some (rr_affectedRows x))]
      @ [(''COMMIT'', [], Some (rr_affectedRows y))])" by (simp add: sent_def)
  moreover have "list_all in_scan [(''CLOSE tsmyadmin_export'', [], Some (rr_affectedRows x))]" by (simp add: reads_cursor_def)
  ultimately show ?thesis by blast
qed

lemma pg_scan_transaction:
  assumes source: "prefix ''SELECT '' source" and scan: "pg_scan sv c source n utc wanted w = Some (out, w')"
  shows "\<exists>es. wo_log w' = wo_log w @ sent c es \<and> one_transaction es"
proof -
  obtain r w1 where opened: "pg_opening sv c source utc w = (r, w1)" by fastforce
  with opening_sends [OF source, of c w sv utc] have first: "only_sent c in_scan w w1" by simp
  show ?thesis
  proof (cases r)
    case (Inl e)
    with scan opened rolled_back [OF first] show ?thesis by (auto simp: pg_scan_def)
  next
    case (Inr u)
    with scan opened obtain bs ended w2 where loop: "pages (pg_page sv c n) (pg_next n) wanted () True w1 = Some ((bs, ended), w2)"
      by (auto simp: pg_scan_def bind_eq_Some_conv)
    from pages_send [OF fetching_sends loop] first have so_far: "only_sent c in_scan w w2" by (auto intro: only_sent_trans)
    show ?thesis
    proof (cases "ended = Finished")
      case False
      with scan opened Inr loop rolled_back [OF so_far] show ?thesis by (auto simp: pg_scan_def)
    next
      case True
      obtain r3 w3 where closing: "pg_closing sv c w2 = (r3, w3)" by fastforce
      show ?thesis
      proof (cases r3)
        case (Inl e)
        from closing_sends [of c w2 sv] closing so_far have "only_sent c in_scan w w3" by (auto intro: only_sent_trans)
        with scan opened Inr loop True closing Inl rolled_back show ?thesis by (auto simp: pg_scan_def)
      next
        case ok: (Inr v)
        from closing_commits [OF closing [unfolded ok]] obtain body m where
          last: "wo_log w3 = wo_log w2 @ sent c (body @ [(''COMMIT'', [], Some m)])" "list_all in_scan body" by blast
        obtain es where es: "wo_log w2 = wo_log w @ sent c es" "list_all in_scan es" using so_far unfolding only_sent_def by blast
        have "w' = w3" using scan opened Inr loop True closing ok by (auto simp: pg_scan_def)
        with last es have "wo_log w' = wo_log w @ sent c ((es @ body) @ [(''COMMIT'', [], Some m)])"
          "list_all in_scan (es @ body)" by (simp_all add: sent_def)
        then show ?thesis unfolding one_transaction_def ends_transaction_def by fastforce
      qed
    qed
  qed
qed

subsection \<open>The theorems\<close>



text \<open>The same of PostgreSQL's cursor, up to the COMMIT, which the server may still refuse.\<close>

lemma pg_scan_reads:
  assumes "pg_opening sv c source utc w = (Inr (), w1)" and "place (wo_db w1) = Some 0" and "cursor_fetches sv c n rows place"
    and "wanted \<noteq> Some 0"
  shows "\<exists>bs ended w'. pg_scan sv c source n utc wanted w = Some ((bs, ended), w')
    \<and> concat (map rb_rows bs) = (case wanted of None \<Rightarrow> rows | Some k \<Rightarrow> take (k * n) rows) \<and> (\<forall>b \<in> set bs. length (rb_rows b) \<le> n)"
proof -
  have "cursor_at sv c n rows place () 0 w1" using assms(2,3) by (simp add: cursor_at_def)
  from cursor.reads_all [OF this assms(4), where first = True] obtain bs ended w2 where
    "pages (pg_page sv c n) (pg_next n) wanted () True w1 = Some ((bs, ended), w2)"
    "concat (map rb_rows bs) = (case wanted of None \<Rightarrow> rows | Some k \<Rightarrow> take (k * n) rows)"
    "\<forall>b \<in> set bs. length (rb_rows b) \<le> n"
    unfolding cursor.asked_def drop_0 by blast
  with assms(1) show ?thesis by (auto simp: pg_scan_def split: prod.splits sum.splits)
qed

text \<open>
  After a scan in UTC the session is reset, which takes its statement timeout back to the server's own, and the adapter
  still holds the timeout it had set: the next scan on the connection does not set it again.
\<close>

lemma borrow_applied: "borrow sv ns ms w = (Inr c, w') \<Longrightarrow> wo_applied w' c = Some ms"
  by (auto simp: borrow_def bind_Inr catch_def raise_def ret_def set_applied_def release_def split: if_splits prod.splits sum.splits)

lemma mysql_page_sends: "only_sent c (\<lambda>e. True) w (snd (mysql_page sv c plan k w))"
  by (auto simp: mysql_page_def within_def raise_def only_sent_refl ret_def split: prod.split sum.split
      intro!: only_sent_bind only_sent_query)

lemma utc_scan_keeps_timeout:
  assumes "mysqlScanPlan ns table schema (resolveRowKey Mysql schema) n = Inr plan"
    and "borrow sv ns 0 w = (Inr c, w1)"
    and "mysql_iterateRows sv None reset ns table n (Some schema) True wanted w = Some (out, w')"
  shows "wo_applied w' c = Some 0 \<and> (\<exists>db. wo_db w' = sv_release sv c (reset c db))"
proof -
  from assms obtain w2 where scan: "mysqlScanRows sv None c plan True wanted w1 = Some (out, w2)"
    and w': "w' = snd (release sv c (w2\<lparr>wo_db := reset c (wo_db w2)\<rparr>))"
    by (auto simp: mysql_iterateRows_def bind_def lift_def ret_def bind_eq_Some_conv Let_def)
  let ?sql = "''SET SESSION time_zone = '' @ sq # ''+00:00'' @ [sq]"
  obtain r w3 where set: "conn_query sv c ?sql [] w1 = (r, w3)" by fastforce
  with only_sent_query [of "\<lambda>e. True" ?sql "[]" c w1 sv] have quiet: "only_sent c (\<lambda>e. True) w1 w3" by simp
  have "only_sent c (\<lambda>e. True) w1 w2"
  proof (cases r)
    case (Inl e)
    with scan set quiet show ?thesis by (simp add: mysqlScanRows_def)
  next
    case (Inr x)
    with scan set have "pages (mysql_page sv c plan) (mysql_next plan) wanted None True w3 = Some (out, w2)"
      by (simp add: mysqlScanRows_def split: if_splits)
    from pages_send [OF mysql_page_sends this] quiet show ?thesis by (auto intro: only_sent_trans)
  qed
  with borrow_applied [OF assms(2)] w' show ?thesis by (auto simp: only_sent_def release_def)
qed

subsection \<open>Samples\<close>

definition sample_column :: "string \<Rightarrow> ColumnDef" where
  "sample_column n = \<lparr>co_name = n, co_dataType = ''int'', co_nullable = False, co_default = None,
     co_defaultIsExpression = False, co_extra = [], co_comment = None, co_collation = None, co_check = None,
     co_generated = None\<rparr>"

definition scan_schema :: TableSchema where
  "scan_schema = \<lparr>tb_name = ''t'', tb_kind = KTable, tb_comment = None, tb_engine = None, tb_rowEstimate = None,
     tb_partitioned = False, tb_hasChildren = False, tb_inherits = [], tb_collation = None, tb_autoIncrement = None,
     tb_columns = [sample_column ''id'', sample_column ''v''], tb_primaryKey = [''id''], tb_indexes = [],
     tb_unusableIndexes = None, tb_foreignKeys = [], tb_referencedBy = []\<rparr>"

definition scan_ns :: Namespace where "scan_ns = \<lparr>ns_database = ''d'', ns_schema = None\<rparr>"

definition scan_row :: "nat \<Rightarrow> Cell list" where
  "scan_row n = [CString (show_nat n), CString ''x'']"

definition scan_rows :: "Cell list list" where "scan_rows = map scan_row [1, 2, 3]"

fun text_below :: "DbValue list \<Rightarrow> DbValue list \<Rightarrow> bool" where
  "text_below [DbCell (CString a)] [DbCell (CString b)] = (read_nat a < read_nat b)"
| "text_below _ _ = False"

text \<open>A server with this one table, which answers a page by the values bound, and a FETCH from the place it keeps.\<close>

definition table_query :: "nat \<Rightarrow> string \<Rightarrow> DbValue list \<Rightarrow> (nat, QueryResponse) run" where
  "table_query c sql ps db = (Inr (One (no_result\<lparr>rr_rows := (case ps of
     [limit] \<Rightarrow> take 2 scan_rows
   | [key, limit] \<Rightarrow> take 2 (filter (\<lambda>row. text_below [key] [db_value (key_cell row 0)]) scan_rows)
   | _ \<Rightarrow> if prefix ''FETCH '' sql then take 2 (drop db scan_rows) else []), rr_hasRows := True\<rparr>)),
     if prefix ''FETCH '' sql then db + 2 else 0)"

definition table_server :: "nat Server" where
  "table_server = \<lparr>sv_acquire = (\<lambda>ns. ret 4), sv_setTimeout = (\<lambda>c ms. ret ()), sv_query = table_query,
     sv_release = (\<lambda>c db. db), sv_forget = (\<lambda>c db. db), sv_startProfiling = (\<lambda>c. ret False),
     sv_readProfile = (\<lambda>c. ret None), sv_describe = (\<lambda>ns t. raise (Adapter (AdapterError NOT_FOUND t))),
     sv_toAdapterError = AdapterError QUERY_FAILED\<rparr>"

definition table_world :: "nat World" where
  "table_world = \<lparr>wo_db = 0, wo_applied = Map.empty, wo_log = []\<rparr>"

definition scan_plan :: ScanPlan where
  "scan_plan = projr (mysqlScanPlan scan_ns ''t'' scan_schema (resolveRowKey Mysql scan_schema) 2)"

lemma scan_plan_is:
  "mysqlScanPlan scan_ns ''t'' scan_schema (resolveRowKey Mysql scan_schema) 2 = Inr scan_plan
    \<and> sp_keyIndexes scan_plan = [0] \<and> sp_keyTypes scan_plan = [''int''] \<and> sp_batchSize scan_plan = 2 \<and> \<not> sp_single scan_plan"
  by code_simp

lemmas sample_borrow = borrow_def acquire_def table_server_def table_world_def

lemma table_borrows:
  "borrow table_server scan_ns 0 table_world = (Inr 4, \<lparr>wo_db = 0, wo_applied = Map.empty(4 \<mapsto> 0), wo_log = [Took 4, TimeoutSet 4 0]\<rparr>)"
  by (simp add: borrow_def acquire_def table_server_def table_world_def bind_def on_db_def log_event_def ret_def catch_def
      setStatementTimeout_def set_applied_def)

lemma scan_rows_keys: "map (key_values scan_plan) scan_rows = [[DbCell (CString ''1'')], [DbCell (CString ''2'')], [DbCell (CString ''3'')]]"
  by code_simp

lemma sample_keyed: "keyed_table scan_plan text_below scan_rows"
proof -
  have "\<not> text_below b a" if "text_below a b" for a b using that by (cases "(a, b)" rule: text_below.cases) auto
  moreover have "sorted_wrt text_below (map (key_values scan_plan) scan_rows)" unfolding scan_rows_keys by code_simp
  moreover have "\<forall>row \<in> set scan_rows. \<forall>i \<in> set (sp_keyIndexes scan_plan). whole_cell (key_cell row i)" by code_simp
  ultimately show ?thesis using scan_plan_is by (simp add: keyed_table_def sorted_wrt_map)
qed

lemma sample_values:
  "pageStatement scan_plan lastRow (new_params Mysql False) = (Inr sql, p) \<Longrightarrow>
    pa_values p = (case lastRow of None \<Rightarrow> [] | Some row \<Rightarrow> [db_value (key_cell row 0)]) @ [number_value 2]"
  using scan_plan_is
  by (cases lastRow) (auto simp: pageStatement_def after_key_def bind_Inr ret_def add_value_def add_param_def Let_def new_params_def
      dest!: add_cell_values split: if_splits sum.splits)

lemma sample_answers: "keyset_answers table_server 4 scan_plan text_below scan_rows"
  unfolding keyset_answers_def
proof (intro ballI allI impI)
  fix lastRow sql p db
  assume "pageStatement scan_plan lastRow (new_params Mysql False) = (Inr sql, p)"
  from sample_values [OF this] show "\<exists>r db'. sv_query table_server 4 sql (pa_values p) db = (Inr (One r), db')
        \<and> rr_rows r = take (sp_batchSize scan_plan) (rows_after scan_plan text_below scan_rows lastRow)"
    using scan_plan_is
    by (cases lastRow) (simp_all add: table_server_def table_query_def rows_after_def key_values_def no_result_def)
qed


text \<open>The consumer stops after one batch: the transaction is rolled back.\<close>

lemma sample_pg_scan:
  "map_option (map rb_rows \<circ> fst \<circ> fst) (pg_iterateRows table_server scan_ns ''t'' 2 (Some scan_schema) False (Some 1) table_world)
     = Some [map scan_row [1, 2]]
   \<and> isl (pgScanSource scan_ns ''t'' scan_schema) = False"
  by code_simp


end
