(* ===== verification/Xml_Io.thy ===== *)
theory Xml_Io
  imports Csv Tables Infer_Type "HOL-Library.Code_Target_Numeral"
begin

text \<open>
  XML, written and read: \<open>apps/api/src/lib/export-formats.ts\<close> (\<open>xmlBody\<close>) and the XML half of
  \<open>apps/api/src/lib/import-rows.ts\<close>.

  What depends on characters outside ASCII is an argument, the record \<open>Unicode\<close>: \<open>String.fromCodePoint\<close> beyond ASCII, the
  UTF-8 bytes of a text, which characters are U+FFFE and U+FFFF, and U+FFFD.  What the adapter reads (rows in batches,
  the structure, the definitions of views, routines and triggers) is given.
\<close>

record Unicode =
  un_chars :: "nat \<Rightarrow> string"
  un_bytes :: "string \<Rightarrow> nat list"
  un_forbidden :: "char \<Rightarrow> bool"
  un_replacement :: string

abbreviation dq :: char where "dq \<equiv> CHR 0x22"

subsection \<open>Writing\<close>

definition forbidden_char :: "Unicode \<Rightarrow> char \<Rightarrow> bool" where
  "forbidden_char u c \<longleftrightarrow> (if non_ascii c then un_forbidden u c
     else c < CHR '' '' \<and> c \<noteq> CHR 0x09 \<and> c \<noteq> CHR 0x0A \<and> c \<noteq> CHR 0x0D)"

definition xmlUnrepresentable :: "Unicode \<Rightarrow> string \<Rightarrow> bool" where
  "xmlUnrepresentable u s \<longleftrightarrow> list_ex (forbidden_char u) s"

definition xmlEscape :: "string \<Rightarrow> string" where
  "xmlEscape s = replace_char dq ''&quot;'' (replace_char (CHR ''>'') ''&gt;''
     (replace_char (CHR ''<'') ''&lt;'' (replace_char (CHR ''&'') ''&amp;'' s)))"

definition xmlAttribute :: "Unicode \<Rightarrow> string \<Rightarrow> string" where
  "xmlAttribute u s = replace_char (CHR 0x09) ''&#9;'' (replace_char (CHR 0x0A) ''&#10;'' (replace_char (CHR 0x0D) ''&#13;''
     (xmlEscape (concat (map (\<lambda>c. if forbidden_char u c then un_replacement u else [c]) s)))))"

text \<open>A tag as the templates write it.\<close>

definition attr_text :: "string \<times> string \<Rightarrow> string" where
  "attr_text a = '' '' @ fst a @ [CHR ''='', dq] @ snd a @ [dq]"

definition open_tag :: "string \<Rightarrow> (string \<times> string) list \<Rightarrow> bool \<Rightarrow> string" where
  "open_tag name attrs closed = ''<'' @ name @ concat (map attr_text attrs) @ (if closed then ''/>'' else ''>'')"

definition close_tag :: "string \<Rightarrow> string" where
  "close_tag name = ''</'' @ name @ ''>''"

definition base64_of :: "Unicode \<Rightarrow> string \<Rightarrow> string" where
  "base64_of u s = base64_encode (un_bytes u s)"

fun xmlColumn :: "Unicode \<Rightarrow> string \<Rightarrow> Cell \<Rightarrow> (string, string) result" where
  "xmlColumn u name CNull = Inr (open_tag ''column'' [(''name'', xmlEscape name), (''null'', ''true'')] True)"
| "xmlColumn u name (CBin b) =
     Inr (open_tag ''column'' [(''name'', xmlEscape name), (''encoding'', ''base64'')] False @ b @ close_tag ''column'')"
| "xmlColumn u name (CTruncated t n) = Inl ''truncated text cannot be written to an export''"
| "xmlColumn u name cell =
     Inr (if xmlUnrepresentable u (cell_raw cell)
       then open_tag ''column'' [(''name'', xmlEscape name), (''encoding'', ''base64'')] False @ base64_of u (cell_raw cell) @ close_tag ''column''
       else open_tag ''column'' [(''name'', xmlEscape name)] False @ xmlEscape (cell_raw cell) @ close_tag ''column'')"

definition NL :: string where "NL = [CHR 0x0A]"

definition row_cell :: "Cell list \<Rightarrow> nat \<Rightarrow> Cell" where
  "row_cell row i = (if i < length row then row ! i else CNull)"

definition xml_row :: "Unicode \<Rightarrow> string list \<Rightarrow> Cell list \<Rightarrow> (string, string) result" where
  "xml_row u columns row =
    rbind (rmap (\<lambda>i. rbind (xmlColumn u (columns ! i) (row_cell row i)) (\<lambda>s. Inr (''      '' @ s))) [0..<length columns]) (\<lambda>cells.
      Inr (''    '' @ open_tag ''row'' [] False @ NL @ join NL cells @ NL @ ''    '' @ close_tag ''row'' @ NL))"

text \<open>The structure of a table, as \<open>structureRows\<close> of \<open>export-documents.ts\<close> lists it.\<close>

record StructureRow =
  sr_name :: string
  sr_type :: string
  sr_nullable :: bool
  sr_default :: "string option"
  sr_key :: string
  sr_extra :: string
  sr_comment :: string

definition key_of :: "TableSchema \<Rightarrow> string \<Rightarrow> string" where
  "key_of schema name = (if name \<in> set (tb_primaryKey schema) then ''PRI''
     else if list_ex (\<lambda>i. idx_unique i \<and> idx_columns i \<noteq> [] \<and> hd (idx_columns i) = name) (tb_indexes schema) then ''UNI''
     else if list_ex (\<lambda>i. name \<in> set (idx_columns i)) (tb_indexes schema) then ''MUL'' else [])"

definition structureRows :: "TableSchema \<Rightarrow> StructureRow list" where
  "structureRows schema = map (\<lambda>c. \<lparr>sr_name = co_name c, sr_type = co_dataType c, sr_nullable = co_nullable c,
     sr_default = co_default c, sr_key = key_of schema (co_name c), sr_extra = co_extra c,
     sr_comment = (case co_comment c of None \<Rightarrow> [] | Some t \<Rightarrow> t)\<rparr>) (tb_columns schema)"

definition structure_attrs :: "StructureRow \<Rightarrow> (string \<times> string) list" where
  "structure_attrs r = [(''name'', sr_name r), (''type'', sr_type r), (''nullable'', if sr_nullable r then ''true'' else ''false'')]
     @ (case sr_default r of None \<Rightarrow> [] | Some d \<Rightarrow> [(''default'', d)])
     @ (if sr_key r = [] then [] else [(''key'', sr_key r)]) @ (if sr_extra r = [] then [] else [(''extra'', sr_extra r)])
     @ (if sr_comment r = [] then [] else [(''comment'', sr_comment r)])"

definition xmlStructure :: "Unicode \<Rightarrow> StructureRow list \<Rightarrow> string" where
  "xmlStructure u rows = ''    '' @ open_tag ''structure'' [] False @ NL
     @ concat (map (\<lambda>r. ''      '' @ open_tag ''column'' (map (\<lambda>(k, v). (k, xmlAttribute u v)) (structure_attrs r)) True @ NL) rows)
     @ ''    '' @ close_tag ''structure'' @ NL"

record XmlTable =
  xt_name :: string
  xt_structure :: "StructureRow list option"
  xt_data :: "Batch list option"

definition xml_batch :: "Unicode \<Rightarrow> Batch \<Rightarrow> (string, string) result" where
  "xml_batch u b = (if ba_rows b = [] then Inr []
     else rbind (rmap (xml_row u (ba_columns b)) (ba_rows b)) (\<lambda>rows. Inr (concat rows)))"

definition xml_table :: "Unicode \<Rightarrow> XmlTable \<Rightarrow> (string, string) result" where
  "xml_table u t =
    rbind (rmap (xml_batch u) (case xt_data t of None \<Rightarrow> [] | Some bs \<Rightarrow> bs)) (\<lambda>data.
      Inr (''  '' @ open_tag ''table'' [(''name'', xmlEscape (xt_name t))] False @ NL
        @ (case xt_structure t of None \<Rightarrow> [] | Some rows \<Rightarrow> xmlStructure u rows)
        @ concat data @ ''  '' @ close_tag ''table'' @ NL))"

definition xmlDefinition :: "Unicode \<Rightarrow> string \<Rightarrow> string \<Rightarrow> string" where
  "xmlDefinition u indent sql = (if xmlUnrepresentable u sql
     then indent @ open_tag ''definition'' [(''encoding'', ''base64'')] False @ base64_of u sql @ close_tag ''definition'' @ NL
     else indent @ open_tag ''definition'' [] False @ xmlEscape sql @ close_tag ''definition'' @ NL)"

text \<open>The objects beside the tables: a name and further attributes, and the definition, \<open>None\<close> where it could not be read.\<close>

record XmlObject =
  xo_attrs :: "(string \<times> string) list"
  xo_definition :: "string option"

definition xml_object :: "Unicode \<Rightarrow> string \<Rightarrow> XmlObject \<Rightarrow> string" where
  "xml_object u kind ob = ''    '' @ open_tag kind (map (\<lambda>(k, v). (k, xmlEscape v)) (xo_attrs ob)) False @ NL
     @ (case xo_definition ob of None \<Rightarrow> ''      '' @ open_tag ''unreadable'' [] True @ NL
          | Some sql \<Rightarrow> xmlDefinition u ''      '' sql)
     @ ''    '' @ close_tag kind @ NL"

definition xml_object_list :: "Unicode \<Rightarrow> string \<Rightarrow> string \<Rightarrow> XmlObject list \<Rightarrow> string" where
  "xml_object_list u kinds kind obs = (if obs = [] then []
     else ''  '' @ open_tag kinds [] False @ NL @ concat (map (xml_object u kind) obs) @ ''  '' @ close_tag kinds @ NL)"

text \<open>Views are a name and a definition; of routines each kind and name is written once; triggers are those of the tables.\<close>

record XmlRoutine =
  xr_name :: string
  xr_kind :: string
  xr_definition :: "string option"

record XmlTrigger =
  xg_name :: string
  xg_table :: string
  xg_timing :: string
  xg_events :: string
  xg_definition :: "string option"

fun first_of_kind :: "string list \<Rightarrow> XmlRoutine list \<Rightarrow> XmlRoutine list" where
  "first_of_kind seen [] = []"
| "first_of_kind seen (r # rs) = (let key = xr_kind r @ '':'' @ xr_name r in
     if key \<in> set seen then first_of_kind seen rs else r # first_of_kind (key # seen) rs)"

record XmlObjects =
  ob_views :: "(string \<times> string option) list option"
  ob_routines :: "XmlRoutine list option"
  ob_triggers :: "XmlTrigger list option"

definition xmlObjects :: "Unicode \<Rightarrow> string list \<Rightarrow> XmlObjects \<Rightarrow> string" where
  "xmlObjects u tables objs =
    (case ob_views objs of None \<Rightarrow> [] | Some vs \<Rightarrow> xml_object_list u ''views'' ''view''
        (map (\<lambda>(n, d). \<lparr>xo_attrs = [(''name'', n)], xo_definition = d\<rparr>) vs))
    @ (case ob_routines objs of None \<Rightarrow> [] | Some rs \<Rightarrow> xml_object_list u ''routines'' ''routine''
        (map (\<lambda>r. \<lparr>xo_attrs = [(''name'', xr_name r), (''kind'', xr_kind r)], xo_definition = xr_definition r\<rparr>) (first_of_kind [] rs)))
    @ (case ob_triggers objs of None \<Rightarrow> [] | Some ts \<Rightarrow> xml_object_list u ''triggers'' ''trigger''
        (map (\<lambda>g. \<lparr>xo_attrs = [(''name'', xg_name g), (''table'', xg_table g), (''timing'', xg_timing g), (''events'', xg_events g)],
            xo_definition = xg_definition g\<rparr>) (filter (\<lambda>g. xg_table g \<in> set tables) ts)))"

definition xml_head :: "Namespace \<Rightarrow> string" where
  "xml_head ns = ''<?xml version='' @ [dq] @ ''1.0'' @ [dq] @ '' encoding='' @ [dq] @ ''UTF-8'' @ [dq] @ ''?>'' @ NL
     @ open_tag ''export'' ((''database'', xmlEscape (ns_database ns)) #
         (case ns_schema ns of None \<Rightarrow> [] | Some s \<Rightarrow> if s = [] then [] else [(''schema'', xmlEscape s)])) False @ NL"

definition xmlBody :: "Unicode \<Rightarrow> Namespace \<Rightarrow> XmlTable list \<Rightarrow> XmlObjects \<Rightarrow> (string, string) result" where
  "xmlBody u ns tables objects =
    rbind (rmap (xml_table u) tables) (\<lambda>ts.
      Inr (xml_head ns @ concat ts @ xmlObjects u (map xt_name tables) objects @ close_tag ''export'' @ NL))"

subsection \<open>Reading\<close>

definition js_hex :: "char \<Rightarrow> bool" where
  "js_hex c \<longleftrightarrow> js_digit c \<or> (CHR ''a'' \<le> c \<and> c \<le> CHR ''f'') \<or> (CHR ''A'' \<le> c \<and> c \<le> CHR ''F'')"

definition hex_value :: "char \<Rightarrow> nat" where
  "hex_value c = (if js_digit c then of_char c - 48 else of_char (lower_char c) - 87)"

definition read_hex :: "string \<Rightarrow> nat" where
  "read_hex s = foldl (\<lambda>n c. 16 * n + hex_value c) 0 s"

text \<open>\<open>/&(#x[0-9a-f]+|#\d+|[a-z]+);/i\<close> after its ampersand: the name, and what follows the semicolon.\<close>

definition named_until :: "string \<Rightarrow> (char \<Rightarrow> bool) \<Rightarrow> string \<Rightarrow> (string \<times> string) option" where
  "named_until start p s = (let name = takeWhile p s; rest = dropWhile p s in
     case rest of c # rest' \<Rightarrow> if name \<noteq> [] \<and> c = CHR '';'' then Some (start @ name, rest') else None | [] \<Rightarrow> None)"

definition entity_at :: "string \<Rightarrow> (string \<times> string) option" where
  "entity_at s = first_some (\<lambda>f. f s)
    [\<lambda>s. if prefix ''#x'' s \<or> prefix ''#X'' s then named_until (take 2 s) js_hex (drop 2 s) else None,
     \<lambda>s. if prefix ''#'' s then named_until ''#'' js_digit (drop 1 s) else None,
     \<lambda>s. named_until [] js_alpha s]"

text \<open>\<open>ENTITIES[name]\<close>: the object literal, and what every object inherits, a function shown as V8 shows one.\<close>

definition ENTITIES :: "string \<Rightarrow> string option" where
  "ENTITIES name = (case map_of [(''amp'', ''&''), (''lt'', ''<''), (''gt'', ''>''), (''quot'', [dq]), (''apos'', [sq])] name of
     Some t \<Rightarrow> Some t
   | None \<Rightarrow> map_option (\<lambda>f. ''function '' @ f @ ''() { [native code] }'') (map_of
       ((''constructor'', ''Object'') # map (\<lambda>f. (f, f)) [''hasOwnProperty'', ''isPrototypeOf'', ''propertyIsEnumerable'',
          ''toLocaleString'', ''toString'', ''valueOf'']) name))"

definition code_text :: "Unicode \<Rightarrow> nat \<Rightarrow> string option" where
  "code_text u code = (if 0 < code \<and> code \<le> 0x10FFFF
     then Some (if code < 128 then [char_of code] else un_chars u code) else None)"

definition entity_text :: "Unicode \<Rightarrow> string \<Rightarrow> string" where
  "entity_text u name = (case (if prefix ''#'' name
       then code_text u (if prefix ''#x'' name \<or> prefix ''#X'' name then read_hex (drop 2 name) else read_nat (drop 1 name))
       else ENTITIES name) of
     Some t \<Rightarrow> t
   | None \<Rightarrow> ''&'' @ name @ '';'')"

lemma named_until_shorter:
  assumes "named_until a p s = Some (n, r)"
  shows "length r < length s"
proof -
  from assms obtain c where "dropWhile p s = c # r"
    by (auto simp: named_until_def Let_def split: list.splits if_splits)
  then have "Suc (length r) = length (dropWhile p s)" by simp
  also have "\<dots> \<le> length s" by (rule length_dropWhile_le)
  finally show ?thesis by simp
qed

lemma entity_at_shorter:
  assumes "entity_at s = Some (n, r)"
  shows "length r < length s"
proof -
  from assms consider "named_until (take 2 s) js_hex (drop 2 s) = Some (n, r)" | "named_until ''#'' js_digit (drop 1 s) = Some (n, r)"
    | "named_until [] js_alpha s = Some (n, r)"
    by (auto simp: entity_at_def simp del: drop_0 split: if_splits option.splits)
  then show ?thesis
  proof cases
    case 1
    then have "length r < length (drop 2 s)" by (rule named_until_shorter)
    then show ?thesis by simp
  next
    case 2
    then have "length r < length (drop 1 s)" by (rule named_until_shorter)
    then show ?thesis by simp
  next
    case 3
    then show ?thesis by (rule named_until_shorter)
  qed
qed

function decodeEntities :: "Unicode \<Rightarrow> string \<Rightarrow> string" where
  "decodeEntities u [] = []"
| "decodeEntities u (c # s) = (if c = CHR ''&'' then (case entity_at s of
       Some (name, rest) \<Rightarrow> entity_text u name @ decodeEntities u rest
     | None \<Rightarrow> c # decodeEntities u s)
     else c # decodeEntities u s)"
  by pat_completeness auto
termination by (relation "measure (\<lambda>(u, s). length s)") (auto dest: entity_at_shorter)

datatype XmlEvent =
  XStart string "(string \<times> string) list" bool
| XEnd string
| XText string

definition xml_name_char :: "char \<Rightarrow> bool" where
  "xml_name_char c \<longleftrightarrow> js_word c \<or> c \<in> set '':.-''"

text \<open>
  An attribute of the expression \<open>TAG\<close> at a position, with the space before it: \<open>\s+[\w:.-]+\s*=\s*(?:"[^"]*"|'[^']*')\<close>.
  No part of it can give back a character the next part could start with, so nothing is tried twice.
\<close>

definition attr_value :: "string \<Rightarrow> (string \<times> string) option" where
  "attr_value s = (case s of
     q # r \<Rightarrow> if (q = dq \<or> q = sq) \<and> q \<in> set r then Some (takeWhile (\<lambda>c. c \<noteq> q) r, tl (dropWhile (\<lambda>c. c \<noteq> q) r)) else None
   | [] \<Rightarrow> None)"

lemma attr_value_le:
  assumes "attr_value s = Some (v, rest)"
  shows "length rest \<le> length s"
proof -
  from assms obtain q r where "s = q # r" "rest = tl (dropWhile (\<lambda>c. c \<noteq> q) r)"
    by (auto simp: attr_value_def split: list.splits if_splits)
  moreover have "length (tl (dropWhile (\<lambda>c. c \<noteq> q) r)) \<le> length r"
    by (rule le_trans [OF _ length_dropWhile_le [of "\<lambda>c. c \<noteq> q"]]) simp
  ultimately show ?thesis by simp
qed

definition attr_at :: "string \<Rightarrow> ((string \<times> string) \<times> string) option" where
  "attr_at s = (let r = dropWhile js_space s; name = takeWhile xml_name_char r; r2 = dropWhile js_space (dropWhile xml_name_char r) in
     if takeWhile js_space s = [] \<or> name = [] \<or> \<not> prefix ''='' r2 then None
     else (case attr_value (dropWhile js_space (tl r2)) of
         Some (v, rest) \<Rightarrow> Some ((name, v), rest)
       | None \<Rightarrow> None))"

lemma attr_at_shorter: "attr_at s = Some (a, rest) \<Longrightarrow> length rest < length s"
proof -
  assume at: "attr_at s = Some (a, rest)"
  let ?r = "dropWhile js_space s"
  let ?r2 = "dropWhile js_space (dropWhile xml_name_char ?r)"
  let ?v = "dropWhile js_space (tl ?r2)"
  from at obtain v where v: "attr_value ?v = Some (v, rest)" and r2: "prefix ''='' ?r2"
    by (auto simp: attr_at_def Let_def split: if_splits option.splits)
  from v have "length rest \<le> length ?v" by (rule attr_value_le)
  also have "\<dots> \<le> length (tl ?r2)" by (rule length_dropWhile_le)
  also have "\<dots> < length ?r2" using r2 by (cases ?r2) auto
  also have "\<dots> \<le> length s" by (meson le_trans length_dropWhile_le)
  finally show ?thesis .
qed

function attrs_at :: "string \<Rightarrow> (string \<times> string) list \<times> string" where
  "attrs_at s = (case attr_at s of
     Some (a, rest) \<Rightarrow> (case attrs_at rest of (as, rest') \<Rightarrow> (a # as, rest'))
   | None \<Rightarrow> ([], s))"
  by pat_completeness auto
termination by (relation "measure length") (auto dest: attr_at_shorter)

declare attrs_at.simps [simp del]

lemma attrs_at_le: "length (snd (attrs_at s)) \<le> length s"
proof (induction s rule: attrs_at.induct)
  case (1 s)
  show ?case
  proof (cases "attr_at s")
    case None
    then show ?thesis by (simp add: attrs_at.simps)
  next
    case (Some x)
    obtain a rest where x: "x = (a, rest)" by (cases x)
    with Some have "attrs_at s = (a # fst (attrs_at rest), snd (attrs_at rest))"
      using x by (subst attrs_at.simps) (simp split: prod.split)
    moreover have "length (snd (attrs_at rest)) \<le> length rest" by (rule "1.IH" [OF Some x [symmetric]])
    moreover have "length rest < length s" using Some x attr_at_shorter by simp
    ultimately show ?thesis by simp
  qed
qed

text \<open>The whole tag at an opening bracket: whether it closes, its name, its attributes, whether it is empty, the rest.\<close>

definition TAG :: "string \<Rightarrow> ((bool \<times> string \<times> (string \<times> string) list \<times> bool) \<times> string) option" where
  "TAG s = (case s of c # r0 \<Rightarrow> if c \<noteq> CHR ''<'' then None
     else (let closing = prefix ''/'' r0; r1 = (if closing then tl r0 else r0); name = takeWhile xml_name_char r1 in
       if name = [] then None
       else (case attrs_at (dropWhile xml_name_char r1) of (attrs, r2) \<Rightarrow>
         (let r3 = dropWhile js_space r2; self = prefix ''/'' r3; r4 = (if self then tl r3 else r3) in
          if prefix ''>'' r4 then Some ((closing, name, attrs, self), tl r4) else None)))
   | [] \<Rightarrow> None)"

lemma TAG_shorter:
  assumes "TAG s = Some (t, rest)"
  shows "length rest < length s"
proof -
  obtain c r0 where s: "s = c # r0" using assms by (cases s) (auto simp: TAG_def)
  define r1 where "r1 = (if prefix ''/'' r0 then tl r0 else r0)"
  obtain attrs r2 where r2: "attrs_at (dropWhile xml_name_char r1) = (attrs, r2)" by fastforce
  define r3 where "r3 = dropWhile js_space r2"
  define r4 where "r4 = (if prefix ''/'' r3 then tl r3 else r3)"
  have "rest = tl r4" using assms s r2
    by (auto simp: TAG_def Let_def r1_def [symmetric] r3_def [symmetric] r4_def split: if_splits)
  then have "length rest \<le> length r4" by simp
  also have "\<dots> \<le> length r3" by (simp add: r4_def)
  also have "\<dots> \<le> length r2" by (simp add: r3_def length_dropWhile_le)
  also have "\<dots> \<le> length (dropWhile xml_name_char r1)" using attrs_at_le [of "dropWhile xml_name_char r1"] r2 by simp
  also have "\<dots> \<le> length r1" by (rule length_dropWhile_le)
  also have "\<dots> \<le> length r0" by (simp add: r1_def)
  finally show ?thesis by (simp add: s)
qed

text \<open>\<open>skipTo\<close>: past the first place a terminator ends, or to the end of the text.\<close>

definition skip_past :: "string \<Rightarrow> string \<Rightarrow> string" where
  "skip_past stop s = (case find_sub stop s of None \<Rightarrow> [] | Some k \<Rightarrow> drop (k + length stop) s)"

lemma skip_past_le: "length (skip_past stop s) \<le> length s"
  by (auto simp: skip_past_def split: option.split)

text \<open>Markup without a tag at an opening bracket: comments, processing instructions, CDATA and declarations.\<close>

definition markup_at :: "string \<Rightarrow> (XmlEvent list \<times> string) option" where
  "markup_at s =
    (if prefix ''<!--'' s then Some ([], skip_past ''-->'' (drop 4 s))
     else if prefix ''<?'' s then Some ([], skip_past ''?>'' (drop 2 s))
     else if prefix ''<![CDATA['' s then
       Some ([XText (case find_sub '']]>'' (drop 9 s) of None \<Rightarrow> drop 9 s | Some k \<Rightarrow> take k (drop 9 s))], skip_past '']]>'' (drop 9 s))
     else if prefix ''<!'' s then Some ([], skip_past ''>'' (drop 2 s))
     else None)"

lemma markup_at_shorter: "markup_at s = Some (es, rest) \<Longrightarrow> length rest < length s"
proof -
  assume at: "markup_at s = Some (es, rest)"
  from at consider "prefix ''<!--'' s" "rest = skip_past ''-->'' (drop 4 s)" | "prefix ''<?'' s" "rest = skip_past ''?>'' (drop 2 s)"
    | "prefix ''<![CDATA['' s" "rest = skip_past '']]>'' (drop 9 s)" | "prefix ''<!'' s" "rest = skip_past ''>'' (drop 2 s)"
    by (auto simp: markup_at_def split: if_split_asm)
  then obtain n stop where "0 < n" "n \<le> length s" "rest = skip_past stop (drop n s)"
  proof cases
    case 1
    then show thesis by (intro that [of 4]) (auto dest!: prefix_length_le)
  next
    case 2
    then show thesis by (intro that [of 2]) (auto dest!: prefix_length_le)
  next
    case 3
    then show thesis by (intro that [of 9]) (auto dest!: prefix_length_le)
  next
    case 4
    then show thesis by (intro that [of 2]) (auto dest!: prefix_length_le)
  qed
  moreover from this have "length rest \<le> length s - n" by (metis skip_past_le length_drop)
  ultimately show ?thesis by simp
qed

function xml_events :: "Unicode \<Rightarrow> string \<Rightarrow> XmlEvent list" where
  "xml_events u [] = []"
| "xml_events u (c # s) =
    (if c \<noteq> CHR ''<'' then XText (decodeEntities u (takeWhile (\<lambda>x. x \<noteq> CHR ''<'') (c # s)))
         # xml_events u (dropWhile (\<lambda>x. x \<noteq> CHR ''<'') s)
     else (case markup_at (c # s) of
         Some (es, rest) \<Rightarrow> es @ xml_events u rest
       | None \<Rightarrow> (case TAG (c # s) of
             None \<Rightarrow> xml_events u s
           | Some ((closing, name, attrs, self), rest) \<Rightarrow>
               (if closing then [XEnd name]
                else XStart name (map (\<lambda>(k, v). (k, decodeEntities u v)) attrs) self # (if self then [XEnd name] else []))
               @ xml_events u rest)))"
  by pat_completeness auto
termination
  by (relation "measure (\<lambda>(u, s). length s)")
    (auto simp: le_imp_less_Suc length_dropWhile_le dest!: markup_at_shorter TAG_shorter)

declare xml_events.simps [simp del]

subsection \<open>The tables of an XML file\<close>

text \<open>A \<open>Map\<close> with its order: setting a key keeps its place.\<close>

fun map_set :: "'k \<Rightarrow> 'v \<Rightarrow> ('k \<times> 'v) list \<Rightarrow> ('k \<times> 'v) list" where
  "map_set k v [] = [(k, v)]"
| "map_set k v ((k', v') # m) = (if k' = k then (k, v) # m else (k', v') # map_set k v m)"

record XmlColumn =
  xc_name :: string
  xc_null :: bool
  xc_base64 :: bool
  xc_text :: string

record TableRead =
  tr_header :: "string list"
  tr_rows :: "(nat \<times> (string \<times> RowCell) list) list"

record XmlReader =
  rd_tables :: "(string \<times> TableRead) list"
  rd_table :: string
  rd_direct :: "(string \<times> RowCell) list option"
  rd_row :: "(string \<times> RowCell) list option"
  rd_column :: "XmlColumn option"
  rd_count :: nat
  rd_structure :: bool

definition emit_row :: "bool \<Rightarrow> (string \<times> RowCell) list \<Rightarrow> XmlReader \<Rightarrow> XmlReader" where
  "emit_row skipBlank cells rd =
    (if cells = [] \<and> skipBlank then rd
     else let t = (case map_of (rd_tables rd) (rd_table rd) of Some t \<Rightarrow> t | None \<Rightarrow> \<lparr>tr_header = [], tr_rows = []\<rparr>);
              header = tr_header t @ filter (\<lambda>n. n \<notin> set (tr_header t)) (map fst cells);
              t' = \<lparr>tr_header = header, tr_rows = tr_rows t @ [(Suc (rd_count rd), cells)]\<rparr>
       in rd\<lparr>rd_count := Suc (rd_count rd), rd_tables := map_set (rd_table rd) t' (rd_tables rd)\<rparr>)"

definition attr :: "(string \<times> string) list \<Rightarrow> string \<Rightarrow> string option" where
  "attr attrs k = map_of (rev attrs) k"

definition column_value :: "XmlColumn \<Rightarrow> RowCell" where
  "column_value c = (if xc_null c then NullCell else if xc_base64 c then BytesCell (trim (xc_text c)) else TextCell (xc_text c))"

fun read_event :: "bool \<Rightarrow> XmlEvent \<Rightarrow> XmlReader \<Rightarrow> XmlReader" where
  "read_event skipBlank (XStart name attrs self) rd =
    (if name = ''table'' then
       rd\<lparr>rd_table := (case attr attrs ''name'' of Some n \<Rightarrow> n | None \<Rightarrow> ''table'' @ show_nat (Suc (length (rd_tables rd)))),
          rd_direct := Some []\<rparr>
     else if name = ''structure'' then rd\<lparr>rd_structure := True\<rparr>
     else if name = ''row'' then rd\<lparr>rd_row := Some []\<rparr>
     else (case attr attrs ''name'' of
         Some n \<Rightarrow> if name = ''column'' \<and> \<not> rd_structure rd
           then rd\<lparr>rd_column := Some \<lparr>xc_name = n, xc_null = (attr attrs ''null'' = Some ''true''),
             xc_base64 = (attr attrs ''encoding'' = Some ''base64''), xc_text = []\<rparr>\<rparr>
           else rd
       | None \<Rightarrow> rd))"
| "read_event skipBlank (XText t) rd =
    (case rd_column rd of Some c \<Rightarrow> rd\<lparr>rd_column := Some (c\<lparr>xc_text := xc_text c @ t\<rparr>)\<rparr> | None \<Rightarrow> rd)"
| "read_event skipBlank (XEnd name) rd =
    (if name = ''structure'' then rd\<lparr>rd_structure := False\<rparr>
     else if name = ''column'' \<and> rd_column rd \<noteq> None then
       (let c = the (rd_column rd); rd' = rd\<lparr>rd_column := None\<rparr> in
        case rd_row rd of
          Some cells \<Rightarrow> rd'\<lparr>rd_row := Some (map_set (xc_name c) (column_value c) cells)\<rparr>
        | None \<Rightarrow> (case rd_direct rd of
              Some cells \<Rightarrow> rd'\<lparr>rd_direct := Some (map_set (xc_name c) (column_value c) cells)\<rparr>
            | None \<Rightarrow> rd'))
     else if name = ''row'' \<and> rd_row rd \<noteq> None then (emit_row skipBlank (the (rd_row rd)) rd)\<lparr>rd_row := None\<rparr>
     else if name = ''table'' then
       (case rd_direct rd of
          Some cells \<Rightarrow> (if cells \<noteq> [] then emit_row skipBlank cells rd else rd)\<lparr>rd_direct := None\<rparr>
        | None \<Rightarrow> rd)
     else rd)"

definition reader_init :: XmlReader where
  "reader_init = \<lparr>rd_tables = [], rd_table = [], rd_direct = None, rd_row = None, rd_column = None, rd_count = 0,
     rd_structure = False\<rparr>"

text \<open>A row that lacks a column the table has elsewhere is NULL there.\<close>

definition table_read :: "string \<times> TableRead \<Rightarrow> string \<times> string list \<times> (nat \<times> RowCell list) list" where
  "table_read nt = (fst nt, tr_header (snd nt), map (\<lambda>(line, cells). (line,
     map (\<lambda>h. case map_of cells h of Some c \<Rightarrow> c | None \<Rightarrow> NullCell) (tr_header (snd nt)))) (tr_rows (snd nt)))"

definition readXmlTables :: "Unicode \<Rightarrow> bool \<Rightarrow> string \<Rightarrow> (string \<times> string list \<times> (nat \<times> RowCell list) list) list" where
  "readXmlTables u skipBlank xml = map table_read (rd_tables (fold (read_event skipBlank) (xml_events u xml) reader_init))"

subsection \<open>What is escaped reads back\<close>

definition escaped_char :: "char \<Rightarrow> string" where
  "escaped_char c = (if c = CHR ''&'' then ''&amp;'' else if c = CHR ''<'' then ''&lt;'' else if c = CHR ''>'' then ''&gt;''
     else if c = dq then ''&quot;'' else [c])"

lemma xmlEscape_map: "xmlEscape s = concat (map escaped_char s)"
  by (induction s) (auto simp: xmlEscape_def escaped_char_def)

lemma decode_escaped: "decodeEntities u (escaped_char c @ s) = c # decodeEntities u s"
  by (auto simp: escaped_char_def entity_at_def named_until_def entity_text_def ENTITIES_def js_alpha_def)

lemma decode_xmlEscape: "decodeEntities u (xmlEscape s) = s"
  by (induction s) (simp_all add: xmlEscape_map decode_escaped)

lemma xmlEscape_chars: "CHR ''<'' \<notin> set (xmlEscape s)" "dq \<notin> set (xmlEscape s)"
  by (auto simp: xmlEscape_map escaped_char_def split: if_splits)

lemma xmlAttribute_chars: "dq \<notin> set (xmlAttribute u s)"
proof -
  have keep: "dq \<notin> set (replace_char q r t)" if "dq \<notin> set t" "dq \<notin> set r" for q r t
    using that by (auto simp: replace_char_def)
  show ?thesis unfolding xmlAttribute_def by (intro keep xmlEscape_chars) auto
qed

subsection \<open>Tags\<close>

definition tag_name :: "string \<Rightarrow> bool" where
  "tag_name n \<longleftrightarrow> n \<noteq> [] \<and> list_all xml_name_char n"

definition attr_ok :: "string \<times> string \<Rightarrow> bool" where
  "attr_ok a \<longleftrightarrow> tag_name (fst a) \<and> dq \<notin> set (snd a)"

lemma name_char_not: "xml_name_char c \<Longrightarrow> \<not> js_space c \<and> c \<notin> set ''=/>?!<''"
  using js_space_not_word js_digit_not_space
  by (auto simp: xml_name_char_def js_word_def js_alpha_def js_digit_def js_space_def)

lemma take_name: "tag_name n \<Longrightarrow> r = [] \<or> \<not> xml_name_char (hd r) \<Longrightarrow>
    takeWhile xml_name_char (n @ r) = n \<and> dropWhile xml_name_char (n @ r) = r"
  by (cases r) (auto simp: tag_name_def list_all_iff takeWhile_append dropWhile_append)

lemma no_name_chars: "\<not> xml_name_char (CHR ''='')" "\<not> xml_name_char (CHR '' '')" "\<not> xml_name_char (CHR ''/'')" "\<not> xml_name_char (CHR ''>'')"
  by code_simp+

lemma space_chars: "js_space (CHR '' '')" "\<not> js_space (CHR ''='')" "\<not> js_space dq" "\<not> js_space (CHR ''/'')" "\<not> js_space (CHR ''>'')"
  by (simp_all add: js_space_def)

lemma name_start: "tag_name n \<Longrightarrow> dropWhile js_space (n @ r) = n @ r"
  by (cases n) (auto simp: tag_name_def dest: name_char_not)

lemma attr_value_text: "dq \<notin> set v \<Longrightarrow> attr_value (dq # v @ dq # r) = Some (v, r)"
  by (induction v) (auto simp: attr_value_def)

lemma attr_at_text: "attr_ok a \<Longrightarrow> attr_at (attr_text a @ r) = Some (a, r)"
proof -
  assume ok: "attr_ok a"
  obtain k v where a: "a = (k, v)" by (cases a)
  have "takeWhile xml_name_char (k @ CHR ''='' # dq # v @ dq # r) = k"
    "dropWhile xml_name_char (k @ CHR ''='' # dq # v @ dq # r) = CHR ''='' # dq # v @ dq # r"
    using take_name [of k "CHR ''='' # dq # v @ dq # r"] ok a by (simp_all add: attr_ok_def no_name_chars)
  with ok a show ?thesis
    by (simp add: attr_at_def attr_text_def Let_def space_chars name_start attr_value_text attr_ok_def tag_name_def)
qed

lemma attrs_at_text:
  assumes "list_all attr_ok attrs" and "r \<noteq> []" and "hd r = CHR ''/'' \<or> hd r = CHR ''>''"
  shows "attrs_at (concat (map attr_text attrs) @ r) = (attrs, r)"
  using assms(1)
proof (induction attrs)
  case Nil
  from assms(2,3) have "attr_at r = None" by (cases r) (auto simp: attr_at_def Let_def space_chars)
  then show ?case by (subst attrs_at.simps) simp
next
  case (Cons a attrs)
  then show ?case by (subst attrs_at.simps) (simp add: attr_at_text)
qed

lemma TAG_open:
  assumes "tag_name n" and "list_all attr_ok attrs"
  shows "TAG (open_tag n attrs closed @ r) = Some ((False, n, attrs, closed), r)"
proof -
  let ?fin = "(if closed then ''/>'' else ''>'') @ r"
  have stop: "?fin \<noteq> []" "hd ?fin = CHR ''/'' \<or> hd ?fin = CHR ''>''" by auto
  have edge: "hd (concat (map attr_text attrs) @ ?fin) \<in> {CHR '' '', CHR ''/'', CHR ''>''}"
    by (cases attrs) (auto simp: attr_text_def)
  then have "\<not> xml_name_char (hd (concat (map attr_text attrs) @ ?fin))" using no_name_chars by auto
  with take_name [OF assms(1)] have name: "takeWhile xml_name_char (n @ concat (map attr_text attrs) @ ?fin) = n"
    "dropWhile xml_name_char (n @ concat (map attr_text attrs) @ ?fin) = concat (map attr_text attrs) @ ?fin" by blast+
  have "\<not> prefix ''/'' (n @ concat (map attr_text attrs) @ ?fin)" "n \<noteq> []"
    using assms(1) by (cases n; auto simp: tag_name_def dest: name_char_not)+
  moreover have "attrs_at (concat (map attr_text attrs) @ ?fin) = (attrs, ?fin)" by (rule attrs_at_text [OF assms(2) stop])
  ultimately show ?thesis
    using name by (cases closed) (simp_all add: open_tag_def TAG_def Let_def space_chars)
qed

lemma TAG_close:
  assumes "tag_name n"
  shows "TAG (close_tag n @ r) = Some ((True, n, [], False), r)"
proof -
  have "takeWhile xml_name_char (n @ ''>'' @ r) = n" "dropWhile xml_name_char (n @ ''>'' @ r) = ''>'' @ r"
    using take_name [OF assms, of "''>'' @ r"] by (simp_all add: no_name_chars)
  moreover have "attrs_at (''>'' @ r) = ([], ''>'' @ r)" using attrs_at_text [of "[]" "''>'' @ r"] by simp
  ultimately show ?thesis using assms
    by (simp add: close_tag_def TAG_def Let_def space_chars tag_name_def)
qed

lemma no_markup:
  assumes "c \<noteq> CHR ''!''" and "c \<noteq> CHR ''?''"
  shows "markup_at (CHR ''<'' # c # r) = None"
  using assms by (simp add: markup_at_def)

text \<open>What the reader makes of a text, from a state.\<close>

definition xml_read :: "Unicode \<Rightarrow> string \<Rightarrow> XmlReader \<Rightarrow> XmlReader" where
  "xml_read u s rd = fold (read_event True) (xml_events u s) rd"

lemma read_open:
  assumes "tag_name n" and "list_all attr_ok attrs"
  shows "xml_read u (open_tag n attrs closed @ r) rd = xml_read u r
    ((if closed then read_event True (XEnd n) else id)
      (read_event True (XStart n (map (\<lambda>(k, v). (k, decodeEntities u v)) attrs) closed) rd))"
proof -
  obtain c n' where n: "n = c # n'" "c \<noteq> CHR ''!''" "c \<noteq> CHR ''?''"
    using assms(1) name_char_not by (cases n) (auto simp: tag_name_def)
  then have "markup_at (open_tag n attrs closed @ r) = None" by (simp add: open_tag_def no_markup)
  moreover obtain s where "open_tag n attrs closed @ r = CHR ''<'' # s" by (simp add: open_tag_def)
  ultimately have "xml_events u (open_tag n attrs closed @ r) = XStart n (map (\<lambda>(k, v). (k, decodeEntities u v)) attrs) closed
      # (if closed then [XEnd n] else []) @ xml_events u r"
    using TAG_open [OF assms, of closed r] by (simp add: xml_events.simps(2))
  then show ?thesis by (simp add: xml_read_def)
qed

lemma read_close:
  assumes "tag_name n"
  shows "xml_read u (close_tag n @ r) rd = xml_read u r (read_event True (XEnd n) rd)"
proof -
  have "markup_at (close_tag n @ r) = None" by (simp add: close_tag_def no_markup)
  moreover obtain s where "close_tag n @ r = CHR ''<'' # s" by (simp add: close_tag_def)
  ultimately have "xml_events u (close_tag n @ r) = XEnd n # xml_events u r"
    using TAG_close [OF assms, of r] by (simp add: xml_events.simps(2))
  then show ?thesis by (simp add: xml_read_def)
qed

text \<open>Text outside a column says nothing.\<close>

lemma events_text:
  assumes "CHR ''<'' \<notin> set t" and "t \<noteq> []"
  shows "xml_events u (t @ s) = XText (decodeEntities u (t @ takeWhile (\<lambda>x. x \<noteq> CHR ''<'') s))
    # xml_events u (dropWhile (\<lambda>x. x \<noteq> CHR ''<'') s)"
proof -
  obtain c t' where "t = c # t'" using assms(2) by (cases t) auto
  with assms(1) show ?thesis
    by (simp add: xml_events.simps(2) takeWhile_append dropWhile_append takeWhile_eq_all_conv dropWhile_eq_Nil_conv)
       (metis (mono_tags, lifting) takeWhile_eq_all_conv takeWhile_append2)
qed

lemma read_skip:
  assumes "CHR ''<'' \<notin> set t" and "rd_column rd = None"
  shows "xml_read u (t @ s) rd = xml_read u s rd"
proof (cases "t = []")
  case False
  then have t: "xml_read u (t @ s) rd = xml_read u (dropWhile (\<lambda>x. x \<noteq> CHR ''<'') s) rd"
    using assms by (simp add: xml_read_def events_text)
  show ?thesis
  proof (cases "takeWhile (\<lambda>x. x \<noteq> CHR ''<'') s = []")
    case True
    with t show ?thesis by (cases s) (auto split: if_splits)
  next
    case nonempty: False
    have "CHR ''<'' \<notin> set (takeWhile (\<lambda>x. x \<noteq> CHR ''<'') s)" by (auto dest: set_takeWhileD)
    from events_text [OF this nonempty, of u "dropWhile (\<lambda>x. x \<noteq> CHR ''<'') s"]
    have "xml_read u s rd = xml_read u (dropWhile (\<lambda>x. x \<noteq> CHR ''<'') s) rd"
      using assms(2) by (simp add: xml_read_def takeWhile_dropWhile_id dropWhile_idem)
    with t show ?thesis by simp
  qed
qed simp

text \<open>Inside a column it is the value.\<close>

lemma read_value:
  assumes "CHR ''<'' \<notin> set t" and "rd_column rd = Some c" and "tag_name n"
  shows "xml_read u (t @ close_tag n @ r) rd
    = xml_read u r (read_event True (XEnd n) (rd\<lparr>rd_column := Some (c\<lparr>xc_text := xc_text c @ decodeEntities u t\<rparr>)\<rparr>))"
proof (cases "t = []")
  case True
  have "rd\<lparr>rd_column := Some (c\<lparr>xc_text := xc_text c @ decodeEntities u t\<rparr>)\<rparr> = rd"
    using True assms(2) by (cases rd) simp
  with True assms(3) show ?thesis by (simp add: read_close)
next
  case False
  have "takeWhile (\<lambda>x. x \<noteq> CHR ''<'') (close_tag n @ r) = []" "dropWhile (\<lambda>x. x \<noteq> CHR ''<'') (close_tag n @ r) = close_tag n @ r"
    by (simp_all add: close_tag_def)
  with events_text [OF assms(1) False, of u "close_tag n @ r"]
  have "xml_read u (t @ close_tag n @ r) rd
      = xml_read u (close_tag n @ r) (rd\<lparr>rd_column := Some (c\<lparr>xc_text := xc_text c @ decodeEntities u t\<rparr>)\<rparr>)"
    using assms(2) by (simp add: xml_read_def)
  with assms(3) show ?thesis by (simp add: read_close)
qed

subsection \<open>A row, a table, a file\<close>

named_theorems xml_steps \<open>how the reader goes over what was written\<close>

lemma tag_names [simp]: "tag_name ''column''" "tag_name ''row''" "tag_name ''table''" "tag_name ''structure''" "tag_name ''export''"
  "tag_name ''definition''" "tag_name ''unreadable''" "tag_name ''views''" "tag_name ''view''" "tag_name ''routines''"
  "tag_name ''routine''" "tag_name ''triggers''" "tag_name ''trigger''"
  by code_simp+

lemma attr_names [simp]: "tag_name ''name''" "tag_name ''null''" "tag_name ''encoding''" "tag_name ''database''" "tag_name ''schema''"
  "tag_name ''kind''" "tag_name ''timing''" "tag_name ''events''" "tag_name ''type''" "tag_name ''nullable''" "tag_name ''default''"
  "tag_name ''key''" "tag_name ''extra''" "tag_name ''comment''"
  by code_simp+

lemma attr_ok_pair [simp]: "attr_ok (k, v) \<longleftrightarrow> tag_name k \<and> dq \<notin> set v"
  by (simp add: attr_ok_def)

lemma decode_plain: "CHR ''&'' \<notin> set s \<Longrightarrow> decodeEntities u s = s"
  by (induction s) auto

text \<open>What a cell is read back as.\<close>

definition base64_text :: "string \<Rightarrow> bool" where
  "base64_text b \<longleftrightarrow> list_all (\<lambda>c. js_alpha c \<or> js_digit c \<or> c \<in> set ''+/='') b"

definition imported_cell :: "Unicode \<Rightarrow> Cell \<Rightarrow> RowCell" where
  "imported_cell u cell = (case cell of
     CNull \<Rightarrow> NullCell
   | CBin b \<Rightarrow> BytesCell b
   | _ \<Rightarrow> if xmlUnrepresentable u (cell_raw cell) then BytesCell (base64_of u (cell_raw cell)) else TextCell (cell_raw cell))"

fun cell_ok :: "Cell \<Rightarrow> bool" where
  "cell_ok (CBin b) = base64_text b"
| "cell_ok _ = True"

definition bytes_ok :: "Unicode \<Rightarrow> bool" where
  "bytes_ok u \<longleftrightarrow> (\<forall>s. \<forall>b \<in> set (un_bytes u s). b < 256)"

lemma base64_char_text: "n < 64 \<Longrightarrow> base64_text [base64_char n]"
proof -
  have "list_all (\<lambda>n. base64_text [base64_char n]) [0..<64]" by code_simp
  then show "n < 64 \<Longrightarrow> base64_text [base64_char n]" by (simp add: list_all_iff)
qed

lemma base64_text_append: "base64_text (a @ b) \<longleftrightarrow> base64_text a \<and> base64_text b"
  by (simp add: base64_text_def)

lemma base64_text_Cons: "base64_text (c # s) \<longleftrightarrow> base64_text [c] \<and> base64_text s"
  by (simp add: base64_text_def)

lemma base64_encode_text: "\<forall>b \<in> set bs. b < 256 \<Longrightarrow> base64_text (base64_encode bs)"
proof (induction bs rule: base64_encode.induct)
  case (1 x y z bs)
  then have "base64_text (base64_encode bs)" by simp
  moreover have "x div 4 < 64" "x mod 4 * 16 + y div 16 < 64" "y mod 16 * 4 + z div 64 < 64" "z mod 64 < 64"
    using 1(2) by auto
  ultimately show ?case
    by (simp del: upt_Suc add: base64_text_Cons [where s = "_ # _"] base64_text_Cons [where s = "base64_encode bs"] base64_char_text)
next
  case (2 x y)
  then have "x div 4 < 64" "x mod 4 * 16 + y div 16 < 64" "y mod 16 * 4 < 64" by auto
  then show ?case
    by (simp add: base64_text_Cons [where s = "_ # _"] base64_char_text) (simp add: base64_text_def)
next
  case (3 x)
  then have "x div 4 < 64" "x mod 4 * 16 < 64" by auto
  then show ?case
    by (simp add: base64_text_Cons [where s = "_ # _"] base64_char_text) (simp add: base64_text_def)
qed (simp add: base64_text_def)

lemma base64_text_plain:
  assumes "base64_text b"
  shows "CHR ''<'' \<notin> set b" "CHR ''&'' \<notin> set b" "trim b = b"
proof -
  have "js_word c \<or> c \<in> set ''+/=''" if "c \<in> set b" for c
    using assms that by (auto simp: base64_text_def list_all_iff js_word_def)
  moreover have "\<not> js_space c \<and> c \<noteq> CHR ''<'' \<and> c \<noteq> CHR ''&''" if "js_word c \<or> c \<in> set ''+/=''" for c
    using that
  proof
    assume "js_word c"
    then show ?thesis using js_space_not_word by (auto simp: js_word_def js_alpha_def js_digit_def)
  qed (auto simp: js_space_def)
  ultimately have "\<not> js_space c" "c \<noteq> CHR ''<''" "c \<noteq> CHR ''&''" if "c \<in> set b" for c using that by blast+
  note chars = this
  have keep: "dropWhile js_space x = x" if "set x \<subseteq> set b" for x
    using that chars(1) by (cases x) auto
  show "CHR ''<'' \<notin> set b" "CHR ''&'' \<notin> set b" using chars by blast+
  show "trim b = b" using keep [of b] keep [of "rev b"] by (simp add: trim_def trim_start_def trim_end_def)
qed

lemma read_column:
  assumes "xmlColumn u n cell = Inr t" and "cell_ok cell" and "bytes_ok u"
    and "rd_column rd = None" and "\<not> rd_structure rd" and "rd_row rd = Some cells"
  shows "xml_read u (t @ r) rd = xml_read u r (rd\<lparr>rd_row := Some (map_set n (imported_cell u cell) cells)\<rparr>)"
proof -
  have rd: "rd\<lparr>rd_column := None, rd_row := x\<rparr> = rd\<lparr>rd_row := x\<rparr>" for x using assms(4) by (cases rd) simp
  have quoted: "dq \<notin> set (xmlEscape n)" by (rule xmlEscape_chars)
  note facts = assms(4-6) decode_xmlEscape attr_def column_value_def rd Let_def quoted
  have null: "xml_read u (open_tag ''column'' [(''name'', xmlEscape n), (''null'', ''true'')] True @ r) rd
      = xml_read u r (rd\<lparr>rd_row := Some (map_set n NullCell cells)\<rparr>)"
    by (simp add: read_open facts decode_plain)
  have base64: "xml_read u (open_tag ''column'' [(''name'', xmlEscape n), (''encoding'', ''base64'')] False @ b @ close_tag ''column'' @ r) rd
      = xml_read u r (rd\<lparr>rd_row := Some (map_set n (BytesCell b) cells)\<rparr>)" if "base64_text b" for b
    using base64_text_plain [OF that] by (simp add: read_open read_value facts decode_plain)
  have plain: "xml_read u (open_tag ''column'' [(''name'', xmlEscape n)] False @ xmlEscape v @ close_tag ''column'' @ r) rd
      = xml_read u r (rd\<lparr>rd_row := Some (map_set n (TextCell v) cells)\<rparr>)" for v
    using xmlEscape_chars(1) [of v] by (simp add: read_open read_value facts)
  have coded: "base64_text (base64_of u v)" for v
    using assms(3) by (auto simp: base64_of_def bytes_ok_def intro: base64_encode_text)
  show ?thesis
    using assms(1,2) null base64 plain coded
    by (cases cell) (auto simp: imported_cell_def)
qed

text \<open>Between a table's tags: no column open, not in its structure.\<close>

definition at_rest :: "XmlReader \<Rightarrow> bool" where
  "at_rest rd \<longleftrightarrow> rd_column rd = None \<and> \<not> rd_structure rd"

lemma blank_skips:
  "at_rest rd \<Longrightarrow> CHR ''<'' \<notin> set t \<Longrightarrow> xml_read u (t @ s) rd = xml_read u s rd"
  by (rule read_skip) (simp_all add: at_rest_def)

lemma NL_plain [simp]: "CHR ''<'' \<notin> set NL"
  by (simp add: NL_def)

lemma at_rest_row [simp]: "at_rest (rd\<lparr>rd_row := x\<rparr>) \<longleftrightarrow> at_rest rd"
  by (simp add: at_rest_def)

lemma map_set_new: "k \<notin> fst ` set m \<Longrightarrow> map_set k v m = m @ [(k, v)]"
  by (induction k v m rule: map_set.induct) auto

definition row_values :: "Unicode \<Rightarrow> string list \<Rightarrow> Cell list \<Rightarrow> (string \<times> RowCell) list" where
  "row_values u columns row = map (\<lambda>i. (columns ! i, imported_cell u (row_cell row i))) [0..<length columns]"

lemma read_cells:
  assumes "list_all2 (\<lambda>i t. \<exists>c. t = ''      '' @ c \<and> xmlColumn u (columns ! i) (row_cell row i) = Inr c) is ts"
    and "distinct (map ((!) columns) is)" and "\<forall>i \<in> set is. columns ! i \<notin> fst ` set cells"
    and "\<forall>i. cell_ok (row_cell row i)" and "bytes_ok u" and "at_rest rd" and "rd_row rd = Some cells"
    and "CHR ''<'' \<notin> set sep"
  shows "xml_read u (join sep ts @ r) rd
    = xml_read u r (rd\<lparr>rd_row := Some (cells @ map (\<lambda>i. (columns ! i, imported_cell u (row_cell row i))) is)\<rparr>)"
  using assms(1-3,6,7)
proof (induction "is" ts arbitrary: cells rd rule: list_all2_induct)
  case Nil
  then have "rd\<lparr>rd_row := Some cells\<rparr> = rd" by (cases rd) simp
  then show ?case by simp
next
  case (Cons i "is" t ts)
  then obtain c where t: "t = ''      '' @ c" and c: "xmlColumn u (columns ! i) (row_cell row i) = Inr c" by blast
  let ?rd = "rd\<lparr>rd_row := Some (cells @ [(columns ! i, imported_cell u (row_cell row i))])\<rparr>"
  have first: "xml_read u (t @ s) rd = xml_read u s ?rd" for s
  proof -
    have "xml_read u (''      '' @ c @ s) rd = xml_read u (c @ s) rd"
      by (rule blank_skips [OF \<open>at_rest rd\<close>]) simp
    also have "\<dots> = xml_read u s ?rd"
      using read_column [OF c] Cons.prems assms(4,5) by (simp add: at_rest_def map_set_new)
    finally show ?thesis by (simp only: t append_assoc)
  qed
  have rest: "xml_read u (join sep ts @ r) ?rd = xml_read u r (?rd\<lparr>rd_row := Some ((cells @ [(columns ! i, imported_cell u (row_cell row i))])
      @ map (\<lambda>i. (columns ! i, imported_cell u (row_cell row i))) is)\<rparr>)"
    by (rule Cons.IH) (use Cons.prems in \<open>auto, metis imageI\<close>)
  show ?case
  proof (cases ts)
    case Nil
    with Cons.hyps(2) have "is = []" by simp
    with Nil first show ?thesis by simp
  next
    case (Cons t' ts')
    have "xml_read u (join sep (t # ts) @ r) rd = xml_read u (sep @ join sep ts @ r) ?rd"
      using Cons first [of "sep @ join sep ts @ r"] by simp
    also have "\<dots> = xml_read u (join sep ts @ r) ?rd"
      using \<open>at_rest rd\<close> assms(8) by (intro blank_skips) simp_all
    finally show ?thesis using rest by simp
  qed
qed

lemma emit_rest [simp]: "at_rest (emit_row b cells rd) \<longleftrightarrow> at_rest rd" "rd_direct (emit_row b cells rd) = rd_direct rd"
  "rd_row (emit_row b cells rd) = rd_row rd" "rd_table (emit_row b cells rd) = rd_table rd"
  by (auto simp: emit_row_def at_rest_def Let_def)

lemma emit_with_row: "(emit_row b cells (rd\<lparr>rd_row := x\<rparr>))\<lparr>rd_row := y\<rparr> = (emit_row b cells rd)\<lparr>rd_row := y\<rparr>"
  by (cases rd) (simp add: emit_row_def Let_def)

lemma read_row:
  assumes "xml_row u columns row = Inr t" and "distinct columns" and "\<forall>i. cell_ok (row_cell row i)" and "bytes_ok u"
    and "at_rest rd"
  shows "xml_read u (t @ r) rd = xml_read u r ((emit_row True (row_values u columns row) rd)\<lparr>rd_row := None\<rparr>)"
proof -
  from assms(1) obtain ts where a: "rmap (\<lambda>i. rbind (xmlColumn u (columns ! i) (row_cell row i)) (\<lambda>s. Inr (''      '' @ s))) [0..<length columns] = Inr ts"
    and t: "t = ''    '' @ open_tag ''row'' [] False @ NL @ join NL ts @ NL @ ''    '' @ close_tag ''row'' @ NL"
    by (auto simp: xml_row_def rbind_eq_Inr)
  have ts: "list_all2 (\<lambda>i t. \<exists>c. t = ''      '' @ c \<and> xmlColumn u (columns ! i) (row_cell row i) = Inr c) [0..<length columns] ts"
    using a unfolding rmap_eq_Inr by (rule list_all2_mono) (auto simp: rbind_eq_Inr)
  have rest': "at_rest (rd\<lparr>rd_row := x\<rparr>)" for x using assms(5) by simp
  have apart: "distinct (map ((!) columns) [0..<length columns])" using assms(2) by (simp add: map_nth)
  have cells: "xml_read u (join NL ts @ s) (rd\<lparr>rd_row := Some []\<rparr>)
      = xml_read u s (rd\<lparr>rd_row := Some (row_values u columns row)\<rparr>)" for s
    using read_cells [OF ts apart _ assms(3,4) rest' [of "Some []"], where cells = "[]" and sep = NL and r = s]
    by (simp add: row_values_def)
  have skip: "xml_read u (''    '' @ s) rd' = xml_read u s rd'" if "at_rest rd'" for s rd' using that by (rule blank_skips) simp
  have line: "xml_read u (NL @ s) rd' = xml_read u s rd'" if "at_rest rd'" for s rd' using that by (rule blank_skips) simp
  have "xml_read u (t @ r) rd = xml_read u (join NL ts @ NL @ ''    '' @ close_tag ''row'' @ NL @ r) (rd\<lparr>rd_row := Some []\<rparr>)"
    using rest' by (simp only: t append_assoc skip [OF assms(5)] read_open tag_names list.pred_inject(1)) (simp add: line)
  also have "\<dots> = xml_read u (NL @ ''    '' @ close_tag ''row'' @ NL @ r) (rd\<lparr>rd_row := Some (row_values u columns row)\<rparr>)"
    by (rule cells)
  also have "\<dots> = xml_read u (NL @ r) ((emit_row True (row_values u columns row) (rd\<lparr>rd_row := Some (row_values u columns row)\<rparr>))\<lparr>rd_row := None\<rparr>)"
    using rest' by (simp only: line skip read_close tag_names) simp
  also have "\<dots> = xml_read u r ((emit_row True (row_values u columns row) rd)\<lparr>rd_row := None\<rparr>)"
    using assms(5) by (simp add: line emit_with_row)
  finally show ?thesis .
qed

text \<open>The rows of a table, one after the other.\<close>

definition add_rows :: "Unicode \<Rightarrow> string list \<Rightarrow> Cell list list \<Rightarrow> XmlReader \<Rightarrow> XmlReader" where
  "add_rows u columns rows rd = fold (\<lambda>row rd. (emit_row True (row_values u columns row) rd)\<lparr>rd_row := None\<rparr>) rows rd"

definition numbered :: "nat \<Rightarrow> 'a list \<Rightarrow> (nat \<times> 'a) list" where
  "numbered n xs = zip [Suc n..<Suc n + length xs] xs"

lemma numbered_simps: "numbered n [] = []" "numbered n (x # xs) = (Suc n, x) # numbered (Suc n) xs"
  by (simp_all add: numbered_def upt_rec)

lemma add_rows_rest: "at_rest (add_rows u columns rows rd) \<longleftrightarrow> at_rest rd" "rd_direct (add_rows u columns rows rd) = rd_direct rd"
  "rd_table (add_rows u columns rows rd) = rd_table rd"
  by (induction rows arbitrary: rd) (simp_all add: add_rows_def)

lemma add_rows_append: "add_rows u columns (rows @ rows') rd = add_rows u columns rows' (add_rows u columns rows rd)"
  by (simp add: add_rows_def)

lemma map_set_last: "k \<notin> fst ` set m \<Longrightarrow> map_set k v (m @ [(k, v')]) = m @ [(k, v)]"
  by (induction m) auto

lemma map_of_last: "k \<notin> fst ` set m \<Longrightarrow> map_of (m @ [(k, v)]) k = Some v"
  by (induction m) auto

lemma row_values_names: "columns \<noteq> [] \<Longrightarrow> row_values u columns row \<noteq> []" "map fst (row_values u columns row) = columns"
  by (simp_all add: row_values_def comp_def map_nth)

lemma emit_more:
  assumes "columns \<noteq> []" and "rd_tables rd = ts @ [(rd_table rd, \<lparr>tr_header = columns, tr_rows = old\<rparr>)]" and "rd_table rd \<notin> fst ` set ts"
  shows "rd_tables (emit_row True (row_values u columns row) rd)
      = ts @ [(rd_table rd, \<lparr>tr_header = columns, tr_rows = old @ [(Suc (rd_count rd), row_values u columns row)]\<rparr>)]"
    "rd_count (emit_row True (row_values u columns row) rd) = Suc (rd_count rd)"
proof -
  have found: "map_of (rd_tables rd) (rd_table rd) = Some \<lparr>tr_header = columns, tr_rows = old\<rparr>"
    unfolding assms(2) by (rule map_of_last [OF assms(3)])
  have "rd_tables (emit_row True (row_values u columns row) rd) = map_set (rd_table rd)
      \<lparr>tr_header = columns, tr_rows = old @ [(Suc (rd_count rd), row_values u columns row)]\<rparr> (rd_tables rd)"
    using assms(1) by (simp add: emit_row_def Let_def row_values_names found)
  then show "rd_tables (emit_row True (row_values u columns row) rd)
      = ts @ [(rd_table rd, \<lparr>tr_header = columns, tr_rows = old @ [(Suc (rd_count rd), row_values u columns row)]\<rparr>)]"
    using map_set_last [OF assms(3)] assms(2) by simp
  show "rd_count (emit_row True (row_values u columns row) rd) = Suc (rd_count rd)"
    using assms(1) by (simp add: emit_row_def Let_def row_values_names)
qed

lemma add_more:
  assumes "columns \<noteq> []" and "rd_tables rd = ts @ [(rd_table rd, \<lparr>tr_header = columns, tr_rows = old\<rparr>)]" and "rd_table rd \<notin> fst ` set ts"
  shows "rd_tables (add_rows u columns rows rd)
      = ts @ [(rd_table rd, \<lparr>tr_header = columns, tr_rows = old @ numbered (rd_count rd) (map (row_values u columns) rows)\<rparr>)]
    \<and> rd_count (add_rows u columns rows rd) = rd_count rd + length rows"
  using assms
proof (induction rows arbitrary: rd old)
  case Nil
  then show ?case by (simp add: add_rows_def numbered_simps)
next
  case (Cons row rows)
  let ?rd = "(emit_row True (row_values u columns row) rd)\<lparr>rd_row := None\<rparr>"
  have "rd_tables ?rd = ts @ [(rd_table ?rd, \<lparr>tr_header = columns, tr_rows = old @ [(Suc (rd_count rd), row_values u columns row)]\<rparr>)]"
    "rd_count ?rd = Suc (rd_count rd)" "rd_table ?rd \<notin> fst ` set ts"
    using emit_more [OF Cons.prems] Cons.prems(3) by simp_all
  from Cons.IH [OF Cons.prems(1) this(1,3)] this(2) show ?case
    by (simp add: add_rows_def numbered_simps)
qed

lemma add_rows_new:
  assumes "columns \<noteq> []" and "rd_table rd \<notin> fst ` set (rd_tables rd)"
  shows "rd_tables (add_rows u columns rows rd) = rd_tables rd @ (if rows = [] then []
      else [(rd_table rd, \<lparr>tr_header = columns, tr_rows = numbered (rd_count rd) (map (row_values u columns) rows)\<rparr>)])
    \<and> rd_count (add_rows u columns rows rd) = rd_count rd + length rows"
proof (cases rows)
  case Nil
  then show ?thesis by (simp add: add_rows_def)
next
  case (Cons row rows')
  let ?rd = "(emit_row True (row_values u columns row) rd)\<lparr>rd_row := None\<rparr>"
  have none: "map_of (rd_tables rd) (rd_table rd) = None" using assms(2) by (simp add: map_of_eq_None_iff)
  have "rd_tables ?rd = rd_tables rd @ [(rd_table ?rd, \<lparr>tr_header = columns, tr_rows = [(Suc (rd_count rd), row_values u columns row)]\<rparr>)]"
    "rd_count ?rd = Suc (rd_count rd)" "rd_table ?rd \<notin> fst ` set (rd_tables rd)"
    using assms none by (simp_all add: emit_row_def Let_def row_values_names map_set_new filter_id_conv)
  from add_more [OF assms(1) this(1,3), of u rows'] this(2) Cons show ?thesis
    by (simp add: add_rows_def numbered_simps)
qed

text \<open>A table of an export: its batches name the same columns, and the bytes of its cells are base64.\<close>

definition table_batches :: "XmlTable \<Rightarrow> Batch list" where
  "table_batches t = (case xt_data t of None \<Rightarrow> [] | Some bs \<Rightarrow> bs)"

definition table_rows :: "XmlTable \<Rightarrow> Cell list list" where
  "table_rows t = concat (map ba_rows (table_batches t))"

definition table_columns :: "XmlTable \<Rightarrow> string list" where
  "table_columns t = (case filter (\<lambda>b. ba_rows b \<noteq> []) (table_batches t) of b # _ \<Rightarrow> ba_columns b | [] \<Rightarrow> [])"

definition xml_table_ok :: "XmlTable \<Rightarrow> bool" where
  "xml_table_ok t \<longleftrightarrow> list_all (\<lambda>b. ba_rows b \<noteq> [] \<longrightarrow> ba_columns b = table_columns t \<and> ba_columns b \<noteq> []
     \<and> distinct (ba_columns b) \<and> list_all (list_all cell_ok) (ba_rows b)) (table_batches t)"

lemma read_rows:
  assumes "list_all2 (\<lambda>row t. xml_row u columns row = Inr t) rows ts" and "distinct columns" and "list_all (list_all cell_ok) rows"
    and "bytes_ok u" and "at_rest rd"
  shows "xml_read u (concat ts @ r) rd = xml_read u r (add_rows u columns rows rd)"
  using assms(1,3,5)
proof (induction rows ts arbitrary: rd rule: list_all2_induct)
  case Nil
  then show ?case by (simp add: add_rows_def)
next
  case (Cons row rows t ts)
  then have "\<forall>i. cell_ok (row_cell row i)" by (auto simp: row_cell_def list_all_length)
  from read_row [OF Cons.hyps(1) assms(2) this assms(4) \<open>at_rest rd\<close>] Cons show ?case
    by (simp add: add_rows_def)
qed

lemma read_batches:
  assumes "list_all2 (\<lambda>b t. xml_batch u b = Inr t) bs ts" and "bytes_ok u" and "at_rest rd"
    and "list_all (\<lambda>b. ba_rows b \<noteq> [] \<longrightarrow> ba_columns b = columns \<and> distinct (ba_columns b) \<and> list_all (list_all cell_ok) (ba_rows b)) bs"
  shows "xml_read u (concat ts @ r) rd = xml_read u r (add_rows u columns (concat (map ba_rows bs)) rd)"
  using assms(1,3,4)
proof (induction bs ts arbitrary: rd rule: list_all2_induct)
  case Nil
  then show ?case by (simp add: add_rows_def)
next
  case (Cons b bs t ts)
  have "xml_read u (t @ concat ts @ r) rd = xml_read u (concat ts @ r) (add_rows u columns (ba_rows b) rd)"
  proof (cases "ba_rows b = []")
    case True
    with Cons.hyps(1) show ?thesis by (simp add: xml_batch_def add_rows_def)
  next
    case False
    with Cons.hyps(1) obtain rows where "list_all2 (\<lambda>row t. xml_row u (ba_columns b) row = Inr t) (ba_rows b) rows" "t = concat rows"
      by (auto simp: xml_batch_def rbind_eq_Inr rmap_eq_Inr)
    with read_rows [of u columns "ba_rows b" rows rd "concat ts @ r"] False Cons.prems assms(2) show ?thesis by auto
  qed
  with Cons show ?case by (simp add: add_rows_append add_rows_rest)
qed

text \<open>Tags the reader passes over.\<close>

definition passed_over :: "XmlReader \<Rightarrow> string \<Rightarrow> bool" where
  "passed_over rd n \<longleftrightarrow> tag_name n \<and> n \<noteq> ''table'' \<and> n \<noteq> ''structure'' \<and> n \<noteq> ''row'' \<and> (n \<noteq> ''column'' \<or> rd_structure rd)"

lemma pass_open:
  assumes "passed_over rd n" and "rd_column rd = None" and "list_all attr_ok attrs"
  shows "xml_read u (open_tag n attrs closed @ r) rd = xml_read u r rd"
  using assms by (auto simp: passed_over_def read_open split: option.split)

lemma pass_close:
  assumes "passed_over rd n" and "rd_column rd = None"
  shows "xml_read u (close_tag n @ r) rd = xml_read u r rd"
  using assms by (auto simp: passed_over_def read_close)

lemma pass_text: "rd_column rd = None \<Longrightarrow> CHR ''<'' \<notin> set t \<Longrightarrow> xml_read u (t @ r) rd = xml_read u r rd"
  by (rule read_skip)

lemma read_structure:
  assumes "at_rest rd"
  shows "xml_read u (xmlStructure u rows @ r) rd = xml_read u r rd"
proof -
  let ?in = "rd\<lparr>rd_structure := True\<rparr>"
  have none: "rd_column ?in = None" "rd_column rd = None" using assms by (simp_all add: at_rest_def)
  have attrs: "list_all attr_ok (map (\<lambda>(k, v). (k, xmlAttribute u v)) (structure_attrs row))" for row
    by (auto simp: structure_attrs_def xmlAttribute_chars split: option.split)
  have lines: "xml_read u (concat (map (\<lambda>row. ''      '' @ open_tag ''column'' (map (\<lambda>(k, v). (k, xmlAttribute u v)) (structure_attrs row)) True @ NL) rows) @ s) ?in
      = xml_read u s ?in" for s
  proof (induction rows)
    case (Cons row rows)
    have "xml_read u (''      '' @ open_tag ''column'' (map (\<lambda>(k, v). (k, xmlAttribute u v)) (structure_attrs row)) True @ NL @ s') ?in
        = xml_read u s' ?in" for s'
      using none attrs by (subst pass_text, simp, simp, subst pass_open, simp_all add: passed_over_def pass_text)
    with Cons show ?case by simp
  qed simp
  have same: "?in\<lparr>rd_structure := False\<rparr> = rd" using assms by (cases rd) (simp add: at_rest_def)
  have start: "xml_read u (open_tag ''structure'' [] False @ s) rd = xml_read u s ?in" for s
    by (simp add: read_open)
  have stop: "xml_read u (close_tag ''structure'' @ s) ?in = xml_read u s rd" for s
    using same by (simp add: read_close)
  show ?thesis unfolding xmlStructure_def append_assoc
    by (subst pass_text, simp add: none, simp, subst start, subst pass_text, simp add: none, simp, subst lines,
        subst pass_text, simp add: none, simp, subst stop, rule pass_text) (simp_all add: none)
qed

definition table_part :: "Unicode \<Rightarrow> nat \<Rightarrow> XmlTable \<Rightarrow> (string \<times> TableRead) list" where
  "table_part u n t = (if table_rows t = [] then [] else [(xt_name t, \<lparr>tr_header = table_columns t,
     tr_rows = numbered n (map (row_values u (table_columns t)) (table_rows t))\<rparr>)])"

lemma columns_given: "xml_table_ok t \<Longrightarrow> table_rows t \<noteq> [] \<Longrightarrow> table_columns t \<noteq> []"
  by (auto simp: xml_table_ok_def table_rows_def list_all_iff)

lemma read_table:
  assumes "xml_table u t = Inr s" and "xml_table_ok t" and "bytes_ok u" and "at_rest rd" and "xt_name t \<notin> fst ` set (rd_tables rd)"
  shows "\<exists>rd'. xml_read u (s @ r) rd = xml_read u r rd' \<and> at_rest rd' \<and> rd_tables rd' = rd_tables rd @ table_part u (rd_count rd) t
    \<and> rd_count rd' = rd_count rd + length (table_rows t)"
proof -
  from assms(1) obtain data where data: "list_all2 (\<lambda>b t. xml_batch u b = Inr t) (table_batches t) data"
    and s: "s = ''  '' @ open_tag ''table'' [(''name'', xmlEscape (xt_name t))] False @ NL
        @ (case xt_structure t of None \<Rightarrow> [] | Some rows \<Rightarrow> xmlStructure u rows) @ concat data @ ''  '' @ close_tag ''table'' @ NL"
    by (auto simp: xml_table_def rbind_eq_Inr rmap_eq_Inr table_batches_def)
  let ?rd = "rd\<lparr>rd_table := xt_name t, rd_direct := Some []\<rparr>"
  let ?rows = "add_rows u (table_columns t) (table_rows t) ?rd"
  let ?out = "?rows\<lparr>rd_direct := None\<rparr>"
  have rest: "at_rest ?rd" "at_rest ?rows" "at_rest ?out" using assms(4) by (simp_all add: at_rest_def add_rows_rest [unfolded at_rest_def])
  have start: "xml_read u (open_tag ''table'' [(''name'', xmlEscape (xt_name t))] False @ s) rd = xml_read u s ?rd" for s
    by (simp add: read_open xmlEscape_chars attr_def decode_xmlEscape)
  have described: "xml_read u ((case xt_structure t of None \<Rightarrow> [] | Some rows \<Rightarrow> xmlStructure u rows) @ s) ?rd = xml_read u s ?rd" for s
    using rest(1) by (cases "xt_structure t") (simp_all add: read_structure)
  have rows: "xml_read u (concat data @ s) ?rd = xml_read u s ?rows" for s
    unfolding table_rows_def
    by (rule read_batches [OF data assms(3) rest(1)]) (use assms(2) in \<open>auto simp: xml_table_ok_def elim: list.pred_mono_strong\<close>)
  have "rd_direct ?rows = Some []" by (simp add: add_rows_rest)
  then have stop: "xml_read u (close_tag ''table'' @ s) ?rows = xml_read u s ?out" for s
    by (simp add: read_close)
  have "xml_read u (s @ r) rd = xml_read u r ?out" unfolding s append_assoc
    by (subst blank_skips [OF assms(4)], simp, subst start, subst blank_skips [OF rest(1)], simp, subst described, subst rows,
        subst blank_skips [OF rest(2)], simp, subst stop, subst blank_skips [OF rest(3)]) simp_all
  moreover have "rd_tables ?out = rd_tables rd @ table_part u (rd_count rd) t \<and> rd_count ?out = rd_count rd + length (table_rows t)"
  proof (cases "table_rows t = []")
    case True
    then show ?thesis by (simp add: add_rows_def table_part_def)
  next
    case False
    with add_rows_new [OF columns_given [OF assms(2) False], of ?rd u "table_rows t"] assms(5) show ?thesis
      by (simp add: table_part_def)
  qed
  ultimately show ?thesis using rest(3) by blast
qed

text \<open>The objects after the tables hold no row.\<close>

lemma passed_tags [simp]: "passed_over rd ''definition''" "passed_over rd ''unreadable''" "passed_over rd ''views''" "passed_over rd ''view''"
  "passed_over rd ''routines''" "passed_over rd ''routine''" "passed_over rd ''triggers''" "passed_over rd ''trigger''" "passed_over rd ''export''"
  by (simp_all add: passed_over_def)

lemma pass_definition:
  assumes "rd_column rd = None" and "bytes_ok u" and "CHR ''<'' \<notin> set indent"
  shows "xml_read u (xmlDefinition u indent d @ r) rd = xml_read u r rd"
proof -
  have "base64_text (base64_of u d)" using assms(2) by (auto simp: base64_of_def bytes_ok_def intro: base64_encode_text)
  then have "CHR ''<'' \<notin> set (base64_of u d)" by (rule base64_text_plain)
  then show ?thesis using assms
    by (auto simp: xmlDefinition_def pass_text pass_open pass_close xmlEscape_chars)
qed

definition object_ok :: "XmlObject \<Rightarrow> bool" where
  "object_ok ob \<longleftrightarrow> list_all (\<lambda>a. tag_name (fst a)) (xo_attrs ob)"

lemma pass_object:
  assumes "rd_column rd = None" and "bytes_ok u" and "passed_over rd kind" and "object_ok ob"
  shows "xml_read u (xml_object u kind ob @ r) rd = xml_read u r rd"
proof -
  have "list_all attr_ok (map (\<lambda>(k, v). (k, xmlEscape v)) (xo_attrs ob))"
    using assms(4) by (auto simp: object_ok_def list_all_iff xmlEscape_chars)
  note open_kind = pass_open [OF assms(3,1) this]
  have blank: "xml_read u (''    '' @ s) rd = xml_read u s rd" "xml_read u (''      '' @ s) rd = xml_read u s rd"
    "xml_read u (NL @ s) rd = xml_read u s rd" for s
    using assms(1) by (rule pass_text, simp)+
  have "xml_read u ((case xo_definition ob of None \<Rightarrow> ''      '' @ open_tag ''unreadable'' [] True @ NL
          | Some sql \<Rightarrow> xmlDefinition u ''      '' sql) @ s) rd = xml_read u s rd" for s
    using assms(1,2) pass_text [of rd "''      ''" u] by (cases "xo_definition ob") (simp_all add: pass_definition pass_open pass_text)
  note mid = this
  show ?thesis unfolding xml_object_def append_assoc
    by (simp only: blank open_kind mid pass_close [OF assms(3,1)])
qed

lemma pass_objects:
  assumes "rd_column rd = None" and "bytes_ok u" and "passed_over rd kinds" and "passed_over rd kind" and "list_all object_ok obs"
  shows "xml_read u (xml_object_list u kinds kind obs @ r) rd = xml_read u r rd"
proof -
  have all: "xml_read u (concat (map (xml_object u kind) obs) @ s) rd = xml_read u s rd" for s
    using assms(5) by (induction obs) (simp_all add: pass_object [OF assms(1,2,4)])
  have blank: "xml_read u (''  '' @ s) rd = xml_read u s rd" "xml_read u (NL @ s) rd = xml_read u s rd" for s
    using assms(1) by (rule pass_text, simp)+
  have start: "xml_read u (open_tag kinds [] False @ s) rd = xml_read u s rd" for s
    by (rule pass_open [OF assms(3,1)]) simp
  show ?thesis
  proof (cases "obs = []")
    case False
    then show ?thesis
      by (simp only: xml_object_list_def if_False append_assoc blank start all pass_close [OF assms(3,1)])
  qed (simp add: xml_object_list_def)
qed

lemma pass_all_objects:
  assumes "rd_column rd = None" and "bytes_ok u"
  shows "xml_read u (xmlObjects u tables objs @ r) rd = xml_read u r rd"
proof -
  have objects: "xml_read u ((case x of None \<Rightarrow> [] | Some vs \<Rightarrow> xml_object_list u kinds kind (f vs)) @ s) rd = xml_read u s rd"
    if "passed_over rd kinds" "passed_over rd kind" "\<And>vs. list_all object_ok (f vs)" for x :: "'a option" and kinds kind f s
    using that pass_objects [OF assms] by (cases x) simp_all
  show ?thesis unfolding xmlObjects_def append_assoc
    by (subst objects, simp, simp, force simp: list_all_iff object_ok_def,
        subst objects, simp, simp, force simp: list_all_iff object_ok_def,
        subst objects, simp, simp, force simp: list_all_iff object_ok_def) (rule refl)
qed

lemma read_head:
  assumes "rd_column rd = None"
  shows "xml_read u (xml_head ns @ r) rd = xml_read u r rd"
proof -
  let ?pi = "''<?xml version='' @ [dq] @ ''1.0'' @ [dq] @ '' encoding='' @ [dq] @ ''UTF-8'' @ [dq] @ ''?>''"
  have "markup_at (?pi @ s) = Some ([], s)" for s
    by (simp add: markup_at_def skip_past_def)
  then have pi: "xml_read u (?pi @ s) rd = xml_read u s rd" for s
    by (simp add: xml_read_def xml_events.simps(2) del: append_Cons append_assoc) (simp add: xml_events.simps(2))
  show ?thesis
    using assms unfolding xml_head_def append_assoc
    by (simp only: pi [simplified append_assoc], subst pass_text, assumption, simp, subst pass_open)
      (auto simp: xmlEscape_chars pass_text split: option.split)
qed

subsection \<open>The theorem\<close>

text \<open>The tables of an export as they are read: those with rows, the rows numbered through the file.\<close>

definition imported_row :: "Unicode \<Rightarrow> string list \<Rightarrow> Cell list \<Rightarrow> RowCell list" where
  "imported_row u columns row = map (\<lambda>i. imported_cell u (row_cell row i)) [0..<length columns]"

fun exported :: "Unicode \<Rightarrow> nat \<Rightarrow> XmlTable list \<Rightarrow> (string \<times> string list \<times> (nat \<times> RowCell list) list) list" where
  "exported u n [] = []"
| "exported u n (t # ts) = (if table_rows t = [] then [] else [(xt_name t, table_columns t,
       numbered n (map (imported_row u (table_columns t)) (table_rows t)))]) @ exported u (n + length (table_rows t)) ts"

lemma row_values_read:
  assumes "distinct columns"
  shows "map (\<lambda>h. case map_of (row_values u columns row) h of Some c \<Rightarrow> c | None \<Rightarrow> NullCell) columns = imported_row u columns row"
proof -
  have names: "distinct (map fst (row_values u columns row))" using assms by (simp add: row_values_def comp_def map_nth)
  have "map_of (row_values u columns row) (columns ! i) = Some (imported_cell u (row_cell row i))" if "i < length columns" for i
    using names by (rule map_of_is_SomeI) (use that in \<open>auto simp: row_values_def\<close>)
  then show ?thesis by (intro nth_equalityI) (simp_all add: imported_row_def)
qed

lemma numbered_map: "map (\<lambda>(n, x). (n, f x)) (numbered n xs) = numbered n (map f xs)"
  by (simp add: numbered_def zip_map2)

lemma part_read:
  assumes "xml_table_ok t" and "table_rows t \<noteq> []"
  shows "map table_read (table_part u n t) = [(xt_name t, table_columns t, numbered n (map (imported_row u (table_columns t)) (table_rows t)))]"
proof -
  have "distinct (table_columns t)" using assms by (auto simp: xml_table_ok_def table_rows_def list_all_iff)
  from row_values_read [OF this, of u] assms(2) show ?thesis
    by (simp add: table_part_def table_read_def numbered_map comp_def)
qed

lemma read_tables:
  assumes "list_all2 (\<lambda>t s. xml_table u t = Inr s) ts ss" and "list_all xml_table_ok ts" and "bytes_ok u" and "at_rest rd"
    and "distinct (map xt_name ts)" and "\<forall>t \<in> set ts. xt_name t \<notin> fst ` set (rd_tables rd)"
  shows "\<exists>rd'. xml_read u (concat ss @ r) rd = xml_read u r rd' \<and> at_rest rd'
    \<and> map table_read (rd_tables rd') = map table_read (rd_tables rd) @ exported u (rd_count rd) ts"
  using assms(1,2,4-6)
proof (induction ts ss arbitrary: rd rule: list_all2_induct)
  case Nil
  then show ?case by auto
next
  case (Cons t ts s ss)
  from read_table [OF Cons.hyps(1) _ assms(3), of rd "concat ss @ r"] Cons.prems obtain rd1 where
    first: "xml_read u (s @ concat ss @ r) rd = xml_read u (concat ss @ r) rd1" "at_rest rd1"
    "rd_tables rd1 = rd_tables rd @ table_part u (rd_count rd) t" "rd_count rd1 = rd_count rd + length (table_rows t)" by auto
  have "\<forall>t' \<in> set ts. xt_name t' \<notin> fst ` set (rd_tables rd1)"
    using Cons.prems(3,4) by (auto simp: first(3) table_part_def) (metis imageI)
  with Cons.IH [of rd1] Cons.prems first(2) obtain rd2 where
    second: "xml_read u (concat ss @ r) rd1 = xml_read u r rd2" "at_rest rd2"
    "map table_read (rd_tables rd2) = map table_read (rd_tables rd1) @ exported u (rd_count rd1) ts" by auto
  have "map table_read (rd_tables rd1) = map table_read (rd_tables rd) @ (if table_rows t = [] then [] else [(xt_name t, table_columns t,
       numbered (rd_count rd) (map (imported_row u (table_columns t)) (table_rows t)))])"
    using part_read [of t u "rd_count rd"] Cons.prems(1) first(3) by (simp add: table_part_def)
  with first(1,4) second show ?case by (intro exI [of _ rd2]) simp
qed

text \<open>C36: an XML export is read back as the tables it was made of, whatever their names and texts hold: every table with rows
  under its name, its columns in order, and of every row each value as what it was, NULL, bytes or text; a text that XML
  cannot carry comes back as its bytes.  The structure, the views, the routines and the triggers of the file add no row.\<close>

theorem xml_export_import:
  assumes "xmlBody u ns tables objs = Inr xml" and "list_all xml_table_ok tables" and "distinct (map xt_name tables)" and "bytes_ok u"
  shows "readXmlTables u True xml = exported u 0 tables"
proof -
  from assms(1) obtain ss where ss: "list_all2 (\<lambda>t s. xml_table u t = Inr s) tables ss"
    and xml: "xml = xml_head ns @ concat ss @ xmlObjects u (map xt_name tables) objs @ close_tag ''export'' @ NL"
    by (auto simp: xmlBody_def rbind_eq_Inr rmap_eq_Inr)
  have init: "at_rest reader_init" "rd_column reader_init = None" by (simp_all add: at_rest_def reader_init_def)
  from read_tables [OF ss assms(2,4) init(1) assms(3), of "xmlObjects u (map xt_name tables) objs @ close_tag ''export'' @ NL"]
  obtain rd where rd: "xml_read u (concat ss @ xmlObjects u (map xt_name tables) objs @ close_tag ''export'' @ NL) reader_init
      = xml_read u (xmlObjects u (map xt_name tables) objs @ close_tag ''export'' @ NL) rd" "at_rest rd"
    "map table_read (rd_tables rd) = exported u 0 tables"
    by (auto simp: reader_init_def)
  have none: "rd_column rd = None" using rd(2) by (simp add: at_rest_def)
  have "xml_read u xml reader_init = xml_read u (close_tag ''export'' @ NL @ []) rd"
    unfolding xml read_head [OF init(2)] rd(1) by (simp add: pass_all_objects [OF none assms(4)])
  also have "\<dots> = xml_read u [] rd"
    using none by (simp only: pass_close passed_tags) (rule pass_text, simp_all)
  also have "\<dots> = rd" by (simp add: xml_read_def xml_events.simps(1))
  finally show ?thesis using rd(3) by (simp add: readXmlTables_def xml_read_def)
qed

text \<open>
  An entity of the file that happens to be the name of something every JavaScript object inherits is not left as written.
\<close>

lemma inherited_entity: "decodeEntities u ''&toString;'' = ''function toString() { [native code] }''"
  by (simp add: entity_at_def named_until_def entity_text_def ENTITIES_def js_alpha_def)

definition plain_unicode :: Unicode where
  "plain_unicode = \<lparr>un_chars = (\<lambda>n. ''?''), un_bytes = map of_char, un_forbidden = (\<lambda>c. False), un_replacement = ''?''\<rparr>"

definition sample_tables :: "XmlTable list" where
  "sample_tables = [\<lparr>xt_name = ''a<b'', xt_structure = Some [\<lparr>sr_name = ''id'', sr_type = ''int'', sr_nullable = False, sr_default = None,
       sr_key = ''PRI'', sr_extra = [], sr_comment = []\<rparr>],
     xt_data = Some [\<lparr>ba_columns = [''id'', ''t''], ba_rows = [[CNumber (Finite ''1''), CString ''x & y''], [CNumber (Finite ''2''), CNull]]\<rparr>]\<rparr>,
     \<lparr>xt_name = ''c'', xt_structure = None, xt_data = Some [\<lparr>ba_columns = [''b''], ba_rows = [[CBin ''AAE='']]\<rparr>]\<rparr>]"

theorem xml_export_import_witness:
  "\<exists>xml. xmlBody plain_unicode \<lparr>ns_database = ''d'', ns_schema = None\<rparr> sample_tables
      \<lparr>ob_views = Some [(''v'', Some ''SELECT 1'')], ob_routines = None, ob_triggers = None\<rparr> = Inr xml
    \<and> readXmlTables plain_unicode True xml =
      [(''a<b'', [''id'', ''t''], [(1, [TextCell ''1'', TextCell ''x & y'']), (2, [TextCell ''2'', NullCell])]), (''c'', [''b''], [(3, [BytesCell ''AAE=''])])]"
proof -
  let ?body = "xmlBody plain_unicode \<lparr>ns_database = ''d'', ns_schema = None\<rparr> sample_tables
      \<lparr>ob_views = Some [(''v'', Some ''SELECT 1'')], ob_routines = None, ob_triggers = None\<rparr>"
  have "\<not> isl ?body" by code_simp
  then obtain xml where xml: "?body = Inr xml" by (cases ?body) auto
  have "of_char c < (256::nat)" for c :: char by simp
  then have bytes: "bytes_ok plain_unicode" by (auto simp: bytes_ok_def plain_unicode_def)
  have ok: "list_all xml_table_ok sample_tables" "distinct (map xt_name sample_tables)" by code_simp+
  have "exported plain_unicode 0 sample_tables =
      [(''a<b'', [''id'', ''t''], [(1, [TextCell ''1'', TextCell ''x & y'']), (2, [TextCell ''2'', NullCell])]), (''c'', [''b''], [(3, [BytesCell ''AAE=''])])]"
    by code_simp
  with xml_export_import [OF xml ok bytes] xml show ?thesis by simp
qed

end
