(* ===== verification/Spec2Isabelle.thy ===== *)
theory Spec2Isabelle
  imports Split_Facts Scripts Csv Access Limits Session_Stores Ddl_Props Query_Builder Search Console_Facts Infer_Type Secrets Factor_Props
    Delete_Impact Table_Scan Xml_Io
begin

text \<open>
  Tsmyadmin is a database administration tool for MySQL, MariaDB and PostgreSQL: a browser client, an HTTP API
  (\<open>src/apps/api\<close>), the two database adapters behind it (\<open>src/packages/adapter\<close>) and what all of them share
  (\<open>src/packages/shared\<close>).  These theories model the parts of the adapters, the API and the shared package that decide
  something: how SQL text is read, quoted and built, what is sent to a server and in which order, who may connect where,
  and what a session or a limit keeps.

  \<^bold>\<open>How the code is translated.\<close>  A pure function is a function, under its own name unless the name is taken.  A function that
  throws gives a \<open>result\<close>, the thrown error on the left.  An \<open>async\<close> method that talks to a server is a \<open>run\<close>
  (\<open>Runs\<close>): a state before, a thrown value or a result, and the state after.  A regular expression is a function that tries
  its alternatives in the order written.  Strings are lists of characters; a character above 127 stands for any
  character outside ASCII.  A \<open>while\<close> loop is \<open>while_option\<close>, or a \<open>function\<close> with its termination proof; no theorem
  rests on fuel.

  \<^bold>\<open>What the theories hold.\<close>
  \<^item> \<open>Prelude\<close>, \<open>Runs\<close>: results, runs, what the code uses of JavaScript's strings, numbers and regular expressions.
  \<^item> \<open>Dialects\<close>: \<open>capabilities.ts\<close>, \<open>lexical-rules.ts\<close>, namespaces and errors.
  \<^item> \<open>Lexer\<close>, \<open>Splitter\<close>, \<open>Split_Facts\<close>: \<open>sql/split.ts\<close>.  A token is never empty and stays inside the text, the loop
    ends, statements are pieces of the script in its order, and each carries the line of its first code.
  \<^item> \<open>Quoting\<close>: \<open>quote-identifier.ts\<close>, \<open>sql/quote.ts\<close>, \<open>sql/literal.ts\<close>, \<open>sql/row-functions.ts\<close>, wire cells.  What is
    quoted is read back by the scanner as one token with the value that went in.
  \<^item> \<open>Scripts\<close>: \<open>sql-script.ts\<close> (a script is split into the statements it was made of) and \<open>remaining-after-stop.ts\<close> (what is
    left to run completes what ran).
  \<^item> \<open>Ddl_Ops\<close>, \<open>Ddl_Common\<close>, \<open>Ddl_Postgres\<close>, \<open>Ddl_Mysql\<close>: the operations of \<open>schemas/ddl.ts\<close> and the builders
    \<open>sql/ddl-common.ts\<close>, \<open>postgres/ddl.ts\<close>, \<open>mysql/ddl.ts\<close>, one definition per operation.  \<open>Ddl_Script\<close>, \<open>Ddl_Facts\<close>,
    \<open>Ddl_Run\<close>, \<open>Ddl_Props\<close>: what a builder writes is split into its statements again, a change is whole or not made, a change
    of a column gives the column asked for, a missing capability is refused.
  \<^item> \<open>Conditions\<close>, \<open>Tables\<close>: \<open>sql/conditions.ts\<close>, \<open>mysql/key-types.ts\<close>, \<open>schemas/browse.ts\<close>, and the structure of a table
    with the key its rows are addressed by.  A text is built while its values are bound; a \<open>templated\<close> builder gives one
    text around its values, whether they are bound or written in.
  \<^item> \<open>Adapter_Conn\<close>: borrowing a connection and transactions, \<open>base.ts\<close>.  The server is the record \<open>Server\<close> of functions on
    an arbitrary database state: nothing is assumed of what it answers.  The log of a \<open>World\<close> is what was sent.
  \<^item> \<open>Rows\<close>, \<open>Row_Facts\<close>, \<open>Search\<close>: the row operations of \<open>base.ts\<close>.  A delete, an update or a bulk insert has its whole
    effect or none, for every server; what is shown is what is sent; what a search counts is what its DELETE matches.
  \<^item> \<open>Joins\<close>, \<open>Query_Builder\<close>: \<open>sql/join-plan.ts\<close> and \<open>buildQuery\<close>.  The plan ends, every join can be read in its place,
    and a plan exists exactly when foreign keys connect the tables.
  \<^item> \<open>Read_Wrap\<close>, \<open>Console\<close>, \<open>Console_Facts\<close>: \<open>sql/read-wrap.ts\<close> and \<open>sql-console.ts\<close>.  Runs and cancels are steps that
    interleave (\<open>console_step\<close>); the invariant \<open>console_inv\<close> holds in every reachable state.
  \<^item> \<open>Csv\<close>: \<open>csv.ts\<close>, with the CSV body of \<open>export.ts\<close> and the CSV source of \<open>import.ts\<close>.  What is exported is imported again.
  \<^item> \<open>Access\<close>, \<open>Limits\<close>, \<open>Sessions\<close>, \<open>Session_Stores\<close>: \<open>allowlist.ts\<close>, \<open>rate-limit.ts\<close>, \<open>concurrency.ts\<close>, \<open>identity.ts\<close>,
    \<open>store.ts\<close>, \<open>sqlite-store.ts\<close>.  Bounds on what is admitted and kept, as invariants of step relations.
  \<^item> \<open>Totp\<close>, \<open>Second_Factor\<close>: \<open>totp.ts\<close>, \<open>session/second-factor.ts\<close>, \<open>second-factor-lock.ts\<close>, \<open>passkey.ts\<close> and the requests of
    \<open>routes/second-factor.ts\<close>, each a task that runs from one \<open>await\<close> to the next (\<open>desk_step\<close>).  \<open>Second_Factor_Facts\<close>: the
    interleaved requests refine a \<open>Ledger\<close> of single steps, on which proofs are spent once and guesses bounded.
    \<open>Factor_Warrants\<close>: a change rests on a proof, a challenge is answered once.  \<open>Factor_Props\<close>: the properties, with runs.
  \<^item> \<open>Infer_Type\<close>, \<open>Secrets\<close>: \<open>infer-type.ts\<close> (every value fits the type guessed for its column) and \<open>sql-secrets.ts\<close> (nothing
    of a literal is shown after a credential keyword).

  \<^bold>\<open>What is not modelled.\<close>  The drivers, pools and catalog queries of the adapters (a server answers them), HTTP routes and the
  web client (glue over frameworks), cryptography (seals, hashes and the passkey library are arguments), the Redis store, Docker
  discovery, the formats other than CSV, plans and profiles, and the length and pattern checks of the schemas: a
  value is what parsing has already accepted.  Durations and log lines are left out wherever they occur.

  \<^bold>\<open>What is next.\<close>  The account statements of \<open>users.ts\<close>, keyset scans of \<open>mysql/scan.ts\<close>, the references and profiles of a table,
  and the import loop itself.
\<close>

end
